(* ===== verification/Prelude.thy ===== *)
theory Prelude
  imports Main "HOL-Library.Word" "HOL-Library.Monad_Syntax"
begin

unbundle bit_operations_syntax

text \<open>
  The vocabulary every component shares: bytes and machine integers, the three-valued outcome of a
  loop that may fault or fail to return, block memory (\<open>memcpy\<close> into a block, a checked
  read from it, \<open>strlen\<close>), the predicate \<open>located\<close> (some bytes stand at an
  offset of a memory), and two's complement wrap-around written out on \<open>int\<close>.
\<close>

named_theorems located_simps
named_theorems layout_simps

type_synonym byte = "8 word"
type_synonym i32 = "32 word"
type_synonym i64 = "64 word"

section \<open>Outcomes\<close>

text \<open>
  A straight-line operation returns an \<open>option\<close>: \<open>None\<close> is a fault (an access
  outside the addressed block, a null dereference), after which C promises nothing.  A loop run
  under a fuel bound returns an \<open>outcome\<close>.
\<close>

datatype 'a outcome = Done 'a | Fault | Timeout

definition lift_fault :: "'a option \<Rightarrow> ('a \<Rightarrow> 'b outcome) \<Rightarrow> 'b outcome" where
  "lift_fault m k = (case m of None \<Rightarrow> Fault | Some x \<Rightarrow> k x)"

definition bind_outcome :: "'a outcome \<Rightarrow> ('a \<Rightarrow> 'b outcome) \<Rightarrow> 'b outcome" where
  "bind_outcome m k = (case m of Done x \<Rightarrow> k x | Fault \<Rightarrow> Fault | Timeout \<Rightarrow> Timeout)"

lemma lift_fault_simps [simp]:
  "lift_fault None k = Fault" "lift_fault (Some x) k = k x"
  by (simp_all add: lift_fault_def)

lemma bind_outcome_simps [simp]:
  "bind_outcome (Done x) k = k x" "bind_outcome Fault k = Fault" "bind_outcome Timeout k = Timeout"
  by (simp_all add: bind_outcome_def)

section \<open>Writing into a block\<close>

definition blit :: "byte list \<Rightarrow> nat \<Rightarrow> byte list \<Rightarrow> byte list option" where
  "blit block off xs =
     (if off + length xs \<le> length block
      then Some (take off block @ xs @ drop (off + length xs) block) else None)"

lemma blit_Some:
  "off + length xs \<le> length block \<Longrightarrow>
   blit block off xs = Some (take off block @ xs @ drop (off + length xs) block)"
  by (simp add: blit_def)

lemma blit_None_iff: "blit block off xs = None \<longleftrightarrow> length block < off + length xs"
  by (auto simp: blit_def)

lemma blit_length: "blit block off xs = Some block' \<Longrightarrow> length block' = length block"
  by (auto simp: blit_def split: if_splits)

lemma blit_take:
  "blit block off xs = Some block' \<Longrightarrow>
   take (off + length xs) block' = take off block @ xs"
  by (auto simp: blit_def split: if_splits)

section \<open>Reading from a memory\<close>

definition rd :: "byte list \<Rightarrow> int \<Rightarrow> byte option" where
  "rd m p = (if 0 \<le> p \<and> p < int (length m) then Some (m ! nat p) else None)"

definition rdn :: "byte list \<Rightarrow> int \<Rightarrow> nat \<Rightarrow> byte list option" where
  "rdn m p n = (if 0 \<le> p \<and> p + int n \<le> int (length m)
                then Some (take n (drop (nat p) m)) else None)"

text \<open>\<open>strlen(p)\<close>: it faults when no terminator lies inside the block.\<close>

definition cstrlen :: "byte list \<Rightarrow> int \<Rightarrow> nat option" where
  "cstrlen m p =
     (if 0 \<le> p \<and> p \<le> int (length m) \<and> 0 \<in> set (drop (nat p) m)
      then Some (length (takeWhile (\<lambda>c. c \<noteq> 0) (drop (nat p) m))) else None)"

text \<open>The contents of the C string at \<open>p\<close>, without its terminator.\<close>

definition cstring :: "byte list \<Rightarrow> int \<Rightarrow> byte list option" where
  "cstring m p = (case cstrlen m p of None \<Rightarrow> None | Some n \<Rightarrow> rdn m p n)"

definition located :: "byte list \<Rightarrow> int \<Rightarrow> byte list \<Rightarrow> bool" where
  "located m p xs \<longleftrightarrow> 0 \<le> p \<and> p + int (length xs) \<le> int (length m)
      \<and> take (length xs) (drop (nat p) m) = xs"

lemma located_Nil [located_simps]: "located m p [] \<longleftrightarrow> 0 \<le> p \<and> p \<le> int (length m)"
  by (simp add: located_def)

lemma located_append [located_simps]:
  "located m p (xs @ ys) \<longleftrightarrow> located m p xs \<and> located m (p + int (length xs)) ys"
proof (cases "0 \<le> p")
  case True
  have "nat (p + int (length xs)) = nat p + length xs" using True by simp
  then show ?thesis
    using True by (auto simp: located_def take_add append_eq_append_conv add.commute)
next
  case False
  then show ?thesis by (auto simp: located_def)
qed

lemma located_Cons [located_simps]:
  "ys \<noteq> [] \<Longrightarrow> located m p (x # ys) \<longleftrightarrow> located m p [x] \<and> located m (p + 1) ys"
  using located_append [of m p "[x]" ys] by simp

lemma located_pos: "located m p xs \<Longrightarrow> 0 \<le> p"
  by (simp add: located_def)

lemma located_mid: "located (pre @ xs @ post) (int (length pre)) xs"
  by (simp add: located_def)

lemma rd_located: "located m p [x] \<Longrightarrow> rd m p = Some x"
  by (cases "drop (nat p) m") (auto simp: located_def rd_def nth_via_drop)

lemma rdn_located: "located m p xs \<Longrightarrow> rdn m p (length xs) = Some xs"
  by (auto simp: located_def rdn_def)

lemma located_drop:
  "located m p xs \<Longrightarrow> \<exists>rest. drop (nat p) m = xs @ rest"
  by (metis append_take_drop_id located_def)

lemma cstrlen_located:
  assumes "located m p (xs @ [0])" and "0 \<notin> set xs"
  shows "cstrlen m p = Some (length xs)"
proof -
  obtain rest where d: "drop (nat p) m = xs @ 0 # rest"
    using located_drop [OF assms(1)] by auto
  have "takeWhile (\<lambda>c. c \<noteq> 0) (xs @ 0 # rest) = xs"
    using assms(2) by (subst takeWhile_append2) auto
  with d assms(1) show ?thesis by (auto simp: cstrlen_def located_def)
qed

lemma cstring_located:
  assumes "located m p (xs @ [0])" and "0 \<notin> set xs"
  shows "cstring m p = Some xs"
  using cstrlen_located [OF assms] rdn_located [of m p xs] assms(1)
  by (simp add: cstring_def located_append)

section \<open>C integers as int, with the wrap-around written out\<close>

definition wrap32 :: "int \<Rightarrow> int" where
  "wrap32 x = signed_take_bit 31 x"

definition wrap16 :: "int \<Rightarrow> int" where
  "wrap16 x = signed_take_bit 15 x"

definition in_int :: "int \<Rightarrow> bool" where
  "in_int x \<longleftrightarrow> - (2 ^ 31) \<le> x \<and> x < 2 ^ 31"

definition in_short :: "int \<Rightarrow> bool" where
  "in_short x \<longleftrightarrow> - (2 ^ 15) \<le> x \<and> x < 2 ^ 15"

lemma wrap32_id: "in_int x \<Longrightarrow> wrap32 x = x"
  by (simp add: wrap32_def in_int_def signed_take_bit_int_eq_self)

lemma wrap16_id: "in_short x \<Longrightarrow> wrap16 x = x"
  by (simp add: wrap16_def in_short_def signed_take_bit_int_eq_self)

lemma in_int_wrap32: "in_int (wrap32 x)"
  using signed_take_bit_int_greater_eq_minus_exp [of 31 x] signed_take_bit_int_less_exp [of 31 x]
  by (simp add: wrap32_def in_int_def)

lemma in_short_wrap16: "in_short (wrap16 x)"
  using signed_take_bit_int_greater_eq_minus_exp [of 15 x] signed_take_bit_int_less_exp [of 15 x]
  by (simp add: wrap16_def in_short_def)

end
