(* ===== verification/Endian.thy ===== *)
theory Endian
  imports Prelude
begin

text \<open>
  Integers in memory and their byte order: the byte swaps of \<open>bson/bson/bson.c\<close> and the four
  order macros of \<open>bson/bson/bson.h\<close> as \<open>bson_config.h\<close> configures them.  The
  configuration defines \<open>MONGO_BIG_ENDIAN\<close>, so the \<open>little_endian\<close> macros swap.  The
  program runs on x86-64 (epoll, \<open>htonl\<close> in \<open>bson_buffer.cpp\<close>), so the object
  representation \<open>mem32\<close>, \<open>mem64\<close> of an integer is little-endian and the bytes that reach
  a document are big-endian.
\<close>

section \<open>Object representation on the host\<close>

definition mem32 :: "i32 \<Rightarrow> byte list" where
  "mem32 w = [ucast w, ucast (drop_bit 8 w), ucast (drop_bit 16 w), ucast (drop_bit 24 w)]"

definition of_mem32 :: "byte list \<Rightarrow> i32" where
  "of_mem32 bs = ucast (bs ! 0) OR push_bit 8 (ucast (bs ! 1))
      OR push_bit 16 (ucast (bs ! 2)) OR push_bit 24 (ucast (bs ! 3))"

definition mem64 :: "i64 \<Rightarrow> byte list" where
  "mem64 w = [ucast w, ucast (drop_bit 8 w), ucast (drop_bit 16 w), ucast (drop_bit 24 w),
              ucast (drop_bit 32 w), ucast (drop_bit 40 w), ucast (drop_bit 48 w),
              ucast (drop_bit 56 w)]"

definition of_mem64 :: "byte list \<Rightarrow> i64" where
  "of_mem64 bs = ucast (bs ! 0) OR push_bit 8 (ucast (bs ! 1))
      OR push_bit 16 (ucast (bs ! 2)) OR push_bit 24 (ucast (bs ! 3))
      OR push_bit 32 (ucast (bs ! 4)) OR push_bit 40 (ucast (bs ! 5))
      OR push_bit 48 (ucast (bs ! 6)) OR push_bit 56 (ucast (bs ! 7))"

lemma length_mem32 [simp]: "length (mem32 w) = 4"
  by (simp add: mem32_def)

lemma length_mem64 [simp]: "length (mem64 w) = 8"
  by (simp add: mem64_def)

lemma of_mem32_mem32 [simp]: "of_mem32 (mem32 w) = w"
proof (rule bit_word_eqI)
  fix n assume "n < LENGTH(32)"
  then have n: "n < 32" by simp
  consider "n < 8" | "8 \<le> n" "n < 16" | "16 \<le> n" "n < 24" | "24 \<le> n" by linarith
  then show "bit (of_mem32 (mem32 w)) n = bit w n"
    using n by cases (auto simp: of_mem32_def mem32_def bit_simps)
qed

lemma of_mem64_mem64 [simp]: "of_mem64 (mem64 w) = w"
proof (rule bit_word_eqI)
  fix n assume "n < LENGTH(64)"
  then have n: "n < 64" by simp
  consider "n < 8" | "8 \<le> n" "n < 16" | "16 \<le> n" "n < 24" | "24 \<le> n" "n < 32"
    | "32 \<le> n" "n < 40" | "40 \<le> n" "n < 48" | "48 \<le> n" "n < 56" | "56 \<le> n" by linarith
  then show "bit (of_mem64 (mem64 w)) n = bit w n"
    using n by cases (auto simp: of_mem64_def mem64_def bit_simps)
qed

lemma mem32_inj: "mem32 v = mem32 w \<longleftrightarrow> v = w"
  by (metis of_mem32_mem32)

lemma mem64_inj: "mem64 v = mem64 w \<longleftrightarrow> v = w"
  by (metis of_mem64_mem64)

lemma length4_cases: "length bs = 4 \<Longrightarrow> \<exists>a b c d. bs = [a, b, c, d]"
  by (auto simp: numeral_eq_Suc length_Suc_conv)

lemma length8_cases: "length bs = 8 \<Longrightarrow> \<exists>a b c d e f g h. bs = [a, b, c, d, e, f, g, h]"
  by (auto simp: numeral_eq_Suc length_Suc_conv)

section \<open>Byte swaps\<close>

definition bson_swap_endian64 :: "byte list \<Rightarrow> byte list" where
  "bson_swap_endian64 inp =
     [inp ! 7, inp ! 6, inp ! 5, inp ! 4, inp ! 3, inp ! 2, inp ! 1, inp ! 0]"

definition bson_swap_endian32 :: "byte list \<Rightarrow> byte list" where
  "bson_swap_endian32 inp = [inp ! 3, inp ! 2, inp ! 1, inp ! 0]"

lemma swap32_length [simp]: "length (bson_swap_endian32 bs) = 4"
  by (simp add: bson_swap_endian32_def)

lemma swap64_length [simp]: "length (bson_swap_endian64 bs) = 8"
  by (simp add: bson_swap_endian64_def)

lemma swap32_rev: "length bs = 4 \<Longrightarrow> bson_swap_endian32 bs = rev bs"
  using length4_cases [of bs] by (auto simp: bson_swap_endian32_def)

lemma swap64_rev: "length bs = 8 \<Longrightarrow> bson_swap_endian64 bs = rev bs"
  using length8_cases [of bs] by (auto simp: bson_swap_endian64_def)

lemma swap32_swap32 [simp]: "length bs = 4 \<Longrightarrow> bson_swap_endian32 (bson_swap_endian32 bs) = bs"
  by (simp add: swap32_rev)

lemma swap64_swap64 [simp]: "length bs = 8 \<Longrightarrow> bson_swap_endian64 (bson_swap_endian64 bs) = bs"
  by (simp add: swap64_rev)

section \<open>The order macros under the repository's configuration\<close>

definition bson_little_endian64 :: "byte list \<Rightarrow> byte list" where
  "bson_little_endian64 inp = bson_swap_endian64 inp"

definition bson_little_endian32 :: "byte list \<Rightarrow> byte list" where
  "bson_little_endian32 inp = bson_swap_endian32 inp"

definition bson_big_endian64 :: "byte list \<Rightarrow> byte list" where
  "bson_big_endian64 inp = take 8 inp"

definition bson_big_endian32 :: "byte list \<Rightarrow> byte list" where
  "bson_big_endian32 inp = take 4 inp"

text \<open>What a 32-bit or 64-bit integer looks like in a document, and how it is read back.\<close>

definition wire32 :: "i32 \<Rightarrow> byte list" where
  "wire32 w = bson_little_endian32 (mem32 w)"

definition unwire32 :: "byte list \<Rightarrow> i32" where
  "unwire32 bs = of_mem32 (bson_little_endian32 bs)"

definition wire64 :: "i64 \<Rightarrow> byte list" where
  "wire64 w = bson_little_endian64 (mem64 w)"

definition unwire64 :: "byte list \<Rightarrow> i64" where
  "unwire64 bs = of_mem64 (bson_little_endian64 bs)"

lemma length_wire32 [simp]: "length (wire32 w) = 4"
  by (simp add: wire32_def bson_little_endian32_def)

lemma length_wire64 [simp]: "length (wire64 w) = 8"
  by (simp add: wire64_def bson_little_endian64_def)

lemma unwire32_wire32 [simp]: "unwire32 (wire32 w) = w"
  by (simp add: wire32_def unwire32_def bson_little_endian32_def)

lemma unwire64_wire64 [simp]: "unwire64 (wire64 w) = w"
  by (simp add: wire64_def unwire64_def bson_little_endian64_def)

lemma wire32_bytes:
  "wire32 w = [ucast (drop_bit 24 w), ucast (drop_bit 16 w), ucast (drop_bit 8 w), ucast w]"
  by (simp add: wire32_def bson_little_endian32_def bson_swap_endian32_def mem32_def)

text \<open>
  The interface the reader relies on: a fixed-width codec whose decoder undoes its encoder.
\<close>

locale fixed_codec =
  fixes enc :: "'a \<Rightarrow> byte list" and dec :: "byte list \<Rightarrow> 'a" and width :: nat
  assumes enc_length: "length (enc x) = width"
    and dec_enc: "dec (enc x) = x"
begin

lemma enc_inj: "enc x = enc y \<longleftrightarrow> x = y"
  by (metis dec_enc)

lemma enc_prefix_free: "enc x @ r = enc y @ s \<longleftrightarrow> x = y \<and> r = s"
  using enc_length by (auto simp: enc_inj)

lemma read_located: "located m p (enc x) \<Longrightarrow> map_option dec (rdn m p width) = Some x"
  using rdn_located [of m p "enc x"] by (simp add: enc_length dec_enc)

end

interpretation w32: fixed_codec wire32 unwire32 4
  by unfold_locales simp_all

interpretation w64: fixed_codec wire64 unwire64 8
  by unfold_locales simp_all

text \<open>
  The documents this build writes are therefore not BSON in the byte order of its specification:
  the first byte of an integer is its most significant one.
\<close>

lemma wire32_most_significant_first: "hd (wire32 w) = ucast (drop_bit 24 w)"
  by (simp add: wire32_bytes)

end
