(* ===== verification/Bson_Types.thy ===== *)
theory Bson_Types
  imports Endian
begin

text \<open>
  The data of the BSON library (\<open>bson/bson/bson.h\<close>): status codes, error and validity bits, the
  element types, the builder \<open>bson\<close>, the iterator, object ids and timestamps.  A pointer into a
  block is the block's bytes and an offset; the null pointer is \<open>None\<close>.
\<close>

datatype status = BSON_OK | BSON_ERROR

definition BSON_SIZE_OVERFLOW :: i32 where "BSON_SIZE_OVERFLOW = push_bit 0 1"
definition BSON_ALREADY_FINISHED :: i32 where "BSON_ALREADY_FINISHED = push_bit 4 1"
definition BSON_NOT_IN_SUBOBJECT :: i32 where "BSON_NOT_IN_SUBOBJECT = push_bit 5 1"
definition BSON_DOES_NOT_OWN_DATA :: i32 where "BSON_DOES_NOT_OWN_DATA = push_bit 6 1"
definition BSON_VALID :: i32 where "BSON_VALID = 0"
definition BSON_NOT_UTF8 :: i32 where "BSON_NOT_UTF8 = push_bit 1 1"
definition BSON_FIELD_HAS_DOT :: i32 where "BSON_FIELD_HAS_DOT = push_bit 2 1"
definition BSON_FIELD_INIT_DOLLAR :: i32 where "BSON_FIELD_INIT_DOLLAR = push_bit 3 1"

lemmas bson_err_defs = BSON_SIZE_OVERFLOW_def BSON_ALREADY_FINISHED_def BSON_NOT_IN_SUBOBJECT_def
  BSON_DOES_NOT_OWN_DATA_def BSON_VALID_def BSON_NOT_UTF8_def BSON_FIELD_HAS_DOT_def
  BSON_FIELD_INIT_DOLLAR_def

definition BSON_BIN_BINARY :: byte where "BSON_BIN_BINARY = 0"
definition BSON_BIN_FUNC :: byte where "BSON_BIN_FUNC = 1"
definition BSON_BIN_BINARY_OLD :: byte where "BSON_BIN_BINARY_OLD = 2"
definition BSON_BIN_UUID :: byte where "BSON_BIN_UUID = 3"
definition BSON_BIN_MD5 :: byte where "BSON_BIN_MD5 = 5"
definition BSON_BIN_USER :: byte where "BSON_BIN_USER = 128"

text \<open>
  A C enum object holds any value of its underlying type: a type byte that is no enumerator is
  \<open>BSON_OTHER\<close>.
\<close>

datatype bson_type = BSON_EOO | BSON_DOUBLE | BSON_STRING | BSON_OBJECT | BSON_ARRAY | BSON_BINDATA
  | BSON_UNDEFINED | BSON_OID | BSON_BOOL | BSON_DATE | BSON_NULL | BSON_REGEX | BSON_DBREF
  | BSON_CODE | BSON_SYMBOL | BSON_CODEWSCOPE | BSON_INT | BSON_TIMESTAMP | BSON_LONG
  | BSON_OTHER byte

fun type_char :: "bson_type \<Rightarrow> byte" where
  "type_char BSON_EOO = 0"
| "type_char BSON_DOUBLE = 1"
| "type_char BSON_STRING = 2"
| "type_char BSON_OBJECT = 3"
| "type_char BSON_ARRAY = 4"
| "type_char BSON_BINDATA = 5"
| "type_char BSON_UNDEFINED = 6"
| "type_char BSON_OID = 7"
| "type_char BSON_BOOL = 8"
| "type_char BSON_DATE = 9"
| "type_char BSON_NULL = 10"
| "type_char BSON_REGEX = 11"
| "type_char BSON_DBREF = 12"
| "type_char BSON_CODE = 13"
| "type_char BSON_SYMBOL = 14"
| "type_char BSON_CODEWSCOPE = 15"
| "type_char BSON_INT = 16"
| "type_char BSON_TIMESTAMP = 17"
| "type_char BSON_LONG = 18"
| "type_char (BSON_OTHER c) = c"

definition enumerators :: "bson_type list" where
  "enumerators = [BSON_EOO, BSON_DOUBLE, BSON_STRING, BSON_OBJECT, BSON_ARRAY, BSON_BINDATA,
     BSON_UNDEFINED, BSON_OID, BSON_BOOL, BSON_DATE, BSON_NULL, BSON_REGEX, BSON_DBREF,
     BSON_CODE, BSON_SYMBOL, BSON_CODEWSCOPE, BSON_INT, BSON_TIMESTAMP, BSON_LONG]"

definition char_type :: "byte \<Rightarrow> bson_type" where
  "char_type c = (if unat c < 19 then enumerators ! unat c else BSON_OTHER c)"

lemma char_type_type_char [simp]: "t \<in> set enumerators \<Longrightarrow> char_type (type_char t) = t"
  by (auto simp: enumerators_def char_type_def)

lemma enumerators_not_other: "t \<in> set enumerators \<longleftrightarrow> (\<forall>c. t \<noteq> BSON_OTHER c)"
  by (cases t) (auto simp: enumerators_def)

lemma char_type_EOO_iff: "char_type c = BSON_EOO \<longleftrightarrow> c = 0"
proof
  assume h: "char_type c = BSON_EOO"
  have "distinct enumerators" by (simp add: enumerators_def)
  moreover have "unat c < 19" using h by (auto simp: char_type_def split: if_splits)
  moreover have "length enumerators = 19" "enumerators ! 0 = BSON_EOO"
    by (simp_all add: enumerators_def)
  ultimately have "unat c = 0"
    using h by (metis (no_types, lifting) char_type_def nth_eq_iff_index_eq zero_less_numeral)
  then show "c = 0" by (simp add: unat_eq_zero)
qed (simp add: char_type_def enumerators_def)

text \<open>Where \<open>stackPtr\<close> points: nowhere, to the struct's own 32 slots, or to the heap.\<close>

datatype stack_loc = NoStack | LocalStack | HeapStack

text \<open>
  The builder.  \<open>b_stack\<close> are the slots \<open>stackPtr\<close> addresses (\<open>stackSize\<close> of them);
  \<open>b_cur\<close> is the offset \<open>cur - data\<close>.
\<close>

record bson =
  b_data :: "byte list option"
  b_cur :: nat
  b_dataSize :: int
  b_finished :: bool
  b_ownsData :: bool
  b_stack :: "nat list"
  b_stackPos :: nat
  b_err :: i32
  b_stackPtr :: stack_loc
  b_stackSize :: nat

record bson_iterator =
  it_mem :: "byte list"
  it_cur :: int
  it_first :: bool

record bson_timestamp_t =
  ts_i :: i32
  ts_t :: i32

type_synonym bson_oid_t = "byte list"
type_synonym bson_date_t = i64

definition INT32_MAX :: int where "INT32_MAX = 2147483647"
definition INT_MAX :: int where "INT_MAX = 2147483647"

end
