(* ===== verification/Utf8.thy ===== *)
theory Utf8
  imports Bson_Types
begin

text \<open>
  Field-name and string validation (\<open>bson/bson/encoding.c\<close>): the table of trailing bytes,
  \<open>isLegalUTF8\<close> with its fall-through switch, the loop of \<open>bson_validate_string\<close> and its two
  callers.  A string argument is the bytes it points to; \<open>at0\<close> reads the terminator one past the
  end of a C string.
\<close>

section \<open>The code\<close>

definition trailingBytesForUTF8 :: "nat list" where
  "trailingBytesForUTF8 = replicate 192 0 @ replicate 32 1 @ replicate 16 2 @ replicate 8 3
     @ replicate 4 4 @ replicate 4 5"

definition utf8_case1 :: "byte list \<Rightarrow> bool" where
  "utf8_case1 source =
     (if source ! 0 \<ge> 0x80 \<and> source ! 0 < 0xC2 then False
      else if source ! 0 > 0xF4 then False else True)"

definition utf8_case2 :: "byte list \<Rightarrow> nat \<Rightarrow> bool" where
  "utf8_case2 source srcptr =
     (let a = source ! (srcptr - 1) in
      if a > 0xBF then False
      else if source ! 0 = 0xE0 then (if a < 0xA0 then False else utf8_case1 source)
      else if source ! 0 = 0xF0 then (if a < 0x90 then False else utf8_case1 source)
      else if source ! 0 = 0xF4 then (if a > 0x8F then False else utf8_case1 source)
      else (if a < 0x80 then False else utf8_case1 source))"

definition utf8_case3 :: "byte list \<Rightarrow> nat \<Rightarrow> bool" where
  "utf8_case3 source srcptr =
     (let a = source ! (srcptr - 1) in
      if a < 0x80 \<or> a > 0xBF then False else utf8_case2 source (srcptr - 1))"

definition utf8_case4 :: "byte list \<Rightarrow> nat \<Rightarrow> bool" where
  "utf8_case4 source srcptr =
     (let a = source ! (srcptr - 1) in
      if a < 0x80 \<or> a > 0xBF then False else utf8_case3 source (srcptr - 1))"

definition isLegalUTF8 :: "byte list \<Rightarrow> nat \<Rightarrow> bool" where
  "isLegalUTF8 source len =
     (if len = 4 then utf8_case4 source len
      else if len = 3 then utf8_case3 source len
      else if len = 2 then utf8_case2 source len
      else if len = 1 then utf8_case1 source
      else False)"

definition at0 :: "byte list \<Rightarrow> nat \<Rightarrow> byte" where
  "at0 s i = (if i < length s then s ! i else 0)"

definition bson_string_is_db_ref :: "byte list \<Rightarrow> nat \<Rightarrow> bool" where
  "bson_string_is_db_ref string len =
     (if len \<ge> 4 then at0 string 1 = 0x72 \<and> at0 string 2 = 0x65 \<and> at0 string 3 = 0x66
      else if len \<ge> 3 then
        (if at0 string 1 = 0x69 \<and> at0 string 2 = 0x64 then True
         else at0 string 1 = 0x64 \<and> at0 string 2 = 0x62)
      else False)"

function validate_loop ::
  "byte list \<Rightarrow> nat \<Rightarrow> bool \<Rightarrow> bool \<Rightarrow> nat \<Rightarrow> i32 \<Rightarrow> status \<times> i32" where
  "validate_loop string len check_utf8 check_dot position err =
     (if position < len then
        let c = string ! position;
            err1 = (if check_dot \<and> c = 0x2E then err OR BSON_FIELD_HAS_DOT else err);
            sequence_length = (if check_utf8 then trailingBytesForUTF8 ! unat c + 1 else 1)
        in if check_utf8 \<and> position + sequence_length > len then (BSON_ERROR, err1 OR BSON_NOT_UTF8)
           else if check_utf8 \<and> \<not> isLegalUTF8 (drop position string) sequence_length
             then (BSON_ERROR, err1 OR BSON_NOT_UTF8)
           else validate_loop string len check_utf8 check_dot (position + sequence_length) err1
      else (BSON_OK, err))"
  by pat_completeness auto
termination
  by (relation "measure (\<lambda>(string, len, u, d, position, err). len - position)")
     (auto simp: Let_def)

declare validate_loop.simps [simp del]

definition bson_validate_string ::
  "bson \<Rightarrow> byte list \<Rightarrow> nat \<Rightarrow> bool \<Rightarrow> bool \<Rightarrow> bool \<Rightarrow> status \<times> bson" where
  "bson_validate_string b string len check_utf8 check_dot check_dollar =
     (let err0 = (if check_dollar \<and> at0 string 0 = 0x24 \<and> \<not> bson_string_is_db_ref string len
                  then b_err b OR BSON_FIELD_INIT_DOLLAR else b_err b);
          (r, err) = validate_loop string len check_utf8 check_dot 0 err0
      in (r, b\<lparr>b_err := err\<rparr>))"

definition bson_check_string :: "bson \<Rightarrow> byte list \<Rightarrow> nat \<Rightarrow> status \<times> bson" where
  "bson_check_string b string len = bson_validate_string b string len True False False"

definition bson_check_field_name :: "bson \<Rightarrow> byte list \<Rightarrow> nat \<Rightarrow> status \<times> bson" where
  "bson_check_field_name b string len = bson_validate_string b string len True True True"


section \<open>What the loop accepts\<close>

text \<open>
  The specification: a byte string is accepted when it is a concatenation of sequences, each as
  long as its first byte announces and each legal.
\<close>

definition legal_seq :: "byte list \<Rightarrow> bool" where
  "legal_seq s \<longleftrightarrow> s \<noteq> [] \<and> length s = trailingBytesForUTF8 ! unat (s ! 0) + 1
     \<and> isLegalUTF8 s (length s)"

inductive utf8_accepted :: "byte list \<Rightarrow> bool" where
  accepted_Nil: "utf8_accepted []"
| accepted_app: "legal_seq s \<Longrightarrow> utf8_accepted t \<Longrightarrow> utf8_accepted (s @ t)"

lemma isLegalUTF8_take: "isLegalUTF8 (take n s) n = isLegalUTF8 s n"
  by (simp add: isLegalUTF8_def utf8_case4_def utf8_case3_def utf8_case2_def utf8_case1_def Let_def)

lemma utf8_accepted_rec:
  assumes "t \<noteq> []" and n: "n = trailingBytesForUTF8 ! unat (t ! 0) + 1"
  shows "utf8_accepted t \<longleftrightarrow> n \<le> length t \<and> isLegalUTF8 t n \<and> utf8_accepted (drop n t)"
proof
  assume "utf8_accepted t"
  then show "n \<le> length t \<and> isLegalUTF8 t n \<and> utf8_accepted (drop n t)"
  proof cases
    case accepted_Nil
    with assms(1) show ?thesis by simp
  next
    case (accepted_app s t')
    then have "length s = n" using n by (simp add: legal_seq_def nth_append)
    moreover have "isLegalUTF8 t n = isLegalUTF8 s n"
      using accepted_app(1) \<open>length s = n\<close> isLegalUTF8_take [of n t] by simp
    ultimately show ?thesis using accepted_app by (auto simp: legal_seq_def)
  qed
next
  assume h: "n \<le> length t \<and> isLegalUTF8 t n \<and> utf8_accepted (drop n t)"
  have "legal_seq (take n t)"
    using assms h by (simp add: legal_seq_def isLegalUTF8_take)
  from utf8_accepted.accepted_app [OF this] h show "utf8_accepted t"
    by fastforce
qed

lemma validate_loop_accepts:
  "position \<le> len \<Longrightarrow> len \<le> length string \<Longrightarrow>
   fst (validate_loop string len True d position err) = BSON_OK
     \<longleftrightarrow> utf8_accepted (drop position (take len string))"
proof (induction string len True d position err rule: validate_loop.induct)
  case (1 string len d position err)
  show ?case
  proof (cases "position < len")
    case False
    then show ?thesis
      by (subst validate_loop.simps) (simp add: accepted_Nil)
  next
    case True
    let ?t = "drop position (take len string)"
    let ?n = "trailingBytesForUTF8 ! unat (string ! position) + 1"
    have t: "?t \<noteq> []" "?t ! 0 = string ! position" "length ?t = len - position"
      using True 1(3) by auto
    have leg: "isLegalUTF8 ?t ?n = isLegalUTF8 (drop position string) ?n" if "position + ?n \<le> len"
    proof -
      have "take ?n ?t = take ?n (drop position string)" using that by (simp add: drop_take)
      then show ?thesis by (metis isLegalUTF8_take)
    qed
    have rec: "utf8_accepted ?t \<longleftrightarrow> ?n \<le> len - position \<and> isLegalUTF8 ?t ?n
                 \<and> utf8_accepted (drop (position + ?n) (take len string))"
      using utf8_accepted_rec [OF t(1), of ?n] t by (simp add: drop_drop add.commute)
    show ?thesis
      using True 1(1) [OF True refl refl refl] 1(3) leg rec
      by (auto simp: validate_loop.simps [of string len True d position err] Let_def)
  qed
qed

lemma check_string_accepts:
  "len \<le> length s \<Longrightarrow> fst (bson_check_string b s len) = BSON_OK \<longleftrightarrow> utf8_accepted (take len s)"
  using validate_loop_accepts [of 0 len s False "b_err b"]
  by (simp add: bson_check_string_def bson_validate_string_def Let_def split_beta)

lemma check_field_name_accepts:
  "len \<le> length s \<Longrightarrow> fst (bson_check_field_name b s len) = BSON_OK \<longleftrightarrow> utf8_accepted (take len s)"
  using validate_loop_accepts [of 0 len s True]
  by (simp add: bson_check_field_name_def bson_validate_string_def Let_def split_beta)

section \<open>Every UTF-8 encoding is accepted\<close>

definition utf8_encode :: "nat \<Rightarrow> byte list" where
  "utf8_encode cp =
     (if cp < 0x80 then [word_of_nat cp]
      else if cp < 0x800 then [word_of_nat (0xC0 + cp div 64), word_of_nat (0x80 + cp mod 64)]
      else if cp < 0x10000 then [word_of_nat (0xE0 + cp div 4096),
        word_of_nat (0x80 + cp div 64 mod 64), word_of_nat (0x80 + cp mod 64)]
      else [word_of_nat (0xF0 + cp div 262144), word_of_nat (0x80 + cp div 4096 mod 64),
        word_of_nat (0x80 + cp div 64 mod 64), word_of_nat (0x80 + cp mod 64)])"

lemma trailing_nth:
  "n < 256 \<Longrightarrow> trailingBytesForUTF8 ! n =
     (if n < 192 then 0 else if n < 224 then 1 else if n < 240 then 2
      else if n < 248 then 3 else if n < 252 then 4 else 5)"
  by (auto simp: trailingBytesForUTF8_def nth_append)

lemma unat_byte_of_nat: "k < 256 \<Longrightarrow> unat (word_of_nat k :: byte) = k"
  by (simp add: unat_of_nat)

lemma legal_encode:
  assumes "cp < 0x110000"
  shows "legal_seq (utf8_encode cp)"
proof -
  note defs = legal_seq_def utf8_encode_def isLegalUTF8_def utf8_case4_def utf8_case3_def
    utf8_case2_def utf8_case1_def word_less_nat_alt word_le_nat_alt unat_byte_of_nat trailing_nth
    word_unat_eq_iff
  have m: "cp mod 64 < 64" "cp div 64 mod 64 < 64" "cp div 4096 mod 64 < 64" by simp_all
  consider "cp < 0x80" | "0x80 \<le> cp" "cp < 0x800" | "0x800 \<le> cp" "cp < 0x10000" | "0x10000 \<le> cp"
    by linarith
  then show ?thesis
  proof cases
    case 1
    then show ?thesis by (simp add: defs)
  next
    case 2
    then have "2 \<le> cp div 64" "cp div 64 < 32" by auto
    with 2 m show ?thesis by (simp add: defs Let_def del: of_nat_add)
  next
    case 3
    then have "cp div 4096 < 16" "cp div 4096 = 0 \<Longrightarrow> 32 \<le> cp div 64 mod 64" by auto
    with 3 m show ?thesis by (auto simp: defs Let_def simp del: of_nat_add)
  next
    case 4
    have split: "cp div 4096 = 64 * (cp div 262144) + cp div 4096 mod 64"
      using div_mult_mod_eq [of "cp div 4096" 64] by (simp add: div_mult2_eq [symmetric])
    have "16 \<le> cp div 4096" "cp div 4096 < 272" using 4 assms by auto
    then have "cp div 262144 \<le> 4" "cp div 262144 = 0 \<Longrightarrow> 16 \<le> cp div 4096 mod 64"
      "cp div 262144 = 4 \<Longrightarrow> cp div 4096 mod 64 < 16" using split by auto
    with 4 m show ?thesis by (auto simp: defs Let_def simp del: of_nat_add)
  qed
qed

lemma accepted_encode:
  "\<forall>cp \<in> set cps. cp < 0x110000 \<Longrightarrow> utf8_accepted (concat (map utf8_encode cps))"
  by (induction cps) (auto intro: utf8_accepted.intros legal_encode)

section \<open>Nothing else is accepted, but for one gap\<close>

text \<open>
  After the leading byte \<open>F4\<close> only the upper bound of the second byte is checked: an \<open>ASCII\<close> byte passes there.
\<close>

definition loose_f4 :: "byte list \<Rightarrow> bool" where
  "loose_f4 s \<longleftrightarrow> length s = 4 \<and> s ! 0 = 0xF4 \<and> s ! 1 < 0x80 \<and> 0x80 \<le> s ! 2 \<and> s ! 2 \<le> 0xBF \<and> 0x80 \<le> s ! 3 \<and> s ! 3 \<le> 0xBF"

lemma encode_digits:
  "2 \<le> i \<Longrightarrow> i < 32 \<Longrightarrow> j < 64 \<Longrightarrow> utf8_encode (64 * i + j) = [word_of_nat (0xC0 + i), word_of_nat (0x80 + j)]"
  "i < 16 \<Longrightarrow> j < 64 \<Longrightarrow> k < 64 \<Longrightarrow> i = 0 \<longrightarrow> 32 \<le> j \<Longrightarrow>
     utf8_encode (64 * (64 * i + j) + k) = [word_of_nat (0xE0 + i), word_of_nat (0x80 + j), word_of_nat (0x80 + k)]"
  "i < 5 \<Longrightarrow> j < 64 \<Longrightarrow> k < 64 \<Longrightarrow> l < 64 \<Longrightarrow> i = 0 \<longrightarrow> 16 \<le> j \<Longrightarrow>
     utf8_encode (64 * (64 * (64 * i + j) + k) + l)
       = [word_of_nat (0xF0 + i), word_of_nat (0x80 + j), word_of_nat (0x80 + k), word_of_nat (0x80 + l)]"
proof -
  have d: "(64 * a + b) div 64 = a" "(64 * a + b) mod 64 = b" if "b < 64" for a b :: nat using that by simp_all
  have d2: "n div 4096 = n div 64 div 64" "n div 262144 = n div 64 div 64 div 64" for n :: nat by (simp_all add: div_mult2_eq [symmetric])
  show "2 \<le> i \<Longrightarrow> i < 32 \<Longrightarrow> j < 64 \<Longrightarrow> utf8_encode (64 * i + j) = [word_of_nat (0xC0 + i), word_of_nat (0x80 + j)]"
    unfolding utf8_encode_def d2 by (simp only: d) simp
  show "utf8_encode (64 * (64 * i + j) + k) = [word_of_nat (0xE0 + i), word_of_nat (0x80 + j), word_of_nat (0x80 + k)]"
    if "i < 16" "j < 64" "k < 64" "i = 0 \<longrightarrow> 32 \<le> j"
  proof -
    have "\<not> 64 * (64 * i + j) + k < 0x800" "64 * (64 * i + j) + k < 0x10000" using that by auto
    then show ?thesis unfolding utf8_encode_def d2 by (simp only: d that) simp
  qed
  show "utf8_encode (64 * (64 * (64 * i + j) + k) + l)
       = [word_of_nat (0xF0 + i), word_of_nat (0x80 + j), word_of_nat (0x80 + k), word_of_nat (0x80 + l)]"
    if "i < 5" "j < 64" "k < 64" "l < 64" "i = 0 \<longrightarrow> 16 \<le> j"
  proof -
    have "\<not> 64 * (64 * (64 * i + j) + k) + l < 0x10000" using that by auto
    then show ?thesis unfolding utf8_encode_def d2 by (simp only: d that) simp
  qed
qed

lemma byte_split: "\<exists>n < 256. (c :: byte) = word_of_nat n \<and> unat c = n"
  using unsigned_less [of c] by (intro exI [of _ "unat c"]) simp

lemma continuation:
  assumes "\<not> (c < 0x80 \<or> 0xBF < c)"
  obtains j where "j < 64" "(c :: byte) = word_of_nat (0x80 + j)" "unat c = 0x80 + j"
proof -
  have u: "128 \<le> unat c" "unat c \<le> 191" using assms by (simp_all add: word_less_nat_alt not_less)
  then show ?thesis by (intro that [of "unat c - 128"]) (simp_all del: of_nat_add)
qed

lemma legal_decode:
  assumes "legal_seq s"
  shows "loose_f4 s \<or> (\<exists>cp < 0x110000. s = utf8_encode cp)"
proof -
  obtain a s' where s: "s = a # s'" using assms by (cases s) (auto simp: legal_seq_def)
  obtain x where x: "x < 256" "a = word_of_nat x" "unat a = x" using byte_split by blast
  have len: "length s = trailingBytesForUTF8 ! x + 1" "isLegalUTF8 s (length s)" using assms s x(3) by (auto simp: legal_seq_def)
  have first: "\<not> (a \<ge> 0x80 \<and> a < 0xC2)" "\<not> 0xF4 < a"
    using len(2) s by (auto simp: isLegalUTF8_def utf8_case4_def utf8_case3_def utf8_case2_def utf8_case1_def Let_def split: if_splits)
  then have xs: "x < 0x80 \<or> 0xC2 \<le> x \<and> x \<le> 0xF4" using x(3) by (auto simp: word_less_nat_alt word_le_nat_alt)
  then consider (one) "x < 0x80" "s' = []" | (two) b where "0xC2 \<le> x" "x < 0xE0" "s' = [b]"
    | (three) b c where "0xE0 \<le> x" "x < 0xF0" "s' = [b, c]" | (four) b c d where "0xF0 \<le> x" "x \<le> 0xF4" "s' = [b, c, d]"
    using len(1) s by (auto simp: trailing_nth [OF x(1)] length_Suc_conv numeral_eq_Suc split: if_splits)
  then show ?thesis
  proof cases
    case one
    then have "s = utf8_encode x" by (simp add: s x(2) utf8_encode_def)
    then show ?thesis using one(1) by (intro disjI2 exI [of _ x]) simp
  next
    case two
    then have "\<not> (b < 0x80 \<or> 0xBF < b)" using len(2) s x(3)
      by (auto simp: isLegalUTF8_def utf8_case2_def Let_def word_unat_eq_iff split: if_splits)
    then obtain j where j: "j < 64" "b = word_of_nat (0x80 + j)" by (rule continuation)
    obtain i where i: "x = 0xC0 + i" "2 \<le> i" "i < 32" using two(1,2) by (intro that [of "x - 0xC0"]) auto
    have "s = utf8_encode (64 * i + j)" using encode_digits(1) [OF i(2,3) j(1)] by (simp add: s two(3) x(2) j(2) i(1))
    then show ?thesis using i(3) j(1) by (intro disjI2 exI [of _ "64 * i + j"]) simp
  next
    case three
    then have c: "\<not> (c < 0x80 \<or> 0xBF < c)" "\<not> 0xBF < b" "x = 0xE0 \<longrightarrow> \<not> b < 0xA0" "x \<noteq> 0xE0 \<longrightarrow> \<not> b < 0x80"
      using len(2) s x(3)
      by (auto simp: isLegalUTF8_def utf8_case3_def utf8_case2_def Let_def word_unat_eq_iff split: if_splits)
    then have "\<not> (b < 0x80 \<or> 0xBF < b)" by (cases "x = 0xE0") (auto simp: word_less_nat_alt)
    then obtain j where j: "j < 64" "b = word_of_nat (0x80 + j)" "unat b = 0x80 + j" by (rule continuation)
    obtain k where k: "k < 64" "c = word_of_nat (0x80 + k)" by (rule continuation [OF c(1)])
    obtain i where i: "x = 0xE0 + i" "i < 16" using three(1,2) by (intro that [of "x - 0xE0"]) auto
    have "i = 0 \<longrightarrow> 32 \<le> j" using c(3) i(1) j(3) by (auto simp: word_less_nat_alt)
    then have "s = utf8_encode (64 * (64 * i + j) + k)"
      using encode_digits(2) [OF i(2) j(1) k(1)] by (simp add: s three(3) x(2) j(2) k(2) i(1))
    then show ?thesis using i(2) j(1) k(1) by (intro disjI2 exI [of _ "64 * (64 * i + j) + k"]) simp
  next
    case four
    then have c: "\<not> (d < 0x80 \<or> 0xBF < d)" "\<not> (c < 0x80 \<or> 0xBF < c)" "\<not> 0xBF < b" "x = 0xF0 \<longrightarrow> \<not> b < 0x90"
        "x = 0xF4 \<longrightarrow> \<not> 0x8F < b" "x \<noteq> 0xF0 \<and> x \<noteq> 0xF4 \<longrightarrow> \<not> b < 0x80"
      using len(2) s x(3)
      by (auto simp: isLegalUTF8_def utf8_case4_def utf8_case3_def utf8_case2_def Let_def word_unat_eq_iff split: if_splits)
    show ?thesis
    proof (cases "x = 0xF4 \<and> b < 0x80")
      case True
      then show ?thesis using c(1,2) four(3) s x(2) by (simp add: loose_f4_def not_less)
    next
      case False
      then have "\<not> (b < 0x80 \<or> 0xBF < b)" using c(3,4,6) by (auto simp: word_less_nat_alt)
      then obtain j where j: "j < 64" "b = word_of_nat (0x80 + j)" "unat b = 0x80 + j" by (rule continuation)
      obtain k where k: "k < 64" "c = word_of_nat (0x80 + k)" by (rule continuation [OF c(2)])
      obtain l where l: "l < 64" "d = word_of_nat (0x80 + l)" by (rule continuation [OF c(1)])
      obtain i where i: "x = 0xF0 + i" "i < 5" using four(1,2) by (intro that [of "x - 0xF0"]) auto
      have b: "i = 0 \<longrightarrow> 16 \<le> j" "i = 4 \<longrightarrow> j < 16" using c(4,5) i(1) j(3) by (auto simp: word_less_nat_alt)
      then have "s = utf8_encode (64 * (64 * (64 * i + j) + k) + l)"
        using encode_digits(3) [OF i(2) j(1) k(1) l(1)] by (simp add: s four(3) x(2) j(2) k(2) l(2) i(1))
      moreover have "64 * (64 * (64 * i + j) + k) + l < 0x110000"
        using b(2) i(2) j(1) k(1) l(1) by (cases "i = 4") auto
      ultimately show ?thesis by blast
    qed
  qed
qed

lemma loose_legal: "loose_f4 s \<Longrightarrow> legal_seq s"
proof -
  assume l: "loose_f4 s"
  then obtain b c d where "s = [0xF4, b, c, d]" by (auto simp: loose_f4_def length_Suc_conv numeral_eq_Suc)
  then show ?thesis
    using l by (auto simp: loose_f4_def legal_seq_def isLegalUTF8_def utf8_case4_def utf8_case3_def utf8_case2_def utf8_case1_def
        trailing_nth word_less_nat_alt word_le_nat_alt)
qed

definition sequence_ok :: "byte list \<Rightarrow> bool" where
  "sequence_ok s \<longleftrightarrow> loose_f4 s \<or> (\<exists>cp < 0x110000. s = utf8_encode cp)"

lemma legal_exact: "legal_seq s \<longleftrightarrow> sequence_ok s"
  unfolding sequence_ok_def using legal_decode loose_legal legal_encode by blast

lemma accepted_exact: "utf8_accepted s \<longleftrightarrow> (\<exists>ss. s = concat ss \<and> list_all sequence_ok ss)"
proof
  show "utf8_accepted s \<Longrightarrow> \<exists>ss. s = concat ss \<and> list_all sequence_ok ss"
  proof (induction rule: utf8_accepted.induct)
    case accepted_Nil
    show ?case by (rule exI [of _ "[]"]) simp
  next
    case (accepted_app s t)
    then obtain ss where "t = concat ss" "list_all sequence_ok ss" by blast
    then show ?case using accepted_app(1) legal_exact by (intro exI [of _ "s # ss"]) simp
  qed
  show "\<exists>ss. s = concat ss \<and> list_all sequence_ok ss \<Longrightarrow> utf8_accepted s"
  proof (elim exE conjE)
    fix ss
    show "s = concat ss \<Longrightarrow> list_all sequence_ok ss \<Longrightarrow> utf8_accepted s"
      by (induction ss arbitrary: s) (auto simp: legal_exact intro: utf8_accepted.intros)
  qed
qed

section \<open>The error bits\<close>

lemma bit_push_bit_1: "bit (push_bit k (1 :: i32)) n \<longleftrightarrow> n = k \<and> k < 32"
  by (auto simp: bit_simps)

lemma err_bit_simps [simp]:
  "bit BSON_NOT_UTF8 n \<longleftrightarrow> n = 1" "bit BSON_FIELD_HAS_DOT n \<longleftrightarrow> n = 2"
  "bit BSON_FIELD_INIT_DOLLAR n \<longleftrightarrow> n = 3" "bit BSON_SIZE_OVERFLOW n \<longleftrightarrow> n = 0"
  "bit BSON_ALREADY_FINISHED n \<longleftrightarrow> n = 4" "bit BSON_NOT_IN_SUBOBJECT n \<longleftrightarrow> n = 5"
  "bit BSON_DOES_NOT_OWN_DATA n \<longleftrightarrow> n = 6"
  by (simp_all only: bson_err_defs bit_push_bit_1) simp_all

lemma validate_loop_bits:
  "validate_loop s len u d position err = (r, err') \<Longrightarrow> len \<le> length s \<Longrightarrow>
   (bit err' 1 \<longleftrightarrow> bit err 1 \<or> r = BSON_ERROR)
   \<and> (bit err' 2 \<longrightarrow> bit err 2 \<or> d \<and> 0x2E \<in> set (drop position (take len s)))
   \<and> (bit err 2 \<longrightarrow> bit err' 2)
   \<and> (\<forall>n. n \<noteq> 1 \<and> n \<noteq> 2 \<longrightarrow> bit err' n = bit err n)"
proof (induction s len u d position err arbitrary: r err' rule: validate_loop.induct)
  case (1 s len u d position err)
  show ?case
  proof (cases "position < len")
    case False
    have "validate_loop s len u d position err = (BSON_OK, err)"
      by (subst validate_loop.simps) (simp add: False)
    with 1(2) show ?thesis by auto
  next
    case True
    let ?err1 = "if d \<and> s ! position = 0x2E then err OR BSON_FIELD_HAS_DOT else err"
    let ?n = "if u then trailingBytesForUTF8 ! unat (s ! position) + 1 else 1"
    have mem: "s ! position \<in> set (drop position (take len s))"
      using True 1(3) by (auto simp: in_set_conv_nth intro!: exI [of _ 0])
    have sub: "set (drop (position + ?n) (take len s)) \<subseteq> set (drop position (take len s))"
      by (rule set_drop_subset_set_drop) simp
    have e1: "bit ?err1 2 \<longleftrightarrow> bit err 2 \<or> d \<and> s ! position = 0x2E"
      "n \<noteq> 2 \<Longrightarrow> bit ?err1 n = bit err n" for n by (auto simp: bit_simps)
    show ?thesis
    proof (cases "u \<and> position + ?n > len \<or> u \<and> \<not> isLegalUTF8 (drop position s) ?n")
      case bad: True
      have "validate_loop s len u d position err = (BSON_ERROR, ?err1 OR BSON_NOT_UTF8)"
        using True bad by (subst validate_loop.simps) (auto simp: Let_def)
      with 1(2) e1 mem show ?thesis by (auto simp: bit_simps)
    next
      case ok: False
      have "validate_loop s len u d (position + ?n) ?err1 = (r, err')"
        using True ok 1(2) by (subst (asm) validate_loop.simps) (auto simp: Let_def split: if_splits)
      from 1(1) [OF True refl refl refl _ _ this 1(3)] ok
      show ?thesis using e1 mem sub by (auto split: if_splits)
    qed
  qed
qed

end
