(* ===== verification/Bson_Build.thy ===== *)
theory Bson_Build
  imports Utf8
begin

text \<open>
  The document builder: the section BUILDING of \<open>bson/bson/bson.c\<close>.  A builder operation takes
  the allocator and the \<open>bson\<close> and returns the status and the new \<open>bson\<close>, or
  \<open>None\<close> where the C code writes outside its block or through a null pointer.

  \<open>bson_config.h\<close> defines \<open>R_SAFETY_NET\<close>, so \<open>bson_fatal_msg\<close> only calls the
  installed error handler and returns: the code after a failed allocation or an unfinished
  subobject runs on, and the model follows it.  A \<open>size_t\<close> is a \<open>nat\<close>; sums whose operands
  come from outside wrap at 64 bits (\<open>wrap64\<close>) and every conversion to \<open>int\<close> is written out.
\<close>

section \<open>Allocation\<close>

text \<open>
  The three user-settable allocator functions: \<open>al_malloc n\<close> is the block \<open>malloc(n)\<close> returns
  (its bytes are arbitrary) or \<open>None\<close> for the null pointer, \<open>al_realloc old n\<close> likewise, and
  \<open>al_words n\<close> says whether the allocation of \<open>n\<close> bytes for the position stack succeeds.
\<close>

record allocator =
  al_malloc :: "nat \<Rightarrow> byte list option"
  al_realloc :: "byte list \<Rightarrow> nat \<Rightarrow> byte list option"
  al_words :: "nat \<Rightarrow> bool"

text \<open>The documented behaviour of \<open>malloc\<close> and \<open>realloc\<close>.\<close>

definition allocator_ok :: "allocator \<Rightarrow> bool" where
  "allocator_ok A \<longleftrightarrow>
     (\<forall>n d. al_malloc A n = Some d \<longrightarrow> length d = n)
     \<and> (\<forall>old n d. al_realloc A old n = Some d \<longrightarrow>
          length d = n \<and> take (length old) d = take n old)"

text \<open>No allocation fails.\<close>

definition allocator_total :: "allocator \<Rightarrow> bool" where
  "allocator_total A \<longleftrightarrow> (\<forall>n. al_malloc A n \<noteq> None) \<and> (\<forall>old n. al_realloc A old n \<noteq> None)
     \<and> (\<forall>n. al_words A n)"

definition initialBufferSize :: int where "initialBufferSize = 128"

definition bson_malloc :: "allocator \<Rightarrow> nat \<Rightarrow> byte list option" where
  "bson_malloc A sz = al_malloc A sz"

definition bson_realloc :: "allocator \<Rightarrow> byte list option \<Rightarrow> nat \<Rightarrow> byte list option" where
  "bson_realloc A ptr sz =
     (case ptr of None \<Rightarrow> al_malloc A sz | Some old \<Rightarrow> al_realloc A old sz)"

text \<open>\<open>(size_t) i\<close>\<close>

definition size_t :: "int \<Rightarrow> nat" where
  "size_t i = nat (i mod 2 ^ 64)"

text \<open>A \<open>size_t\<close> sum.\<close>

definition wrap64 :: "nat \<Rightarrow> nat" where
  "wrap64 n = n mod 2 ^ 64"

text \<open>\<open>(int) n\<close>\<close>

definition to_int :: "nat \<Rightarrow> i32" where
  "to_int n = word_of_nat n"

text \<open>
  \<open>(int) d\<close> for a non-negative double \<open>d\<close> with integer part \<open>x\<close>: x86-64 converts a value
  out of range to \<open>INT_MIN\<close>.
\<close>

definition double_to_int :: "int \<Rightarrow> int" where
  "double_to_int x = (if x \<le> INT_MAX then x else - INT_MAX - 1)"

section \<open>Initialisation\<close>

definition bson_zeroed :: bson where
  "bson_zeroed = \<lparr>b_data = None, b_cur = 0, b_dataSize = 0, b_finished = False,
     b_ownsData = False, b_stack = [], b_stackPos = 0, b_err = 0, b_stackPtr = NoStack,
     b_stackSize = 0\<rparr>"

definition bson_init_size :: "allocator \<Rightarrow> int \<Rightarrow> status \<times> bson" where
  "bson_init_size A sz =
     (if sz \<noteq> 0 then
        (case bson_malloc A (size_t sz) of
           None \<Rightarrow> (BSON_ERROR, bson_zeroed)
         | Some d \<Rightarrow> (BSON_OK, bson_zeroed\<lparr>b_data := Some d, b_dataSize := sz,
                                         b_ownsData := True, b_cur := 4\<rparr>))
      else (BSON_OK, bson_zeroed\<lparr>b_ownsData := True, b_cur := 4\<rparr>))"

definition bson_init :: "allocator \<Rightarrow> status \<times> bson" where
  "bson_init A = bson_init_size A initialBufferSize"

definition bson_init_unfinished_data :: "byte list \<Rightarrow> int \<Rightarrow> bool \<Rightarrow> status \<times> bson" where
  "bson_init_unfinished_data d dataSize ownsData =
     (BSON_OK, bson_zeroed\<lparr>b_data := Some d, b_dataSize := dataSize, b_ownsData := ownsData\<rparr>)"

definition bson_finished_data_size :: "byte list \<Rightarrow> int option" where
  "bson_finished_data_size d = map_option (\<lambda>bs. sint (unwire32 bs)) (rdn d 0 4)"

definition bson_init_finished_data :: "byte list \<Rightarrow> bool \<Rightarrow> (status \<times> bson) option" where
  "bson_init_finished_data d ownsData = do {
     sz \<leftarrow> bson_finished_data_size d;
     Some (BSON_OK, bson_zeroed\<lparr>b_data := Some d, b_dataSize := sz, b_ownsData := ownsData,
                                b_finished := True\<rparr>) }"

definition bson_init_finished_data_with_copy ::
  "allocator \<Rightarrow> byte list \<Rightarrow> (status \<times> bson) option" where
  "bson_init_finished_data_with_copy A d = do {
     sz \<leftarrow> bson_finished_data_size d;
     case bson_init_size A sz of
       (BSON_ERROR, b) \<Rightarrow> Some (BSON_ERROR, b)
     | (BSON_OK, b) \<Rightarrow>
         if sz = 0 then Some (BSON_OK, b\<lparr>b_finished := True\<rparr>)
         else do {
           src \<leftarrow> rdn d 0 (size_t sz);
           block \<leftarrow> b_data b;
           block' \<leftarrow> blit block 0 src;
           Some (BSON_OK, b\<lparr>b_data := Some block', b_finished := True\<rparr>) } }"

definition bson_shared_empty_data :: "byte list" where
  "bson_shared_empty_data = [5, 0, 0, 0, 0]"

definition bson_init_empty :: "(status \<times> bson) option" where
  "bson_init_empty = bson_init_finished_data bson_shared_empty_data False"

definition bson_shared_empty :: bson where
  "bson_shared_empty = bson_zeroed\<lparr>b_data := Some bson_shared_empty_data, b_dataSize := 128,
     b_finished := True\<rparr>"

definition bson_copy :: "allocator \<Rightarrow> bson option \<Rightarrow> (status \<times> bson option) option" where
  "bson_copy A inp =
     (case inp of
        None \<Rightarrow> Some (BSON_ERROR, None)
      | Some b \<Rightarrow>
          if \<not> b_finished b then Some (BSON_ERROR, None)
          else do {
            d \<leftarrow> b_data b;
            (r, out) \<leftarrow> bson_init_finished_data_with_copy A d;
            Some (r, Some out) })"

definition bson_size :: "bson \<Rightarrow> int option" where
  "bson_size b = (case b_data b of None \<Rightarrow> Some 0 | Some d \<Rightarrow> bson_finished_data_size d)"

definition bson_position :: "bson \<Rightarrow> nat" where
  "bson_position b = b_cur b"

definition bson_buffer_size :: "bson \<Rightarrow> nat" where
  "bson_buffer_size b = bson_position b + 1"

section \<open>Raw appends\<close>

text \<open>\<open>memcpy\<close> to \<open>cur\<close>, which then moves: every append ends here.\<close>

definition bson_append :: "bson \<Rightarrow> byte list \<Rightarrow> bson option" where
  "bson_append b xs =
     (case b_data b of
        None \<Rightarrow> None
      | Some d \<Rightarrow>
          (case blit d (b_cur b) xs of
             None \<Rightarrow> None
           | Some d' \<Rightarrow> Some (b\<lparr>b_data := Some d', b_cur := b_cur b + length xs\<rparr>)))"

definition bson_append_byte :: "bson \<Rightarrow> byte \<Rightarrow> bson option" where
  "bson_append_byte b c = bson_append b [c]"

definition bson_append32 :: "bson \<Rightarrow> i32 \<Rightarrow> bson option" where
  "bson_append32 b w = bson_append b (bson_little_endian32 (mem32 w))"

definition bson_append32_as_int :: "bson \<Rightarrow> i32 \<Rightarrow> bson option" where
  "bson_append32_as_int b w = bson_append b (bson_little_endian32 (mem32 w))"

definition bson_append64 :: "bson \<Rightarrow> i64 \<Rightarrow> bson option" where
  "bson_append64 b w = bson_append b (bson_little_endian64 (mem64 w))"

text \<open>A store into the block that does not move \<open>cur\<close>: the size field of a document.\<close>

definition bson_poke :: "bson \<Rightarrow> nat \<Rightarrow> byte list \<Rightarrow> bson option" where
  "bson_poke b off xs =
     (case b_data b of
        None \<Rightarrow> None
      | Some d \<Rightarrow> map_option (\<lambda>d'. b\<lparr>b_data := Some d'\<rparr>) (blit d off xs))"

definition bson_ensure_space :: "allocator \<Rightarrow> bson \<Rightarrow> nat \<Rightarrow> status \<times> bson" where
  "bson_ensure_space A b bytesNeeded =
     (let pos = bson_position b in
      if wrap64 (pos + bytesNeeded) \<le> size_t (b_dataSize b) then (BSON_OK, b)
      else
        let want = int (wrap64 (size_t (b_dataSize b) + bytesNeeded));
            new_size = double_to_int (3 * want div 2);
            too_big = new_size < b_dataSize b;
            size' = (if too_big then INT_MAX else new_size)
        in if too_big \<and> \<not> want < INT_MAX then (BSON_ERROR, b\<lparr>b_err := BSON_SIZE_OVERFLOW\<rparr>)
           else if \<not> b_ownsData b then (BSON_ERROR, b\<lparr>b_err := BSON_DOES_NOT_OWN_DATA\<rparr>)
           else (BSON_OK, b\<lparr>b_data := bson_realloc A (b_data b) (size_t size'),
                            b_dataSize := size'\<rparr>))"

definition bson_finish :: "allocator \<Rightarrow> bson \<Rightarrow> (status \<times> bson) option" where
  "bson_finish A b =
     (if bit (b_err b) 1 then Some (BSON_ERROR, b)
      else if \<not> b_finished b then
        (case bson_ensure_space A b 1 of
           (BSON_ERROR, b) \<Rightarrow> Some (BSON_ERROR, b)
         | (BSON_OK, b) \<Rightarrow> do {
             b \<leftarrow> bson_append_byte b 0;
             if int (bson_position b) \<ge> INT32_MAX
             then Some (BSON_ERROR, b\<lparr>b_err := BSON_SIZE_OVERFLOW\<rparr>)
             else do {
               b \<leftarrow> bson_poke b 0 (bson_little_endian32 (mem32 (to_int (bson_position b))));
               Some (BSON_OK, b\<lparr>b_finished := True\<rparr>) } })
      else Some (BSON_OK, b))"

definition bson_destroy :: "bson \<Rightarrow> bson" where
  "bson_destroy b =
     b\<lparr>b_data := None, b_dataSize := 0, b_ownsData := False,
       b_stackPtr := (if b_stackPtr b = HeapStack then NoStack else b_stackPtr b),
       b_stackSize := 0, b_stackPos := 0, b_err := 0, b_cur := 0, b_finished := True\<rparr>"

section \<open>Element headers\<close>

definition bson_append_estart ::
  "allocator \<Rightarrow> bson \<Rightarrow> bson_type \<Rightarrow> byte list \<Rightarrow> nat \<Rightarrow> (status \<times> bson) option" where
  "bson_append_estart A b type name dataSize =
     (let len = length name + 1 in
      if b_finished b then Some (BSON_ERROR, b\<lparr>b_err := b_err b OR BSON_ALREADY_FINISHED\<rparr>)
      else
        (case bson_ensure_space A b (wrap64 (1 + len + dataSize)) of
           (BSON_ERROR, b) \<Rightarrow> Some (BSON_ERROR, b)
         | (BSON_OK, b) \<Rightarrow>
             (case bson_check_field_name b name (len - 1) of
                (BSON_ERROR, b) \<Rightarrow> Some (BSON_ERROR, b)
              | (BSON_OK, b) \<Rightarrow> do {
                  b \<leftarrow> bson_append_byte b (type_char type);
                  b \<leftarrow> bson_append b (name @ [0]);
                  Some (BSON_OK, b) })))"

text \<open>
  Most operations are an element header followed by a body: \<open>if (bson_append_estart(...) ==
  BSON_ERROR) return BSON_ERROR; body; return BSON_OK\<close>.
\<close>

definition with_estart ::
  "allocator \<Rightarrow> bson \<Rightarrow> bson_type \<Rightarrow> byte list \<Rightarrow> nat \<Rightarrow> (bson \<Rightarrow> (status \<times> bson) option)
   \<Rightarrow> (status \<times> bson) option" where
  "with_estart A b type name dataSize body = do {
     (r, b) \<leftarrow> bson_append_estart A b type name dataSize;
     case r of BSON_ERROR \<Rightarrow> Some (BSON_ERROR, b) | BSON_OK \<Rightarrow> body b }"

definition ok :: "bson \<Rightarrow> (status \<times> bson) option" where
  "ok b = Some (BSON_OK, b)"

section \<open>Typed appends\<close>

definition bson_append_int :: "allocator \<Rightarrow> bson \<Rightarrow> byte list \<Rightarrow> i32 \<Rightarrow> (status \<times> bson) option" where
  "bson_append_int A b name i =
     with_estart A b BSON_INT name 4 (\<lambda>b. bson_append32 b i \<bind> ok)"

definition bson_append_long :: "allocator \<Rightarrow> bson \<Rightarrow> byte list \<Rightarrow> i64 \<Rightarrow> (status \<times> bson) option" where
  "bson_append_long A b name i =
     with_estart A b BSON_LONG name 8 (\<lambda>b. bson_append64 b i \<bind> ok)"

text \<open>A double is its 64-bit pattern.\<close>

definition bson_append_double :: "allocator \<Rightarrow> bson \<Rightarrow> byte list \<Rightarrow> i64 \<Rightarrow> (status \<times> bson) option" where
  "bson_append_double A b name d =
     with_estart A b BSON_DOUBLE name 8 (\<lambda>b. bson_append64 b d \<bind> ok)"

definition bson_append_bool :: "allocator \<Rightarrow> bson \<Rightarrow> byte list \<Rightarrow> i32 \<Rightarrow> (status \<times> bson) option" where
  "bson_append_bool A b name i =
     with_estart A b BSON_BOOL name 1 (\<lambda>b. bson_append_byte b (if i \<noteq> 0 then 1 else 0) \<bind> ok)"

definition bson_append_null :: "allocator \<Rightarrow> bson \<Rightarrow> byte list \<Rightarrow> (status \<times> bson) option" where
  "bson_append_null A b name = with_estart A b BSON_NULL name 0 ok"

definition bson_append_undefined :: "allocator \<Rightarrow> bson \<Rightarrow> byte list \<Rightarrow> (status \<times> bson) option" where
  "bson_append_undefined A b name = with_estart A b BSON_UNDEFINED name 0 ok"

text \<open>\<open>value\<close> points to at least \<open>len\<close> bytes; a shorter block is read past its end.\<close>

definition bson_append_string_base ::
  "allocator \<Rightarrow> bson \<Rightarrow> byte list \<Rightarrow> byte list \<Rightarrow> nat \<Rightarrow> bson_type \<Rightarrow> (status \<times> bson) option" where
  "bson_append_string_base A b name value len type =
     (let sl = len + 1 in
      if int sl > INT32_MAX then Some (BSON_ERROR, b\<lparr>b_err := BSON_SIZE_OVERFLOW\<rparr>)
      else if length value < len then None
      else
        (case bson_check_string b value (sl - 1) of
           (BSON_ERROR, b) \<Rightarrow> Some (BSON_ERROR, b)
         | (BSON_OK, b) \<Rightarrow>
             with_estart A b type name (4 + sl) (\<lambda>b. do {
               b \<leftarrow> bson_append32_as_int b (to_int sl);
               b \<leftarrow> bson_append b (take (sl - 1) value);
               b \<leftarrow> bson_append b [0];
               ok b })))"

definition bson_append_string ::
  "allocator \<Rightarrow> bson \<Rightarrow> byte list \<Rightarrow> byte list \<Rightarrow> (status \<times> bson) option" where
  "bson_append_string A b name value =
     bson_append_string_base A b name value (length value) BSON_STRING"

definition bson_append_symbol ::
  "allocator \<Rightarrow> bson \<Rightarrow> byte list \<Rightarrow> byte list \<Rightarrow> (status \<times> bson) option" where
  "bson_append_symbol A b name value =
     bson_append_string_base A b name value (length value) BSON_SYMBOL"

definition bson_append_code ::
  "allocator \<Rightarrow> bson \<Rightarrow> byte list \<Rightarrow> byte list \<Rightarrow> (status \<times> bson) option" where
  "bson_append_code A b name value =
     bson_append_string_base A b name value (length value) BSON_CODE"

definition bson_append_string_n ::
  "allocator \<Rightarrow> bson \<Rightarrow> byte list \<Rightarrow> byte list \<Rightarrow> nat \<Rightarrow> (status \<times> bson) option" where
  "bson_append_string_n A b name value len =
     bson_append_string_base A b name value len BSON_STRING"

definition bson_append_symbol_n ::
  "allocator \<Rightarrow> bson \<Rightarrow> byte list \<Rightarrow> byte list \<Rightarrow> nat \<Rightarrow> (status \<times> bson) option" where
  "bson_append_symbol_n A b name value len =
     bson_append_string_base A b name value len BSON_SYMBOL"

definition bson_append_code_n ::
  "allocator \<Rightarrow> bson \<Rightarrow> byte list \<Rightarrow> byte list \<Rightarrow> nat \<Rightarrow> (status \<times> bson) option" where
  "bson_append_code_n A b name value len =
     bson_append_string_base A b name value len BSON_CODE"

text \<open>
  \<open>code\<close> is the memory at the code pointer: the call copies \<open>len + 1\<close> of its bytes.  The
  copy of the scope takes \<open>bson_size(scope)\<close> bytes of its block.
\<close>

definition bson_bytes :: "bson \<Rightarrow> int \<Rightarrow> byte list option" where
  "bson_bytes b sz =
     (case b_data b of None \<Rightarrow> (if sz = 0 then Some [] else None)
      | Some d \<Rightarrow> rdn d 0 (size_t sz))"

definition bson_append_code_w_scope_n ::
  "allocator \<Rightarrow> bson \<Rightarrow> byte list \<Rightarrow> byte list \<Rightarrow> nat \<Rightarrow> bson option \<Rightarrow> (status \<times> bson) option" where
  "bson_append_code_w_scope_n A b name code len scope =
     (case scope of
        None \<Rightarrow> Some (BSON_ERROR, b)
      | Some sc \<Rightarrow> do {
          scsize \<leftarrow> bson_size sc;
          let sl = len + 1;
          let sz = size_t (4 + 4 + int sl + scsize);
          if int sz > INT32_MAX then Some (BSON_ERROR, b\<lparr>b_err := BSON_SIZE_OVERFLOW\<rparr>)
          else with_estart A b BSON_CODEWSCOPE name sz (\<lambda>b. do {
            b \<leftarrow> bson_append32_as_int b (to_int sz);
            b \<leftarrow> bson_append32 b (to_int sl);
            cs \<leftarrow> rdn code 0 sl;
            b \<leftarrow> bson_append b cs;
            ss \<leftarrow> bson_bytes sc scsize;
            b \<leftarrow> bson_append b ss;
            ok b }) })"

definition bson_append_code_w_scope ::
  "allocator \<Rightarrow> bson \<Rightarrow> byte list \<Rightarrow> byte list \<Rightarrow> bson option \<Rightarrow> (status \<times> bson) option" where
  "bson_append_code_w_scope A b name code scope =
     bson_append_code_w_scope_n A b name (code @ [0]) (length code) scope"

definition bson_append_binary ::
  "allocator \<Rightarrow> bson \<Rightarrow> byte list \<Rightarrow> byte \<Rightarrow> byte list \<Rightarrow> nat \<Rightarrow> (status \<times> bson) option" where
  "bson_append_binary A b name type str len =
     (if type = BSON_BIN_BINARY_OLD then
        let subtwolen = wrap64 (len + 4) in
        with_estart A b BSON_BINDATA name (wrap64 (4 + 1 + 4 + len)) (\<lambda>b. do {
          b \<leftarrow> bson_append32_as_int b (to_int subtwolen);
          b \<leftarrow> bson_append_byte b type;
          b \<leftarrow> bson_append32_as_int b (to_int len);
          xs \<leftarrow> rdn str 0 len;
          b \<leftarrow> bson_append b xs;
          ok b })
      else
        with_estart A b BSON_BINDATA name (wrap64 (4 + 1 + len)) (\<lambda>b. do {
          b \<leftarrow> bson_append32_as_int b (to_int len);
          b \<leftarrow> bson_append_byte b type;
          xs \<leftarrow> rdn str 0 len;
          b \<leftarrow> bson_append b xs;
          ok b }))"

definition bson_append_oid ::
  "allocator \<Rightarrow> bson \<Rightarrow> byte list \<Rightarrow> bson_oid_t \<Rightarrow> (status \<times> bson) option" where
  "bson_append_oid A b name oid =
     with_estart A b BSON_OID name 12 (\<lambda>b. do {
       xs \<leftarrow> rdn oid 0 12;
       b \<leftarrow> bson_append b xs;
       ok b })"

definition bson_append_regex ::
  "allocator \<Rightarrow> bson \<Rightarrow> byte list \<Rightarrow> byte list \<Rightarrow> byte list \<Rightarrow> (status \<times> bson) option" where
  "bson_append_regex A b name pattern opts =
     (let plen = length pattern + 1; olen = length opts + 1 in
      with_estart A b BSON_REGEX name (plen + olen) (\<lambda>b.
        (case bson_check_string b pattern (plen - 1) of
           (BSON_ERROR, b) \<Rightarrow> Some (BSON_ERROR, b)
         | (BSON_OK, b) \<Rightarrow> do {
             b \<leftarrow> bson_append b (pattern @ [0]);
             b \<leftarrow> bson_append b (opts @ [0]);
             ok b })))"

definition bson_append_bson ::
  "allocator \<Rightarrow> bson \<Rightarrow> byte list \<Rightarrow> bson option \<Rightarrow> (status \<times> bson) option" where
  "bson_append_bson A b name sub =
     (case sub of
        None \<Rightarrow> Some (BSON_ERROR, b)
      | Some s \<Rightarrow> do {
          sz \<leftarrow> bson_size s;
          with_estart A b BSON_OBJECT name (size_t sz) (\<lambda>b. do {
            xs \<leftarrow> bson_bytes s sz;
            b \<leftarrow> bson_append b xs;
            ok b }) })"

definition bson_append_timestamp ::
  "allocator \<Rightarrow> bson \<Rightarrow> byte list \<Rightarrow> bson_timestamp_t \<Rightarrow> (status \<times> bson) option" where
  "bson_append_timestamp A b name ts =
     with_estart A b BSON_TIMESTAMP name 8 (\<lambda>b. do {
       b \<leftarrow> bson_append32 b (ts_i ts);
       b \<leftarrow> bson_append32 b (ts_t ts);
       ok b })"

definition bson_append_timestamp2 ::
  "allocator \<Rightarrow> bson \<Rightarrow> byte list \<Rightarrow> i32 \<Rightarrow> i32 \<Rightarrow> (status \<times> bson) option" where
  "bson_append_timestamp2 A b name time increment =
     with_estart A b BSON_TIMESTAMP name 8 (\<lambda>b. do {
       b \<leftarrow> bson_append32 b increment;
       b \<leftarrow> bson_append32 b time;
       ok b })"

definition bson_append_date ::
  "allocator \<Rightarrow> bson \<Rightarrow> byte list \<Rightarrow> bson_date_t \<Rightarrow> (status \<times> bson) option" where
  "bson_append_date A b name millis =
     with_estart A b BSON_DATE name 8 (\<lambda>b. bson_append64 b millis \<bind> ok)"

definition bson_append_time_t ::
  "allocator \<Rightarrow> bson \<Rightarrow> byte list \<Rightarrow> i64 \<Rightarrow> (status \<times> bson) option" where
  "bson_append_time_t A b name secs = bson_append_date A b name (secs * 1000)"

section \<open>Subobjects and the position stack\<close>

definition bson_append_grow_stack :: "allocator \<Rightarrow> bson \<Rightarrow> status \<times> bson" where
  "bson_append_grow_stack A b =
     (case b_stackPtr b of
        NoStack \<Rightarrow> (BSON_OK, b\<lparr>b_stackPtr := LocalStack, b_stack := replicate 32 0,
                               b_stackSize := 32\<rparr>)
      | LocalStack \<Rightarrow>
          if al_words A (2 * 32 * 8)
          then (BSON_OK, b\<lparr>b_stackPtr := HeapStack, b_stack := b_stack b @ replicate 32 0,
                           b_stackSize := 2 * 32\<rparr>)
          else (BSON_ERROR, b)
      | HeapStack \<Rightarrow>
          if al_words A (b_stackSize b * 2 * 8)
          then (BSON_OK, b\<lparr>b_stack := b_stack b @ replicate (b_stackSize b) 0,
                           b_stackSize := b_stackSize b * 2\<rparr>)
          else (BSON_ERROR, b))"

text \<open>\<open>b->stackPtr[b->stackPos++] = _bson_position(b)\<close>\<close>

definition push_position :: "bson \<Rightarrow> bson option" where
  "push_position b =
     (if b_stackPos b < length (b_stack b)
      then Some (b\<lparr>b_stack := (b_stack b)[b_stackPos b := bson_position b],
                   b_stackPos := b_stackPos b + 1\<rparr>)
      else None)"

definition append_start :: "allocator \<Rightarrow> bson \<Rightarrow> bson_type \<Rightarrow> byte list \<Rightarrow> (status \<times> bson) option" where
  "append_start A b type name =
     with_estart A b type name 5 (\<lambda>b.
       (case (if b_stackPos b \<ge> b_stackSize b then bson_append_grow_stack A b else (BSON_OK, b)) of
          (BSON_ERROR, b) \<Rightarrow> Some (BSON_ERROR, b)
        | (BSON_OK, b) \<Rightarrow> do {
            b \<leftarrow> push_position b;
            b \<leftarrow> bson_append32 b 0;
            ok b }))"

definition bson_append_start_object ::
  "allocator \<Rightarrow> bson \<Rightarrow> byte list \<Rightarrow> (status \<times> bson) option" where
  "bson_append_start_object A b name = append_start A b BSON_OBJECT name"

definition bson_append_start_array ::
  "allocator \<Rightarrow> bson \<Rightarrow> byte list \<Rightarrow> (status \<times> bson) option" where
  "bson_append_start_array A b name = append_start A b BSON_ARRAY name"

definition bson_append_finish_object :: "allocator \<Rightarrow> bson \<Rightarrow> (status \<times> bson) option" where
  "bson_append_finish_object A b =
     (if b_stackPos b = 0 then Some (BSON_ERROR, b\<lparr>b_err := BSON_NOT_IN_SUBOBJECT\<rparr>)
      else
        (case bson_ensure_space A b 1 of
           (BSON_ERROR, b) \<Rightarrow> Some (BSON_ERROR, b)
         | (BSON_OK, b) \<Rightarrow> do {
             b \<leftarrow> bson_append_byte b 0;
             let b = b\<lparr>b_stackPos := b_stackPos b - 1\<rparr>;
             let start = b_stack b ! b_stackPos b;
             if int (b_cur b) - int start \<ge> INT32_MAX
             then Some (BSON_ERROR, b\<lparr>b_err := BSON_SIZE_OVERFLOW\<rparr>)
             else do {
               b \<leftarrow> bson_poke b start (bson_little_endian32 (mem32 (to_int (b_cur b - start))));
               ok b } }))"

definition bson_append_finish_array :: "allocator \<Rightarrow> bson \<Rightarrow> (status \<times> bson) option" where
  "bson_append_finish_array A b = bson_append_finish_object A b"

end
