(* ===== verification/Numbers.thy ===== *)
theory Numbers
  imports Bson_Types
begin

text \<open>
  Decimal strings: the table \<open>bson_numstrs\<close> of \<open>bson/bson/numbers.c\<close> and
  \<open>bson_numstr\<close> of \<open>bson/bson/bson.c\<close>, which names array elements and reports unknown type
  bytes.
\<close>

fun decimal :: "nat \<Rightarrow> byte list" where
  "decimal n = (if n < 10 then [0x30 + word_of_nat n]
                else decimal (n div 10) @ [0x30 + word_of_nat (n mod 10)])"

declare decimal.simps [simp del]

text \<open>
  Row \<open>i\<close> of \<open>bson_numstrs[1000][4]\<close> holds the digits of \<open>i\<close>, filled up with NUL
  bytes.
\<close>

definition numstr_row :: "nat \<Rightarrow> byte list" where
  "numstr_row i = decimal i @ replicate (4 - length (decimal i)) 0"

definition bson_numstrs :: "byte list list" where
  "bson_numstrs = map numstr_row [0..<1000]"

text \<open>
  The bytes \<open>bson_numstr\<close> stores at \<open>str\<close>.  A negative index below 1000 reads in front of the
  table, a fault.
\<close>

definition bson_numstr :: "int \<Rightarrow> byte list option" where
  "bson_numstr i =
     (if i < 1000 then (if 0 \<le> i then Some (take 4 (bson_numstrs ! nat i)) else None)
      else Some (decimal (nat i) @ [0]))"

text \<open>Reading decimal digits back.\<close>

definition digits_value :: "byte list \<Rightarrow> nat" where
  "digits_value ds = foldl (\<lambda>v d. 10 * v + unat (d - 0x30)) 0 ds"

lemma digit_value: "k < 10 \<Longrightarrow> unat ((0x30 + word_of_nat k :: byte) - 0x30) = k"
  by (simp add: unat_of_nat)

lemma digits_value_decimal [simp]: "digits_value (decimal n) = n"
proof (induction n rule: decimal.induct)
  case (1 n)
  show ?case
  proof (cases "n < 10")
    case True
    then show ?thesis by (subst decimal.simps) (simp add: digits_value_def unat_of_nat)
  next
    case False
    have "digits_value (decimal n)
        = 10 * digits_value (decimal (n div 10)) + unat ((0x30 + word_of_nat (n mod 10) :: byte) - 0x30)"
      by (subst decimal.simps) (simp add: False digits_value_def)
    with 1 [OF False] digit_value [of "n mod 10"] show ?thesis by simp
  qed
qed

lemma digit_nonzero: "k < 10 \<Longrightarrow> (0x30 + word_of_nat k :: byte) \<noteq> 0"
proof
  assume "k < 10" and "(0x30 + word_of_nat k :: byte) = 0"
  then have "unat (word_of_nat (48 + k) :: byte) = 0" by simp
  with \<open>k < 10\<close> show False by (simp add: unat_of_nat del: of_nat_add)
qed

lemma decimal_no_nul: "0 \<notin> set (decimal n)"
proof (induction n rule: decimal.induct)
  case (1 n)
  then show ?case
    using digit_nonzero [of n] digit_nonzero [of "n mod 10"]
    by (subst decimal.simps) (auto simp: eq_commute [of "0::byte"])
qed

lemma decimal_length_bounds: "n < 10 ^ k \<Longrightarrow> 0 < k \<Longrightarrow> length (decimal n) \<le> k"
proof (induction n arbitrary: k rule: decimal.induct)
  case (1 n)
  show ?case
  proof (cases "n < 10")
    case True
    with 1(3) show ?thesis by (subst decimal.simps) simp
  next
    case False
    with 1(2,3) have "1 < k" by (cases k; cases "k - 1") auto
    then obtain k' where k: "k = Suc k'" "0 < k'" by (cases k) auto
    have "n div 10 < 10 ^ k'" using 1(2) k by (simp add: less_mult_imp_div_less mult.commute)
    then have "length (decimal (n div 10)) \<le> k'" using 1(1) [OF False] k by simp
    then show ?thesis using False k by (subst decimal.simps) simp
  qed
qed

lemma numstr_table: "0 \<le> i \<Longrightarrow> i < 1000 \<Longrightarrow> bson_numstr i = Some (numstr_row (nat i))"
  using decimal_length_bounds [of "nat i" 3]
  by (simp add: bson_numstr_def bson_numstrs_def numstr_row_def nat_less_iff)

lemma numstr_negative: "i < 0 \<Longrightarrow> bson_numstr i = None"
  by (simp add: bson_numstr_def)

lemma numstr_cstring:
  assumes "0 \<le> i"
  obtains bs where "bson_numstr i = Some bs" and "cstring bs 0 = Some (decimal (nat i))"
proof -
  have loc: "located (decimal (nat i) @ 0 # zs) 0 (decimal (nat i) @ [0])" for zs
    using located_mid [of "[]" "decimal (nat i) @ [0]" zs] by simp
  show ?thesis
  proof (cases "i < 1000")
    case True
    then have "length (decimal (nat i)) \<le> 3" using decimal_length_bounds [of "nat i" 3] assms by simp
    then have "4 - length (decimal (nat i)) = Suc (3 - length (decimal (nat i)))" by simp
    then have "numstr_row (nat i) = decimal (nat i) @ 0 # replicate (3 - length (decimal (nat i))) 0"
      by (simp add: numstr_row_def)
    with that [OF numstr_table [OF assms True]] cstring_located [OF loc decimal_no_nul]
    show ?thesis by simp
  next
    case False
    with that [of "decimal (nat i) @ [0]"] cstring_located [OF loc decimal_no_nul, of "[]"]
    show ?thesis by (simp add: bson_numstr_def)
  qed
qed

end
