(* ===== verification/Oid.thy ===== *)
theory Oid
  imports Bson_Types
begin

text \<open>
  Object ids (\<open>bson/bson/bson.c\<close>): the hexadecimal reader and writer and the generator with its
  two static variables.  An object id is the 12 bytes of the union.
\<close>

definition hexbyte :: "byte \<Rightarrow> byte" where
  "hexbyte hex =
     (if hex \<ge> 0x30 \<and> hex \<le> 0x39 then hex - 0x30
      else if hex \<ge> 0x41 \<and> hex \<le> 0x46 then hex - 0x41 + 10
      else if hex \<ge> 0x61 \<and> hex \<le> 0x66 then hex - 0x61 + 10
      else 0)"

text \<open>
  \<open>str\<close> is the contents of a C string: the reads of \<open>str[2 * i]\<close> and
  \<open>str[2 * i + 1]\<close> fault past its terminator.
\<close>

fun oid_from_bytes :: "byte list \<Rightarrow> nat \<Rightarrow> bson_oid_t option" where
  "oid_from_bytes str 0 = Some []"
| "oid_from_bytes str (Suc k) = do {
     hi \<leftarrow> rd str 0;
     lo \<leftarrow> rd str 1;
     rest \<leftarrow> oid_from_bytes (drop 2 str) k;
     Some ((push_bit 4 (hexbyte hi) OR hexbyte lo) # rest) }"

definition bson_oid_from_string :: "byte list \<Rightarrow> bson_oid_t option" where
  "bson_oid_from_string str = oid_from_bytes (str @ [0]) 12"

definition hex_digits :: "byte list" where
  "hex_digits = [0x30, 0x31, 0x32, 0x33, 0x34, 0x35, 0x36, 0x37, 0x38, 0x39,
                 0x61, 0x62, 0x63, 0x64, 0x65, 0x66]"

definition byte_to_hex :: "byte \<Rightarrow> byte list" where
  "byte_to_hex c = [hex_digits ! unat (drop_bit 4 (c AND 0xF0)), hex_digits ! unat (c AND 0x0F)]"

definition bson_oid_to_string :: "bson_oid_t \<Rightarrow> byte list" where
  "bson_oid_to_string oid = concat (map byte_to_hex oid) @ [0]"

record oid_statics =
  incr :: i32
  fuzz :: i32

text \<open>
  \<open>t\<close> is \<open>time(NULL)\<close>; \<open>inc\<close> and \<open>fuzz_func\<close> are the values the two
  user functions return when they are set; \<open>rand_of seed\<close> is the first \<open>rand()\<close> after
  \<open>srand(seed)\<close>.  Under this configuration \<open>bson_big_endian32\<close> copies four bytes.
\<close>

definition bson_oid_gen ::
  "i64 \<Rightarrow> i32 option \<Rightarrow> i32 option \<Rightarrow> (i32 \<Rightarrow> i32) \<Rightarrow> oid_statics \<Rightarrow> bson_oid_t \<times> oid_statics" where
  "bson_oid_gen t inc fuzz_func rand_of st =
     (let (i, st1) = (case inc of Some v \<Rightarrow> (v, st) | None \<Rightarrow> (incr st, st\<lparr>incr := incr st + 1\<rparr>));
          st2 = (if fuzz st1 = 0
                 then (case fuzz_func of
                         Some v \<Rightarrow> st1\<lparr>fuzz := v\<rparr>
                       | None \<Rightarrow> st1\<lparr>fuzz := rand_of (ucast t)\<rparr>)
                 else st1)
      in (bson_big_endian32 (mem64 t) @ mem32 (fuzz st2) @ bson_big_endian32 (mem32 i), st2))"

text \<open>
  \<open>time_t out\<close> has eight bytes and four are assigned: the upper four, \<open>stale\<close>, are
  whatever the stack held.
\<close>

definition bson_oid_generated_time :: "byte list \<Rightarrow> bson_oid_t \<Rightarrow> i64" where
  "bson_oid_generated_time stale oid = of_mem64 (bson_big_endian32 (take 4 oid) @ stale)"

lemma length_oid_gen: "length (fst (bson_oid_gen t inc ff r st)) = 12"
  by (simp add: bson_oid_gen_def bson_big_endian32_def Let_def split_beta)

lemma hexbyte_hex_digits: "n < 16 \<Longrightarrow> hexbyte (hex_digits ! n) = word_of_nat n"
proof -
  assume "n < 16"
  then have "n \<in> set [0..<16]" by simp
  moreover have "\<forall>n \<in> set [0..<16]. hexbyte (hex_digits ! n) = word_of_nat n"
    by (simp add: upt_rec hexbyte_def hex_digits_def)
  ultimately show ?thesis by blast
qed

lemma nibbles: "push_bit 4 (drop_bit 4 (c AND 0xF0)) OR (c AND 0x0F) = (c :: byte)"
proof (rule bit_word_eqI)
  fix n assume "n < LENGTH(8)"
  then have "n < 8" by simp
  then consider "n = 0" | "n = 1" | "n = 2" | "n = 3" | "n = 4" | "n = 5" | "n = 6" | "n = 7"
    by linarith
  then show "bit (push_bit 4 (drop_bit 4 (c AND 0xF0)) OR (c AND 0x0F)) n = bit c n"
    by cases (simp_all add: bit_simps)
qed

lemma nibble_bounds: "unat (drop_bit 4 ((c :: byte) AND 0xF0)) < 16" "unat ((c :: byte) AND 0x0F) < 16"
proof -
  have "c AND 0x0F \<le> 0x0F" by (rule word_and_le1)
  then show "unat (c AND 0x0F) < 16" by (simp add: word_le_nat_alt)
  have "unat (drop_bit 4 (c AND 0xF0)) = unat (c AND 0xF0) div 16"
    by (simp add: drop_bit_eq_div unat_div)
  moreover have "unat (c AND 0xF0) < 2 ^ LENGTH(8)" by (rule unsigned_less)
  ultimately show "unat (drop_bit 4 (c AND 0xF0)) < 16" by simp
qed

lemma hex_round_trip_byte:
  "push_bit 4 (hexbyte (byte_to_hex c ! 0)) OR hexbyte (byte_to_hex c ! 1) = c"
  using nibbles [of c] nibble_bounds [of c]
  by (simp add: byte_to_hex_def hexbyte_hex_digits)

lemma oid_from_to_bytes:
  "oid_from_bytes (concat (map byte_to_hex oid) @ rest) (length oid) = Some oid"
proof (induction oid)
  case Nil
  then show ?case by simp
next
  case (Cons c oid)
  then show ?case
    using hex_round_trip_byte [of c] by (simp add: byte_to_hex_def rd_def)
qed

text \<open>Consecutive calls of the generator with the built-in counter, at the given times.\<close>

fun oid_gen_all ::
  "i32 option \<Rightarrow> (i32 \<Rightarrow> i32) \<Rightarrow> oid_statics \<Rightarrow> i64 list \<Rightarrow> bson_oid_t list" where
  "oid_gen_all ff r st [] = []"
| "oid_gen_all ff r st (t # ts) =
     (case bson_oid_gen t None ff r st of (oid, st') \<Rightarrow> oid # oid_gen_all ff r st' ts)"

lemma oid_gen_counter: "drop 8 (fst (bson_oid_gen t None ff r st)) = mem32 (incr st)"
  by (simp add: bson_oid_gen_def bson_big_endian32_def Let_def split_beta)

lemma oid_gen_incr: "incr (snd (bson_oid_gen t None ff r st)) = incr st + 1"
  by (auto simp: bson_oid_gen_def Let_def split: option.splits)

lemma oid_gen_all_counters:
  "map (drop 8) (oid_gen_all ff r st ts) = map (\<lambda>k. mem32 (incr st + word_of_nat k)) [0..<length ts]"
proof (induction ts arbitrary: st)
  case Nil
  then show ?case by simp
next
  case (Cons t ts)
  obtain oid st' where g: "bson_oid_gen t None ff r st = (oid, st')" by fastforce
  have "incr st' = incr st + 1" "drop 8 oid = mem32 (incr st)"
    using oid_gen_incr [of t ff r st] oid_gen_counter [of t ff r st] g by simp_all
  moreover have "[0..<length (t # ts)] = 0 # map Suc [0..<length ts]"
    by (simp add: map_Suc_upt upt_conv_Cons del: upt_Suc)
  ultimately show ?case using Cons.IH [of st'] g by (simp add: add.assoc del: upt_Suc)
qed

lemma oid_gen_all_distinct:
  assumes "length ts \<le> 2 ^ 32"
  shows "distinct (oid_gen_all ff r st ts)"
proof -
  have inj: "word_of_nat k = (word_of_nat l :: i32) \<longleftrightarrow> k = l"
    if "k < length ts" "l < length ts" for k l
    using that assms by (simp add: word_unat_eq_iff unat_of_nat)
  have "distinct (map (\<lambda>k. mem32 (incr st + word_of_nat k)) [0..<length ts])"
    by (auto simp: distinct_map inj_on_def mem32_inj inj)
  then show ?thesis
    using oid_gen_all_counters [of ff r st ts] by (metis distinct_map)
qed

end
