(* ===== verification/Bson_Read.thy ===== *)
theory Bson_Read
  imports Bson_Build Numbers Oid
begin

text \<open>
  Reading: the section ITERATOR of \<open>bson/bson/bson.c\<close>, with \<open>bson_find\<close>,
  \<open>bson_print_raw\<close> and the two appends that read (\<open>bson_append_element\<close>,
  \<open>bson_append_new_oid\<close>).  A pointer the reader computes is an offset into the iterator's memory
  block; a dereference outside the block is a fault (\<open>None\<close>).  The loops over a document trust its
  bytes and need not end, so they take fuel and return an \<open>outcome\<close>.
\<close>

section \<open>Numbers across C types\<close>

text \<open>
  A double is its 64-bit pattern.  \<open>double_trunc\<close> is the value rounded towards zero, \<open>None\<close> for
  an infinity or NaN.
\<close>

definition double_sign :: "i64 \<Rightarrow> int" where
  "double_sign d = (if bit d 63 then - 1 else 1)"

definition double_exponent :: "i64 \<Rightarrow> nat" where
  "double_exponent d = unat (drop_bit 52 d AND 0x7FF)"

definition double_mantissa :: "i64 \<Rightarrow> nat" where
  "double_mantissa d = unat (take_bit 52 d)"

definition double_trunc :: "i64 \<Rightarrow> int option" where
  "double_trunc d =
     (let e = double_exponent d;
          s = int (if e = 0 then double_mantissa d else 2 ^ 52 + double_mantissa d);
          k = (if e = 0 then 1 else e)
      in if e = 0x7FF then None
         else Some (double_sign d * (if 1075 \<le> k then s * 2 ^ (k - 1075) else s div 2 ^ (1075 - k))))"

text \<open>
  \<open>(int) d\<close> and \<open>(int64_t) d\<close>: x86-64 turns a value out of range into the smallest integer.
\<close>

definition double_as_int :: "i64 \<Rightarrow> i32" where
  "double_as_int d =
     (case double_trunc d of
        Some x \<Rightarrow> if in_int x then word_of_int x else word_of_int (- (2 ^ 31))
      | None \<Rightarrow> word_of_int (- (2 ^ 31)))"

definition double_as_long :: "i64 \<Rightarrow> i64" where
  "double_as_long d =
     (case double_trunc d of
        Some x \<Rightarrow> if - (2 ^ 63) \<le> x \<and> x < 2 ^ 63 then word_of_int x else word_of_int (- (2 ^ 63))
      | None \<Rightarrow> word_of_int (- (2 ^ 63)))"

text \<open>\<open>(double) i\<close>, rounded to nearest, ties to even.\<close>

fun bit_length :: "nat \<Rightarrow> nat" where
  "bit_length n = (if n = 0 then 0 else 1 + bit_length (n div 2))"

declare bit_length.simps [simp del]

definition round_half_even :: "nat \<Rightarrow> nat \<Rightarrow> nat" where
  "round_half_even a k =
     (let q = a div 2 ^ k; r = a mod 2 ^ k
      in if 2 * r > 2 ^ k \<or> 2 * r = 2 ^ k \<and> odd q then q + 1 else q)"

definition int_as_double :: "int \<Rightarrow> i64" where
  "int_as_double i =
     (let a = nat \<bar>i\<bar>; l = bit_length a;
          sig = (if l \<le> 53 then a * 2 ^ (53 - l) else round_half_even a (l - 53));
          sign = (if i < 0 then 2 ^ 63 else 0)
      in if i = 0 then 0
         else word_of_nat (sign + (1022 + l - 1) * 2 ^ 52 + sig))"

text \<open>\<open>d != 0\<close>\<close>

definition double_nonzero :: "i64 \<Rightarrow> bool" where
  "double_nonzero d \<longleftrightarrow> take_bit 63 d \<noteq> 0"

section \<open>Strings at an offset\<close>

text \<open>\<open>strcmp(s, p) == 0\<close> for a C string \<open>s\<close>: it stops at the first difference.\<close>

fun strcmp_eq :: "byte list \<Rightarrow> byte list \<Rightarrow> int \<Rightarrow> bool option" where
  "strcmp_eq [] m p = map_option (\<lambda>c. c = 0) (rd m p)"
| "strcmp_eq (x # xs) m p =
     (case rd m p of None \<Rightarrow> None | Some c \<Rightarrow> if c = x then strcmp_eq xs m (p + 1) else Some False)"

section \<open>The iterator\<close>

definition bson_iterator_from_buffer :: "byte list \<Rightarrow> int \<Rightarrow> bson_iterator" where
  "bson_iterator_from_buffer m buffer = \<lparr>it_mem = m, it_cur = buffer + 4, it_first = True\<rparr>"

definition bson_iterator_init :: "bson \<Rightarrow> bson_iterator option" where
  "bson_iterator_init b = map_option (\<lambda>d. bson_iterator_from_buffer d 0) (b_data b)"

definition bson_iterator_more :: "bson_iterator \<Rightarrow> bool option" where
  "bson_iterator_more i = map_option (\<lambda>c. c \<noteq> 0) (rd (it_mem i) (it_cur i))"

definition bson_iterator_type :: "bson_iterator \<Rightarrow> bson_type option" where
  "bson_iterator_type i = map_option char_type (rd (it_mem i) (it_cur i))"

definition bson_iterator_key :: "bson_iterator \<Rightarrow> int" where
  "bson_iterator_key i = it_cur i + 1"

definition bson_iterator_value :: "bson_iterator \<Rightarrow> int option" where
  "bson_iterator_value i =
     map_option (\<lambda>n. it_cur i + 1 + int n + 1) (cstrlen (it_mem i) (it_cur i + 1))"

definition read32 :: "bson_iterator \<Rightarrow> int \<Rightarrow> i32 option" where
  "read32 i p = map_option (\<lambda>bs. of_mem32 (bson_little_endian32 bs)) (rdn (it_mem i) p 4)"

definition read64 :: "bson_iterator \<Rightarrow> int \<Rightarrow> i64 option" where
  "read64 i p = map_option (\<lambda>bs. of_mem64 (bson_little_endian64 bs)) (rdn (it_mem i) p 8)"

definition bson_iterator_int_raw :: "bson_iterator \<Rightarrow> i32 option" where
  "bson_iterator_int_raw i = bson_iterator_value i \<bind> read32 i"

definition bson_iterator_double_raw :: "bson_iterator \<Rightarrow> i64 option" where
  "bson_iterator_double_raw i = bson_iterator_value i \<bind> read64 i"

definition bson_iterator_long_raw :: "bson_iterator \<Rightarrow> i64 option" where
  "bson_iterator_long_raw i = bson_iterator_value i \<bind> read64 i"

definition bson_iterator_bool_raw :: "bson_iterator \<Rightarrow> byte option" where
  "bson_iterator_bool_raw i = bson_iterator_value i \<bind> rd (it_mem i)"

text \<open>
  The size \<open>ds\<close> of the value at the cursor as \<open>bson_iterator_next\<close> computes it: the \<open>int\<close>
  sums wrap, and the conversion to \<open>size_t\<close> keeps a negative size a step backwards.  \<open>Inl\<close> is
  a type byte the switch does not know.
\<close>

definition value_size :: "bson_iterator \<Rightarrow> bson_type \<Rightarrow> (unit + int) option" where
  "value_size i t =
     (case t of
        BSON_EOO \<Rightarrow> Some (Inr 0)
      | BSON_UNDEFINED \<Rightarrow> Some (Inr 0)
      | BSON_NULL \<Rightarrow> Some (Inr 0)
      | BSON_BOOL \<Rightarrow> Some (Inr 1)
      | BSON_INT \<Rightarrow> Some (Inr 4)
      | BSON_LONG \<Rightarrow> Some (Inr 8)
      | BSON_DOUBLE \<Rightarrow> Some (Inr 8)
      | BSON_TIMESTAMP \<Rightarrow> Some (Inr 8)
      | BSON_DATE \<Rightarrow> Some (Inr 8)
      | BSON_OID \<Rightarrow> Some (Inr 12)
      | BSON_STRING \<Rightarrow> map_option (\<lambda>n. Inr (wrap32 (4 + sint n))) (bson_iterator_int_raw i)
      | BSON_SYMBOL \<Rightarrow> map_option (\<lambda>n. Inr (wrap32 (4 + sint n))) (bson_iterator_int_raw i)
      | BSON_CODE \<Rightarrow> map_option (\<lambda>n. Inr (wrap32 (4 + sint n))) (bson_iterator_int_raw i)
      | BSON_BINDATA \<Rightarrow> map_option (\<lambda>n. Inr (wrap32 (5 + sint n))) (bson_iterator_int_raw i)
      | BSON_OBJECT \<Rightarrow> map_option (\<lambda>n. Inr (sint n)) (bson_iterator_int_raw i)
      | BSON_ARRAY \<Rightarrow> map_option (\<lambda>n. Inr (sint n)) (bson_iterator_int_raw i)
      | BSON_CODEWSCOPE \<Rightarrow> map_option (\<lambda>n. Inr (sint n)) (bson_iterator_int_raw i)
      | BSON_DBREF \<Rightarrow> map_option (\<lambda>n. Inr (wrap32 (4 + 12 + sint n))) (bson_iterator_int_raw i)
      | BSON_REGEX \<Rightarrow> do {
          s \<leftarrow> bson_iterator_value i;
          n \<leftarrow> cstrlen (it_mem i) s;
          n' \<leftarrow> cstrlen (it_mem i) (s + int n + 1);
          Some (Inr (int n + 1 + int n' + 1)) }
      | BSON_OTHER c \<Rightarrow> do {
          _ \<leftarrow> bson_numstr (sint c);
          Some (Inl ()) })"

definition bson_iterator_next :: "bson_iterator \<Rightarrow> (bson_type \<times> bson_iterator) option" where
  "bson_iterator_next i =
     (if it_first i then do {
        t \<leftarrow> bson_iterator_type i;
        Some (t, i\<lparr>it_first := False\<rparr>) }
      else do {
        t \<leftarrow> bson_iterator_type i;
        if t = BSON_EOO then Some (BSON_EOO, i)
        else do {
          r \<leftarrow> value_size i t;
          case r of
            Inl _ \<Rightarrow> Some (BSON_EOO, i)
          | Inr ds \<Rightarrow> do {
              n \<leftarrow> cstrlen (it_mem i) (it_cur i + 1);
              let i = i\<lparr>it_cur := it_cur i + 1 + int n + 1 + ds\<rparr>;
              t \<leftarrow> bson_iterator_type i;
              Some (t, i) } } })"

section \<open>Typed access\<close>

definition bson_iterator_oid :: "bson_iterator \<Rightarrow> bson_oid_t option" where
  "bson_iterator_oid i = bson_iterator_value i \<bind> (\<lambda>p. rdn (it_mem i) p 12)"

definition bson_iterator_int :: "bson_iterator \<Rightarrow> i32 option" where
  "bson_iterator_int i = do {
     t \<leftarrow> bson_iterator_type i;
     case t of
       BSON_INT \<Rightarrow> bson_iterator_int_raw i
     | BSON_LONG \<Rightarrow> map_option ucast (bson_iterator_long_raw i)
     | BSON_DOUBLE \<Rightarrow> map_option double_as_int (bson_iterator_double_raw i)
     | _ \<Rightarrow> Some 0 }"

definition bson_iterator_double :: "bson_iterator \<Rightarrow> i64 option" where
  "bson_iterator_double i = do {
     t \<leftarrow> bson_iterator_type i;
     case t of
       BSON_INT \<Rightarrow> map_option (\<lambda>w. int_as_double (sint w)) (bson_iterator_int_raw i)
     | BSON_LONG \<Rightarrow> map_option (\<lambda>w. int_as_double (sint w)) (bson_iterator_long_raw i)
     | BSON_DOUBLE \<Rightarrow> bson_iterator_double_raw i
     | _ \<Rightarrow> Some 0 }"

definition bson_iterator_long :: "bson_iterator \<Rightarrow> i64 option" where
  "bson_iterator_long i = do {
     t \<leftarrow> bson_iterator_type i;
     case t of
       BSON_INT \<Rightarrow> map_option scast (bson_iterator_int_raw i)
     | BSON_LONG \<Rightarrow> bson_iterator_long_raw i
     | BSON_DOUBLE \<Rightarrow> map_option double_as_long (bson_iterator_double_raw i)
     | _ \<Rightarrow> Some 0 }"

definition bson_iterator_timestamp_time :: "bson_iterator \<Rightarrow> i32 option" where
  "bson_iterator_timestamp_time i = bson_iterator_value i \<bind> (\<lambda>p. read32 i (p + 4))"

definition bson_iterator_timestamp_increment :: "bson_iterator \<Rightarrow> i32 option" where
  "bson_iterator_timestamp_increment i = bson_iterator_value i \<bind> read32 i"

definition bson_iterator_timestamp :: "bson_iterator \<Rightarrow> bson_timestamp_t option" where
  "bson_iterator_timestamp i = do {
     p \<leftarrow> bson_iterator_value i;
     inc \<leftarrow> read32 i p;
     time \<leftarrow> read32 i (p + 4);
     Some \<lparr>ts_i = inc, ts_t = time\<rparr> }"

text \<open>A \<open>bson_bool_t\<close> is an \<open>int\<close>; a raw boolean is its (signed) byte.\<close>

definition bson_iterator_bool :: "bson_iterator \<Rightarrow> i32 option" where
  "bson_iterator_bool i = do {
     t \<leftarrow> bson_iterator_type i;
     case t of
       BSON_BOOL \<Rightarrow> map_option scast (bson_iterator_bool_raw i)
     | BSON_INT \<Rightarrow> map_option (\<lambda>w. of_bool (w \<noteq> 0)) (bson_iterator_int_raw i)
     | BSON_LONG \<Rightarrow> map_option (\<lambda>w. of_bool (w \<noteq> 0)) (bson_iterator_long_raw i)
     | BSON_DOUBLE \<Rightarrow> map_option (\<lambda>w. of_bool (double_nonzero w)) (bson_iterator_double_raw i)
     | BSON_EOO \<Rightarrow> Some 0
     | BSON_NULL \<Rightarrow> Some 0
     | _ \<Rightarrow> Some 1 }"

text \<open>
  A returned \<open>const char*\<close> is read by its caller as a C string: these return the string, with
  \<open>Some None\<close> where \<open>bson_iterator_code\<close> returns \<open>NULL\<close>.
\<close>

definition bson_iterator_string :: "bson_iterator \<Rightarrow> byte list option" where
  "bson_iterator_string i = do {
     t \<leftarrow> bson_iterator_type i;
     if t = BSON_STRING \<or> t = BSON_SYMBOL
     then bson_iterator_value i \<bind> (\<lambda>p. cstring (it_mem i) (p + 4))
     else Some [] }"

definition bson_iterator_string_len :: "bson_iterator \<Rightarrow> i32 option" where
  "bson_iterator_string_len i = bson_iterator_int_raw i"

definition bson_iterator_code :: "bson_iterator \<Rightarrow> byte list option option" where
  "bson_iterator_code i = do {
     t \<leftarrow> bson_iterator_type i;
     if t = BSON_STRING \<or> t = BSON_CODE
     then bson_iterator_value i \<bind> (\<lambda>p. map_option Some (cstring (it_mem i) (p + 4)))
     else if t = BSON_CODEWSCOPE
     then bson_iterator_value i \<bind> (\<lambda>p. map_option Some (cstring (it_mem i) (p + 8)))
     else Some None }"

definition bson_iterator_date :: "bson_iterator \<Rightarrow> bson_date_t option" where
  "bson_iterator_date i = bson_iterator_long_raw i"

text \<open>C division truncates towards zero.\<close>

definition bson_iterator_time_t :: "bson_iterator \<Rightarrow> i64 option" where
  "bson_iterator_time_t i =
     map_option (\<lambda>d. word_of_int (sgn (sint d) * (\<bar>sint d\<bar> div 1000))) (bson_iterator_date i)"

definition bson_iterator_bin_type :: "bson_iterator \<Rightarrow> byte option" where
  "bson_iterator_bin_type i = bson_iterator_value i \<bind> (\<lambda>p. rd (it_mem i) (p + 4))"

definition bson_iterator_bin_len :: "bson_iterator \<Rightarrow> i32 option" where
  "bson_iterator_bin_len i = do {
     t \<leftarrow> bson_iterator_bin_type i;
     n \<leftarrow> bson_iterator_int_raw i;
     Some (if t = BSON_BIN_BINARY_OLD then n - 4 else n) }"

text \<open>The pointer to the data.\<close>

definition bson_iterator_bin_data :: "bson_iterator \<Rightarrow> int option" where
  "bson_iterator_bin_data i = do {
     t \<leftarrow> bson_iterator_bin_type i;
     p \<leftarrow> bson_iterator_value i;
     Some (if t = BSON_BIN_BINARY_OLD then p + 9 else p + 5) }"

definition bson_iterator_regex :: "bson_iterator \<Rightarrow> byte list option" where
  "bson_iterator_regex i = bson_iterator_value i \<bind> cstring (it_mem i)"

definition bson_iterator_regex_opts :: "bson_iterator \<Rightarrow> byte list option" where
  "bson_iterator_regex_opts i = do {
     p \<leftarrow> bson_iterator_value i;
     n \<leftarrow> cstrlen (it_mem i) p;
     cstring (it_mem i) (p + int n + 1) }"

section \<open>Embedded documents\<close>

definition bson_iterator_subiterator :: "bson_iterator \<Rightarrow> bson_iterator option" where
  "bson_iterator_subiterator i = map_option (bson_iterator_from_buffer (it_mem i)) (bson_iterator_value i)"

text \<open>What a pointer into the block addresses.\<close>

definition memory_at :: "byte list \<Rightarrow> int \<Rightarrow> byte list option" where
  "memory_at m p = (if 0 \<le> p \<and> p \<le> int (length m) then Some (drop (nat p) m) else None)"

definition bson_iterator_subobject_init ::
  "allocator \<Rightarrow> bson_iterator \<Rightarrow> bool \<Rightarrow> bson option" where
  "bson_iterator_subobject_init A i copyData = do {
     p \<leftarrow> bson_iterator_value i;
     d \<leftarrow> memory_at (it_mem i) p;
     map_option snd (if copyData then bson_init_finished_data_with_copy A d
                     else bson_init_finished_data d False) }"

definition bson_iterator_code_scope_init ::
  "allocator \<Rightarrow> bson_iterator \<Rightarrow> bool \<Rightarrow> bson option" where
  "bson_iterator_code_scope_init A i copyData = do {
     t \<leftarrow> bson_iterator_type i;
     if t = BSON_CODEWSCOPE then do {
       p \<leftarrow> bson_iterator_value i;
       d \<leftarrow> memory_at (it_mem i) (p + 4);
       codeLen \<leftarrow> bson_finished_data_size d;
       scopeData \<leftarrow> memory_at (it_mem i) (p + 8 + codeLen);
       map_option snd (if copyData then bson_init_finished_data_with_copy A scopeData
                       else bson_init_finished_data scopeData False) }
     else map_option snd bson_init_empty }"

section \<open>Finding a field\<close>

fun find_loop :: "nat \<Rightarrow> bson_iterator \<Rightarrow> byte list \<Rightarrow> (bson_type \<times> bson_iterator) outcome" where
  "find_loop 0 it name = Timeout"
| "find_loop (Suc fuel) it name =
     lift_fault (bson_iterator_next it) (\<lambda>(t, it).
       if t = BSON_EOO then lift_fault (bson_iterator_type it) (\<lambda>t. Done (t, it))
       else lift_fault (strcmp_eq name (it_mem it) (bson_iterator_key it)) (\<lambda>eq.
         if eq then lift_fault (bson_iterator_type it) (\<lambda>t. Done (t, it))
         else find_loop fuel it name))"

definition bson_find :: "nat \<Rightarrow> bson \<Rightarrow> byte list \<Rightarrow> (bson_type \<times> bson_iterator) outcome" where
  "bson_find fuel obj name = lift_fault (bson_iterator_init obj) (\<lambda>it. find_loop fuel it name)"

section \<open>Printing\<close>

text \<open>One event per \<open>bson_printf\<close> call, with the arguments the format string consumes.\<close>

datatype print_event =
    P_tab
  | P_key "byte list" bson_type
  | P_double i64
  | P_string "byte list"
  | P_symbol "byte list"
  | P_oid "byte list"
  | P_bool bool
  | P_date i64
  | P_bindata
  | P_undefined
  | P_null
  | P_regex "byte list"
  | P_code "byte list option"
  | P_code_w_scope "byte list option"
  | P_scope
  | P_int i32
  | P_long i64
  | P_timestamp i32 i32
  | P_cant_print bson_type
  | P_newline

text \<open>The cases of the switch that print one value.\<close>

definition print_value :: "bson_iterator \<Rightarrow> bson_type \<Rightarrow> print_event list option" where
  "print_value i t =
     (case t of
        BSON_DOUBLE \<Rightarrow> map_option (\<lambda>d. [P_double d]) (bson_iterator_double i)
      | BSON_STRING \<Rightarrow> map_option (\<lambda>s. [P_string s]) (bson_iterator_string i)
      | BSON_SYMBOL \<Rightarrow> map_option (\<lambda>s. [P_symbol s]) (bson_iterator_string i)
      | BSON_OID \<Rightarrow> do {
          oid \<leftarrow> bson_iterator_oid i;
          s \<leftarrow> cstring (bson_oid_to_string oid) 0;
          Some [P_oid s] }
      | BSON_BOOL \<Rightarrow> map_option (\<lambda>b. [P_bool (b \<noteq> 0)]) (bson_iterator_bool i)
      | BSON_DATE \<Rightarrow> map_option (\<lambda>d. [P_date d]) (bson_iterator_date i)
      | BSON_BINDATA \<Rightarrow> Some [P_bindata]
      | BSON_UNDEFINED \<Rightarrow> Some [P_undefined]
      | BSON_NULL \<Rightarrow> Some [P_null]
      | BSON_REGEX \<Rightarrow> map_option (\<lambda>s. [P_regex s]) (bson_iterator_regex i)
      | BSON_CODE \<Rightarrow> map_option (\<lambda>s. [P_code s]) (bson_iterator_code i)
      | BSON_INT \<Rightarrow> map_option (\<lambda>n. [P_int n]) (bson_iterator_int i)
      | BSON_LONG \<Rightarrow> map_option (\<lambda>n. [P_long n]) (bson_iterator_long i)
      | BSON_TIMESTAMP \<Rightarrow> map_option (\<lambda>ts. [P_timestamp (ts_i ts) (ts_t ts)]) (bson_iterator_timestamp i)
      | _ \<Rightarrow> Some [P_cant_print t])"

fun print_loop :: "allocator \<Rightarrow> nat \<Rightarrow> bson_iterator \<Rightarrow> int \<Rightarrow> print_event list outcome" where
  "print_loop A 0 i depth = Timeout"
| "print_loop A (Suc fuel) i depth =
     lift_fault (bson_iterator_next i) (\<lambda>(t, i).
       if t = BSON_EOO then Done []
       else lift_fault (cstring (it_mem i) (bson_iterator_key i)) (\<lambda>key.
         let head = replicate (nat (depth + 1)) P_tab @ [P_key key t] in
         bind_outcome
           (if t = BSON_OBJECT \<or> t = BSON_ARRAY then
              lift_fault (bson_iterator_value i) (\<lambda>p.
                bind_outcome (print_loop A fuel (bson_iterator_from_buffer (it_mem i) p) (depth + 1)) (\<lambda>es.
                  Done (P_newline # es)))
            else if t = BSON_CODEWSCOPE then
              lift_fault (bson_iterator_code i) (\<lambda>code.
                lift_fault (bson_iterator_code_scope_init A i False) (\<lambda>scope.
                  lift_fault (bson_iterator_init scope) (\<lambda>sc.
                    bind_outcome (print_loop A fuel sc 0) (\<lambda>es.
                      Done (P_code_w_scope code # P_scope # es)))))
            else lift_fault (print_value i t) Done)
           (\<lambda>body. bind_outcome (print_loop A fuel i depth) (\<lambda>rest.
              Done (head @ body @ [P_newline] @ rest)))))"

definition bson_print_raw :: "allocator \<Rightarrow> nat \<Rightarrow> byte list \<Rightarrow> int \<Rightarrow> int \<Rightarrow> print_event list outcome" where
  "bson_print_raw A fuel m data depth = print_loop A fuel (bson_iterator_from_buffer m data) depth"

definition bson_print :: "allocator \<Rightarrow> nat \<Rightarrow> bson \<Rightarrow> print_event list outcome" where
  "bson_print A fuel b = lift_fault (b_data b) (\<lambda>d. bson_print_raw A fuel d 0 0)"

section \<open>Appending what an iterator shows\<close>

definition bson_append_element ::
  "allocator \<Rightarrow> bson \<Rightarrow> byte list option \<Rightarrow> bson_iterator \<Rightarrow> (status \<times> bson) option" where
  "bson_append_element A b name_or_null elem = do {
     (_, next) \<leftarrow> bson_iterator_next elem;
     let sz = size_t (it_cur next - it_cur elem);
     case name_or_null of
       None \<Rightarrow>
         (case bson_ensure_space A b sz of
            (BSON_ERROR, b) \<Rightarrow> Some (BSON_ERROR, b)
          | (BSON_OK, b) \<Rightarrow> do {
              xs \<leftarrow> rdn (it_mem elem) (it_cur elem) sz;
              b \<leftarrow> bson_append b xs;
              ok b })
     | Some name \<Rightarrow> do {
         n \<leftarrow> cstrlen (it_mem elem) (bson_iterator_key elem);
         let data_size = size_t (int sz - 2 - int n);
         t \<leftarrow> bson_iterator_type elem;
         (_, b) \<leftarrow> bson_append_estart A b t name data_size;
         p \<leftarrow> bson_iterator_value elem;
         xs \<leftarrow> rdn (it_mem elem) p data_size;
         b \<leftarrow> bson_append b xs;
         ok b } }"

text \<open>The random number and the clock are those of \<open>bson_oid_gen\<close>.\<close>

definition bson_append_new_oid ::
  "allocator \<Rightarrow> bson \<Rightarrow> byte list \<Rightarrow> i64 \<Rightarrow> i32 option \<Rightarrow> i32 option \<Rightarrow> (i32 \<Rightarrow> i32) \<Rightarrow> oid_statics \<Rightarrow>
   ((status \<times> bson) \<times> oid_statics) option" where
  "bson_append_new_oid A b name t inc fuzz_func rand_of st =
     (let (oid, st') = bson_oid_gen t inc fuzz_func rand_of st
      in map_option (\<lambda>r. (r, st')) (bson_append_oid A b name oid))"

definition bson_int64_to_double :: "i64 \<Rightarrow> i64" where
  "bson_int64_to_double w = int_as_double (sint w)"

end
