(* ===== verification/Build_Safety.thy ===== *)
theory Build_Safety
  imports Bson_Build
begin

text \<open>
  The builder's invariant and what every append does on every branch: it never leaves its block, an
  accepted element is appended whole, a refused one leaves the written bytes as they were.
\<close>

section \<open>The invariant\<close>

definition written :: "bson \<Rightarrow> byte list" where
  "written b = (case b_data b of None \<Rightarrow> [] | Some d \<Rightarrow> take (b_cur b) d)"

definition stack_inv :: "bson \<Rightarrow> bool" where
  "stack_inv b \<longleftrightarrow> length (b_stack b) = b_stackSize b \<and> b_stackPos b \<le> b_stackSize b
     \<and> (b_stackPtr b = NoStack \<longleftrightarrow> b_stackSize b = 0)
     \<and> (b_stackPtr b = LocalStack \<longrightarrow> b_stackSize b = 32)
     \<and> (\<forall>i < b_stackPos b. 4 \<le> b_stack b ! i \<and> b_stack b ! i + 4 \<le> b_cur b)"

definition block_inv :: "bson \<Rightarrow> bool" where
  "block_inv b \<longleftrightarrow> (\<exists>d. b_data b = Some d \<and> b_dataSize b = int (length d)
     \<and> int (length d) \<le> INT_MAX \<and> b_cur b \<le> length d \<and> 4 \<le> b_cur b \<and> b_ownsData b)"

definition build_inv :: "bson \<Rightarrow> bool" where
  "build_inv b \<longleftrightarrow> block_inv b \<and> stack_inv b"

text \<open>What an append leaves alone.\<close>

definition same_frame :: "bson \<Rightarrow> bson \<Rightarrow> bool" where
  "same_frame b b' \<longleftrightarrow> b_stack b' = b_stack b \<and> b_stackPos b' = b_stackPos b
     \<and> b_stackPtr b' = b_stackPtr b \<and> b_stackSize b' = b_stackSize b
     \<and> b_finished b' = b_finished b \<and> b_ownsData b' = b_ownsData b"

lemma same_frame_refl [simp]: "same_frame b b"
  by (simp add: same_frame_def)

lemma same_frame_trans: "same_frame a b \<Longrightarrow> same_frame b c \<Longrightarrow> same_frame a c"
  by (simp add: same_frame_def)

lemma same_frame_err [simp]: "same_frame b (b'\<lparr>b_err := e\<rparr>) = same_frame b b'"
  by (simp add: same_frame_def)

lemma build_inv_err [simp]: "build_inv (b\<lparr>b_err := e\<rparr>) = build_inv b"
  by (simp add: build_inv_def block_inv_def stack_inv_def)

lemma written_err [simp]: "written (b\<lparr>b_err := e\<rparr>) = written b"
  by (simp add: written_def cong: option.case_cong)

lemma written_simps [simp]:
  "written (b\<lparr>b_stackPos := k\<rparr>) = written b" "written (b\<lparr>b_finished := f\<rparr>) = written b"
  by (simp_all add: written_def cong: option.case_cong)

lemma length_written: "build_inv b \<Longrightarrow> length (written b) = b_cur b"
  by (auto simp: build_inv_def block_inv_def written_def)

lemma build_inv_dataSize: "build_inv b \<Longrightarrow> 4 \<le> b_dataSize b \<and> b_dataSize b \<le> INT_MAX
    \<and> int (b_cur b) \<le> b_dataSize b"
  by (auto simp: build_inv_def block_inv_def)

lemma size_t_dataSize: "build_inv b \<Longrightarrow> int (size_t (b_dataSize b)) = b_dataSize b"
  using build_inv_dataSize [of b] by (auto simp: size_t_def INT_MAX_def)

lemma same_frame_stack_inv:
  "same_frame b b' \<Longrightarrow> b_cur b \<le> b_cur b' \<Longrightarrow> stack_inv b \<Longrightarrow> stack_inv b'"
  by (fastforce simp: same_frame_def stack_inv_def)

section \<open>Raw appends\<close>

lemma blit_blit:
  "off + length xs \<le> length d \<Longrightarrow>
   blit (take off d @ xs @ drop (off + length xs) d) (off + length xs) ys = blit d off (xs @ ys)"
  by (cases xs) (auto simp: blit_def min_def add.commute add.left_commute)

lemma append_append:
  "bson_append b xs \<bind> (\<lambda>b. bson_append b ys) = bson_append b (xs @ ys)"
proof (cases "b_data b")
  case None
  then show ?thesis by (simp add: bson_append_def)
next
  case (Some d)
  show ?thesis
  proof (cases "b_cur b + length xs \<le> length d")
    case True
    with Some blit_blit [OF True, of ys] show ?thesis
      by (simp add: bson_append_def blit_Some add.assoc split: option.splits)
  next
    case False
    with Some show ?thesis by (simp add: bson_append_def blit_def)
  qed
qed

lemma append_append_bind:
  "bson_append b xs \<bind> (\<lambda>b. bson_append b ys \<bind> k) = bson_append b (xs @ ys) \<bind> k"
  using append_append [of b xs ys] by (cases "bson_append b xs") auto

lemma append_ok:
  assumes inv: "build_inv b" and room: "int (b_cur b + length xs) \<le> b_dataSize b"
  obtains b' where "bson_append b xs = Some b'" "build_inv b'" "written b' = written b @ xs"
    "same_frame b b'" "b_err b' = b_err b" "b_dataSize b' = b_dataSize b"
proof -
  obtain d where d: "b_data b = Some d" "b_dataSize b = int (length d)"
      "int (length d) \<le> INT_MAX" "b_cur b \<le> length d" "4 \<le> b_cur b" "b_ownsData b"
    using inv by (auto simp: build_inv_def block_inv_def)
  let ?d' = "take (b_cur b) d @ xs @ drop (b_cur b + length xs) d"
  let ?b' = "b\<lparr>b_data := Some ?d', b_cur := b_cur b + length xs\<rparr>"
  have fit: "b_cur b + length xs \<le> length d" using room d by simp
  have "bson_append b xs = Some ?b'" using fit d by (simp add: bson_append_def blit_def)
  moreover have frame: "same_frame b ?b'" by (simp add: same_frame_def)
  moreover have "build_inv ?b'"
    using inv d fit same_frame_stack_inv [OF frame] by (auto simp: build_inv_def block_inv_def)
  moreover have "written ?b' = written b @ xs" using d by (simp add: written_def)
  ultimately show ?thesis by (intro that [of ?b']) simp_all
qed

section \<open>Making room\<close>

text \<open>Exactly when \<open>bson_ensure_space\<close> succeeds for a builder that owns its block.\<close>

definition fits :: "bson \<Rightarrow> nat \<Rightarrow> bool" where
  "fits b n \<longleftrightarrow> (let want = b_dataSize b + int n in
     int (b_cur b + n) \<le> b_dataSize b \<or> want < INT_MAX \<or> b_dataSize b \<le> double_to_int (3 * want div 2))"

lemma fitsI: "b_dataSize b + int n < INT_MAX \<Longrightarrow> fits b n"
  by (simp add: fits_def Let_def)

lemma ensure_space_cases:
  assumes inv: "build_inv b" and A: "allocator_ok A" "allocator_total A" and n: "n < 2 ^ 63"
  obtains (error) "\<not> fits b n" "bson_ensure_space A b n = (BSON_ERROR, b\<lparr>b_err := BSON_SIZE_OVERFLOW\<rparr>)"
  | (ok) b' where "fits b n" "bson_ensure_space A b n = (BSON_OK, b')" "build_inv b'"
      "written b' = written b" "same_frame b b'" "b_err b' = b_err b" "b_cur b' = b_cur b"
      "int (b_cur b + n) \<le> b_dataSize b'"
      "b_dataSize b' = b_dataSize b \<or> 2 * INT_MAX < 3 * (b_dataSize b + int n)
        \<or> 2 * b_dataSize b' \<le> 3 * (b_dataSize b + int n)"
      "b_dataSize b' = b_dataSize b \<or> b_dataSize b < int (b_cur b + n)"
proof -
  obtain d where d: "b_data b = Some d" "b_dataSize b = int (length d)"
      "int (length d) \<le> INT_MAX" "b_cur b \<le> length d" "4 \<le> b_cur b" "b_ownsData b"
    using inv by (auto simp: build_inv_def block_inv_def)
  have w1: "wrap64 (b_cur b + n) = b_cur b + n" and sz: "size_t (b_dataSize b) = length d"
    and w2: "wrap64 (length d + n) = length d + n"
    using d n by (auto simp: wrap64_def size_t_def INT_MAX_def)
  show ?thesis
  proof (cases "b_cur b + n \<le> length d")
    case True
    have "bson_ensure_space A b n = (BSON_OK, b)"
      using True w1 sz by (simp add: bson_ensure_space_def bson_position_def)
    moreover have "fits b n" using True d by (simp add: fits_def)
    ultimately show ?thesis using True d inv by (intro ok [of b]) auto
  next
    case False
    define want where "want = int (length d) + int n"
    define ns where "ns = double_to_int (3 * want div 2)"
    define big where "big \<longleftrightarrow> ns < int (length d)"
    define size' where "size' = (if big then INT_MAX else ns)"
    have es: "bson_ensure_space A b n =
       (if big \<and> \<not> want < INT_MAX then (BSON_ERROR, b\<lparr>b_err := BSON_SIZE_OVERFLOW\<rparr>)
        else (BSON_OK, b\<lparr>b_data := bson_realloc A (Some d) (size_t size'), b_dataSize := size'\<rparr>))"
      using False w1 w2 sz d
      by (simp add: bson_ensure_space_def bson_position_def Let_def big_def ns_def want_def size'_def)
    have fits: "fits b n \<longleftrightarrow> \<not> (big \<and> \<not> want < INT_MAX)"
      using False d by (auto simp: fits_def Let_def big_def ns_def want_def)
    show ?thesis
    proof (cases "big \<and> \<not> want < INT_MAX")
      case True
      then show ?thesis using es fits by (intro error) auto
    next
      case nerr: False
      have size': "int (length d) + int n \<le> size'" "size' \<le> INT_MAX" "0 \<le> size'"
          "2 * INT_MAX < 3 * want \<or> 2 * size' \<le> 3 * want"
        using nerr False d n
        by (auto simp: size'_def big_def ns_def want_def double_to_int_def INT_MAX_def split: if_splits)
      obtain d' where d': "al_realloc A d (size_t size') = Some d'"
        using A(2) by (fastforce simp: allocator_total_def)
      have len: "int (length d') = size'" and pre: "take (length d) d' = d"
        using A(1) d' size' d
        by (auto simp: allocator_ok_def size_t_def INT_MAX_def)
      let ?b' = "b\<lparr>b_data := Some d', b_dataSize := size'\<rparr>"
      have frame: "same_frame b ?b'" by (simp add: same_frame_def)
      have "take (b_cur b) d' = take (b_cur b) d"
        using pre d by (metis min.absorb1 take_take)
      moreover have "build_inv ?b'"
        using inv size' len d same_frame_stack_inv [OF frame]
        by (auto simp: build_inv_def block_inv_def)
      ultimately show ?thesis
        using es nerr fits d d' size' False
        by (intro ok [of ?b'])
           (auto simp: bson_realloc_def written_def frame want_def)
    qed
  qed
qed


section \<open>One element\<close>

definition element :: "bson_type \<Rightarrow> byte list \<Rightarrow> byte list \<Rightarrow> byte list" where
  "element t name body = type_char t # name @ [0] @ body"

lemma length_element [simp]: "length (element t name body) = 2 + length name + length body"
  by (simp add: element_def)

text \<open>What a completed element leaves alone: the open subobjects and the two flags.\<close>

definition frame :: "bson \<Rightarrow> bson \<Rightarrow> bool" where
  "frame b b' \<longleftrightarrow> b_stackPos b' = b_stackPos b
     \<and> take (b_stackPos b) (b_stack b') = take (b_stackPos b) (b_stack b)
     \<and> b_finished b' = b_finished b \<and> b_ownsData b' = b_ownsData b"

lemma frame_refl [simp]: "frame b b"
  by (simp add: frame_def)

lemma frame_trans: "frame a b \<Longrightarrow> frame b c \<Longrightarrow> frame a c"
  by (simp add: frame_def)

lemma same_frame_frame: "same_frame b b' \<Longrightarrow> frame b b'"
  by (simp add: same_frame_def frame_def)

text \<open>
  A bound on the block that growing by half keeps: as long as at most \<open>N\<close> bytes are written, the
  block has at most \<open>max 128 (3 * N)\<close>.
\<close>

definition roomy :: "int \<Rightarrow> bson \<Rightarrow> bool" where
  "roomy N b \<longleftrightarrow> b_dataSize b \<le> max 128 (3 * N)"

definition max_doc :: int where "max_doc = 536870912"

lemma roomy_err [simp]: "roomy N (b\<lparr>b_err := e\<rparr>) = roomy N b"
  by (simp add: roomy_def)

text \<open>
  The contract of an append: it returns, keeps the invariant and the frame, appends exactly
  \<open>bytes\<close> when it succeeds and nothing when it fails, and keeps the bound on the block.
\<close>

definition appends :: "bson \<Rightarrow> (status \<times> bson) option \<Rightarrow> bool \<Rightarrow> byte list \<Rightarrow> bool" where
  "appends b res succ bytes \<longleftrightarrow> (\<exists>r b'. res = Some (r, b') \<and> build_inv b' \<and> frame b b'
     \<and> (r = BSON_OK \<longleftrightarrow> succ)
     \<and> written b' = (if succ then written b @ bytes else written b)
     \<and> (succ \<longrightarrow> roomy max_doc b \<longrightarrow> int (b_cur b + length bytes) \<le> max_doc \<longrightarrow> roomy max_doc b'))"

lemma roomy_fits: "roomy max_doc b \<Longrightarrow> int (b_cur b + n) \<le> max_doc \<Longrightarrow> fits b n"
  by (auto simp: roomy_def fits_def Let_def max_doc_def INT_MAX_def)

lemma roomy_grow:
  assumes "b_dataSize b' = b_dataSize b \<or> 2 * INT_MAX < 3 * (b_dataSize b + int n)
      \<or> 2 * b_dataSize b' \<le> 3 * (b_dataSize b + int n)"
    and "b_dataSize b' = b_dataSize b \<or> b_dataSize b < int (b_cur b + n)"
    and "roomy max_doc b" and "int (b_cur b + n) \<le> max_doc"
  shows "roomy max_doc b'"
  using assms by (auto simp: roomy_def max_doc_def INT_MAX_def)

text \<open>When an element of type \<open>t\<close> with \<open>n\<close> body bytes is accepted.\<close>

definition accepts :: "bson \<Rightarrow> byte list \<Rightarrow> nat \<Rightarrow> bool" where
  "accepts b name n \<longleftrightarrow> \<not> b_finished b \<and> fits b (2 + length name + n) \<and> utf8_accepted name"

lemma check_field_name_frame:
  "bson_check_field_name b name n = (r, b') \<Longrightarrow> \<exists>e. b' = b\<lparr>b_err := e\<rparr>"
  by (auto simp: bson_check_field_name_def bson_validate_string_def Let_def split_beta)

lemma check_string_frame: "bson_check_string b s n = (r, b') \<Longrightarrow> \<exists>e. b' = b\<lparr>b_err := e\<rparr>"
  by (auto simp: bson_check_string_def bson_validate_string_def Let_def split_beta)

lemma check_string_bit:
  "bson_check_string b s n = (r, b') \<Longrightarrow> n \<le> length s \<Longrightarrow>
   bit (b_err b') 1 \<longleftrightarrow> bit (b_err b) 1 \<or> r = BSON_ERROR"
  using validate_loop_bits [of s n True False 0 "b_err b"]
  by (cases "validate_loop s n True False 0 (b_err b)") (auto simp: bson_check_string_def bson_validate_string_def Let_def split_beta)

lemma estart_cases:
  assumes inv: "build_inv b" and A: "allocator_ok A" "allocator_total A"
    and n: "length name + n < 2 ^ 62"
  obtains (error) b' where "\<not> accepts b name n" "bson_append_estart A b t name n = Some (BSON_ERROR, b')"
      "build_inv b'" "written b' = written b" "same_frame b b'"
  | (ok) b' where "accepts b name n" "bson_append_estart A b t name n = Some (BSON_OK, b')"
      "build_inv b'" "written b' = written b @ type_char t # name @ [0]" "same_frame b b'"
      "int (b_cur b' + n) \<le> b_dataSize b'"
      "b_dataSize b' = b_dataSize b \<or> 2 * INT_MAX < 3 * (b_dataSize b + int (2 + length name + n))
        \<or> 2 * b_dataSize b' \<le> 3 * (b_dataSize b + int (2 + length name + n))"
      "b_dataSize b' = b_dataSize b \<or> b_dataSize b < int (b_cur b + (2 + length name + n))"
proof (cases "b_finished b")
  case True
  then show ?thesis
    using inv by (intro error [of "b\<lparr>b_err := b_err b OR BSON_ALREADY_FINISHED\<rparr>"])
      (auto simp: bson_append_estart_def accepts_def)
next
  case nf: False
  let ?n = "2 + length name + n"
  have w: "wrap64 (1 + (length name + 1) + n) = ?n" using n by (simp add: wrap64_def)
  have n63: "?n < 2 ^ 63" using n by simp
  show ?thesis
  proof (cases rule: ensure_space_cases [OF inv A n63])
    case 1
    then show ?thesis
      using nf inv w by (intro that(1) [of "b\<lparr>b_err := BSON_SIZE_OVERFLOW\<rparr>"])
        (auto simp: bson_append_estart_def accepts_def)
  next
    case ok: (2 b1)
    obtain r e where chk: "bson_check_field_name b1 name (length name) = (r, b1\<lparr>b_err := e\<rparr>)"
      using check_field_name_frame by (metis surj_pair)
    have r: "r = BSON_OK \<longleftrightarrow> utf8_accepted name"
      using check_field_name_accepts [of "length name" name b1] chk by simp
    show ?thesis
    proof (cases r)
      case BSON_ERROR
      then show ?thesis
        using nf w ok chk r by (intro that(1) [of "b1\<lparr>b_err := e\<rparr>"])
          (auto simp: bson_append_estart_def accepts_def)
    next
      case BSON_OK
      let ?b1 = "b1\<lparr>b_err := e\<rparr>"
      have i1: "build_inv ?b1"
        and room: "int (b_cur ?b1 + length (type_char t # name @ [0])) \<le> b_dataSize ?b1"
        using ok by simp_all
      obtain b2 where b2: "bson_append ?b1 (type_char t # name @ [0]) = Some b2" "build_inv b2"
          "written b2 = written ?b1 @ type_char t # name @ [0]" "same_frame ?b1 b2"
          "b_dataSize b2 = b_dataSize ?b1"
        using append_ok [OF i1 room] by blast
      have "b_cur b2 = b_cur b + 2 + length name"
        using b2 ok length_written [of b2] length_written [of b1] by simp
      moreover have "bson_append_estart A b t name n = Some (BSON_OK, b2)"
        using nf w ok chk BSON_OK b2(1) append_append [of ?b1 "[type_char t]" "name @ [0]"]
        by (auto simp: bson_append_estart_def bson_append_byte_def Let_def bind_eq_Some_conv
            split: bind_splits)
      moreover have "same_frame b b2" using ok b2 by (auto simp: same_frame_def)
      ultimately show ?thesis
        using nf ok r BSON_OK b2 by (intro that(2) [of b2]) (auto simp: accepts_def)
    qed
  qed
qed


lemma cur_written: "build_inv b \<Longrightarrow> b_cur b = length (written b)"
  by (simp add: length_written)

lemma with_estart_appends:
  assumes inv: "build_inv b" and A: "allocator_ok A" "allocator_total A"
    and n: "length name + n < 2 ^ 62" and len: "length body = n"
  shows "appends b (with_estart A b t name n (\<lambda>b. bson_append b body \<bind> ok))
           (accepts b name n) (element t name body)"
proof (cases rule: estart_cases [OF inv A n, of t])
  case 1
  then show ?thesis by (simp add: appends_def with_estart_def same_frame_frame)
next
  case est: (2 b1)
  have room: "int (b_cur b1 + length body) \<le> b_dataSize b1" using est len by simp
  obtain b2 where b2: "bson_append b1 body = Some b2" "build_inv b2"
      "written b2 = written b1 @ body" "same_frame b1 b2" "b_dataSize b2 = b_dataSize b1"
    using append_ok [OF est(3) room] by blast
  have "frame b b2" using est(5) b2(4) by (metis same_frame_frame frame_trans)
  moreover have "roomy max_doc b2"
    if "roomy max_doc b" "int (b_cur b + (2 + length name + n)) \<le> max_doc"
    using roomy_grow [OF est(7,8) that] b2(5) by (simp add: roomy_def)
  ultimately show ?thesis
    using est b2 len by (auto simp: appends_def with_estart_def ok_def element_def)
qed

text \<open>The part of the contract that histories need.\<close>

definition call_effect :: "bson \<Rightarrow> (status \<times> bson) option \<Rightarrow> byte list \<Rightarrow> bool" where
  "call_effect b res bytes \<longleftrightarrow> (\<exists>r b'. res = Some (r, b') \<and> build_inv b' \<and> frame b b'
     \<and> written b' = (if r = BSON_OK then written b @ bytes else written b))"

lemma appends_effect: "appends b res succ bytes \<Longrightarrow> call_effect b res bytes"
  by (auto simp: appends_def call_effect_def)

text \<open>An argument string: no object of the program has \<open>2^50\<close> bytes.\<close>

definition short :: "byte list \<Rightarrow> bool" where
  "short xs \<longleftrightarrow> length xs < 2 ^ 50"

section \<open>The typed appends share one contract\<close>

text \<open>
  An operation is an element append when it is an element header and one body, whatever
  \<open>memcpy\<close>s the body is made of.
\<close>

locale element_append =
  fixes op :: "allocator \<Rightarrow> bson \<Rightarrow> byte list \<Rightarrow> (status \<times> bson) option"
    and etype :: bson_type and body :: "byte list"
  assumes op_eq: "build_inv b \<Longrightarrow> allocator_ok A \<Longrightarrow> allocator_total A \<Longrightarrow>
      length name + length body < 2 ^ 62 \<Longrightarrow>
      op A b name = with_estart A b etype name (length body) (\<lambda>b. bson_append b body \<bind> ok)"
begin

lemma op_appends:
  assumes "build_inv b" "allocator_ok A" "allocator_total A" "length name + length body < 2 ^ 62"
  shows "appends b (op A b name) (accepts b name (length body)) (element etype name body)"
  unfolding op_eq [OF assms] by (rule with_estart_appends [OF assms]) simp

lemma op_effect:
  assumes "build_inv b" "allocator_ok A" "allocator_total A" "short name" "length body < 2 ^ 61"
  shows "call_effect b (op A b name) (element etype name body)"
  using assms by (intro appends_effect [OF op_appends]) (simp_all add: short_def)

end

lemma bind_ok_append: "bson_append b xs \<bind> (\<lambda>b. bson_append b ys \<bind> ok) = bson_append b (xs @ ys) \<bind> ok"
  by (rule append_append_bind)

lemmas append_prims = bson_append32_def bson_append32_as_int_def bson_append64_def
  bson_append_byte_def wire32_def [symmetric] wire64_def [symmetric]

interpretation append_int: element_append "\<lambda>A b name. bson_append_int A b name i" BSON_INT "wire32 i" for i
  by unfold_locales (simp add: bson_append_int_def append_prims)

interpretation append_long: element_append "\<lambda>A b name. bson_append_long A b name i" BSON_LONG "wire64 i" for i
  by unfold_locales (simp add: bson_append_long_def append_prims)

interpretation append_double: element_append "\<lambda>A b name. bson_append_double A b name d" BSON_DOUBLE "wire64 d" for d
  by unfold_locales (simp add: bson_append_double_def append_prims)

interpretation append_bool: element_append "\<lambda>A b name. bson_append_bool A b name i" BSON_BOOL
    "[if i \<noteq> 0 then 1 else 0]" for i
  by unfold_locales (simp add: bson_append_bool_def append_prims)

lemma append_Nil_ok: "build_inv b \<Longrightarrow> bson_append b [] = Some b"
  by (auto simp: bson_append_def blit_def build_inv_def block_inv_def)

lemma with_estart_no_body:
  assumes "build_inv b" "allocator_ok A" "allocator_total A" "length name + 0 < 2 ^ 62"
  shows "with_estart A b t name 0 ok = with_estart A b t name 0 (\<lambda>b. bson_append b [] \<bind> ok)"
  by (cases rule: estart_cases [OF assms, of t]) (auto simp: with_estart_def append_Nil_ok)

interpretation append_null: element_append "\<lambda>A b name. bson_append_null A b name" BSON_NULL "[]"
  by unfold_locales (simp add: bson_append_null_def with_estart_no_body)

interpretation append_undefined: element_append "\<lambda>A b name. bson_append_undefined A b name"
    BSON_UNDEFINED "[]"
  by unfold_locales (simp add: bson_append_undefined_def with_estart_no_body)

interpretation append_oid: element_append "\<lambda>A b name. bson_append_oid A b name (take 12 (oid @ replicate 12 0))"
    BSON_OID "take 12 (oid @ replicate 12 0)" for oid
  by unfold_locales (simp add: bson_append_oid_def rdn_def min_def)

interpretation append_date: element_append "\<lambda>A b name. bson_append_date A b name millis" BSON_DATE
    "wire64 millis" for millis
  by unfold_locales (simp add: bson_append_date_def append_prims)

interpretation append_time_t: element_append "\<lambda>A b name. bson_append_time_t A b name secs" BSON_DATE
    "wire64 (secs * 1000)" for secs
  by unfold_locales (simp add: bson_append_time_t_def bson_append_date_def append_prims)

interpretation append_timestamp: element_append "\<lambda>A b name. bson_append_timestamp A b name ts"
    BSON_TIMESTAMP "wire32 (ts_i ts) @ wire32 (ts_t ts)" for ts
  by unfold_locales (simp add: bson_append_timestamp_def append_prims bind_ok_append)

interpretation append_timestamp2: element_append
    "\<lambda>A b name. bson_append_timestamp2 A b name time increment"
    BSON_TIMESTAMP "wire32 increment @ wire32 time" for time increment
  by unfold_locales (simp add: bson_append_timestamp2_def append_prims bind_ok_append)


section \<open>Strings, binaries, embedded documents\<close>

lemma rdn_whole: "rdn xs 0 (length xs) = Some xs"
  by (simp add: rdn_def)

lemma appends_err: "appends (b\<lparr>b_err := e\<rparr>) res succ bytes = appends b res succ bytes"
  by (simp add: appends_def frame_def)

lemma accepts_err [simp]: "accepts (b\<lparr>b_err := e\<rparr>) name n = accepts b name n"
  by (simp add: accepts_def fits_def)

definition string_body :: "byte list \<Rightarrow> byte list" where
  "string_body value = wire32 (to_int (length value + 1)) @ value @ [0]"

lemma length_string_body [simp]: "length (string_body value) = 5 + length value"
  by (simp add: string_body_def)

lemma string_base_appends:
  assumes inv: "build_inv b" and A: "allocator_ok A" "allocator_total A"
    and n: "length name + length value < 2 ^ 61"
  shows "appends b (bson_append_string_base A b name value (length value) t)
     (int (length value) < INT32_MAX \<and> utf8_accepted value \<and> accepts b name (5 + length value))
     (element t name (string_body value))"
proof (cases "int (length value) < INT32_MAX")
  case False
  then show ?thesis
    using inv by (simp add: bson_append_string_base_def appends_def frame_def)
next
  case small: True
  obtain r e where chk: "bson_check_string b value (length value) = (r, b\<lparr>b_err := e\<rparr>)"
    using check_string_frame by (metis surj_pair)
  have r: "r = BSON_OK \<longleftrightarrow> utf8_accepted value"
    using check_string_accepts [of "length value" "value" b] chk by simp
  show ?thesis
  proof (cases r)
    case BSON_ERROR
    then show ?thesis
      using small inv chk r by (simp add: bson_append_string_base_def appends_def frame_def)
  next
    case BSON_OK
    have "bson_append_string_base A b name value (length value) t
       = with_estart A (b\<lparr>b_err := e\<rparr>) t name (length (string_body value))
           (\<lambda>b. bson_append b (string_body value) \<bind> ok)"
      using small chk BSON_OK
      by (simp add: bson_append_string_base_def append_prims append_append_bind string_body_def)
    moreover have "appends (b\<lparr>b_err := e\<rparr>) (with_estart A (b\<lparr>b_err := e\<rparr>) t name
           (length (string_body value)) (\<lambda>b. bson_append b (string_body value) \<bind> ok))
         (accepts (b\<lparr>b_err := e\<rparr>) name (length (string_body value)))
         (element t name (string_body value))"
      using n by (intro with_estart_appends) (simp_all add: inv A)
    ultimately show ?thesis using small r BSON_OK by (simp add: appends_err)
  qed
qed

definition binary_body :: "byte \<Rightarrow> byte list \<Rightarrow> byte list" where
  "binary_body type xs =
     (if type = BSON_BIN_BINARY_OLD
      then wire32 (to_int (length xs + 4)) @ [type] @ wire32 (to_int (length xs)) @ xs
      else wire32 (to_int (length xs)) @ [type] @ xs)"

interpretation append_binary: element_append
    "\<lambda>A b name. bson_append_binary A b name type xs (length xs)" BSON_BINDATA "binary_body type xs"
    for type xs
proof unfold_locales
  fix b A and name :: "byte list"
  assume "length name + length (binary_body type xs) < 2 ^ 62"
  then have "length xs < 2 ^ 62" by (auto simp: binary_body_def split: if_splits)
  then show "bson_append_binary A b name type xs (length xs) =
      with_estart A b BSON_BINDATA name (length (binary_body type xs))
        (\<lambda>b. bson_append b (binary_body type xs) \<bind> ok)"
    by (simp add: bson_append_binary_def binary_body_def append_prims append_append_bind
        rdn_whole wrap64_def)
qed

text \<open>A document whose size field is the length of its block: what \<open>bson_finish\<close> leaves.\<close>

definition sized :: "byte list \<Rightarrow> bool" where
  "sized d \<longleftrightarrow> 4 \<le> length d \<and> int (length d) \<le> INT_MAX \<and> take 4 d = wire32 (to_int (length d))"

lemma sint_to_int: "int n \<le> INT_MAX \<Longrightarrow> sint (to_int n) = int n"
  by (simp add: to_int_def INT_MAX_def signed_of_nat signed_take_bit_int_eq_self)


lemma size_of_sized: "sized d \<Longrightarrow> bson_finished_data_size d = Some (int (length d))"
  by (simp add: sized_def bson_finished_data_size_def rdn_def sint_to_int)

lemma append_bson_appends:
  assumes inv: "build_inv b" and A: "allocator_ok A" "allocator_total A"
    and sub: "b_data s = Some d" "sized d" and n: "length name < 2 ^ 61"
  shows "appends b (bson_append_bson A b name (Some s)) (accepts b name (length d))
     (element BSON_OBJECT name d)"
proof -
  have "size_t (int (length d)) = length d" and "length d < 2 ^ 61"
    using sub(2) by (auto simp: sized_def size_t_def INT_MAX_def)
  then have "bson_append_bson A b name (Some s)
      = with_estart A b BSON_OBJECT name (length d) (\<lambda>b. bson_append b d \<bind> ok)"
    using sub by (simp add: bson_append_bson_def bson_size_def bson_bytes_def size_of_sized rdn_whole)
  moreover have "appends b (with_estart A b BSON_OBJECT name (length d) (\<lambda>b. bson_append b d \<bind> ok))
      (accepts b name (length d)) (element BSON_OBJECT name d)"
    using n \<open>length d < 2 ^ 61\<close> by (intro with_estart_appends inv A) simp_all
  ultimately show ?thesis by simp
qed

definition regex_body :: "byte list \<Rightarrow> byte list \<Rightarrow> byte list" where
  "regex_body pattern opts = (pattern @ [0]) @ opts @ [0]"

text \<open>
  A refused pattern is noticed after the header is written: the header stays behind, and with it the
  bit that makes \<open>bson_finish\<close> refuse the document.
\<close>

lemma regex_cases:
  assumes inv: "build_inv b" and A: "allocator_ok A" "allocator_total A"
    and n: "length name + length pattern + length opts < 2 ^ 61"
    and acc: "accepts b name (length pattern + 1 + (length opts + 1))"
  shows "\<exists>r b'. bson_append_regex A b name pattern opts = Some (r, b') \<and> build_inv b' \<and> frame b b'
     \<and> (r = BSON_OK \<longleftrightarrow> utf8_accepted pattern)
     \<and> written b' = written b @ (if utf8_accepted pattern
         then element BSON_REGEX name (regex_body pattern opts) else element BSON_REGEX name [])
     \<and> (\<not> utf8_accepted pattern \<longrightarrow> bit (b_err b') 1 \<and> int (b_cur b' + 2) \<le> b_dataSize b')
     \<and> (utf8_accepted pattern \<longrightarrow> roomy max_doc b \<longrightarrow>
          int (b_cur b + length (element BSON_REGEX name (regex_body pattern opts))) \<le> max_doc \<longrightarrow>
          roomy max_doc b')"
proof -
  let ?n = "length pattern + 1 + (length opts + 1)"
  have n': "length name + ?n < 2 ^ 62" using n by simp
  show ?thesis
  proof (cases rule: estart_cases [OF inv A n', of BSON_REGEX])
    case 1
    with acc show ?thesis by simp
  next
    case est: (2 b1)
    obtain r e where chk: "bson_check_string b1 pattern (length pattern) = (r, b1\<lparr>b_err := e\<rparr>)"
      using check_string_frame by (metis surj_pair)
    have r: "r = BSON_OK \<longleftrightarrow> utf8_accepted pattern"
      using check_string_accepts [of "length pattern" pattern b1] chk by simp
    have bit: "r = BSON_ERROR \<Longrightarrow> bit e 1"
      using check_string_bit [OF chk] by simp
    show ?thesis
    proof (cases r)
      case BSON_ERROR
      then show ?thesis
        using est chk r bit
        by (auto simp: bson_append_regex_def with_estart_def element_def dest: same_frame_frame
            simp: frame_def same_frame_def)
    next
      case BSON_OK
      have i1: "build_inv (b1\<lparr>b_err := e\<rparr>)"
        and room: "int (b_cur (b1\<lparr>b_err := e\<rparr>) + length (regex_body pattern opts))
            \<le> b_dataSize (b1\<lparr>b_err := e\<rparr>)"
        using est by (simp_all add: regex_body_def)
      obtain b2 where b2: "bson_append (b1\<lparr>b_err := e\<rparr>) (regex_body pattern opts) = Some b2"
          "build_inv b2" "written b2 = written (b1\<lparr>b_err := e\<rparr>) @ regex_body pattern opts"
          "same_frame (b1\<lparr>b_err := e\<rparr>) b2" "b_dataSize b2 = b_dataSize b1"
        using append_ok [OF i1 room] by auto
      have "frame b b2" using est(5) b2(4) by (simp add: frame_def same_frame_def)
      moreover have "roomy max_doc b2"
        if "roomy max_doc b" "int (b_cur b + (2 + length name + ?n)) \<le> max_doc"
        using roomy_grow [OF est(7,8) that] b2(5) by (simp add: roomy_def)
      ultimately show ?thesis
        using est chk r BSON_OK b2
        by (simp add: bson_append_regex_def with_estart_def append_append_bind element_def ok_def
            regex_body_def)
    qed
  qed
qed


section \<open>Subobjects\<close>

lemma wire32_zero: "wire32 0 = [0, 0, 0, 0]"
  by (simp add: wire32_bytes)

lemma grow_stack_ok:
  assumes inv: "build_inv b" and A: "allocator_total A" and full: "b_stackSize b \<le> b_stackPos b"
  obtains b' where "bson_append_grow_stack A b = (BSON_OK, b')" "build_inv b'"
    "b_stackPos b' < b_stackSize b'" "frame b b'" "b_data b' = b_data b" "b_cur b' = b_cur b"
    "b_dataSize b' = b_dataSize b"
proof -
  have st: "length (b_stack b) = b_stackSize b" "b_stackPos b = b_stackSize b"
      "b_stackPtr b = NoStack \<longleftrightarrow> b_stackSize b = 0" "b_stackPtr b = LocalStack \<longrightarrow> b_stackSize b = 32"
      "\<forall>i < b_stackPos b. 4 \<le> b_stack b ! i \<and> b_stack b ! i + 4 \<le> b_cur b"
    using inv full by (auto simp: build_inv_def stack_inv_def)
  have words: "al_words A n" for n using A by (simp add: allocator_total_def)
  show ?thesis
  proof (cases "b_stackPtr b")
    case NoStack
    then show ?thesis
      using st inv by (intro that [of "b\<lparr>b_stackPtr := LocalStack, b_stack := replicate 32 0,
          b_stackSize := 32\<rparr>"])
        (auto simp: bson_append_grow_stack_def build_inv_def block_inv_def stack_inv_def frame_def)
  next
    case LocalStack
    then show ?thesis
      using st inv words by (intro that [of "b\<lparr>b_stackPtr := HeapStack,
          b_stack := b_stack b @ replicate 32 0, b_stackSize := 2 * 32\<rparr>"])
        (auto simp: bson_append_grow_stack_def build_inv_def block_inv_def stack_inv_def frame_def
          nth_append)
  next
    case HeapStack
    then show ?thesis
      using st inv words by (intro that [of "b\<lparr>b_stack := b_stack b @ replicate (b_stackSize b) 0,
          b_stackSize := b_stackSize b * 2\<rparr>"])
        (auto simp: bson_append_grow_stack_def build_inv_def block_inv_def stack_inv_def frame_def
          nth_append)
  qed
qed

text \<open>What opening a subobject establishes: the position of its size field is on the stack.\<close>

definition opened :: "bson \<Rightarrow> bson \<Rightarrow> bool" where
  "opened b b' \<longleftrightarrow> b_stackPos b' = b_stackPos b + 1
     \<and> take (b_stackPos b) (b_stack b') = take (b_stackPos b) (b_stack b)
     \<and> b_finished b' = b_finished b \<and> b_ownsData b' = b_ownsData b
     \<and> b_stack b' ! b_stackPos b = length (written b') - 4"

lemma take_update_beyond: "take n (xs[n := x]) = take n xs"
  by (simp add: take_update_cancel)

lemma append_start_cases:
  assumes inv: "build_inv b" and A: "allocator_ok A" "allocator_total A"
    and n: "length name < 2 ^ 61"
  obtains (error) b' where "\<not> accepts b name 5" "append_start A b t name = Some (BSON_ERROR, b')"
      "build_inv b'" "written b' = written b" "frame b b'"
  | (ok) b' where "accepts b name 5" "append_start A b t name = Some (BSON_OK, b')" "build_inv b'"
      "written b' = written b @ element t name [0, 0, 0, 0]" "opened b b'"
      "roomy max_doc b \<Longrightarrow> int (b_cur b + (7 + length name)) \<le> max_doc \<Longrightarrow> roomy max_doc b'"
proof -
  have n5: "length name + 5 < 2 ^ 62" using n by simp
  show ?thesis
  proof (cases rule: estart_cases [OF inv A n5, of t])
    case (1 b1)
    then show ?thesis
      by (intro that(1) [of b1]) (auto simp: append_start_def with_estart_def same_frame_frame)
  next
    case est: (2 b1)
    define st where "st = (if b_stackPos b1 \<ge> b_stackSize b1 then bson_append_grow_stack A b1
       else (BSON_OK, b1))"
    obtain b2 where b2: "st = (BSON_OK, b2)" "build_inv b2" "b_stackPos b2 < b_stackSize b2"
        "frame b1 b2" "b_data b2 = b_data b1" "b_cur b2 = b_cur b1" "b_dataSize b2 = b_dataSize b1"
    proof (cases "b_stackPos b1 \<ge> b_stackSize b1")
      case True
      then show thesis using grow_stack_ok [OF est(3) A(2)] that by (auto simp: st_def)
    next
      case False
      then show thesis using est(3) by (intro that [of b1]) (auto simp: st_def)
    qed
    let ?b3 = "b2\<lparr>b_stack := (b_stack b2)[b_stackPos b2 := b_cur b2], b_stackPos := b_stackPos b2 + 1\<rparr>"
    have slen: "length (b_stack b2) = b_stackSize b2" using b2(2) by (simp add: build_inv_def stack_inv_def)
    have push: "push_position b2 = Some ?b3"
      using slen b2(3) by (simp add: push_position_def bson_position_def)
    have w2: "written b2 = written b1" using b2(5,6) by (simp add: written_def cong: option.case_cong)
    have room: "b_cur b2 + 4 \<le> length (the (b_data b2))"
      using est(6) b2(2,6,7) by (auto simp: build_inv_def block_inv_def)
    obtain d where d: "b_data b2 = Some d" "b_dataSize b2 = int (length d)"
        "int (length d) \<le> INT_MAX" "4 \<le> b_cur b2" "b_ownsData b2"
      using b2(2) by (auto simp: build_inv_def block_inv_def)
    let ?d' = "take (b_cur b2) d @ wire32 0 @ drop (b_cur b2 + 4) d"
    let ?b4 = "?b3\<lparr>b_data := Some ?d', b_cur := b_cur b2 + 4\<rparr>"
    have app: "bson_append32 ?b3 0 = Some ?b4"
      using d room by (simp add: append_prims bson_append_def blit_def)
    have st4: "stack_inv ?b4"
      using b2(2,3) d(4) slen by (fastforce simp: build_inv_def stack_inv_def nth_list_update less_Suc_eq)
    have inv4: "build_inv ?b4" using d room st4 by (simp add: build_inv_def block_inv_def)
    have w4: "written ?b4 = written b @ element t name [0, 0, 0, 0]"
    proof -
      have "take (b_cur b2 + 4) ?d' = take (b_cur b2) d @ wire32 0" using room d(1) by simp
      then have "written ?b4 = written b2 @ wire32 0" using d(1) by (simp add: written_def)
      then show ?thesis using w2 est(4) by (simp add: wire32_zero element_def)
    qed
    have res: "append_start A b t name = Some (BSON_OK, ?b4)"
      using est(2) b2(1) push app by (simp add: append_start_def with_estart_def st_def ok_def)
    have op: "opened b ?b4"
      using est(5) b2(4) slen b2(3) length_written [OF inv4] d
      by (simp add: opened_def frame_def same_frame_def take_update_beyond)
    have rm: "roomy max_doc ?b4"
      if "roomy max_doc b" "int (b_cur b + (7 + length name)) \<le> max_doc"
      using roomy_grow [OF est(7,8) that(1)] that(2) b2(7) by (simp add: roomy_def)
    show ?thesis by (rule that(2) [OF est(1) res inv4 w4 op rm])
  qed
qed

lemma take_overwrite:
  assumes "off + length xs \<le> n" and "n \<le> length d"
  shows "take n (take off d @ xs @ drop (off + length xs) d)
     = take off (take n d) @ xs @ drop (off + length xs) (take n d)"
proof -
  have "take n (take off d) = take off (take n d)" "take (n - off) xs = xs"
    "n - off - length xs = n - (off + length xs)" "n - min (length d) off = n - off"
    using assms by (simp_all add: min_absorb1 min_absorb2)
  then show ?thesis by (simp add: drop_take)
qed

lemma poke_ok:
  assumes inv: "build_inv b" and room: "off + length xs \<le> b_cur b"
  obtains b' where "bson_poke b off xs = Some b'" "build_inv b'"
    "written b' = take off (written b) @ xs @ drop (off + length xs) (written b)"
    "b_stack b' = b_stack b" "b_stackPos b' = b_stackPos b" "b_finished b' = b_finished b"
    "b_ownsData b' = b_ownsData b" "b_dataSize b' = b_dataSize b" "b_err b' = b_err b"
proof -
  obtain d where d: "b_data b = Some d" "b_dataSize b = int (length d)"
      "int (length d) \<le> INT_MAX" "b_cur b \<le> length d" "4 \<le> b_cur b" "b_ownsData b"
    using inv by (auto simp: build_inv_def block_inv_def)
  let ?d' = "take off d @ xs @ drop (off + length xs) d"
  let ?b' = "b\<lparr>b_data := Some ?d'\<rparr>"
  have "bson_poke b off xs = Some ?b'" using d room by (simp add: bson_poke_def blit_def)
  moreover have "build_inv ?b'"
    using inv d room by (auto simp: build_inv_def block_inv_def stack_inv_def)
  moreover have "written ?b' = take off (written b) @ xs @ drop (off + length xs) (written b)"
  proof -
    have "written ?b' = take (b_cur b) ?d'" by (simp add: written_def)
    also have "\<dots> = take off (take (b_cur b) d) @ xs @ drop (off + length xs) (take (b_cur b) d)"
      by (rule take_overwrite [OF room d(4)])
    finally show ?thesis using d(1) by (simp add: written_def)
  qed
  ultimately show ?thesis by (intro that [of ?b']) simp_all
qed

text \<open>The bytes of a closed document whose elements are \<open>elems\<close>.\<close>

definition doc_bytes :: "byte list \<Rightarrow> byte list" where
  "doc_bytes elems = wire32 (to_int (length elems + 5)) @ elems @ [0]"

lemma length_doc_bytes [simp]: "length (doc_bytes elems) = length elems + 5"
  by (simp add: doc_bytes_def)

lemma finish_object_cases:
  assumes inv: "build_inv b" and A: "allocator_ok A" "allocator_total A"
    and open1: "0 < b_stackPos b" and start: "start = b_stack b ! (b_stackPos b - 1)"
  obtains (error) b' where "\<not> fits b 1" "bson_append_finish_object A b = Some (BSON_ERROR, b')"
      "build_inv b'" "written b' = written b" "frame b b'"
  | (ok) b' where "fits b 1" "bson_append_finish_object A b = Some (BSON_OK, b')" "build_inv b'"
      "written b' = take start (written b) @ doc_bytes (drop (start + 4) (written b))"
      "b_stackPos b' = b_stackPos b - 1" "b_stack b' = b_stack b" "b_finished b' = b_finished b"
      "b_ownsData b' = b_ownsData b"
      "roomy max_doc b \<Longrightarrow> int (b_cur b + 1) \<le> max_doc \<Longrightarrow> roomy max_doc b'"
proof -
  have n: "(1::nat) < 2 ^ 63" by simp
  show ?thesis
  proof (cases rule: ensure_space_cases [OF inv A n])
    case 1
    then show ?thesis
      using open1 inv by (intro that(1) [of "b\<lparr>b_err := BSON_SIZE_OVERFLOW\<rparr>"])
        (auto simp: bson_append_finish_object_def frame_def)
  next
    case es: (2 b1)
    have st: "4 \<le> start" "start + 4 \<le> b_cur b" "b_stackPos b1 = b_stackPos b" "b_stack b1 = b_stack b"
      using inv open1 start es by (auto simp: build_inv_def stack_inv_def same_frame_def)
    have room: "int (b_cur b1 + length [0::byte]) \<le> b_dataSize b1" using es by simp
    obtain b2 where b2: "bson_append b1 [0] = Some b2" "build_inv b2" "written b2 = written b1 @ [0]"
        "same_frame b1 b2" "b_dataSize b2 = b_dataSize b1"
      using append_ok [OF es(3) room] by blast
    have cur2: "b_cur b2 = b_cur b + 1"
      using length_written [OF b2(2)] length_written [OF inv] b2(3) es(4) by simp
    let ?b3 = "b2\<lparr>b_stackPos := b_stackPos b2 - 1\<rparr>"
    have inv3: "build_inv ?b3" using b2(2) by (auto simp: build_inv_def block_inv_def stack_inv_def)
    have small: "\<not> int (b_cur b2) - int start \<ge> INT32_MAX"
      using build_inv_dataSize [OF b2(2)] st(1) by (simp add: INT_MAX_def INT32_MAX_def)
    have room3: "start + length (wire32 (to_int (b_cur b2 - start))) \<le> b_cur ?b3"
      using st cur2 by simp
    obtain b4 where b4: "bson_poke ?b3 start (wire32 (to_int (b_cur b2 - start))) = Some b4"
        "build_inv b4" "written b4 = take start (written ?b3) @ wire32 (to_int (b_cur b2 - start))
           @ drop (start + length (wire32 (to_int (b_cur b2 - start)))) (written ?b3)"
        "b_stack b4 = b_stack ?b3" "b_stackPos b4 = b_stackPos ?b3" "b_finished b4 = b_finished ?b3"
        "b_ownsData b4 = b_ownsData ?b3" "b_dataSize b4 = b_dataSize ?b3"
      using poke_ok [OF inv3 room3] by blast
    have sf: "b_stack b2 = b_stack b" "b_stackPos b2 = b_stackPos b" "b_finished b2 = b_finished b"
        "b_ownsData b2 = b_ownsData b"
      using b2(4) es(5) by (simp_all add: same_frame_def)
    have res: "bson_append_finish_object A b = Some (BSON_OK, b4)"
      using open1 es(2) b2(1) b4(1) small start sf
      by (simp add: bson_append_finish_object_def bson_append_byte_def wire32_def ok_def Let_def)
    have w3: "written ?b3 = written b @ [0]" using b2(3) es(4) by simp
    have "b_cur b2 - start = length (drop (start + 4) (written b)) + 5"
      using st cur2 length_written [OF inv] by simp
    then have w4: "written b4 = take start (written b) @ doc_bytes (drop (start + 4) (written b))"
      using b4(3) w3 st length_written [OF inv] by (simp add: doc_bytes_def)
    have rm: "roomy max_doc b4" if "roomy max_doc b" "int (b_cur b + 1) \<le> max_doc"
      using roomy_grow [OF es(9,10) that] b4(8) b2(5) by (simp add: roomy_def)
    show ?thesis
      by (rule that(2) [OF es(1) res b4(2) w4 _ _ _ _ rm]) (use b4(4-7) sf in simp_all)
  qed
qed


section \<open>Initialising and finishing\<close>

lemma init_ok:
  assumes A: "allocator_ok A" "allocator_total A"
  obtains b where "bson_init A = (BSON_OK, b)" "build_inv b" "length (written b) = 4"
    "b_stackPos b = 0" "\<not> b_finished b" "b_err b = 0" "roomy max_doc b"
proof -
  obtain d where d: "al_malloc A 128 = Some d" "length d = 128"
    using A by (fastforce simp: allocator_ok_def allocator_total_def)
  let ?b = "bson_zeroed\<lparr>b_data := Some d, b_dataSize := 128, b_ownsData := True, b_cur := 4\<rparr>"
  have "bson_init A = (BSON_OK, ?b)"
    using d(1) by (simp add: bson_init_def bson_init_size_def initialBufferSize_def bson_malloc_def
        size_t_def)
  moreover have "build_inv ?b"
    using d(2) by (simp add: build_inv_def block_inv_def stack_inv_def bson_zeroed_def INT_MAX_def)
  ultimately show ?thesis
    using d(2) by (intro that [of ?b]) (simp_all add: written_def bson_zeroed_def roomy_def)
qed

definition finishes :: "bson \<Rightarrow> bool" where
  "finishes b \<longleftrightarrow> \<not> bit (b_err b) 1 \<and> \<not> b_finished b \<and> fits b 1 \<and> int (b_cur b + 1) < INT32_MAX"

lemma finish_cases:
  assumes inv: "build_inv b" and A: "allocator_ok A" "allocator_total A" and nf: "\<not> b_finished b"
  obtains (error) b' where "\<not> finishes b" "bson_finish A b = Some (BSON_ERROR, b')" "build_inv b'"
  | (ok) b' where "finishes b" "bson_finish A b = Some (BSON_OK, b')" "build_inv b'"
      "b_finished b'" "written b' = doc_bytes (drop 4 (written b))"
proof (cases "bit (b_err b) 1")
  case True
  then show ?thesis
    using inv by (intro error [of b]) (simp_all add: bson_finish_def finishes_def)
next
  case utf: False
  have n: "(1::nat) < 2 ^ 63" by simp
  show ?thesis
  proof (cases rule: ensure_space_cases [OF inv A n])
    case 1
    then show ?thesis
      using utf nf inv by (intro error [of "b\<lparr>b_err := BSON_SIZE_OVERFLOW\<rparr>"])
        (simp_all add: bson_finish_def finishes_def)
  next
    case es: (2 b1)
    have room: "int (b_cur b1 + length [0::byte]) \<le> b_dataSize b1" using es by simp
    obtain b2 where b2: "bson_append b1 [0] = Some b2" "build_inv b2" "written b2 = written b1 @ [0]"
        "same_frame b1 b2"
      using append_ok [OF es(3) room] by blast
    have cur2: "b_cur b2 = b_cur b + 1"
      using length_written [OF b2(2)] length_written [OF inv] b2(3) es(4) by simp
    show ?thesis
    proof (cases "int (b_cur b2) \<ge> INT32_MAX")
      case True
      then show ?thesis
        using utf nf es b2 cur2 by (intro error [of "b2\<lparr>b_err := BSON_SIZE_OVERFLOW\<rparr>"])
          (simp_all add: bson_finish_def finishes_def bson_append_byte_def bson_position_def)
    next
      case False
      have four: "4 \<le> b_cur b" using inv by (auto simp: build_inv_def block_inv_def)
      have room: "0 + length (wire32 (to_int (b_cur b2))) \<le> b_cur b2" using four cur2 by simp
      obtain b3 where b3: "bson_poke b2 0 (wire32 (to_int (b_cur b2))) = Some b3" "build_inv b3"
          "written b3 = take 0 (written b2) @ wire32 (to_int (b_cur b2))
             @ drop (0 + length (wire32 (to_int (b_cur b2)))) (written b2)"
        using poke_ok [OF b2(2) room] by blast
      have "bson_finish A b = Some (BSON_OK, b3\<lparr>b_finished := True\<rparr>)"
        using utf nf es(2) b2(1) b3(1) False
        by (simp add: bson_finish_def bson_append_byte_def bson_position_def wire32_def)
      moreover have len2: "b_cur b2 = length (drop 4 (written b)) + 5"
        using four cur2 length_written [OF inv] by simp
      moreover have "written b3 = doc_bytes (drop 4 (written b))"
        using b3(3) b2(3) es(4) four length_written [OF inv] len2
        by (simp add: doc_bytes_def)
      moreover have "build_inv (b3\<lparr>b_finished := True\<rparr>)"
        using b3(2) by (simp add: build_inv_def block_inv_def stack_inv_def)
      moreover have "finishes b" using utf nf es(1) False cur2 by (simp add: finishes_def)
      ultimately show ?thesis by (intro ok [of "b3\<lparr>b_finished := True\<rparr>"]) simp_all
    qed
  qed
qed

lemma roomy_finishes:
  "build_inv b \<Longrightarrow> roomy max_doc b \<Longrightarrow> int (b_cur b + 1) \<le> max_doc \<Longrightarrow> \<not> b_finished b \<Longrightarrow>
   finishes b \<longleftrightarrow> \<not> bit (b_err b) 1"
  using roomy_fits [of b 1] by (auto simp: finishes_def max_doc_def INT32_MAX_def)

lemma code_w_scope_appends:
  assumes inv: "build_inv b" and A: "allocator_ok A" "allocator_total A"
    and sc: "b_data s = Some d" "sized d" and n: "length name + length code < 2 ^ 60"
    and small: "int (9 + length code + length d) \<le> INT32_MAX"
  shows "appends b (bson_append_code_w_scope A b name code (Some s))
     (accepts b name (9 + length code + length d))
     (element BSON_CODEWSCOPE name (wire32 (to_int (9 + length code + length d))
        @ string_body code @ d))"
proof -
  let ?body = "wire32 (to_int (9 + length code + length d)) @ string_body code @ d"
  have sz: "size_t (int (length d)) = length d" "length d < 2 ^ 31"
    using sc(2) by (auto simp: sized_def size_t_def INT_MAX_def)
  have "size_t (4 + 4 + int (length code + 1) + int (length d)) = 9 + length code + length d"
    using n sz(2) by (simp add: size_t_def nat_eq_iff)
  moreover have "rdn (code @ [0]) 0 (length code + 1) = Some (code @ [0])"
    using rdn_whole [of "code @ [0]"] by simp
  ultimately have "bson_append_code_w_scope A b name code (Some s)
      = with_estart A b BSON_CODEWSCOPE name (9 + length code + length d)
          (\<lambda>b. bson_append b ?body \<bind> ok)"
    using sc small by (simp add: bson_append_code_w_scope_def bson_append_code_w_scope_n_def
        bson_size_def size_of_sized append_prims append_append_bind bson_bytes_def rdn_whole sz
        string_body_def Let_def add.assoc)
  moreover have "appends b (with_estart A b BSON_CODEWSCOPE name (9 + length code + length d)
      (\<lambda>b. bson_append b ?body \<bind> ok)) (accepts b name (9 + length code + length d))
      (element BSON_CODEWSCOPE name ?body)"
    using n sz(2) by (intro with_estart_appends inv A) simp_all
  ultimately show ?thesis by simp
qed

end
