(* ===== verification/Build_Spec.thy ===== *)
theory Build_Spec
  imports Build_Safety
begin

text \<open>
  Histories of builder calls, and the abstract machine the builder implements: the bytes of the
  top level so far and, for each open subobject, its type, name and bytes so far.  A call that
  succeeds does to the written bytes what the machine does; a call that fails leaves them.
\<close>

section \<open>Calls\<close>

datatype api_call =
    Append_int "byte list" i32
  | Append_long "byte list" i64
  | Append_double "byte list" i64
  | Append_bool "byte list" i32
  | Append_null "byte list"
  | Append_undefined "byte list"
  | Append_string "byte list" "byte list"
  | Append_symbol "byte list" "byte list"
  | Append_code "byte list" "byte list"
  | Append_code_w_scope "byte list" "byte list" bson
  | Append_binary "byte list" byte "byte list"
  | Append_oid "byte list" bson_oid_t
  | Append_regex "byte list" "byte list" "byte list"
  | Append_bson "byte list" bson
  | Append_timestamp "byte list" bson_timestamp_t
  | Append_date "byte list" bson_date_t
  | Append_time_t "byte list" i64
  | Start_object "byte list"
  | Start_array "byte list"
  | Finish_object
  | Finish_array

fun api_step :: "allocator \<Rightarrow> bson \<Rightarrow> api_call \<Rightarrow> (status \<times> bson) option" where
  "api_step A b (Append_int n i) = bson_append_int A b n i"
| "api_step A b (Append_long n i) = bson_append_long A b n i"
| "api_step A b (Append_double n d) = bson_append_double A b n d"
| "api_step A b (Append_bool n i) = bson_append_bool A b n i"
| "api_step A b (Append_null n) = bson_append_null A b n"
| "api_step A b (Append_undefined n) = bson_append_undefined A b n"
| "api_step A b (Append_string n s) = bson_append_string A b n s"
| "api_step A b (Append_symbol n s) = bson_append_symbol A b n s"
| "api_step A b (Append_code n s) = bson_append_code A b n s"
| "api_step A b (Append_code_w_scope n c s) = bson_append_code_w_scope A b n c (Some s)"
| "api_step A b (Append_binary n t xs) = bson_append_binary A b n t xs (length xs)"
| "api_step A b (Append_oid n oid) = bson_append_oid A b n oid"
| "api_step A b (Append_regex n p opts) = bson_append_regex A b n p opts"
| "api_step A b (Append_bson n s) = bson_append_bson A b n (Some s)"
| "api_step A b (Append_timestamp n ts) = bson_append_timestamp A b n ts"
| "api_step A b (Append_date n d) = bson_append_date A b n d"
| "api_step A b (Append_time_t n t) = bson_append_time_t A b n t"
| "api_step A b (Start_object n) = bson_append_start_object A b n"
| "api_step A b (Start_array n) = bson_append_start_array A b n"
| "api_step A b Finish_object = bson_append_finish_object A b"
| "api_step A b Finish_array = bson_append_finish_array A b"

text \<open>A client runs its calls whatever status each returns, as the servlets do.\<close>

fun api_run :: "allocator \<Rightarrow> bson \<Rightarrow> api_call list \<Rightarrow> (status list \<times> bson) option" where
  "api_run A b [] = Some ([], b)"
| "api_run A b (c # cs) = do {
     (r, b) \<leftarrow> api_step A b c;
     (rs, b) \<leftarrow> api_run A b cs;
     Some (r # rs, b) }"

lemma api_run_append:
  "api_run A b (cs @ cs') = do { (rs, b) \<leftarrow> api_run A b cs; (rs', b) \<leftarrow> api_run A b cs'; Some (rs @ rs', b) }"
  by (induction cs arbitrary: b) (auto split: Option.bind_splits)

text \<open>The calls of a history that succeeded.\<close>

definition accepted_calls :: "api_call list \<Rightarrow> status list \<Rightarrow> api_call list" where
  "accepted_calls cs rs = map fst (filter (\<lambda>(c, r). r = BSON_OK) (zip cs rs))"

definition sized_bson :: "bson \<Rightarrow> bool" where
  "sized_bson s \<longleftrightarrow> (\<exists>d. b_data s = Some d \<and> sized d)"

text \<open>
  The arguments are real objects: no string is \<open>2^50\<close> bytes long, an id has 12 bytes, an
  embedded document has a true size field and a code with scope stays below \<open>INT32_MAX\<close>.
\<close>

fun call_ok :: "api_call \<Rightarrow> bool" where
  "call_ok (Append_int n i) = short n"
| "call_ok (Append_long n i) = short n"
| "call_ok (Append_double n d) = short n"
| "call_ok (Append_bool n i) = short n"
| "call_ok (Append_null n) = short n"
| "call_ok (Append_undefined n) = short n"
| "call_ok (Append_string n s) = (short n \<and> short s)"
| "call_ok (Append_symbol n s) = (short n \<and> short s)"
| "call_ok (Append_code n s) = (short n \<and> short s)"
| "call_ok (Append_code_w_scope n c s) = (short n \<and> short c \<and> (\<exists>d. b_data s = Some d \<and> sized d
     \<and> int (9 + length c + length d) \<le> INT32_MAX))"
| "call_ok (Append_binary n t xs) = (short n \<and> short xs)"
| "call_ok (Append_oid n oid) = (short n \<and> length oid = 12)"
| "call_ok (Append_regex n p opts) = (short n \<and> short p \<and> short opts)"
| "call_ok (Append_bson n s) = (short n \<and> sized_bson s)"
| "call_ok (Append_timestamp n ts) = short n"
| "call_ok (Append_date n d) = short n"
| "call_ok (Append_time_t n t) = short n"
| "call_ok (Start_object n) = short n"
| "call_ok (Start_array n) = short n"
| "call_ok Finish_object = True"
| "call_ok Finish_array = True"

text \<open>The element a call appends, for the calls that append one element.\<close>

fun call_element :: "api_call \<Rightarrow> byte list option" where
  "call_element (Append_int n i) = Some (element BSON_INT n (wire32 i))"
| "call_element (Append_long n i) = Some (element BSON_LONG n (wire64 i))"
| "call_element (Append_double n d) = Some (element BSON_DOUBLE n (wire64 d))"
| "call_element (Append_bool n i) = Some (element BSON_BOOL n [if i \<noteq> 0 then 1 else 0])"
| "call_element (Append_null n) = Some (element BSON_NULL n [])"
| "call_element (Append_undefined n) = Some (element BSON_UNDEFINED n [])"
| "call_element (Append_string n s) = Some (element BSON_STRING n (string_body s))"
| "call_element (Append_symbol n s) = Some (element BSON_SYMBOL n (string_body s))"
| "call_element (Append_code n s) = Some (element BSON_CODE n (string_body s))"
| "call_element (Append_code_w_scope n c s) = Some (element BSON_CODEWSCOPE n
     (wire32 (to_int (9 + length c + length (the (b_data s)))) @ string_body c @ the (b_data s)))"
| "call_element (Append_binary n t xs) = Some (element BSON_BINDATA n (binary_body t xs))"
| "call_element (Append_oid n oid) = Some (element BSON_OID n oid)"
| "call_element (Append_regex n p opts) = Some (element BSON_REGEX n (regex_body p opts))"
| "call_element (Append_bson n s) = Some (element BSON_OBJECT n (the (b_data s)))"
| "call_element (Append_timestamp n ts) = Some (element BSON_TIMESTAMP n (wire32 (ts_i ts) @ wire32 (ts_t ts)))"
| "call_element (Append_date n d) = Some (element BSON_DATE n (wire64 d))"
| "call_element (Append_time_t n t) = Some (element BSON_DATE n (wire64 (t * 1000)))"
| "call_element c = None"

fun is_regex :: "api_call \<Rightarrow> bool" where
  "is_regex (Append_regex n p opts) = True"
| "is_regex c = False"

lemma string_effect:
  "build_inv b \<Longrightarrow> allocator_ok A \<Longrightarrow> allocator_total A \<Longrightarrow> short n \<Longrightarrow> short s \<Longrightarrow>
   call_effect b (bson_append_string_base A b n s (length s) t) (element t n (string_body s))"
  by (rule appends_effect [OF string_base_appends]) (simp_all add: short_def)

lemma bson_effect:
  "build_inv b \<Longrightarrow> allocator_ok A \<Longrightarrow> allocator_total A \<Longrightarrow> short n \<Longrightarrow> b_data s = Some d \<Longrightarrow> sized d \<Longrightarrow>
   call_effect b (bson_append_bson A b n (Some s)) (element BSON_OBJECT n d)"
  by (rule appends_effect [OF append_bson_appends]) (simp_all add: short_def)

lemma code_w_scope_effect:
  "build_inv b \<Longrightarrow> allocator_ok A \<Longrightarrow> allocator_total A \<Longrightarrow> short n \<Longrightarrow> short c \<Longrightarrow>
   b_data s = Some d \<Longrightarrow> sized d \<Longrightarrow> int (9 + length c + length d) \<le> INT32_MAX \<Longrightarrow>
   call_effect b (bson_append_code_w_scope A b n c (Some s))
     (element BSON_CODEWSCOPE n (wire32 (to_int (9 + length c + length d)) @ string_body c @ d))"
  by (rule appends_effect [OF code_w_scope_appends]) (simp_all add: short_def)

lemma length_binary_body: "short xs \<Longrightarrow> length (binary_body t xs) < 2 ^ 61"
  by (simp add: short_def binary_body_def)

lemma oid_effect:
  assumes "build_inv b" "allocator_ok A" "allocator_total A" "short n" "length oid = 12"
  shows "call_effect b (bson_append_oid A b n oid) (element BSON_OID n oid)"
  using append_oid.op_effect [OF assms(1-4), of oid] assms(5) by simp

lemmas element_effects = append_int.op_effect append_long.op_effect append_double.op_effect
  append_bool.op_effect append_null.op_effect append_undefined.op_effect append_binary.op_effect
  append_timestamp.op_effect append_date.op_effect append_time_t.op_effect
  string_effect bson_effect code_w_scope_effect oid_effect

lemma append_call_effect:
  assumes "build_inv b" "allocator_ok A" "allocator_total A" "call_ok c"
    and "call_element c = Some bytes" and "\<not> is_regex c"
  shows "call_effect b (api_step A b c) bytes"
  using assms
  by (cases c) (auto simp: bson_append_string_def bson_append_symbol_def bson_append_code_def
      sized_bson_def length_binary_body [simplified] intro!: element_effects)

section \<open>The abstract machine\<close>

type_synonym open_frame = "bson_type \<times> byte list \<times> byte list"
type_synonym open_doc = "byte list \<times> open_frame list"

text \<open>The frames are listed innermost first.  \<open>flat\<close> is what stands behind the four size bytes.\<close>

fun flat :: "byte list \<Rightarrow> open_frame list \<Rightarrow> byte list" where
  "flat tp [] = tp"
| "flat tp ((t, n, es) # fs) = flat tp fs @ element t n [0, 0, 0, 0] @ es"

text \<open>Where the size fields of the open frames stand, outermost first.\<close>

fun positions :: "byte list \<Rightarrow> open_frame list \<Rightarrow> nat list" where
  "positions tp [] = []"
| "positions tp ((t, n, es) # fs) = positions tp fs @ [4 + length (flat tp fs) + 2 + length n]"

fun add_bytes :: "byte list \<Rightarrow> open_doc \<Rightarrow> open_doc" where
  "add_bytes xs (tp, []) = (tp @ xs, [])"
| "add_bytes xs (tp, (t, n, es) # fs) = (tp, (t, n, es @ xs) # fs)"

fun open_step :: "api_call \<Rightarrow> open_doc \<Rightarrow> open_doc" where
  "open_step (Start_object n) (tp, fs) = (tp, (BSON_OBJECT, n, []) # fs)"
| "open_step (Start_array n) (tp, fs) = (tp, (BSON_ARRAY, n, []) # fs)"
| "open_step Finish_object (tp, (t, n, es) # fs) = add_bytes (element t n (doc_bytes es)) (tp, fs)"
| "open_step Finish_array (tp, (t, n, es) # fs) = add_bytes (element t n (doc_bytes es)) (tp, fs)"
| "open_step c d = (case call_element c of Some xs \<Rightarrow> add_bytes xs d | None \<Rightarrow> d)"

definition represents :: "bson \<Rightarrow> open_doc \<Rightarrow> bool" where
  "represents b d \<longleftrightarrow> build_inv b \<and> drop 4 (written b) = flat (fst d) (snd d)
     \<and> take (b_stackPos b) (b_stack b) = positions (fst d) (snd d)"

lemma flat_add [simp]:
  "flat (fst (add_bytes xs d)) (snd (add_bytes xs d)) = flat (fst d) (snd d) @ xs"
  by (cases "(xs, d)" rule: add_bytes.cases) auto

lemma positions_add [simp]:
  "positions (fst (add_bytes xs d)) (snd (add_bytes xs d)) = positions (fst d) (snd d)"
  by (cases "(xs, d)" rule: add_bytes.cases) auto

lemma length_positions [simp]: "length (positions tp fs) = length fs"
  by (induction tp fs rule: positions.induct) auto

lemma stackPos_length: "build_inv b \<Longrightarrow> length (take (b_stackPos b) (b_stack b)) = b_stackPos b"
  by (auto simp: build_inv_def stack_inv_def)

lemma written_ge4: "build_inv b \<Longrightarrow> 4 \<le> length (written b)"
  using length_written [of b] by (auto simp: build_inv_def block_inv_def)

lemma represents_add:
  assumes "represents b d" and "build_inv b'" and "written b' = written b @ xs" and "frame b b'"
  shows "represents b' (add_bytes xs d)"
  using assms written_ge4 [of b] by (simp add: represents_def frame_def)

lemma represents_same:
  "represents b d \<Longrightarrow> build_inv b' \<Longrightarrow> written b' = written b \<Longrightarrow> frame b b' \<Longrightarrow> represents b' d"
  by (simp add: represents_def frame_def)

lemma represents_opened:
  assumes rep: "represents b (tp, fs)" and inv: "build_inv b'"
    and w: "written b' = written b @ element t n [0, 0, 0, 0]" and op: "opened b b'"
  shows "represents b' (tp, (t, n, []) # fs)"
proof -
  have b: "build_inv b" "drop 4 (written b) = flat tp fs"
      "take (b_stackPos b) (b_stack b) = positions tp fs"
    using rep by (simp_all add: represents_def)
  have len: "length (written b) = 4 + length (flat tp fs)"
    using written_ge4 [OF b(1)] arg_cong [OF b(2), of length] by simp
  have "b_stackPos b < length (b_stack b')"
    using inv op by (auto simp: build_inv_def stack_inv_def opened_def)
  then have "take (b_stackPos b + 1) (b_stack b')
      = take (b_stackPos b) (b_stack b') @ [b_stack b' ! b_stackPos b]"
    by (simp add: take_Suc_conv_app_nth)
  then show ?thesis
    using b inv w op len written_ge4 [OF b(1)] by (simp add: represents_def opened_def)
qed

lemma represents_closed:
  assumes rep: "represents b (tp, (t, n, es) # fs)" and inv: "build_inv b'"
    and start: "start = b_stack b ! (b_stackPos b - 1)"
    and w: "written b' = take start (written b) @ doc_bytes (drop (start + 4) (written b))"
    and st: "b_stackPos b' = b_stackPos b - 1" "b_stack b' = b_stack b"
  shows "represents b' (add_bytes (element t n (doc_bytes es)) (tp, fs))"
proof -
  have b: "build_inv b" "drop 4 (written b) = flat tp fs @ element t n [0, 0, 0, 0] @ es"
      "take (b_stackPos b) (b_stack b) = positions tp fs @ [4 + length (flat tp fs) + 2 + length n]"
    using rep by (simp_all add: represents_def)
  have pos: "b_stackPos b = length fs + 1"
    using stackPos_length [OF b(1)] arg_cong [OF b(3), of length] by simp
  then have tp: "take (length fs) (b_stack b) = positions tp fs"
    using pos arg_cong [OF b(3), of "take (length fs)"] by (simp add: min_absorb1)
  have "start = take (b_stackPos b) (b_stack b) ! length fs" using start pos by simp
  then have s: "start = 4 + length (flat tp fs) + 2 + length n"
    using b(3) nth_append_length [of "positions tp fs"] by simp
  obtain hd4 where hd4: "written b = hd4 @ flat tp fs @ element t n [0, 0, 0, 0] @ es" "length hd4 = 4"
    using written_ge4 [OF b(1)] b(2) by (metis append_take_drop_id length_take min.absorb2)
  have "written b' = hd4 @ flat tp fs @ element t n (doc_bytes es)"
    using w hd4 drop_append [of "6 + length n" "type_char t # n @ [0, 0, 0, 0, 0]" es]
    by (simp add: s element_def)
  then show ?thesis
    using inv st pos tp hd4(2) by (simp add: represents_def)
qed

section \<open>The builder implements the machine\<close>

lemma start_refines:
  assumes rep: "represents b (tp, fs)" and A: "allocator_ok A" "allocator_total A" and n: "short n"
  shows "\<exists>r b'. append_start A b t n = Some (r, b')
     \<and> represents b' (if r = BSON_OK then (tp, (t, n, []) # fs) else (tp, fs))"
proof -
  have inv: "build_inv b" using rep by (simp add: represents_def)
  have n61: "length n < 2 ^ 61" using n by (simp add: short_def)
  show ?thesis
  proof (cases rule: append_start_cases [OF inv A n61, of t])
    case (1 b')
    then show ?thesis using represents_same [OF rep] by auto
  next
    case (2 b')
    then show ?thesis using represents_opened [OF rep] by auto
  qed
qed

lemma finish_refines:
  assumes rep: "represents b d" and A: "allocator_ok A" "allocator_total A"
  shows "\<exists>r b'. bson_append_finish_object A b = Some (r, b')
     \<and> represents b' (if r = BSON_OK then open_step Finish_object d else d)
     \<and> (snd d = [] \<longrightarrow> r = BSON_ERROR)"
proof -
  obtain tp fs where d: "d = (tp, fs)" by (cases d)
  have inv: "build_inv b" using rep by (simp add: represents_def)
  have pos: "b_stackPos b = length fs"
    using rep stackPos_length [OF inv] d length_positions [of tp fs] by (simp add: represents_def)
  show ?thesis
  proof (cases fs)
    case Nil
    have "represents (b\<lparr>b_err := BSON_NOT_IN_SUBOBJECT\<rparr>) d"
      using represents_same [OF rep, of "b\<lparr>b_err := BSON_NOT_IN_SUBOBJECT\<rparr>"] inv
      by (simp add: frame_def)
    then show ?thesis using Nil pos d by (simp add: bson_append_finish_object_def)
  next
    case (Cons f fs')
    obtain t n es where f: "f = (t, n, es)" by (cases f)
    have open1: "0 < b_stackPos b" using pos Cons by simp
    show ?thesis
    proof (cases rule: finish_object_cases [OF inv A open1 refl])
      case (1 b')
      then show ?thesis using represents_same [OF rep] Cons d by auto
    next
      case (2 b')
      from represents_closed [OF _ 2(3) refl 2(4,5,6)] rep Cons f d
      have "represents b' (open_step Finish_object d)" by simp
      then show ?thesis using 2(2) Cons d by simp
    qed
  qed
qed

text \<open>The one call whose failure leaves bytes behind: a regular expression that is not UTF-8.\<close>

definition dangling :: "api_call \<Rightarrow> open_doc \<Rightarrow> bson \<Rightarrow> bool" where
  "dangling c d b' \<longleftrightarrow> (\<exists>n p opts. c = Append_regex n p opts \<and> \<not> utf8_accepted p
     \<and> represents b' (add_bytes (element BSON_REGEX n []) d) \<and> bit (b_err b') 1)"

lemma regex_refines:
  assumes rep: "represents b d" and A: "allocator_ok A" "allocator_total A"
    and n: "short n" "short p" "short opts"
  shows "\<exists>r b'. bson_append_regex A b n p opts = Some (r, b')
     \<and> (if r = BSON_OK then represents b' (add_bytes (element BSON_REGEX n (regex_body p opts)) d)
        else represents b' d \<or> dangling (Append_regex n p opts) d b')"
proof -
  have inv: "build_inv b" using rep by (simp add: represents_def)
  have n61: "length n + length p + length opts < 2 ^ 61"
    and n62: "length n + (length p + 1 + (length opts + 1)) < 2 ^ 62"
    using n by (simp_all add: short_def)
  show ?thesis
  proof (cases "accepts b n (length p + 1 + (length opts + 1))")
    case True
    obtain r b' where r: "bson_append_regex A b n p opts = Some (r, b')" "build_inv b'" "frame b b'"
        "r = BSON_OK \<longleftrightarrow> utf8_accepted p"
        "written b' = written b @ (if utf8_accepted p then element BSON_REGEX n (regex_body p opts)
           else element BSON_REGEX n [])" "\<not> utf8_accepted p \<longrightarrow> bit (b_err b') 1"
      using regex_cases [OF inv A n61 True] by blast
    then show ?thesis
      using represents_add [OF rep r(2) r(5) r(3)] by (auto simp: dangling_def)
  next
    case False
    then show ?thesis
    proof (cases rule: estart_cases [OF inv A n62, of BSON_REGEX])
      case (1 b')
      then show ?thesis
        using represents_same [OF rep, of b'] same_frame_frame
        by (auto simp: bson_append_regex_def with_estart_def)
    qed simp
  qed
qed

lemma api_step_refines:
  assumes rep: "represents b d" and A: "allocator_ok A" "allocator_total A" and ok: "call_ok c"
  shows "\<exists>r b'. api_step A b c = Some (r, b')
     \<and> (if r = BSON_OK then represents b' (open_step c d) else represents b' d \<or> dangling c d b')"
proof -
  have inv: "build_inv b" using rep by (simp add: represents_def)
  consider (el) bytes where "call_element c = Some bytes" "\<not> is_regex c" "open_step c d = add_bytes bytes d"
    | (re) n p opts where "c = Append_regex n p opts"
    | (so) n where "c = Start_object n \<or> c = Start_array n"
    | (fi) "c = Finish_object \<or> c = Finish_array"
    by (cases c; cases d) auto
  then show ?thesis
  proof cases
    case el
    from append_call_effect [OF inv A ok el(1,2)] obtain r b'
      where "api_step A b c = Some (r, b')" "build_inv b'" "frame b b'"
        "written b' = (if r = BSON_OK then written b @ bytes else written b)"
      by (auto simp: call_effect_def)
    then show ?thesis
      using el(3) represents_add [OF rep, of b' bytes] represents_same [OF rep, of b'] by auto
  next
    case re
    then have "open_step c d = add_bytes (element BSON_REGEX n (regex_body p opts)) d"
      by (cases d) simp
    moreover have "short n" "short p" "short opts" using ok re by simp_all
    ultimately show ?thesis using regex_refines [OF rep A, of n p opts] re by (metis api_step.simps(13))
  next
    case so
    then obtain t where c: "api_step A b c = append_start A b t n" "short n"
        "open_step c d = (fst d, (t, n, []) # snd d)"
      using ok by (cases d) (auto simp: bson_append_start_object_def bson_append_start_array_def)
    from start_refines [of b "fst d" "snd d" A n t] rep A c(2) obtain r b'
      where "append_start A b t n = Some (r, b')"
        "represents b' (if r = BSON_OK then (fst d, (t, n, []) # snd d) else (fst d, snd d))"
      by auto
    then show ?thesis using c by (cases "r = BSON_OK") auto
  next
    case fi
    then have c: "api_step A b c = bson_append_finish_object A b"
        "open_step c d = open_step Finish_object d"
      by (cases d; cases "snd d"; auto simp: bson_append_finish_array_def)+
    from finish_refines [OF rep A] obtain r b'
      where "bson_append_finish_object A b = Some (r, b')"
        "represents b' (if r = BSON_OK then open_step Finish_object d else d)" by blast
    then show ?thesis using c by (cases "r = BSON_OK") auto
  qed
qed

lemma api_run_safe:
  "represents b d \<Longrightarrow> allocator_ok A \<Longrightarrow> allocator_total A \<Longrightarrow> \<forall>c \<in> set cs. call_ok c \<Longrightarrow>
   \<exists>rs b' d'. api_run A b cs = Some (rs, b') \<and> represents b' d'"
proof (induction cs arbitrary: b d)
  case Nil
  then show ?case by (cases d) auto
next
  case (Cons c cs)
  then have "call_ok c" by simp
  with Cons.prems obtain r b1 where step: "api_step A b c = Some (r, b1)"
      "if r = BSON_OK then represents b1 (open_step c d) else represents b1 d \<or> dangling c d b1"
    using api_step_refines [of b d A c] by blast
  then have "\<exists>d1. represents b1 d1"
    using dangling_def by (metis (no_types))
  then obtain d1 where "represents b1 d1" by blast
  with step(1) show ?case using Cons.IH [of b1 d1] Cons.prems by fastforce
qed

text \<open>A regular expression whose pattern is not UTF-8.\<close>

fun bad_regex :: "api_call \<Rightarrow> bool" where
  "bad_regex (Append_regex n p opts) = (\<not> utf8_accepted p)"
| "bad_regex c = False"

lemma dangling_bad_regex: "dangling c d b \<Longrightarrow> bad_regex c"
  by (auto simp: dangling_def)

lemma api_run_refines:
  "represents b d \<Longrightarrow> allocator_ok A \<Longrightarrow> allocator_total A \<Longrightarrow>
   \<forall>c \<in> set cs. call_ok c \<and> \<not> bad_regex c \<Longrightarrow>
   \<exists>rs b'. api_run A b cs = Some (rs, b') \<and> length rs = length cs
     \<and> represents b' (fold open_step (accepted_calls cs rs) d)"
proof (induction cs arbitrary: b d)
  case Nil
  then show ?case by (simp add: accepted_calls_def)
next
  case (Cons c cs)
  then have c: "call_ok c" "\<not> bad_regex c" by simp_all
  with Cons.prems obtain r b1 where step: "api_step A b c = Some (r, b1)"
      "represents b1 (if r = BSON_OK then open_step c d else d)"
    using api_step_refines [of b d A c] dangling_bad_regex by metis
  from Cons.IH [OF step(2)] Cons.prems obtain rs b2
    where "api_run A b1 cs = Some (rs, b2)" "length rs = length cs"
      "represents b2 (fold open_step (accepted_calls cs rs) (if r = BSON_OK then open_step c d else d))"
    by auto
  then show ?case using step(1) by (auto simp: accepted_calls_def split: if_splits)
qed

lemma represents_init:
  assumes A: "allocator_ok A" "allocator_total A"
  obtains b where "bson_init A = (BSON_OK, b)" "represents b ([], [])" "\<not> b_finished b" "b_err b = 0"
    "roomy max_doc b" "length (written b) = 4"
  using init_ok [OF A] by (auto simp: represents_def)

end
