(* ===== verification/Build_Complete.thy ===== *)
theory Build_Complete
  imports Build_Spec
begin

text \<open>
  The builder is complete: calls with valid strings whose subobjects are balanced are all accepted
  as long as the document stays below half a gigabyte, the error bit that blocks
  \<open>bson_finish\<close> stays clear, and the finished block is the document of the abstract machine.
\<close>

section \<open>The error bit that blocks finishing\<close>

definition keeps_bit :: "bson \<Rightarrow> (status \<times> bson) option \<Rightarrow> bool" where
  "keeps_bit b res \<longleftrightarrow> (\<forall>b'. res = Some (BSON_OK, b') \<longrightarrow> bit (b_err b') 1 = bit (b_err b) 1)"

lemma append_err: "bson_append b xs = Some b' \<Longrightarrow> b_err b' = b_err b"
  by (auto simp: bson_append_def split: option.splits)

lemma poke_err: "bson_poke b off xs = Some b' \<Longrightarrow> b_err b' = b_err b"
  by (auto simp: bson_poke_def split: option.splits)

lemma push_err: "push_position b = Some b' \<Longrightarrow> b_err b' = b_err b"
  by (auto simp: push_position_def split: if_splits)

lemma grow_err: "bson_append_grow_stack A b = (r, b') \<Longrightarrow> b_err b' = b_err b"
  by (auto simp: bson_append_grow_stack_def split: stack_loc.splits if_splits)

lemma ensure_space_err: "bson_ensure_space A b n = (BSON_OK, b') \<Longrightarrow> b_err b' = b_err b"
  by (auto simp: bson_ensure_space_def Let_def split: if_splits)

lemma check_field_name_bit:
  "bson_check_field_name b s n = (BSON_OK, b') \<Longrightarrow> n \<le> length s \<Longrightarrow> bit (b_err b') 1 = bit (b_err b) 1"
  by (auto simp: bson_check_field_name_def bson_validate_string_def Let_def bit_simps split: prod.splits if_splits
      dest!: validate_loop_bits)

lemma estart_keeps:
  "bson_append_estart A b t name n = Some (BSON_OK, b') \<Longrightarrow> bit (b_err b') 1 = bit (b_err b) 1"
  by (auto simp: bson_append_estart_def bson_append_byte_def Let_def Option.bind_eq_Some_conv
      split: if_splits prod.splits status.splits
      dest!: append_err ensure_space_err check_field_name_bit)

lemma with_estart_keeps:
  assumes "\<And>b1 b'. body b1 = Some (BSON_OK, b') \<Longrightarrow> bit (b_err b') 1 = bit (b_err b1) 1"
  shows "keeps_bit b (with_estart A b t name n body)"
  unfolding keeps_bit_def
proof (intro allI impI)
  fix b'
  assume "with_estart A b t name n body = Some (BSON_OK, b')"
  then obtain b1 where "bson_append_estart A b t name n = Some (BSON_OK, b1)"
      "body b1 = Some (BSON_OK, b')"
    by (auto simp: with_estart_def Option.bind_eq_Some_conv split: status.splits
        intro: status.exhaust)
  then show "bit (b_err b') 1 = bit (b_err b) 1"
    using assms estart_keeps by metis
qed

lemmas body_err = bson_append32_def bson_append32_as_int_def bson_append64_def bson_append_byte_def
  ok_def Option.bind_eq_Some_conv

lemma keeps_bind: "(\<And>x. m = Some x \<Longrightarrow> keeps_bit b (f x)) \<Longrightarrow> keeps_bit b (m \<bind> f)"
  by (cases m) (simp_all add: keeps_bit_def)

lemma keeps_trivial [simp]: "keeps_bit b None" "keeps_bit b (Some (BSON_ERROR, b'))"
  by (simp_all add: keeps_bit_def)

lemma keeps_same: "bit (b_err b1) 1 = bit (b_err b) 1 \<Longrightarrow> keeps_bit b1 res \<Longrightarrow> keeps_bit b res"
  by (simp add: keeps_bit_def)

lemma string_base_keeps: "keeps_bit b (bson_append_string_base A b n s len t)"
proof -
  have "keeps_bit b (with_estart A b1 t n k (\<lambda>b. do {
               b \<leftarrow> bson_append32_as_int b sl;
               b \<leftarrow> bson_append b xs;
               b \<leftarrow> bson_append b [0];
               ok b }))"
    if "bson_check_string b s len = (BSON_OK, b1)" "len \<le> length s" for b1 k sl xs
    using check_string_bit [OF that]
    by (intro keeps_same [of b1 b, OF _ with_estart_keeps]) (auto simp: body_err dest!: append_err)
  then show ?thesis
    by (simp add: bson_append_string_base_def Let_def split: prod.split status.split)
qed

lemma regex_keeps: "keeps_bit b (bson_append_regex A b n p opts)"
  unfolding bson_append_regex_def Let_def
  by (rule with_estart_keeps) (auto simp: body_err dest!: append_err check_string_bit
      split: prod.splits status.splits)

lemma bson_keeps: "keeps_bit b (bson_append_bson A b n (Some s))"
  unfolding bson_append_bson_def option.case
  by (rule keeps_bind, rule with_estart_keeps) (auto simp: body_err dest!: append_err)

lemma code_w_scope_keeps: "keeps_bit b (bson_append_code_w_scope A b n c (Some s))"
  unfolding bson_append_code_w_scope_def bson_append_code_w_scope_n_def option.case Let_def
  by (rule keeps_bind) (auto intro!: with_estart_keeps simp: body_err dest!: append_err)

lemma binary_keeps: "keeps_bit b (bson_append_binary A b n t xs len)"
  unfolding bson_append_binary_def Let_def
  by (auto intro!: with_estart_keeps simp: body_err dest!: append_err)

lemma start_keeps: "keeps_bit b (append_start A b t n)"
  unfolding append_start_def
  by (rule with_estart_keeps)
    (auto simp: body_err dest!: append_err push_err grow_err split: prod.splits status.splits if_splits)

lemma finish_object_keeps: "keeps_bit b (bson_append_finish_object A b)"
  by (auto simp: keeps_bit_def bson_append_finish_object_def body_err Let_def
      split: prod.splits status.splits if_splits
      dest!: append_err poke_err ensure_space_err)

lemma api_step_keeps: "keeps_bit b (api_step A b c)"
  by (cases c)
    (auto intro: string_base_keeps regex_keeps bson_keeps code_w_scope_keeps binary_keeps start_keeps
        finish_object_keeps
      simp: bson_append_string_def bson_append_symbol_def bson_append_code_def
        bson_append_start_object_def bson_append_start_array_def bson_append_finish_array_def,
     auto intro!: with_estart_keeps simp: body_err bson_append_int_def bson_append_long_def
        bson_append_double_def bson_append_bool_def bson_append_null_def bson_append_undefined_def
        bson_append_oid_def bson_append_timestamp_def bson_append_date_def bson_append_time_t_def
      dest!: append_err)

section \<open>Clean calls succeed\<close>

fun call_strings :: "api_call \<Rightarrow> byte list list" where
  "call_strings (Append_int n i) = [n]"
| "call_strings (Append_long n i) = [n]"
| "call_strings (Append_double n d) = [n]"
| "call_strings (Append_bool n i) = [n]"
| "call_strings (Append_null n) = [n]"
| "call_strings (Append_undefined n) = [n]"
| "call_strings (Append_string n s) = [n, s]"
| "call_strings (Append_symbol n s) = [n, s]"
| "call_strings (Append_code n s) = [n, s]"
| "call_strings (Append_code_w_scope n c s) = [n]"
| "call_strings (Append_binary n t xs) = [n]"
| "call_strings (Append_oid n oid) = [n]"
| "call_strings (Append_regex n p opts) = [n, p]"
| "call_strings (Append_bson n s) = [n]"
| "call_strings (Append_timestamp n ts) = [n]"
| "call_strings (Append_date n d) = [n]"
| "call_strings (Append_time_t n t) = [n]"
| "call_strings (Start_object n) = [n]"
| "call_strings (Start_array n) = [n]"
| "call_strings Finish_object = []"
| "call_strings Finish_array = []"

definition call_clean :: "api_call \<Rightarrow> bool" where
  "call_clean c \<longleftrightarrow> call_ok c \<and> (\<forall>s \<in> set (call_strings c). utf8_accepted s)"

text \<open>How many bytes a call adds.\<close>

definition call_cost :: "api_call \<Rightarrow> nat" where
  "call_cost c = (case call_element c of Some xs \<Rightarrow> length xs
     | None \<Rightarrow> (case c of Start_object n \<Rightarrow> 6 + length n | Start_array n \<Rightarrow> 6 + length n | _ \<Rightarrow> 1))"

text \<open>A builder at work: its invariant, room to grow, not finished and no blocking error bit.\<close>

definition healthy :: "bson \<Rightarrow> bool" where
  "healthy b \<longleftrightarrow> build_inv b \<and> roomy max_doc b \<and> \<not> b_finished b \<and> \<not> bit (b_err b) 1"

lemma appends_succeeds:
  assumes "appends b res True bytes" and "healthy b" and "int (b_cur b + length bytes) \<le> max_doc"
    and "keeps_bit b res"
  shows "\<exists>b'. res = Some (BSON_OK, b') \<and> healthy b' \<and> b_cur b' = b_cur b + length bytes"
proof -
  obtain b' where b': "res = Some (BSON_OK, b')" "build_inv b'" "frame b b'"
      "written b' = written b @ bytes" "roomy max_doc b'"
    using assms(1-3) by (auto simp: appends_def healthy_def)
  have "b_cur b' = b_cur b + length bytes"
    using b'(2,4) assms(2) length_written [of b'] length_written [of b] by (simp add: healthy_def)
  then show ?thesis using b' assms(2,4) by (simp add: healthy_def keeps_bit_def frame_def)
qed

lemma healthy_accepts:
  "healthy b \<Longrightarrow> utf8_accepted name \<Longrightarrow> int (b_cur b + (2 + length name + n)) \<le> max_doc \<Longrightarrow> accepts b name n"
  using roomy_fits [of b "2 + length name + n"] by (simp add: accepts_def healthy_def)

text \<open>Every single-element call but the regular expression, through its contract.\<close>

definition call_accepts :: "bson \<Rightarrow> api_call \<Rightarrow> bool" where
  "call_accepts b c \<longleftrightarrow>
     (\<forall>s \<in> set (tl (call_strings c)). int (length s) < INT32_MAX \<and> utf8_accepted s)
     \<and> accepts b (hd (call_strings c)) (call_cost c - 2 - length (hd (call_strings c)))"

lemma call_appends:
  assumes b: "build_inv b" "allocator_ok A" "allocator_total A" and c: "call_ok c"
    and el: "call_element c = Some bytes" and re: "\<not> is_regex c"
  shows "appends b (api_step A b c) (call_accepts b c) bytes"
proof -
  note op = append_int.op_appends [OF b] append_long.op_appends [OF b] append_double.op_appends [OF b]
    append_bool.op_appends [OF b] append_null.op_appends [OF b] append_undefined.op_appends [OF b]
    append_oid.op_appends [OF b] append_binary.op_appends [OF b] append_timestamp.op_appends [OF b]
    append_date.op_appends [OF b] append_time_t.op_appends [OF b]
    string_base_appends [OF b] append_bson_appends [OF b] code_w_scope_appends [OF b]
  note defs = call_accepts_def call_cost_def short_def
  show ?thesis
  proof (cases c)
    case (Append_int n i)
    then show ?thesis using op(1) [of n i] c el by (auto simp: defs)
  next
    case (Append_long n i)
    then show ?thesis using op(2) [of n i] c el by (auto simp: defs)
  next
    case (Append_double n d)
    then show ?thesis using op(3) [of n d] c el by (auto simp: defs)
  next
    case (Append_bool n i)
    then show ?thesis using op(4) [of n i] c el by (auto simp add: defs)
  next
    case (Append_null n)
    then show ?thesis using op(5) [of n] c el by (auto simp: defs)
  next
    case (Append_undefined n)
    then show ?thesis using op(6) [of n] c el by (auto simp: defs)
  next
    case (Append_string n s)
    then show ?thesis using op(12) [of n s BSON_STRING] c el
      by (auto simp: defs bson_append_string_def conj_assoc)
  next
    case (Append_symbol n s)
    then show ?thesis using op(12) [of n s BSON_SYMBOL] c el
      by (auto simp: defs bson_append_symbol_def conj_assoc)
  next
    case (Append_code n s)
    then show ?thesis using op(12) [of n s BSON_CODE] c el
      by (auto simp: defs bson_append_code_def conj_assoc)
  next
    case (Append_code_w_scope n code s)
    then obtain d where "b_data s = Some d" "sized d" "int (9 + length code + length d) \<le> INT32_MAX"
      using c by auto
    then show ?thesis using op(14) [of s d n code] c el Append_code_w_scope
      by (auto simp: defs add.assoc)
  next
    case (Append_binary n t xs)
    have "length (binary_body t xs) \<le> length xs + 9" by (simp add: binary_body_def)
    then show ?thesis using op(8) [of n t xs] c el Append_binary by (auto simp: defs)
  next
    case (Append_oid n oid)
    then show ?thesis using op(7) [of n oid] c el by (auto simp: defs)
  next
    case (Append_regex n p opts)
    then show ?thesis using re by simp
  next
    case (Append_bson n s)
    then obtain d where "b_data s = Some d" "sized d"
      using c by (auto simp: sized_bson_def)
    then show ?thesis using op(13) [of s d n] c el Append_bson by (auto simp: defs)
  next
    case (Append_timestamp n ts)
    then show ?thesis using op(9) [of n ts] c el by (auto simp: defs)
  next
    case (Append_date n d)
    then show ?thesis using op(10) [of n d] c el by (auto simp: defs)
  next
    case (Append_time_t n t)
    then show ?thesis using op(11) [of n t] c el by (auto simp: defs)
  qed (use el in simp_all)
qed

lemma cost_name: "call_element c = Some bytes \<Longrightarrow>
   length bytes = 2 + length (hd (call_strings c)) + (call_cost c - 2 - length (hd (call_strings c)))"
  by (cases c) (auto simp: call_cost_def)

lemma tl_strings_short:
  "call_element c = Some bytes \<Longrightarrow> s \<in> set (tl (call_strings c)) \<Longrightarrow> length s < length bytes"
  by (cases c) (auto simp: string_body_def regex_body_def element_def)

lemma clean_accepts:
  assumes "healthy b" and "call_clean c" and el: "call_element c = Some bytes"
    and room: "int (b_cur b + length bytes) \<le> max_doc"
  shows "call_accepts b c"
proof -
  have "call_strings c \<noteq> []" using el by (cases c) auto
  then have "utf8_accepted (hd (call_strings c))"
    using assms(2) by (auto simp: call_clean_def)
  then have "accepts b (hd (call_strings c)) (call_cost c - 2 - length (hd (call_strings c)))"
    using healthy_accepts [OF assms(1)] room unfolding cost_name [OF el] by simp
  moreover have "int (length s) < INT32_MAX" if "s \<in> set (tl (call_strings c))" for s
    using tl_strings_short [OF el that] room by (simp add: max_doc_def INT32_MAX_def)
  moreover have "utf8_accepted s" if "s \<in> set (tl (call_strings c))" for s
    using that assms(2) list.set_sel(2) [of "call_strings c"] \<open>call_strings c \<noteq> []\<close>
    by (auto simp: call_clean_def)
  ultimately show ?thesis by (simp add: call_accepts_def)
qed

text \<open>A call that closes a subobject needs an open one.\<close>

fun closes :: "api_call \<Rightarrow> bool" where
  "closes Finish_object = True"
| "closes Finish_array = True"
| "closes c = False"

fun opens :: "api_call \<Rightarrow> bool" where
  "opens (Start_object n) = True"
| "opens (Start_array n) = True"
| "opens c = False"

lemma cur_of: "build_inv b' \<Longrightarrow> build_inv b \<Longrightarrow> written b' = written b @ xs \<Longrightarrow> b_cur b' = b_cur b + length xs"
  using length_written [of b'] length_written [of b] by simp

lemma regex_succeeds:
  assumes h: "healthy b" and A: "allocator_ok A" "allocator_total A"
    and c: "call_clean (Append_regex n p opts)"
    and room: "int (b_cur b + call_cost (Append_regex n p opts)) \<le> max_doc"
  shows "\<exists>b'. bson_append_regex A b n p opts = Some (BSON_OK, b') \<and> healthy b'
     \<and> b_cur b' = b_cur b + call_cost (Append_regex n p opts)"
proof -
  have inv: "build_inv b" using h by (simp add: healthy_def)
  have p: "utf8_accepted p" "utf8_accepted n" and len: "length n + length p + length opts < 2 ^ 61"
    using c by (simp_all add: call_clean_def short_def)
  have cost: "call_cost (Append_regex n p opts) = 2 + length n + (length p + 1 + (length opts + 1))"
    by (simp add: call_cost_def regex_body_def)
  have acc: "accepts b n (length p + 1 + (length opts + 1))"
    using healthy_accepts [OF h p(2)] room cost by simp
  obtain b' where b': "bson_append_regex A b n p opts = Some (BSON_OK, b')" "build_inv b'" "frame b b'"
      "written b' = written b @ element BSON_REGEX n (regex_body p opts)" "roomy max_doc b'"
    using regex_cases [OF inv A len acc] p room h
    by (auto simp: call_cost_def healthy_def)
  moreover have "bit (b_err b') 1 = bit (b_err b) 1"
    using regex_keeps [of b A n p opts] b'(1) by (simp add: keeps_bit_def)
  ultimately show ?thesis
    using h cur_of [OF b'(2) inv b'(4)] by (simp add: healthy_def frame_def call_cost_def)
qed

lemma start_succeeds:
  assumes h: "healthy b" and A: "allocator_ok A" "allocator_total A"
    and n: "short n" "utf8_accepted n" and room: "int (b_cur b + (7 + length n)) \<le> max_doc"
  shows "\<exists>b'. append_start A b t n = Some (BSON_OK, b') \<and> healthy b' \<and> b_cur b' = b_cur b + (6 + length n)"
proof -
  have inv: "build_inv b" using h by (simp add: healthy_def)
  have len: "length n < 2 ^ 61" using n by (simp add: short_def)
  have acc: "accepts b n 5" using healthy_accepts [OF h n(2), of 5] room by simp
  show ?thesis
  proof (cases rule: append_start_cases [OF inv A len, of t])
    case 1
    with acc show ?thesis by simp
  next
    case (2 b')
    moreover have "bit (b_err b') 1 = bit (b_err b) 1"
      using start_keeps [of b A t n] 2(2) by (simp add: keeps_bit_def)
    ultimately show ?thesis
      using h room cur_of [OF 2(3) inv 2(4)] by (auto simp: healthy_def opened_def)
  qed
qed

lemma finish_object_succeeds:
  assumes h: "healthy b" and A: "allocator_ok A" "allocator_total A"
    and op: "0 < b_stackPos b" and room: "int (b_cur b + 1) \<le> max_doc"
  shows "\<exists>b'. bson_append_finish_object A b = Some (BSON_OK, b') \<and> healthy b' \<and> b_cur b' = b_cur b + 1"
proof -
  have inv: "build_inv b" using h by (simp add: healthy_def)
  show ?thesis
  proof (cases rule: finish_object_cases [OF inv A op refl])
    case 1
    then show ?thesis using h room roomy_fits [of b 1] by (simp add: healthy_def)
  next
    case (2 b')
    have "b_stack b ! (b_stackPos b - 1) + 4 \<le> b_cur b"
      using inv op by (simp add: build_inv_def stack_inv_def)
    then have "b_cur b' = b_cur b + 1"
      using 2(4) length_written [OF inv] length_written [OF 2(3)] by simp
    moreover have "bit (b_err b') 1 = bit (b_err b) 1"
      using finish_object_keeps [of b A] 2(2) by (simp add: keeps_bit_def)
    ultimately show ?thesis using 2 h room by (simp add: healthy_def)
  qed
qed

lemma call_succeeds:
  assumes h: "healthy b" and A: "allocator_ok A" "allocator_total A" and c: "call_clean c"
    and room: "int (b_cur b + call_cost c) < max_doc" and op: "closes c \<Longrightarrow> 0 < b_stackPos b"
  shows "\<exists>b'. api_step A b c = Some (BSON_OK, b') \<and> healthy b' \<and> b_cur b' = b_cur b + call_cost c"
proof -
  consider (el) bytes where "call_element c = Some bytes" "\<not> is_regex c"
    | (re) n p opts where "c = Append_regex n p opts"
    | (so) n where "c = Start_object n \<or> c = Start_array n"
    | (fi) "c = Finish_object \<or> c = Finish_array"
    by (cases c) auto
  then show ?thesis
  proof cases
    case el
    have ok: "call_ok c" and inv: "build_inv b" using c h by (simp_all add: call_clean_def healthy_def)
    have cost: "call_cost c = length bytes" using el by (simp add: call_cost_def)
    have "call_accepts b c" using clean_accepts [OF h c el(1)] room cost by simp
    then show ?thesis
      using appends_succeeds [OF _ h _ api_step_keeps] call_appends [OF inv A ok el] room cost by simp
  next
    case re
    then show ?thesis using regex_succeeds [OF h A, of n p opts] c room by simp
  next
    case so
    then show ?thesis
      using start_succeeds [OF h A, of n BSON_OBJECT] start_succeeds [OF h A, of n BSON_ARRAY] c room
      by (auto simp: bson_append_start_object_def bson_append_start_array_def call_clean_def
          call_cost_def)
  next
    case fi
    then show ?thesis
      using finish_object_succeeds [OF h A] op room
      by (auto simp: bson_append_finish_array_def call_cost_def)
  qed
qed

section \<open>Balanced histories\<close>

text \<open>The number of subobjects left open, when no call closes one that is not open.\<close>

fun depth_after :: "nat \<Rightarrow> api_call list \<Rightarrow> nat option" where
  "depth_after k [] = Some k"
| "depth_after k (c # cs) =
     (if opens c then depth_after (k + 1) cs
      else if closes c then (if k = 0 then None else depth_after (k - 1) cs)
      else depth_after k cs)"

lemma length_frames:
  "\<not> opens c \<Longrightarrow> \<not> closes c \<Longrightarrow> length (snd (open_step c d)) = length (snd d)"
  "opens c \<Longrightarrow> length (snd (open_step c d)) = length (snd d) + 1"
  "closes c \<Longrightarrow> snd d \<noteq> [] \<Longrightarrow> length (snd (open_step c d)) = length (snd d) - 1"
proof -
  have add: "length (snd (add_bytes xs d)) = length (snd d)" for xs d
    by (cases "(xs, d)" rule: add_bytes.cases) auto
  show "\<not> opens c \<Longrightarrow> \<not> closes c \<Longrightarrow> length (snd (open_step c d)) = length (snd d)"
    by (cases c; cases d) (simp_all add: add)
  show "opens c \<Longrightarrow> length (snd (open_step c d)) = length (snd d) + 1"
    by (cases c; cases d) simp_all
  show "closes c \<Longrightarrow> snd d \<noteq> [] \<Longrightarrow> length (snd (open_step c d)) = length (snd d) - 1"
    by (cases c; cases d; cases "snd d") (auto simp: add)
qed

lemma represents_depth: "represents b d \<Longrightarrow> b_stackPos b = length (snd d)"
  using stackPos_length [of b] length_positions [of "fst d" "snd d"] by (simp add: represents_def)

lemma clean_not_bad: "call_clean c \<Longrightarrow> \<not> bad_regex c"
  by (cases c) (auto simp: call_clean_def)

lemma api_run_complete:
  "represents b d \<Longrightarrow> healthy b \<Longrightarrow> allocator_ok A \<Longrightarrow> allocator_total A \<Longrightarrow>
   \<forall>c \<in> set cs. call_clean c \<Longrightarrow> depth_after (length (snd d)) cs = Some k \<Longrightarrow>
   int (b_cur b + sum_list (map call_cost cs)) < max_doc \<Longrightarrow>
   \<exists>b'. api_run A b cs = Some (replicate (length cs) BSON_OK, b')
     \<and> represents b' (fold open_step cs d) \<and> healthy b' \<and> length (snd (fold open_step cs d)) = k
     \<and> b_cur b' = b_cur b + sum_list (map call_cost cs)"
proof (induction cs arbitrary: b d)
  case Nil
  then show ?case by simp
next
  case (Cons c cs)
  have c: "call_clean c" "call_ok c" using Cons.prems by (simp_all add: call_clean_def)
  have op: "closes c \<Longrightarrow> 0 < length (snd d)" using Cons.prems(6) by (cases c) (auto split: if_splits)
  obtain b1 where b1: "api_step A b c = Some (BSON_OK, b1)" "healthy b1" "b_cur b1 = b_cur b + call_cost c"
    using call_succeeds [OF Cons.prems(2-4) c(1)] op represents_depth [OF Cons.prems(1)] Cons.prems(7)
    by auto
  have rep: "represents b1 (open_step c d)"
    using api_step_refines [OF Cons.prems(1,3,4) c(2)] b1(1) by auto
  have "depth_after (length (snd (open_step c d))) cs = Some k"
    using Cons.prems(6) op length_frames [of c d] by (auto split: if_splits)
  from Cons.IH [OF rep b1(2) Cons.prems(3,4) _ this] Cons.prems(5,7) b1(1,3)
  show ?case by auto
qed

lemma healthy_finishes:
  assumes "healthy b" and A: "allocator_ok A" "allocator_total A" and "int (b_cur b + 1) \<le> max_doc"
  obtains b' where "bson_finish A b = Some (BSON_OK, b')" "build_inv b'" "b_finished b'"
    "written b' = doc_bytes (drop 4 (written b))"
proof -
  have h: "build_inv b" "roomy max_doc b" "\<not> b_finished b" "\<not> bit (b_err b) 1"
    using assms(1) by (simp_all add: healthy_def)
  show ?thesis
  proof (cases rule: finish_cases [OF h(1) A h(3)])
    case 1
    then show ?thesis using roomy_finishes [OF h(1,2) assms(4) h(3)] h(4) by simp
  next
    case (2 b')
    then show ?thesis using that by blast
  qed
qed

text \<open>The bytes a finished document shows a reader: \<open>bson_data\<close> up to \<open>bson_size\<close>.\<close>

lemma written_data: "build_inv b \<Longrightarrow> \<exists>d. b_data b = Some d \<and> take (b_cur b) d = written b"
  by (auto simp: build_inv_def block_inv_def written_def)

lemma build_complete:
  assumes A: "allocator_ok A" "allocator_total A" and cs: "\<forall>c \<in> set cs. call_clean c"
    and "depth_after 0 cs = Some 0" and "5 + int (sum_list (map call_cost cs)) \<le> max_doc"
  shows "\<exists>b b'. api_run A (snd (bson_init A)) cs = Some (replicate (length cs) BSON_OK, b)
     \<and> bson_finish A b = Some (BSON_OK, b') \<and> b_finished b' \<and> build_inv b'
     \<and> written b' = doc_bytes (fst (fold open_step cs ([], [])))"
proof -
  obtain b0 where b0: "bson_init A = (BSON_OK, b0)" "represents b0 ([], [])" "\<not> b_finished b0"
      "b_err b0 = 0" "roomy max_doc b0" "length (written b0) = 4"
    by (rule represents_init [OF A])
  then have h: "healthy b0" "b_cur b0 = 4"
    using length_written [of b0] by (simp_all add: healthy_def represents_def)
  obtain b where b: "api_run A b0 cs = Some (replicate (length cs) BSON_OK, b)"
      "represents b (fold open_step cs ([], []))" "healthy b"
      "length (snd (fold open_step cs ([], []))) = 0"
      "b_cur b = 4 + sum_list (map call_cost cs)"
    using api_run_complete [OF b0(2) h(1) A cs, of 0] assms(4,5) h(2) by auto
  obtain b' where b': "bson_finish A b = Some (BSON_OK, b')" "build_inv b'" "b_finished b'"
      "written b' = doc_bytes (drop 4 (written b))"
    by (rule healthy_finishes [OF b(3) A]) (use b(5) assms(5) in simp_all)
  have "drop 4 (written b) = fst (fold open_step cs ([], []))"
    using b(2,4) by (simp add: represents_def)
  then show ?thesis using b0(1) b(1) b' by auto
qed

section \<open>A refused regular expression\<close>

text \<open>
  The header of a refused regular expression stays behind; an assignment to the error field then
  clears the bit that would make \<open>bson_finish\<close> refuse the document.
\<close>

lemma refused_regex_finishes:
  assumes b: "build_inv b" "\<not> b_finished b" "b_stackPos b = 0" and A: "allocator_ok A" "allocator_total A"
    and c: "short n" "short p" "short opts" "\<not> utf8_accepted p"
    and acc: "accepts b n (length p + 1 + (length opts + 1))"
  shows "\<exists>b1 b2. api_run A b [Append_regex n p opts, Finish_object] = Some ([BSON_ERROR, BSON_ERROR], b1)
     \<and> bson_finish A b1 = Some (BSON_OK, b2)
     \<and> written b2 = doc_bytes (drop 4 (written b) @ element BSON_REGEX n [])"
proof -
  have len: "length n + length p + length opts < 2 ^ 61" using c by (simp add: short_def)
  obtain r b0 where b0: "bson_append_regex A b n p opts = Some (r, b0)" "build_inv b0" "frame b b0"
      "r \<noteq> BSON_OK" "written b0 = written b @ element BSON_REGEX n []" "int (b_cur b0 + 2) \<le> b_dataSize b0"
    using regex_cases [OF b(1) A len acc] c(4) by auto
  then have r: "r = BSON_ERROR" by (cases r) auto
  let ?b1 = "b0\<lparr>b_err := BSON_NOT_IN_SUBOBJECT\<rparr>"
  have inv1: "build_inv ?b1" "\<not> b_finished ?b1" "b_stackPos b0 = 0"
    using b0(2,3) b by (simp_all add: frame_def)
  have "int (b_cur b0 + 1) < INT32_MAX"
    using b0(6) build_inv_dataSize [OF b0(2)] by (simp add: INT32_MAX_def INT_MAX_def)
  then have fin: "finishes ?b1"
    using inv1(2) b0(6) by (simp add: finishes_def fits_def Let_def)
  have w: "drop 4 (written ?b1) = drop 4 (written b) @ element BSON_REGEX n []"
    using b0(5) written_ge4 [OF b(1)] by simp
  show ?thesis
  proof (cases rule: finish_cases [OF inv1(1) A inv1(2)])
    case 1
    then show ?thesis using fin by simp
  next
    case (2 b2)
    then show ?thesis using b0(1) r inv1(3) w by (simp add: bson_append_finish_object_def)
  qed
qed

end
