(* ===== verification/Bson_Doc.thy ===== *)
theory Bson_Doc
  imports Bson_Read Build_Complete
begin

text \<open>
  Documents as trees, their bytes, and the reader on those bytes: the iterator visits exactly the
  elements of an encoded document in order, and every typed accessor returns the value the tree has.
\<close>

section \<open>Document trees\<close>

datatype bson_val =
    VDouble i64
  | VString "byte list"
  | VObject "(byte list \<times> bson_val) list"
  | VArray "(byte list \<times> bson_val) list"
  | VBin byte "byte list"
  | VUndefined
  | VOid bson_oid_t
  | VBool bool
  | VDate i64
  | VNull
  | VRegex "byte list" "byte list"
  | VCode "byte list"
  | VSymbol "byte list"
  | VCodeWScope "byte list" "(byte list \<times> bson_val) list"
  | VInt i32
  | VTimestamp bson_timestamp_t
  | VLong i64

type_synonym bson_doc = "(byte list \<times> bson_val) list"

fun val_type :: "bson_val \<Rightarrow> bson_type" where
  "val_type (VDouble d) = BSON_DOUBLE"
| "val_type (VString s) = BSON_STRING"
| "val_type (VObject es) = BSON_OBJECT"
| "val_type (VArray es) = BSON_ARRAY"
| "val_type (VBin t xs) = BSON_BINDATA"
| "val_type VUndefined = BSON_UNDEFINED"
| "val_type (VOid oid) = BSON_OID"
| "val_type (VBool b) = BSON_BOOL"
| "val_type (VDate d) = BSON_DATE"
| "val_type VNull = BSON_NULL"
| "val_type (VRegex p opts) = BSON_REGEX"
| "val_type (VCode s) = BSON_CODE"
| "val_type (VSymbol s) = BSON_SYMBOL"
| "val_type (VCodeWScope s es) = BSON_CODEWSCOPE"
| "val_type (VInt i) = BSON_INT"
| "val_type (VTimestamp ts) = BSON_TIMESTAMP"
| "val_type (VLong i) = BSON_LONG"

fun val_bytes :: "bson_val \<Rightarrow> byte list" and elems_bytes :: "bson_doc \<Rightarrow> byte list" where
  "val_bytes (VDouble d) = wire64 d"
| "val_bytes (VString s) = string_body s"
| "val_bytes (VObject es) = doc_bytes (elems_bytes es)"
| "val_bytes (VArray es) = doc_bytes (elems_bytes es)"
| "val_bytes (VBin t xs) = binary_body t xs"
| "val_bytes VUndefined = []"
| "val_bytes (VOid oid) = oid"
| "val_bytes (VBool b) = [if b then 1 else 0]"
| "val_bytes (VDate d) = wire64 d"
| "val_bytes VNull = []"
| "val_bytes (VRegex p opts) = regex_body p opts"
| "val_bytes (VCode s) = string_body s"
| "val_bytes (VSymbol s) = string_body s"
| "val_bytes (VCodeWScope s es) = (let d = doc_bytes (elems_bytes es)
     in wire32 (to_int (9 + length s + length d)) @ string_body s @ d)"
| "val_bytes (VInt i) = wire32 i"
| "val_bytes (VTimestamp ts) = wire32 (ts_i ts) @ wire32 (ts_t ts)"
| "val_bytes (VLong i) = wire64 i"
| "elems_bytes [] = []"
| "elems_bytes ((n, v) # es) = element (val_type v) n (val_bytes v) @ elems_bytes es"

text \<open>C strings hold no terminator, and an object id has twelve bytes.\<close>

fun val_ok :: "bson_val \<Rightarrow> bool" and elems_ok :: "bson_doc \<Rightarrow> bool" where
  "val_ok (VString s) = (0 \<notin> set s)"
| "val_ok (VObject es) = elems_ok es"
| "val_ok (VArray es) = elems_ok es"
| "val_ok (VOid oid) = (length oid = 12)"
| "val_ok (VRegex p opts) = (0 \<notin> set p \<and> 0 \<notin> set opts)"
| "val_ok (VCode s) = (0 \<notin> set s)"
| "val_ok (VSymbol s) = (0 \<notin> set s)"
| "val_ok (VCodeWScope s es) = (0 \<notin> set s \<and> elems_ok es)"
| "val_ok _ = True"
| "elems_ok [] = True"
| "elems_ok ((n, v) # es) = (0 \<notin> set n \<and> val_ok v \<and> elems_ok es)"

section \<open>The iterator on an element\<close>

definition it_at :: "byte list \<Rightarrow> int \<Rightarrow> bson_iterator" where
  "it_at m q = \<lparr>it_mem = m, it_cur = q, it_first = False\<rparr>"

lemma it_at_simps [simp]: "it_mem (it_at m q) = m" "it_cur (it_at m q) = q" "\<not> it_first (it_at m q)"
  by (simp_all add: it_at_def)

lemma val_type_enumerator [simp]: "val_type v \<in> set enumerators"
  by (cases v) (simp_all add: enumerators_def)

lemma val_type_not_EOO [simp]: "val_type v \<noteq> BSON_EOO"
  by (cases v) simp_all

lemma element_parts:
  assumes "located m q (element t n body)"
  shows "located m q [type_char t]" "located m (q + 1) (n @ [0])"
    "located m (q + 2 + int (length n)) body"
proof -
  have "located m q ([type_char t] @ (n @ [0]) @ body)" using assms by (simp add: element_def)
  then have "located m q [type_char t] \<and> located m (q + 1) (n @ [0])
      \<and> located m (q + 1 + int (length (n @ [0]))) body"
    unfolding located_append by simp
  moreover have "q + 1 + int (length (n @ [0])) = q + 2 + int (length n)" by simp
  ultimately show "located m q [type_char t]" "located m (q + 1) (n @ [0])"
    "located m (q + 2 + int (length n)) body" by (simp_all only:)
qed

lemma iter_type:
  "located m q (element (val_type v) n body) \<Longrightarrow> bson_iterator_type (it_at m q) = Some (val_type v)"
  using rd_located [OF element_parts(1)] by (simp add: bson_iterator_type_def)

lemma iter_key:
  "located m q (element t n body) \<Longrightarrow> 0 \<notin> set n \<Longrightarrow>
   cstring m (bson_iterator_key (it_at m q)) = Some n \<and> cstrlen m (q + 1) = Some (length n)"
  using cstring_located [OF element_parts(2)] cstrlen_located [OF element_parts(2)]
  by (simp add: bson_iterator_key_def)

lemma iter_value:
  "located m q (element t n body) \<Longrightarrow> 0 \<notin> set n \<Longrightarrow>
   bson_iterator_value (it_at m q) = Some (q + 2 + int (length n))"
  using iter_key [of m q t n body] by (simp add: bson_iterator_value_def)

lemma read32_located:
  "located m p (wire32 w) \<Longrightarrow> it_mem i = m \<Longrightarrow> read32 i p = Some w"
  using rdn_located [of m p "wire32 w"] by (simp add: read32_def unwire32_def [symmetric])

lemma read64_located:
  "located m p (wire64 w) \<Longrightarrow> it_mem i = m \<Longrightarrow> read64 i p = Some w"
  using rdn_located [of m p "wire64 w"] by (simp add: read64_def unwire64_def [symmetric])

lemma located_prefix: "located m p (xs @ ys) \<Longrightarrow> located m p xs"
  by (simp add: located_append)

lemma located_suffix: "located m p (xs @ ys) \<Longrightarrow> located m (p + int (length xs)) ys"
  by (simp add: located_append)

text \<open>The size field of a string, binary, document or code with scope is the true one.\<close>

definition small :: "bson_val \<Rightarrow> bool" where
  "small v \<longleftrightarrow> int (length (val_bytes v)) \<le> INT_MAX"

lemma int_raw_located:
  assumes "located m q (element t n (wire32 w @ rest))" and "0 \<notin> set n"
  shows "bson_iterator_int_raw (it_at m q) = Some w"
  using iter_value [OF assms] element_parts(3) [OF assms(1), THEN located_prefix]
  by (simp add: bson_iterator_int_raw_def read32_located)

lemma value_size_located:
  assumes "located m q (element (val_type v) n (val_bytes v))" and n: "0 \<notin> set n"
    and v: "val_ok v" "small v"
  shows "value_size (it_at m q) (val_type v) = Some (Inr (int (length (val_bytes v))))"
proof -
  have raw: "bson_iterator_int_raw (it_at m q) = Some w" if "val_bytes v = wire32 w @ rest" for w rest
    using int_raw_located [of m q "val_type v" n w rest] assms(1) n that by simp
  have s: "sint (to_int k) = int k" if "int k \<le> INT_MAX" for k using sint_to_int that by blast
  note small = v(2) [unfolded small_def INT_MAX_def]
  show ?thesis
  proof (cases v)
    case (VRegex p opts)
    have "located m (q + 2 + int (length n)) ((p @ [0]) @ opts @ [0])"
      using element_parts(3) [OF assms(1)] VRegex by (simp add: regex_body_def)
    then have "cstrlen m (q + 2 + int (length n)) = Some (length p)"
      and "cstrlen m (q + 2 + int (length n) + int (length p) + 1) = Some (length opts)"
      using v VRegex located_prefix [of m "q + 2 + int (length n)" "p @ [0]"]
        located_suffix [of m "q + 2 + int (length n)" "p @ [0]" "opts @ [0]"]
      by (auto intro!: cstrlen_located simp: add.assoc)
    then show ?thesis
      using VRegex iter_value [OF assms(1) n] by (simp add: value_size_def regex_body_def)
  next
    case (VCodeWScope s es)
    let ?k = "9 + length s + length (doc_bytes (elems_bytes es))"
    have "bson_iterator_int_raw (it_at m q) = Some (to_int ?k)"
      using VCodeWScope by (intro raw) (simp add: Let_def)
    moreover have "int ?k \<le> INT_MAX" using small VCodeWScope by (simp add: Let_def INT_MAX_def)
    ultimately show ?thesis using VCodeWScope s [of ?k] by (simp add: value_size_def Let_def)
  next
    case (VBin t xs)
    then show ?thesis using raw s [of "length xs"] s [of "length xs + 4"] small
      by (simp add: value_size_def binary_body_def wrap32_id in_int_def INT_MAX_def split: if_splits)
  next
    case (VString str)
    then show ?thesis using raw s [of "length str + 1"] small
      by (simp add: value_size_def string_body_def wrap32_id in_int_def INT_MAX_def)
  next
    case (VCode str)
    then show ?thesis using raw s [of "length str + 1"] small
      by (simp add: value_size_def string_body_def wrap32_id in_int_def INT_MAX_def)
  next
    case (VSymbol str)
    then show ?thesis using raw s [of "length str + 1"] small
      by (simp add: value_size_def string_body_def wrap32_id in_int_def INT_MAX_def)
  next
    case (VObject es)
    then show ?thesis using raw s [of "length (elems_bytes es) + 5"] small
      by (simp add: value_size_def doc_bytes_def INT_MAX_def)
  next
    case (VArray es)
    then show ?thesis using raw s [of "length (elems_bytes es) + 5"] small
      by (simp add: value_size_def doc_bytes_def INT_MAX_def)
  qed (use v in \<open>simp_all add: value_size_def\<close>)
qed

text \<open>
  \<open>reaches i m q\<close>: the next step of \<open>i\<close> lands on offset \<open>q\<close> of \<open>m\<close>.  A fresh iterator reaches the
  first element, an iterator on an element reaches the one behind it.
\<close>

definition reaches :: "bson_iterator \<Rightarrow> byte list \<Rightarrow> int \<Rightarrow> bool" where
  "reaches i m q \<longleftrightarrow> bson_iterator_next i = map_option (\<lambda>c. (char_type c, it_at m q)) (rd m q)"

lemma reaches_first: "reaches (bson_iterator_from_buffer m p) m (p + 4)"
  by (cases "rd m (p + 4)") (simp_all add: reaches_def bson_iterator_next_def bson_iterator_type_def
      bson_iterator_from_buffer_def it_at_def)

lemma reaches_next:
  assumes el: "located m q (element (val_type v) n (val_bytes v))" and n: "0 \<notin> set n"
    and v: "val_ok v" "small v"
  shows "reaches (it_at m q) m (q + int (length (element (val_type v) n (val_bytes v))))"
proof -
  have len: "q + 1 + int (length n) + 1 + int (length (val_bytes v))
      = q + int (length (element (val_type v) n (val_bytes v)))" by simp
  have upd: "(it_at m q)\<lparr>it_cur := q'\<rparr> = it_at m q'" for q' by (simp add: it_at_def)
  let ?q = "q + int (length (element (val_type v) n (val_bytes v)))"
  have "bson_iterator_next (it_at m q)
      = bson_iterator_type (it_at m ?q) \<bind> (\<lambda>t. Some (t, it_at m ?q))"
    using iter_type [OF el] value_size_located [OF assms] iter_key [OF el n]
    by (simp add: bson_iterator_next_def upd len [symmetric] add.assoc Let_def del: length_element)
  then show ?thesis
    by (cases "rd m ?q") (simp_all add: reaches_def bson_iterator_type_def)
qed

lemma reaches_element:
  assumes "reaches i m q" and "located m q (element (val_type v) n body)"
  shows "bson_iterator_next i = Some (val_type v, it_at m q)"
  using assms rd_located [OF element_parts(1) [OF assms(2)]] by (simp add: reaches_def)

lemma reaches_end:
  assumes "reaches i m q" and "located m q [0]"
  shows "bson_iterator_next i = Some (BSON_EOO, it_at m q)"
  using assms rd_located [OF assms(2)] by (simp add: reaches_def char_type_EOO_iff)

section \<open>Typed access\<close>

text \<open>An iterator on an element of a document.\<close>

definition on_element :: "bson_iterator \<Rightarrow> byte list \<Rightarrow> bson_val \<Rightarrow> bool" where
  "on_element i n v \<longleftrightarrow> (\<exists>q. i = it_at (it_mem i) q
     \<and> located (it_mem i) q (element (val_type v) n (val_bytes v)) \<and> 0 \<notin> set n \<and> val_ok v \<and> small v)"

lemma on_element_cases:
  assumes "on_element i n v"
  obtains q0 q where "i = it_at (it_mem i) q0" "bson_iterator_type i = Some (val_type v)"
    "bson_iterator_value i = Some q" "located (it_mem i) q (val_bytes v)" "val_ok v" "small v"
proof -
  obtain q where q: "i = it_at (it_mem i) q"
      "located (it_mem i) q (element (val_type v) n (val_bytes v))" "0 \<notin> set n" "val_ok v" "small v"
    using assms by (auto simp: on_element_def)
  have "bson_iterator_type i = Some (val_type v)"
    using iter_type [OF q(2)] q(1) by simp
  moreover have "bson_iterator_value i = Some (q + 2 + int (length n))"
    using iter_value [OF q(2,3)] q(1) by simp
  ultimately show ?thesis
    using that [of q "q + 2 + int (length n)"] element_parts(3) [OF q(2)] q by blast
qed

lemma located_ConsD: "located m p (x # ys) \<Longrightarrow> located m p [x] \<and> located m (p + 1) ys"
  using located_append [of m p "[x]" ys] by simp

lemma access_key: "on_element i n v \<Longrightarrow> cstring (it_mem i) (bson_iterator_key i) = Some n"
  using iter_key by (auto simp: on_element_def) (metis it_at_simps(1))

lemma access_double: "on_element i n (VDouble d) \<Longrightarrow> bson_iterator_double i = Some d"
  by (elim on_element_cases) (simp add: bson_iterator_double_def bson_iterator_double_raw_def read64_located)

lemma access_long: "on_element i n (VLong w) \<Longrightarrow> bson_iterator_long i = Some w"
  by (elim on_element_cases) (simp add: bson_iterator_long_def bson_iterator_long_raw_def read64_located)

lemma access_int: "on_element i n (VInt w) \<Longrightarrow> bson_iterator_int i = Some w"
  by (elim on_element_cases) (simp add: bson_iterator_int_def bson_iterator_int_raw_def read32_located)

lemma access_int_as_long: "on_element i n (VInt w) \<Longrightarrow> bson_iterator_long i = Some (scast w)"
  by (elim on_element_cases) (simp add: bson_iterator_long_def bson_iterator_int_raw_def read32_located)

lemma access_date: "on_element i n (VDate w) \<Longrightarrow> bson_iterator_date i = Some w"
  by (elim on_element_cases) (simp add: bson_iterator_date_def bson_iterator_long_raw_def read64_located)

lemma access_bool: "on_element i n (VBool b) \<Longrightarrow> bson_iterator_bool i = Some (if b then 1 else 0)"
  by (elim on_element_cases, cases b)
    (simp_all add: bson_iterator_bool_def bson_iterator_bool_raw_def rd_located)

lemma access_oid: "on_element i n (VOid oid) \<Longrightarrow> bson_iterator_oid i = Some oid"
  by (elim on_element_cases) (use rdn_located in \<open>force simp add: bson_iterator_oid_def\<close>)

lemma access_timestamp:
  assumes "on_element i n (VTimestamp ts)"
  shows "bson_iterator_timestamp i = Some ts"
proof (rule on_element_cases [OF assms])
  fix q assume q: "bson_iterator_value i = Some q"
    and loc: "located (it_mem i) q (val_bytes (VTimestamp ts))"
  have "read32 i q = Some (ts_i ts)" "read32 i (q + 4) = Some (ts_t ts)"
    using loc located_prefix located_suffix [of _ q "wire32 (ts_i ts)"] by (auto intro!: read32_located)
  then show ?thesis using q by (simp add: bson_iterator_timestamp_def)
qed

lemma located_string_body:
  "located m q (string_body s) \<Longrightarrow> 0 \<notin> set s \<Longrightarrow> cstring m (q + 4) = Some s"
  using located_suffix [of m q "wire32 (to_int (length s + 1))" "s @ [0]"] cstring_located
  by (simp add: string_body_def)

lemma access_string: "on_element i n (VString s) \<Longrightarrow> bson_iterator_string i = Some s"
  by (elim on_element_cases) (simp add: bson_iterator_string_def located_string_body)

lemma access_symbol: "on_element i n (VSymbol s) \<Longrightarrow> bson_iterator_string i = Some s"
  by (elim on_element_cases) (simp add: bson_iterator_string_def located_string_body)

lemma access_code: "on_element i n (VCode s) \<Longrightarrow> bson_iterator_code i = Some (Some s)"
  by (elim on_element_cases) (simp add: bson_iterator_code_def located_string_body)

lemma access_regex: "on_element i n (VRegex p opts) \<Longrightarrow>
   bson_iterator_regex i = Some p \<and> bson_iterator_regex_opts i = Some opts"
proof (elim on_element_cases)
  fix q assume q: "bson_iterator_value i = Some q"
    and loc: "located (it_mem i) q (val_bytes (VRegex p opts))" and ok: "val_ok (VRegex p opts)"
  have "located (it_mem i) q (p @ [0])" "located (it_mem i) (q + int (length p) + 1) (opts @ [0])"
    using loc located_prefix [of _ q "p @ [0]"] located_suffix [of _ q "p @ [0]" "opts @ [0]"]
    by (simp_all add: regex_body_def ac_simps)
  then show ?thesis
    using q ok by (simp add: bson_iterator_regex_def bson_iterator_regex_opts_def cstring_located
        cstrlen_located)
qed

text \<open>The data of a binary, for both layouts of its length.\<close>

lemma access_binary:
  assumes "on_element i n (VBin t xs)"
  shows "bson_iterator_bin_type i = Some t
    \<and> bson_iterator_bin_len i = Some (to_int (length xs))
    \<and> (\<exists>p. bson_iterator_bin_data i = Some p \<and> rdn (it_mem i) p (length xs) = Some xs)"
proof (rule on_element_cases [OF assms])
  fix q assume q: "bson_iterator_value i = Some q"
    and loc: "located (it_mem i) q (val_bytes (VBin t xs))"
  show ?thesis
  proof (cases "t = BSON_BIN_BINARY_OLD")
    case True
    then have "located (it_mem i) q (wire32 (to_int (length xs + 4)))"
        "located (it_mem i) (q + 4) [t]" "located (it_mem i) (q + 9) xs"
      using loc located_ConsD [of "it_mem i" "q + 4" t "wire32 (to_int (length xs)) @ xs"]
      by (simp_all add: binary_body_def located_append add.assoc)
    then show ?thesis
      using q True by (simp add: bson_iterator_bin_type_def bson_iterator_bin_len_def
          bson_iterator_bin_data_def bson_iterator_int_raw_def read32_located rd_located rdn_located
          to_int_def)
  next
    case False
    then have "located (it_mem i) q (wire32 (to_int (length xs)))"
        "located (it_mem i) (q + 4) [t]" "located (it_mem i) (q + 5) xs"
      using loc located_ConsD [of "it_mem i" "q + 4" t xs]
      by (simp_all add: binary_body_def located_append add.assoc)
    then show ?thesis
      using q False by (simp add: bson_iterator_bin_type_def bson_iterator_bin_len_def
          bson_iterator_bin_data_def bson_iterator_int_raw_def read32_located rd_located rdn_located)
  qed
qed

text \<open>The typed accessors of \<open>bson.h\<close> give back the value.\<close>

fun reads_back :: "bson_iterator \<Rightarrow> bson_val \<Rightarrow> bool" where
  "reads_back i (VDouble d) = (bson_iterator_double i = Some d)"
| "reads_back i (VString s) = (bson_iterator_string i = Some s)"
| "reads_back i (VBin t xs) = (bson_iterator_bin_type i = Some t
     \<and> bson_iterator_bin_len i = Some (to_int (length xs))
     \<and> (\<exists>p. bson_iterator_bin_data i = Some p \<and> rdn (it_mem i) p (length xs) = Some xs))"
| "reads_back i (VOid oid) = (bson_iterator_oid i = Some oid)"
| "reads_back i (VBool b) = (bson_iterator_bool i = Some (if b then 1 else 0))"
| "reads_back i (VDate d) = (bson_iterator_date i = Some d)"
| "reads_back i (VRegex p opts) = (bson_iterator_regex i = Some p \<and> bson_iterator_regex_opts i = Some opts)"
| "reads_back i (VCode s) = (bson_iterator_code i = Some (Some s))"
| "reads_back i (VSymbol s) = (bson_iterator_string i = Some s)"
| "reads_back i (VInt w) = (bson_iterator_int i = Some w \<and> bson_iterator_long i = Some (scast w))"
| "reads_back i (VTimestamp ts) = (bson_iterator_timestamp i = Some ts)"
| "reads_back i (VLong w) = (bson_iterator_long i = Some w)"
| "reads_back i _ = True"

lemma on_element_reads_back: "on_element i n v \<Longrightarrow> reads_back i v"
  by (cases v) (simp_all add: access_double access_string access_binary access_oid access_bool access_date
      access_regex access_code access_symbol access_int access_int_as_long access_timestamp access_long)

section \<open>Walking a document\<close>

text \<open>What \<open>bson_print_raw\<close> has to print for a tree.\<close>

fun print_val :: "int \<Rightarrow> bson_val \<Rightarrow> print_event list"
  and print_doc :: "int \<Rightarrow> bson_doc \<Rightarrow> print_event list" where
  "print_val depth (VDouble d) = [P_double d]"
| "print_val depth (VString s) = [P_string s]"
| "print_val depth (VObject es) = P_newline # print_doc (depth + 1) es"
| "print_val depth (VArray es) = P_newline # print_doc (depth + 1) es"
| "print_val depth (VBin t xs) = [P_bindata]"
| "print_val depth VUndefined = [P_undefined]"
| "print_val depth (VOid oid) = [P_oid (concat (map byte_to_hex oid))]"
| "print_val depth (VBool b) = [P_bool b]"
| "print_val depth (VDate d) = [P_date d]"
| "print_val depth VNull = [P_null]"
| "print_val depth (VRegex p opts) = [P_regex p]"
| "print_val depth (VCode s) = [P_code (Some s)]"
| "print_val depth (VSymbol s) = [P_symbol s]"
| "print_val depth (VCodeWScope s es) = P_code_w_scope (Some s) # P_scope # print_doc 0 es"
| "print_val depth (VInt i) = [P_int i]"
| "print_val depth (VTimestamp ts) = [P_timestamp (ts_i ts) (ts_t ts)]"
| "print_val depth (VLong i) = [P_long i]"
| "print_doc depth [] = []"
| "print_doc depth ((n, v) # es) = replicate (nat (depth + 1)) P_tab @ [P_key n (val_type v)]
     @ print_val depth v @ [P_newline] @ print_doc depth es"

text \<open>Loop iterations a walk needs: one per element and one per end of document.\<close>

fun val_fuel :: "bson_val \<Rightarrow> nat" and doc_fuel :: "bson_doc \<Rightarrow> nat" where
  "val_fuel (VObject es) = doc_fuel es"
| "val_fuel (VArray es) = doc_fuel es"
| "val_fuel (VCodeWScope s es) = doc_fuel es"
| "val_fuel _ = 0"
| "doc_fuel [] = 1"
| "doc_fuel ((n, v) # es) = 1 + val_fuel v + doc_fuel es"

lemma hex_no_nul: "0 \<notin> set (byte_to_hex c)"
proof -
  have "0 \<notin> set hex_digits" "length hex_digits = 16" by (simp_all add: hex_digits_def)
  then have "hex_digits ! n \<noteq> 0" if "n < 16" for n using that nth_mem by metis
  then show ?thesis using nibble_bounds [of c] by (simp add: byte_to_hex_def)
qed

lemma print_simple:
  assumes on: "on_element i n v"
    and t: "val_type v \<noteq> BSON_OBJECT" "val_type v \<noteq> BSON_ARRAY" "val_type v \<noteq> BSON_CODEWSCOPE"
  shows "print_value i (val_type v) = Some (print_val depth v)"
proof (cases v)
  case (VOid oid)
  have "cstring (concat (map byte_to_hex oid) @ [0]) 0 = Some (concat (map byte_to_hex oid))"
    using cstring_located [OF located_mid [of "[]" _ "[]", simplified]] hex_no_nul by simp
  then show ?thesis using VOid on by (simp add: print_value_def access_oid bson_oid_to_string_def)
next
  case (VBool b)
  then show ?thesis using on by (simp add: print_value_def access_bool)
qed (use on t in \<open>simp_all add: print_value_def access_double access_long access_int access_date
  access_timestamp access_string access_symbol access_code access_regex\<close>)

text \<open>Inner documents are smaller than the document around them.\<close>

definition doc_small :: "bson_doc \<Rightarrow> bool" where
  "doc_small es \<longleftrightarrow> int (length (elems_bytes es) + 5) \<le> INT_MAX"

lemma small_parts:
  assumes "doc_small ((n, v) # es)"
  shows "small v" "doc_small es"
  using assms by (simp_all add: doc_small_def small_def)

lemma small_inner:
  "small (VObject es) \<Longrightarrow> doc_small es" "small (VArray es) \<Longrightarrow> doc_small es"
  "small (VCodeWScope s es) \<Longrightarrow> doc_small es"
  by (simp_all add: small_def doc_small_def Let_def)

lemma located_doc:
  assumes "located m p (doc_bytes xs)"
  shows "located m (p + 4) (xs @ [0])"
  using located_suffix [of m p "wire32 (to_int (length xs + 5))" "xs @ [0]"] assms
  by (simp add: doc_bytes_def)

lemma located_drop0: "located m p xs \<Longrightarrow> located (drop (nat p) m) 0 xs"
  by (auto simp: located_def)

lemma memory_at_located: "located m p xs \<Longrightarrow> memory_at m p = Some (drop (nat p) m)"
  by (simp add: memory_at_def located_def)

lemma data_size_located:
  "located d 0 (wire32 w @ xs) \<Longrightarrow> bson_finished_data_size d = Some (sint w)"
  using rdn_located [OF located_prefix, of d 0 "wire32 w" xs] by (simp add: bson_finished_data_size_def)

text \<open>The scope of a code value is found behind the code.\<close>

lemma access_code_w_scope:
  assumes "on_element i n (VCodeWScope s es)"
  shows "bson_iterator_code i = Some (Some s)"
    and "\<exists>sc m'. bson_iterator_code_scope_init A i False = Some sc \<and> b_data sc = Some m'
      \<and> located m' 0 (doc_bytes (elems_bytes es))"
proof -
  let ?d = "doc_bytes (elems_bytes es)"
  obtain q where q: "bson_iterator_type i = Some BSON_CODEWSCOPE" "bson_iterator_value i = Some q"
      "located (it_mem i) q (val_bytes (VCodeWScope s es))" "0 \<notin> set s" "small (VCodeWScope s es)"
    using assms by (elim on_element_cases) simp
  have body: "located (it_mem i) (q + 4) (string_body s)"
      "located (it_mem i) (q + 9 + int (length s)) ?d"
    using q(3) by (simp_all add: Let_def located_append ac_simps)
  then show "bson_iterator_code i = Some (Some s)"
    using q located_string_body [OF body(1) q(4)] by (simp add: bson_iterator_code_def add.commute)
  have len: "bson_finished_data_size (drop (nat (q + 4)) (it_mem i)) = Some (int (length s) + 1)"
    using data_size_located [OF located_drop0 [OF body(1), unfolded string_body_def]] q(5)
    by (simp add: sint_to_int small_def Let_def)
  have at: "q + 8 + (int (length s) + 1) = q + 9 + int (length s)" by simp
  have "located (drop (nat (q + 9 + int (length s))) (it_mem i)) 0 ?d"
    using located_drop0 [OF body(2)] .
  moreover from this have "\<exists>k. bson_finished_data_size (drop (nat (q + 9 + int (length s))) (it_mem i)) = Some k"
    unfolding doc_bytes_def using data_size_located by blast
  ultimately show "\<exists>sc m'. bson_iterator_code_scope_init A i False = Some sc \<and> b_data sc = Some m'
      \<and> located m' 0 ?d"
    using q(1,2) len memory_at_located [OF body(1)] memory_at_located [OF body(2)]
    unfolding bson_iterator_code_scope_init_def
    by (auto simp: at bson_init_finished_data_def bson_zeroed_def)
qed

lemma on_elementI:
  "located m q (element (val_type v) n (val_bytes v)) \<Longrightarrow> 0 \<notin> set n \<Longrightarrow> val_ok v \<Longrightarrow> small v \<Longrightarrow>
   on_element (it_at m q) n v"
  by (auto simp: on_element_def)

text \<open>
  One step of a walk: the next call of \<open>bson_iterator_next\<close> stands on the first element, and the
  call after it reaches the rest.
\<close>

lemma walk_step:
  assumes "reaches i m q" and "located m q (elems_bytes ((n, v) # es) @ [0])"
    and "elems_ok ((n, v) # es)" and "doc_small ((n, v) # es)"
  obtains q' where "bson_iterator_next i = Some (val_type v, it_at m q)" "on_element (it_at m q) n v"
    "reaches (it_at m q) m q'" "located m q' (elems_bytes es @ [0])"
    "q' = q + int (length (element (val_type v) n (val_bytes v)))"
proof -
  let ?el = "element (val_type v) n (val_bytes v)"
  have loc: "located m q ?el" "located m (q + int (length ?el)) (elems_bytes es @ [0])"
    using assms(2) by (simp_all add: located_append add.assoc del: length_element)
  have v: "0 \<notin> set n" "val_ok v" "small v" using assms(3,4) small_parts(1) by auto
  show ?thesis
    using that reaches_element [OF assms(1) loc(1)] on_elementI [OF loc(1) v] reaches_next [OF loc(1) v]
      loc(2) by blast
qed

lemma print_loop_doc:
  "reaches i m q \<Longrightarrow> located m q (elems_bytes es @ [0]) \<Longrightarrow> elems_ok es \<Longrightarrow> doc_small es \<Longrightarrow>
   doc_fuel es \<le> fuel \<Longrightarrow> print_loop A fuel i depth = Done (print_doc depth es)"
proof (induction fuel arbitrary: i m q es depth)
  case 0
  then show ?case by (cases es rule: doc_fuel.cases) auto
next
  case (Suc fuel)
  show ?case
  proof (cases es)
    case Nil
    then show ?thesis using reaches_end [OF Suc.prems(1)] Suc.prems(2) by simp
  next
    case (Cons e es')
    obtain n v where e: "e = (n, v)" by force
    note prems = Suc.prems [unfolded Cons e]
    obtain q' where st: "bson_iterator_next i = Some (val_type v, it_at m q)"
        "on_element (it_at m q) n v" "reaches (it_at m q) m q'" "located m q' (elems_bytes es' @ [0])"
      using walk_step [OF prems(1-4)] by blast
    have rest: "print_loop A fuel (it_at m q) depth = Done (print_doc depth es')"
      using Suc.IH [OF st(3,4)] prems small_parts by auto
    have key: "cstring m (bson_iterator_key (it_at m q)) = Some n"
      using access_key [OF st(2)] by simp
    obtain p where p: "bson_iterator_value (it_at m q) = Some p" "located m p (val_bytes v)" "small v"
        "val_ok v"
      using st(2) by (elim on_element_cases) simp
    have inner: "print_loop A fuel (bson_iterator_from_buffer m' p') d = Done (print_doc d es1)"
      if "located m' p' (doc_bytes (elems_bytes es1))" "elems_ok es1" "doc_small es1"
        "doc_fuel es1 \<le> fuel" for m' p' d es1
      using Suc.IH [OF reaches_first located_doc [OF that(1)] that(2-4)] .
    have body: "bind_outcome
           (if val_type v = BSON_OBJECT \<or> val_type v = BSON_ARRAY then
              lift_fault (bson_iterator_value (it_at m q)) (\<lambda>p.
                bind_outcome (print_loop A fuel (bson_iterator_from_buffer (it_mem (it_at m q)) p) (depth + 1)) (\<lambda>es.
                  Done (P_newline # es)))
            else if val_type v = BSON_CODEWSCOPE then
              lift_fault (bson_iterator_code (it_at m q)) (\<lambda>code.
                lift_fault (bson_iterator_code_scope_init A (it_at m q) False) (\<lambda>scope.
                  lift_fault (bson_iterator_init scope) (\<lambda>sc.
                    bind_outcome (print_loop A fuel sc 0) (\<lambda>es.
                      Done (P_code_w_scope code # P_scope # es)))))
            else lift_fault (print_value (it_at m q) (val_type v)) Done) k
        = k (print_val depth v)" for k
    proof (cases v)
      case (VObject es1)
      then show ?thesis using p prems inner [of m p es1] small_inner by simp
    next
      case (VArray es1)
      then show ?thesis using p prems inner [of m p es1] small_inner by simp
    next
      case (VCodeWScope s es1)
      then have on: "on_element (it_at m q) n (VCodeWScope s es1)" using st(2) by simp
      obtain sc m' where "bson_iterator_code_scope_init A (it_at m q) False = Some sc"
          "b_data sc = Some m'" "located m' 0 (doc_bytes (elems_bytes es1))"
        using access_code_w_scope(2) [OF on, of A] by blast
      then show ?thesis
        using VCodeWScope access_code_w_scope(1) [OF on] prems small_inner(3) p inner [of m' 0 es1]
        by (simp add: bson_iterator_init_def)
    qed (use print_simple [OF st(2), of depth] in simp_all)
    show ?thesis
      using Cons e st(1) key rest by (simp add: Let_def body split del: if_split)
  qed
qed

lemma print_raw_doc:
  "located m p (doc_bytes (elems_bytes es)) \<Longrightarrow> elems_ok es \<Longrightarrow> doc_small es \<Longrightarrow> doc_fuel es \<le> fuel \<Longrightarrow>
   bson_print_raw A fuel m p depth = Done (print_doc depth es)"
  unfolding bson_print_raw_def by (rule print_loop_doc [OF reaches_first located_doc])

end
