(* ===== verification/Bson_Roundtrip.thy ===== *)
theory Bson_Roundtrip
  imports Bson_Doc
begin

text \<open>
  Builder and reader together: the builder calls that write a document tree, what the finished
  block holds, \<open>bson_find\<close> on it, elements copied with \<open>bson_append_element\<close>, and what the
  reader does on blocks no builder made.
\<close>

section \<open>Writing a tree\<close>

definition finished_bson :: "byte list \<Rightarrow> bson" where
  "finished_bson d = bson_zeroed\<lparr>b_data := Some d, b_dataSize := int (length d), b_finished := True\<rparr>"

fun val_calls :: "byte list \<Rightarrow> bson_val \<Rightarrow> api_call list" and doc_calls :: "bson_doc \<Rightarrow> api_call list" where
  "val_calls n (VDouble d) = [Append_double n d]"
| "val_calls n (VString s) = [Append_string n s]"
| "val_calls n (VObject es) = Start_object n # doc_calls es @ [Finish_object]"
| "val_calls n (VArray es) = Start_array n # doc_calls es @ [Finish_array]"
| "val_calls n (VBin t xs) = [Append_binary n t xs]"
| "val_calls n VUndefined = [Append_undefined n]"
| "val_calls n (VOid oid) = [Append_oid n oid]"
| "val_calls n (VBool b) = [Append_bool n (if b then 1 else 0)]"
| "val_calls n (VDate d) = [Append_date n d]"
| "val_calls n VNull = [Append_null n]"
| "val_calls n (VRegex p opts) = [Append_regex n p opts]"
| "val_calls n (VCode s) = [Append_code n s]"
| "val_calls n (VSymbol s) = [Append_symbol n s]"
| "val_calls n (VCodeWScope s es) = [Append_code_w_scope n s (finished_bson (doc_bytes (elems_bytes es)))]"
| "val_calls n (VInt i) = [Append_int n i]"
| "val_calls n (VTimestamp ts) = [Append_timestamp n ts]"
| "val_calls n (VLong i) = [Append_long n i]"
| "doc_calls [] = []"
| "doc_calls ((n, v) # es) = val_calls n v @ doc_calls es"

text \<open>The strings the builder checks.\<close>

fun val_utf8 :: "bson_val \<Rightarrow> bool" and doc_utf8 :: "bson_doc \<Rightarrow> bool" where
  "val_utf8 (VString s) = utf8_accepted s"
| "val_utf8 (VObject es) = doc_utf8 es"
| "val_utf8 (VArray es) = doc_utf8 es"
| "val_utf8 (VRegex p opts) = utf8_accepted p"
| "val_utf8 (VCode s) = utf8_accepted s"
| "val_utf8 (VSymbol s) = utf8_accepted s"
| "val_utf8 _ = True"
| "doc_utf8 [] = True"
| "doc_utf8 ((n, v) # es) = (utf8_accepted n \<and> val_utf8 v \<and> doc_utf8 es)"

lemma add_bytes_add [simp]: "add_bytes ys (add_bytes xs d) = add_bytes (xs @ ys) d"
  by (cases "(xs, d)" rule: add_bytes.cases) auto

lemma add_bytes_Nil [simp]: "add_bytes [] d = d"
  by (cases "([] :: byte list, d)" rule: add_bytes.cases) auto

lemma add_bytes_frame [simp]:
  "add_bytes xs (tp, (t, n, es) # fs) = (tp, (t, n, es @ xs) # fs)" by simp

lemma open_step_element [simp]:
  "call_element c = Some xs \<Longrightarrow> open_step c d = add_bytes xs d"
  by (cases c; cases d) auto

lemma fold_calls:
  "fold open_step (val_calls n v) d = add_bytes (element (val_type v) n (val_bytes v)) d"
  "fold open_step (doc_calls es) d = add_bytes (elems_bytes es) d"
proof (induction n v and es arbitrary: d and d rule: val_calls_doc_calls.induct)
  case (3 n es)
  show ?case by (cases d) (simp add: 3)
next
  case (4 n es)
  show ?case by (cases d) (simp add: 4)
qed (simp_all add: finished_bson_def Let_def)

lemma cost_calls:
  "sum_list (map call_cost (val_calls n v)) = length (element (val_type v) n (val_bytes v))"
  "sum_list (map call_cost (doc_calls es)) = length (elems_bytes es)"
  by (induction n v and es rule: val_calls_doc_calls.induct)
    (simp_all add: call_cost_def finished_bson_def Let_def)

lemma depth_append:
  "depth_after k (cs @ cs') = (case depth_after k cs of None \<Rightarrow> None | Some k' \<Rightarrow> depth_after k' cs')"
  by (induction k cs rule: depth_after.induct) auto

lemma depth_calls:
  "depth_after k (val_calls n v) = Some k" "depth_after k (doc_calls es) = Some k"
  by (induction n v and es arbitrary: k and k rule: val_calls_doc_calls.induct)
    (simp_all add: depth_append)

lemma sized_doc_bytes: "int (length xs + 5) \<le> INT_MAX \<Longrightarrow> sized (doc_bytes xs)"
  by (simp add: sized_def) (simp add: doc_bytes_def)

lemma clean_calls:
  "utf8_accepted n \<Longrightarrow> val_utf8 v \<Longrightarrow> val_ok v \<Longrightarrow>
   int (length (element (val_type v) n (val_bytes v))) \<le> max_doc \<Longrightarrow> \<forall>c \<in> set (val_calls n v). call_clean c"
  "doc_utf8 es \<Longrightarrow> elems_ok es \<Longrightarrow> int (length (elems_bytes es)) \<le> max_doc \<Longrightarrow>
   \<forall>c \<in> set (doc_calls es). call_clean c"
proof (induction n v and es rule: val_calls_doc_calls.induct)
  case (14 n s es)
  then have "sized (doc_bytes (elems_bytes es))"
    by (intro sized_doc_bytes) (simp add: max_doc_def INT_MAX_def Let_def)
  with 14 show ?case
    by (simp add: call_clean_def finished_bson_def short_def max_doc_def INT32_MAX_def Let_def)
qed (auto simp: call_clean_def short_def max_doc_def string_body_def regex_body_def binary_body_def
    split: if_splits)

text \<open>Building a tree: every call succeeds and the finished block is the encoded document.\<close>

lemma build_doc:
  assumes A: "allocator_ok A" "allocator_total A" and es: "elems_ok es" "doc_utf8 es"
    and small: "int (length (elems_bytes es)) + 5 \<le> max_doc"
  obtains b b' m where "api_run A (snd (bson_init A)) (doc_calls es)
      = Some (replicate (length (doc_calls es)) BSON_OK, b)"
    "bson_finish A b = Some (BSON_OK, b')" "b_data b' = Some m" "b_finished b'" "build_inv b'"
    "located m 0 (doc_bytes (elems_bytes es))"
proof -
  have "\<exists>b b'. api_run A (snd (bson_init A)) (doc_calls es)
      = Some (replicate (length (doc_calls es)) BSON_OK, b)
     \<and> bson_finish A b = Some (BSON_OK, b') \<and> b_finished b' \<and> build_inv b'
     \<and> written b' = doc_bytes (fst (fold open_step (doc_calls es) ([], [])))"
    using build_complete [OF A, of "doc_calls es"] clean_calls(2) [OF es(2,1)] small
    by (simp add: cost_calls depth_calls)
  then obtain b b' where b: "api_run A (snd (bson_init A)) (doc_calls es)
      = Some (replicate (length (doc_calls es)) BSON_OK, b)" "bson_finish A b = Some (BSON_OK, b')"
      "b_finished b'" "build_inv b'" "written b' = doc_bytes (elems_bytes es)"
    by (auto simp: fold_calls)
  then obtain m where m: "b_data b' = Some m" "take (b_cur b') m = doc_bytes (elems_bytes es)"
    using written_data [OF b(4)] by auto
  then have "located m 0 (doc_bytes (elems_bytes es))"
    using length_written [OF b(4)] b(5) unfolding located_def
    by (metis (no_types, lifting) add_0 drop0 length_take min.cobounded1 nat_0 of_nat_le_iff order_refl)
  then show ?thesis using that b m by blast
qed

section \<open>Finding a field\<close>

lemma strcmp_located:
  "located m p (n @ [0]) \<Longrightarrow> 0 \<notin> set n \<Longrightarrow> 0 \<notin> set s \<Longrightarrow> strcmp_eq s m p = Some (s = n)"
proof (induction s arbitrary: n p)
  case Nil
  show ?case
  proof (cases n)
    case Nil
    then show ?thesis using Nil.prems by (simp add: rd_located)
  next
    case (Cons y n')
    then have "located m p [y]" using Nil.prems(1) located_ConsD [of m p y "n' @ [0]"] by simp
    then show ?thesis using Cons Nil.prems(2) by (auto simp: rd_located)
  qed
next
  case (Cons x s)
  show ?case
  proof (cases n)
    case Nil
    then show ?thesis using Cons.prems by (auto simp: rd_located)
  next
    case (Cons y n')
    then have "located m p [y]" "located m (p + 1) (n' @ [0])"
      using Cons.prems(1) located_ConsD [of m p y "n' @ [0]"] by simp_all
    then show ?thesis using Cons.IH [of "p + 1" n'] Cons.prems Cons by (auto simp: rd_located)
  qed
qed

definition lookup_doc :: "byte list \<Rightarrow> bson_doc \<Rightarrow> bson_val option" where
  "lookup_doc name es = map_of es name"

text \<open>The result of a search of an encoded document.\<close>

definition find_result :: "byte list \<Rightarrow> bson_doc \<Rightarrow> byte list \<Rightarrow> (bson_type \<times> bson_iterator) outcome \<Rightarrow> bool" where
  "find_result m es name res \<longleftrightarrow> (case lookup_doc name es of
      None \<Rightarrow> (\<exists>it. res = Done (BSON_EOO, it))
    | Some v \<Rightarrow> (\<exists>it. res = Done (val_type v, it) \<and> on_element it name v \<and> it_mem it = m))"

lemma find_loop_doc:
  "reaches i m q \<Longrightarrow> located m q (elems_bytes es @ [0]) \<Longrightarrow> elems_ok es \<Longrightarrow> doc_small es \<Longrightarrow>
   0 \<notin> set name \<Longrightarrow> length es < fuel \<Longrightarrow>
   find_result m es name (find_loop fuel i name)"
proof (induction fuel arbitrary: i q es)
  case 0
  then show ?case by simp
next
  case (Suc fuel)
  show ?case
  proof (cases es)
    case Nil
    have "bson_iterator_type (it_at m q) = Some BSON_EOO"
      using Suc.prems(2) Nil by (simp add: bson_iterator_type_def rd_located char_type_EOO_iff)
    then show ?thesis
      using Nil reaches_end [OF Suc.prems(1)] Suc.prems(2) by (simp add: lookup_doc_def find_result_def)
  next
    case (Cons e es')
    obtain n v where e: "e = (n, v)" by force
    note prems = Suc.prems [unfolded Cons e]
    obtain q' where st: "bson_iterator_next i = Some (val_type v, it_at m q)"
        "on_element (it_at m q) n v" "reaches (it_at m q) m q'" "located m q' (elems_bytes es' @ [0])"
      using walk_step [OF prems(1-4)] by blast
    have el: "located m q (element (val_type v) n (val_bytes v))" "0 \<notin> set n"
      using prems(2,3) by (simp_all add: located_append)
    have cmp: "strcmp_eq name m (bson_iterator_key (it_at m q)) = Some (name = n)"
      using strcmp_located [OF element_parts(2) [OF el(1)] el(2) prems(5)]
      by (simp add: bson_iterator_key_def)
    show ?thesis
    proof (cases "name = n")
      case True
      then show ?thesis
        using Cons e st(1,2) cmp iter_type [OF el(1)]
        by (simp add: lookup_doc_def find_result_def)
    next
      case False
      moreover have "length es' < fuel" using prems(6) by simp
      moreover have "elems_ok es'" "doc_small es'" using prems(3,4) small_parts by auto
      moreover have "find_loop (Suc fuel) i name = find_loop fuel (it_at m q) name"
        using False st(1) cmp by simp
      moreover have "lookup_doc name es = lookup_doc name es'"
        using False Cons e by (simp add: lookup_doc_def)
      ultimately show ?thesis
        using Suc.IH [OF st(3,4)] prems(5) by (simp add: find_result_def del: find_loop.simps)
    qed
  qed
qed

lemma bson_find_doc:
  assumes "b_data b = Some m" and "located m 0 (doc_bytes (elems_bytes es))"
    and "elems_ok es" "doc_small es" "0 \<notin> set name" "length es < fuel"
  shows "find_result m es name (bson_find fuel b name)"
proof -
  have "bson_find fuel b name = find_loop fuel (bson_iterator_from_buffer m 0) name"
    using assms(1) by (simp add: bson_find_def bson_iterator_init_def)
  then show ?thesis
    using find_loop_doc [OF reaches_first located_doc [OF assms(2)] assms(3-6)] by simp
qed

section \<open>Copying elements\<close>

lemma size_t_id: "0 \<le> x \<Longrightarrow> x < 2 ^ 64 \<Longrightarrow> size_t x = nat x"
  by (simp add: size_t_def)

lemma append_element_parts:
  assumes el: "located m q (element (val_type v) n (val_bytes v) @ [c])"
    and n: "0 \<notin> set n" and v: "val_ok v" "small v" and short: "short n"
  shows "bson_append_element A b (Some name) (it_at m q) = do {
      (_, b) \<leftarrow> bson_append_estart A b (val_type v) name (length (val_bytes v));
      b \<leftarrow> bson_append b (val_bytes v);
      ok b }"
proof -
  let ?len = "length (element (val_type v) n (val_bytes v))"
  have loc: "located m q (element (val_type v) n (val_bytes v))" "located m (q + int ?len) [c]"
    using el by (simp_all add: located_append del: length_element)
  have nx: "bson_iterator_next (it_at m q) = Some (char_type c, it_at m (q + int ?len))"
    using reaches_next [OF loc(1) n v] rd_located [OF loc(2)] by (simp add: reaches_def)
  have "int ?len < 2 ^ 64"
    using v(2) short by (simp add: small_def short_def INT_MAX_def)
  then have ds: "size_t (int (size_t (int ?len)) - 2 - int (length n)) = length (val_bytes v)"
    by (simp add: size_t_id)
  have val: "rdn m (q + 2 + int (length n)) (length (val_bytes v)) = Some (val_bytes v)"
    by (rule rdn_located [OF element_parts(3) [OF loc(1)]])
  show ?thesis
    using nx ds val iter_type [OF loc(1)] iter_value [OF loc(1) n] iter_key [OF loc(1) n]
    by (simp add: bson_append_element_def bson_iterator_key_def Let_def del: length_element)
qed

lemma append_element_copies:
  assumes el: "located m q (element (val_type v) n (val_bytes v) @ [c])"
    and n: "0 \<notin> set n" "short n" and v: "val_ok v" "small v"
    and b: "build_inv b" "allocator_ok A" "allocator_total A" and name: "short name"
    and acc: "accepts b name (length (val_bytes v))"
  shows "\<exists>b'. bson_append_element A b (Some name) (it_at m q) = Some (BSON_OK, b') \<and> build_inv b'
      \<and> written b' = written b @ element (val_type v) name (val_bytes v)"
proof -
  have "length name + length (val_bytes v) < 2 ^ 62"
    using name v(2) by (simp add: short_def small_def INT_MAX_def)
  from with_estart_appends [OF b this refl, of "val_type v"] acc obtain b'
    where b': "with_estart A b (val_type v) name (length (val_bytes v))
        (\<lambda>b. bson_append b (val_bytes v) \<bind> ok) = Some (BSON_OK, b')" "build_inv b'"
      "written b' = written b @ element (val_type v) name (val_bytes v)"
    by (auto simp: appends_def)
  obtain b1 where "bson_append_estart A b (val_type v) name (length (val_bytes v)) = Some (BSON_OK, b1)"
    using estart_cases [OF b \<open>length name + length (val_bytes v) < 2 ^ 62\<close>, of "val_type v"] acc by metis
  then show ?thesis
    using b' append_element_parts [OF el n(1) v n(2), of A b name]
    by (simp add: with_estart_def)
qed

text \<open>
  \<open>bson_append_element\<close> does not look at the status of the header: on a finished builder the
  value is written without its header and the call reports success.
\<close>

lemma append_element_unchecked:
  assumes el: "located m q (element (val_type v) n (val_bytes v) @ [c])"
    and n: "0 \<notin> set n" "short n" and v: "val_ok v" "small v"
    and b: "build_inv b" "b_finished b" "int (b_cur b + length (val_bytes v)) \<le> b_dataSize b"
  shows "\<exists>b'. bson_append_element A b (Some name) (it_at m q) = Some (BSON_OK, b')
      \<and> written b' = written b @ val_bytes v"
proof -
  let ?b = "b\<lparr>b_err := b_err b OR BSON_ALREADY_FINISHED\<rparr>"
  have "build_inv ?b" "int (b_cur ?b + length (val_bytes v)) \<le> b_dataSize ?b" using b by simp_all
  from append_ok [OF this] obtain b' where "bson_append ?b (val_bytes v) = Some b'"
      "written b' = written ?b @ val_bytes v" by metis
  then show ?thesis
    using append_element_parts [OF el n(1) v n(2), of A b name] b(2)
    by (simp add: bson_append_estart_def ok_def)
qed

section \<open>Blocks no builder made\<close>

text \<open>A type byte above 127 is a negative index into the table of decimal strings.\<close>

lemma next_type_byte_faults:
  assumes "rd m q = Some c" and "128 \<le> c"
  shows "bson_iterator_next (it_at m q) = None"
proof -
  have c: "128 \<le> unat c" "unat c < 256"
    using assms(2) unsigned_less [of c] by (simp_all add: word_le_nat_alt)
  then have "unat c div 128 = 1" by simp
  then have "bit (unat c) 7" by (simp add: bit_iff_odd)
  then have "bit c 7" by (simp add: bit_unsigned_iff)
  then have "sint c < 0" by (simp add: sint_uint bit_unsigned_iff)
  moreover have "\<not> unat c < 19" using c by simp
  ultimately have t: "bson_iterator_type (it_at m q) = Some (BSON_OTHER c)" "sint c < 0"
    using assms(1) by (simp_all add: bson_iterator_type_def char_type_def)
  then show ?thesis by (simp add: bson_iterator_next_def value_size_def numstr_negative)
qed

text \<open>
  Every other step moves forward when the size read from the block is not negative, so a search
  returns or faults.
\<close>

definition sizes_nonneg :: "byte list \<Rightarrow> bool" where
  "sizes_nonneg m \<longleftrightarrow> (\<forall>q t ds. bson_iterator_type (it_at m q) = Some t \<longrightarrow>
     value_size (it_at m q) t = Some (Inr ds) \<longrightarrow> 0 \<le> ds)"

lemma next_progress:
  assumes "sizes_nonneg m" and "bson_iterator_next (it_at m q) = Some (t, i)" and "t \<noteq> BSON_EOO"
  obtains q' where "i = it_at m q'" "q < q'" "0 \<le> q'" "q' < int (length m)"
proof -
  from assms(2,3) obtain t0 r where r: "bson_iterator_type (it_at m q) = Some t0"
      "value_size (it_at m q) t0 = Some r" "t0 \<noteq> BSON_EOO"
    by (auto simp: bson_iterator_next_def Option.bind_eq_Some_conv split: if_splits)
  with assms(2,3) obtain ds where ds: "r = Inr ds"
    by (cases r) (simp_all add: bson_iterator_next_def)
  with assms(2,3) r obtain n where st: "bson_iterator_type (it_at m q) = Some t0"
      "value_size (it_at m q) t0 = Some (Inr ds)" "i = (it_at m q)\<lparr>it_cur := q + 1 + int n + 1 + ds\<rparr>"
      "bson_iterator_type i = Some t"
    by (auto simp: bson_iterator_next_def Let_def Option.bind_eq_Some_conv)
  have "0 \<le> ds" using assms(1) st(1,2) by (simp add: sizes_nonneg_def)
  moreover have "i = it_at m (q + 1 + int n + 1 + ds)" using st(3) by (simp add: it_at_def)
  moreover from this have "0 \<le> q + 1 + int n + 1 + ds \<and> q + 1 + int n + 1 + ds < int (length m)"
    using st(4) by (auto simp: bson_iterator_type_def rd_def split: if_splits)
  ultimately show ?thesis using that by auto
qed

lemma find_loop_returns:
  "sizes_nonneg m \<Longrightarrow> nat (int (length m) - q) < fuel \<Longrightarrow> q < int (length m) \<Longrightarrow>
   find_loop fuel (it_at m q) name \<noteq> Timeout"
proof (induction fuel arbitrary: q)
  case 0
  then show ?case by simp
next
  case (Suc fuel)
  show ?case
  proof (cases "bson_iterator_next (it_at m q)")
    case (Some r)
    obtain t i where r: "r = (t, i)" by force
    show ?thesis
    proof (cases "t = BSON_EOO")
      case True
      then show ?thesis using Some r by (cases "bson_iterator_type i") simp_all
    next
      case False
      obtain q' where q': "i = it_at m q'" "q < q'" "0 \<le> q'" "q' < int (length m)"
        using next_progress [OF Suc.prems(1) _ False] Some r by metis
      have "find_loop fuel i name \<noteq> Timeout"
        using Suc.IH [OF Suc.prems(1), of q'] Suc.prems(2) q' by simp
      then show ?thesis
        using Some r False
        by (cases "strcmp_eq name (it_mem i) (bson_iterator_key i)"; cases "bson_iterator_type i") simp_all
    qed
  qed simp
qed

lemma bson_find_returns:
  assumes "b_data b = Some m" and "sizes_nonneg m"
  shows "bson_find (length m + 3) b name \<noteq> Timeout"
proof -
  have "find_loop (length m + 3) (bson_iterator_from_buffer m 0) name \<noteq> Timeout"
  proof (cases "rd m 4")
    case None
    then show ?thesis using reaches_first [of m 0] by (simp add: reaches_def numeral_3_eq_3)
  next
    case (Some c)
    then have nx: "bson_iterator_next (bson_iterator_from_buffer m 0) = Some (char_type c, it_at m 4)"
      using reaches_first [of m 0] by (simp add: reaches_def)
    have "4 < int (length m)" using Some by (auto simp: rd_def split: if_splits)
    then have "find_loop (length m + 2) (it_at m 4) name \<noteq> Timeout"
      using find_loop_returns [OF assms(2), of 4 "length m + 2"] by simp
    then show ?thesis
      using nx by (cases "strcmp_eq name m (bson_iterator_key (it_at m 4))";
          cases "bson_iterator_type (it_at m 4)") (simp_all add: numeral_3_eq_3)
  qed
  then show ?thesis using assms(1) by (simp add: bson_find_def bson_iterator_init_def)
qed

text \<open>A string whose size field is -7 leads the iterator back to itself.\<close>

definition looping_block :: "byte list" where
  "looping_block = [0, 0, 0, 13, 2, 0x61, 0, 0xFF, 0xFF, 0xFF, 0xF9, 0, 0]"

lemma looping_next: "bson_iterator_next (it_at looping_block 4) = Some (BSON_STRING, it_at looping_block 4)"
  by code_simp

end
