(* ===== verification/Bson_Walk.thy ===== *)
theory Bson_Walk
  imports Bson_Roundtrip
begin

text \<open>
  A client's walk over a document with the iterator and the typed accessors of \<open>bson.h\<close>: every value is
  asked for with the accessors of its type, the data of a binary and the options of a regular
  expression included, which \<open>bson_print\<close> does not show.
\<close>

section \<open>The walk\<close>

definition read_leaf :: "bson_iterator \<Rightarrow> bson_type \<Rightarrow> bson_val option" where
  "read_leaf i t =
     (case t of
        BSON_DOUBLE \<Rightarrow> map_option VDouble (bson_iterator_double i)
      | BSON_STRING \<Rightarrow> map_option VString (bson_iterator_string i)
      | BSON_BINDATA \<Rightarrow> do {
          subtype \<leftarrow> bson_iterator_bin_type i;
          n \<leftarrow> bson_iterator_bin_len i;
          p \<leftarrow> bson_iterator_bin_data i;
          map_option (VBin subtype) (rdn (it_mem i) p (nat (sint n))) }
      | BSON_UNDEFINED \<Rightarrow> Some VUndefined
      | BSON_OID \<Rightarrow> map_option VOid (bson_iterator_oid i)
      | BSON_BOOL \<Rightarrow> map_option (\<lambda>b. VBool (b \<noteq> 0)) (bson_iterator_bool i)
      | BSON_DATE \<Rightarrow> map_option VDate (bson_iterator_date i)
      | BSON_NULL \<Rightarrow> Some VNull
      | BSON_REGEX \<Rightarrow> do {
          p \<leftarrow> bson_iterator_regex i;
          map_option (VRegex p) (bson_iterator_regex_opts i) }
      | BSON_CODE \<Rightarrow> bson_iterator_code i \<bind> map_option VCode
      | BSON_SYMBOL \<Rightarrow> map_option VSymbol (bson_iterator_string i)
      | BSON_INT \<Rightarrow> map_option VInt (bson_iterator_int i)
      | BSON_TIMESTAMP \<Rightarrow> map_option VTimestamp (bson_iterator_timestamp i)
      | BSON_LONG \<Rightarrow> map_option VLong (bson_iterator_long i)
      | _ \<Rightarrow> None)"

fun read_loop :: "allocator \<Rightarrow> nat \<Rightarrow> bson_iterator \<Rightarrow> bson_doc outcome" where
  "read_loop A 0 i = Timeout"
| "read_loop A (Suc fuel) i =
     lift_fault (bson_iterator_next i) (\<lambda>(t, i).
       if t = BSON_EOO then Done []
       else lift_fault (cstring (it_mem i) (bson_iterator_key i)) (\<lambda>key.
         bind_outcome
           (if t = BSON_OBJECT \<or> t = BSON_ARRAY then
              lift_fault (bson_iterator_subiterator i) (\<lambda>sub.
                bind_outcome (read_loop A fuel sub) (\<lambda>es.
                  Done (if t = BSON_OBJECT then VObject es else VArray es)))
            else if t = BSON_CODEWSCOPE then
              lift_fault (bson_iterator_code i \<bind> id) (\<lambda>code.
                lift_fault (bson_iterator_code_scope_init A i False) (\<lambda>scope.
                  lift_fault (bson_iterator_init scope) (\<lambda>sc.
                    bind_outcome (read_loop A fuel sc) (\<lambda>es. Done (VCodeWScope code es)))))
            else lift_fault (read_leaf i t) Done)
           (\<lambda>v. bind_outcome (read_loop A fuel i) (\<lambda>rest. Done ((key, v) # rest)))))"

definition read_bson :: "allocator \<Rightarrow> nat \<Rightarrow> bson \<Rightarrow> bson_doc outcome" where
  "read_bson A fuel b = lift_fault (bson_iterator_init b) (read_loop A fuel)"

section \<open>It gives back the tree\<close>

lemma read_leaf_value:
  assumes on: "on_element i n v" and t: "val_type v \<noteq> BSON_OBJECT" "val_type v \<noteq> BSON_ARRAY" "val_type v \<noteq> BSON_CODEWSCOPE"
  shows "read_leaf i (val_type v) = Some v"
proof (cases v)
  case (VBin subtype xs)
  then obtain p where p: "bson_iterator_bin_type i = Some subtype" "bson_iterator_bin_len i = Some (to_int (length xs))"
      "bson_iterator_bin_data i = Some p" "rdn (it_mem i) p (length xs) = Some xs"
    using access_binary on by blast
  have "small v" using on by (auto simp: on_element_def)
  then have "int (length xs) \<le> INT_MAX" by (auto simp: VBin small_def binary_body_def split: if_splits)
  then have "nat (sint (to_int (length xs))) = length xs" by (simp add: sint_to_int)
  then show ?thesis using p VBin by (simp add: read_leaf_def)
next
  case (VBool b)
  then show ?thesis using on by (simp add: read_leaf_def access_bool)
qed (use on t in \<open>simp_all add: read_leaf_def access_double access_string access_oid access_date access_regex
  access_code access_symbol access_int access_timestamp access_long\<close>)

lemma read_loop_doc:
  "reaches i m q \<Longrightarrow> located m q (elems_bytes es @ [0]) \<Longrightarrow> elems_ok es \<Longrightarrow> doc_small es \<Longrightarrow>
   doc_fuel es \<le> fuel \<Longrightarrow> read_loop A fuel i = Done es"
proof (induction fuel arbitrary: i m q es)
  case 0
  then show ?case by (cases es rule: doc_fuel.cases) auto
next
  case (Suc fuel)
  show ?case
  proof (cases es)
    case Nil
    then show ?thesis using reaches_end [OF Suc.prems(1)] Suc.prems(2) by simp
  next
    case (Cons e es')
    obtain n v where e: "e = (n, v)" by force
    note prems = Suc.prems [unfolded Cons e]
    obtain q' where st: "bson_iterator_next i = Some (val_type v, it_at m q)"
        "on_element (it_at m q) n v" "reaches (it_at m q) m q'" "located m q' (elems_bytes es' @ [0])"
      using walk_step [OF prems(1-4)] by blast
    have rest: "read_loop A fuel (it_at m q) = Done es'"
      using Suc.IH [OF st(3,4)] prems small_parts by auto
    have key: "cstring m (bson_iterator_key (it_at m q)) = Some n"
      using access_key [OF st(2)] by simp
    obtain p where p: "bson_iterator_value (it_at m q) = Some p" "located m p (val_bytes v)" "small v" "val_ok v"
      using st(2) by (elim on_element_cases) simp
    have inner: "read_loop A fuel (bson_iterator_from_buffer m' p') = Done es1"
      if "located m' p' (doc_bytes (elems_bytes es1))" "elems_ok es1" "doc_small es1" "doc_fuel es1 \<le> fuel" for m' p' es1
      using Suc.IH [OF reaches_first located_doc [OF that(1)] that(2-4)] .
    have body: "(if val_type v = BSON_OBJECT \<or> val_type v = BSON_ARRAY then
              lift_fault (bson_iterator_subiterator (it_at m q)) (\<lambda>sub.
                bind_outcome (read_loop A fuel sub) (\<lambda>es.
                  Done (if val_type v = BSON_OBJECT then VObject es else VArray es)))
            else if val_type v = BSON_CODEWSCOPE then
              lift_fault (bson_iterator_code (it_at m q) \<bind> id) (\<lambda>code.
                lift_fault (bson_iterator_code_scope_init A (it_at m q) False) (\<lambda>scope.
                  lift_fault (bson_iterator_init scope) (\<lambda>sc.
                    bind_outcome (read_loop A fuel sc) (\<lambda>es. Done (VCodeWScope code es)))))
            else lift_fault (read_leaf (it_at m q) (val_type v)) Done) = Done v"
    proof (cases v)
      case (VObject es1)
      then show ?thesis using p prems inner [of m p es1] small_inner by (simp add: bson_iterator_subiterator_def)
    next
      case (VArray es1)
      then show ?thesis using p prems inner [of m p es1] small_inner by (simp add: bson_iterator_subiterator_def)
    next
      case (VCodeWScope s es1)
      then have on: "on_element (it_at m q) n (VCodeWScope s es1)" using st(2) by simp
      obtain sc m' where "bson_iterator_code_scope_init A (it_at m q) False = Some sc"
          "b_data sc = Some m'" "located m' 0 (doc_bytes (elems_bytes es1))"
        using access_code_w_scope(2) [OF on, of A] by blast
      then show ?thesis
        using VCodeWScope access_code_w_scope(1) [OF on] prems small_inner(3) p inner [of m' 0 es1]
        by (simp add: bson_iterator_init_def)
    qed (use read_leaf_value [OF st(2)] in simp_all)
    show ?thesis
      using Cons e st(1) key rest by (simp add: body split del: if_split)
  qed
qed

lemma read_located_doc:
  assumes "b_data b = Some m" "located m 0 (doc_bytes (elems_bytes es))" "elems_ok es" "doc_small es" "doc_fuel es \<le> fuel"
  shows "read_bson A fuel b = Done es"
  using read_loop_doc [OF reaches_first located_doc [OF assms(2)] assms(3-5)] assms(1)
  by (simp add: read_bson_def bson_iterator_init_def)

end
