(* ===== verification/Bson_Props.thy ===== *)
theory Bson_Props
  imports Bson_Walk
begin

text \<open>
  The properties of the BSON library, each with a run on concrete data where it has hypotheses.
\<close>

section \<open>A concrete allocator and small lemmas for concrete runs\<close>

definition plain_allocator :: allocator where
  "plain_allocator = \<lparr>al_malloc = (\<lambda>n. Some (replicate n 0)),
     al_realloc = (\<lambda>old n. Some (take n old @ replicate (n - length old) 0)), al_words = (\<lambda>n. True)\<rparr>"

lemma plain_ok [simp]: "allocator_ok plain_allocator" "allocator_total plain_allocator"
  by (auto simp: allocator_ok_def allocator_total_def plain_allocator_def min_def)

text \<open>An allocator that never enlarges a block.\<close>

definition tight_allocator :: allocator where
  "tight_allocator = plain_allocator\<lparr>al_realloc := (\<lambda>old n. None)\<rparr>"

lemma ascii_accepted: "\<forall>c \<in> set s. c < 128 \<Longrightarrow> utf8_accepted s"
proof -
  assume a: "\<forall>c \<in> set s. c < 128"
  then have "concat (map utf8_encode (map unat s)) = s"
    by (induction s) (simp_all add: utf8_encode_def word_less_nat_alt)
  moreover have "\<forall>cp \<in> set (map unat s). cp < 0x110000"
    using a by (auto simp: word_less_nat_alt)
  ultimately show ?thesis using accepted_encode by metis
qed

definition sample_doc :: bson_doc where
  "sample_doc = [([0x61], VInt 5), ([0x62], VObject [([0x63], VBool True), ([0x64], VString [0x68, 0x69])]),
     ([0x65], VCodeWScope [0x66] [([0x67], VNull)]), ([0x69], VRegex [0x6A] [0x6B]), ([0x6C], VBin 2 [0, 255])]"

lemma sample_ok: "elems_ok sample_doc" "doc_utf8 sample_doc"
    "int (length (elems_bytes sample_doc)) + 5 \<le> max_doc" "doc_fuel sample_doc \<le> 20"
    "doc_small sample_doc" "length sample_doc < 9"
  by (simp_all add: sample_doc_def ascii_accepted max_doc_def doc_small_def INT_MAX_def string_body_def
      regex_body_def binary_body_def Let_def)

section \<open>Building and reading back\<close>

text \<open>
  C1. With an allocator that never fails, writing a document tree of less than half a gigabyte, whose strings are
  accepted by the builder, through the append functions of \<open>bson.c\<close> succeeds call by call, and so does
  finishing it.  A walk with the iterator and the typed accessors then gives back the very tree: every key and
  every value, the subtypes and bytes of binaries, the options of regular expressions and the scopes of code
  included.  \<open>bson_print\<close> prints what \<open>print_doc\<close> lists for the tree, which leaves out the data of
  binaries and the options.
\<close>
theorem build_print_round_trip:
  assumes "allocator_ok A" "allocator_total A" "elems_ok es" "doc_utf8 es"
    and "int (length (elems_bytes es)) + 5 \<le> max_doc" and "doc_fuel es \<le> fuel"
  shows "\<exists>b b'. api_run A (snd (bson_init A)) (doc_calls es)
       = Some (replicate (length (doc_calls es)) BSON_OK, b)
     \<and> bson_finish A b = Some (BSON_OK, b') \<and> read_bson A fuel b' = Done es
     \<and> bson_print A fuel b' = Done (print_doc 0 es)"
proof -
  obtain b b' m where "api_run A (snd (bson_init A)) (doc_calls es)
      = Some (replicate (length (doc_calls es)) BSON_OK, b)" "bson_finish A b = Some (BSON_OK, b')"
      and m: "b_data b' = Some m" "located m 0 (doc_bytes (elems_bytes es))"
    by (rule build_doc [OF assms(1-5)])
  moreover have small: "doc_small es" using assms(5) by (simp add: doc_small_def max_doc_def INT_MAX_def)
  moreover have "bson_print A fuel b' = Done (print_doc 0 es)"
    using print_raw_doc [of m 0 es fuel A 0] assms(3,6) m small by (simp add: bson_print_def)
  ultimately show ?thesis using read_located_doc [OF m assms(3) small assms(6)] by blast
qed

theorem build_print_round_trip_witness:
  "\<exists>b b'. api_run plain_allocator (snd (bson_init plain_allocator)) (doc_calls sample_doc)
       = Some (replicate (length (doc_calls sample_doc)) BSON_OK, b)
     \<and> bson_finish plain_allocator b = Some (BSON_OK, b') \<and> read_bson plain_allocator 20 b' = Done sample_doc
     \<and> bson_print plain_allocator 20 b' = Done (print_doc 0 sample_doc)"
  by (rule build_print_round_trip) (simp_all add: sample_ok)

text \<open>
  C2. The builder refines the open-document machine, with an allocator that never fails and as long as no
  regular expression has a pattern that is not UTF-8 (such a call leaves its header behind, C9): whatever
  well-formed calls (\<open>api_call\<close>, \<open>call_ok\<close>) a client makes, in whatever order and ignoring errors, the builder never faults, keeps its
  invariant, and holds exactly the bytes and open subobjects of the machine run on the calls that
  returned \<open>BSON_OK\<close>.
\<close>
theorem builder_refines_open_document:
  assumes "allocator_ok A" "allocator_total A" and "\<forall>c \<in> set cs. call_ok c \<and> \<not> bad_regex c"
  shows "\<exists>rs b. api_run A (snd (bson_init A)) cs = Some (rs, b)
     \<and> represents b (fold open_step (accepted_calls cs rs) ([], []))"
proof -
  obtain b0 where "bson_init A = (BSON_OK, b0)" "represents b0 ([], [])"
    by (rule represents_init [OF assms(1,2)])
  then show ?thesis using api_run_refines [of b0 "([], [])" A cs] assms by auto
qed

theorem builder_refines_open_document_witness:
  "\<exists>rs b. api_run plain_allocator (snd (bson_init plain_allocator))
        [Finish_object, Start_array [0x61], Append_int [0xFF] 3, Append_int [0x30] 7] = Some (rs, b)
     \<and> represents b (fold open_step (accepted_calls
        [Finish_object, Start_array [0x61], Append_int [0xFF] 3, Append_int [0x30] 7] rs) ([], []))"
  by (rule builder_refines_open_document) (simp_all add: short_def)

text \<open>
  C3. Memory safety of the typed append, start and finish functions, with an allocator that never fails:
  after any sequence of well-formed calls of them on a new builder (\<open>api_call\<close> lists them, \<open>call_ok\<close> asks that the arguments
  are real objects and strings stay below \<open>2 ^ 50\<close> bytes), the ones with invalid strings included, no call has written outside the block, the write position lies inside it and every open size field lies inside the
  written bytes.  (\<open>bson_append_element\<close> is not one of these functions, and neither restriction can be dropped:
  \<open>append_element_leaves_block\<close>, \<open>realloc_failure_faults\<close>.)
\<close>
theorem builder_memory_safe:
  assumes "allocator_ok A" "allocator_total A" and "\<forall>c \<in> set cs. call_ok c"
  shows "\<exists>rs b d. api_run A (snd (bson_init A)) cs = Some (rs, b) \<and> b_data b = Some d
     \<and> b_cur b \<le> length d \<and> b_dataSize b = int (length d)
     \<and> (\<forall>i < b_stackPos b. b_stack b ! i + 4 \<le> b_cur b)"
proof -
  obtain b0 where "bson_init A = (BSON_OK, b0)" "represents b0 ([], [])"
    by (rule represents_init [OF assms(1,2)])
  then show ?thesis
    using api_run_safe [of b0 "([], [])" A cs] assms
    by (fastforce simp: represents_def build_inv_def block_inv_def stack_inv_def)
qed

theorem builder_memory_safe_witness:
  "\<exists>rs b d. api_run plain_allocator (snd (bson_init plain_allocator))
       [Append_regex [0x61] [0xC0] [], Start_object [0x62]] = Some (rs, b) \<and> b_data b = Some d
     \<and> b_cur b \<le> length d \<and> b_dataSize b = int (length d)
     \<and> (\<forall>i < b_stackPos b. b_stack b ! i + 4 \<le> b_cur b)"
  by (rule builder_memory_safe) (simp_all add: short_def)

text \<open>
  C4. \<open>bson_find\<close> on a finished document returns the first field of that name: its type, and an
  iterator on it, whose key is the name and whose value, unless it is an object, an array or code with scope,
  the typed accessors return (\<open>reads_back\<close>); a name the document does not have gives \<open>BSON_EOO\<close>.
\<close>
theorem find_first_field:
  assumes "b_data b = Some m" and "located m 0 (doc_bytes (elems_bytes es))"
    and "elems_ok es" "doc_small es" "0 \<notin> set name" "length es < fuel"
  shows "case map_of es name of
      None \<Rightarrow> (\<exists>it. bson_find fuel b name = Done (BSON_EOO, it))
    | Some v \<Rightarrow> (\<exists>it. bson_find fuel b name = Done (val_type v, it)
         \<and> cstring m (bson_iterator_key it) = Some name
         \<and> reads_back it v)"
proof -
  have "find_result m es name (bson_find fuel b name)" by (rule bson_find_doc [OF assms])
  then show ?thesis
    by (auto simp: find_result_def lookup_doc_def intro: on_element_reads_back
        dest: access_key split: option.splits)
qed

theorem find_first_field_witness:
  "case map_of sample_doc [0x61] of
      None \<Rightarrow> (\<exists>it. bson_find 9 (finished_bson (doc_bytes (elems_bytes sample_doc))) [0x61] = Done (BSON_EOO, it))
    | Some v \<Rightarrow> (\<exists>it. bson_find 9 (finished_bson (doc_bytes (elems_bytes sample_doc))) [0x61] = Done (val_type v, it)
         \<and> cstring (doc_bytes (elems_bytes sample_doc)) (bson_iterator_key it) = Some [0x61]
         \<and> reads_back it v)"
  by (rule find_first_field)
    (simp_all add: sample_ok finished_bson_def located_mid [of "[]" _ "[]", simplified])

section \<open>Reading blocks from the network\<close>

text \<open>
  C6. \<open>bson_find\<close> returns or faults within as many steps as the block has bytes (and three more),
  whatever the block holds, as long as no size field in it is negative.
\<close>
theorem find_returns:
  assumes "b_data b = Some m" and "sizes_nonneg m"
  shows "bson_find (length m + 3) b name \<noteq> Timeout"
  by (rule bson_find_returns [OF assms])

theorem find_returns_witness: "bson_find (length [0, 0, 0, 5, 0 :: byte] + 3) (finished_bson [0, 0, 0, 5, 0]) [0x61] \<noteq> Timeout"
proof (rule find_returns)
  have "0 \<le> ds" if "rd [0, 0, 0, 5, 0] q = Some c"
      "value_size (it_at [0, 0, 0, 5, 0] q) (char_type c) = Some (Inr ds)" for q c ds
  proof -
    have "q = 0 \<or> q = 1 \<or> q = 2 \<or> q = 3 \<or> q = 4" using that(1) by (auto simp: rd_def split: if_splits)
    then show ?thesis
      using that by (auto simp: rd_def char_type_def enumerators_def value_size_def
          bson_iterator_int_raw_def bson_iterator_value_def cstrlen_def read32_def rdn_def)
  qed
  then show "sizes_nonneg [0, 0, 0, 5, 0]"
    by (auto simp: sizes_nonneg_def bson_iterator_type_def)
qed (simp add: finished_bson_def)

text \<open>
  C7. A block of thirteen bytes hangs every reader: a string whose size field is -7 leads
  \<open>bson_iterator_next\<close> back to the same element, and \<open>bson_find\<close> returns for no number of steps.
\<close>
theorem find_hangs_on_negative_size:
  "bson_find fuel (finished_bson looping_block) [0x62] = Timeout"
proof -
  have cmp: "strcmp_eq [0x62] looping_block (bson_iterator_key (it_at looping_block 4)) = Some False"
    by code_simp
  have loop: "find_loop k (it_at looping_block 4) [0x62] = Timeout" for k
    by (induction k) (simp_all add: looping_next cmp del: strcmp_eq.simps)
  have "bson_iterator_next (bson_iterator_from_buffer looping_block 0) = Some (BSON_STRING, it_at looping_block 4)"
    by code_simp
  then have "find_loop fuel (bson_iterator_from_buffer looping_block 0) [0x62] = Timeout"
    using loop cmp by (cases fuel) (simp_all del: strcmp_eq.simps)
  then show ?thesis by (simp add: bson_find_def bson_iterator_init_def finished_bson_def)
qed

text \<open>
  An element whose type byte is above 127 makes the step behind it read in front of the decimal
  table: the error path of \<open>bson_iterator_next\<close> itself faults.
\<close>
lemma next_faults_on_high_type_byte:
  assumes "rd m q = Some c" and "128 \<le> c"
  shows "bson_iterator_next (it_at m q) = None"
  by (rule next_type_byte_faults [OF assms])

lemma next_faults_on_high_type_byte_instance: "bson_iterator_next (it_at [0, 0, 0, 7, 0x80, 0, 0] 4) = None"
  by (rule next_faults_on_high_type_byte [of _ _ "0x80"]) (simp_all add: rd_def)

section \<open>Errors of the builder\<close>

text \<open>
  \<open>bson_append_element\<close> ignores the status of the element header: on a finished builder it
  returns \<open>BSON_OK\<close> and leaves the bare value bytes behind the document.
\<close>
lemma append_element_on_finished:
  assumes "located m q (element (val_type v) n (val_bytes v) @ [c])"
    and "0 \<notin> set n" "short n" and "val_ok v" "small v"
    and "build_inv b" "b_finished b" "int (b_cur b + length (val_bytes v)) \<le> b_dataSize b"
  shows "\<exists>b'. bson_append_element A b (Some name) (it_at m q) = Some (BSON_OK, b')
      \<and> written b' = written b @ val_bytes v"
  by (rule append_element_unchecked [OF assms])

definition finished_builder :: bson where
  "finished_builder = (snd (bson_init plain_allocator))\<lparr>b_finished := True\<rparr>"

lemma append_element_on_finished_instance:
  "\<exists>b'. bson_append_element plain_allocator finished_builder (Some [0x61])
        (it_at (element BSON_INT [0x62] (wire32 7) @ [0]) 0) = Some (BSON_OK, b')
      \<and> written b' = written finished_builder @ val_bytes (VInt 7)"
  by (rule append_element_on_finished [where n = "[0x62]" and c = 0])
    (simp_all add: finished_builder_def bson_init_def bson_init_size_def initialBufferSize_def size_t_def
      plain_allocator_def bson_malloc_def bson_zeroed_def build_inv_def block_inv_def stack_inv_def
      INT_MAX_def small_def short_def located_mid [of "[]" _ "[]", simplified])

text \<open>
  Without room it writes behind the block: the header that would have asked for room is refused before it does.
\<close>
lemma append_element_leaves_block:
  assumes "located m q (element (val_type v) n (val_bytes v) @ [c])"
    and "0 \<notin> set n" "short n" and "val_ok v" "small v"
    and "build_inv b" "b_finished b" "b_dataSize b < int (b_cur b + length (val_bytes v))"
  shows "bson_append_element A b (Some name) (it_at m q) = None"
  using append_element_parts [OF assms(1,2,4,5,3), of A b name] assms(6-8)
  by (auto simp: bson_append_estart_def bson_append_def blit_def build_inv_def block_inv_def)

text \<open>
  Between documents the same function copies: an accepted element read from one document is
  written to the other under its new name with the same type and value bytes.
\<close>
lemma append_element_copies_value:
  assumes "located m q (element (val_type v) n (val_bytes v) @ [c])"
    and "0 \<notin> set n" "short n" and "val_ok v" "small v"
    and "build_inv b" "allocator_ok A" "allocator_total A" and "short name"
    and "accepts b name (length (val_bytes v))"
  shows "\<exists>b'. bson_append_element A b (Some name) (it_at m q) = Some (BSON_OK, b') \<and> build_inv b'
      \<and> written b' = written b @ element (val_type v) name (val_bytes v)"
  by (rule append_element_copies [OF assms])

lemma init_plain: "bson_init plain_allocator = (BSON_OK, bson_zeroed\<lparr>b_data := Some (replicate 128 0),
    b_dataSize := 128, b_ownsData := True, b_cur := 4\<rparr>)"
  by (simp add: bson_init_def bson_init_size_def initialBufferSize_def size_t_def plain_allocator_def
      bson_malloc_def)

lemma init_plain_accepts:
  "\<forall>c \<in> set name. c < 128 \<Longrightarrow> length name + n < 100 \<Longrightarrow> accepts (snd (bson_init plain_allocator)) name n"
  by (simp add: init_plain accepts_def fits_def ascii_accepted Let_def bson_zeroed_def)

lemma init_plain_inv: "build_inv (snd (bson_init plain_allocator))"
  by (simp add: init_plain build_inv_def block_inv_def stack_inv_def bson_zeroed_def INT_MAX_def)

lemma append_element_copies_value_instance:
  "\<exists>b'. bson_append_element plain_allocator (snd (bson_init plain_allocator)) (Some [0x61])
        (it_at (element BSON_INT [0x62] (wire32 7) @ [0]) 0) = Some (BSON_OK, b') \<and> build_inv b'
      \<and> written b' = written (snd (bson_init plain_allocator)) @ element (val_type (VInt 7)) [0x61] (val_bytes (VInt 7))"
  by (rule append_element_copies_value [where n = "[0x62]" and c = 0])
    (simp_all add: init_plain_inv init_plain_accepts INT_MAX_def small_def short_def
      located_mid [of "[]" _ "[]", simplified])

text \<open>
  C9. A regular expression whose pattern is not UTF-8 is refused after its header is written; one
  more refused call assigns the error field, and \<open>bson_finish\<close> then returns \<open>BSON_OK\<close> for a
  document that ends in an element without a value.
\<close>
theorem refused_regex_leaves_malformed_document:
  assumes "build_inv b" "\<not> b_finished b" "b_stackPos b = 0" and "allocator_ok A" "allocator_total A"
    and "short n" "short p" "short opts" "\<not> utf8_accepted p"
    and "accepts b n (length p + 1 + (length opts + 1))"
  shows "\<exists>b1 b2. api_run A b [Append_regex n p opts, Finish_object] = Some ([BSON_ERROR, BSON_ERROR], b1)
     \<and> bson_finish A b1 = Some (BSON_OK, b2)
     \<and> written b2 = doc_bytes (drop 4 (written b) @ element BSON_REGEX n [])"
  by (rule refused_regex_finishes [OF assms])

lemma not_accepted_FF: "\<not> utf8_accepted [0xFF]"
  using check_string_accepts [of 1 "[0xFF]" bson_zeroed]
  by (simp add: bson_check_string_def bson_validate_string_def trailingBytesForUTF8_def validate_loop.simps
      Let_def nth_append)

theorem refused_regex_leaves_malformed_document_witness:
  "\<exists>b1 b2. api_run plain_allocator (snd (bson_init plain_allocator))
       [Append_regex [0x61] [0xFF] [], Finish_object] = Some ([BSON_ERROR, BSON_ERROR], b1)
     \<and> bson_finish plain_allocator b1 = Some (BSON_OK, b2)
     \<and> written b2 = doc_bytes (drop 4 (written (snd (bson_init plain_allocator))) @ element BSON_REGEX [0x61] [])"
  by (rule refused_regex_leaves_malformed_document)
    (simp_all add: init_plain_inv init_plain_accepts not_accepted_FF short_def,
     simp_all add: init_plain bson_zeroed_def)



text \<open>
  With \<open>R_SAFETY_NET\<close> a failed \<open>realloc\<close> is not noticed: the block pointer becomes null
  and the append that asked for room writes through it.
\<close>
lemma realloc_failure_faults:
  assumes "build_inv b" "\<not> b_finished b" "utf8_accepted name" "length name < 2 ^ 20"
    and "b_dataSize b < int (b_cur b + (6 + length name))" "b_dataSize b < 2 ^ 30"
    and "\<And>old n. al_realloc A old n = None"
  shows "bson_append_int A b name i = None"
proof -
  define n where "n = 6 + length name"
  obtain d where d: "b_data b = Some d" "b_ownsData b" "0 \<le> b_dataSize b" "int (b_cur b) \<le> b_dataSize b"
    using assms(1) by (auto simp: build_inv_def block_inv_def)
  have sz: "int (size_t (b_dataSize b)) = b_dataSize b"
    using size_t_dataSize [OF assms(1)] .
  have n: "int n < 2 ^ 21" "b_dataSize b < int (b_cur b + n)" using assms(4,5) by (simp_all add: n_def)
  have w: "wrap64 n = n" "wrap64 (b_cur b + n) = b_cur b + n"
      "wrap64 (size_t (b_dataSize b) + n) = size_t (b_dataSize b) + n"
    using assms(6) d sz n by (simp_all add: wrap64_def)
  have grow: "double_to_int (3 * (b_dataSize b + int n) div 2) = 3 * (b_dataSize b + int n) div 2"
    using assms(6) n by (simp add: double_to_int_def INT_MAX_def)
  have up: "\<not> 3 * (b_dataSize b + int n) div 2 < b_dataSize b" using d by simp
  have full: "\<not> b_cur b + n \<le> size_t (b_dataSize b)" using n sz by linarith
  obtain b1 where b1: "bson_ensure_space A b n = (BSON_OK, b1)" "b_data b1 = None"
    using d(1,2) up full assms(7)
    unfolding bson_ensure_space_def bson_position_def bson_realloc_def Let_def w of_nat_add sz grow
    by simp
  have "1 + (length name + 1) + 4 = n" by (simp add: n_def)
  with b1 w(1) have "bson_ensure_space A b (wrap64 (1 + (length name + 1) + 4)) = (BSON_OK, b1)" by simp
  moreover have "fst (bson_check_field_name b1 name (length name)) = BSON_OK"
    using check_field_name_accepts [of "length name" name b1] assms(3) by simp
  moreover have "b_data (snd (bson_check_field_name b1 name (length name))) = b_data b1"
    using check_field_name_frame [of b1 name "length name" "fst (bson_check_field_name b1 name (length name))"
        "snd (bson_check_field_name b1 name (length name))"] by auto
  ultimately show ?thesis
    using assms(2) b1(2)
    by (auto simp: bson_append_int_def with_estart_def bson_append_estart_def bson_append_byte_def
        bson_append_def split: prod.split status.split)
qed

lemma realloc_failure_faults_instance:
  "bson_append_int tight_allocator (snd (bson_init_size tight_allocator 4)) [0x61] 7 = None"
  by (rule realloc_failure_faults)
    (simp_all add: bson_init_size_def size_t_def tight_allocator_def plain_allocator_def bson_malloc_def
      bson_zeroed_def build_inv_def block_inv_def stack_inv_def INT_MAX_def ascii_accepted)

section \<open>Strings, ids and numbers\<close>

text \<open>
  C8. \<open>bson_check_string\<close> accepts exactly the concatenations of encodings of code points below 0x110000
  (surrogates included) and of the sequences of four bytes that start with \<open>F4\<close> and an \<open>ASCII\<close> byte, which no
  code point has, and sets \<open>BSON_NOT_UTF8\<close> exactly when it refuses.
\<close>
theorem check_string_exact:
  "(fst (bson_check_string b s (length s)) = BSON_OK \<longleftrightarrow> (\<exists>ss. s = concat ss \<and> list_all sequence_ok ss))
   \<and> (bit (b_err (snd (bson_check_string b s (length s)))) 1
        \<longleftrightarrow> bit (b_err b) 1 \<or> fst (bson_check_string b s (length s)) = BSON_ERROR)"
  using check_string_accepts [of "length s" s b] accepted_exact [of s]
    check_string_bit [of b s "length s" "fst (bson_check_string b s (length s))" "snd (bson_check_string b s (length s))"]
  by simp

text \<open>
  The hexadecimal form of an object id converts back to the id.
\<close>
lemma oid_string_round_trip:
  "length oid = 12 \<Longrightarrow> bson_oid_from_string (bson_oid_to_string oid) = Some oid"
  using oid_from_to_bytes [of oid "[0, 0]"]
  by (simp add: bson_oid_from_string_def bson_oid_to_string_def)

lemma oid_string_round_trip_instance:
  "bson_oid_from_string (bson_oid_to_string [0, 1, 2, 3, 4, 5, 6, 7, 8, 9, 0xAB, 0xFF])
     = Some [0, 1, 2, 3, 4, 5, 6, 7, 8, 9, 0xAB, 0xFF]"
  by (rule oid_string_round_trip) simp

text \<open>
  C10. Object ids generated one after the other with the built-in counter are pairwise distinct
  until the counter wraps at 2^32, whatever the clock and the random number are.
\<close>
theorem generated_oids_distinct:
  "length ts \<le> 2 ^ 32 \<Longrightarrow> distinct (oid_gen_all ff r st ts)"
  by (rule oid_gen_all_distinct)

theorem generated_oids_distinct_witness:
  "distinct (oid_gen_all (Some 7) (\<lambda>s. s) \<lparr>incr = 0xFFFFFFFF, fuzz = 0\<rparr> [5, 5, 5])"
  by (rule generated_oids_distinct) simp

end
