(* ===== verification/Md5.thy ===== *)
theory Md5
  imports Endian
begin

text \<open>
  MD5: \<open>bson/bson/md5.c\<close>.  \<open>bson_config.h\<close> defines \<open>MONGO_BIG_ENDIAN\<close>, so the code takes the
  path that assembles each word from its bytes, which is right on any host.
\<close>

section \<open>The block function\<close>

definition T_MASK :: i32 where "T_MASK = NOT 0"

text \<open>
  One row per \<open>SET\<close> of a round: the word of the block, the rotation and the constant.  The
  registers of consecutive rows are \<open>abcd\<close>, \<open>dabc\<close>, \<open>cdab\<close>, \<open>bcda\<close>.
\<close>

definition round1_steps :: "(nat \<times> nat \<times> i32) list" where
  "round1_steps =
    [(0, 7, T_MASK XOR 0x28955b87), (1, 12, T_MASK XOR 0x173848a9),
     (2, 17, 0x242070db), (3, 22, T_MASK XOR 0x3e423111),
     (4, 7, T_MASK XOR 0x0a83f050), (5, 12, 0x4787c62a),
     (6, 17, T_MASK XOR 0x57cfb9ec), (7, 22, T_MASK XOR 0x02b96afe),
     (8, 7, 0x698098d8), (9, 12, T_MASK XOR 0x74bb0850),
     (10, 17, T_MASK XOR 0x0000a44e), (11, 22, T_MASK XOR 0x76a32841),
     (12, 7, 0x6b901122), (13, 12, T_MASK XOR 0x02678e6c),
     (14, 17, T_MASK XOR 0x5986bc71), (15, 22, 0x49b40821)]"

definition round2_steps :: "(nat \<times> nat \<times> i32) list" where
  "round2_steps =
    [(1, 5, T_MASK XOR 0x09e1da9d), (6, 9, T_MASK XOR 0x3fbf4cbf),
     (11, 14, 0x265e5a51), (0, 20, T_MASK XOR 0x16493855),
     (5, 5, T_MASK XOR 0x29d0efa2), (10, 9, 0x02441453),
     (15, 14, T_MASK XOR 0x275e197e), (4, 20, T_MASK XOR 0x182c0437),
     (9, 5, 0x21e1cde6), (14, 9, T_MASK XOR 0x3cc8f829),
     (3, 14, T_MASK XOR 0x0b2af278), (8, 20, 0x455a14ed),
     (13, 5, T_MASK XOR 0x561c16fa), (2, 9, T_MASK XOR 0x03105c07),
     (7, 14, 0x676f02d9), (12, 20, T_MASK XOR 0x72d5b375)]"

definition round3_steps :: "(nat \<times> nat \<times> i32) list" where
  "round3_steps =
    [(5, 4, T_MASK XOR 0x0005c6bd), (8, 11, T_MASK XOR 0x788e097e),
     (11, 16, 0x6d9d6122), (14, 23, T_MASK XOR 0x021ac7f3),
     (1, 4, T_MASK XOR 0x5b4115bb), (4, 11, 0x4bdecfa9),
     (7, 16, T_MASK XOR 0x0944b49f), (10, 23, T_MASK XOR 0x4140438f),
     (13, 4, 0x289b7ec6), (0, 11, T_MASK XOR 0x155ed805),
     (3, 16, T_MASK XOR 0x2b10cf7a), (6, 23, 0x04881d05),
     (9, 4, T_MASK XOR 0x262b2fc6), (12, 11, T_MASK XOR 0x1924661a),
     (15, 16, 0x1fa27cf8), (2, 23, T_MASK XOR 0x3b53a99a)]"

definition round4_steps :: "(nat \<times> nat \<times> i32) list" where
  "round4_steps =
    [(0, 6, T_MASK XOR 0x0bd6ddbb), (7, 10, 0x432aff97),
     (14, 15, T_MASK XOR 0x546bdc58), (5, 21, T_MASK XOR 0x036c5fc6),
     (12, 6, 0x655b59c3), (3, 10, T_MASK XOR 0x70f3336d),
     (10, 15, T_MASK XOR 0x00100b82), (1, 21, T_MASK XOR 0x7a7ba22e),
     (8, 6, 0x6fa87e4f), (15, 10, T_MASK XOR 0x01d3191f),
     (6, 15, T_MASK XOR 0x5cfebceb), (13, 21, 0x4e0811a1),
     (4, 6, T_MASK XOR 0x08ac817d), (11, 10, T_MASK XOR 0x42c50dca),
     (2, 15, 0x2ad7d2bb), (9, 21, T_MASK XOR 0x14792c6e)]"

definition ROTATE_LEFT :: "i32 \<Rightarrow> nat \<Rightarrow> i32" where
  "ROTATE_LEFT x n = push_bit n x OR drop_bit (32 - n) x"

definition md5_F :: "i32 \<Rightarrow> i32 \<Rightarrow> i32 \<Rightarrow> i32" where
  "md5_F x y z = (x AND y) OR (NOT x AND z)"

definition md5_G :: "i32 \<Rightarrow> i32 \<Rightarrow> i32 \<Rightarrow> i32" where
  "md5_G x y z = (x AND z) OR (y AND NOT z)"

definition md5_H :: "i32 \<Rightarrow> i32 \<Rightarrow> i32 \<Rightarrow> i32" where
  "md5_H x y z = (x XOR y) XOR z"

definition md5_I :: "i32 \<Rightarrow> i32 \<Rightarrow> i32 \<Rightarrow> i32" where
  "md5_I x y z = y XOR (x OR NOT z)"

type_synonym md5_regs = "i32 \<times> i32 \<times> i32 \<times> i32"

text \<open>
  \<open>SET(a, b, c, d, k, s, Ti)\<close> for the four registers in the order the row names them; the
  result lists them in the order of the next row.
\<close>

fun md5_set :: "(i32 \<Rightarrow> i32 \<Rightarrow> i32 \<Rightarrow> i32) \<Rightarrow> i32 list \<Rightarrow> md5_regs \<Rightarrow> nat \<times> nat \<times> i32 \<Rightarrow> md5_regs" where
  "md5_set f X (a, b, c, d) (k, s, Ti) =
     (let t = a + f b c d + X ! k + Ti in (d, ROTATE_LEFT t s + b, b, c))"

definition md5_words :: "byte list \<Rightarrow> i32 list" where
  "md5_words xp = map (\<lambda>i. ucast (xp ! (4 * i)) + push_bit 8 (ucast (xp ! (4 * i + 1)))
     + push_bit 16 (ucast (xp ! (4 * i + 2))) + push_bit 24 (ucast (xp ! (4 * i + 3)))) [0..<16]"

definition md5_block :: "md5_regs \<Rightarrow> byte list \<Rightarrow> md5_regs" where
  "md5_block abcd xs =
     (let X = md5_words xs;
          r1 = foldl (md5_set md5_F X) abcd round1_steps;
          r2 = foldl (md5_set md5_G X) r1 round2_steps;
          r3 = foldl (md5_set md5_H X) r2 round3_steps;
          (a, b, c, d) = foldl (md5_set md5_I X) r3 round4_steps;
          (a0, b0, c0, d0) = abcd
      in (a0 + a, b0 + b, c0 + c, d0 + d))"

section \<open>The stream interface\<close>

record md5_state =
  md5_count0 :: i32
  md5_count1 :: i32
  md5_abcd :: md5_regs
  md5_buf :: "byte list"

definition mongo_md5_process :: "md5_state \<Rightarrow> byte list \<Rightarrow> md5_state" where
  "mongo_md5_process pms xs = pms\<lparr>md5_abcd := md5_block (md5_abcd pms) xs\<rparr>"

definition md5_init_regs :: md5_regs where
  "md5_init_regs = (0x67452301, T_MASK XOR 0x10325476, T_MASK XOR 0x67452301, 0x10325476)"

text \<open>The buffer keeps what the memory held.\<close>

definition mongo_md5_init :: "md5_state \<Rightarrow> md5_state" where
  "mongo_md5_init pms = pms\<lparr>md5_count0 := 0, md5_count1 := 0, md5_abcd := md5_init_regs\<rparr>"

text \<open>The loop over full blocks: the state and the bytes left.\<close>

function md5_full_blocks :: "md5_state \<Rightarrow> byte list \<Rightarrow> md5_state \<times> byte list" where
  "md5_full_blocks pms p =
     (if 64 \<le> length p then md5_full_blocks (mongo_md5_process pms (take 64 p)) (drop 64 p)
      else (pms, p))"
  by pat_completeness auto
termination by (relation "measure (\<lambda>(pms, p). length p)") auto

declare md5_full_blocks.simps [simp del]

text \<open>A copy into a block of memory; one that goes beyond its end is a fault.\<close>

definition overwritten :: "byte list \<Rightarrow> nat \<Rightarrow> byte list \<Rightarrow> byte list" where
  "overwritten block off xs = take off block @ xs @ drop (off + length xs) block"

definition memcpy_at :: "byte list \<Rightarrow> nat \<Rightarrow> byte list \<Rightarrow> byte list option" where
  "memcpy_at block off xs = (if off + length xs \<le> length block then Some (overwritten block off xs) else None)"

text \<open>The message length in bits, low word first.\<close>

definition md5_update_length :: "md5_state \<Rightarrow> int \<Rightarrow> md5_state" where
  "md5_update_length pms nbytes =
     (let nbits = word_of_int (wrap32 (nbytes * 8)) :: i32;
          pms = pms\<lparr>md5_count1 := md5_count1 pms + word_of_int (nbytes div 2 ^ 29)\<rparr>;
          pms = pms\<lparr>md5_count0 := md5_count0 pms + nbits\<rparr>
      in if md5_count0 pms < nbits then pms\<lparr>md5_count1 := md5_count1 pms + 1\<rparr> else pms)"

text \<open>The full blocks of \<open>p\<close>, and the final partial block.\<close>

definition md5_append_blocks :: "md5_state \<Rightarrow> byte list \<Rightarrow> md5_state option" where
  "md5_append_blocks pms p =
     (let (pms, p) = md5_full_blocks pms p
      in if p \<noteq> [] then map_option (\<lambda>buf. pms\<lparr>md5_buf := buf\<rparr>) (memcpy_at (md5_buf pms) 0 p) else Some pms)"

text \<open>
  \<open>xs\<close> is the memory at \<open>data\<close>; fewer than \<open>nbytes\<close> readable bytes are a fault.  The sum \<open>offset + nbytes\<close>, which
  keeps the first copy inside the block, overflows for a piece of \<open>2 ^ 31 - offset\<close> bytes or more.
\<close>

definition mongo_md5_append :: "md5_state \<Rightarrow> byte list \<Rightarrow> int \<Rightarrow> md5_state option" where
  "mongo_md5_append pms xs nbytes =
     (let offset = unat (drop_bit 3 (md5_count0 pms) AND 63)
      in if nbytes \<le> 0 then Some pms
         else if int (length xs) < nbytes then None
         else
           let p = take (nat nbytes) xs;
               pms = md5_update_length pms nbytes
           in if offset \<noteq> 0 then
                let copy = (if wrap32 (int offset + nbytes) > 64 then 64 - offset else nat nbytes)
                in do {
                  buf \<leftarrow> memcpy_at (md5_buf pms) offset (take copy p);
                  if offset + copy < 64 then Some (pms\<lparr>md5_buf := buf\<rparr>)
                  else md5_append_blocks (mongo_md5_process (pms\<lparr>md5_buf := buf\<rparr>) buf) (drop copy p) }
              else md5_append_blocks pms p)"

definition md5_pad :: "byte list" where
  "md5_pad = 0x80 # replicate 63 0"

definition md5_digest :: "md5_regs \<Rightarrow> byte list" where
  "md5_digest abcd = (case abcd of (a, b, c, d) \<Rightarrow> mem32 a @ mem32 b @ mem32 c @ mem32 d)"

definition mongo_md5_finish :: "md5_state \<Rightarrow> (byte list \<times> md5_state) option" where
  "mongo_md5_finish pms = do {
     let xs = mem32 (md5_count0 pms) @ mem32 (md5_count1 pms);
     pms \<leftarrow> mongo_md5_append pms md5_pad
       (sint (((55 - drop_bit 3 (md5_count0 pms)) AND 63) + 1));
     pms \<leftarrow> mongo_md5_append pms xs 8;
     Some (md5_digest (md5_abcd pms), pms) }"

section \<open>The digest of a message\<close>

text \<open>RFC 1321: pad, append the length in bits, run the block function over the blocks.\<close>

function md5_blocks :: "md5_regs \<Rightarrow> byte list \<Rightarrow> md5_regs" where
  "md5_blocks h xs = (if 64 \<le> length xs then md5_blocks (md5_block h (take 64 xs)) (drop 64 xs) else h)"
  by pat_completeness auto
termination by (relation "measure (\<lambda>(h, xs). length xs)") auto

declare md5_blocks.simps [simp del]

definition md5_padding :: "nat \<Rightarrow> byte list" where
  "md5_padding len = 0x80 # replicate (nat ((55 - int len) mod 64)) 0 @ mem64 (word_of_nat (8 * len))"

definition md5 :: "byte list \<Rightarrow> byte list" where
  "md5 msg = md5_digest (md5_blocks md5_init_regs (msg @ md5_padding (length msg)))"

section \<open>The stream computes the digest\<close>

lemma md5_blocks_append:
  "64 dvd length xs \<Longrightarrow> md5_blocks h (xs @ ys) = md5_blocks (md5_blocks h xs) ys"
proof (induction h xs rule: md5_blocks.induct)
  case (1 h xs)
  show ?case
  proof (cases "64 \<le> length xs")
    case True
    have "64 dvd length (drop 64 xs)" using 1(2) True by (simp add: dvd_diff_nat)
    then have "md5_blocks (md5_block h (take 64 xs)) (drop 64 xs @ ys)
        = md5_blocks (md5_blocks (md5_block h (take 64 xs)) (drop 64 xs)) ys"
      using 1(1) True by simp
    then show ?thesis
      using True by (simp add: md5_blocks.simps [of h "xs @ ys"] md5_blocks.simps [of h xs])
  next
    case False
    then have "xs = []" using 1(2) by (cases xs) (auto dest: dvd_imp_le)
    then show ?thesis by (simp add: md5_blocks.simps [of h "[]"])
  qed
qed

lemma full_blocks:
  "md5_full_blocks pms p = (pms\<lparr>md5_abcd := md5_blocks (md5_abcd pms) p\<rparr>, drop (64 * (length p div 64)) p)"
proof (induction pms p rule: md5_full_blocks.induct)
  case (1 pms p)
  show ?case
  proof (cases "64 \<le> length p")
    case True
    then have "length p div 64 = Suc ((length p - 64) div 64)" by (simp add: div_if)
    then show ?thesis
      using True 1 by (simp add: md5_full_blocks.simps [of pms p] md5_blocks.simps [of "md5_abcd pms" p]
          mongo_md5_process_def add.commute)
  next
    case False
    then show ?thesis by (simp add: md5_full_blocks.simps [of pms p] md5_blocks.simps [of "md5_abcd pms" p])
  qed
qed

text \<open>What a state knows after the message \<open>msg\<close>.\<close>

definition md5_holds :: "md5_state \<Rightarrow> byte list \<Rightarrow> bool" where
  "md5_holds pms msg \<longleftrightarrow>
     unat (md5_count0 pms) = 8 * length msg mod 2 ^ 32
     \<and> unat (md5_count1 pms) = 8 * length msg div 2 ^ 32 mod 2 ^ 32
     \<and> md5_abcd pms = md5_blocks md5_init_regs msg \<and> length (md5_buf pms) = 64
     \<and> take (length msg mod 64) (md5_buf pms) = drop (64 * (length msg div 64)) msg"

lemma offset_holds:
  assumes "md5_holds pms msg"
  shows "unat (drop_bit 3 (md5_count0 pms) AND 63) = length msg mod 64"
proof -
  have and63: "n AND 63 = n mod 64" for n :: nat
    using take_bit_eq_mask [of 6 n] by (simp add: mask_eq_exp_minus_1 take_bit_eq_mod)
  have "unat (drop_bit 3 (md5_count0 pms) AND 63) = unat (md5_count0 pms) div 8 mod 64"
    by (simp add: unsigned_and_eq unsigned_drop_bit_eq and63 drop_bit_eq_div unat_div)
  also have "\<dots> = length msg mod 64"
  proof -
    have "8 * length msg mod 2 ^ 32 div 8 = length msg mod 2 ^ 29"
      using mod_mult_mult1 [of 8 "length msg" "2 ^ 29"] by simp
    moreover have "length msg mod 2 ^ 29 mod 64 = length msg mod 64"
      by (rule mod_mod_cancel) simp
    ultimately show ?thesis using assms by (simp add: md5_holds_def)
  qed
  finally show ?thesis .
qed

lemma md5_blocks_short: "length xs < 64 \<Longrightarrow> md5_blocks h xs = h"
  by (simp add: md5_blocks.simps)

lemma md5_blocks_one: "length b = 64 \<Longrightarrow> md5_blocks h (b @ ys) = md5_blocks (md5_block h b) ys"
  by (simp add: md5_blocks.simps [of h "b @ ys"])

lemma blocks_tail:
  "md5_blocks h (msg @ ys) = md5_blocks (md5_blocks h msg) (drop (64 * (length msg div 64)) msg @ ys)"
proof -
  let ?k = "64 * (length msg div 64)"
  have k: "length (take ?k msg) = ?k" by simp
  have d: "64 dvd length (take ?k msg)" unfolding k by simp
  have short: "length (drop ?k msg) < 64" by (simp add: minus_mult_div_eq_mod)
  have "md5_blocks h msg = md5_blocks (md5_blocks h (take ?k msg)) (drop ?k msg)"
    using md5_blocks_append [OF d, of h "drop ?k msg"] by simp
  then have "md5_blocks h msg = md5_blocks h (take ?k msg)"
    using md5_blocks_short [OF short] by simp
  then show ?thesis
    using md5_blocks_append [OF d, of h "drop ?k msg @ ys"] by (simp flip: append_assoc)
qed

text \<open>The message length in bits, kept in two words.\<close>

lemma mod_carry:
  fixes x y m :: nat
  shows "x < m \<Longrightarrow> y < m \<Longrightarrow> (x + y) mod m < y \<longleftrightarrow> m \<le> x + y"
  by (cases "x + y < m") (auto simp: mod_if)

lemma count_step:
  fixes lo hi :: i32
  assumes lo: "unat lo = W mod 2 ^ 32" and hi: "unat hi = W div 2 ^ 32 mod 2 ^ 32" and n: "n < 2 ^ 31"
    and lo': "lo' = lo + word_of_int (wrap32 (int n * 8))"
    and hi': "hi' = hi + word_of_int (int n div 2 ^ 29)"
    and hi'': "hi'' = (if lo' < word_of_int (wrap32 (int n * 8)) then hi' + 1 else hi')"
  shows "unat lo' = (W + 8 * n) mod 2 ^ 32 \<and> unat hi'' = (W + 8 * n) div 2 ^ 32 mod 2 ^ 32"
proof -
  have "word_of_int (wrap32 x) = (word_of_int x :: i32)" for x
  proof (rule bit_word_eqI)
    fix k assume "k < LENGTH(32)"
    then have "min k 31 = k" by simp
    then show "bit (word_of_int (wrap32 x) :: i32) k = bit (word_of_int x :: i32) k"
      using \<open>k < LENGTH(32)\<close> by (simp add: wrap32_def bit_simps)
  qed
  moreover have "word_of_int (int n * 8) = (word_of_nat (8 * n) :: i32)"
    by (simp add: mult.commute)
  ultimately have nb: "word_of_int (wrap32 (int n * 8)) = (word_of_nat (8 * n) :: i32)" by simp
  have nu: "unat (word_of_nat (8 * n) :: i32) = 8 * n mod 2 ^ 32" by (subst unat_of_nat) simp
  have hn: "word_of_int (int n div 2 ^ 29) = (word_of_nat (n div 2 ^ 29) :: i32)"
    by (metis of_int_of_nat_eq of_nat_numeral of_nat_power zdiv_int)
  have lo1: "unat lo' = (W + 8 * n) mod 2 ^ 32"
    using lo nu unfolding lo' nb by (simp add: unat_word_ariths mod_simps del: of_nat_mult)
  have carry: "lo' < word_of_nat (8 * n) \<longleftrightarrow> 2 ^ 32 \<le> W mod 2 ^ 32 + 8 * n mod 2 ^ 32"
    using mod_carry [of "W mod 2 ^ 32" "2 ^ 32" "8 * n mod 2 ^ 32"] lo1 nu
    by (simp add: word_less_nat_alt mod_simps del: of_nat_mult)
  have hi1: "unat hi' = (W div 2 ^ 32 + 8 * n div 2 ^ 32) mod 2 ^ 32"
    using hi unfolding hi' hn by (simp add: unat_word_ariths unat_of_nat mod_simps)
  have "(W + 8 * n) div 2 ^ 32 = W div 2 ^ 32 + 8 * n div 2 ^ 32
      + (if 2 ^ 32 \<le> W mod 2 ^ 32 + 8 * n mod 2 ^ 32 then 1 else 0)"
    by (subst div_add1_eq) (auto simp: div_if)
  moreover have "unat (hi' + 1) = (W div 2 ^ 32 + 8 * n div 2 ^ 32 + 1) mod 2 ^ 32"
    using hi1 by (simp add: unat_word_ariths mod_simps)
  ultimately have "unat hi'' = (W + 8 * n) div 2 ^ 32 mod 2 ^ 32"
    using hi1 unfolding hi'' nb carry by (cases "2 ^ 32 \<le> W mod 2 ^ 32 + 8 * n mod 2 ^ 32") (simp_all only: if_True if_False add_0_right)
  then show ?thesis using lo1 by blast
qed

section \<open>Appending in pieces\<close>

lemma memcpy_take:
  "off + length xs \<le> length block \<Longrightarrow> take (off + length xs) (overwritten block off xs) = take off block @ xs"
  by (simp add: overwritten_def)

lemma memcpy_length: "off + length xs \<le> length block \<Longrightarrow> length (overwritten block off xs) = length block"
  by (simp add: overwritten_def)

lemma update_length:
  assumes h: "md5_holds pms msg" and n: "n < 2 ^ 31"
  shows "unat (md5_count0 (md5_update_length pms (int n))) = 8 * (length msg + n) mod 2 ^ 32
    \<and> unat (md5_count1 (md5_update_length pms (int n))) = 8 * (length msg + n) div 2 ^ 32 mod 2 ^ 32
    \<and> md5_abcd (md5_update_length pms (int n)) = md5_abcd pms
    \<and> md5_buf (md5_update_length pms (int n)) = md5_buf pms"
proof -
  define nb where "nb = (word_of_int (wrap32 (int n * 8)) :: i32)"
  define lo where "lo = md5_count0 pms + nb"
  define hi0 where "hi0 = md5_count1 pms + word_of_int (int n div 2 ^ 29)"
  have "md5_count0 (md5_update_length pms (int n)) = lo"
      "md5_count1 (md5_update_length pms (int n)) = (if lo < nb then hi0 + 1 else hi0)"
    by (simp_all add: md5_update_length_def Let_def nb_def lo_def hi0_def)
  moreover have "md5_abcd (md5_update_length pms (int n)) = md5_abcd pms
      \<and> md5_buf (md5_update_length pms (int n)) = md5_buf pms"
    by (simp add: md5_update_length_def Let_def)
  ultimately show ?thesis
    using count_step [of "md5_count0 pms" "8 * length msg" "md5_count1 pms" n lo hi0
        "if lo < nb then hi0 + 1 else hi0"] h n
    by (simp add: md5_holds_def lo_def hi0_def nb_def distrib_left)
qed

text \<open>The tail in the buffer followed by the new bytes, block by block.\<close>

lemma holds_after:
  assumes cnt: "unat (md5_count0 pms') = 8 * (length msg + length xs) mod 2 ^ 32"
      "unat (md5_count1 pms') = 8 * (length msg + length xs) div 2 ^ 32 mod 2 ^ 32"
    and tl: "tl1 = drop (64 * (length msg div 64)) msg"
    and abcd: "md5_abcd pms' = md5_blocks (md5_blocks md5_init_regs msg) (tl1 @ xs)"
    and buf: "length (md5_buf pms') = 64"
      "take (length (tl1 @ xs) mod 64) (md5_buf pms') = drop (64 * (length (tl1 @ xs) div 64)) (tl1 @ xs)"
  shows "md5_holds pms' (msg @ xs)"
proof -
  let ?k = "64 * (length msg div 64)"
  have len: "length tl1 = length msg mod 64" using tl by (simp add: minus_mult_div_eq_mod)
  have split: "msg @ xs = take ?k msg @ (tl1 @ xs)" by (simp add: tl)
  have k: "length (take ?k msg) = ?k" by simp
  have e: "length (msg @ xs) = ?k + length (tl1 @ xs)" using split k by (metis length_append)
  have "(64 * a + l) mod 64 = l mod 64" "64 * ((64 * a + l) div 64) = 64 * a + 64 * (l div 64)"
    for a l :: nat by simp_all
  then have "length (msg @ xs) mod 64 = length (tl1 @ xs) mod 64"
      "64 * (length (msg @ xs) div 64) = ?k + 64 * (length (tl1 @ xs) div 64)" unfolding e by blast+
  moreover have "drop (?k + j) (msg @ xs) = drop j (tl1 @ xs)" for j
  proof -
    have "drop (?k + j) (take ?k msg @ (tl1 @ xs)) = drop j (drop ?k (take ?k msg @ (tl1 @ xs)))"
      by (simp only: drop_drop add.commute)
    also have "drop ?k (take ?k msg @ (tl1 @ xs)) = tl1 @ xs"
      using append_eq_conv_conj k by metis
    finally show ?thesis unfolding split .
  qed
  moreover have "md5_abcd pms' = md5_blocks md5_init_regs (msg @ xs)"
    using abcd blocks_tail [of md5_init_regs msg xs] by (simp only: tl)
  ultimately show ?thesis
    unfolding md5_holds_def length_append using cnt buf by (simp only: length_append)
qed

lemma block_arith: "(64 + l) mod 64 = (l :: nat) mod 64 \<and> 64 * ((64 + l) div 64) = 64 + 64 * (l div 64)"
  using div_add_self1 [of "64 :: nat" l] by simp

lemma append_blocks:
  assumes "length (md5_buf pms) = 64" and r: "r = drop (64 * (length p div 64)) p"
    and q: "q = pms\<lparr>md5_abcd := md5_blocks (md5_abcd pms) p\<rparr>"
  shows "md5_append_blocks pms p = Some (if r \<noteq> [] then q\<lparr>md5_buf := overwritten (md5_buf pms) 0 r\<rparr> else q)"
proof -
  have "length r < 64" "md5_buf q = md5_buf pms" by (simp_all add: r q minus_mult_div_eq_mod)
  then show ?thesis using assms(1) by (simp add: md5_append_blocks_def full_blocks memcpy_at_def flip: r q)
qed

lemma append_holds:
  assumes h: "md5_holds pms msg" and n: "n = length xs" "n < 2 ^ 31 - 64"
  shows "\<exists>pms'. mongo_md5_append pms (xs @ rest) (int n) = Some pms' \<and> md5_holds pms' (msg @ xs)"
proof (cases "n = 0")
  case True
  then show ?thesis using h n by (simp add: mongo_md5_append_def Let_def)
next
  case False
  define o1 where "o1 = length msg mod 64"
  define tl1 where "tl1 = drop (64 * (length msg div 64)) msg"
  define p0 where "p0 = md5_update_length pms (int n)"
  define copy where "copy = (if 64 < o1 + n then 64 - o1 else n)"
  define buf where "buf = overwritten (md5_buf pms) o1 (take copy xs)"
  have off: "unat (drop_bit 3 (md5_count0 pms) AND 63) = o1"
    using offset_holds [OF h] by (simp add: o1_def)
  have o64: "o1 < 64" and tl: "length tl1 = o1" by (simp_all add: o1_def tl1_def minus_mult_div_eq_mod)
  have old: "length (md5_buf pms) = 64" "take o1 (md5_buf pms) = tl1"
      "md5_abcd pms = md5_blocks md5_init_regs msg"
    using h by (simp_all add: md5_holds_def o1_def tl1_def)
  have p0: "unat (md5_count0 p0) = 8 * (length msg + length xs) mod 2 ^ 32"
      "unat (md5_count1 p0) = 8 * (length msg + length xs) div 2 ^ 32 mod 2 ^ 32"
      "md5_abcd p0 = md5_blocks md5_init_regs msg" "md5_buf p0 = md5_buf pms"
    using update_length [OF h, of n] n old(3) by (simp_all add: p0_def)
  have wr: "wrap32 (int o1 + int n) = int (o1 + n)"
    using o64 n(2) by (simp add: wrap32_id in_int_def)
  have cp: "copy \<le> n" "o1 + copy \<le> 64" using o64 by (auto simp: copy_def)
  have app: "mongo_md5_append pms (xs @ rest) (int n) =
      (if o1 = 0 then md5_append_blocks p0 xs
       else if o1 + copy < 64 then Some (p0\<lparr>md5_buf := buf\<rparr>)
       else md5_append_blocks (mongo_md5_process (p0\<lparr>md5_buf := buf\<rparr>) buf) (drop copy xs))"
  proof -
    have "(if wrap32 (int o1 + int n) > 64 then 64 - o1 else nat (int n)) = copy"
      using wr by (simp add: copy_def)
    moreover have "\<not> int (length (xs @ rest)) < int n" "take (nat (int n)) (xs @ rest) = xs"
      using n(1) by simp_all
    moreover have "\<not> int n \<le> 0" using False by simp
    moreover have "memcpy_at (md5_buf p0) o1 (take copy xs) = Some buf"
      using cp n(1) by (simp add: memcpy_at_def buf_def p0(4) old(1))
    ultimately show ?thesis
      unfolding mongo_md5_append_def Let_def off p0_def by simp
  qed
  have bl: "length buf = 64" "take (o1 + copy) buf = tl1 @ take copy xs"
    using memcpy_length [of o1 "take copy xs" "md5_buf pms"] memcpy_take [of o1 "take copy xs" "md5_buf pms"]
      old(1,2) n(1) cp by (simp_all add: buf_def)
  note holds = holds_after [OF _ _ tl1_def]
  consider (fits) "o1 \<noteq> 0" "o1 + copy < 64" | (fill) "o1 \<noteq> 0" "o1 + copy = 64" | (none) "o1 = 0"
    using cp by linarith
  then show ?thesis
  proof cases
    case fits
    then have c: "copy = n" by (auto simp: copy_def split: if_splits)
    have "md5_holds (p0\<lparr>md5_buf := buf\<rparr>) (msg @ xs)"
      by (rule holds) (use p0 bl fits tl c n(1) md5_blocks_short [of "tl1 @ xs"] in simp_all)
    then show ?thesis using app fits by simp
  next
    case fill
    have b: "buf = tl1 @ take copy xs" using bl fill by simp
    let ?p = "p0\<lparr>md5_buf := buf, md5_abcd := md5_block (md5_abcd p0) buf\<rparr>"
    let ?r = "drop (64 * ((n - copy) div 64)) (drop copy xs)"
    let ?q = "?p\<lparr>md5_abcd := md5_blocks (md5_abcd ?p) (drop copy xs)\<rparr>"
    let ?res = "if ?r \<noteq> [] then ?q\<lparr>md5_buf := overwritten buf 0 ?r\<rparr> else ?q"
    have res: "mongo_md5_append pms (xs @ rest) (int n) = Some ?res"
      using app fill n(1) bl(1) append_blocks [of ?p ?r "drop copy xs" ?q]
      by (simp add: mongo_md5_process_def del: drop_drop)
    have split: "tl1 @ xs = buf @ drop copy xs" using b by simp
    have e: "length (tl1 @ xs) = 64 + (n - copy)" unfolding split using bl(1) n(1) by simp
    have lr1: "length ?r = (n - copy) mod 64" using n(1) by (simp add: minus_mult_div_eq_mod del: drop_drop)
    have dm: "length (tl1 @ xs) mod 64 = length ?r"
        "64 * (length (tl1 @ xs) div 64) = 64 + 64 * ((n - copy) div 64)"
      unfolding e lr1 using block_arith [of "n - copy"] by blast+
    have dr: "drop (64 * (length (tl1 @ xs) div 64)) (tl1 @ xs) = ?r"
    proof -
      have "drop (64 + j) (tl1 @ xs) = drop j (drop copy xs)" for j
        unfolding split using bl(1) by (simp del: drop_drop)
      then show ?thesis unfolding dm(2) .
    qed
    have lr: "length ?r < 64" unfolding lr1 by simp
    have "md5_holds ?res (msg @ xs)"
    proof (rule holds)
      show "md5_abcd ?res = md5_blocks (md5_blocks md5_init_regs msg) (tl1 @ xs)"
        using p0(3) bl(1) unfolding split by (simp add: md5_blocks_one)
      show "take (length (tl1 @ xs) mod 64) (md5_buf ?res)
          = drop (64 * (length (tl1 @ xs) div 64)) (tl1 @ xs)"
        unfolding dr dm(1) using memcpy_take [of 0 ?r buf] lr bl(1) by simp
    qed (use p0 bl(1) lr memcpy_length [of 0 ?r buf] in simp_all)
    then show ?thesis using res by blast
  next
    case none
    let ?r = "drop (64 * (n div 64)) xs"
    let ?q = "p0\<lparr>md5_abcd := md5_blocks (md5_abcd p0) xs\<rparr>"
    let ?res = "if ?r \<noteq> [] then ?q\<lparr>md5_buf := overwritten (md5_buf pms) 0 ?r\<rparr> else ?q"
    have res: "mongo_md5_append pms (xs @ rest) (int n) = Some ?res"
      using app none n(1) p0(4) old(1) append_blocks [of p0 ?r xs ?q] by simp
    have t: "tl1 @ xs = xs" using tl none by simp
    have lr: "length ?r = n mod 64" using n(1) by (simp add: minus_mult_div_eq_mod)
    have "md5_holds ?res (msg @ xs)"
    proof (rule holds)
      show "md5_abcd ?res = md5_blocks (md5_blocks md5_init_regs msg) (tl1 @ xs)"
        using p0(3) t by simp
      show "take (length (tl1 @ xs) mod 64) (md5_buf ?res)
          = drop (64 * (length (tl1 @ xs) div 64)) (tl1 @ xs)"
        unfolding t using memcpy_take [of 0 ?r "md5_buf pms"] lr old(1) n(1)
        by (cases "?r = []") simp_all
    qed (use p0 old(1) lr memcpy_length [of 0 ?r "md5_buf pms"] in simp_all)
    then show ?thesis using res by blast
  qed
qed

text \<open>Behind the bound: a piece so long that the sum overflows is copied behind the block.\<close>

lemma long_piece_overruns:
  assumes "unat (drop_bit 3 (md5_count0 pms) AND 63) = offset" "length (md5_buf pms) = 64"
    and n: "2 ^ 31 \<le> int offset + n" "n < 2 ^ 31" and "n \<le> int (length xs)"
  shows "mongo_md5_append pms xs n = None"
proof -
  have "offset < 64" using assms(1) and_mask_less' [of 6 "drop_bit 3 (md5_count0 pms)"]
    by (simp add: mask_eq_exp_minus_1 word_less_nat_alt)
  moreover have "(int offset + n + 2 ^ 31) mod 2 ^ 32 = (int offset + n + 2 ^ 31 - 2 ^ 32) mod 2 ^ 32" by (simp only: minus_mod_self2)
  ultimately have "wrap32 (int offset + n) = int offset + n - 2 ^ 32" using n
    by (simp add: wrap32_def signed_take_bit_eq_take_bit_shift take_bit_eq_mod)
  then have "\<not> 64 < wrap32 (int offset + n)" "64 < n" using n \<open>offset < 64\<close> by simp_all
  moreover have "memcpy_at (md5_buf (md5_update_length pms n)) offset (take (nat n) (take (nat n) xs)) = None"
    using assms \<open>64 < n\<close> by (simp add: memcpy_at_def md5_update_length_def Let_def)
  moreover have "offset \<noteq> 0" using n by auto
  ultimately show ?thesis using assms by (simp add: mongo_md5_append_def Let_def)
qed

section \<open>Finishing\<close>

lemma init_holds: "length (md5_buf pms) = 64 \<Longrightarrow> md5_holds (mongo_md5_init pms) []"
  by (simp add: md5_holds_def mongo_md5_init_def md5_blocks_short)

lemma mem64_split: "mem64 w = mem32 (ucast w) @ mem32 (ucast (drop_bit 32 w))"
  unfolding mem64_def mem32_def
  by (simp, intro conjI; rule bit_word_eqI; simp add: bit_simps)

lemma count_bytes:
  assumes "md5_holds pms msg"
  shows "mem32 (md5_count0 pms) @ mem32 (md5_count1 pms) = mem64 (word_of_nat (8 * length msg))"
proof -
  let ?w = "word_of_nat (8 * length msg) :: i64"
  have w: "unat ?w = 8 * length msg mod 2 ^ 64" by (subst unat_of_nat) simp
  have "unat (ucast ?w :: i32) = 8 * length msg mod 2 ^ 32"
    unfolding unsigned_ucast_eq w by (simp add: take_bit_eq_mod mod_mod_cancel)
  moreover have "8 * length msg mod 2 ^ 64 div 2 ^ 32 = 8 * length msg div 2 ^ 32 mod 2 ^ 32"
    using mod_mult2_eq [of "8 * length msg" "2 ^ 32" "2 ^ 32"] by simp
  then have "unat (ucast (drop_bit 32 ?w) :: i32) = 8 * length msg div 2 ^ 32 mod 2 ^ 32"
    unfolding unsigned_ucast_eq unsigned_drop_bit_eq w
    by (simp add: take_bit_eq_mod drop_bit_eq_div)
  ultimately have "md5_count0 pms = ucast ?w" "md5_count1 pms = ucast (drop_bit 32 ?w)"
    using assms by (simp_all only: md5_holds_def word_unat_eq_iff)
  then show ?thesis by (simp only: mem64_split)
qed

lemma pad_length:
  assumes "md5_holds pms msg"
  shows "sint (((55 - drop_bit 3 (md5_count0 pms)) AND 63) + 1) = (55 - int (length msg)) mod 64 + 1"
proof -
  have and63: "uint (x AND 63) = uint x mod 64" for x :: i32
    using take_bit_eq_mask [of 6 "uint x"] by (simp add: unsigned_and_eq mask_eq_exp_minus_1 take_bit_eq_mod)
  have "uint (drop_bit 3 (md5_count0 pms)) = int (unat (md5_count0 pms) div 8)"
    by (simp add: drop_bit_eq_div uint_div zdiv_int)
  moreover have "8 * length msg mod 2 ^ 32 div 8 = length msg mod 2 ^ 29"
    using mod_mult_mult1 [of 8 "length msg" "2 ^ 29"] by simp
  ultimately have x: "uint (drop_bit 3 (md5_count0 pms)) = int (length msg) mod 2 ^ 29"
    using assms by (simp add: md5_holds_def zmod_int)
  have "uint ((55 - drop_bit 3 (md5_count0 pms)) AND 63)
      = (55 - int (length msg) mod 2 ^ 29) mod 2 ^ 32 mod 64"
    unfolding and63 uint_word_ariths x by simp
  also have "\<dots> = (55 - int (length msg) mod 2 ^ 29) mod 64" by (rule mod_mod_cancel) simp
  also have "\<dots> = (55 - int (length msg) mod 2 ^ 29 mod 64) mod 64" by (simp only: mod_diff_right_eq)
  also have "\<dots> = (55 - int (length msg)) mod 64"
    by (simp add: mod_mod_cancel mod_diff_right_eq)
  finally have u: "uint ((55 - drop_bit 3 (md5_count0 pms)) AND 63) = (55 - int (length msg)) mod 64" .
  have "uint (((55 - drop_bit 3 (md5_count0 pms)) AND 63) + 1) = (55 - int (length msg)) mod 64 + 1"
    unfolding uint_word_ariths u by (simp add: uint_word_ariths)
  then show ?thesis by (simp add: sint_uint signed_take_bit_int_eq_self)
qed

lemma finish_holds:
  assumes h: "md5_holds pms msg"
  shows "\<exists>pms'. mongo_md5_finish pms = Some (md5 msg, pms')"
proof -
  define k where "k = nat ((55 - int (length msg)) mod 64)"
  have k: "k < 64" "int (k + 1) = (55 - int (length msg)) mod 64 + 1" by (simp_all add: k_def)
  let ?pad = "0x80 # replicate k 0 :: byte list"
  have "md5_pad = ?pad @ replicate (63 - k) 0"
    using k(1) by (simp add: md5_pad_def replicate_add [symmetric])
  then obtain p1 where p1: "mongo_md5_append pms md5_pad (int (k + 1)) = Some p1" "md5_holds p1 (msg @ ?pad)"
    using append_holds [OF h, of "k + 1" ?pad "replicate (63 - k) 0"] k(1) by auto
  let ?len = "mem64 (word_of_nat (8 * length msg))"
  obtain p2 where p2: "mongo_md5_append p1 ?len 8 = Some p2" "md5_holds p2 ((msg @ ?pad) @ ?len)"
    using append_holds [OF p1(2), of 8 ?len "[]"] by auto
  have "md5_abcd p2 = md5_blocks md5_init_regs (msg @ md5_padding (length msg))"
    using p2(2) by (simp add: md5_holds_def md5_padding_def k_def)
  then show ?thesis
    using p1(1) p2(1) unfolding mongo_md5_finish_def pad_length [OF h] k(2) count_bytes [OF h]
    by (simp add: md5_def)
qed

text \<open>Feeding a message in pieces.\<close>

fun md5_append_all :: "md5_state \<Rightarrow> byte list list \<Rightarrow> md5_state option" where
  "md5_append_all pms [] = Some pms"
| "md5_append_all pms (xs # xss) = mongo_md5_append pms xs (int (length xs)) \<bind> (\<lambda>p. md5_append_all p xss)"

lemma append_all_holds:
  "md5_holds pms msg \<Longrightarrow> \<forall>xs \<in> set xss. length xs < 2 ^ 31 - 64 \<Longrightarrow>
   \<exists>pms'. md5_append_all pms xss = Some pms' \<and> md5_holds pms' (msg @ concat xss)"
proof (induction xss arbitrary: pms msg)
  case (Cons xs xss)
  obtain p1 where p1: "mongo_md5_append pms xs (int (length xs)) = Some p1" "md5_holds p1 (msg @ xs)"
    using append_holds [OF Cons.prems(1) refl, of xs "[]"] Cons.prems(2) by auto
  then show ?case using Cons.IH [OF p1(2)] Cons.prems(2) by simp
qed simp

section \<open>Properties\<close>

text \<open>
  C11. Streaming: a message fed to \<open>mongo_md5_append\<close> in pieces of any sizes below \<open>2 ^ 31 - 64\<close> bytes and finished
  gives the digest of RFC 1321 of the whole message; the bytes kept in the buffer, the two-word bit count and
  the padding fit together for every split, and no copy leaves the block of 64 bytes.  (A longer piece may:
  \<open>long_piece_overruns\<close>.)
\<close>
theorem md5_stream_correct:
  assumes "length (md5_buf pms) = 64" and "\<forall>xs \<in> set xss. length xs < 2 ^ 31 - 64"
  shows "\<exists>p p'. md5_append_all (mongo_md5_init pms) xss = Some p
     \<and> mongo_md5_finish p = Some (md5 (concat xss), p')"
proof -
  obtain p where "md5_append_all (mongo_md5_init pms) xss = Some p" "md5_holds p (concat xss)"
    using append_all_holds [OF init_holds [OF assms(1)] assms(2)] by auto
  then show ?thesis using finish_holds by blast
qed

theorem md5_stream_correct_witness:
  "\<exists>p p'. md5_append_all (mongo_md5_init \<lparr>md5_count0 = 9, md5_count1 = 9, md5_abcd = (1, 2, 3, 4),
        md5_buf = replicate 64 7\<rparr>) [[0x61], replicate 70 0x62, [0x63]] = Some p
     \<and> mongo_md5_finish p = Some (md5 (concat [[0x61], replicate 70 0x62, [0x63]]), p')"
  by (rule md5_stream_correct) simp_all

text \<open>
  The block function is MD5's: the digests of the empty message, of \<open>abc\<close> and of
  \<open>message digest\<close> are the ones RFC 1321 lists.
\<close>
lemma md5_rfc_vectors:
  "md5 [] = [0xd4, 0x1d, 0x8c, 0xd9, 0x8f, 0x00, 0xb2, 0x04, 0xe9, 0x80, 0x09, 0x98, 0xec, 0xf8, 0x42, 0x7e]
   \<and> md5 [0x61, 0x62, 0x63] = [0x90, 0x01, 0x50, 0x98, 0x3c, 0xd2, 0x4f, 0xb0, 0xd6, 0x96, 0x3f, 0x7d, 0x28, 0xe1, 0x7f, 0x72]
   \<and> md5 [0x6d, 0x65, 0x73, 0x73, 0x61, 0x67, 0x65, 0x20, 0x64, 0x69, 0x67, 0x65, 0x73, 0x74]
     = [0xf9, 0x6b, 0x69, 0x7d, 0x7c, 0xb7, 0x93, 0x8d, 0x52, 0x5a, 0x2f, 0x31, 0xaa, 0xf1, 0x61, 0xd0]"
  by code_simp

end
