(* ===== verification/Bcon.thy ===== *)
theory Bcon
  imports Bson_Props
begin

text \<open>
  BCON: \<open>bson/bson/bcon.c\<close>, which builds a document from a C array of literals with a small state
  machine.  A \<open>union bcon\<close> is the member that was stored in it; reading another member is a fault,
  and so is running past the end of the array, which has to contain the terminator \<open>"."\<close>.
\<close>

section \<open>Data\<close>

datatype bcon =
    B_str "byte list option"
  | B_double i64
  | B_doc "bcon list"
  | B_int i32
  | B_long i64
  | B_ref bcon
  | B_ptr "bcon option"

datatype bcon_error_t = BCON_OK | BCON_ERROR | BCON_DOCUMENT_INCOMPLETE | BCON_BSON_ERROR

datatype bcon_token_t = Token_Default | Token_End | Token_Typespec | Token_OpenBrace
  | Token_CloseBrace | Token_OpenBracket | Token_CloseBracket | Token_EOD

datatype bcon_state_t = State_Element | State_DocSpecValue | State_DocValue | State_ArraySpecValue
  | State_ArrayValue

text \<open>Characters of the type specifiers and tokens.\<close>

definition ch :: "char \<Rightarrow> byte" where "ch c = of_char c"

lemma ch_simps [simp]:
  "ch CHR '':'' = 0x3A" "ch CHR ''{'' = 0x7B" "ch CHR ''}'' = 0x7D" "ch CHR ''['' = 0x5B"
  "ch CHR '']'' = 0x5D" "ch CHR ''.'' = 0x2E" "ch CHR ''_'' = 0x5F" "ch CHR ''P'' = 0x50"
  "ch CHR ''R'' = 0x52" "ch CHR ''f'' = 0x66" "ch CHR ''s'' = 0x73" "ch CHR ''D'' = 0x44"
  "ch CHR ''A'' = 0x41" "ch CHR ''o'' = 0x6F" "ch CHR ''b'' = 0x62" "ch CHR ''t'' = 0x74"
  "ch CHR ''v'' = 0x76" "ch CHR ''x'' = 0x78" "ch CHR ''i'' = 0x69" "ch CHR ''l'' = 0x6C"
  by (simp_all add: ch_def)

definition bcon_token :: "byte list option \<Rightarrow> bcon_token_t" where
  "bcon_token p =
     (case p of
        None \<Rightarrow> Token_EOD
      | Some s \<Rightarrow>
          if at0 s 0 = ch CHR '':'' then
            (if at0 s 1 \<noteq> 0 \<and> at0 s 2 \<noteq> 0 \<and> at0 s 3 \<noteq> 0 \<and> at0 s 4 = 0 \<and> at0 s 3 = ch CHR '':''
                \<and> (at0 s 1 = ch CHR ''_'' \<or> at0 s 1 = ch CHR ''P'' \<or> at0 s 1 = ch CHR ''R'')
             then Token_Typespec else Token_Default)
          else if at0 s 0 = ch CHR ''{'' \<and> at0 s 1 = 0 then Token_OpenBrace
          else if at0 s 0 = ch CHR ''}'' \<and> at0 s 1 = 0 then Token_CloseBrace
          else if at0 s 0 = ch CHR ''['' \<and> at0 s 1 = 0 then Token_OpenBracket
          else if at0 s 0 = ch CHR '']'' \<and> at0 s 1 = 0 then Token_CloseBracket
          else if at0 s 0 = ch CHR ''.'' \<and> at0 s 1 = 0 then Token_End
          else Token_Default)"

text \<open>The allocator, and the clock, user functions and random numbers of \<open>bson_oid_gen\<close>.\<close>

record bcon_env =
  be_alloc :: allocator
  be_time :: i64
  be_inc :: "i32 option"
  be_fuzz :: "i32 option"
  be_rand :: "i32 \<Rightarrow> i32"

text \<open>The builder under construction and the static state of \<open>bson_oid_gen\<close>.\<close>

type_synonym bcon_sink = "bson \<times> oid_statics"

text \<open>The calls into the builder ignore its status.\<close>

definition put :: "bcon_sink \<Rightarrow> (bson \<Rightarrow> (status \<times> bson) option) \<Rightarrow> bcon_sink option" where
  "put sk f = map_option (\<lambda>(_, b). (b, snd sk)) (f (fst sk))"

section \<open>One value\<close>

definition ptype :: "byte list option \<Rightarrow> byte" where
  "ptype typespec = (case typespec of None \<Rightarrow> ch CHR ''_'' | Some s \<Rightarrow> at0 s 1)"

definition utype :: "byte list option \<Rightarrow> byte" where
  "utype typespec = (case typespec of None \<Rightarrow> ch CHR ''_'' | Some s \<Rightarrow> at0 s 2)"

text \<open>
  The actions of the leaf types, on the member they read.  A null string is a fault in
  \<open>strlen\<close>.
\<close>

definition put_oid :: "bcon_env \<Rightarrow> bcon_sink \<Rightarrow> byte list \<Rightarrow> byte list \<Rightarrow> bcon_sink option" where
  "put_oid env sk key s =
     (if s = [] then
        let (oid, st) = bson_oid_gen (be_time env) (be_inc env) (be_fuzz env) (be_rand env) (snd sk)
        in put (fst sk, st) (\<lambda>b. bson_append_oid (be_alloc env) b key oid)
      else do {
        oid \<leftarrow> bson_oid_from_string s;
        put sk (\<lambda>b. bson_append_oid (be_alloc env) b key oid) })"

definition put_leaf :: "bcon_env \<Rightarrow> bcon_sink \<Rightarrow> byte list \<Rightarrow> byte \<Rightarrow> bcon \<Rightarrow> bcon_sink option" where
  "put_leaf env sk key u c =
     (let A = be_alloc env in
      case c of
        B_str (Some s) \<Rightarrow>
          if u = ch CHR ''s'' then put sk (\<lambda>b. bson_append_string A b key s)
          else if u = ch CHR ''x'' then put sk (\<lambda>b. bson_append_symbol A b key s)
          else if u = ch CHR ''o'' then put_oid env sk key s
          else None
      | B_double d \<Rightarrow>
          if u = ch CHR ''f'' then put sk (\<lambda>b. bson_append_double A b key d) else None
      | B_int i \<Rightarrow>
          if u = ch CHR ''i'' then put sk (\<lambda>b. bson_append_int A b key i)
          else if u = ch CHR ''b'' then put sk (\<lambda>b. bson_append_bool A b key i)
          else None
      | B_long l \<Rightarrow>
          if u = ch CHR ''l'' then put sk (\<lambda>b. bson_append_long A b key l)
          else if u = ch CHR ''t'' then put sk (\<lambda>b. bson_append_time_t A b key l)
          else None
      | _ \<Rightarrow> None)"

text \<open>The types that are not embedded documents: three tables, by interpolation.\<close>

definition bcon_scalar ::
  "bcon_env \<Rightarrow> bcon_sink \<Rightarrow> byte list \<Rightarrow> byte list option \<Rightarrow> bcon \<Rightarrow> bcon_sink option" where
  "bcon_scalar env sk key typespec c =
     (let p = ptype typespec; u = utype typespec in
      if p = ch CHR ''_'' then
        (if u = ch CHR ''v'' then put sk (\<lambda>b. bson_append_null (be_alloc env) b key)
         else put_leaf env sk key (if u = ch CHR ''_'' then ch CHR ''s'' else u) c)
      else if p = ch CHR ''R'' then
        (if u = ch CHR ''s'' \<or> u = ch CHR ''o'' \<or> u = ch CHR ''x'' then put_leaf env sk key u c
         else (case c of B_ref v \<Rightarrow> put_leaf env sk key u v | _ \<Rightarrow> None))
      else if p = ch CHR ''P'' then
        (case c of
           B_ptr None \<Rightarrow> Some sk
         | B_ptr (Some v) \<Rightarrow> put_leaf env sk key u v
         | _ \<Rightarrow> None)
      else None)"

text \<open>The embedded document a value interpolates, and whether it is an array.\<close>

definition bcon_sub :: "byte list option \<Rightarrow> bcon \<Rightarrow> (bool \<times> bcon list) option" where
  "bcon_sub typespec c =
     (let p = ptype typespec; u = utype typespec in
      if u = ch CHR ''D'' \<or> u = ch CHR ''A'' then
        (case c of
           B_doc sub \<Rightarrow> if p = ch CHR ''_'' \<or> p = ch CHR ''R'' then Some (u = ch CHR ''A'', sub) else None
         | B_ptr (Some (B_doc sub)) \<Rightarrow> if p = ch CHR ''P'' then Some (u = ch CHR ''A'', sub) else None
         | _ \<Rightarrow> None)
      else None)"

lemma bcon_sub_size: "bcon_sub ts c = Some (arr, sub) \<Longrightarrow> size_list size sub < size c"
  by (auto simp: bcon_sub_def Let_def split: bcon.splits option.splits if_splits)

section \<open>The state machine\<close>

definition ARRAY_INDEX_BUFFER_SIZE :: nat where "ARRAY_INDEX_BUFFER_SIZE = 9"
definition DOC_STACK_SIZE :: nat where "DOC_STACK_SIZE = 1024"
definition ARRAY_INDEX_STACK_SIZE :: nat where "ARRAY_INDEX_STACK_SIZE = 1024"

record bcon_fsm =
  fs_sink :: bcon_sink
  fs_ret :: bcon_error_t
  fs_state :: bcon_state_t
  fs_key :: "byte list option"
  fs_typespec :: "byte list option"
  fs_doc_stack :: "bcon_state_t list"
  fs_array_index :: nat
  fs_array_index_stack :: "nat list"
  fs_end :: bool

definition fsm_init :: "bcon_sink \<Rightarrow> bcon_state_t \<Rightarrow> bcon_fsm" where
  "fsm_init sk start = \<lparr>fs_sink = sk, fs_ret = BCON_OK, fs_state = start, fs_key = None,
     fs_typespec = None, fs_doc_stack = [], fs_array_index = 0, fs_array_index_stack = [],
     fs_end = False\<rparr>"

text \<open>The stacks are arrays of 1024 slots; the lists have the top first.\<close>

definition doc_push_state :: "bcon_state_t \<Rightarrow> bcon_fsm \<Rightarrow> bcon_fsm option" where
  "doc_push_state s fs =
     (if length (fs_doc_stack fs) < DOC_STACK_SIZE
      then Some (fs\<lparr>fs_doc_stack := s # fs_doc_stack fs\<rparr>) else None)"

definition doc_pop_state :: "bcon_fsm \<Rightarrow> bcon_fsm option" where
  "doc_pop_state fs =
     (case fs_doc_stack fs of [] \<Rightarrow> None | s # st \<Rightarrow> Some (fs\<lparr>fs_state := s, fs_doc_stack := st\<rparr>))"

definition array_push_reset_index_state :: "bcon_state_t \<Rightarrow> bcon_fsm \<Rightarrow> bcon_fsm option" where
  "array_push_reset_index_state s fs =
     (if length (fs_array_index_stack fs) < ARRAY_INDEX_STACK_SIZE
      then doc_push_state s (fs\<lparr>fs_array_index_stack := fs_array_index fs # fs_array_index_stack fs,
                                fs_array_index := 0\<rparr>) else None)"

definition array_pop_index_state :: "bcon_fsm \<Rightarrow> bcon_fsm option" where
  "array_pop_index_state fs =
     (case fs_array_index_stack fs of
        [] \<Rightarrow> None
      | k # ks \<Rightarrow> doc_pop_state (fs\<lparr>fs_array_index := k, fs_array_index_stack := ks\<rparr>))"

text \<open>
  \<open>ARRAY_KEY_STRING(array_index++)\<close>: the digits have to fit the buffer of nine bytes.
\<close>

definition array_key_string :: "bcon_fsm \<Rightarrow> (byte list \<times> bcon_fsm) option" where
  "array_key_string fs = do {
     buf \<leftarrow> bson_numstr (wrap32 (int (fs_array_index fs)));
     if length buf > ARRAY_INDEX_BUFFER_SIZE then None
     else do {
       key \<leftarrow> cstring buf 0;
       Some (key, fs\<lparr>fs_key := Some key, fs_array_index := fs_array_index fs + 1\<rparr>) } }"

definition fs_put :: "bcon_fsm \<Rightarrow> (bson \<Rightarrow> (status \<times> bson) option) \<Rightarrow> bcon_fsm option" where
  "fs_put fs f = map_option (\<lambda>sk. fs\<lparr>fs_sink := sk\<rparr>) (put (fs_sink fs) f)"

text \<open>
  One iteration up to the call of \<open>bson_bcon_key_value\<close>: \<open>Value key ts fs\<close> is an iteration that
  makes the call and stores its result in \<open>ret\<close>.
\<close>

datatype bcon_event = Continue bcon_fsm | Value "byte list" "byte list option" bcon_fsm

text \<open>\<open>bcon_token(s)\<close> of a cell: only a string cell may be read as one.\<close>

definition cell_token :: "bcon \<Rightarrow> bcon_token_t option" where
  "cell_token c = (case c of B_str p \<Rightarrow> Some (bcon_token p) | _ \<Rightarrow> None)"

definition cell_str :: "bcon \<Rightarrow> byte list option" where
  "cell_str c = (case c of B_str p \<Rightarrow> p | _ \<Rightarrow> None)"

definition bcon_step :: "bcon_env \<Rightarrow> bcon_fsm \<Rightarrow> bcon \<Rightarrow> bcon_event option" where
  "bcon_step env fs c =
     (let A = be_alloc env in
      case fs_state fs of
        State_Element \<Rightarrow> do {
          t \<leftarrow> cell_token c;
          case t of
            Token_CloseBrace \<Rightarrow> do {
              fs \<leftarrow> fs_put fs (bson_append_finish_object A);
              map_option Continue (doc_pop_state fs) }
          | Token_End \<Rightarrow> Some (Continue (fs\<lparr>fs_end := True\<rparr>))
          | _ \<Rightarrow> Some (Continue (fs\<lparr>fs_key := cell_str c, fs_state := State_DocSpecValue\<rparr>)) }
      | State_DocSpecValue \<Rightarrow> do {
          t \<leftarrow> cell_token c;
          case t of
            Token_Typespec \<Rightarrow> Some (Continue (fs\<lparr>fs_typespec := cell_str c, fs_state := State_DocValue\<rparr>))
          | Token_OpenBrace \<Rightarrow> do {
              key \<leftarrow> fs_key fs;
              fs \<leftarrow> fs_put fs (\<lambda>b. bson_append_start_object A b key);
              fs \<leftarrow> doc_push_state State_Element fs;
              Some (Continue (fs\<lparr>fs_state := State_Element\<rparr>)) }
          | Token_OpenBracket \<Rightarrow> do {
              key \<leftarrow> fs_key fs;
              fs \<leftarrow> fs_put fs (\<lambda>b. bson_append_start_array A b key);
              fs \<leftarrow> array_push_reset_index_state State_Element fs;
              Some (Continue (fs\<lparr>fs_state := State_ArraySpecValue\<rparr>)) }
          | Token_End \<Rightarrow> Some (Continue (fs\<lparr>fs_end := True\<rparr>))
          | _ \<Rightarrow> do {
              key \<leftarrow> fs_key fs;
              Some (Value key (fs_typespec fs) (fs\<lparr>fs_state := State_Element\<rparr>)) } }
      | State_DocValue \<Rightarrow> do {
          key \<leftarrow> fs_key fs;
          Some (Value key (fs_typespec fs) (fs\<lparr>fs_state := State_Element, fs_typespec := None\<rparr>)) }
      | State_ArraySpecValue \<Rightarrow> do {
          t \<leftarrow> cell_token c;
          case t of
            Token_Typespec \<Rightarrow> Some (Continue (fs\<lparr>fs_typespec := cell_str c, fs_state := State_ArrayValue\<rparr>))
          | Token_OpenBrace \<Rightarrow> do {
              (key, fs) \<leftarrow> array_key_string fs;
              fs \<leftarrow> fs_put fs (\<lambda>b. bson_append_start_object A b key);
              fs \<leftarrow> doc_push_state State_ArraySpecValue fs;
              Some (Continue (fs\<lparr>fs_state := State_Element\<rparr>)) }
          | Token_OpenBracket \<Rightarrow> do {
              (key, fs) \<leftarrow> array_key_string fs;
              fs \<leftarrow> fs_put fs (\<lambda>b. bson_append_start_array A b key);
              map_option Continue (array_push_reset_index_state State_ArraySpecValue fs) }
          | Token_CloseBracket \<Rightarrow> do {
              fs \<leftarrow> fs_put fs (bson_append_finish_array A);
              map_option Continue (array_pop_index_state fs) }
          | Token_End \<Rightarrow> Some (Continue (fs\<lparr>fs_end := True\<rparr>))
          | _ \<Rightarrow> do {
              (key, fs) \<leftarrow> array_key_string fs;
              Some (Value key (fs_typespec fs) fs) } }
      | State_ArrayValue \<Rightarrow> do {
          (key, fs) \<leftarrow> array_key_string fs;
          Some (Value key (fs_typespec fs) (fs\<lparr>fs_state := State_ArraySpecValue, fs_typespec := None\<rparr>)) })"

definition bcon_result :: "bcon_state_t \<Rightarrow> bcon_fsm \<Rightarrow> bcon_error_t \<times> bcon_sink" where
  "bcon_result start fs =
     ((if fs_state fs = start then BCON_OK else BCON_DOCUMENT_INCOMPLETE), fs_sink fs)"

declare option.case_cong [fundef_cong] bcon_event.case_cong [fundef_cong]

function bson_bcon_key_value ::
    "bcon_env \<Rightarrow> bcon_sink \<Rightarrow> byte list \<Rightarrow> byte list option \<Rightarrow> bcon \<Rightarrow> (bcon_error_t \<times> bcon_sink) option"
  and bcon_loop :: "bcon_env \<Rightarrow> bcon_fsm \<Rightarrow> bcon list \<Rightarrow> bcon_fsm option" where
  "bson_bcon_key_value env sk key typespec bci =
     (case bcon_sub typespec bci of
        Some (is_array, sub) \<Rightarrow> do {
          sk \<leftarrow> put sk (\<lambda>b. if is_array then bson_append_start_array (be_alloc env) b key
                         else bson_append_start_object (be_alloc env) b key);
          let start = (if is_array then State_ArraySpecValue else State_Element);
          fs \<leftarrow> bcon_loop env (fsm_init sk start) sub;
          let (ret, sk) = bcon_result start fs;
          sk \<leftarrow> put sk (\<lambda>b. if is_array then bson_append_finish_array (be_alloc env) b
                         else bson_append_finish_object (be_alloc env) b);
          Some (ret, sk) }
      | None \<Rightarrow> map_option (Pair BCON_OK) (bcon_scalar env sk key typespec bci))"
| "bcon_loop env fs cs =
     (if fs_ret fs \<noteq> BCON_OK \<or> fs_end fs then Some fs
      else (case cs of
              [] \<Rightarrow> None
            | c # cs \<Rightarrow>
                (case bcon_step env fs c of
                   None \<Rightarrow> None
                 | Some (Continue fs) \<Rightarrow> bcon_loop env fs cs
                 | Some (Value key ts fs) \<Rightarrow>
                     (case bson_bcon_key_value env (fs_sink fs) key ts c of
                        None \<Rightarrow> None
                      | Some (ret, sk) \<Rightarrow> bcon_loop env (fs\<lparr>fs_sink := sk, fs_ret := ret\<rparr>) cs))))"
  by pat_completeness auto
termination
  by (relation "measure (\<lambda>x. case x of Inl (_, _, _, _, c) \<Rightarrow> size c | Inr (_, _, cs) \<Rightarrow> size_list size cs)")
    (auto dest: bcon_sub_size)

declare bson_bcon_key_value.simps [simp del] bcon_loop.simps [simp del]

definition bson_append_bcon_with_state ::
  "bcon_env \<Rightarrow> bcon_sink \<Rightarrow> bcon list \<Rightarrow> bcon_state_t \<Rightarrow> (bcon_error_t \<times> bcon_sink) option" where
  "bson_append_bcon_with_state env sk bc start_state =
     map_option (bcon_result start_state) (bcon_loop env (fsm_init sk start_state) bc)"

definition bson_append_bcon :: "bcon_env \<Rightarrow> bcon_sink \<Rightarrow> bcon list \<Rightarrow> (bcon_error_t \<times> bcon_sink) option" where
  "bson_append_bcon env sk bc = bson_append_bcon_with_state env sk bc State_Element"

definition bson_append_bcon_array :: "bcon_env \<Rightarrow> bcon_sink \<Rightarrow> bcon list \<Rightarrow> (bcon_error_t \<times> bcon_sink) option" where
  "bson_append_bcon_array env sk bc = bson_append_bcon_with_state env sk bc State_ArraySpecValue"

definition bson_from_bcon :: "bcon_env \<Rightarrow> oid_statics \<Rightarrow> bcon list \<Rightarrow> (bcon_error_t \<times> bcon_sink) option" where
  "bson_from_bcon env st bc = do {
     let (_, b) = bson_init (be_alloc env);
     (ret, sk) \<leftarrow> bson_append_bcon_with_state env (b, st) bc State_Element;
     if ret \<noteq> BCON_OK then Some (ret, sk)
     else do {
       (r, b) \<leftarrow> bson_finish (be_alloc env) (fst sk);
       Some (if r = BSON_OK then BCON_OK else BCON_BSON_ERROR, (b, snd sk)) } }"

section \<open>Documents as BCON\<close>

definition tok :: "char \<Rightarrow> bcon" where "tok c = B_str (Some [ch c])"

definition spec :: "char \<Rightarrow> bcon" where
  "spec c = B_str (Some [ch CHR '':'', ch CHR ''_'', ch c, ch CHR '':''])"

fun val_cells :: "bson_val \<Rightarrow> bcon list"
  and doc_cells :: "bson_doc \<Rightarrow> bcon list"
  and array_cells :: "bson_doc \<Rightarrow> bcon list" where
  "val_cells (VString s) = [spec CHR ''s'', B_str (Some s)]"
| "val_cells (VSymbol s) = [spec CHR ''x'', B_str (Some s)]"
| "val_cells (VDouble d) = [spec CHR ''f'', B_double d]"
| "val_cells (VBool b) = [spec CHR ''b'', B_int (if b then 1 else 0)]"
| "val_cells (VInt i) = [spec CHR ''i'', B_int i]"
| "val_cells (VLong l) = [spec CHR ''l'', B_long l]"
| "val_cells VNull = [spec CHR ''v'', B_str (Some [])]"
| "val_cells (VOid oid) = [spec CHR ''o'', B_str (Some (concat (map byte_to_hex oid)))]"
| "val_cells (VObject es) = tok CHR ''{'' # doc_cells es @ [tok CHR ''}'']"
| "val_cells (VArray es) = tok CHR ''['' # array_cells es @ [tok CHR '']'']"
| "val_cells v = []"
| "doc_cells [] = []"
| "doc_cells ((n, v) # es) = B_str (Some n) # val_cells v @ doc_cells es"
| "array_cells [] = []"
| "array_cells ((n, v) # es) = val_cells v @ array_cells es"

text \<open>
  The documents BCON can write: its value types, no key that is the token \<open>}\<close> or \<open>.\<close>, array
  elements named by their index.
\<close>

fun val_bcon :: "bson_val \<Rightarrow> bool"
  and doc_bcon :: "bson_doc \<Rightarrow> bool"
  and array_bcon :: "nat \<Rightarrow> bson_doc \<Rightarrow> bool" where
  "val_bcon (VString s) = True"
| "val_bcon (VSymbol s) = True"
| "val_bcon (VDouble d) = True"
| "val_bcon (VBool b) = True"
| "val_bcon (VInt i) = True"
| "val_bcon (VLong l) = True"
| "val_bcon VNull = True"
| "val_bcon (VOid oid) = (length oid = 12)"
| "val_bcon (VObject es) = doc_bcon es"
| "val_bcon (VArray es) = array_bcon 0 es"
| "val_bcon v = False"
| "doc_bcon [] = True"
| "doc_bcon ((n, v) # es) = (n \<noteq> [ch CHR ''}''] \<and> n \<noteq> [ch CHR ''.''] \<and> 0 \<notin> set n \<and> val_bcon v \<and> doc_bcon es)"
| "array_bcon k [] = True"
| "array_bcon k ((n, v) # es) = (n = decimal k \<and> k < 10 ^ 8 \<and> val_bcon v \<and> array_bcon (k + 1) es)"

fun val_depth :: "bson_val \<Rightarrow> nat" and doc_depth :: "bson_doc \<Rightarrow> nat" where
  "val_depth (VObject es) = 1 + doc_depth es"
| "val_depth (VArray es) = 1 + doc_depth es"
| "val_depth _ = 0"
| "doc_depth [] = 0"
| "doc_depth ((n, v) # es) = max (val_depth v) (doc_depth es)"

definition room :: "nat \<Rightarrow> bcon_fsm \<Rightarrow> bool" where
  "room d fs \<longleftrightarrow> length (fs_doc_stack fs) + d \<le> 1024 \<and> length (fs_array_index_stack fs) + d \<le> 1024"

definition running :: "bcon_fsm \<Rightarrow> bool" where
  "running fs \<longleftrightarrow> fs_ret fs = BCON_OK \<and> \<not> fs_end fs \<and> fs_typespec fs = None"

lemma tokens:
  "bcon_token (Some [0x7B]) = Token_OpenBrace" "bcon_token (Some [0x7D]) = Token_CloseBrace"
  "bcon_token (Some [0x5B]) = Token_OpenBracket" "bcon_token (Some [0x5D]) = Token_CloseBracket"
  "bcon_token (Some [0x2E]) = Token_End" "c \<noteq> 0 \<Longrightarrow> bcon_token (Some [0x3A, 0x5F, c, 0x3A]) = Token_Typespec"
  by (simp_all add: bcon_token_def at0_def)

lemma key_token:
  assumes "n \<noteq> [0x7D]" "n \<noteq> [0x2E]" "0 \<notin> set n"
  shows "bcon_token (Some n) \<noteq> Token_CloseBrace" "bcon_token (Some n) \<noteq> Token_End"
proof -
  have "at0 n 1 = 0 \<Longrightarrow> at0 n 0 = c \<Longrightarrow> c \<noteq> 0 \<Longrightarrow> n = [c]" for c
    using assms(3) by (cases n; cases "tl n") (auto simp: at0_def split: if_splits)
  then show "bcon_token (Some n) \<noteq> Token_CloseBrace" "bcon_token (Some n) \<noteq> Token_End"
    using assms(1,2) by (auto simp: bcon_token_def)
qed

lemma array_key:
  assumes "fs_array_index fs < 10 ^ 8"
  shows "array_key_string fs = Some (decimal (fs_array_index fs),
     fs\<lparr>fs_key := Some (decimal (fs_array_index fs)), fs_array_index := fs_array_index fs + 1\<rparr>)"
proof -
  let ?i = "int (fs_array_index fs)"
  have w: "wrap32 ?i = ?i" using assms by (simp add: wrap32_id in_int_def)
  obtain bs where bs: "bson_numstr ?i = Some bs" "cstring bs 0 = Some (decimal (nat ?i))"
    using numstr_cstring [of ?i] by auto
  have "length bs \<le> 9"
    using bs(1) assms decimal_length_bounds [of "fs_array_index fs" 8]
    by (auto simp: bson_numstr_def split: if_splits)
  then show ?thesis
    using w bs by (simp add: array_key_string_def ARRAY_INDEX_BUFFER_SIZE_def)
qed

section \<open>Running the machine on a document\<close>

lemma loop_continue:
  "fs_ret fs = BCON_OK \<Longrightarrow> \<not> fs_end fs \<Longrightarrow> bcon_step env fs c = Some (Continue fs') \<Longrightarrow>
   bcon_loop env fs (c # cs) = bcon_loop env fs' cs"
  by (simp add: bcon_loop.simps [of env fs])

lemma loop_value:
  "fs_ret fs = BCON_OK \<Longrightarrow> \<not> fs_end fs \<Longrightarrow> bcon_step env fs c = Some (Value key ts fs') \<Longrightarrow>
   bson_bcon_key_value env (fs_sink fs') key ts c = Some (BCON_OK, sk) \<Longrightarrow>
   bcon_loop env fs (c # cs) = bcon_loop env (fs'\<lparr>fs_sink := sk, fs_ret := BCON_OK\<rparr>) cs"
  by (simp add: bcon_loop.simps [of env fs])

text \<open>The machine stands where a value is expected that will be named \<open>n\<close>.\<close>

definition value_pos :: "bcon_fsm \<Rightarrow> byte list \<Rightarrow> bool" where
  "value_pos fs n \<longleftrightarrow> fs_state fs = State_DocSpecValue \<and> fs_key fs = Some n
     \<or> fs_state fs = State_ArraySpecValue \<and> n = decimal (fs_array_index fs) \<and> fs_array_index fs < 10 ^ 8"

definition value_done :: "bcon_fsm \<Rightarrow> bson \<Rightarrow> byte list option \<Rightarrow> bcon_fsm" where
  "value_done fs b key = fs\<lparr>fs_sink := (b, snd (fs_sink fs)),
     fs_state := (if fs_state fs = State_DocSpecValue then State_Element else State_ArraySpecValue),
     fs_key := key,
     fs_array_index := (if fs_state fs = State_DocSpecValue then fs_array_index fs else fs_array_index fs + 1)\<rparr>"

fun is_leaf :: "bson_val \<Rightarrow> bool" where
  "is_leaf (VObject es) = False"
| "is_leaf (VArray es) = False"
| "is_leaf v = True"

lemma put_step: "api_step A (fst sk) c = Some (r, b) \<Longrightarrow> put sk (\<lambda>b. api_step A b c) = Some (b, snd sk)"
  by (simp add: put_def)

lemma oid_hex: "length oid = 12 \<Longrightarrow> bson_oid_from_string (concat (map byte_to_hex oid)) = Some oid"
  using oid_from_to_bytes [of oid "[0]"] by (simp add: bson_oid_from_string_def)

fun leaf_char :: "bson_val \<Rightarrow> char" where
  "leaf_char (VString s) = CHR ''s''"
| "leaf_char (VSymbol s) = CHR ''x''"
| "leaf_char (VDouble d) = CHR ''f''"
| "leaf_char (VBool b) = CHR ''b''"
| "leaf_char (VInt i) = CHR ''i''"
| "leaf_char (VLong l) = CHR ''l''"
| "leaf_char VNull = CHR ''v''"
| "leaf_char _ = CHR ''o''"

lemma leaf_cells:
  assumes "val_bcon v" "is_leaf v" and "api_run (be_alloc env) (fst sk) (val_calls n v) = Some (rs, b)"
  shows "\<exists>cell. val_cells v = [spec (leaf_char v), cell] \<and> ch (leaf_char v) \<noteq> 0
     \<and> bson_bcon_key_value env sk n (Some [0x3A, 0x5F, ch (leaf_char v), 0x3A]) cell
         = Some (BCON_OK, (b, snd sk))"
proof -
  note defs = bson_bcon_key_value.simps bcon_sub_def bcon_scalar_def put_leaf_def ptype_def utype_def
    at0_def Let_def put_def
  show ?thesis
  proof (cases v)
    case (VOid oid)
    then have "concat (map byte_to_hex oid) \<noteq> []"
      using assms(1) by (cases oid) (simp_all add: byte_to_hex_def)
    then show ?thesis
      using VOid assms oid_hex [of oid]
      by (auto simp: defs put_oid_def Option.bind_eq_Some_conv)
  qed (use assms in \<open>auto simp: defs Option.bind_eq_Some_conv\<close>)
qed

lemma step_spec:
  assumes "running fs" "value_pos fs n" "ch u \<noteq> 0"
  shows "bcon_loop env fs (spec u # cell # rest) = bcon_loop env (fs\<lparr>fs_typespec := Some [0x3A, 0x5F, ch u, 0x3A],
     fs_state := (if fs_state fs = State_DocSpecValue then State_DocValue else State_ArrayValue)\<rparr>) (cell # rest)"
  using assms by (intro loop_continue)
    (auto simp: running_def value_pos_def bcon_step_def cell_token_def cell_str_def spec_def tokens)

lemma run_leaf:
  assumes "running fs" "value_pos fs n" "val_bcon v" "is_leaf v"
    and run: "api_run (be_alloc env) (fst (fs_sink fs)) (val_calls n v) = Some (rs, b)"
  shows "\<exists>key. bcon_loop env fs (val_cells v @ rest) = bcon_loop env (value_done fs b key) rest"
proof -
  define u where "u = leaf_char v"
  obtain cell where u: "val_cells v = [spec u, cell]" "ch u \<noteq> 0"
      "bson_bcon_key_value env (fs_sink fs) n (Some [0x3A, 0x5F, ch u, 0x3A]) cell
        = Some (BCON_OK, (b, snd (fs_sink fs)))"
    using leaf_cells [OF assms(3,4) run] unfolding u_def by blast
  let ?ts = "Some [0x3A, 0x5F, ch u, 0x3A]"
  let ?f1 = "fs\<lparr>fs_typespec := ?ts,
     fs_state := (if fs_state fs = State_DocSpecValue then State_DocValue else State_ArrayValue)\<rparr>"
  have "\<exists>f2. bcon_step env ?f1 cell = Some (Value n ?ts f2) \<and> fs_sink f2 = fs_sink fs
      \<and> f2\<lparr>fs_sink := (b, snd (fs_sink fs)), fs_ret := BCON_OK\<rparr> = value_done fs b (Some n)"
    using assms(1,2) array_key [of ?f1]
    by (cases fs) (auto simp: running_def value_pos_def value_done_def bcon_step_def)
  then obtain f2 where "bcon_step env ?f1 cell = Some (Value n ?ts f2)" "fs_sink f2 = fs_sink fs"
      "f2\<lparr>fs_sink := (b, snd (fs_sink fs)), fs_ret := BCON_OK\<rparr> = value_done fs b (Some n)" by blast
  then have "bcon_loop env ?f1 (cell # rest) = bcon_loop env (value_done fs b (Some n)) rest"
    using loop_value [of ?f1 env cell n ?ts f2] u(3) assms(1) by (simp add: running_def)
  then show ?thesis using u(1) step_spec [OF assms(1,2) u(2)] by auto
qed

text \<open>Inside a subobject: where to return to is on the stacks.\<close>

definition in_object :: "bcon_fsm \<Rightarrow> bson \<Rightarrow> byte list option \<Rightarrow> bcon_fsm" where
  "in_object fs b key = (value_done fs b key)\<lparr>fs_state := State_Element,
     fs_doc_stack := fs_state (value_done fs b key) # fs_doc_stack fs\<rparr>"

definition in_array :: "bcon_fsm \<Rightarrow> bson \<Rightarrow> byte list option \<Rightarrow> nat \<Rightarrow> bcon_fsm" where
  "in_array fs b key k = (value_done fs b key)\<lparr>fs_state := State_ArraySpecValue,
     fs_doc_stack := fs_state (value_done fs b key) # fs_doc_stack fs,
     fs_array_index_stack := fs_array_index (value_done fs b key) # fs_array_index_stack fs,
     fs_array_index := k\<rparr>"

lemma run_open_object:
  assumes "running fs" "value_pos fs n" "room (Suc d) fs"
    and "api_step (be_alloc env) (fst (fs_sink fs)) (Start_object n) = Some (r, b)"
  shows "\<exists>key. bcon_loop env fs (tok CHR ''{'' # cs) = bcon_loop env (in_object fs b key) cs"
proof -
  have "bcon_step env fs (tok CHR ''{'') = Some (Continue (in_object fs b (Some n)))"
    using assms array_key [of fs]
    by (cases fs) (auto simp: running_def value_pos_def value_done_def in_object_def bcon_step_def cell_token_def
        tok_def tokens fs_put_def put_def doc_push_state_def room_def DOC_STACK_SIZE_def)
  then show ?thesis using loop_continue assms(1) by (auto simp: running_def)
qed

lemma run_open_array:
  assumes "running fs" "value_pos fs n" "room (Suc d) fs"
    and "api_step (be_alloc env) (fst (fs_sink fs)) (Start_array n) = Some (r, b)"
  shows "\<exists>key. bcon_loop env fs (tok CHR ''['' # cs) = bcon_loop env (in_array fs b key 0) cs"
proof -
  have "bcon_step env fs (tok CHR ''['') = Some (Continue (in_array fs b (Some n) 0))"
    using assms array_key [of fs]
    by (cases fs) (auto simp: running_def value_pos_def value_done_def in_array_def bcon_step_def cell_token_def
        tok_def tokens fs_put_def put_def doc_push_state_def array_push_reset_index_state_def room_def
        DOC_STACK_SIZE_def ARRAY_INDEX_STACK_SIZE_def)
  then show ?thesis using loop_continue assms(1) by (auto simp: running_def)
qed

lemma run_close_object:
  assumes "running fs" and "api_step (be_alloc env) b Finish_object = Some (r, b')"
  shows "bcon_loop env ((in_object fs b0 k0)\<lparr>fs_sink := (b, snd (fs_sink fs)), fs_key := key\<rparr>) (tok CHR ''}'' # cs)
    = bcon_loop env (value_done fs b' key) cs"
  using assms
  by (intro loop_continue) (auto simp: running_def value_done_def in_object_def bcon_step_def cell_token_def
      tok_def tokens fs_put_def put_def doc_pop_state_def)

lemma run_close_array:
  assumes "running fs" and "api_step (be_alloc env) b Finish_array = Some (r, b')"
  shows "bcon_loop env ((in_array fs b0 k0 i)\<lparr>fs_sink := (b, snd (fs_sink fs)), fs_key := key\<rparr>) (tok CHR '']'' # cs)
    = bcon_loop env (value_done fs b' key) cs"
  using assms
  by (intro loop_continue) (auto simp: running_def value_done_def in_array_def bcon_step_def cell_token_def
      tok_def tokens fs_put_def put_def doc_pop_state_def array_pop_index_state_def)

lemma inside:
  assumes "running fs" "room (Suc d) fs"
  shows "running (in_object fs b key)" "room d (in_object fs b key)" "running (in_array fs b key i)"
    "room d (in_array fs b key i)"
  using assms by (simp_all add: running_def room_def in_object_def in_array_def value_done_def)

lemma run_key:
  assumes "running fs" "fs_state fs = State_Element" "n \<noteq> [0x7D]" "n \<noteq> [0x2E]" "0 \<notin> set n"
  shows "bcon_loop env fs (B_str (Some n) # cs)
    = bcon_loop env (fs\<lparr>fs_key := Some n, fs_state := State_DocSpecValue\<rparr>) cs"
  using assms key_token [of n]
  by (intro loop_continue) (auto simp: running_def bcon_step_def cell_token_def cell_str_def
      split: bcon_token_t.splits)

lemma run_nested:
  assumes "api_run A b (c # cs @ [c']) = Some (rs, b')"
  obtains r b1 rs1 b2 r' where "api_step A b c = Some (r, b1)" "api_run A b1 cs = Some (rs1, b2)"
    "api_step A b2 c' = Some (r', b')"
  using assms by (auto simp: api_run_append Option.bind_eq_Some_conv)

lemma run_both:
  assumes "api_run A b (cs @ cs') = Some (rs, b')"
  obtains rs1 b1 rs2 where "api_run A b cs = Some (rs1, b1)" "api_run A b1 cs' = Some (rs2, b')"
  using assms by (auto simp: api_run_append Option.bind_eq_Some_conv)

lemma room_le: "room d fs \<Longrightarrow> d' \<le> d \<Longrightarrow> room d' fs"
  by (simp add: room_def)

lemma run_cells:
  "val_bcon v \<Longrightarrow> (\<And>fs n rs b rest. room (val_depth v) fs \<Longrightarrow> running fs \<Longrightarrow> value_pos fs n \<Longrightarrow>
     api_run (be_alloc env) (fst (fs_sink fs)) (val_calls n v) = Some (rs, b) \<Longrightarrow>
     \<exists>key. bcon_loop env fs (val_cells v @ rest) = bcon_loop env (value_done fs b key) rest)"
  "doc_bcon es \<Longrightarrow> (\<And>fs rs b rest. room (doc_depth es) fs \<Longrightarrow> running fs \<Longrightarrow> fs_state fs = State_Element \<Longrightarrow>
     api_run (be_alloc env) (fst (fs_sink fs)) (doc_calls es) = Some (rs, b) \<Longrightarrow>
     \<exists>key. bcon_loop env fs (doc_cells es @ rest)
       = bcon_loop env (fs\<lparr>fs_sink := (b, snd (fs_sink fs)), fs_key := key\<rparr>) rest)"
  "array_bcon k as \<Longrightarrow> (\<And>fs rs b rest. room (doc_depth as) fs \<Longrightarrow> running fs \<Longrightarrow>
     fs_state fs = State_ArraySpecValue \<Longrightarrow> k = fs_array_index fs \<Longrightarrow>
     api_run (be_alloc env) (fst (fs_sink fs)) (doc_calls as) = Some (rs, b) \<Longrightarrow>
     \<exists>key i. bcon_loop env fs (array_cells as @ rest)
       = bcon_loop env (fs\<lparr>fs_sink := (b, snd (fs_sink fs)), fs_key := key, fs_array_index := i\<rparr>) rest)"
proof (induction v and es and k as rule: val_bcon_doc_bcon_array_bcon.induct)
  case (9 es)
  from run_nested [OF 9(6) [unfolded val_calls.simps]] obtain r b1 rs1 b2 r'
    where st: "api_step (be_alloc env) (fst (fs_sink fs)) (Start_object n) = Some (r, b1)"
      "api_run (be_alloc env) b1 (doc_calls es) = Some (rs1, b2)"
      "api_step (be_alloc env) b2 Finish_object = Some (r', b)" .
  have rm: "room (Suc (doc_depth es)) fs" using 9(3) by simp
  obtain k1 where k1: "bcon_loop env fs (val_cells (VObject es) @ rest)
      = bcon_loop env (in_object fs b1 k1) (doc_cells es @ tok CHR ''}'' # rest)"
    using run_open_object [OF 9(4,5) rm st(1), of "doc_cells es @ tok CHR ''}'' # rest"] by auto
  have "fst (fs_sink (in_object fs b1 k1)) = b1" "fs_state (in_object fs b1 k1) = State_Element"
      "snd (fs_sink (in_object fs b1 k1)) = snd (fs_sink fs)"
    by (simp_all add: in_object_def value_done_def)
  with 9(1) [OF _ inside(2,1) [OF 9(4) rm], of b1 k1 rs1 b2 "tok CHR ''}'' # rest"] 9(2) st(2) obtain k2
    where "bcon_loop env (in_object fs b1 k1) (doc_cells es @ tok CHR ''}'' # rest)
      = bcon_loop env ((in_object fs b1 k1)\<lparr>fs_sink := (b2, snd (fs_sink fs)), fs_key := k2\<rparr>) (tok CHR ''}'' # rest)"
    by auto
  then show ?case using k1 run_close_object [OF 9(4) st(3)] by auto
next
  case (10 es)
  from run_nested [OF 10(6) [unfolded val_calls.simps]] obtain r b1 rs1 b2 r'
    where st: "api_step (be_alloc env) (fst (fs_sink fs)) (Start_array n) = Some (r, b1)"
      "api_run (be_alloc env) b1 (doc_calls es) = Some (rs1, b2)"
      "api_step (be_alloc env) b2 Finish_array = Some (r', b)" .
  have rm: "room (Suc (doc_depth es)) fs" using 10(3) by simp
  obtain k1 where k1: "bcon_loop env fs (val_cells (VArray es) @ rest)
      = bcon_loop env (in_array fs b1 k1 0) (array_cells es @ tok CHR '']'' # rest)"
    using run_open_array [OF 10(4,5) rm st(1), of "array_cells es @ tok CHR '']'' # rest"] by auto
  have "fst (fs_sink (in_array fs b1 k1 0)) = b1" "fs_state (in_array fs b1 k1 0) = State_ArraySpecValue"
      "snd (fs_sink (in_array fs b1 k1 0)) = snd (fs_sink fs)" "fs_array_index (in_array fs b1 k1 0) = 0"
    by (simp_all add: in_array_def value_done_def)
  with 10(1) [OF _ inside(4,3) [OF 10(4) rm], of b1 k1 0 rs1 b2 "tok CHR '']'' # rest"] 10(2) st(2) obtain k2 i
    where "bcon_loop env (in_array fs b1 k1 0) (array_cells es @ tok CHR '']'' # rest)
      = bcon_loop env ((in_array fs b1 k1 0)\<lparr>fs_sink := (b2, snd (fs_sink fs)), fs_key := k2, fs_array_index := i\<rparr>)
          (tok CHR '']'' # rest)"
    by auto
  moreover have "(in_array fs b1 k1 0)\<lparr>fs_sink := (b2, snd (fs_sink fs)), fs_key := k2, fs_array_index := i\<rparr>
      = (in_array fs b1 k1 i)\<lparr>fs_sink := (b2, snd (fs_sink fs)), fs_key := k2\<rparr>"
    by (simp add: in_array_def)
  ultimately show ?case using k1 run_close_array [OF 10(4) st(3)] by auto
next
  case (13 n v es)
  let ?f1 = "fs\<lparr>fs_key := Some n, fs_state := State_DocSpecValue\<rparr>"
  from run_both [OF 13(7) [unfolded doc_calls.simps]] obtain rs1 b1 rs2
    where st: "api_run (be_alloc env) (fst (fs_sink fs)) (val_calls n v) = Some (rs1, b1)"
      "api_run (be_alloc env) b1 (doc_calls es) = Some (rs2, b)" .
  have ok: "val_bcon v" "doc_bcon es" "n \<noteq> [0x7D]" "n \<noteq> [0x2E]" "0 \<notin> set n" using 13(3) by simp_all
  have rm: "room (val_depth v) ?f1" "room (doc_depth es) fs" "running ?f1" "value_pos ?f1 n"
    using 13(4,5) by (simp_all add: room_def running_def value_pos_def nat_add_max_right)
  have k0: "bcon_loop env fs (doc_cells ((n, v) # es) @ rest)
      = bcon_loop env ?f1 (val_cells v @ doc_cells es @ rest)"
    using run_key [OF 13(5,6) ok(3-5)] by simp
  obtain k1 where k1: "bcon_loop env ?f1 (val_cells v @ doc_cells es @ rest)
      = bcon_loop env (value_done ?f1 b1 k1) (doc_cells es @ rest)"
    using 13(1) [OF ok(1) rm(1,3,4), of rs1 b1 "doc_cells es @ rest"] st(1) by auto
  have vd: "value_done ?f1 b1 k1 = fs\<lparr>fs_sink := (b1, snd (fs_sink fs)), fs_key := k1\<rparr>"
    using 13(6) by (cases fs) (simp add: value_done_def)
  let ?f2 = "fs\<lparr>fs_sink := (b1, snd (fs_sink fs)), fs_key := k1\<rparr>"
  have "room (doc_depth es) ?f2" "running ?f2" "fs_state ?f2 = State_Element"
    using rm(2) 13(5,6) by (simp_all add: room_def running_def)
  from 13(2) [OF ok(2) this, of rs2 b rest] st(2) obtain k2
    where "bcon_loop env ?f2 (doc_cells es @ rest)
      = bcon_loop env (?f2\<lparr>fs_sink := (b, snd (fs_sink ?f2)), fs_key := k2\<rparr>) rest" by auto
  then show ?case using k0 k1 vd by auto
next
  case (15 k n v es)
  from run_both [OF 15(8) [unfolded doc_calls.simps]] obtain rs1 b1 rs2
    where st: "api_run (be_alloc env) (fst (fs_sink fs)) (val_calls n v) = Some (rs1, b1)"
      "api_run (be_alloc env) b1 (doc_calls es) = Some (rs2, b)" .
  have ok: "val_bcon v" "array_bcon (k + 1) es" "n = decimal k" "k < 10 ^ 8" using 15(3) by simp_all
  have rm: "room (val_depth v) fs" "room (doc_depth es) fs" "value_pos fs n"
    using 15(4,6,7) ok by (simp_all add: room_def value_pos_def nat_add_max_right)
  obtain k1 where k1: "bcon_loop env fs (val_cells v @ array_cells es @ rest)
      = bcon_loop env (value_done fs b1 k1) (array_cells es @ rest)"
    using 15(1) [OF ok(1) rm(1) 15(5) rm(3), of rs1 b1 "array_cells es @ rest"] st(1) by auto
  let ?f2 = "fs\<lparr>fs_sink := (b1, snd (fs_sink fs)), fs_key := k1, fs_array_index := k + 1\<rparr>"
  have vd: "value_done fs b1 k1 = ?f2"
    using 15(6,7) by (cases fs) (simp add: value_done_def)
  have "room (doc_depth es) ?f2" "running ?f2" "fs_state ?f2 = State_ArraySpecValue"
      "k + 1 = fs_array_index ?f2"
    using rm(2) 15(5,6) by (simp_all add: room_def running_def)
  from 15(2) [OF ok(2) this, of rs2 b rest] st(2) obtain k2 i
    where "bcon_loop env ?f2 (array_cells es @ rest)
      = bcon_loop env (?f2\<lparr>fs_sink := (b, snd (fs_sink ?f2)), fs_key := k2, fs_array_index := i\<rparr>) rest" by auto
  then show ?case using k1 vd by auto
next
  case (14 k)
  then show ?case
    by (intro exI [of _ "fs_key fs"] exI [of _ "fs_array_index fs"]) auto
next
  case 12
  then show ?case by (intro exI [of _ "fs_key fs"]) auto
qed (auto intro: run_leaf simp del: val_cells.simps val_calls.simps api_run.simps)

lemma run_end:
  assumes "running fs" "fs_state fs = State_Element"
  shows "bcon_loop env fs [tok CHR ''.''] = Some (fs\<lparr>fs_end := True\<rparr>)"
proof -
  have "bcon_step env fs (tok CHR ''.'') = Some (Continue (fs\<lparr>fs_end := True\<rparr>))"
    using assms by (simp add: running_def bcon_step_def cell_token_def tok_def tokens)
  then show ?thesis
    using assms(1) loop_continue [of fs env "tok CHR ''.''" "fs\<lparr>fs_end := True\<rparr>" "[]"]
    by (simp add: running_def bcon_loop.simps [of env "fs\<lparr>fs_end := True\<rparr>"])
qed

lemma append_bcon_doc:
  assumes "doc_bcon es" "doc_depth es \<le> 1024"
    and "api_run (be_alloc env) b (doc_calls es) = Some (rs, b')"
  shows "bson_append_bcon env (b, st) (doc_cells es @ [tok CHR ''.'']) = Some (BCON_OK, (b', st))"
proof -
  let ?fs = "fsm_init (b, st) State_Element"
  have init: "room (doc_depth es) ?fs" "running ?fs" "fs_state ?fs = State_Element" "fs_sink ?fs = (b, st)"
    using assms(2) by (simp_all add: room_def running_def fsm_init_def)
  obtain key where key: "bcon_loop env ?fs (doc_cells es @ [tok CHR ''.''])
      = bcon_loop env (?fs\<lparr>fs_sink := (b', st), fs_key := key\<rparr>) [tok CHR ''.'']"
    using run_cells(2) [OF assms(1) init(1-3), where rs = rs and b = b' and rest = "[tok CHR ''.'']"] init(4) assms(3) by auto
  have "bcon_loop env (?fs\<lparr>fs_sink := (b', st), fs_key := key\<rparr>) [tok CHR ''.'']
      = Some (?fs\<lparr>fs_sink := (b', st), fs_key := key, fs_end := True\<rparr>)"
    by (rule run_end) (use init in \<open>simp_all add: running_def\<close>)
  then show ?thesis
    using key init(3) by (simp add: bson_append_bcon_def bson_append_bcon_with_state_def bcon_result_def)
qed

section \<open>Properties\<close>


definition plain_env :: bcon_env where
  "plain_env = \<lparr>be_alloc = plain_allocator, be_time = 0, be_inc = None, be_fuzz = None, be_rand = (\<lambda>s. s)\<rparr>"

definition bcon_sample :: bson_doc where
  "bcon_sample = [([0x61], VInt 5), ([0x62], VArray [([0x30], VString [0x68]), ([0x31], VObject [([0x63], VNull)])])]"


text \<open>
  The check for incomplete documents compares only the state: an object that is opened and
  never closed is reported as \<open>BCON_OK\<close>, and the finished document holds an element whose size
  field is zero.
\<close>
lemma bcon_accepts_unclosed_object:
  assumes "allocator_ok (be_alloc env)" "allocator_total (be_alloc env)"
    and "utf8_accepted n" "length n < 1000" "0 \<notin> set n" "n \<noteq> [0x7D]" "n \<noteq> [0x2E]"
  shows "\<exists>b. bson_from_bcon env st [B_str (Some n), tok CHR ''{'', tok CHR ''.''] = Some (BCON_OK, (b, st))
     \<and> b_finished b \<and> written b = doc_bytes (element BSON_OBJECT n [0, 0, 0, 0])"
proof -
  let ?A = "be_alloc env"
  obtain b0 where b0: "bson_init ?A = (BSON_OK, b0)" "represents b0 ([], [])" "\<not> b_finished b0"
      "b_err b0 = 0" "roomy max_doc b0" "length (written b0) = 4"
    by (rule represents_init [OF assms(1,2)])
  then have h: "healthy b0" "b_cur b0 = 4"
    using length_written [of b0] by (simp_all add: healthy_def represents_def)
  have sh: "short n" using assms(4) by (simp add: short_def)
  obtain b1 where b1: "append_start ?A b0 BSON_OBJECT n = Some (BSON_OK, b1)" "healthy b1"
      "b_cur b1 = b_cur b0 + (6 + length n)"
    using start_succeeds [OF h(1) assms(1,2) sh assms(3)] h(2) assms(4) by (auto simp: max_doc_def)
  have rep: "represents b1 ([], [(BSON_OBJECT, n, [])])"
    using start_refines [OF b0(2) assms(1,2) sh, of BSON_OBJECT] b1(1) by simp
  obtain b2 where b2: "bson_finish ?A b1 = Some (BSON_OK, b2)" "b_finished b2"
      "written b2 = doc_bytes (drop 4 (written b1))"
    by (rule healthy_finishes [OF b1(2) assms(1,2)])
      (use b1(3) h(2) assms(4) in \<open>simp_all add: max_doc_def\<close>)
  let ?f0 = "fsm_init (b0, st) State_Element"
  let ?f1 = "?f0\<lparr>fs_key := Some n, fs_state := State_DocSpecValue\<rparr>"
  have f0: "running ?f0" "fs_state ?f0 = State_Element" "running ?f1" "value_pos ?f1 n" "room (Suc 0) ?f1"
      "fst (fs_sink ?f1) = b0"
    by (simp_all add: running_def fsm_init_def value_pos_def room_def)
  have "api_step ?A (fst (fs_sink ?f1)) (Start_object n) = Some (BSON_OK, b1)"
    using b1(1) f0(6) by (simp add: bson_append_start_object_def)
  then obtain key where key: "bcon_loop env ?f1 (tok CHR ''{'' # [tok CHR ''.''])
      = bcon_loop env (in_object ?f1 b1 key) [tok CHR ''.'']"
    using run_open_object [OF f0(3-5)] by blast
  have "bcon_loop env (in_object ?f1 b1 key) [tok CHR ''.''] = Some ((in_object ?f1 b1 key)\<lparr>fs_end := True\<rparr>)"
    by (rule run_end [OF inside(1) [OF f0(3,5)]]) (simp add: in_object_def)
  then have "bson_append_bcon_with_state env (b0, st) [B_str (Some n), tok CHR ''{'', tok CHR ''.''] State_Element
      = Some (BCON_OK, (b1, st))"
    using key run_key [OF f0(1,2) assms(6,7,5)]
    by (simp add: bson_append_bcon_with_state_def bcon_result_def in_object_def value_done_def fsm_init_def)
  moreover have "drop 4 (written b1) = element BSON_OBJECT n [0, 0, 0, 0]"
    using rep by (simp add: represents_def)
  ultimately show ?thesis
    using b0(1) b2 by (simp add: bson_from_bcon_def)
qed

lemma bcon_accepts_unclosed_object_instance:
  "\<exists>b. bson_from_bcon plain_env \<lparr>incr = 0, fuzz = 0\<rparr> [B_str (Some [0x61]), tok CHR ''{'', tok CHR ''.'']
       = Some (BCON_OK, (b, \<lparr>incr = 0, fuzz = 0\<rparr>))
     \<and> b_finished b \<and> written b = doc_bytes (element BSON_OBJECT [0x61] [0, 0, 0, 0])"
  by (rule bcon_accepts_unclosed_object) (simp_all add: plain_env_def ascii_accepted)

end
