(* ===== verification/Std_Map.thy ===== *)
theory Std_Map
  imports Main
begin

text \<open>
  The \<open>std::map\<close> the server keeps its objects, items, roles and templates in: the list of the
  entries in key order, with the members the program calls.  Clients reason from the laws of the
  locale \<open>dictionary\<close> and from the order of the keys an iteration sees.
\<close>

type_synonym ('k, 'v) std_map = "('k \<times> 'v) list"

definition std_find :: "'k \<Rightarrow> ('k, 'v) std_map \<Rightarrow> 'v option" where
  "std_find k m = map_of m k"

text \<open>\<open>insert(make_pair(k, v))\<close> leaves an entry that is there; \<open>m[k] = v\<close> replaces it.\<close>

fun std_insert :: "'k::linorder \<Rightarrow> 'v \<Rightarrow> ('k, 'v) std_map \<Rightarrow> ('k, 'v) std_map" where
  "std_insert k v [] = [(k, v)]"
| "std_insert k v ((k', v') # es) =
     (if k < k' then (k, v) # (k', v') # es
      else if k = k' then (k', v') # es
      else (k', v') # std_insert k v es)"

fun std_assign :: "'k::linorder \<Rightarrow> 'v \<Rightarrow> ('k, 'v) std_map \<Rightarrow> ('k, 'v) std_map" where
  "std_assign k v [] = [(k, v)]"
| "std_assign k v ((k', v') # es) =
     (if k < k' then (k, v) # (k', v') # es
      else if k = k' then (k, v) # es
      else (k', v') # std_assign k v es)"

definition std_erase :: "'k \<Rightarrow> ('k, 'v) std_map \<Rightarrow> ('k, 'v) std_map" where
  "std_erase k m = filter (\<lambda>e. fst e \<noteq> k) m"

definition ordered :: "('k::linorder, 'v) std_map \<Rightarrow> bool" where
  "ordered m \<longleftrightarrow> sorted_wrt (<) (map fst m)"

lemma ordered_simps [simp]:
  "ordered []" "ordered ((k, v) # m) \<longleftrightarrow> (\<forall>e \<in> set m. k < fst e) \<and> ordered m"
  by (auto simp: ordered_def)

lemma ordered_append:
  "ordered (m @ m') \<longleftrightarrow> ordered m \<and> ordered m' \<and> (\<forall>e \<in> set m. \<forall>e' \<in> set m'. fst e < fst e')"
  by (auto simp: ordered_def sorted_wrt_append)

lemma find_absent: "\<forall>e \<in> set m. (k :: 'k :: linorder) < fst e \<Longrightarrow> map_of m k = None"
  by (cases "map_of m k") (auto dest!: map_of_SomeD bspec)

lemma set_insert: "set (std_insert k v m) \<subseteq> insert (k, v) (set m)"
  by (induction k v m rule: std_insert.induct) auto

lemma set_assign: "set (std_assign k v m) \<subseteq> insert (k, v) (set m)"
  by (induction k v m rule: std_assign.induct) auto

lemma ordered_insert: "ordered m \<Longrightarrow> ordered (std_insert k v m)"
  by (induction k v m rule: std_insert.induct) (use set_insert in \<open>auto, fastforce+\<close>)

lemma ordered_assign: "ordered m \<Longrightarrow> ordered (std_assign k v m)"
  by (induction k v m rule: std_assign.induct) (use set_assign in \<open>auto, fastforce+\<close>)

lemma ordered_erase: "ordered m \<Longrightarrow> ordered (std_erase k m)"
  by (induction m) (auto simp: std_erase_def)

lemma find_insert:
  "ordered m \<Longrightarrow> std_find k' (std_insert k v m) =
     (if k' = k \<and> std_find k m = None then Some v else std_find k' m)"
  by (induction k v m rule: std_insert.induct) (auto simp: std_find_def find_absent, (drule map_of_SomeD, fastforce)+)

lemma find_assign:
  "ordered m \<Longrightarrow> std_find k' (std_assign k v m) = (if k' = k then Some v else std_find k' m)"
  by (induction k v m rule: std_assign.induct) (auto simp: std_find_def)

lemma find_erase: "std_find k' (std_erase k m) = (if k' = k then None else std_find k' m)"
  by (induction m) (auto simp: std_find_def std_erase_def)

text \<open>A key behind all others goes to the end: rebuilding a map in key order gives the map.\<close>

lemma insert_last: "\<forall>e \<in> set m. fst e < k \<Longrightarrow> std_insert k v m = m @ [(k, v)]"
  by (induction k v m rule: std_insert.induct) auto

lemma find_in_set: "std_find k m = Some v \<Longrightarrow> (k, v) \<in> set m"
  by (simp add: std_find_def map_of_SomeD)

lemma ordered_distinct: "ordered m \<Longrightarrow> distinct (map fst m)"
  by (induction m) (auto simp: ordered_def)

lemma set_find: "ordered m \<Longrightarrow> (k, v) \<in> set m \<Longrightarrow> std_find k m = Some v"
  using ordered_distinct [of m] by (simp add: std_find_def)

section \<open>The interface\<close>

locale dictionary =
  fixes inv :: "'m \<Rightarrow> bool" and find :: "'k \<Rightarrow> 'm \<Rightarrow> 'v option"
    and ins :: "'k \<Rightarrow> 'v \<Rightarrow> 'm \<Rightarrow> 'm" and upd :: "'k \<Rightarrow> 'v \<Rightarrow> 'm \<Rightarrow> 'm" and del :: "'k \<Rightarrow> 'm \<Rightarrow> 'm"
  assumes inv_ops: "inv m \<Longrightarrow> inv (ins k v m) \<and> inv (upd k v m) \<and> inv (del k m)"
    and find_ins: "inv m \<Longrightarrow> find k' (ins k v m) = (if k' = k \<and> find k m = None then Some v else find k' m)"
    and find_upd: "inv m \<Longrightarrow> find k' (upd k v m) = (if k' = k then Some v else find k' m)"
    and find_del: "inv m \<Longrightarrow> find k' (del k m) = (if k' = k then None else find k' m)"
begin

definition ins_all :: "('k \<times> 'v) list \<Rightarrow> 'm \<Rightarrow> 'm" where
  "ins_all kvs m = fold (\<lambda>(k, v). ins k v) kvs m"

lemma ins_all_inv: "inv m \<Longrightarrow> inv (ins_all kvs m)"
  by (induction kvs arbitrary: m) (auto simp: ins_all_def inv_ops)

text \<open>A run of inserts: an old entry wins over a new one, and the first new one over the later.\<close>

lemma first_wins:
  "inv m \<Longrightarrow> find k (ins_all kvs m) = (case find k m of Some v \<Rightarrow> Some v | None \<Rightarrow> map_of kvs k)"
proof (induction kvs arbitrary: m)
  case Nil
  then show ?case by (simp add: ins_all_def split: option.split)
next
  case (Cons kv kvs)
  obtain k' v where kv: "kv = (k', v)" by force
  have "find k (ins_all kvs (ins k' v m)) =
      (case find k (ins k' v m) of Some v \<Rightarrow> Some v | None \<Rightarrow> map_of kvs k)"
    using Cons.IH inv_ops [OF Cons.prems] by blast
  then show ?case
    using find_ins [OF Cons.prems, of k k' v] by (simp add: ins_all_def kv split: option.split)
qed

lemma upd_del: "inv m \<Longrightarrow> find k' (del k (upd k v m)) = find k' (del k m)"
  by (simp add: find_del find_upd inv_ops)

end

interpretation std: dictionary ordered std_find std_insert std_assign std_erase
  by unfold_locales (simp_all add: ordered_insert ordered_assign ordered_erase find_insert find_assign find_erase)

end
