(* ===== verification/Net_Buffer.thy ===== *)
theory Net_Buffer
  imports Prelude
begin

text \<open>
  The socket buffer, \<open>buffer.h\<close> and \<open>buffer.cpp\<close>: a fixed block with a read and a write
  position, both \<open>unsigned int\<close>.  Its contract is a byte queue: the bytes between the two
  positions, appended to by \<open>add\<close> as long as fewer than \<open>MAX_BUFFER_SIZE\<close> are pending.
\<close>

definition MAX_BUFFER_SIZE :: nat where "MAX_BUFFER_SIZE = 8192"

record net_buffer =
  m_read :: i32
  m_write :: i32
  m_buffer :: "byte list"

text \<open>The constructor: the block is not initialised, its contents are an argument.\<close>

definition new_buffer :: "byte list \<Rightarrow> net_buffer" where
  "new_buffer mem = \<lparr>m_read = 0, m_write = 0, m_buffer = mem\<rparr>"

definition buffer_reset :: "'a net_buffer_scheme \<Rightarrow> 'a net_buffer_scheme" where
  "buffer_reset b = b\<lparr>m_write := 0, m_read := 0\<rparr>"

definition readAvailable :: "'a net_buffer_scheme \<Rightarrow> int" where
  "readAvailable b = sint (m_write b - m_read b)"

text \<open>
  \<open>memcpy\<close> takes a \<open>size_t\<close>: a negative \<open>int\<close> is a copy of more bytes than any block has.
  A null pointer moves the write position only.
\<close>

definition copyIn :: "'a net_buffer_scheme \<Rightarrow> byte list option \<Rightarrow> int \<Rightarrow> 'a net_buffer_scheme option" where
  "copyIn b buf sz =
     (case buf of
        None \<Rightarrow> Some (b\<lparr>m_write := m_write b + word_of_int sz\<rparr>)
      | Some src \<Rightarrow> do {
          xs \<leftarrow> (if sz < 0 then None else rdn src 0 (nat sz));
          mem \<leftarrow> blit (m_buffer b) (unat (m_write b)) xs;
          Some (b\<lparr>m_buffer := mem, m_write := m_write b + word_of_int sz\<rparr>)
        })"

definition no_room :: "'a net_buffer_scheme \<Rightarrow> int \<Rightarrow> bool" where
  "no_room b sz \<longleftrightarrow> MAX_BUFFER_SIZE \<le> unat (m_write b + word_of_int sz)"

text \<open>\<open>memmove(m_buffer, m_buffer + m_read, readAvailable())\<close> and the two positions.\<close>

definition compact :: "'a net_buffer_scheme \<Rightarrow> 'a net_buffer_scheme option" where
  "compact b = do {
     xs \<leftarrow> (if readAvailable b < 0 then None
            else rdn (m_buffer b) (uint (m_read b)) (nat (readAvailable b)));
     mem \<leftarrow> blit (m_buffer b) 0 xs;
     Some (b\<lparr>m_buffer := mem, m_write := m_write b - m_read b, m_read := 0\<rparr>)
   }"

definition buffer_add :: "'a net_buffer_scheme \<Rightarrow> byte list \<Rightarrow> int \<Rightarrow> (int \<times> 'a net_buffer_scheme) option" where
  "buffer_add b buf sz =
     (if no_room b sz \<and> m_read b = 0 then Some (-1, b)
      else do {
        b \<leftarrow> (if no_room b sz then compact b else Some b);
        if no_room b sz then Some (-1, b)
        else do {
          b \<leftarrow> copyIn b (Some buf) sz;
          Some (sint (m_write b), b)
        }
      })"

section \<open>The byte queue\<close>

definition buffer_inv :: "'a net_buffer_scheme \<Rightarrow> bool" where
  "buffer_inv b \<longleftrightarrow> length (m_buffer b) = MAX_BUFFER_SIZE \<and> m_read b \<le> m_write b
     \<and> unat (m_write b) < MAX_BUFFER_SIZE"

definition pending :: "'a net_buffer_scheme \<Rightarrow> byte list" where
  "pending b = drop (unat (m_read b)) (take (unat (m_write b)) (m_buffer b))"

lemma length_pending: "buffer_inv b \<Longrightarrow> length (pending b) = unat (m_write b) - unat (m_read b)"
  by (simp add: pending_def buffer_inv_def MAX_BUFFER_SIZE_def word_le_nat_alt)

lemma sint_small: "unat (w :: i32) < 2 ^ 31 \<Longrightarrow> sint w = int (unat w)"
proof -
  assume "unat w < 2 ^ 31"
  then have "int (unat w) < int (2 ^ 31)" by (simp only: of_nat_less_iff)
  then have "uint w < 2 ^ 31" by simp
  moreover have "- (2 ^ 31) \<le> uint w" by (rule order_trans [of _ 0]) simp_all
  ultimately have "signed_take_bit 31 (uint w) = uint w" by (intro signed_take_bit_int_eq_self)
  then show ?thesis by (simp add: sint_uint)
qed

lemma available_pending: "buffer_inv b \<Longrightarrow> readAvailable b = int (length (pending b))"
proof -
  assume inv: "buffer_inv b"
  then have "unat (m_write b - m_read b) = length (pending b)"
    by (simp add: length_pending unat_sub buffer_inv_def)
  moreover have "length (pending b) < 2 ^ 31"
    using inv by (auto simp: length_pending buffer_inv_def MAX_BUFFER_SIZE_def)
  ultimately show ?thesis
    by (simp add: readAvailable_def sint_small)
qed

lemma new_buffer_inv: "length mem = MAX_BUFFER_SIZE \<Longrightarrow> buffer_inv (new_buffer mem) \<and> pending (new_buffer mem) = []"
  by (simp add: buffer_inv_def new_buffer_def pending_def MAX_BUFFER_SIZE_def)

lemma reset_inv: "length (m_buffer b) = MAX_BUFFER_SIZE \<Longrightarrow> buffer_inv (buffer_reset b) \<and> pending (buffer_reset b) = []"
  by (simp add: buffer_inv_def buffer_reset_def pending_def MAX_BUFFER_SIZE_def)

lemma unat_advance:
  "unat (w :: i32) < MAX_BUFFER_SIZE \<Longrightarrow> n < 2 ^ 31 \<Longrightarrow> unat (w + word_of_int (int n)) = unat w + n"
  by (simp add: MAX_BUFFER_SIZE_def unat_word_ariths unat_of_nat)

lemma no_room_iff:
  "buffer_inv b \<Longrightarrow> n < 2 ^ 31 \<Longrightarrow> no_room b (int n) \<longleftrightarrow> MAX_BUFFER_SIZE \<le> unat (m_write b) + n"
  unfolding no_room_def buffer_inv_def by (subst unat_advance) auto

lemma copyIn_pending:
  assumes "buffer_inv b" "unat (m_write b) + length xs < MAX_BUFFER_SIZE"
  shows "\<exists>b'. copyIn b (Some xs) (int (length xs)) = Some b' \<and> buffer_inv b' \<and> pending b' = pending b @ xs
     \<and> sint (m_write b') = int (unat (m_write b) + length xs) \<and> more b' = more b \<and> m_read b' = m_read b"
proof -
  have n: "length xs < 2 ^ 31" using assms(2) by (simp add: MAX_BUFFER_SIZE_def)
  have w: "unat (m_write b + word_of_int (int (length xs))) = unat (m_write b) + length xs"
    using unat_advance [OF _ n] assms(1) by (simp add: buffer_inv_def)
  have r: "unat (m_read b) \<le> unat (m_write b)" using assms(1) by (simp add: buffer_inv_def word_le_nat_alt)
  obtain mem where mem: "blit (m_buffer b) (unat (m_write b)) xs = Some mem"
      "mem = take (unat (m_write b)) (m_buffer b) @ xs @ drop (unat (m_write b) + length xs) (m_buffer b)"
    using assms by (auto simp: buffer_inv_def blit_def)
  let ?b = "b\<lparr>m_buffer := mem, m_write := m_write b + word_of_int (int (length xs))\<rparr>"
  have "length mem = MAX_BUFFER_SIZE" using blit_length [OF mem(1)] assms(1) by (simp add: buffer_inv_def)
  then have "buffer_inv ?b" using assms(2) w r by (simp add: buffer_inv_def word_le_nat_alt)
  moreover have "pending ?b = pending b @ xs"
    using blit_take [OF mem(1)] w r assms(1) by (simp add: pending_def buffer_inv_def)
  moreover have "sint (m_write ?b) = int (unat (m_write b) + length xs)"
    using w assms(2) by (simp add: sint_small MAX_BUFFER_SIZE_def)
  ultimately show ?thesis using mem(1) by (simp add: copyIn_def rdn_def)
qed

lemma compact_pending:
  assumes "buffer_inv b"
  shows "\<exists>b'. compact b = Some b' \<and> buffer_inv b' \<and> pending b' = pending b \<and> m_read b' = 0
     \<and> unat (m_write b') = length (pending b) \<and> more b' = more b"
proof -
  have r: "unat (m_read b) \<le> unat (m_write b)" "unat (m_write b) < MAX_BUFFER_SIZE"
      "length (m_buffer b) = MAX_BUFFER_SIZE"
    using assms by (simp_all add: buffer_inv_def word_le_nat_alt)
  have up: "uint (m_write b) \<le> int MAX_BUFFER_SIZE"
    using r(2) by (metis less_imp_le of_nat_le_iff uint_nat)
  have av: "nat (readAvailable b) = unat (m_write b) - unat (m_read b)"
    by (simp add: available_pending [OF assms] length_pending [OF assms])
  have rd: "rdn (m_buffer b) (uint (m_read b)) (nat (readAvailable b)) = Some (pending b)"
    using r up unfolding av rdn_def pending_def by (simp add: drop_take of_nat_diff)
  obtain mem where mem: "blit (m_buffer b) 0 (pending b) = Some mem"
    using r length_pending [OF assms] blit_None_iff [of "m_buffer b" 0 "pending b"]
    by (cases "blit (m_buffer b) 0 (pending b)") auto
  let ?b = "b\<lparr>m_buffer := mem, m_write := m_write b - m_read b, m_read := 0\<rparr>"
  have w: "unat (m_write b - m_read b) = length (pending b)"
    using assms by (simp add: length_pending unat_sub buffer_inv_def)
  have "buffer_inv ?b" using r w blit_length [OF mem] length_pending [OF assms] by (simp add: buffer_inv_def)
  moreover have "pending ?b = pending b" using blit_take [OF mem] w by (simp add: pending_def)
  ultimately show ?thesis
    using rd mem w by (simp add: compact_def available_pending [OF assms])
qed

lemma add_exact:
  assumes "buffer_inv b" "length xs < 2 ^ 31"
  shows "\<exists>ret b'. buffer_add b xs (int (length xs)) = Some (ret, b') \<and> buffer_inv b' \<and> more b' = more b
     \<and> (if length (pending b) + length xs < MAX_BUFFER_SIZE
        then pending b' = pending b @ xs \<and> ret = int (unat (m_write b')) else pending b' = pending b \<and> ret = -1)"
proof (cases "no_room b (int (length xs))")
  case False
  then have w: "unat (m_write b) + length xs < MAX_BUFFER_SIZE" using no_room_iff [OF assms] by simp
  obtain b' where b': "copyIn b (Some xs) (int (length xs)) = Some b'" "buffer_inv b'" "pending b' = pending b @ xs"
      "sint (m_write b') = int (unat (m_write b) + length xs)" "more b' = more b"
    using copyIn_pending [OF assms(1) w] by blast
  have "int (unat (m_write b')) = sint (m_write b')"
    using b'(2) by (simp add: sint_small buffer_inv_def MAX_BUFFER_SIZE_def)
  moreover have "length (pending b) + length xs < MAX_BUFFER_SIZE" using w length_pending [OF assms(1)] by simp
  ultimately show ?thesis using b' False by (simp add: buffer_add_def)
next
  case full: True
  then have f: "MAX_BUFFER_SIZE \<le> unat (m_write b) + length xs" using no_room_iff [OF assms] by simp
  show ?thesis
  proof (cases "m_read b = 0")
    case True
    then show ?thesis using full f assms(1) length_pending [OF assms(1)] by (simp add: buffer_add_def)
  next
    case False
    obtain c where c: "compact b = Some c" "buffer_inv c" "pending c = pending b" "unat (m_write c) = length (pending b)"
        "more c = more b" using compact_pending [OF assms(1)] by blast
    show ?thesis
    proof (cases "no_room c (int (length xs))")
      case True
      then show ?thesis using False full c no_room_iff [OF c(2) assms(2)] by (simp add: buffer_add_def)
    next
      case ok: False
      then have w: "unat (m_write c) + length xs < MAX_BUFFER_SIZE" using no_room_iff [OF c(2) assms(2)] by simp
      obtain b' where b': "copyIn c (Some xs) (int (length xs)) = Some b'" "buffer_inv b'" "pending b' = pending c @ xs"
          "sint (m_write b') = int (unat (m_write c) + length xs)" "more b' = more c"
        using copyIn_pending [OF c(2) w] by blast
      have "int (unat (m_write b')) = sint (m_write b')"
        using b'(2) by (simp add: sint_small buffer_inv_def MAX_BUFFER_SIZE_def)
      with b' w c show ?thesis using False ok full by (simp add: buffer_add_def)
    qed
  qed
qed

end
