(* ===== verification/Bson_Parser.thy ===== *)
theory Bson_Parser
  imports Bson_Props Std_Map Net_Buffer "HOL-Library.List_Lexorder"
begin

text \<open>
  The server's view of a document: \<open>bson/bson_parser.cpp\<close>.  A \<open>Value\<close> is a
  \<open>boost::variant\<close> and a type tag; an \<open>Object\<close> is a \<open>std::map\<close>, kept here as the list
  of its entries in key order (\<open>std::string\<close> compares bytes as unsigned).
\<close>

section \<open>Values\<close>

text \<open>
  \<open>valueType\<close> has no initialiser: it is \<open>None\<close> until a setter stores a type, and reading it then
  is a fault.  \<open>int64_t\<close> is \<open>long\<close> on this platform, so 64-bit integers and dates are
  both stored in the \<open>bson_date_t\<close> alternative.
\<close>

datatype bvalue = BValue (bv_base: bvariant) (bv_type: "bson_type option")
  and bvariant =
    V_bool bool
  | V_int i32
  | V_double i64
  | V_llong i64
  | V_string "byte list"
  | V_date bson_date_t
  | V_array "bvalue list"
  | V_object "(byte list \<times> bvalue) list"

type_synonym bobject = "(byte list \<times> bvalue) list"

text \<open>A default-constructed variant holds its first alternative.\<close>

definition new_value :: bvalue where
  "new_value = BValue (V_bool False) None"

text \<open>\<open>std::map::insert\<close>: an entry that is there stays.\<close>

definition obj_insert :: "byte list \<Rightarrow> bvalue \<Rightarrow> bobject \<Rightarrow> bobject" where
  "obj_insert = std_insert"

definition obj_find :: "byte list \<Rightarrow> bobject \<Rightarrow> bvalue option" where
  "obj_find = std_find"

section \<open>Getters and setters\<close>

text \<open>\<open>boost::get<T>\<close> throws \<open>boost::bad_get\<close> when the variant holds another type.  The other
  exceptions are those of \<open>vector::at\<close> and \<open>boost::lexical_cast\<close>, which the game logic meets.\<close>

datatype cxx_exception = Bad_get | Out_of_range | Bad_lexical_cast

definition get_int :: "bvalue \<Rightarrow> cxx_exception + i32" where
  "get_int v = (case bv_base v of V_int i \<Rightarrow> Inr i | _ \<Rightarrow> Inl Bad_get)"

definition get_bool :: "bvalue \<Rightarrow> cxx_exception + bool" where
  "get_bool v = (case bv_base v of V_bool b \<Rightarrow> Inr b | _ \<Rightarrow> Inl Bad_get)"

definition get_double :: "bvalue \<Rightarrow> cxx_exception + i64" where
  "get_double v = (case bv_base v of V_double d \<Rightarrow> Inr d | _ \<Rightarrow> Inl Bad_get)"

definition get_string :: "bvalue \<Rightarrow> cxx_exception + byte list" where
  "get_string v = (case bv_base v of V_string s \<Rightarrow> Inr s | _ \<Rightarrow> Inl Bad_get)"

definition get_date :: "bvalue \<Rightarrow> cxx_exception + bson_date_t" where
  "get_date v = (case bv_base v of V_date d \<Rightarrow> Inr d | _ \<Rightarrow> Inl Bad_get)"

definition get_object :: "bvalue \<Rightarrow> cxx_exception + bobject" where
  "get_object v = (case bv_base v of V_object ob \<Rightarrow> Inr ob | _ \<Rightarrow> Inl Bad_get)"

definition get_array :: "bvalue \<Rightarrow> cxx_exception + bvalue list" where
  "get_array v = (case bv_base v of V_array vs \<Rightarrow> Inr vs | _ \<Rightarrow> Inl Bad_get)"

definition getIntVal :: "byte list \<Rightarrow> bobject \<Rightarrow> cxx_exception + i32" where
  "getIntVal key obj = (case obj_find key obj of Some v \<Rightarrow> get_int v | None \<Rightarrow> Inr 0)"

definition getBoolVal :: "byte list \<Rightarrow> bobject \<Rightarrow> cxx_exception + bool" where
  "getBoolVal key obj = (case obj_find key obj of Some v \<Rightarrow> get_bool v | None \<Rightarrow> Inr False)"

definition getDoubleVal :: "byte list \<Rightarrow> bobject \<Rightarrow> cxx_exception + i64" where
  "getDoubleVal key obj = (case obj_find key obj of Some v \<Rightarrow> get_double v | None \<Rightarrow> Inr 0)"

definition getStringVal :: "byte list \<Rightarrow> bobject \<Rightarrow> cxx_exception + byte list" where
  "getStringVal key obj = (case obj_find key obj of Some v \<Rightarrow> get_string v | None \<Rightarrow> Inr [])"

definition getObjectVal :: "byte list \<Rightarrow> bobject \<Rightarrow> cxx_exception + bobject" where
  "getObjectVal key obj = (case obj_find key obj of Some v \<Rightarrow> get_object v | None \<Rightarrow> Inr [])"

text \<open>
  \<open>getArrayVal\<close> returns the address of the array inside its local copy: \<open>Inr True\<close> is that dangling
  pointer, \<open>Inr False\<close> the null pointer.
\<close>

definition getArrayVal :: "byte list \<Rightarrow> bobject \<Rightarrow> cxx_exception + bool" where
  "getArrayVal key obj =
     (case obj_find key obj of
        Some v \<Rightarrow> (case get_array v of Inl e \<Rightarrow> Inl e | Inr _ \<Rightarrow> Inr True)
      | None \<Rightarrow> Inr False)"

definition setIntVal :: "bobject \<Rightarrow> byte list \<Rightarrow> i32 \<Rightarrow> bobject" where
  "setIntVal obj key val = obj_insert key (BValue (V_int val) (Some BSON_INT)) obj"

definition setBoolVal :: "bobject \<Rightarrow> byte list \<Rightarrow> bool \<Rightarrow> bobject" where
  "setBoolVal obj key val = obj_insert key (BValue (V_bool val) (Some BSON_BOOL)) obj"

definition setDoubleVal :: "bobject \<Rightarrow> byte list \<Rightarrow> i64 \<Rightarrow> bobject" where
  "setDoubleVal obj key val = obj_insert key (BValue (V_double val) (Some BSON_DOUBLE)) obj"

definition setStringVal :: "bobject \<Rightarrow> byte list \<Rightarrow> byte list \<Rightarrow> bobject" where
  "setStringVal obj key val = obj_insert key (BValue (V_string val) (Some BSON_STRING)) obj"

definition setObjectVal :: "bobject \<Rightarrow> byte list \<Rightarrow> bobject \<Rightarrow> bobject" where
  "setObjectVal obj key val = obj_insert key (BValue (V_object val) (Some BSON_OBJECT)) obj"

definition setArrayVal :: "bobject \<Rightarrow> byte list \<Rightarrow> bvalue list \<Rightarrow> bobject" where
  "setArrayVal obj key val = obj_insert key (BValue (V_array val) (Some BSON_ARRAY)) obj"

section \<open>Parsing\<close>

text \<open>
  The leaves of the switch in \<open>parseValue\<close>.  A boolean comes back as the \<open>int\<close> that
  \<open>bson_iterator_bool\<close> returns.  The tag of the result is never set.
\<close>

definition parse_leaf :: "bson_iterator \<Rightarrow> bson_type \<Rightarrow> bvalue option" where
  "parse_leaf it t =
     (case t of
        BSON_DOUBLE \<Rightarrow> map_option (\<lambda>d. BValue (V_double d) None) (bson_iterator_double it)
      | BSON_INT \<Rightarrow> map_option (\<lambda>i. BValue (V_int i) None) (bson_iterator_int it)
      | BSON_LONG \<Rightarrow> map_option (\<lambda>l. BValue (V_date l) None) (bson_iterator_long it)
      | BSON_BOOL \<Rightarrow> map_option (\<lambda>i. BValue (V_int i) None) (bson_iterator_bool it)
      | BSON_STRING \<Rightarrow> map_option (\<lambda>s. BValue (V_string s) None) (bson_iterator_string it)
      | BSON_DATE \<Rightarrow> map_option (\<lambda>d. BValue (V_date d) None) (bson_iterator_date it)
      | _ \<Rightarrow> Some new_value)"

text \<open>
  In the case \<open>BSON_ARRAY\<close> the sub-iterator is never initialised: its first step dereferences an
  indeterminate pointer.  \<open>parse_loop\<close> is the loop both \<open>parse\<close> and the case \<open>BSON_OBJECT\<close>
  run.
\<close>

fun parseValue :: "nat \<Rightarrow> bson_iterator \<Rightarrow> bvalue outcome"
  and parse_loop :: "nat \<Rightarrow> bson_iterator \<Rightarrow> bobject \<Rightarrow> bobject outcome" where
  "parseValue 0 it = Timeout"
| "parseValue (Suc fuel) it =
     lift_fault (bson_iterator_type it) (\<lambda>t.
       if t = BSON_OBJECT then
         lift_fault (bson_iterator_subiterator it) (\<lambda>sub.
           bind_outcome (parse_loop fuel sub []) (\<lambda>obj. Done (BValue (V_object obj) None)))
       else if t = BSON_ARRAY then Fault
       else lift_fault (parse_leaf it t) Done)"
| "parse_loop 0 it obj = Timeout"
| "parse_loop (Suc fuel) it obj =
     lift_fault (bson_iterator_next it) (\<lambda>(t, it).
       if t = BSON_EOO then Done obj
       else bind_outcome (parseValue fuel it) (\<lambda>val.
         lift_fault (cstring (it_mem it) (bson_iterator_key it)) (\<lambda>key.
           parse_loop fuel it (obj_insert key val obj))))"

definition bson_parse :: "nat \<Rightarrow> byte list \<Rightarrow> bobject outcome" where
  "bson_parse fuel buffer = parse_loop fuel (bson_iterator_from_buffer buffer 0) []"

section \<open>Serialising\<close>

text \<open>The C string of a \<open>std::string\<close>.\<close>

definition c_str :: "byte list \<Rightarrow> byte list" where
  "c_str s = takeWhile (\<lambda>c. c \<noteq> 0) s"

text \<open>The calls into the builder ignore its status.\<close>

definition put_ignore :: "(status \<times> bson) option \<Rightarrow> (cxx_exception + bson) option" where
  "put_ignore res = map_option (\<lambda>(_, b). Inr b) res"

definition with_get :: "(cxx_exception + 'a) \<Rightarrow> ('a \<Rightarrow> (cxx_exception + 'b) option) \<Rightarrow> (cxx_exception + 'b) option" where
  "with_get g k = (case g of Inl e \<Rightarrow> Some (Inl e) | Inr x \<Rightarrow> k x)"

definition and_then :: "(cxx_exception + 'a) option \<Rightarrow> ('a \<Rightarrow> (cxx_exception + 'b) option) \<Rightarrow> (cxx_exception + 'b) option" where
  "and_then m k = (case m of None \<Rightarrow> None | Some (Inl e) \<Rightarrow> Some (Inl e) | Some (Inr x) \<Rightarrow> k x)"

lemma and_then_cong [fundef_cong]:
  "m = m' \<Longrightarrow> (\<And>x. m' = Some (Inr x) \<Longrightarrow> k x = k' x) \<Longrightarrow> and_then m k = and_then m' k'"
  by (auto simp: and_then_def split: option.splits sum.splits)

lemma with_get_cong [fundef_cong]:
  "g = g' \<Longrightarrow> (\<And>x. g' = Inr x \<Longrightarrow> k x = k' x) \<Longrightarrow> with_get g k = with_get g' k'"
  by (auto simp: with_get_def split: sum.splits)

lemma get_object_size: "get_object v = Inr obj \<Longrightarrow> size_list (size_prod (\<lambda>_. 0) size) obj < size v"
  by (cases v) (auto simp: get_object_def split: bvariant.splits)

lemma get_array_size: "get_array v = Inr vs \<Longrightarrow> size_list size vs < size v"
  by (cases v) (auto simp: get_array_def split: bvariant.splits)

function serializeValue :: "allocator \<Rightarrow> byte list \<Rightarrow> bvalue \<Rightarrow> bson \<Rightarrow> (cxx_exception + bson) option"
  and serialize_object :: "allocator \<Rightarrow> bobject \<Rightarrow> bson \<Rightarrow> (cxx_exception + bson) option"
  and serialize_array :: "allocator \<Rightarrow> bvalue list \<Rightarrow> bson \<Rightarrow> (cxx_exception + bson) option" where
  "serializeValue A key v b = (case bv_type v of None \<Rightarrow> None | Some t \<Rightarrow>
     (case t of
        BSON_DOUBLE \<Rightarrow> with_get (get_double v) (\<lambda>d. put_ignore (bson_append_double A b (c_str key) d))
      | BSON_INT \<Rightarrow> with_get (get_int v) (\<lambda>i. put_ignore (bson_append_int A b (c_str key) i))
      | BSON_BOOL \<Rightarrow> with_get (get_bool v) (\<lambda>x. put_ignore (bson_append_bool A b (c_str key) (of_bool x)))
      | BSON_STRING \<Rightarrow> with_get (get_string v) (\<lambda>s. put_ignore (bson_append_string A b (c_str key) (c_str s)))
      | BSON_NULL \<Rightarrow> put_ignore (bson_append_null A b (c_str key))
      | BSON_DATE \<Rightarrow> with_get (get_date v) (\<lambda>d. put_ignore (bson_append_date A b (c_str key) d))
      | BSON_OBJECT \<Rightarrow>
          and_then (put_ignore (bson_append_start_object A b (c_str key))) (\<lambda>b.
            with_get (get_object v) (\<lambda>obj.
              and_then (serialize_object A obj b) (\<lambda>b.
                put_ignore (bson_append_finish_object A b))))
      | BSON_ARRAY \<Rightarrow>
          and_then (put_ignore (bson_append_start_array A b (c_str key))) (\<lambda>b.
            with_get (get_array v) (\<lambda>vs.
              and_then (serialize_array A vs b) (\<lambda>b.
                put_ignore (bson_append_finish_array A b))))
      | _ \<Rightarrow> Some (Inr b)))"
| "serialize_object A [] b = Some (Inr b)"
| "serialize_object A ((k, v) # es) b =
     and_then (serializeValue A k v b) (\<lambda>b. serialize_object A es b)"
| "serialize_array A [] b = Some (Inr b)"
| "serialize_array A (v # vs) b =
     and_then (serializeValue A [] v b) (\<lambda>b. serialize_array A vs b)"
  by pat_completeness auto
termination
  by (relation "measure (\<lambda>x. case x of Inl (_, _, v, _) \<Rightarrow> size v
      | Inr (Inl (_, es, _)) \<Rightarrow> size_list (size_prod (\<lambda>_. 0) size) es | Inr (Inr (_, vs, _)) \<Rightarrow> size_list size vs)")
    (auto dest: get_object_size get_array_size)

text \<open>
  \<open>serializeToBuffer\<close>: the status of \<open>bson_finish\<close> is ignored too, and a document that does not
  fit the socket buffer is dropped.
\<close>

definition serializeToBuffer ::
  "allocator \<Rightarrow> net_buffer \<Rightarrow> bobject \<Rightarrow> (cxx_exception + net_buffer) option" where
  "serializeToBuffer A buf obj =
     and_then (serialize_object A obj (snd (bson_init A))) (\<lambda>b. do {
       (_, b) \<leftarrow> bson_finish A b;
       sz \<leftarrow> bson_size b;
       if MAX_BUFFER_SIZE \<le> size_t sz then Some (Inr buf)
       else map_option Inr (copyIn buf (b_data b) sz)
     })"

section \<open>Objects as documents\<close>

text \<open>
  The objects the server can send: every value carries the tag of its contents, strings are text
  without terminators, and there are no arrays inside (an incoming array is a fault).  \<open>to_doc\<close> is the
  document such an object is written as and \<open>seen\<close> the object \<open>parse\<close> makes of it.
\<close>

fun plain_value :: "bvalue \<Rightarrow> bool" and plain_base :: "bvariant \<Rightarrow> bson_type \<Rightarrow> bool"
  and plain_object :: "bobject \<Rightarrow> bool" where
  "plain_value (BValue x t) = (case t of None \<Rightarrow> False | Some t \<Rightarrow> plain_base x t)"
| "plain_base (V_int i) t = (t = BSON_INT)"
| "plain_base (V_bool x) t = (t = BSON_BOOL)"
| "plain_base (V_double d) t = (t = BSON_DOUBLE)"
| "plain_base (V_string s) t = (t = BSON_STRING \<and> 0 \<notin> set s \<and> utf8_accepted s)"
| "plain_base (V_date d) t = (t = BSON_DATE)"
| "plain_base (V_llong d) t = False"
| "plain_base (V_array vs) t = False"
| "plain_base (V_object obj) t = (t = BSON_OBJECT \<and> ordered obj \<and> plain_object obj)"
| "plain_object [] = True"
| "plain_object ((k, v) # es) = (0 \<notin> set k \<and> utf8_accepted k \<and> plain_value v \<and> plain_object es)"

fun to_val :: "bvalue \<Rightarrow> bson_val" and base_val :: "bvariant \<Rightarrow> bson_val" and to_doc :: "bobject \<Rightarrow> bson_doc" where
  "to_val (BValue x t) = base_val x"
| "base_val (V_int i) = VInt i"
| "base_val (V_bool x) = VBool x"
| "base_val (V_double d) = VDouble d"
| "base_val (V_string s) = VString s"
| "base_val (V_date d) = VDate d"
| "base_val (V_llong d) = VLong d"
| "base_val (V_array vs) = VNull"
| "base_val (V_object obj) = VObject (to_doc obj)"
| "to_doc [] = []"
| "to_doc ((k, v) # es) = (k, to_val v) # to_doc es"

fun seen_value :: "bvalue \<Rightarrow> bvalue" and seen_base :: "bvariant \<Rightarrow> bvariant" and seen :: "bobject \<Rightarrow> bobject" where
  "seen_value (BValue x t) = BValue (seen_base x) None"
| "seen_base (V_bool x) = V_int (if x then 1 else 0)"
| "seen_base (V_object obj) = V_object (seen obj)"
| "seen_base (V_int i) = V_int i"
| "seen_base (V_double d) = V_double d"
| "seen_base (V_string s) = V_string s"
| "seen_base (V_date d) = V_date d"
| "seen_base (V_llong d) = V_llong d"
| "seen_base (V_array vs) = V_array vs"
| "seen [] = []"
| "seen ((k, v) # es) = (k, seen_value v) # seen es"

lemma keys_seen: "map fst (seen es) = map fst es"
  by (induction es) auto

lemma c_str_id: "0 \<notin> set s \<Longrightarrow> c_str s = s"
  by (auto simp: c_str_def takeWhile_eq_all_conv)

lemma serialize_calls:
  "plain_value v \<Longrightarrow> 0 \<notin> set key \<Longrightarrow>
     serializeValue A key v b = map_option (\<lambda>(_, b). Inr b) (api_run A b (val_calls key (to_val v)))"
  "plain_object es \<Longrightarrow>
     serialize_object A es b = map_option (\<lambda>(_, b). Inr b) (api_run A b (doc_calls (to_doc es)))"
  "serialize_array A vs b = serialize_array A vs b"
proof (induction A key v b and A es b and A vs b rule: serializeValue_serialize_object_serialize_array.induct)
  case (1 A key v b)
  then obtain x t where v: "v = BValue x (Some t)" "plain_base x t"
    by (cases v) (auto split: option.splits)
  show ?case
  proof (cases x)
    case (V_object obj)
    show ?thesis
    proof (cases "bson_append_start_object A b key")
      case (Some r)
      obtain st b1 where r: "r = (st, b1)" by force
      have "serialize_object A obj b1 = map_option (\<lambda>(_, b). Inr b) (api_run A b1 (doc_calls (to_doc obj)))"
        using 1 v V_object Some r by (auto simp: get_object_def c_str_id put_ignore_def)
      with v 1 V_object Some r show ?thesis
        by (auto simp: c_str_id get_object_def with_get_def and_then_def put_ignore_def api_run_append
            split: Option.bind_splits option.splits)
    qed (use v 1 V_object in \<open>simp add: c_str_id put_ignore_def and_then_def\<close>)
  qed (use v 1 in \<open>simp_all add: c_str_id put_ignore_def with_get_def get_int_def get_bool_def
      get_double_def get_string_def get_date_def option.map_comp split: option.splits Option.bind_splits\<close>)
next
  case (3 A k v es b)
  then have IH: "serializeValue A k v b = map_option (\<lambda>(_, b). Inr b) (api_run A b (val_calls k (to_val v)))"
    by (simp del: serializeValue.simps)
  show ?case
  proof (cases "api_run A b (val_calls k (to_val v))")
    case None
    then show ?thesis by (simp add: IH and_then_def api_run_append del: serializeValue.simps)
  next
    case (Some r)
    obtain rs b1 where r: "r = (rs, b1)" by force
    have "serialize_object A es b1 = map_option (\<lambda>(_, b). Inr b) (api_run A b1 (doc_calls (to_doc es)))"
      using 3(2) [of b1] 3(3) IH Some r by (simp del: serializeValue.simps)
    then show ?thesis
      using Some r by (auto simp: IH and_then_def api_run_append simp del: serializeValue.simps
          split: Option.bind_splits)
  qed
qed simp_all

lemma plain_document:
  "plain_value v \<Longrightarrow> val_ok (to_val v) \<and> val_utf8 (to_val v)"
  "plain_base x t \<Longrightarrow> val_ok (base_val x) \<and> val_utf8 (base_val x)"
  "plain_object es \<Longrightarrow> elems_ok (to_doc es) \<and> doc_utf8 (to_doc es)"
  by (induction v and x t and es rule: plain_value_plain_base_plain_object.induct) (auto split: option.splits)

lemma copyIn_prefix:
  "rdn src 0 n = Some xs \<Longrightarrow> copyIn b (Some src) (int n) = copyIn b (Some xs) (int n)"
  unfolding copyIn_def by (auto simp: rdn_def split: if_splits)

lemma doc_fuel_pos: "0 < doc_fuel es"
  by (cases es rule: doc_fuel.cases) simp_all

lemma serialize_plain:
  assumes "allocator_ok A" "allocator_total A" "plain_object obj"
    and "buffer_inv buf" "unat (m_write buf) + length (doc_bytes (elems_bytes (to_doc obj))) < MAX_BUFFER_SIZE"
  shows "\<exists>buf'. serializeToBuffer A buf obj = Some (Inr buf') \<and> buffer_inv buf'
     \<and> pending buf' = pending buf @ doc_bytes (elems_bytes (to_doc obj)) \<and> m_read buf' = m_read buf"
proof -
  let ?d = "doc_bytes (elems_bytes (to_doc obj))"
  have doc: "elems_ok (to_doc obj)" "doc_utf8 (to_doc obj)" using plain_document(3) [OF assms(3)] by simp_all
  have sz: "length (elems_bytes (to_doc obj)) + 5 < MAX_BUFFER_SIZE" using assms(5) by simp
  then have max: "int (length (elems_bytes (to_doc obj))) + 5 \<le> max_doc"
    by (simp add: max_doc_def MAX_BUFFER_SIZE_def)
  obtain b b' m where b: "api_run A (snd (bson_init A)) (doc_calls (to_doc obj))
      = Some (replicate (length (doc_calls (to_doc obj))) BSON_OK, b)"
    "bson_finish A b = Some (BSON_OK, b')" "b_data b' = Some m" "located m 0 ?d"
    by (rule build_doc [OF assms(1,2) doc max])
  have size: "bson_size b' = Some (int (length ?d))"
    using data_size_located [of m "to_int (length (elems_bytes (to_doc obj)) + 5)"
        "elems_bytes (to_doc obj) @ [0]"] b(3,4) sz
    by (simp add: bson_size_def doc_bytes_def sint_to_int INT_MAX_def MAX_BUFFER_SIZE_def)
  obtain buf' where buf': "copyIn buf (Some ?d) (int (length ?d)) = Some buf'" "buffer_inv buf'"
      "pending buf' = pending buf @ ?d" "m_read buf' = m_read buf"
    using copyIn_pending [OF assms(4,5)] by blast
  have "copyIn buf (Some m) (int (length ?d)) = Some buf'"
    using buf'(1) copyIn_prefix [OF rdn_located [OF b(4)], of buf] by simp
  moreover have "\<not> MAX_BUFFER_SIZE \<le> size_t (int (length ?d))"
  proof -
    have "size_t (int (length ?d)) = length ?d"
      using sz by (simp add: size_t_def MAX_BUFFER_SIZE_def nat_plus_as_int)
    then show ?thesis using sz by simp
  qed
  ultimately show ?thesis
    using buf' b(1-3) size serialize_calls(2) [OF assms(3), of A "snd (bson_init A)"]
    by (simp add: serializeToBuffer_def and_then_def)
qed

lemma parse_leaf_seen:
  assumes "on_element i n (to_val (BValue x t))" "plain_value (BValue x t)" "\<forall>obj. x \<noteq> V_object obj"
  shows "parseValue (Suc fuel) i = Done (seen_value (BValue x t))"
proof -
  obtain t' where t: "t = Some t'" "plain_base x t'" using assms(2) by (auto split: option.splits)
  have ty: "bson_iterator_type i = Some (val_type (base_val x))"
    using assms(1) by (auto elim: on_element_cases)
  show ?thesis
    using assms(1,3) t ty
    by (cases x) (simp_all add: parse_leaf_def access_int access_bool access_double access_string access_date)
qed

lemma parse_loop_seen:
  "reaches i m q \<Longrightarrow> located m q (elems_bytes (to_doc es) @ [0]) \<Longrightarrow> plain_object es \<Longrightarrow>
   doc_small (to_doc es) \<Longrightarrow> ordered es \<Longrightarrow> \<forall>e \<in> set acc. \<forall>e' \<in> set es. fst e < fst e' \<Longrightarrow>
   doc_fuel (to_doc es) \<le> fuel \<Longrightarrow> parse_loop fuel i acc = Done (acc @ seen es)"
proof (induction fuel arbitrary: i m q es acc rule: less_induct)
  case (less fuel)
  show ?case
  proof (cases es)
    case Nil
    then obtain f where "fuel = Suc f" using less.prems(7) by (cases fuel) auto
    then show ?thesis using reaches_end [OF less.prems(1)] less.prems(2) Nil by simp
  next
    case (Cons e es')
    obtain n x t where e: "e = (n, BValue x t)" by (cases e) (metis bvalue.exhaust)
    note prems = less.prems [unfolded Cons e]
    let ?v = "to_val (BValue x t)"
    obtain f where f: "fuel = Suc (Suc f)" "val_fuel ?v \<le> f" "doc_fuel (to_doc es') \<le> Suc f"
    proof (rule that [of "fuel - 2"])
      have "1 + val_fuel ?v + doc_fuel (to_doc es') \<le> fuel" "0 < doc_fuel (to_doc es')"
        using prems(7) doc_fuel_pos by simp_all
      then show "fuel = Suc (Suc (fuel - 2))" "val_fuel ?v \<le> fuel - 2" "doc_fuel (to_doc es') \<le> Suc (fuel - 2)"
        by linarith+
    qed
    have ok: "elems_ok (to_doc ((n, BValue x t) # es'))" using plain_document(3) [OF prems(3)] by simp
    obtain q' where st: "bson_iterator_next i = Some (val_type ?v, it_at m q)"
        "on_element (it_at m q) n ?v" "reaches (it_at m q) m q'" "located m q' (elems_bytes (to_doc es') @ [0])"
      using walk_step [OF prems(1), of n ?v "to_doc es'"] prems(2,4) ok by auto
    have key: "cstring m (bson_iterator_key (it_at m q)) = Some n"
      using access_key [OF st(2)] by simp
    have val: "parseValue (Suc f) (it_at m q) = Done (seen_value (BValue x t))"
    proof (cases "\<exists>obj. x = V_object obj")
      case False
      then show ?thesis using parse_leaf_seen [OF st(2)] prems(3) by simp
    next
      case True
      then obtain obj where x: "x = V_object obj" by blast
      obtain p where p: "bson_iterator_type (it_at m q) = Some BSON_OBJECT"
          "bson_iterator_value (it_at m q) = Some p" "located m p (doc_bytes (elems_bytes (to_doc obj)))"
          "doc_small (to_doc obj)"
        using st(2) x small_inner(1) by (elim on_element_cases) auto
      have "parse_loop f (bson_iterator_from_buffer m p) [] = Done ([] @ seen obj)"
        by (rule less.IH [OF _ reaches_first located_doc [OF p(3)]])
          (use f p(4) x prems(3) in \<open>auto split: option.splits\<close>)
      then show ?thesis using p x by (simp add: bson_iterator_subiterator_def)
    qed
    have less: "\<forall>e \<in> set acc. fst e < n" using prems(6) by auto
    have "parse_loop (Suc f) (it_at m q) (acc @ [(n, seen_value (BValue x t))])
        = Done ((acc @ [(n, seen_value (BValue x t))]) @ seen es')"
      by (rule less.IH [OF _ st(3,4)]) (use f prems small_parts(2) in auto)
    then show ?thesis
      using st(1) key val f(1) Cons e insert_last [OF less, of "seen_value (BValue x t)"]
      by (simp add: obj_insert_def del: parseValue.simps parse_loop.simps(2))
        (simp add: parse_loop.simps(2) [of "Suc f"] obj_insert_def del: parseValue.simps parse_loop.simps(2))
  qed
qed

lemma parse_seen:
  assumes "plain_object obj" "ordered obj" "doc_small (to_doc obj)" "doc_fuel (to_doc obj) \<le> fuel"
  shows "bson_parse fuel (doc_bytes (elems_bytes (to_doc obj))) = Done (seen obj)"
proof -
  have "located (doc_bytes (elems_bytes (to_doc obj))) 0 (doc_bytes (elems_bytes (to_doc obj)))"
    by (simp add: located_def)
  from parse_loop_seen [OF reaches_first located_doc [OF this] assms(1,3,2) _ assms(4), of "[]"]
  show ?thesis by (simp add: bson_parse_def)
qed

end
