(* ===== verification/Templates.thy ===== *)
theory Templates
  imports Bson_Parser "HOL-Library.Signed_Division"
begin

text \<open>
  The static game data: \<open>util.cpp\<close>, \<open>dataset/csv_reader.cpp\<close>, and the template tables of
  \<open>dataset/item_template_manager.cpp\<close> and \<open>dataset/soul_item_template.cpp\<close> with their
  look-ups.  Templates are built once and never changed, so they are modelled by value; the rows
  of the soul table, which two containers share, are modelled by reference.
\<close>

definition str :: "string \<Rightarrow> byte list" where "str s = map of_char s"

section \<open>Utilities\<close>

text \<open>\<open>r\<close> is the result of \<open>rand()\<close>.\<close>

definition randInt :: "int \<Rightarrow> int \<Rightarrow> int \<Rightarrow> int" where
  "randInt r from to = (if from = to then from else wrap32 (from + r smod wrap32 (to - from)))"

text \<open>\<open>split\<close> keeps a field when its separator is read: what stands behind the last one is lost.\<close>

fun split_loop :: "byte list \<Rightarrow> byte \<Rightarrow> byte list \<Rightarrow> byte list list" where
  "split_loop [] c val = []"
| "split_loop (x # xs) c val =
     (if x = c then val # split_loop xs c [] else split_loop xs c (val @ [x]))"

definition split :: "byte list \<Rightarrow> byte \<Rightarrow> byte list list" where
  "split s c = split_loop s c []"

section \<open>Tables in comma separated files\<close>

record csv_reader =
  csv_row :: int
  csv_fields :: "(byte list, nat) std_map"
  csv_singleline :: "byte list list"
  csv_rows :: "byte list list list"

definition new_reader :: csv_reader where
  "new_reader = \<lparr>csv_row = 0, csv_fields = [], csv_singleline = [], csv_rows = []\<rparr>"

text \<open>
  The file is read to a \<open>char\<close> that equals \<open>EOF\<close>: the end of the file or a byte 0xFF, which is
  kept.
\<close>

definition csv_content :: "byte list \<Rightarrow> byte list" where
  "csv_content file = takeWhile (\<lambda>c. c \<noteq> 0xFF) file @ [0xFF]"

text \<open>The two scanning loops; the second component of the first is what is left to scan.\<close>

fun csv_header :: "byte list \<Rightarrow> byte list \<Rightarrow> csv_reader \<Rightarrow> csv_reader \<times> byte list" where
  "csv_header [] val tb = (tb, [])"
| "csv_header (c # cs) val tb =
     (let field = tb\<lparr>csv_singleline := csv_singleline tb @ [val],
                     csv_fields := std_insert val (length (csv_singleline tb)) (csv_fields tb)\<rparr> in
      if c = 0x0D \<and> cs = [] then (tb, c # cs)
      else if c = 0x0D \<and> hd cs = 0x0A then (field, tl cs)
      else if c = 0x2C then csv_header cs [] field
      else csv_header cs (val @ [c]) tb)"

fun csv_body :: "byte list \<Rightarrow> byte list \<Rightarrow> byte list list \<Rightarrow> byte list list list \<Rightarrow> byte list list list" where
  "csv_body [] val row rows = rows"
| "csv_body [c] val row rows = rows"
| "csv_body (c # d # cs) val row rows =
     (if c = 0x0D \<and> d = 0x0A then csv_body cs [] [] (rows @ [row @ [val]])
      else if c = 0x2C then csv_body (d # cs) [] (row @ [val]) rows
      else csv_body (d # cs) (val @ [c]) row rows)"

text \<open>\<open>None\<close> stands for a file that cannot be opened.\<close>

definition loadFile :: "byte list option \<Rightarrow> csv_reader \<Rightarrow> bool \<times> csv_reader" where
  "loadFile file tb =
     (case file of
        None \<Rightarrow> (False, tb)
      | Some bytes \<Rightarrow> (case csv_header (csv_content bytes) [] tb of (tb, rest) \<Rightarrow>
          (True, tb\<lparr>csv_rows := csv_body rest [] [] (csv_rows tb)\<rparr>)))"

text \<open>
  \<open>Attribute\<close>: an unknown field gives false; a row or column outside the table throws.  The
  conversions of \<open>boost::lexical_cast\<close> are parameters.
\<close>

record casts =
  lx_int :: "byte list \<Rightarrow> int option"
  lx_short :: "byte list \<Rightarrow> int option"
  lx_char :: "byte list \<Rightarrow> int option"
  lx_double :: "byte list \<Rightarrow> i64 option"

definition lexical_cast :: "(byte list \<Rightarrow> 'a option) \<Rightarrow> byte list \<Rightarrow> cxx_exception + 'a" where
  "lexical_cast lx s = (case lx s of None \<Rightarrow> Inl Bad_lexical_cast | Some v \<Rightarrow> Inr v)"

definition csv_string :: "csv_reader \<Rightarrow> byte list \<Rightarrow> cxx_exception + byte list option" where
  "csv_string tb name =
     (case std_find name (csv_fields tb) of
        None \<Rightarrow> Inr None
      | Some col \<Rightarrow>
          if 0 \<le> csv_row tb \<and> nat (csv_row tb) < length (csv_rows tb) \<and> col < length (csv_rows tb ! nat (csv_row tb))
          then Inr (Some (csv_rows tb ! nat (csv_row tb) ! col))
          else Inl Out_of_range)"

definition csv_number :: "(byte list \<Rightarrow> 'a option) \<Rightarrow> bool \<Rightarrow> 'a \<Rightarrow> csv_reader \<Rightarrow> byte list \<Rightarrow> cxx_exception + bool \<times> 'a" where
  "csv_number lx empty_ok zero tb name =
     (case csv_string tb name of
        Inl e \<Rightarrow> Inl e
      | Inr None \<Rightarrow> Inr (False, zero)
      | Inr (Some s) \<Rightarrow>
          if s = [] \<and> empty_ok then Inr (False, zero)
          else (case lexical_cast lx s of Inl e \<Rightarrow> Inl e | Inr v \<Rightarrow> Inr (True, v)))"

definition csv_int :: "casts \<Rightarrow> csv_reader \<Rightarrow> string \<Rightarrow> cxx_exception + bool \<times> int" where
  "csv_int L tb name = csv_number (lx_int L) True 0 tb (str name)"

definition csv_short :: "casts \<Rightarrow> csv_reader \<Rightarrow> string \<Rightarrow> cxx_exception + bool \<times> int" where
  "csv_short L tb name = csv_number (lx_short L) True 0 tb (str name)"

definition csv_char :: "casts \<Rightarrow> csv_reader \<Rightarrow> string \<Rightarrow> cxx_exception + bool \<times> int" where
  "csv_char L tb name = csv_number (lx_char L) False 0 tb (str name)"

definition csv_double :: "casts \<Rightarrow> csv_reader \<Rightarrow> string \<Rightarrow> cxx_exception + bool \<times> i64" where
  "csv_double L tb name = csv_number (lx_double L) False 0 tb (str name)"

definition moveNext :: "csv_reader \<Rightarrow> bool \<times> csv_reader" where
  "moveNext tb = (csv_row tb + 1 < int (length (csv_rows tb)), tb\<lparr>csv_row := csv_row tb + 1\<rparr>)"

text \<open>
  \<open>ASSERT(reader.Attribute(...))\<close>: a false result aborts the program and an exception is not
  caught during start-up, so both are \<open>None\<close>: the server does not start.
\<close>

definition asserted :: "(cxx_exception + bool \<times> 'a) \<Rightarrow> 'a option" where
  "asserted r = (case r of Inr (True, v) \<Rightarrow> Some v | _ \<Rightarrow> None)"

definition unasserted :: "(cxx_exception + bool \<times> 'a) \<Rightarrow> 'a option" where
  "unasserted r = (case r of Inr (_, v) \<Rightarrow> Some v | _ \<Rightarrow> None)"

text \<open>\<open>do body while (reader.moveNext())\<close>.\<close>

function csv_loop :: "(csv_reader \<Rightarrow> 's \<Rightarrow> 's option) \<Rightarrow> csv_reader \<Rightarrow> 's \<Rightarrow> ('s \<times> csv_reader) option" where
  "csv_loop body tb s = do {
     s \<leftarrow> body tb s;
     let tb' = tb\<lparr>csv_row := csv_row tb + 1\<rparr>;
     if csv_row tb + 1 < int (length (csv_rows tb)) then csv_loop body tb' s else Some (s, tb')
   }"
  by pat_completeness auto
termination
  by (relation "measure (\<lambda>(_, tb, _). nat (int (length (csv_rows tb)) - csv_row tb))") auto

declare csv_loop.simps [simp del]

section \<open>Vectors\<close>

text \<open>\<open>resize\<close> to a larger size, \<open>operator[]\<close> (undefined outside) and \<open>at\<close> (throws outside).\<close>

definition vec_grow :: "nat \<Rightarrow> 'a \<Rightarrow> 'a list \<Rightarrow> 'a list" where
  "vec_grow n z xs = xs @ replicate (n - length xs) z"

definition vec_nth :: "'a list \<Rightarrow> int \<Rightarrow> 'a option" where
  "vec_nth xs i = (if 0 \<le> i \<and> i < int (length xs) then Some (xs ! nat i) else None)"

definition vec_set :: "'a list \<Rightarrow> int \<Rightarrow> 'a \<Rightarrow> 'a list option" where
  "vec_set xs i v = (if 0 \<le> i \<and> i < int (length xs) then Some (xs[nat i := v]) else None)"

section \<open>Item templates\<close>

definition ITEM_TYPE_SOUL :: int where "ITEM_TYPE_SOUL = 10"

text \<open>The attribute block of a template is only stored, never read by the server: it is left out.\<close>

record item_template =
  tp_itemId :: int
  tp_price :: int
  tp_itemType :: int
  tp_itemUseLevel :: int
  tp_profession :: int
  tp_quality :: int
  tp_stackNum :: int
  tp_strengthNextLevelId :: int
  tp_strengthLevel :: int
  tp_correspondingExp :: int

record item_tables =
  it_templates :: "(int, item_template) std_map"
  it_equipStrength :: "(int, int list) std_map"
  it_soulItems :: "(int, item_template list) std_map"

definition no_item_tables :: item_tables where
  "no_item_tables = \<lparr>it_templates = [], it_equipStrength = [], it_soulItems = []\<rparr>"

text \<open>
  One row of \<open>items.csv\<close>.  No column is read into \<open>price\<close>: the field keeps what the
  allocation left there, the parameter \<open>junk\<close>.
\<close>

definition item_row :: "casts \<Rightarrow> (int \<Rightarrow> int) \<Rightarrow> csv_reader \<Rightarrow> item_tables \<Rightarrow> item_tables option" where
  "item_row L junk tb m = do {
     itemId \<leftarrow> asserted (csv_int L tb ''Item_id'');
     useLevel \<leftarrow> asserted (csv_short L tb ''Item_Level'');
     itemType \<leftarrow> asserted (csv_short L tb ''Item_Type'');
     profession \<leftarrow> asserted (csv_char L tb ''Item_ZL'');
     quality \<leftarrow> asserted (csv_short L tb ''Item_LevelType'');
     stackNum \<leftarrow> asserted (csv_short L tb ''Item_Sex'');
     next_id \<leftarrow> unasserted (csv_short L tb ''StrengThen_Next'');
     strengthLevel \<leftarrow> asserted (csv_short L tb ''strengthenLevel'');
     upexp \<leftarrow> asserted (csv_int L tb ''upexp'');
     _ \<leftarrow> asserted (csv_int L tb ''Maxhp'');
     _ \<leftarrow> asserted (csv_int L tb ''Maxmp'');
     _ \<leftarrow> asserted (csv_int L tb ''minAttack'');
     _ \<leftarrow> asserted (csv_int L tb ''maxAttack'');
     _ \<leftarrow> asserted (csv_int L tb ''minMagic'');
     _ \<leftarrow> asserted (csv_int L tb ''maxMagic'');
     _ \<leftarrow> asserted (csv_int L tb ''Defense'');
     _ \<leftarrow> asserted (csv_int L tb ''MagicDefense'');
     _ \<leftarrow> asserted (csv_int L tb ''Item_Hits'');
     _ \<leftarrow> asserted (csv_int L tb ''Attack_Fatal'');
     let item = \<lparr>tp_itemId = itemId, tp_price = junk (csv_row tb), tp_itemType = itemType,
        tp_itemUseLevel = useLevel, tp_profession = profession, tp_quality = quality,
        tp_stackNum = stackNum, tp_strengthNextLevelId = next_id, tp_strengthLevel = strengthLevel,
        tp_correspondingExp = upexp\<rparr>;
     let m = m\<lparr>it_templates := std_insert itemId item (it_templates m)\<rparr>;
     Some (if itemType = ITEM_TYPE_SOUL \<and> strengthLevel = 1 then
             (case std_find quality (it_soulItems m) of
                Some vect \<Rightarrow> m\<lparr>it_soulItems := std_assign quality (vect @ [item]) (it_soulItems m)\<rparr>
              | None \<Rightarrow> m\<lparr>it_soulItems := std_assign quality [item] (it_soulItems m)\<rparr>)
           else m)
   }"

text \<open>One row of \<open>equip_strength.csv\<close>; \<open>vect->at(level)\<close> of a negative level throws.\<close>

definition strength_row :: "casts \<Rightarrow> csv_reader \<Rightarrow> item_tables \<Rightarrow> item_tables option" where
  "strength_row L tb m = do {
     quality \<leftarrow> asserted (csv_int L tb ''Item_LevelType'');
     level \<leftarrow> asserted (csv_int L tb ''leve'');
     money \<leftarrow> asserted (csv_int L tb ''yinbi'');
     let vect = (case std_find quality (it_equipStrength m) of None \<Rightarrow> [] | Some v \<Rightarrow> v);
     let vect = (if int (length vect) \<le> level then vec_grow (nat (level + 1)) 0 vect else vect);
     vect \<leftarrow> vec_set vect level money;
     Some (m\<lparr>it_equipStrength := std_assign quality vect (it_equipStrength m)\<rparr>)
   }"

definition item_tables_init :: "casts \<Rightarrow> (int \<Rightarrow> int) \<Rightarrow> byte list option \<Rightarrow> byte list option \<Rightarrow> item_tables option" where
  "item_tables_init L junk items_csv strength_csv = do {
     tb \<leftarrow> (case loadFile items_csv new_reader of (good, tb) \<Rightarrow> if good then Some tb else None);
     (m, _) \<leftarrow> csv_loop (item_row L junk) tb no_item_tables;
     tb2 \<leftarrow> (case loadFile strength_csv new_reader of (good, tb) \<Rightarrow> if good then Some tb else None);
     (m, _) \<leftarrow> csv_loop (strength_row L) tb2 m;
     Some m
   }"

definition get_template :: "item_tables \<Rightarrow> int \<Rightarrow> item_template option" where
  "get_template m tid = std_find tid (it_templates m)"

text \<open>
  \<open>getStrengthEquipMoney(short &quality, short &level)\<close>: the price of the next strength step; the
  two references come back updated, also when the price is -1.
\<close>

definition getStrengthEquipMoney :: "item_tables \<Rightarrow> int \<Rightarrow> int \<Rightarrow> cxx_exception + int \<times> int \<times> int" where
  "getStrengthEquipMoney m quality level =
     (case (if quality = 0 then (1, 1) else (quality, level)) of (quality, level) \<Rightarrow>
        (case std_find quality (it_equipStrength m) of
           None \<Rightarrow> Inr (-1, quality, level)
         | Some vect \<Rightarrow>
             if int (length vect) \<le> level + 1 then
               (let quality = wrap16 (quality + 1) in
                case std_find quality (it_equipStrength m) of
                  None \<Rightarrow> Inr (-1, quality, 1)
                | Some v \<Rightarrow> Inr (if 1 < length v then v ! 1 else -1, quality, 1))
             else
               (let level = wrap16 (level + 1) in
                case vec_nth vect level of
                  None \<Rightarrow> Inl Out_of_range
                | Some money \<Rightarrow> Inr (money, quality, level))))"

definition getRandomSoulItemByQuality :: "item_tables \<Rightarrow> int \<Rightarrow> int \<Rightarrow> item_template option option" where
  "getRandomSoulItemByQuality m r quality =
     (case std_find quality (it_soulItems m) of
        None \<Rightarrow> Some None
      | Some vect \<Rightarrow>
          if vect = [] then Some None
          else map_option Some (vec_nth vect (randInt r 0 (int (length vect)))))"

section \<open>Soul templates\<close>

record soul_hunt_info =
  hi_id :: int
  hi_moneyNeed :: int
  hi_levelNeed :: int
  hi_soulValue :: int
  hi_levelUpRate :: i64
  hi_randQuality :: "(int, int) std_map"

record soul_info =
  si_quality :: int
  si_level :: int
  si_exp :: int
  si_swallowExp :: int

record soul_tables =
  st_hunt :: "soul_hunt_info option list"
  st_infos :: "soul_info list"
  st_souls :: "(nat option list \<times> (int, nat) std_map) list"
  st_exchange :: "(int, int) std_map"

definition no_soul_tables :: soul_tables where
  "no_soul_tables = \<lparr>st_hunt = [], st_infos = [], st_souls = [], st_exchange = []\<rparr>"

text \<open>The weights add up: \<open>randQuality\<close> maps the upper end of each interval to its quality.  Both
  its keys and its values are \<open>short\<close>.\<close>

fun rand_quality :: "int \<Rightarrow> (int \<times> int) list \<Rightarrow> (int, int) std_map \<Rightarrow> (int, int) std_map" where
  "rand_quality weight [] m = m"
| "rand_quality weight ((val, q) # qs) m =
     rand_quality (wrap32 (weight + val)) qs (std_assign (wrap16 (wrap32 (weight + val))) q m)"

definition hunt_row :: "casts \<Rightarrow> csv_reader \<Rightarrow> soul_tables \<Rightarrow> soul_tables option" where
  "hunt_row L tb m = do {
     rid \<leftarrow> asserted (csv_int L tb ''Id'');
     money \<leftarrow> asserted (csv_int L tb ''Money'');
     level \<leftarrow> asserted (csv_int L tb ''LevelNeed'');
     rate \<leftarrow> asserted (csv_double L tb ''LevelUpRate'');
     value \<leftarrow> asserted (csv_int L tb ''SoulValue'');
     white \<leftarrow> asserted (csv_int L tb ''White'');
     green \<leftarrow> asserted (csv_int L tb ''Green'');
     blue \<leftarrow> asserted (csv_int L tb ''Blue'');
     purple \<leftarrow> asserted (csv_int L tb ''Purple'');
     orange \<leftarrow> asserted (csv_int L tb ''Orange'');
     red \<leftarrow> asserted (csv_int L tb ''Red'');
     let info = \<lparr>hi_id = rid, hi_moneyNeed = money, hi_levelNeed = level, hi_soulValue = value,
        hi_levelUpRate = rate,
        hi_randQuality = rand_quality 0 [(white, 1), (green, 2), (blue, 3), (purple, 4), (orange, 6), (red, 5)] []\<rparr>;
     let hunt = (if int (length (st_hunt m)) \<le> rid then vec_grow (nat (rid + 1)) None (st_hunt m) else st_hunt m);
     hunt \<leftarrow> vec_set hunt rid (Some info);
     Some (m\<lparr>st_hunt := hunt\<rparr>)
   }"

definition soul_row :: "casts \<Rightarrow> csv_reader \<Rightarrow> soul_tables \<Rightarrow> soul_tables option" where
  "soul_row L tb m = do {
     ty \<leftarrow> asserted (csv_int L tb ''Type'');
     level \<leftarrow> asserted (csv_int L tb ''Level'');
     xp \<leftarrow> asserted (csv_int L tb ''Exp'');
     swallowExp \<leftarrow> asserted (csv_int L tb ''SwallowExp'');
     let souls = (if int (length (st_souls m)) \<le> ty then vec_grow (nat (ty + 1)) ([], []) (st_souls m) else st_souls m);
     (vect, expMap) \<leftarrow> vec_nth souls ty;
     let vect = (if int (length vect) \<le> level then vec_grow (nat (level + 1)) None vect else vect);
     slot \<leftarrow> vec_nth vect level;
     let info = \<lparr>si_quality = wrap16 ty, si_level = wrap16 level, si_exp = xp, si_swallowExp = swallowExp\<rparr>;
     let (ref, infos) = (case slot of
        Some ref \<Rightarrow> (ref, (st_infos m)[ref := info])
      | None \<Rightarrow> (length (st_infos m), st_infos m @ [info]));
     vect \<leftarrow> vec_set vect level (Some ref);
     let expMap = (case std_find xp expMap of None \<Rightarrow> std_assign xp ref expMap | Some _ \<Rightarrow> expMap);
     souls \<leftarrow> vec_set souls ty (vect, expMap);
     Some (m\<lparr>st_infos := infos, st_souls := souls\<rparr>)
   }"

definition shop_row :: "casts \<Rightarrow> csv_reader \<Rightarrow> soul_tables \<Rightarrow> soul_tables option" where
  "shop_row L tb m = do {
     sid \<leftarrow> asserted (csv_int L tb ''SoulMetaId'');
     value \<leftarrow> asserted (csv_int L tb ''SoulPoint'');
     Some (m\<lparr>st_exchange := std_assign value sid (st_exchange m)\<rparr>)
   }"

text \<open>The third loop reads the rows of \<open>reader\<close> 3 but advances \<open>reader2\<close>.\<close>

definition soul_tables_init ::
  "casts \<Rightarrow> byte list option \<Rightarrow> byte list option \<Rightarrow> byte list option \<Rightarrow> soul_tables option" where
  "soul_tables_init L hunt_csv exp_csv shop_csv = do {
     tb \<leftarrow> (case loadFile hunt_csv new_reader of (good, tb) \<Rightarrow> if good then Some tb else None);
     (m, _) \<leftarrow> csv_loop (hunt_row L) tb no_soul_tables;
     tb2 \<leftarrow> (case loadFile exp_csv new_reader of (good, tb) \<Rightarrow> if good then Some tb else None);
     (m, tb2) \<leftarrow> csv_loop (soul_row L) tb2 m;
     tb3 \<leftarrow> (case loadFile shop_csv new_reader of (good, tb) \<Rightarrow> if good then Some tb else None);
     (m, _) \<leftarrow> csv_loop (\<lambda>_. shop_row L tb3) tb2 m;
     Some m
   }"

definition getSoulHuntInfo :: "soul_tables \<Rightarrow> int \<Rightarrow> soul_hunt_info option" where
  "getSoulHuntInfo m hid =
     (if 1 \<le> hid \<and> hid < wrap16 (int (length (st_hunt m))) then st_hunt m ! nat hid else None)"

text \<open>
  The range checks of the next two join their halves with \<open>&&\<close>, so they never refuse: an index
  outside the vectors is a fault.  The inner result of \<open>getSoulInfo\<close> is the pointer.
\<close>

definition getSoulInfo :: "soul_tables \<Rightarrow> int \<Rightarrow> int \<Rightarrow> soul_info option option" where
  "getSoulInfo m quality level =
     (if quality < 1 \<and> wrap16 (int (length (st_souls m))) \<le> quality then Some None
      else do {
        (vect, _) \<leftarrow> vec_nth (st_souls m) quality;
        if level < 1 \<and> wrap16 (int (length vect)) \<le> level then Some None
        else do {
          slot \<leftarrow> vec_nth vect level;
          Some (map_option (\<lambda>ref. st_infos m ! ref) slot)
        }
      })"

definition lower_bound :: "'k::linorder \<Rightarrow> ('k, 'v) std_map \<Rightarrow> ('k \<times> 'v) option" where
  "lower_bound k m = List.find (\<lambda>e. k \<le> fst e) m"

definition upper_bound :: "'k::linorder \<Rightarrow> ('k, 'v) std_map \<Rightarrow> ('k \<times> 'v) option" where
  "upper_bound k m = List.find (\<lambda>e. k < fst e) m"

definition getLevelByExp :: "soul_tables \<Rightarrow> int \<Rightarrow> int \<Rightarrow> int option" where
  "getLevelByExp m quality xp =
     (if quality < 1 \<and> wrap16 (int (length (st_souls m))) \<le> quality then Some (-1)
      else do {
        (_, expMap) \<leftarrow> vec_nth (st_souls m) quality;
        Some (case lower_bound xp expMap of
                None \<Rightarrow> -1
              | Some (_, ref) \<Rightarrow> si_level (st_infos m ! ref))
      })"

definition getSoulIdBySoulValue :: "soul_tables \<Rightarrow> int \<Rightarrow> int" where
  "getSoulIdBySoulValue m value = (case std_find value (st_exchange m) of None \<Rightarrow> -1 | Some sid \<Rightarrow> sid)"

end
