(* ===== verification/Database.thy ===== *)
theory Database
  imports Templates
begin

text \<open>
  The database connection, \<open>mysql/dbconnection.h\<close>, \<open>mysql/dbconnection.cpp\<close> and
  \<open>mysql/dbconnection_pool.cpp\<close>.  The client library is a parameter: what it answers is a function
  of the statements it has been given.  Statements are formatted by \<open>vsprintf\<close> into a buffer of 1024
  bytes on the stack, without a bound; a statement that does not fit is a fault (\<open>None\<close>).
\<close>

section \<open>Statements\<close>

text \<open>The arguments of \<open>execute\<close> are integers, printed by \<open>%d\<close>, and C strings, printed by \<open>%s\<close>.\<close>

datatype sql_arg = D int | S "byte list"

datatype statement = Statement (st_format: string) (st_args: "sql_arg list")

definition int_text :: "int \<Rightarrow> byte list" where
  "int_text i = (if i < 0 then 0x2D # decimal (nat (- i)) else decimal (nat i))"

definition arg_text :: "sql_arg \<Rightarrow> byte list" where
  "arg_text a = (case a of D i \<Rightarrow> int_text (wrap32 i) | S s \<Rightarrow> s)"

text \<open>A directive without an argument of its kind is undefined behaviour.\<close>

definition directive_ok :: "char \<Rightarrow> sql_arg \<Rightarrow> bool" where
  "directive_ok d a = (case a of D _ \<Rightarrow> d = CHR ''d'' | S _ \<Rightarrow> d = CHR ''s'')"

fun vsprintf :: "string \<Rightarrow> sql_arg list \<Rightarrow> byte list option" where
  "vsprintf [] args = Some []"
| "vsprintf (c # cs) args =
     (if c \<noteq> CHR ''%'' then map_option ((#) (of_char c)) (vsprintf cs args)
      else (case (cs, args) of
              (d # cs', a # args') \<Rightarrow>
                (if directive_ok d a then map_option ((@) (arg_text a)) (vsprintf cs' args') else None)
            | _ \<Rightarrow> None))"

definition STATEMENT_BUFFER :: nat where "STATEMENT_BUFFER = 1024"

definition statement_text :: "statement \<Rightarrow> byte list option" where
  "statement_text st = (case vsprintf (st_format st) (st_args st) of
     None \<Rightarrow> None
   | Some text \<Rightarrow> if length text < STATEMENT_BUFFER then Some text else None)"

section \<open>The client library\<close>

record mysql_result =
  mr_fields :: "byte list list"
  mr_rows :: "byte list option list list"

text \<open>
  \<open>mc_query\<close>: the last of the statements has been accepted.  \<open>mc_store\<close>, \<open>mc_field_count\<close> and
  \<open>mc_insert_id\<close> are \<open>mysql_store_result\<close>, \<open>mysql_field_count\<close> and \<open>mysql_insert_id\<close>.
\<close>

record mysql_client =
  mc_connect :: bool
  mc_query :: "byte list list \<Rightarrow> bool"
  mc_store :: "byte list list \<Rightarrow> mysql_result option"
  mc_field_count :: "byte list list \<Rightarrow> nat"
  mc_insert_id :: "byte list list \<Rightarrow> int"

section \<open>The connection\<close>

text \<open>\<open>dc_texts\<close> are the statements the connection has sent.\<close>

record db_connection =
  dc_result :: "mysql_result option"
  dc_texts :: "byte list list"

definition new_connection :: db_connection where
  "new_connection = \<lparr>dc_result = None, dc_texts = []\<rparr>"

text \<open>\<open>throw;\<close> without an exception in flight ends the process.\<close>

definition db_connect :: "mysql_client \<Rightarrow> db_connection \<Rightarrow> db_connection option" where
  "db_connect C c = (if mc_connect C then Some c else None)"

definition db_execute :: "mysql_client \<Rightarrow> string \<Rightarrow> sql_arg list \<Rightarrow> db_connection \<Rightarrow> (bool \<times> db_connection) option" where
  "db_execute C fmt args c = do {
     let c = c\<lparr>dc_result := None\<rparr>;
     text \<leftarrow> statement_text (Statement fmt args);
     let c = c\<lparr>dc_texts := dc_texts c @ [text]\<rparr>;
     if \<not> mc_query C (dc_texts c) then Some (False, c)
     else do {
       let c = c\<lparr>dc_result := mc_store C (dc_texts c)\<rparr>;
       if dc_result c = None \<and> mc_field_count C (dc_texts c) \<noteq> 0 then Some (False, c)
       else Some (True, c)
     }
   }"

definition db_rowcount :: "db_connection \<Rightarrow> nat" where
  "db_rowcount c = (case dc_result c of None \<Rightarrow> 0 | Some R \<Rightarrow> length (mr_rows R))"

definition db_columns :: "db_connection \<Rightarrow> nat" where
  "db_columns c = (case dc_result c of None \<Rightarrow> 0 | Some R \<Rightarrow> length (mr_fields R))"

fun column_loop :: "byte list list \<Rightarrow> byte list \<Rightarrow> nat \<Rightarrow> int" where
  "column_loop [] name i = -1"
| "column_loop (f # fs) name i = (if f = name then wrap32 (int i) else column_loop fs name (Suc i))"

definition db_column :: "byte list \<Rightarrow> db_connection \<Rightarrow> int" where
  "db_column name c = (case dc_result c of None \<Rightarrow> -1 | Some R \<Rightarrow> column_loop (mr_fields R) name 0)"

definition db_autoId :: "mysql_client \<Rightarrow> db_connection \<Rightarrow> int" where
  "db_autoId C c = mc_insert_id C (dc_texts c)"

text \<open>\<open>get\<close>: rows and columns are \<open>size_t\<close>, so the column -1 is past every column.\<close>

definition db_cell :: "nat \<Rightarrow> nat \<Rightarrow> db_connection \<Rightarrow> byte list option" where
  "db_cell row column c = (case dc_result c of
     None \<Rightarrow> None
   | Some R \<Rightarrow> if db_rowcount c \<le> row \<or> db_columns c \<le> column then None else mr_rows R ! row ! column)"

definition db_getIsNull :: "nat \<Rightarrow> nat \<Rightarrow> db_connection \<Rightarrow> bool" where
  "db_getIsNull row column c \<longleftrightarrow> dc_result c = None \<or> db_rowcount c \<le> row \<or> db_columns c \<le> column"

definition db_number :: "(byte list \<Rightarrow> 'a option) \<Rightarrow> 'a \<Rightarrow> nat \<Rightarrow> nat \<Rightarrow> db_connection \<Rightarrow> cxx_exception + 'a" where
  "db_number lx fallback row column c = (case db_cell row column c of
     None \<Rightarrow> Inr fallback | Some s \<Rightarrow> lexical_cast lx (c_str s))"

definition db_getInteger :: "casts \<Rightarrow> nat \<Rightarrow> nat \<Rightarrow> db_connection \<Rightarrow> cxx_exception + int" where
  "db_getInteger L row column c = db_number (lx_int L) (-1) row column c"

definition db_getSmallint :: "casts \<Rightarrow> nat \<Rightarrow> nat \<Rightarrow> db_connection \<Rightarrow> cxx_exception + int" where
  "db_getSmallint L row column c = db_number (lx_short L) (-1) row column c"

definition db_getString :: "nat \<Rightarrow> nat \<Rightarrow> db_connection \<Rightarrow> byte list" where
  "db_getString row column c = (case db_cell row column c of None \<Rightarrow> [] | Some s \<Rightarrow> c_str s)"

text \<open>The pool connects once and hands out the same connection; its list of connections is never filled.\<close>

record db_pool =
  dp_connection :: db_connection

definition new_pool :: "mysql_client \<Rightarrow> db_pool option" where
  "new_pool C = map_option (\<lambda>c. \<lparr>dp_connection = c\<rparr>) (db_connect C new_connection)"

definition getDBConnection :: "db_pool \<Rightarrow> db_connection" where
  "getDBConnection P = dp_connection P"

section \<open>The length of a statement\<close>

definition arg_len :: "sql_arg \<Rightarrow> nat" where "arg_len a = length (arg_text a)"

fun conforms :: "string \<Rightarrow> sql_arg list \<Rightarrow> bool" where
  "conforms [] args = (args = [])"
| "conforms (c # cs) args =
     (if c \<noteq> CHR ''%'' then conforms cs args
      else (case (cs, args) of (d # cs', a # args') \<Rightarrow> directive_ok d a \<and> conforms cs' args' | _ \<Rightarrow> False))"

text \<open>Every directive of two characters gives way to the text of its argument.\<close>

lemma conforming_text:
  "conforms fmt args \<Longrightarrow> \<exists>text. vsprintf fmt args = Some text \<and> length text + 2 * length args = length fmt + (\<Sum>a\<leftarrow>args. arg_len a)"
proof (induction fmt args rule: conforms.induct)
  case (2 c cs args)
  show ?case
  proof (cases "c = CHR ''%''")
    case True
    with 2(3) obtain d cs' a args' where "cs = d # cs'" "args = a # args'" "directive_ok d a" "conforms cs' args'"
      by (auto split: list.splits)
    with 2(2) True obtain t where "vsprintf cs' args' = Some t"
        "length t + 2 * length args' = length cs' + (\<Sum>a\<leftarrow>args'. arg_len a)" by auto
    with \<open>cs = d # cs'\<close> \<open>args = a # args'\<close> \<open>directive_ok d a\<close> True show ?thesis by (simp add: arg_len_def)
  next
    case False
    with 2(1,3) show ?thesis by auto
  qed
qed simp

lemma statement_text_iff:
  assumes "conforms fmt args"
  shows "statement_text (Statement fmt args) = None \<longleftrightarrow>
    STATEMENT_BUFFER + 2 * length args \<le> length fmt + (\<Sum>a\<leftarrow>args. arg_len a)"
  using conforming_text [OF assms] by (auto simp: statement_text_def split: if_splits)

lemma int_text_length: "length (int_text (wrap32 i)) \<le> 11"
proof -
  have "nat (- wrap32 i) < 10 ^ 10" "nat (wrap32 i) < 10 ^ 10"
    using in_int_wrap32 [of i] by (auto simp: in_int_def)
  from this [THEN decimal_length_bounds] show ?thesis by (simp add: int_text_def)
qed

lemma arg_len_bounds [simp]: "arg_len (S s) = length s" "arg_len (D i) \<le> 11"
  by (simp_all add: arg_len_def arg_text_def int_text_length)

lemma c_str_length: "length (c_str s) \<le> length s"
  by (simp add: c_str_def length_takeWhile_le)

text \<open>A short format with few numbers fits.\<close>

fun slack :: "sql_arg list \<Rightarrow> nat" where
  "slack [] = 0"
| "slack (D i # args) = 9 + slack args"
| "slack (S s # args) = length s + slack args"

lemma slack_bound: "(\<Sum>a\<leftarrow>args. arg_len a) \<le> slack args + 2 * length args"
proof (induction args rule: slack.induct)
  case (2 i args)
  then show ?case using arg_len_bounds(2) [of i] by (simp del: arg_len_bounds)
qed simp_all

lemma statement_fits:
  assumes "conforms fmt args" "length fmt + slack args < STATEMENT_BUFFER"
  shows "statement_text (Statement fmt args) \<noteq> None"
  using statement_text_iff [OF assms(1)] slack_bound [of args] assms(2) by linarith

end
