(* ===== verification/Bcon_Print.thy ===== *)
theory Bcon_Print
  imports Bcon Database
begin

text \<open>
  \<open>bcon_print\<close> of \<open>bson/bson/bcon.c\<close>: the array of literals as text.  How \<open>printf\<close> writes a floating point number, and the
  addresses it is given, are parameters; a member that was not stored, a null string and the failed assertion
  of an unknown type are faults.
\<close>

text \<open>The text of a number, of the pointer a cell holds, and of the pointer that one leads to.\<close>

record printer =
  pr_double :: "i64 \<Rightarrow> byte list"
  pr_outer :: "bcon \<Rightarrow> byte list"
  pr_inner :: "bcon \<Rightarrow> byte list"

definition quoted :: "byte list \<Rightarrow> byte list" where
  "quoted s = 0x22 # s @ [0x22]"

text \<open>The value behind a reference or pointer; a null pointer counts as zero or the empty string.\<close>

definition printed_leaf :: "printer \<Rightarrow> byte \<Rightarrow> bcon \<Rightarrow> byte list option" where
  "printed_leaf pr u c = (case c of
      B_double d \<Rightarrow> if u = ch CHR ''f'' then Some (pr_double pr d) else None
    | B_str (Some s) \<Rightarrow> if u = ch CHR ''s'' \<or> u = ch CHR ''o'' \<or> u = ch CHR ''x'' then Some (quoted s) else None
    | B_int i \<Rightarrow> if u = ch CHR ''b'' \<or> u = ch CHR ''i'' then Some (int_text (sint i)) else None
    | B_long l \<Rightarrow> if u = ch CHR ''t'' \<or> u = ch CHR ''l'' then Some (int_text (sint l)) else None
    | _ \<Rightarrow> None)"

definition printed_zero :: "printer \<Rightarrow> byte \<Rightarrow> byte list option" where
  "printed_zero pr u =
     (if u = ch CHR ''f'' then Some (pr_double pr 0)
      else if u = ch CHR ''s'' \<or> u = ch CHR ''o'' \<or> u = ch CHR ''x'' then Some (quoted [])
      else if u = ch CHR ''b'' \<or> u = ch CHR ''i'' \<or> u = ch CHR ''t'' \<or> u = ch CHR ''l'' then Some [0x30]
      else None)"

text \<open>\<open>printf\<close> of one value under its type specifier, without the delimiter.\<close>

definition print_plain :: "printer \<Rightarrow> byte \<Rightarrow> bcon \<Rightarrow> byte list option" where
  "print_plain pr u c =
     (if u = ch CHR ''D'' then (case c of B_doc _ \<Rightarrow> Some (str ''PD('' @ pr_outer pr c @ str '',..)'') | _ \<Rightarrow> None)
      else if u = ch CHR ''A'' then (case c of B_doc _ \<Rightarrow> Some (str ''PA('' @ pr_outer pr c @ str '',....)'') | _ \<Rightarrow> None)
      else if u = ch CHR ''v'' then (case c of B_str (Some s) \<Rightarrow> Some (quoted s) | _ \<Rightarrow> None)
      else printed_leaf pr u c)"

definition print_reference :: "printer \<Rightarrow> byte \<Rightarrow> bcon \<Rightarrow> byte list option" where
  "print_reference pr u c =
     (let open = str ''R'' @ [u] @ str ''('' @ pr_outer pr c in
      if u = ch CHR ''D'' then (case c of B_doc _ \<Rightarrow> Some (open @ str '',..)'') | _ \<Rightarrow> None)
      else if u = ch CHR ''A'' then (case c of B_doc _ \<Rightarrow> Some (open @ str '',....)'') | _ \<Rightarrow> None)
      else map_option (\<lambda>t. open @ str '','' @ t @ str '')'')
        (case c of
           B_str (Some s) \<Rightarrow> printed_leaf pr u c
         | B_ref v \<Rightarrow> if u = ch CHR ''s'' \<or> u = ch CHR ''o'' \<or> u = ch CHR ''x'' then None else printed_leaf pr u v
         | _ \<Rightarrow> None))"

definition print_pointer :: "printer \<Rightarrow> byte \<Rightarrow> bcon \<Rightarrow> byte list option" where
  "print_pointer pr u c =
     (let open = str ''P'' @ [u] @ str ''('' @ pr_outer pr c @ str '','' @ pr_inner pr c in
      case c of
        B_ptr target \<Rightarrow>
          if u = ch CHR ''D'' then Some (open @ str '',..)'')
          else if u = ch CHR ''A'' then Some (open @ str '',....)'')
          else map_option (\<lambda>t. open @ str '','' @ t @ str '')'')
            (case target of None \<Rightarrow> printed_zero pr u | Some v \<Rightarrow> printed_leaf pr u v)
      | _ \<Rightarrow> None)"

definition print_cell :: "printer \<Rightarrow> byte list \<Rightarrow> bcon \<Rightarrow> byte list option" where
  "print_cell pr typespec c =
     (let p = at0 typespec 1; u = at0 typespec 2 in
      if p = ch CHR ''_'' then print_plain pr u c
      else if p = ch CHR ''R'' then print_reference pr u c
      else if p = ch CHR ''P'' then print_pointer pr u c
      else None)"

text \<open>The loop; a cell that no specifier stands before is a string, and the string \<open>"."\<close> ends it.\<close>

fun print_cells :: "printer \<Rightarrow> byte list option \<Rightarrow> byte list \<Rightarrow> bcon list \<Rightarrow> byte list option" where
  "print_cells pr typespec delim [] = None"
| "print_cells pr (Some ts) delim (c # cs) = do {
     t \<leftarrow> print_cell pr ts c;
     rest \<leftarrow> print_cells pr None [0x2C] cs;
     Some (delim @ t @ rest)
   }"
| "print_cells pr None delim (c # cs) =
     (case c of
        B_str (Some s) \<Rightarrow>
          if at0 s 0 = ch CHR ''.'' \<and> at0 s 1 = 0 then Some (delim @ quoted s)
          else do {
            rest \<leftarrow> print_cells pr
              (if at0 s 0 = ch CHR '':'' \<and> bcon_token (Some s) = Token_Typespec then Some s else None) [0x2C] cs;
            Some (delim @ quoted s @ rest)
          }
      | _ \<Rightarrow> None)"

definition bcon_print :: "printer \<Rightarrow> bcon list \<Rightarrow> byte list option" where
  "bcon_print pr bc = do { t \<leftarrow> print_cells pr None [] bc; Some ([0x7B] @ t @ [0x7D]) }"

section \<open>What is printed for a document\<close>

text \<open>The words of a document; no key may look like a type specifier.\<close>

fun val_words :: "printer \<Rightarrow> bson_val \<Rightarrow> byte list list"
  and doc_words :: "printer \<Rightarrow> bson_doc \<Rightarrow> byte list list"
  and array_words :: "printer \<Rightarrow> bson_doc \<Rightarrow> byte list list" where
  "val_words pr (VString s) = [quoted (str '':_s:''), quoted s]"
| "val_words pr (VSymbol s) = [quoted (str '':_x:''), quoted s]"
| "val_words pr (VDouble d) = [quoted (str '':_f:''), pr_double pr d]"
| "val_words pr (VBool b) = [quoted (str '':_b:''), if b then [0x31] else [0x30]]"
| "val_words pr (VInt i) = [quoted (str '':_i:''), int_text (sint i)]"
| "val_words pr (VLong l) = [quoted (str '':_l:''), int_text (sint l)]"
| "val_words pr VNull = [quoted (str '':_v:''), quoted []]"
| "val_words pr (VOid oid) = [quoted (str '':_o:''), quoted (concat (map byte_to_hex oid))]"
| "val_words pr (VObject es) = quoted [0x7B] # doc_words pr es @ [quoted [0x7D]]"
| "val_words pr (VArray es) = quoted [0x5B] # array_words pr es @ [quoted [0x5D]]"
| "val_words pr v = []"
| "doc_words pr [] = []"
| "doc_words pr ((n, v) # es) = quoted n # val_words pr v @ doc_words pr es"
| "array_words pr [] = []"
| "array_words pr ((n, v) # es) = val_words pr v @ array_words pr es"

fun val_printable :: "bson_val \<Rightarrow> bool" and doc_printable :: "bson_doc \<Rightarrow> bool" and array_printable :: "bson_doc \<Rightarrow> bool" where
  "val_printable (VObject es) = doc_printable es"
| "val_printable (VArray es) = array_printable es"
| "val_printable v = True"
| "doc_printable [] = True"
| "doc_printable ((n, v) # es) = (bcon_token (Some n) \<noteq> Token_Typespec \<and> bcon_token (Some n) \<noteq> Token_End \<and> val_printable v \<and> doc_printable es)"
| "array_printable [] = True"
| "array_printable ((n, v) # es) = (val_printable v \<and> array_printable es)"

text \<open>The words of a list behind the first, with the delimiters.\<close>

definition commas :: "byte list list \<Rightarrow> byte list" where
  "commas ws = concat (map (\<lambda>w. 0x2C # w) ws)"

lemma commas_simps [simp]: "commas [] = []" "commas (w # ws) = 0x2C # w @ commas ws" "commas (ws @ ws') = commas ws @ commas ws'"
  by (simp_all add: commas_def)

text \<open>A string cell that is no specifier and not the end, and a specifier with its value.\<close>

lemma print_word:
  "bcon_token (Some s) \<noteq> Token_Typespec \<Longrightarrow> bcon_token (Some s) \<noteq> Token_End \<Longrightarrow>
   print_cells pr None d (B_str (Some s) # cs) = map_option (\<lambda>r. d @ quoted s @ r) (print_cells pr None [0x2C] cs)"
  by (auto simp: bcon_token_def map_option_case split: if_splits Option.bind_split option.splits)

lemma print_typed:
  "print_cell pr [0x3A, 0x5F, u, 0x3A] c = Some t \<Longrightarrow> u \<noteq> 0 \<Longrightarrow>
   print_cells pr None d (B_str (Some [0x3A, 0x5F, u, 0x3A]) # c # cs)
     = map_option (\<lambda>r. d @ quoted [0x3A, 0x5F, u, 0x3A] @ [0x2C] @ t @ r) (print_cells pr None [0x2C] cs)"
  by (simp add: tokens at0_def map_option_case split: Option.bind_split option.splits)

lemma braces_words: "bcon_token (Some [0x7B]) \<noteq> Token_Typespec" "bcon_token (Some [0x7B]) \<noteq> Token_End"
   "bcon_token (Some [0x7D]) \<noteq> Token_Typespec" "bcon_token (Some [0x7D]) \<noteq> Token_End"
   "bcon_token (Some [0x5B]) \<noteq> Token_Typespec" "bcon_token (Some [0x5B]) \<noteq> Token_End"
   "bcon_token (Some [0x5D]) \<noteq> Token_Typespec" "bcon_token (Some [0x5D]) \<noteq> Token_End"
  by (simp_all add: tokens)

lemma int_text_01: "int_text 0 = [0x30]" "int_text 1 = [0x31]"
  by (simp_all add: int_text_def decimal.simps)

lemma print_words:
  "val_bcon v \<Longrightarrow> val_printable v \<Longrightarrow> (\<And>cs. print_cells pr None [0x2C] (val_cells v @ cs)
     = map_option (\<lambda>r. commas (val_words pr v) @ r) (print_cells pr None [0x2C] cs))"
  "doc_bcon es \<Longrightarrow> doc_printable es \<Longrightarrow> (\<And>cs. print_cells pr None [0x2C] (doc_cells es @ cs)
     = map_option (\<lambda>r. commas (doc_words pr es) @ r) (print_cells pr None [0x2C] cs))"
  "array_bcon k as \<Longrightarrow> array_printable as \<Longrightarrow> (\<And>cs. print_cells pr None [0x2C] (array_cells as @ cs)
     = map_option (\<lambda>r. commas (array_words pr as) @ r) (print_cells pr None [0x2C] cs))"
proof (induction v and es and k as rule: val_bcon_doc_bcon_array_bcon.induct)
  case (9 es)
  have "print_cells pr None [0x2C] (doc_cells es @ B_str (Some [0x7D]) # cs)
    = map_option (\<lambda>r. commas (doc_words pr es @ [quoted [0x7D]]) @ r) (print_cells pr None [0x2C] cs)" for cs
    using 9 by (simp del: print_cells.simps add: print_word braces_words option.map_comp comp_def)
  then show ?case by (simp del: print_cells.simps add: tok_def print_word braces_words option.map_comp comp_def)
next
  case (10 as)
  have "print_cells pr None [0x2C] (array_cells as @ B_str (Some [0x5D]) # cs)
    = map_option (\<lambda>r. commas (array_words pr as @ [quoted [0x5D]]) @ r) (print_cells pr None [0x2C] cs)" for cs
    using 10 by (simp del: print_cells.simps add: print_word braces_words option.map_comp comp_def)
  then show ?case by (simp del: print_cells.simps add: tok_def print_word braces_words option.map_comp comp_def)
next
  case (13 n v es)
  then show ?case by (simp del: print_cells.simps add: print_word option.map_comp comp_def)
next
  case (15 k n v es)
  then show ?case by (simp del: print_cells.simps add: option.map_comp comp_def)
qed (simp_all del: print_cells.simps add: spec_def str_def print_typed print_cell_def at0_def print_plain_def printed_leaf_def
  map_option_case int_text_01 split: option.splits)

text \<open>
  A document is printed word by word, and nothing behind its end is read.
\<close>

lemma bcon_print_correct:
  assumes "doc_bcon es" "doc_printable es" "es \<noteq> []"
  shows "bcon_print pr (doc_cells es @ tok CHR ''.'' # rest) = Some ([0x7B] @ tl (commas (doc_words pr es @ [quoted [0x2E]])) @ [0x7D])"
proof -
  obtain n v es' where es: "es = (n, v) # es'" using assms(3) by (cases es) auto
  have last: "print_cells pr None [0x2C] (tok CHR ''.'' # rest) = Some (commas [quoted [0x2E]])"
    by (simp add: tok_def at0_def)
  have "print_cells pr None [0x2C] (val_cells v @ doc_cells es' @ tok CHR ''.'' # rest)
      = Some (commas (val_words pr v @ doc_words pr es' @ [quoted [0x2E]]))"
    using print_words(1) [of v pr] print_words(2) [of es' pr] assms(1,2) last by (simp add: es)
  then have "print_cells pr None [] (doc_cells es @ tok CHR ''.'' # rest)
      = Some (quoted n @ commas (val_words pr v @ doc_words pr es' @ [quoted [0x2E]]))"
    using assms(2) by (simp del: print_cells.simps add: es print_word)
  then show ?thesis by (simp add: bcon_print_def es)
qed

lemma bcon_print_correct_instance:
  "bcon_print pr (doc_cells bcon_sample @ [tok CHR ''.'']) = Some (str ''{'' @ quoted (str ''a'') @ str '','' @ quoted (str '':_i:'')
     @ str '',5,'' @ quoted (str ''b'') @ str '','' @ quoted (str ''['') @ str '','' @ quoted (str '':_s:'') @ str '','' @ quoted (str ''h'')
     @ str '','' @ quoted (str ''{'') @ str '','' @ quoted (str ''c'') @ str '','' @ quoted (str '':_v:'') @ str '','' @ quoted []
     @ str '','' @ quoted (str ''}'') @ str '','' @ quoted (str '']'') @ str '','' @ quoted (str ''.'') @ str ''}'')"
  using bcon_print_correct [of bcon_sample pr "[]"]
  by (simp add: bcon_sample_def bcon_token_def at0_def str_def decimal.simps int_text_def)

text \<open>
  A key that looks like a specifier is a key for the compiler; the printer takes it for the specifier of
  the cell behind it, which holds something else.
\<close>

lemma specifier_as_key:
  "bcon_print pr (doc_cells [([0x3A, 0x5F, 0x69, 0x3A], VString s)] @ [tok CHR ''.'']) = None"
  by (simp add: bcon_print_def spec_def tok_def tokens at0_def print_cell_def print_plain_def printed_leaf_def)

end
