(* ===== verification/CBson.thy ===== *)
theory CBson
  imports Bson_Parser
begin

text \<open>
  Documents as linked objects: \<open>bson/CBson.cpp\<close> and \<open>bson/CBsonObject.cpp\<close>.  A document is a
  \<open>std::map\<close> from pointers to keys to pointers to tagged unions, so every operation takes and
  returns the heap these pointers lead into.  An operation that follows a pointer to an object that
  is gone, or of another kind, has no result.
\<close>

section \<open>The heap\<close>

text \<open>
  The eight bytes of the union: the bits a number member has left there (the other bytes are those
  \<open>new bson_obj()\<close> zeroed), or an address.
\<close>

datatype union_value = U_bits i64 | U_ptr nat

text \<open>
  The objects: a \<open>bson_obj\<close>, a \<open>bson_obj_map\<close>, a \<open>bson_obj_list\<close>, a \<open>std::string\<close> key, a
  string of \<open>strdup\<close>, a \<open>bin_obj\<close> and its data.  A null pointer is \<open>None\<close>.
\<close>

datatype cell =
    C_obj bson_type union_value
  | C_map "(nat \<times> nat option) list"
  | C_list "nat option list"
  | C_str "byte list"
  | C_chars "byte list"
  | C_bin "nat option" i32
  | C_data "byte list"

record cb_heap =
  hp_cells :: "nat \<Rightarrow> cell option"
  hp_next :: nat

definition new_cell :: "cell \<Rightarrow> cb_heap \<Rightarrow> nat \<times> cb_heap" where
  "new_cell c h = (hp_next h, \<lparr>hp_cells = (hp_cells h)(hp_next h := Some c), hp_next = Suc (hp_next h)\<rparr>)"

definition set_cell :: "nat \<Rightarrow> cell \<Rightarrow> cb_heap \<Rightarrow> cb_heap" where
  "set_cell a c h = h\<lparr>hp_cells := (hp_cells h)(a := Some c)\<rparr>"

definition drop_cell :: "nat \<Rightarrow> cb_heap \<Rightarrow> cb_heap" where
  "drop_cell a h = h\<lparr>hp_cells := (hp_cells h)(a := None)\<rparr>"

text \<open>\<open>delete\<close> and \<open>free\<close> of an address that holds nothing are faults.\<close>

definition release :: "nat \<Rightarrow> cb_heap \<Rightarrow> cb_heap option" where
  "release a h = (case hp_cells h a of None \<Rightarrow> None | Some c \<Rightarrow> Some (drop_cell a h))"

definition obj_at :: "cb_heap \<Rightarrow> nat option \<Rightarrow> (bson_type \<times> union_value) option" where
  "obj_at h p = (case p of None \<Rightarrow> None
     | Some a \<Rightarrow> (case hp_cells h a of Some (C_obj t u) \<Rightarrow> Some (t, u) | _ \<Rightarrow> None))"

definition entries_at :: "cb_heap \<Rightarrow> nat \<Rightarrow> (nat \<times> nat option) list option" where
  "entries_at h a = (case hp_cells h a of Some (C_map es) \<Rightarrow> Some es | _ \<Rightarrow> None)"

definition items_at :: "cb_heap \<Rightarrow> nat \<Rightarrow> nat option list option" where
  "items_at h a = (case hp_cells h a of Some (C_list xs) \<Rightarrow> Some xs | _ \<Rightarrow> None)"

definition key_at :: "cb_heap \<Rightarrow> nat \<Rightarrow> byte list option" where
  "key_at h a = (case hp_cells h a of Some (C_str s) \<Rightarrow> Some (c_str s) | _ \<Rightarrow> None)"

definition chars_at :: "cb_heap \<Rightarrow> nat \<Rightarrow> byte list option" where
  "chars_at h a = (case hp_cells h a of Some (C_chars s) \<Rightarrow> Some s | _ \<Rightarrow> None)"

definition bin_at :: "cb_heap \<Rightarrow> nat \<Rightarrow> (nat option \<times> i32) option" where
  "bin_at h a = (case hp_cells h a of Some (C_bin d n) \<Rightarrow> Some (d, n) | _ \<Rightarrow> None)"

definition data_at :: "cb_heap \<Rightarrow> nat \<Rightarrow> byte list option" where
  "data_at h a = (case hp_cells h a of Some (C_data xs) \<Rightarrow> Some xs | _ \<Rightarrow> None)"

text \<open>\<open>memcpy\<close> from the data of a binary: as many bytes as it says it has.\<close>

definition bin_bytes :: "cb_heap \<Rightarrow> nat option \<times> i32 \<Rightarrow> byte list option" where
  "bin_bytes h bin = (case bin of (d, n) \<Rightarrow>
     if n = 0 then Some [] else do { a \<leftarrow> d; xs \<leftarrow> data_at h a; rdn xs 0 (unat n) })"

text \<open>
  The members of the union.  A number read from the bits of an address, and an address made from
  the bits of a number, are not fixed by the program.
\<close>

definition as_bits :: "union_value \<Rightarrow> i64 option" where
  "as_bits u = (case u of U_bits w \<Rightarrow> Some w | U_ptr a \<Rightarrow> None)"

definition as_int :: "union_value \<Rightarrow> i32 option" where
  "as_int u = map_option ucast (as_bits u)"

definition as_bool :: "union_value \<Rightarrow> bool option" where
  "as_bool u = do { w \<leftarrow> as_bits u; let c = (ucast w :: byte);
     if c = 0 then Some False else if c = 1 then Some True else None }"

definition as_ptr :: "union_value \<Rightarrow> nat option option" where
  "as_ptr u = (case u of U_ptr a \<Rightarrow> Some (Some a) | U_bits w \<Rightarrow> if w = 0 then Some None else None)"

text \<open>The address a pointer member holds, where the code follows it at once.\<close>

definition deref :: "union_value \<Rightarrow> nat option" where
  "deref u = Option.bind (as_ptr u) (\<lambda>p. p)"

definition ptr_bits :: "nat option \<Rightarrow> union_value" where
  "ptr_bits p = (case p of None \<Rightarrow> U_bits 0 | Some a \<Rightarrow> U_ptr a)"

definition store_value :: "nat \<Rightarrow> union_value \<Rightarrow> cb_heap \<Rightarrow> cb_heap option" where
  "store_value r u h = map_option (\<lambda>(t, _). set_cell r (C_obj t u) h) (obj_at h (Some r))"

section \<open>The map of a document\<close>

text \<open>
  The map compares keys by \<open>strcmp\<close> of the strings its pointers lead to.  \<open>map_view\<close> reads them:
  a search of a map with a key that is gone has no result, for it depends on the shape of the tree
  whether the comparison meets it.
\<close>

definition map_view :: "cb_heap \<Rightarrow> (nat \<times> nat option) list \<Rightarrow> (byte list, nat \<times> nat option) std_map option" where
  "map_view h es = those (map (\<lambda>(k, p). map_option (\<lambda>s. (s, k, p)) (key_at h k)) es)"

text \<open>\<open>(*dict)[k] = p\<close>: the key of an entry that is there stays.\<close>

definition map_put :: "cb_heap \<Rightarrow> nat \<Rightarrow> nat option \<Rightarrow> (nat \<times> nat option) list \<Rightarrow> (nat \<times> nat option) list option" where
  "map_put h k p es = do {
     s \<leftarrow> key_at h k;
     view \<leftarrow> map_view h es;
     Some (map snd (case std_find s view of
         Some (k', _) \<Rightarrow> std_assign s (k', p) view
       | None \<Rightarrow> std_insert s (k, p) view))
   }"

definition map_assign :: "nat \<Rightarrow> nat \<Rightarrow> nat option \<Rightarrow> cb_heap \<Rightarrow> cb_heap option" where
  "map_assign m k p h = do {
     es \<leftarrow> entries_at h m;
     es \<leftarrow> map_put h k p es;
     Some (set_cell m (C_map es) h)
   }"

definition push_back :: "nat \<Rightarrow> nat option \<Rightarrow> cb_heap \<Rightarrow> cb_heap option" where
  "push_back l p h = map_option (\<lambda>xs. set_cell l (C_list (xs @ [p])) h) (items_at h l)"

section \<open>Parsing\<close>

text \<open>The cases of \<open>__parse_value\<close> without a sub-iterator; a 64-bit integer goes into \<open>i_v\<close>.\<close>

definition cb_parse_leaf :: "bson_iterator \<Rightarrow> bson_type \<Rightarrow> cb_heap \<Rightarrow> (union_value \<times> cb_heap) option" where
  "cb_parse_leaf it t h =
     (case t of
        BSON_DOUBLE \<Rightarrow> map_option (\<lambda>d. (U_bits d, h)) (bson_iterator_double it)
      | BSON_INT \<Rightarrow> map_option (\<lambda>i. (U_bits (ucast i), h)) (bson_iterator_int it)
      | BSON_LONG \<Rightarrow> map_option (\<lambda>l. (U_bits (ucast (ucast l :: i32)), h)) (bson_iterator_long it)
      | BSON_BOOL \<Rightarrow> map_option (\<lambda>i. (U_bits (of_bool (i \<noteq> 0)), h)) (bson_iterator_bool it)
      | BSON_STRING \<Rightarrow> map_option (\<lambda>s. case new_cell (C_chars s) h of (a, h) \<Rightarrow> (U_ptr a, h))
          (bson_iterator_string it)
      | BSON_DATE \<Rightarrow> map_option (\<lambda>d. (U_bits d, h)) (bson_iterator_date it)
      | BSON_BINDATA \<Rightarrow> do {
          p \<leftarrow> bson_iterator_bin_data it;
          n \<leftarrow> bson_iterator_bin_len it;
          xs \<leftarrow> rdn (it_mem it) p (unat n);
          let (d, h) = new_cell (C_data xs) h;
          let (a, h) = new_cell (C_bin (Some d) n) h;
          Some (U_ptr a, h)
        }
      | _ \<Rightarrow> Some (U_bits 0, h))"

text \<open>
  \<open>__parse_value\<close>, the loop of \<open>__parse\<close> into the map \<open>m\<close>, and the loop of the case
  \<open>BSON_ARRAY\<close> into the list \<open>l\<close>.
\<close>

fun cb_parse_value :: "nat \<Rightarrow> bson_iterator \<Rightarrow> cb_heap \<Rightarrow> (nat \<times> cb_heap) outcome"
  and cb_parse_loop :: "nat \<Rightarrow> bson_iterator \<Rightarrow> nat \<Rightarrow> cb_heap \<Rightarrow> cb_heap outcome"
  and cb_parse_items :: "nat \<Rightarrow> bson_iterator \<Rightarrow> nat \<Rightarrow> cb_heap \<Rightarrow> cb_heap outcome" where
  "cb_parse_value 0 it h = Timeout"
| "cb_parse_value (Suc fuel) it h =
     lift_fault (bson_iterator_type it) (\<lambda>t.
       let (r, h) = new_cell (C_obj t (U_bits 0)) h in
       if t = BSON_OBJECT then
         lift_fault (bson_iterator_subiterator it) (\<lambda>sub.
           let (m, h) = new_cell (C_map []) h in
           bind_outcome (cb_parse_loop fuel sub m h) (\<lambda>h.
             lift_fault (store_value r (U_ptr m) h) (\<lambda>h. Done (r, h))))
       else if t = BSON_ARRAY then
         lift_fault (bson_iterator_subiterator it) (\<lambda>sub.
           let (l, h) = new_cell (C_list []) h in
           bind_outcome (cb_parse_items fuel sub l h) (\<lambda>h.
             lift_fault (store_value r (U_ptr l) h) (\<lambda>h. Done (r, h))))
       else lift_fault (cb_parse_leaf it t h) (\<lambda>(u, h).
         lift_fault (store_value r u h) (\<lambda>h. Done (r, h))))"
| "cb_parse_loop 0 it m h = Timeout"
| "cb_parse_loop (Suc fuel) it m h =
     lift_fault (bson_iterator_next it) (\<lambda>(t, it).
       if t = BSON_EOO then Done h
       else bind_outcome (cb_parse_value fuel it h) (\<lambda>(v, h).
         lift_fault (cstring (it_mem it) (bson_iterator_key it)) (\<lambda>key.
           let (k, h) = new_cell (C_str key) h in
           lift_fault (map_assign m k (Some v) h) (\<lambda>h. cb_parse_loop fuel it m h))))"
| "cb_parse_items 0 it l h = Timeout"
| "cb_parse_items (Suc fuel) it l h =
     lift_fault (bson_iterator_next it) (\<lambda>(t, it).
       if t = BSON_EOO then Done h
       else bind_outcome (cb_parse_value fuel it h) (\<lambda>(v, h).
         lift_fault (push_back l (Some v) h) (\<lambda>h. cb_parse_items fuel it l h)))"

definition cb_parse :: "nat \<Rightarrow> byte list \<Rightarrow> cb_heap \<Rightarrow> (nat \<times> cb_heap) outcome" where
  "cb_parse fuel buff h =
     (let (m, h) = new_cell (C_map []) h in
      bind_outcome (cb_parse_loop fuel (bson_iterator_from_buffer buff 0) m h) (\<lambda>h. Done (m, h)))"

section \<open>Saving\<close>

text \<open>The status of the builder is ignored.\<close>

definition put_call :: "(status \<times> bson) option \<Rightarrow> bson outcome" where
  "put_call res = lift_fault res (\<lambda>(_, b). Done b)"

definition cb_save_leaf :: "allocator \<Rightarrow> cb_heap \<Rightarrow> bson_type \<Rightarrow> union_value \<Rightarrow> byte list \<Rightarrow> bson \<Rightarrow> bson outcome" where
  "cb_save_leaf A h t u key b =
     (case t of
        BSON_DOUBLE \<Rightarrow> lift_fault (as_bits u) (\<lambda>d. put_call (bson_append_double A b key d))
      | BSON_INT \<Rightarrow> lift_fault (as_int u) (\<lambda>i. put_call (bson_append_int A b key i))
      | BSON_BOOL \<Rightarrow> lift_fault (as_bool u) (\<lambda>x. put_call (bson_append_bool A b key (of_bool x)))
      | BSON_STRING \<Rightarrow> lift_fault (deref u) (\<lambda>a. lift_fault (chars_at h a) (\<lambda>s.
          put_call (bson_append_string A b key s)))
      | BSON_NULL \<Rightarrow> put_call (bson_append_null A b key)
      | BSON_DATE \<Rightarrow> lift_fault (as_bits u) (\<lambda>d. put_call (bson_append_date A b key d))
      | BSON_BINDATA \<Rightarrow> lift_fault (deref u) (\<lambda>a. lift_fault (bin_at h a) (\<lambda>(d, n).
          lift_fault (bin_bytes h (d, n)) (\<lambda>xs.
            put_call (bson_append_binary A b key BSON_BIN_BINARY xs (unat n)))))
      | _ \<Rightarrow> Done b)"

fun cb_save_value :: "allocator \<Rightarrow> nat \<Rightarrow> cb_heap \<Rightarrow> nat option \<Rightarrow> byte list \<Rightarrow> bson \<Rightarrow> bson outcome"
  and cb_save_map :: "allocator \<Rightarrow> nat \<Rightarrow> cb_heap \<Rightarrow> (nat \<times> nat option) list \<Rightarrow> bson \<Rightarrow> bson outcome"
  and cb_save_items :: "allocator \<Rightarrow> nat \<Rightarrow> cb_heap \<Rightarrow> nat option list \<Rightarrow> bson \<Rightarrow> bson outcome" where
  "cb_save_value A 0 h p key b = Timeout"
| "cb_save_value A (Suc fuel) h p key b =
     lift_fault (obj_at h p) (\<lambda>(t, u).
       if t = BSON_OBJECT then
         bind_outcome (put_call (bson_append_start_object A b key)) (\<lambda>b.
           lift_fault (Option.bind (deref u) (entries_at h)) (\<lambda>es.
             bind_outcome (cb_save_map A fuel h es b) (\<lambda>b.
               put_call (bson_append_finish_object A b))))
       else if t = BSON_ARRAY then
         bind_outcome (put_call (bson_append_start_array A b key)) (\<lambda>b.
           lift_fault (Option.bind (deref u) (items_at h)) (\<lambda>xs.
             bind_outcome (cb_save_items A fuel h xs b) (\<lambda>b.
               put_call (bson_append_finish_array A b))))
       else cb_save_leaf A h t u key b)"
| "cb_save_map A 0 h es b = Timeout"
| "cb_save_map A (Suc fuel) h [] b = Done b"
| "cb_save_map A (Suc fuel) h ((k, p) # es) b =
     lift_fault (key_at h k) (\<lambda>key.
       bind_outcome (cb_save_value A fuel h p key b) (\<lambda>b. cb_save_map A fuel h es b))"
| "cb_save_items A 0 h xs b = Timeout"
| "cb_save_items A (Suc fuel) h [] b = Done b"
| "cb_save_items A (Suc fuel) h (p # ps) b =
     bind_outcome (cb_save_value A fuel h p [] b) (\<lambda>b. cb_save_items A fuel h ps b)"

text \<open>\<open>save\<close>: the bytes of the block it returns.\<close>

definition cb_save :: "allocator \<Rightarrow> nat \<Rightarrow> nat option \<Rightarrow> cb_heap \<Rightarrow> byte list outcome" where
  "cb_save A fuel dict h =
     lift_fault (Option.bind dict (entries_at h)) (\<lambda>es.
       bind_outcome (cb_save_map A fuel h es (snd (bson_init A))) (\<lambda>b.
         lift_fault (bson_finish A b) (\<lambda>(_, b).
           lift_fault (bson_size b) (\<lambda>n.
             lift_fault (Option.bind (b_data b) (\<lambda>d. rdn d 0 (size_t n))) Done))))"

section \<open>Destroying\<close>

definition cb_free_chars :: "union_value \<Rightarrow> cb_heap \<Rightarrow> cb_heap option" where
  "cb_free_chars u h = do { p \<leftarrow> as_ptr u;
     case p of None \<Rightarrow> Some h | Some a \<Rightarrow> chars_at h a \<bind> (\<lambda>_. release a h) }"

text \<open>\<open>bin_destroy\<close>, and the case \<open>BSON_BINDATA\<close> of \<open>__bson_obj_destroy\<close>, which does not look for null.\<close>

definition cb_free_bin :: "nat \<Rightarrow> cb_heap \<Rightarrow> cb_heap option" where
  "cb_free_bin a h = do {
     (d, n) \<leftarrow> bin_at h a;
     h \<leftarrow> (case d of None \<Rightarrow> Some h | Some d \<Rightarrow> data_at h d \<bind> (\<lambda>_. release d h));
     release a h
   }"

definition bin_destroy :: "nat option \<Rightarrow> cb_heap \<Rightarrow> cb_heap option" where
  "bin_destroy p h = (case p of None \<Rightarrow> Some h | Some a \<Rightarrow> cb_free_bin a h)"

definition bin_dup :: "nat option \<Rightarrow> cb_heap \<Rightarrow> (nat option \<times> cb_heap) option" where
  "bin_dup p h = (case p of None \<Rightarrow> Some (None, h) | Some a \<Rightarrow> do {
     bin \<leftarrow> bin_at h a;
     xs \<leftarrow> bin_bytes h bin;
     let (d, h) = new_cell (C_data xs) h;
     let (a', h) = new_cell (C_bin (Some d) (snd bin)) h;
     Some (Some a', h) })"

text \<open>
  \<open>__bson_obj_destroy\<close> and the two loops.  An object of a map is deleted after its contents, one of
  a list is not deleted at all.
\<close>

fun cb_destroy_value :: "nat \<Rightarrow> nat option \<Rightarrow> cb_heap \<Rightarrow> cb_heap outcome"
  and cb_destroy_entries :: "nat \<Rightarrow> (nat \<times> nat option) list \<Rightarrow> cb_heap \<Rightarrow> cb_heap outcome"
  and cb_destroy_items :: "nat \<Rightarrow> nat option list \<Rightarrow> cb_heap \<Rightarrow> cb_heap outcome" where
  "cb_destroy_value 0 p h = Timeout"
| "cb_destroy_value (Suc fuel) p h =
     lift_fault (obj_at h p) (\<lambda>(t, u).
       if t = BSON_STRING then lift_fault (cb_free_chars u h) Done
       else if t = BSON_BINDATA then lift_fault (Option.bind (deref u) (\<lambda>a. cb_free_bin a h)) Done
       else if t = BSON_OBJECT then
         lift_fault (deref u) (\<lambda>m.
           lift_fault (entries_at h m) (\<lambda>es.
             bind_outcome (cb_destroy_entries fuel es h) (\<lambda>h. lift_fault (release m h) Done)))
       else if t = BSON_ARRAY then
         lift_fault (deref u) (\<lambda>l.
           lift_fault (items_at h l) (\<lambda>ps.
             bind_outcome (cb_destroy_items fuel ps h) (\<lambda>h. lift_fault (release l h) Done)))
       else Done h)"
| "cb_destroy_entries 0 es h = Timeout"
| "cb_destroy_entries (Suc fuel) [] h = Done h"
| "cb_destroy_entries (Suc fuel) ((k, p) # es) h =
     lift_fault (key_at h k \<bind> (\<lambda>_. release k h)) (\<lambda>h.
       bind_outcome (cb_destroy_value fuel p h) (\<lambda>h.
         lift_fault (p \<bind> (\<lambda>a. release a h)) (\<lambda>h. cb_destroy_entries fuel es h)))"
| "cb_destroy_items 0 ps h = Timeout"
| "cb_destroy_items (Suc fuel) [] h = Done h"
| "cb_destroy_items (Suc fuel) (p # ps) h =
     bind_outcome (cb_destroy_value fuel p h) (\<lambda>h. cb_destroy_items fuel ps h)"

definition bson_obj_map_destroy :: "nat \<Rightarrow> nat option \<Rightarrow> cb_heap \<Rightarrow> cb_heap outcome" where
  "bson_obj_map_destroy fuel dict h =
     lift_fault dict (\<lambda>m.
       lift_fault (entries_at h m) (\<lambda>es.
         bind_outcome (cb_destroy_entries fuel es h) (\<lambda>h. lift_fault (release m h) Done)))"

section \<open>Objects, elements and arrays of CBsonObject.cpp\<close>

text \<open>
  A \<open>CBsonObject\<close>, \<open>CBsonElement\<close> or \<open>CBsonArray\<close> is the pointer it holds, a \<open>bin_obj\<close> passed by
  value the pair of its data pointer and size.
\<close>

definition object_createNew :: "nat \<Rightarrow> nat option \<Rightarrow> cb_heap \<Rightarrow> (nat option \<times> cb_heap) outcome" where
  "object_createNew fuel m_Obj h =
     bind_outcome (if m_Obj = None then Done h else bson_obj_map_destroy fuel m_Obj h) (\<lambda>h.
       let (m, h) = new_cell (C_map []) h in Done (Some m, h))"

definition object_parse :: "nat \<Rightarrow> nat option \<times> i32 \<Rightarrow> cb_heap \<Rightarrow> (nat option \<times> cb_heap) outcome" where
  "object_parse fuel bin h =
     lift_fault (fst bin \<bind> data_at h) (\<lambda>buff.
       bind_outcome (cb_parse fuel buff h) (\<lambda>(m, h). Done (Some m, h)))"

definition object_save :: "allocator \<Rightarrow> nat \<Rightarrow> nat option \<Rightarrow> cb_heap \<Rightarrow> ((nat option \<times> i32) \<times> cb_heap) outcome" where
  "object_save A fuel m_Obj h =
     bind_outcome (cb_save A fuel m_Obj h) (\<lambda>xs.
       let (d, h) = new_cell (C_data xs) h in Done ((Some d, word_of_nat (length xs)), h))"

subsection \<open>Looking up\<close>

text \<open>
  \<open>(*m_Obj)[&key]\<close> makes an entry for a key that is missing: its key is the local string, which is
  gone when the function returns, and its object the null pointer.
\<close>

definition getElementValue :: "byte list \<Rightarrow> nat option \<Rightarrow> cb_heap \<Rightarrow> (nat option \<times> cb_heap) option" where
  "getElementValue string m_Obj h = do {
     m \<leftarrow> m_Obj;
     es \<leftarrow> entries_at h m;
     let (k, h) = new_cell (C_str string) h;
     view \<leftarrow> map_view h es;
     case std_find (c_str string) view of
       Some (k', p) \<Rightarrow> Some (p, drop_cell k h)
     | None \<Rightarrow> Some (None, drop_cell k (set_cell m
         (C_map (map snd (std_insert (c_str string) (k, None) view))) h))
   }"

definition isExist :: "byte list \<Rightarrow> nat option \<Rightarrow> cb_heap \<Rightarrow> bool option" where
  "isExist str m_Obj h = do {
     m \<leftarrow> m_Obj;
     es \<leftarrow> entries_at h m;
     view \<leftarrow> map_view h es;
     Some (std_find (c_str str) view \<noteq> None)
   }"

definition element_int :: "nat option \<Rightarrow> cb_heap \<Rightarrow> i32 option" where
  "element_int e h = obj_at h e \<bind> (\<lambda>(_, u). as_int u)"

definition element_bool :: "nat option \<Rightarrow> cb_heap \<Rightarrow> bool option" where
  "element_bool e h = obj_at h e \<bind> (\<lambda>(_, u). as_bool u)"

definition element_double :: "nat option \<Rightarrow> cb_heap \<Rightarrow> i64 option" where
  "element_double e h = obj_at h e \<bind> (\<lambda>(_, u). as_bits u)"

definition element_string :: "nat option \<Rightarrow> cb_heap \<Rightarrow> byte list option" where
  "element_string e h = obj_at h e \<bind> (\<lambda>(_, u). deref u \<bind> chars_at h)"

definition element_object :: "nat option \<Rightarrow> cb_heap \<Rightarrow> nat option option" where
  "element_object e h = obj_at h e \<bind> (\<lambda>(_, u). as_ptr u)"

definition element_array :: "nat option \<Rightarrow> cb_heap \<Rightarrow> nat option option" where
  "element_array e h = obj_at h e \<bind> (\<lambda>(_, u). as_ptr u)"

text \<open>The getters of \<open>CBsonObject\<close> return the member and the heap the look-up leaves.\<close>

definition object_int :: "byte list \<Rightarrow> nat option \<Rightarrow> cb_heap \<Rightarrow> (i32 \<times> cb_heap) option" where
  "object_int string m_Obj h = do {
     (e, h) \<leftarrow> getElementValue string m_Obj h;
     if e = None then Some (0, h) else map_option (\<lambda>i. (i, h)) (element_int e h) }"

definition object_bool :: "byte list \<Rightarrow> nat option \<Rightarrow> cb_heap \<Rightarrow> (bool \<times> cb_heap) option" where
  "object_bool string m_Obj h = do {
     (e, h) \<leftarrow> getElementValue string m_Obj h; map_option (\<lambda>x. (x, h)) (element_bool e h) }"

definition object_double :: "byte list \<Rightarrow> nat option \<Rightarrow> cb_heap \<Rightarrow> (i64 \<times> cb_heap) option" where
  "object_double string m_Obj h = do {
     (e, h) \<leftarrow> getElementValue string m_Obj h; map_option (\<lambda>d. (d, h)) (element_double e h) }"

definition object_string :: "byte list \<Rightarrow> nat option \<Rightarrow> cb_heap \<Rightarrow> (byte list \<times> cb_heap) option" where
  "object_string string m_Obj h = do {
     (e, h) \<leftarrow> getElementValue string m_Obj h;
     if e = None then Some ([], h) else map_option (\<lambda>s. (s, h)) (element_string e h) }"

definition object_binary :: "byte list \<Rightarrow> nat option \<Rightarrow> cb_heap \<Rightarrow> (nat option \<times> cb_heap) option" where
  "object_binary string m_Obj h = do {
     (e, h) \<leftarrow> getElementValue string m_Obj h;
     (_, u) \<leftarrow> obj_at h e;
     map_option (\<lambda>p. (p, h)) (as_ptr u) }"

definition object_object :: "byte list \<Rightarrow> nat option \<Rightarrow> cb_heap \<Rightarrow> (nat option \<times> cb_heap) option" where
  "object_object string m_Obj h = do {
     (e, h) \<leftarrow> getElementValue string m_Obj h;
     if e = None then Some (None, h)
     else do {
       (t, u) \<leftarrow> obj_at h e;
       if t = BSON_OBJECT then map_option (\<lambda>p. (p, h)) (as_ptr u) else Some (None, h) } }"

definition object_array :: "byte list \<Rightarrow> nat option \<Rightarrow> cb_heap \<Rightarrow> (nat option \<times> cb_heap) option" where
  "object_array string m_Obj h = do {
     (e, h) \<leftarrow> getElementValue string m_Obj h;
     (t, u) \<leftarrow> obj_at h e;
     if t = BSON_ARRAY then map_option (\<lambda>p. (p, h)) (as_ptr u) else Some (None, h) }"

subsection \<open>Storing\<close>

definition createIntElement :: "i32 \<Rightarrow> cb_heap \<Rightarrow> nat \<times> cb_heap" where
  "createIntElement v h = new_cell (C_obj BSON_INT (U_bits (ucast v))) h"

definition createBoolElement :: "bool \<Rightarrow> cb_heap \<Rightarrow> nat \<times> cb_heap" where
  "createBoolElement v h = new_cell (C_obj BSON_BOOL (U_bits (of_bool v))) h"

definition createDoubleElement :: "i64 \<Rightarrow> cb_heap \<Rightarrow> nat \<times> cb_heap" where
  "createDoubleElement v h = new_cell (C_obj BSON_DOUBLE (U_bits v)) h"

definition createStringElement :: "byte list \<Rightarrow> cb_heap \<Rightarrow> nat \<times> cb_heap" where
  "createStringElement v h = (let (a, h) = new_cell (C_chars (c_str v)) h
     in new_cell (C_obj BSON_STRING (U_ptr a)) h)"

definition createOBjectElement :: "nat option \<Rightarrow> cb_heap \<Rightarrow> nat \<times> cb_heap" where
  "createOBjectElement m_Obj h = new_cell (C_obj BSON_OBJECT (ptr_bits m_Obj)) h"

definition createArrayElement :: "nat option \<Rightarrow> cb_heap \<Rightarrow> nat \<times> cb_heap" where
  "createArrayElement m_List h = new_cell (C_obj BSON_ARRAY (ptr_bits m_List)) h"

definition createBinaryElement :: "nat option \<times> i32 \<Rightarrow> cb_heap \<Rightarrow> (nat \<times> cb_heap) option" where
  "createBinaryElement bin h = do {
     xs \<leftarrow> bin_bytes h bin;
     let (d, h) = new_cell (C_data xs) h;
     let (a, h) = new_cell (C_bin (Some d) (snd bin)) h;
     Some (new_cell (C_obj BSON_BINDATA (U_ptr a)) h)
   }"

definition setElementValue :: "byte list \<Rightarrow> nat option \<Rightarrow> nat option \<Rightarrow> cb_heap \<Rightarrow> cb_heap option" where
  "setElementValue string e m_Obj h = do {
     m \<leftarrow> m_Obj;
     let (k, h) = new_cell (C_str string) h;
     map_assign m k e h
   }"

definition object_setInt :: "byte list \<Rightarrow> i32 \<Rightarrow> nat option \<Rightarrow> cb_heap \<Rightarrow> cb_heap option" where
  "object_setInt string v m_Obj h =
     (case createIntElement v h of (e, h) \<Rightarrow> setElementValue string (Some e) m_Obj h)"

definition object_setBool :: "byte list \<Rightarrow> bool \<Rightarrow> nat option \<Rightarrow> cb_heap \<Rightarrow> cb_heap option" where
  "object_setBool string v m_Obj h =
     (case createBoolElement v h of (e, h) \<Rightarrow> setElementValue string (Some e) m_Obj h)"

definition object_setDouble :: "byte list \<Rightarrow> i64 \<Rightarrow> nat option \<Rightarrow> cb_heap \<Rightarrow> cb_heap option" where
  "object_setDouble string v m_Obj h =
     (case createDoubleElement v h of (e, h) \<Rightarrow> setElementValue string (Some e) m_Obj h)"

definition object_setString :: "byte list \<Rightarrow> byte list \<Rightarrow> nat option \<Rightarrow> cb_heap \<Rightarrow> cb_heap option" where
  "object_setString string v m_Obj h =
     (case createStringElement v h of (e, h) \<Rightarrow> setElementValue string (Some e) m_Obj h)"

definition object_setObject :: "byte list \<Rightarrow> nat option \<Rightarrow> nat option \<Rightarrow> cb_heap \<Rightarrow> cb_heap option" where
  "object_setObject string v m_Obj h =
     (case createOBjectElement v h of (e, h) \<Rightarrow> setElementValue string (Some e) m_Obj h)"

definition object_setArray :: "byte list \<Rightarrow> nat option \<Rightarrow> nat option \<Rightarrow> cb_heap \<Rightarrow> cb_heap option" where
  "object_setArray string v m_Obj h =
     (case createArrayElement v h of (e, h) \<Rightarrow> setElementValue string (Some e) m_Obj h)"

definition object_setBinary :: "byte list \<Rightarrow> nat option \<times> i32 \<Rightarrow> nat option \<Rightarrow> cb_heap \<Rightarrow> cb_heap option" where
  "object_setBinary string bin m_Obj h = do {
     (e, h) \<leftarrow> createBinaryElement bin h;
     setElementValue string (Some e) m_Obj h }"

subsection \<open>Arrays\<close>

definition array_createNew :: "cb_heap \<Rightarrow> nat option \<times> cb_heap" where
  "array_createNew h = (case new_cell (C_list []) h of (l, h) \<Rightarrow> (Some l, h))"

definition array_count :: "nat option \<Rightarrow> cb_heap \<Rightarrow> i32 option" where
  "array_count m_List h = (case m_List of None \<Rightarrow> Some 0
     | Some l \<Rightarrow> map_option (\<lambda>ps. word_of_nat (length ps)) (items_at h l))"

definition array_addElement :: "nat option \<Rightarrow> nat option \<Rightarrow> cb_heap \<Rightarrow> cb_heap option" where
  "array_addElement e m_List h = (case m_List of None \<Rightarrow> Some h | Some l \<Rightarrow> push_back l e h)"

end
