(* ===== verification/CBson_Facts.thy ===== *)
theory CBson_Facts
  imports CBson
begin

text \<open>
  What the linked objects of \<open>CBson\<close> keep of a document: the cells a tree owns, the builder calls
  that saving them makes, the cells parsing adds and destroying takes away, and the map of a document
  as a dictionary.
\<close>

section \<open>The cells of a tree\<close>

text \<open>
  \<open>owns v a f\<close>: the value \<open>v\<close>, with its object at \<open>a\<close>, lies in exactly the cells \<open>f\<close>.  Types that
  \<open>__parse_value\<close> has no case for leave the union zero.
\<close>

definition other_bits :: "bson_val \<Rightarrow> i64" where
  "other_bits v = (case v of VDouble d \<Rightarrow> d | VDate d \<Rightarrow> d | VInt i \<Rightarrow> ucast i
     | VLong l \<Rightarrow> ucast (ucast l :: i32) | VBool x \<Rightarrow> of_bool x | _ \<Rightarrow> 0)"

fun owns :: "bson_val \<Rightarrow> nat \<Rightarrow> (nat \<Rightarrow> cell option) \<Rightarrow> bool"
  and owns_doc :: "bson_doc \<Rightarrow> (nat \<times> nat option) list \<Rightarrow> (nat \<Rightarrow> cell option) \<Rightarrow> bool"
  and owns_items :: "bson_doc \<Rightarrow> nat option list \<Rightarrow> (nat \<Rightarrow> cell option) \<Rightarrow> bool" where
  "owns (VString s) a f = (\<exists>p. p \<noteq> a \<and> f = [a \<mapsto> C_obj BSON_STRING (U_ptr p), p \<mapsto> C_chars s])"
| "owns (VBin t xs) a f = (\<exists>p d. p \<noteq> a \<and> d \<noteq> a \<and> d \<noteq> p \<and> length xs < 2 ^ 31
     \<and> f = [a \<mapsto> C_obj BSON_BINDATA (U_ptr p), p \<mapsto> C_bin (Some d) (word_of_nat (length xs)), d \<mapsto> C_data xs])"
| "owns (VObject es) a f = (\<exists>m ents g. m \<noteq> a \<and> a \<notin> dom g \<and> m \<notin> dom g \<and> owns_doc es ents g
     \<and> f = g(a \<mapsto> C_obj BSON_OBJECT (U_ptr m), m \<mapsto> C_map ents))"
| "owns (VArray es) a f = (\<exists>l ps g. l \<noteq> a \<and> a \<notin> dom g \<and> l \<notin> dom g \<and> owns_items es ps g
     \<and> f = g(a \<mapsto> C_obj BSON_ARRAY (U_ptr l), l \<mapsto> C_list ps))"
| "owns v a f = (f = [a \<mapsto> C_obj (val_type v) (U_bits (other_bits v))])"
| "owns_doc [] ents f = (ents = [] \<and> f = Map.empty)"
| "owns_doc ((n, v) # es) ents f = (\<exists>k a ents' f1 f2. ents = (k, Some a) # ents' \<and> owns v a f1
     \<and> owns_doc es ents' f2 \<and> k \<notin> dom f1 \<and> k \<notin> dom f2 \<and> dom f1 \<inter> dom f2 = {}
     \<and> f = (f1 ++ f2)(k \<mapsto> C_str n))"
| "owns_items [] ps f = (ps = [] \<and> f = Map.empty)"
| "owns_items ((n, v) # es) ps f = (\<exists>a ps' f1 f2. ps = Some a # ps' \<and> owns v a f1
     \<and> owns_items es ps' f2 \<and> dom f1 \<inter> dom f2 = {} \<and> f = f1 ++ f2)"

text \<open>
  What saving keeps: no 64-bit integer and none of the types without a case, no subtype of a binary
  and no key of an array.
\<close>

fun saved :: "bson_val \<Rightarrow> bool" where
  "saved (VDouble d) = True" | "saved (VInt i) = True" | "saved (VBool x) = True"
| "saved (VString s) = True" | "saved VNull = True" | "saved (VDate d) = True"
| "saved (VBin t xs) = True" | "saved (VObject es) = True" | "saved (VArray es) = True"
| "saved v = False"

fun kept_val :: "bson_val \<Rightarrow> bson_val" and kept :: "bson_doc \<Rightarrow> bson_doc" and kept_items :: "bson_doc \<Rightarrow> bson_doc" where
  "kept_val (VBin t xs) = VBin BSON_BIN_BINARY xs"
| "kept_val (VObject es) = VObject (kept es)"
| "kept_val (VArray es) = VArray (kept_items es)"
| "kept_val v = v"
| "kept [] = []"
| "kept ((n, v) # es) = (if saved v then [(n, kept_val v)] else []) @ kept es"
| "kept_items [] = []"
| "kept_items ((n, v) # es) = (if saved v then [([], kept_val v)] else []) @ kept_items es"

section \<open>Saving a tree\<close>

definition run_calls :: "allocator \<Rightarrow> bson \<Rightarrow> api_call list \<Rightarrow> bson outcome" where
  "run_calls A b cs = lift_fault (api_run A b cs) (\<lambda>(_, b). Done b)"

lemma run_calls_Nil [simp]: "run_calls A b [] = Done b"
  by (simp add: run_calls_def)

lemma bind_Done [simp]: "bind_outcome m Done = m"
  by (cases m) simp_all

lemma bind_Done_iff: "bind_outcome m k = Done y \<longleftrightarrow> (\<exists>x. m = Done x \<and> k x = Done y)"
  by (cases m) auto

lemma lift_Done_iff: "lift_fault m k = Done y \<longleftrightarrow> (\<exists>x. m = Some x \<and> k x = Done y)"
  by (cases m) auto

lemmas Done_iff = bind_Done_iff lift_Done_iff

lemma run_calls_append: "run_calls A b (cs @ cs') = bind_outcome (run_calls A b cs) (\<lambda>b. run_calls A b cs')"
  by (simp add: run_calls_def api_run_append lift_fault_def bind_outcome_def split: option.split Option.bind_split)

lemma run_calls_one: "run_calls A b [c] = put_call (api_step A b c)"
  by (simp add: run_calls_def put_call_def lift_fault_def split: option.split)

lemma run_calls_Cons: "run_calls A b (c # cs) = bind_outcome (put_call (api_step A b c)) (\<lambda>b. run_calls A b cs)"
  using run_calls_append [of A b "[c]" cs] by (simp add: run_calls_one)

lemma in_heap: "f \<subseteq>\<^sub>m g \<Longrightarrow> f a = Some c \<Longrightarrow> g a = Some c"
  by (metis domI map_le_def)

lemma le_upd: "f(a \<mapsto> c) \<subseteq>\<^sub>m g \<Longrightarrow> a \<notin> dom f \<Longrightarrow> f \<subseteq>\<^sub>m g \<and> g a = Some c"
  by (auto simp: map_le_def split: if_splits)

lemma le_two:
  assumes "g(a \<mapsto> c, m \<mapsto> d) \<subseteq>\<^sub>m g'" "m \<noteq> a" "a \<notin> dom g" "m \<notin> dom g"
  shows "g \<subseteq>\<^sub>m g'" "g' a = Some c" "g' m = Some d"
  using le_upd [OF assms(1)] le_upd [of g a c g'] assms by simp_all

lemma le_add: "f1 ++ f2 \<subseteq>\<^sub>m g \<Longrightarrow> dom f1 \<inter> dom f2 = {} \<Longrightarrow> f1 \<subseteq>\<^sub>m g \<and> f2 \<subseteq>\<^sub>m g"
  by (metis map_add_comm map_le_map_add map_le_trans)

lemma ucast_back [simp]: "ucast (ucast i :: i64) = (i :: i32)"
  by (rule bit_word_eqI) (simp add: bit_simps)

lemma le_three:
  assumes "(f1 ++ f2)(k \<mapsto> c) \<subseteq>\<^sub>m g" "k \<notin> dom f1" "k \<notin> dom f2" "dom f1 \<inter> dom f2 = {}"
  shows "f1 \<subseteq>\<^sub>m g" "f2 \<subseteq>\<^sub>m g" "g k = Some c"
proof -
  have "k \<notin> dom (f1 ++ f2)" using assms(2,3) by simp
  from le_upd [OF assms(1) this] le_add [of f1 f2 g] assms(4)
  show "f1 \<subseteq>\<^sub>m g" "f2 \<subseteq>\<^sub>m g" "g k = Some c" by simp_all
qed

lemma unat_length: "length xs < 2 ^ 31 \<Longrightarrow> unat (word_of_nat (length xs) :: i32) = length xs"
  by (simp add: unat_of_nat)

lemma bin_bytes_whole:
  assumes "unat n = length xs" and "hp_cells h d = Some (C_data xs)"
  shows "bin_bytes h (Some d, n) = Some xs"
proof (cases "n = 0")
  case True
  then show ?thesis using assms by (simp add: bin_bytes_def)
next
  case False
  then show ?thesis using assms by (simp add: bin_bytes_def data_at_def rdn_def)
qed

text \<open>Saving a tree makes the builder calls of what it keeps.\<close>

lemmas read_cells = obj_at_def entries_at_def items_at_def key_at_def chars_at_def bin_at_def deref_def as_ptr_def

lemma owns_simple:
  assumes "owns v a f" "f \<subseteq>\<^sub>m g" "val_type v \<notin> {BSON_STRING, BSON_BINDATA, BSON_OBJECT, BSON_ARRAY}"
  shows "g a = Some (C_obj (val_type v) (U_bits (other_bits v)))"
proof -
  have "f = [a \<mapsto> C_obj (val_type v) (U_bits (other_bits v))]" using assms(1,3) by (cases v) simp_all
  then show ?thesis using in_heap [OF assms(2)] by simp
qed

lemma save_leaf:
  assumes "owns v a f" "f \<subseteq>\<^sub>m hp_cells h" "val_fuel v < fuel"
    and "val_type v \<noteq> BSON_OBJECT" "val_type v \<noteq> BSON_ARRAY"
  shows "cb_save_value A fuel h (Some a) key b
    = run_calls A b (if saved v then val_calls key (kept_val v) else [])"
proof -
  obtain fu where fu [simp]: "fuel = Suc fu" using assms(3) by (cases fuel) simp_all
  show ?thesis
  proof (cases v)
    case (VBin t xs)
    then obtain p d where pd: "p \<noteq> a" "d \<noteq> a" "d \<noteq> p" "length xs < 2 ^ 31"
        and f: "f = [a \<mapsto> C_obj BSON_BINDATA (U_ptr p), p \<mapsto> C_bin (Some d) (word_of_nat (length xs)), d \<mapsto> C_data xs]"
      using assms(1) by auto
    have "hp_cells h a = Some (C_obj BSON_BINDATA (U_ptr p))"
        "hp_cells h p = Some (C_bin (Some d) (word_of_nat (length xs)))" "hp_cells h d = Some (C_data xs)"
      by (rule in_heap [OF assms(2)], use pd f in simp)+
    then show ?thesis
      using VBin pd(4) bin_bytes_whole [OF unat_length]
      by (simp add: cb_save_leaf_def read_cells unat_length run_calls_one)
  next
    case (VString s)
    then obtain p where pd: "p \<noteq> a" and f: "f = [a \<mapsto> C_obj BSON_STRING (U_ptr p), p \<mapsto> C_chars s]"
      using assms(1) by auto
    have "hp_cells h a = Some (C_obj BSON_STRING (U_ptr p))" "hp_cells h p = Some (C_chars s)"
      by (rule in_heap [OF assms(2)], use pd f in simp)+
    then show ?thesis using VString by (simp add: cb_save_leaf_def read_cells run_calls_one)
  qed (use assms owns_simple [OF assms(1,2)] in \<open>simp_all add: cb_save_leaf_def read_cells run_calls_one
    as_int_def as_bool_def as_bits_def other_bits_def\<close>)
qed

lemma save_tree:
  "owns v a f \<Longrightarrow> f \<subseteq>\<^sub>m hp_cells h \<Longrightarrow> val_ok v \<Longrightarrow> val_fuel v < fuel \<Longrightarrow>
   cb_save_value A fuel h (Some a) key b = run_calls A b (if saved v then val_calls key (kept_val v) else [])"
  "owns_doc es ents f \<Longrightarrow> f \<subseteq>\<^sub>m hp_cells h \<Longrightarrow> elems_ok es \<Longrightarrow> doc_fuel es \<le> fuel \<Longrightarrow>
   cb_save_map A fuel h ents b = run_calls A b (doc_calls (kept es))"
  "owns_items es ps f \<Longrightarrow> f \<subseteq>\<^sub>m hp_cells h \<Longrightarrow> elems_ok es \<Longrightarrow> doc_fuel es \<le> fuel \<Longrightarrow>
   cb_save_items A fuel h ps b = run_calls A b (doc_calls (kept_items es))"
proof (induction v a f and es ents f and es ps f arbitrary: fuel key b and fuel b and fuel b
    rule: owns_owns_doc_owns_items.induct)
  case (3 es a f)
  from 3(2) obtain m ents g where g: "m \<noteq> a" "a \<notin> dom g" "m \<notin> dom g" "owns_doc es ents g"
      "f = g(a \<mapsto> C_obj BSON_OBJECT (U_ptr m), m \<mapsto> C_map ents)"
    unfolding owns.simps by blast
  obtain fu where fu: "fuel = Suc fu" using 3(5) by (cases fuel) auto
  have "hp_cells h a = Some (C_obj BSON_OBJECT (U_ptr m))" "hp_cells h m = Some (C_map ents)"
      "g \<subseteq>\<^sub>m hp_cells h"
    using le_two [OF 3(3) [unfolded g(5)] g(1-3)] by simp_all
  then show ?case
    using 3 g fu by (simp add: read_cells run_calls_Cons run_calls_append run_calls_one)
next
  case (4 es a f)
  from 4(2) obtain m ents g where g: "m \<noteq> a" "a \<notin> dom g" "m \<notin> dom g" "owns_items es ents g"
      "f = g(a \<mapsto> C_obj BSON_ARRAY (U_ptr m), m \<mapsto> C_list ents)"
    unfolding owns.simps by blast
  obtain fu where fu: "fuel = Suc fu" using 4(5) by (cases fuel) auto
  have "hp_cells h a = Some (C_obj BSON_ARRAY (U_ptr m))" "hp_cells h m = Some (C_list ents)"
      "g \<subseteq>\<^sub>m hp_cells h"
    using le_two [OF 4(3) [unfolded g(5)] g(1-3)] by simp_all
  then show ?case
    using 4 g fu by (simp add: read_cells run_calls_Cons run_calls_append run_calls_one)
next
  case (7 n v es ents f)
  from 7(3) obtain k a ents' f1 f2 where g: "ents = (k, Some a) # ents'" "owns v a f1" "owns_doc es ents' f2"
      "k \<notin> dom f1" "k \<notin> dom f2" "dom f1 \<inter> dom f2 = {}" "f = (f1 ++ f2)(k \<mapsto> C_str n)"
    unfolding owns_doc.simps by blast
  obtain fu where fu: "fuel = Suc fu" using 7(6) by (cases fuel) auto
  have "hp_cells h k = Some (C_str n)" "f1 \<subseteq>\<^sub>m hp_cells h" "f2 \<subseteq>\<^sub>m hp_cells h"
    using le_three [OF 7(4) [unfolded g(7)] g(4-6)] by simp_all
  moreover have "0 < doc_fuel es" by (rule doc_fuel_pos)
  ultimately have fuel: "val_fuel v < fu" "doc_fuel es \<le> fu" and f: "f1 \<subseteq>\<^sub>m hp_cells h" "f2 \<subseteq>\<^sub>m hp_cells h" "hp_cells h k = Some (C_str n)"
    using 7(6) fu by simp_all
  have val: "cb_save_value A fu h (Some a) n b = run_calls A b (if saved v then val_calls n (kept_val v) else [])"
    by (rule 7(1) [OF g(2) f(1) _ fuel(1)]) (use 7(5) in simp)
  have rest: "cb_save_map A fu h ents' = (\<lambda>b. run_calls A b (doc_calls (kept es)))"
    by (rule ext, rule 7(2) [OF g(3) f(2) _ fuel(2)]) (use 7(5) in simp)
  show ?case
    using 7(5) f by (cases "saved v") (simp_all add: g(1) fu val rest key_at_def c_str_id run_calls_append)
next
  case (9 n v es ps f)
  from 9(3) obtain a ps' f1 f2 where g: "ps = Some a # ps'" "owns v a f1" "owns_items es ps' f2"
      "dom f1 \<inter> dom f2 = {}" "f = f1 ++ f2"
    unfolding owns_items.simps by blast
  obtain fu where fu: "fuel = Suc fu" using 9(6) by (cases fuel) auto
  have "f1 \<subseteq>\<^sub>m hp_cells h" "f2 \<subseteq>\<^sub>m hp_cells h"
    using le_add [OF 9(4) [unfolded g(5)] g(4)] by simp_all
  moreover have "0 < doc_fuel es" by (rule doc_fuel_pos)
  ultimately have fuel: "val_fuel v < fu" "doc_fuel es \<le> fu" and f: "f1 \<subseteq>\<^sub>m hp_cells h" "f2 \<subseteq>\<^sub>m hp_cells h"
    using 9(6) fu by simp_all
  have val: "cb_save_value A fu h (Some a) [] b = run_calls A b (if saved v then val_calls [] (kept_val v) else [])"
    by (rule 9(1) [OF g(2) f(1) _ fuel(1)]) (use 9(5) in simp)
  have rest: "cb_save_items A fu h ps' = (\<lambda>b. run_calls A b (doc_calls (kept_items es)))"
    by (rule ext, rule 9(2) [OF g(3) f(2) _ fuel(2)]) (use 9(5) in simp)
  show ?case
    using 9(5) f by (cases "saved v") (simp_all add: g(1) fu val rest run_calls_append)
next
  case (6 ents f)
  then show ?case by (cases fuel) simp_all
next
  case (8 ps f)
  then show ?case by (cases fuel) simp_all
qed (erule save_leaf; simp)+

section \<open>Parsing a tree\<close>

text \<open>
  What the maps make of a document: the members of every object in the order of their keys, which have
  to differ, for a second one replaces the object of the first.
\<close>

fun arranged_val :: "bson_val \<Rightarrow> bson_val" and arranged :: "bson_doc \<Rightarrow> bson_doc \<Rightarrow> bson_doc"
  and arranged_items :: "bson_doc \<Rightarrow> bson_doc" where
  "arranged_val (VObject es) = VObject (arranged [] es)"
| "arranged_val (VArray es) = VArray (arranged_items es)"
| "arranged_val v = v"
| "arranged acc [] = acc"
| "arranged acc ((n, v) # es) = arranged (std_insert n (arranged_val v) acc) es"
| "arranged_items [] = []"
| "arranged_items ((n, v) # es) = (n, arranged_val v) # arranged_items es"

fun unique_val :: "bson_val \<Rightarrow> bool" and unique_doc :: "bson_doc \<Rightarrow> bool" and unique_items :: "bson_doc \<Rightarrow> bool" where
  "unique_val (VObject es) = unique_doc es"
| "unique_val (VArray es) = unique_items es"
| "unique_val v = True"
| "unique_doc [] = True"
| "unique_doc ((n, v) # es) = (n \<notin> fst ` set es \<and> unique_val v \<and> unique_doc es)"
| "unique_items [] = True"
| "unique_items ((n, v) # es) = (unique_val v \<and> unique_items es)"

abbreviation apart :: "bson_doc \<Rightarrow> bson_doc \<Rightarrow> bool" where
  "apart acc es \<equiv> fst ` set acc \<inter> fst ` set es = {}"

text \<open>Inserting a new member keeps what is counted or tested member by member.\<close>

lemma insert_member:
  assumes "n \<notin> fst ` set es"
  shows "elems_ok (std_insert n v es) \<longleftrightarrow> 0 \<notin> set n \<and> val_ok v \<and> elems_ok es"
    and "doc_utf8 (std_insert n v es) \<longleftrightarrow> utf8_accepted n \<and> val_utf8 v \<and> doc_utf8 es"
    and "length (elems_bytes (std_insert n v es)) = length (elems_bytes [(n, v)]) + length (elems_bytes es)"
    and "doc_fuel (std_insert n v es) = 1 + val_fuel v + doc_fuel es"
    and "fst ` set (std_insert n v es) = insert n (fst ` set es)"
  using assms by (induction n v es rule: std_insert.induct) auto

lemma arranged_keeps:
  "unique_val v \<Longrightarrow> val_ok (arranged_val v) = val_ok v \<and> val_utf8 (arranged_val v) = val_utf8 v
     \<and> length (val_bytes (arranged_val v)) = length (val_bytes v) \<and> val_fuel (arranged_val v) = val_fuel v
     \<and> val_type (arranged_val v) = val_type v"
  "unique_doc es \<Longrightarrow> apart acc es \<Longrightarrow> elems_ok (arranged acc es) = (elems_ok acc \<and> elems_ok es)
     \<and> doc_utf8 (arranged acc es) = (doc_utf8 acc \<and> doc_utf8 es)
     \<and> length (elems_bytes (arranged acc es)) = length (elems_bytes acc) + length (elems_bytes es)
     \<and> doc_fuel (arranged acc es) + 1 = doc_fuel acc + doc_fuel es"
  "unique_items es \<Longrightarrow> elems_ok (arranged_items es) = elems_ok es \<and> doc_utf8 (arranged_items es) = doc_utf8 es
     \<and> length (elems_bytes (arranged_items es)) = length (elems_bytes es) \<and> doc_fuel (arranged_items es) = doc_fuel es"
proof (induction v and acc es and es rule: arranged_val_arranged_arranged_items.induct)
  case (1 es)
  then show ?case by (simp add: doc_bytes_def)
next
  case (2 es)
  then show ?case by (simp add: doc_bytes_def)
next
  case (5 acc n v es)
  then have fresh: "n \<notin> fst ` set acc" by auto
  then show ?case using 5 by (auto simp: insert_member [OF fresh])
qed auto

text \<open>\<open>grown h h' f\<close>: \<open>h'\<close> has the cells of \<open>h\<close> and the new cells \<open>f\<close>.\<close>

definition grown :: "cb_heap \<Rightarrow> cb_heap \<Rightarrow> (nat \<Rightarrow> cell option) \<Rightarrow> bool" where
  "grown h h' f \<longleftrightarrow> hp_cells h' = hp_cells h ++ f \<and> hp_next h \<le> hp_next h'
     \<and> dom f \<subseteq> {hp_next h..<hp_next h'}"

definition heap_ok :: "cb_heap \<Rightarrow> bool" where
  "heap_ok h \<longleftrightarrow> dom (hp_cells h) \<subseteq> {..<hp_next h}"

lemma grown_refl: "grown h h Map.empty"
  by (simp add: grown_def)

lemma grown_new: "grown h (snd (new_cell c h)) [hp_next h \<mapsto> c]"
  by (simp add: grown_def new_cell_def)

lemma fst_new [simp]: "fst (new_cell c h) = hp_next h"
  by (simp add: new_cell_def)

lemma grown_trans: "grown h h1 f \<Longrightarrow> grown h1 h2 g \<Longrightarrow> grown h h2 (f ++ g)"
  by (fastforce simp: grown_def)

lemma grown_disjoint: "grown h h1 f \<Longrightarrow> grown h1 h2 g \<Longrightarrow> dom f \<inter> dom g = {}"
  by (fastforce simp: grown_def)

lemma grown_set: "grown h h' f \<Longrightarrow> a \<in> dom f \<Longrightarrow> grown h (set_cell a c h') (f(a \<mapsto> c))"
  by (auto simp: grown_def set_cell_def)

lemma grown_le: "grown h h' f \<Longrightarrow> f \<subseteq>\<^sub>m hp_cells h'"
  by (simp add: grown_def)

lemma store_grown:
  assumes "grown h h' f" "f r = Some (C_obj t u')"
  obtains h'' where "store_value r u h' = Some h''" "grown h h'' (f(r \<mapsto> C_obj t u))"
  using that in_heap [OF grown_le [OF assms(1)] assms(2)] grown_set [OF assms(1) domI [of f, OF assms(2)]]
  by (simp add: store_value_def obj_at_def)

lemma leaf_grown:
  assumes on: "on_element i n v" and v: "val_type v \<noteq> BSON_OBJECT" "val_type v \<noteq> BSON_ARRAY"
  obtains a f h' where "cb_parse_value (Suc fuel) i h = Done (a, h')" "owns v a f" "grown h h' f"
proof -
  have ty: "bson_iterator_type i = Some (val_type v)" using on by (auto elim: on_element_cases)
  let ?r = "hp_next h" and ?h = "snd (new_cell (C_obj (val_type v) (U_bits 0)) h)"
  have "\<exists>u h1 f g. cb_parse_leaf i (val_type v) ?h = Some (u, h1) \<and> grown ?h h1 g
      \<and> f = [?r \<mapsto> C_obj (val_type v) (U_bits 0)] ++ g \<and> owns v ?r (f(?r \<mapsto> C_obj (val_type v) u))"
  proof (cases v)
    case (VString s)
    have "owns v ?r (([?r \<mapsto> C_obj (val_type v) (U_bits 0)] ++ [Suc ?r \<mapsto> C_chars s])
        (?r \<mapsto> C_obj (val_type v) (U_ptr (Suc ?r))))"
      using VString by (auto intro!: exI [of _ "Suc ?r"])
    then show ?thesis
      using on VString grown_new [of ?h "C_chars s"]
      by (fastforce simp: cb_parse_leaf_def access_string new_cell_def)
  next
    case (VBin t xs)
    let ?d = "Suc ?r" and ?p = "Suc (Suc ?r)"
    let ?c = "C_bin (Some ?d) (to_int (length xs))"
    obtain q where q: "bson_iterator_bin_data i = Some q" "rdn (it_mem i) q (length xs) = Some xs"
        "bson_iterator_bin_len i = Some (to_int (length xs))"
      using on VBin access_binary by blast
    have "small (VBin t xs)" using on VBin by (auto simp: on_element_def)
    then have len: "length xs < 2 ^ 31" "unat (to_int (length xs)) = length xs"
      by (simp_all add: small_def binary_body_def INT_MAX_def to_int_def unat_length split: if_splits)
    have "owns v ?r (([?r \<mapsto> C_obj (val_type v) (U_bits 0)] ++ [?d \<mapsto> C_data xs, ?p \<mapsto> ?c])
        (?r \<mapsto> C_obj (val_type v) (U_ptr ?p)))"
      unfolding VBin owns.simps
      by (rule exI [of _ ?p], rule exI [of _ ?d]) (use len(1) in \<open>auto simp: to_int_def\<close>)
    moreover have "cb_parse_leaf i (val_type v) ?h = Some (U_ptr ?p, snd (new_cell ?c (snd (new_cell (C_data xs) ?h))))"
      using VBin q len(2) by (simp add: cb_parse_leaf_def new_cell_def)
    moreover have "grown ?h (snd (new_cell ?c (snd (new_cell (C_data xs) ?h)))) [?d \<mapsto> C_data xs, ?p \<mapsto> ?c]"
      using grown_trans [OF grown_new [of ?h "C_data xs"] grown_new [of _ ?c]] by (simp add: new_cell_def)
    ultimately show ?thesis by blast
  qed (use on v in \<open>auto simp: cb_parse_leaf_def access_double access_long access_int access_bool access_date
      other_bits_def intro!: grown_refl exI [of _ Map.empty]\<close>)
  then obtain u h1 f g where u: "cb_parse_leaf i (val_type v) ?h = Some (u, h1)" "grown ?h h1 g"
      "f = [?r \<mapsto> C_obj (val_type v) (U_bits 0)] ++ g" "owns v ?r (f(?r \<mapsto> C_obj (val_type v) u))"
    by blast
  have gr: "grown h h1 f" using grown_trans [OF grown_new u(2)] u(3) by simp
  have "?r \<notin> dom g" using grown_disjoint [OF grown_new u(2)] by simp
  then have "f ?r = Some (C_obj (val_type v) (U_bits 0))" using u(3) by (simp add: map_add_dom_app_simps)
  then obtain h' where "store_value ?r u h1 = Some h'" "grown h h' (f(?r \<mapsto> C_obj (val_type v) u))"
    by (rule store_grown [OF gr])
  then show ?thesis
    using that [of ?r h'] u ty v by (simp add: Let_def case_prod_beta)
qed

text \<open>A new member goes to its place among the entries.\<close>

definition entries_with :: "bson_doc \<Rightarrow> byte list \<Rightarrow> nat \<times> nat option \<Rightarrow> (nat \<times> nat option) list \<Rightarrow> (nat \<times> nat option) list" where
  "entries_with es n e ents = map snd (std_insert n e (zip (map fst es) ents))"

lemma owns_doc_insert:
  "owns_doc es ents g \<Longrightarrow> owns v a f \<Longrightarrow> dom g \<inter> dom f = {} \<Longrightarrow> k \<notin> dom g \<Longrightarrow> k \<notin> dom f \<Longrightarrow> n \<notin> fst ` set es \<Longrightarrow>
   owns_doc (std_insert n v es) (entries_with es n (k, Some a) ents) ((g ++ f)(k \<mapsto> C_str n))"
proof (induction es arbitrary: ents g)
  case Nil
  then show ?case
    unfolding std_insert.simps entries_with_def owns_doc.simps
    by (intro exI [of _ k] exI [of _ a] exI [of _ "[]"] exI [of _ f] exI [of _ Map.empty]) auto
next
  case (Cons e es)
  obtain n' v' where e: "e = (n', v')" by force
  from Cons.prems(1) obtain k' a' ents' f1 f2 where g: "ents = (k', Some a') # ents'" "owns v' a' f1"
      "owns_doc es ents' f2" "k' \<notin> dom f1" "k' \<notin> dom f2" "dom f1 \<inter> dom f2 = {}"
      "g = (f1 ++ f2)(k' \<mapsto> C_str n')"
    unfolding e owns_doc.simps by blast
  have dom: "dom g = insert k' (dom f1 \<union> dom f2)" unfolding g(7) by auto
  have dis: "dom f2 \<inter> dom f = {}" "k \<notin> dom f2" "dom f1 \<inter> dom f = {}" "k \<notin> dom f1" "k \<noteq> k'" "k' \<notin> dom f"
    using Cons.prems(3,4) unfolding dom by auto
  have len: "length ents' = length es" using g(3)
    by (induction es arbitrary: ents' f2) (auto simp del: fun_upd_apply)
  show ?case
  proof (cases "n < n'")
    case True
    have "(g ++ f)(k \<mapsto> C_str n) = (f ++ g)(k \<mapsto> C_str n)"
      using Cons.prems(3) by (simp add: map_add_comm)
    then show ?thesis
      using Cons.prems
      unfolding e entries_with_def list.map fst_conv g(1) zip_Cons_Cons std_insert.simps if_P [OF True] snd_conv
        map_snd_zip [OF len [symmetric, unfolded length_map [of fst es, symmetric]]]
      by (subst owns_doc.simps(2))
        (intro exI [of _ k] exI [of _ a] exI [of _ "(k', Some a') # ents'"] exI [of _ f] exI [of _ g], auto simp: Int_commute)
  next
    case False
    then have ne: "n \<noteq> n'" "\<not> n < n'" using Cons.prems(6) e by auto
    have IH: "owns_doc (std_insert n v es) (entries_with es n (k, Some a) ents') ((f2 ++ f)(k \<mapsto> C_str n))"
      by (rule Cons.IH [OF g(3) Cons.prems(2) dis(1,2) Cons.prems(5)]) (use Cons.prems(6) in simp)
    have eq: "(g ++ f)(k \<mapsto> C_str n) = (f1 ++ (f2 ++ f)(k \<mapsto> C_str n))(k' \<mapsto> C_str n')"
      using dis g(7) by (auto simp: fun_eq_iff map_add_def domIff split: option.splits)
    have ents: "entries_with ((n', v') # es) n (k, Some a) ents = (k', Some a') # entries_with es n (k, Some a) ents'"
      using ne by (simp add: entries_with_def g(1))
    show ?thesis
      unfolding e std_insert.simps if_not_P [OF ne(2)] if_not_P [OF ne(1)] owns_doc.simps ents eq
      using IH g dis by (intro exI [of _ k'] exI [of _ a'] exI [of _ "entries_with es n (k, Some a) ents'"] exI [of _ f1]
        exI [of _ "(f2 ++ f)(k \<mapsto> C_str n)"]) auto
  qed
qed

lemma owns_items_snoc:
  "owns_items es ps g \<Longrightarrow> owns v a f \<Longrightarrow> dom g \<inter> dom f = {} \<Longrightarrow>
   owns_items (es @ [(n, v)]) (ps @ [Some a]) (g ++ f)"
proof (induction es arbitrary: ps g)
  case Nil
  then show ?case
    unfolding append_Nil owns_items.simps
    by (intro exI [of _ a] exI [of _ "[]"] exI [of _ f] exI [of _ Map.empty]) auto
next
  case (Cons e es)
  obtain n' v' where e: "e = (n', v')" by force
  from Cons.prems(1) obtain a' ps' f1 f2 where g: "ps = Some a' # ps'" "owns v' a' f1"
      "owns_items es ps' f2" "dom f1 \<inter> dom f2 = {}" "g = f1 ++ f2"
    unfolding e owns_items.simps by blast
  have dis: "dom f2 \<inter> dom f = {}" "dom f1 \<inter> dom f = {}" using Cons.prems(3) g(5) by auto
  have "owns_items (es @ [(n, v)]) (ps' @ [Some a]) (f2 ++ f)"
    by (rule Cons.IH [OF g(3) Cons.prems(2) dis(1)])
  then show ?case
    unfolding e append_Cons owns_items.simps
    using g dis by (intro exI [of _ a'] exI [of _ "ps' @ [Some a]"] exI [of _ f1] exI [of _ "f2 ++ f"]) auto
qed

text \<open>The keys and objects of a map that holds a document, as its comparisons see them.\<close>

lemma view_doc:
  "owns_doc es ents f \<Longrightarrow> f \<subseteq>\<^sub>m hp_cells h \<Longrightarrow> elems_ok es \<Longrightarrow>
   \<exists>view. map_view h ents = Some view \<and> map fst view = map fst es \<and> map snd view = ents"
proof (induction es arbitrary: ents f)
  case Nil
  then show ?case by (simp add: map_view_def)
next
  case (Cons e es)
  obtain n v where e: "e = (n, v)" by force
  from Cons.prems(1) obtain k a ents' f1 f2 where g: "ents = (k, Some a) # ents'" "owns v a f1"
      "owns_doc es ents' f2" "k \<notin> dom f1" "k \<notin> dom f2" "dom f1 \<inter> dom f2 = {}"
      "f = (f1 ++ f2)(k \<mapsto> C_str n)"
    unfolding e owns_doc.simps by blast
  have h: "hp_cells h k = Some (C_str n)" "f2 \<subseteq>\<^sub>m hp_cells h"
    using le_three [OF Cons.prems(2) [unfolded g(7)] g(4-6)] by simp_all
  obtain view where "map_view h ents' = Some view" "map fst view = map fst es" "map snd view = ents'"
    using Cons.IH [OF g(3) h(2)] Cons.prems(3) e by auto
  then show ?case
    using Cons.prems(3) h(1)
    by (intro exI [of _ "(n, k, Some a) # view"]) (simp add: e map_view_def g(1) key_at_def c_str_id)
qed

text \<open>Storing an object under a new key.\<close>

lemma put_new:
  assumes "owns_doc es ents f" "f \<subseteq>\<^sub>m hp_cells h" "elems_ok es"
    and "hp_cells h k = Some (C_str n)" "0 \<notin> set n" "n \<notin> fst ` set es"
  shows "map_put h k p ents = Some (entries_with es n (k, p) ents)"
proof -
  obtain view where view: "map_view h ents = Some view" "map fst view = map fst es" "map snd view = ents"
    using view_doc [OF assms(1-3)] by blast
  have zip: "view = zip (map fst es) ents" by (metis view(2,3) zip_map_fst_snd)
  have "n \<notin> fst ` set view" using assms(6) by (metis list.set_map view(2))
  then have "std_find n view = None" by (simp add: std_find_def map_of_eq_None_iff)
  then show ?thesis
    using view(1) assms(4,5) by (simp add: map_put_def key_at_def c_str_id entries_with_def zip)
qed

lemma put_grown:
  assumes gr: "grown h0 h (g(d \<mapsto> C_map ents))" and d: "d \<notin> dom g" and g: "owns_doc es ents g"
    and fv: "grown h h1 fv" "owns v a fv" and ok: "elems_ok es" "0 \<notin> set n" "n \<notin> fst ` set es"
  obtains ents' g' h2 where "map_assign d (hp_next h1) (Some a) (snd (new_cell (C_str n) h1)) = Some h2"
    "owns_doc (std_insert n v es) ents' g'" "d \<notin> dom g'" "grown h0 h2 (g'(d \<mapsto> C_map ents'))"
proof -
  let ?k = "hp_next h1" and ?h = "snd (new_cell (C_str n) h1)"
  let ?g = "(g ++ fv)(?k \<mapsto> C_str n)" and ?ents = "entries_with es n (?k, Some a) ents"
  have gr1: "grown h0 h1 (g(d \<mapsto> C_map ents) ++ fv)" by (rule grown_trans [OF gr fv(1)])
  have gr2: "grown h0 ?h ((g(d \<mapsto> C_map ents) ++ fv) ++ [?k \<mapsto> C_str n])"
    by (rule grown_trans [OF gr1 grown_new])
  have dis: "dom (g(d \<mapsto> C_map ents)) \<inter> dom fv = {}" "dom (g(d \<mapsto> C_map ents) ++ fv) \<inter> dom [?k \<mapsto> C_str n] = {}"
    by (rule grown_disjoint [OF gr fv(1)], rule grown_disjoint [OF gr1 grown_new])
  then have k: "?k \<notin> dom g" "?k \<notin> dom fv" "?k \<noteq> d" "d \<notin> dom fv" "dom g \<inter> dom fv = {}" by auto
  have eq: "(g(d \<mapsto> C_map ents) ++ fv) ++ [?k \<mapsto> C_str n] = ?g(d \<mapsto> C_map ents)"
    using k by (auto simp: fun_eq_iff map_add_def domIff split: option.splits)
  note gr3 = gr2 [unfolded eq]
  have d': "d \<notin> dom ?g" using d k by auto
  have "?g \<subseteq>\<^sub>m hp_cells ?h" "hp_cells ?h d = Some (C_map ents)"
    using le_upd [OF grown_le [OF gr3] d'] by simp_all
  moreover from this have "g \<subseteq>\<^sub>m hp_cells ?h" "hp_cells ?h ?k = Some (C_str n)"
    using le_three [of g fv ?k "C_str n"] k by simp_all
  ultimately have "map_assign d ?k (Some a) ?h = Some (set_cell d (C_map ?ents) ?h)"
    using put_new [OF g _ ok(1) _ ok(2,3), of ?h ?k "Some a"] by (simp add: map_assign_def entries_at_def)
  moreover have "owns_doc (std_insert n v es) ?ents ?g"
    by (rule owns_doc_insert [OF g fv(2)]) (use k ok(3) in auto)
  moreover have "grown h0 (set_cell d (C_map ?ents) ?h) (?g(d \<mapsto> C_map ?ents))"
    using grown_set [OF gr3, of d "C_map ?ents"] by simp
  ultimately show ?thesis by (rule that [OF _ _ d'])
qed

lemma push_grown:
  assumes gr: "grown h0 h (g(l \<mapsto> C_list ps))" and l: "l \<notin> dom g" and g: "owns_items es ps g"
    and fv: "grown h h1 fv" "owns v a fv"
  obtains g' h2 where "push_back l (Some a) h1 = Some h2"
    "owns_items (es @ [(n, v)]) (ps @ [Some a]) g'" "l \<notin> dom g'" "grown h0 h2 (g'(l \<mapsto> C_list (ps @ [Some a])))"
proof -
  have gr1: "grown h0 h1 (g(l \<mapsto> C_list ps) ++ fv)" by (rule grown_trans [OF gr fv(1)])
  have k: "l \<notin> dom fv" "dom g \<inter> dom fv = {}"
    using grown_disjoint [OF gr fv(1)] by auto
  have eq: "g(l \<mapsto> C_list ps) ++ fv = (g ++ fv)(l \<mapsto> C_list ps)"
    using k by (auto simp: fun_eq_iff map_add_def domIff split: option.splits)
  note gr2 = gr1 [unfolded eq]
  have l': "l \<notin> dom (g ++ fv)" using l k by auto
  have "hp_cells h1 l = Some (C_list ps)"
    using le_upd [OF grown_le [OF gr2] l'] by simp
  then have "push_back l (Some a) h1 = Some (set_cell l (C_list (ps @ [Some a])) h1)"
    by (simp add: push_back_def items_at_def)
  moreover have "grown h0 (set_cell l (C_list (ps @ [Some a])) h1) ((g ++ fv)(l \<mapsto> C_list (ps @ [Some a])))"
    using grown_set [OF gr2, of l "C_list (ps @ [Some a])"] by simp
  ultimately show ?thesis by (rule that [OF _ owns_items_snoc [OF g fv(2) k(2)] l'])
qed

text \<open>
  The three functions of the parser on a document they have to read, each under the fuel that is
  enough for it; the loops continue a map or list that holds the elements before.
\<close>

definition value_parses :: "nat \<Rightarrow> bool" where
  "value_parses fuel \<longleftrightarrow> (\<forall>i n v h. on_element i n v \<longrightarrow> unique_val v \<longrightarrow> val_fuel v < fuel \<longrightarrow>
     (\<exists>a f h'. cb_parse_value fuel i h = Done (a, h') \<and> owns (arranged_val v) a f \<and> grown h h' f))"

definition loop_parses :: "nat \<Rightarrow> bool" where
  "loop_parses fuel \<longleftrightarrow> (\<forall>i m q es acc ents g d h0 h. reaches i m q \<longrightarrow>
     located m q (elems_bytes es @ [0]) \<longrightarrow> elems_ok acc \<longrightarrow> elems_ok es \<longrightarrow> doc_small es \<longrightarrow> unique_doc es \<longrightarrow>
     apart acc es \<longrightarrow> owns_doc acc ents g \<longrightarrow> d \<notin> dom g \<longrightarrow> grown h0 h (g(d \<mapsto> C_map ents)) \<longrightarrow>
     doc_fuel es \<le> fuel \<longrightarrow>
     (\<exists>ents' g' h'. cb_parse_loop fuel i d h = Done h' \<and> owns_doc (arranged acc es) ents' g' \<and> d \<notin> dom g'
        \<and> grown h0 h' (g'(d \<mapsto> C_map ents'))))"

definition items_parse :: "nat \<Rightarrow> bool" where
  "items_parse fuel \<longleftrightarrow> (\<forall>i m q es acc ps g l h0 h. reaches i m q \<longrightarrow>
     located m q (elems_bytes es @ [0]) \<longrightarrow> elems_ok es \<longrightarrow> doc_small es \<longrightarrow> unique_items es \<longrightarrow>
     owns_items acc ps g \<longrightarrow> l \<notin> dom g \<longrightarrow> grown h0 h (g(l \<mapsto> C_list ps)) \<longrightarrow> doc_fuel es \<le> fuel \<longrightarrow>
     (\<exists>ps' g' h'. cb_parse_items fuel i l h = Done h' \<and> owns_items (acc @ arranged_items es) ps' g' \<and> l \<notin> dom g'
        \<and> grown h0 h' (g'(l \<mapsto> C_list ps'))))"

lemma elems_ok_append: "elems_ok (es @ es') \<longleftrightarrow> elems_ok es \<and> elems_ok es'"
  by (induction es) auto

lemma container_grown:
  assumes gr: "grown (snd (new_cell (C_obj t u) h)) h1 (g(d \<mapsto> c))" and d: "d \<notin> dom g"
  obtains h2 where "store_value (hp_next h) (U_ptr d) h1 = Some h2" "hp_next h \<noteq> d" "hp_next h \<notin> dom g"
    "grown h h2 (g(hp_next h \<mapsto> C_obj t (U_ptr d), d \<mapsto> c))"
proof -
  let ?r = "hp_next h"
  have r: "?r \<noteq> d" "?r \<notin> dom g" using grown_disjoint [OF grown_new gr] by auto
  have gr': "grown h h1 ([?r \<mapsto> C_obj t u] ++ g(d \<mapsto> c))" by (rule grown_trans [OF grown_new gr])
  have "?r \<notin> dom (g(d \<mapsto> c))" using r by simp
  then have "([?r \<mapsto> C_obj t u] ++ g(d \<mapsto> c)) ?r = Some (C_obj t u)" by (simp add: map_add_dom_app_simps)
  then obtain h2 where h2: "store_value ?r (U_ptr d) h1 = Some h2"
      "grown h h2 (([?r \<mapsto> C_obj t u] ++ g(d \<mapsto> c))(?r \<mapsto> C_obj t (U_ptr d)))"
    by (rule store_grown [OF gr'])
  moreover have "([?r \<mapsto> C_obj t u] ++ g(d \<mapsto> c))(?r \<mapsto> C_obj t (U_ptr d)) = g(?r \<mapsto> C_obj t (U_ptr d), d \<mapsto> c)"
    using r by (auto simp: fun_eq_iff map_add_def domIff split: option.splits)
  ultimately show ?thesis using r by (intro that [of h2]) simp_all
qed

lemma value_step:
  assumes "loop_parses fu" "items_parse fu"
  shows "value_parses (Suc fu)"
  unfolding value_parses_def
proof (intro allI impI)
  fix i n v h
  assume on: "on_element i n v" and v: "unique_val v" "val_fuel v < Suc fu"
  let ?r = "hp_next h" and ?h = "\<lambda>t. snd (new_cell (C_obj t (U_bits 0)) h)"
  show "\<exists>a f h'. cb_parse_value (Suc fu) i h = Done (a, h') \<and> owns (arranged_val v) a f \<and> grown h h' f"
  proof (cases "\<exists>es. v = VObject es \<or> v = VArray es")
    case False
    then have "val_type v \<noteq> BSON_OBJECT" "val_type v \<noteq> BSON_ARRAY" "arranged_val v = v" by (cases v; simp)+
    with leaf_grown [OF on this(1,2), of fu h] show ?thesis by metis
  next
    case True
    then obtain es where es: "v = VObject es \<or> v = VArray es" by blast
    obtain p where p: "bson_iterator_type i = Some (val_type v)" "bson_iterator_value i = Some p"
        "located (it_mem i) p (val_bytes v)" "val_ok v" "small v"
      using on by (elim on_element_cases) auto
    then have loc: "located (it_mem i) p (doc_bytes (elems_bytes es))" "elems_ok es" "doc_small es"
        "doc_fuel es \<le> fu"
      using es v small_inner(1,2) by auto
    note walk = reaches_first [of "it_mem i" p] located_doc [OF loc(1)]
    let ?c = "\<lambda>c. new_cell c (?h (val_type v))"
    have d: "grown (?h (val_type v)) (snd (?c c)) (Map.empty(Suc ?r \<mapsto> c))" for c
      using grown_new [of "?h (val_type v)" c] by (simp add: new_cell_def)
    show ?thesis
    proof (cases "v = VObject es")
      case True
      have "\<exists>ents g h1. cb_parse_loop fu (bson_iterator_from_buffer (it_mem i) p) (Suc ?r) (snd (?c (C_map []))) = Done h1
          \<and> owns_doc (arranged [] es) ents g \<and> Suc ?r \<notin> dom g \<and> grown (?h (val_type v)) h1 (g(Suc ?r \<mapsto> C_map ents))"
        by (rule assms(1) [unfolded loop_parses_def, rule_format, OF walk _ _ _ _ _ _ _ d])
          (use loc v(1) True in auto)
      then obtain ents g h1 where g: "cb_parse_loop fu (bson_iterator_from_buffer (it_mem i) p) (Suc ?r) (snd (?c (C_map []))) = Done h1"
          "owns_doc (arranged [] es) ents g" "Suc ?r \<notin> dom g" "grown (?h (val_type v)) h1 (g(Suc ?r \<mapsto> C_map ents))"
        by auto
      from container_grown [OF g(4,3)] obtain h2 where "store_value ?r (U_ptr (Suc ?r)) h1 = Some h2"
          "grown h h2 (g(?r \<mapsto> C_obj (val_type v) (U_ptr (Suc ?r)), Suc ?r \<mapsto> C_map ents))" "?r \<notin> dom g" by blast
      moreover from this g True have "owns (arranged_val v) ?r (g(?r \<mapsto> C_obj (val_type v) (U_ptr (Suc ?r)), Suc ?r \<mapsto> C_map ents))"
        unfolding True arranged_val.simps owns.simps
        by (intro exI [of _ "Suc ?r"] exI [of _ ents] exI [of _ g] conjI) simp_all
      moreover from calculation(1) g(1) p True have "cb_parse_value (Suc fu) i h = Done (?r, h2)"
        by (simp add: bson_iterator_subiterator_def Let_def case_prod_beta new_cell_def)
      ultimately show ?thesis by blast
    next
      case False
      then have True: "v = VArray es" using es by simp
      have "\<exists>ps g h1. cb_parse_items fu (bson_iterator_from_buffer (it_mem i) p) (Suc ?r) (snd (?c (C_list []))) = Done h1
          \<and> owns_items ([] @ arranged_items es) ps g \<and> Suc ?r \<notin> dom g \<and> grown (?h (val_type v)) h1 (g(Suc ?r \<mapsto> C_list ps))"
        by (rule assms(2) [unfolded items_parse_def, rule_format, OF walk _ _ _ _ _ d])
          (use loc v(1) True in auto)
      then obtain ps g h1 where g: "cb_parse_items fu (bson_iterator_from_buffer (it_mem i) p) (Suc ?r) (snd (?c (C_list []))) = Done h1"
          "owns_items (arranged_items es) ps g" "Suc ?r \<notin> dom g" "grown (?h (val_type v)) h1 (g(Suc ?r \<mapsto> C_list ps))"
        by auto
      from container_grown [OF g(4,3)] obtain h2 where "store_value ?r (U_ptr (Suc ?r)) h1 = Some h2"
          "grown h h2 (g(?r \<mapsto> C_obj (val_type v) (U_ptr (Suc ?r)), Suc ?r \<mapsto> C_list ps))" "?r \<notin> dom g" by blast
      moreover from this g True have "owns (arranged_val v) ?r (g(?r \<mapsto> C_obj (val_type v) (U_ptr (Suc ?r)), Suc ?r \<mapsto> C_list ps))"
        unfolding True arranged_val.simps owns.simps
        by (intro exI [of _ "Suc ?r"] exI [of _ ps] exI [of _ g] conjI) simp_all
      moreover from calculation(1) g(1) p True have "cb_parse_value (Suc fu) i h = Done (?r, h2)"
        by (simp add: bson_iterator_subiterator_def Let_def case_prod_beta new_cell_def)
      ultimately show ?thesis by blast
    qed
  qed
qed

lemma value_parsesE:
  assumes "value_parses fu" "on_element i n v" "unique_val v" "val_fuel v < fu"
  obtains a f h' where "cb_parse_value fu i h = Done (a, h')" "owns (arranged_val v) a f" "grown h h' f"
  using assms unfolding value_parses_def by blast

lemma loop_step:
  assumes val: "value_parses fu" and loop: "loop_parses fu"
  shows "loop_parses (Suc fu)"
  unfolding loop_parses_def
proof (intro allI impI)
  fix i m q es acc ents g d h0 h
  assume at: "reaches i m q" "located m q (elems_bytes es @ [0])" "elems_ok acc" "elems_ok es" "doc_small es"
    and es: "unique_doc es" "apart acc es" "owns_doc acc ents g" "d \<notin> dom g"
    and gr: "grown h0 h (g(d \<mapsto> C_map ents))" and fuel: "doc_fuel es \<le> Suc fu"
  show "\<exists>ents' g' h'. cb_parse_loop (Suc fu) i d h = Done h' \<and> owns_doc (arranged acc es) ents' g' \<and> d \<notin> dom g'
     \<and> grown h0 h' (g'(d \<mapsto> C_map ents'))"
  proof (cases es)
    case Nil
    then have "cb_parse_loop (Suc fu) i d h = Done h" using reaches_end [OF at(1)] at(2) by simp
    with es(3,4) gr Nil show ?thesis by auto
  next
    case (Cons e es')
    obtain n v where e: "e = (n, v)" by force
    note [simp] = Cons e
    have ok: "elems_ok ((n, v) # es')" using at(4) by simp
    obtain q' where st: "bson_iterator_next i = Some (val_type v, it_at m q)" "on_element (it_at m q) n v"
        "reaches (it_at m q) m q'" "located m q' (elems_bytes es' @ [0])"
      using walk_step [OF at(1) _ ok] at(2,5) by auto
    have less: "val_fuel v < fu" "doc_fuel es' \<le> fu" using fuel doc_fuel_pos [of es'] by auto
    obtain a f h1 where v: "cb_parse_value fu (it_at m q) h = Done (a, h1)" "owns (arranged_val v) a f" "grown h h1 f"
      by (rule value_parsesE [OF val st(2) _ less(1)]) (use es(1) in auto)
    have key: "cstring m (bson_iterator_key (it_at m q)) = Some n" using access_key [OF st(2)] by simp
    let ?acc = "std_insert n (arranged_val v) acc"
    have acc: "elems_ok acc" "0 \<notin> set n" "n \<notin> fst ` set acc"
      using at(3) ok es(2) by auto
    have acc': "elems_ok ?acc" "apart ?acc es'"
      using insert_member(1,5) [OF acc(3)] arranged_keeps(1) [of v] acc ok es(1,2) by auto
    obtain ents' g' h2 where put: "map_assign d (hp_next h1) (Some a) (snd (new_cell (C_str n) h1)) = Some h2"
        "owns_doc ?acc ents' g'" "d \<notin> dom g'" "grown h0 h2 (g'(d \<mapsto> C_map ents'))"
      by (rule put_grown [OF gr es(4,3) v(3,2) acc])
    have "\<exists>ents' g' h'. cb_parse_loop fu (it_at m q) d h2 = Done h' \<and> owns_doc (arranged ?acc es') ents' g'
        \<and> d \<notin> dom g' \<and> grown h0 h' (g'(d \<mapsto> C_map ents'))"
      by (rule loop [unfolded loop_parses_def, rule_format, OF st(3,4) acc'(1) _ _ _ acc'(2) put(2-4) less(2)])
        (use at(4) es(1) small_parts(2) [OF at(5) [simplified]] in simp_all)
    then show ?thesis
      using st(1) v(1) key put(1) by (simp add: Let_def case_prod_beta)
  qed
qed

lemma items_step:
  assumes val: "value_parses fu" and items: "items_parse fu"
  shows "items_parse (Suc fu)"
  unfolding items_parse_def
proof (intro allI impI)
  fix i m q es acc ps g l h0 h
  assume at: "reaches i m q" "located m q (elems_bytes es @ [0])" "elems_ok es" "doc_small es"
    and es: "unique_items es" "owns_items acc ps g" "l \<notin> dom g"
    and gr: "grown h0 h (g(l \<mapsto> C_list ps))" and fuel: "doc_fuel es \<le> Suc fu"
  show "\<exists>ps' g' h'. cb_parse_items (Suc fu) i l h = Done h' \<and> owns_items (acc @ arranged_items es) ps' g' \<and> l \<notin> dom g'
     \<and> grown h0 h' (g'(l \<mapsto> C_list ps'))"
  proof (cases es)
    case Nil
    then have "cb_parse_items (Suc fu) i l h = Done h" using reaches_end [OF at(1)] at(2) by simp
    with es(2,3) gr Nil show ?thesis by auto
  next
    case (Cons e es')
    obtain n v where e: "e = (n, v)" by force
    note [simp] = Cons e
    obtain q' where st: "bson_iterator_next i = Some (val_type v, it_at m q)" "on_element (it_at m q) n v"
        "reaches (it_at m q) m q'" "located m q' (elems_bytes es' @ [0])"
      using walk_step [OF at(1), of n v es'] at(2-4) by auto
    have less: "val_fuel v < fu" "doc_fuel es' \<le> fu" using fuel doc_fuel_pos [of es'] by auto
    obtain a f h1 where v: "cb_parse_value fu (it_at m q) h = Done (a, h1)" "owns (arranged_val v) a f" "grown h h1 f"
      by (rule value_parsesE [OF val st(2) _ less(1)]) (use es(1) in auto)
    obtain g' h2 where push: "push_back l (Some a) h1 = Some h2" "owns_items (acc @ [(n, arranged_val v)]) (ps @ [Some a]) g'"
        "l \<notin> dom g'" "grown h0 h2 (g'(l \<mapsto> C_list (ps @ [Some a])))"
      by (rule push_grown [OF gr es(3,2) v(3,2)])
    have "\<exists>ps' g' h'. cb_parse_items fu (it_at m q) l h2 = Done h' \<and> owns_items ((acc @ [(n, arranged_val v)]) @ arranged_items es') ps' g'
        \<and> l \<notin> dom g' \<and> grown h0 h' (g'(l \<mapsto> C_list ps'))"
      by (rule items [unfolded items_parse_def, rule_format, OF st(3,4) _ _ _ push(2-4) less(2)])
        (use at(3) es(1) small_parts(2) [OF at(4) [simplified]] in simp_all)
    then show ?thesis
      using st(1) v(1) push(1) by simp
  qed
qed

lemma parses: "value_parses fuel \<and> loop_parses fuel \<and> items_parse fuel"
proof (induction fuel)
  case 0
  have "0 < doc_fuel es" for es by (rule doc_fuel_pos)
  then show ?case by (simp add: value_parses_def loop_parses_def items_parse_def)
next
  case (Suc fuel)
  then show ?case using value_step loop_step items_step by blast
qed

text \<open>Parsing a document whose keys differ adds exactly the cells of its tree.\<close>

lemma parse_document:
  assumes "located buff 0 (doc_bytes (elems_bytes es))" "elems_ok es" "doc_small es" "unique_doc es"
    and "doc_fuel es \<le> fuel"
  obtains ents g h' where "cb_parse fuel buff h = Done (hp_next h, h')" "owns_doc (arranged [] es) ents g"
    "hp_next h \<notin> dom g" "grown h h' (g(hp_next h \<mapsto> C_map ents))"
proof -
  let ?m = "hp_next h" and ?h = "snd (new_cell (C_map []) h)"
  have start: "owns_doc [] [] Map.empty" "?m \<notin> dom Map.empty" by simp_all
  have "\<exists>ents g h'. cb_parse_loop fuel (bson_iterator_from_buffer buff 0) ?m ?h = Done h' \<and> owns_doc (arranged [] es) ents g
      \<and> ?m \<notin> dom g \<and> grown h h' (g(?m \<mapsto> C_map ents))"
    by (rule parses [THEN conjunct2, THEN conjunct1, unfolded loop_parses_def, rule_format,
          OF reaches_first located_doc [OF assms(1)] _ _ _ _ _ start grown_new assms(5)])
      (use assms in simp_all)
  then obtain ents g h' where doc: "cb_parse_loop fuel (bson_iterator_from_buffer buff 0) ?m ?h = Done h'"
      "owns_doc (arranged [] es) ents g" "?m \<notin> dom g" "grown h h' (g(?m \<mapsto> C_map ents))"
    by blast
  have "cb_parse fuel buff h = Done (?m, h')" using doc(1) by (simp add: cb_parse_def Let_def case_prod_beta)
  then show ?thesis using doc(2-4) by (rule that)
qed

text \<open>A new cell that is none of its keys does not change what a map shows.\<close>

lemma view_past_new:
  assumes "\<And>k p. (k, p) \<in> set es \<Longrightarrow> k \<noteq> hp_next h"
  shows "map_view (snd (new_cell c h)) es = map_view h es"
proof -
  have "key_at (snd (new_cell c h)) k = key_at h k" if "(k, p) \<in> set es" for k p
    using assms [OF that] by (simp add: key_at_def new_cell_def)
  then show ?thesis unfolding map_view_def by (intro arg_cong [of _ _ those] map_cong) auto
qed

text \<open>The heap a program starts with.\<close>

definition empty_heap :: cb_heap where
  "empty_heap = \<lparr>hp_cells = Map.empty, hp_next = 0\<rparr>"

end
