(* ===== verification/CBson_Props.thy ===== *)
theory CBson_Props
  imports CBson_Facts
begin

text \<open>
  The properties of the linked documents: what parsing and saving keep, what destroying gives back,
  what a look-up of a missing key does, and the tags of the objects.
\<close>

section \<open>Saving what was parsed\<close>

lemma kept_ok:
  "val_ok v \<Longrightarrow> val_ok (kept_val v)"
  "elems_ok es \<Longrightarrow> elems_ok (kept es)"
  "elems_ok es \<Longrightarrow> elems_ok (kept_items es)"
  by (induction v and es and es rule: kept_val_kept_kept_items.induct) auto

lemma empty_accepted: "utf8_accepted []"
  using ascii_accepted [of "[]"] by simp

lemma kept_utf8:
  "val_utf8 v \<Longrightarrow> val_utf8 (kept_val v)"
  "doc_utf8 es \<Longrightarrow> doc_utf8 (kept es)"
  "doc_utf8 es \<Longrightarrow> doc_utf8 (kept_items es)"
  by (induction v and es and es rule: kept_val_kept_kept_items.induct) (auto simp: empty_accepted)

lemma kept_shorter:
  "length (val_bytes (kept_val v)) \<le> length (val_bytes v)"
  "length (elems_bytes (kept es)) \<le> length (elems_bytes es)"
  "length (elems_bytes (kept_items es)) \<le> length (elems_bytes es)"
  by (induction v and es and es rule: kept_val_kept_kept_items.induct)
    (auto simp: binary_body_def doc_bytes_def BSON_BIN_BINARY_def BSON_BIN_BINARY_OLD_def)

lemma save_document:
  assumes A: "allocator_ok A" "allocator_total A" and es: "elems_ok es" "doc_utf8 es" "owns_doc es ents g"
    and h: "g \<subseteq>\<^sub>m hp_cells h" "hp_cells h m = Some (C_map ents)"
    and small: "int (length (elems_bytes es)) + 5 \<le> max_doc" and fuel: "doc_fuel es \<le> fuel"
  shows "cb_save A fuel (Some m) h = Done (doc_bytes (elems_bytes (kept es)))"
proof -
  let ?d = "doc_bytes (elems_bytes (kept es))"
  have short: "int (length (elems_bytes (kept es))) + 5 \<le> max_doc" using small kept_shorter(2) [of es] by simp
  obtain b b' d where b: "api_run A (snd (bson_init A)) (doc_calls (kept es))
      = Some (replicate (length (doc_calls (kept es))) BSON_OK, b)"
    "bson_finish A b = Some (BSON_OK, b')" "b_data b' = Some d" "located d 0 ?d"
    by (rule build_doc [OF A kept_ok(2) [OF es(1)] kept_utf8(2) [OF es(2)] short])
  have "bson_size b' = Some (int (length ?d))"
    using data_size_located [of d "to_int (length (elems_bytes (kept es)) + 5)" "elems_bytes (kept es) @ [0]"] b(3,4) short
    by (simp add: bson_size_def doc_bytes_def sint_to_int INT_MAX_def max_doc_def)
  moreover have "size_t (int (length ?d)) = length ?d"
    using short by (simp add: size_t_def max_doc_def nat_plus_as_int)
  moreover have "cb_save_map A fuel h ents (snd (bson_init A)) = Done b"
    using save_tree(2) [OF es(3) h(1) es(1) fuel] b(1) by (simp add: run_calls_def)
  ultimately show ?thesis
    using h(2) b(2,3) rdn_located [OF b(4)] by (simp add: cb_save_def entries_at_def)
qed

text \<open>
  C13. Parsing a document whose objects have different keys into linked objects and saving them gives
  back the document with the members of every object in the order of their keys, without its 64-bit integers and
  the values of the types \<open>CBson\<close> has no case for, and with the keys of arrays and the subtypes of binaries
  blanked; everything else comes back byte for byte.
\<close>
theorem reparsed_document_keeps:
  assumes "allocator_ok A" "allocator_total A" "elems_ok es" "doc_utf8 es" "unique_doc es"
    and "int (length (elems_bytes es)) + 5 \<le> max_doc" and "doc_fuel es \<le> fuel"
  shows "\<exists>m h'. cb_parse fuel (doc_bytes (elems_bytes es)) h = Done (m, h')
     \<and> cb_save A fuel (Some m) h' = Done (doc_bytes (elems_bytes (kept (arranged [] es))))"
proof -
  let ?d = "doc_bytes (elems_bytes es)"
  have d: "located ?d 0 ?d" by (simp add: located_def)
  have small: "doc_small es" using assms(6) by (simp add: doc_small_def max_doc_def INT_MAX_def)
  obtain ents g h' where doc: "cb_parse fuel ?d h = Done (hp_next h, h')" "owns_doc (arranged [] es) ents g"
      "hp_next h \<notin> dom g" "grown h h' (g(hp_next h \<mapsto> C_map ents))"
    by (rule parse_document [OF d assms(3) small assms(5,7)])
  note le = le_upd [OF grown_le [OF doc(4)] doc(3)]
  have arr: "elems_ok (arranged [] es)" "doc_utf8 (arranged [] es)"
      "int (length (elems_bytes (arranged [] es))) + 5 \<le> max_doc" "doc_fuel (arranged [] es) \<le> fuel"
    using arranged_keeps(2) [OF assms(5), of "[]"] assms(3,4,6,7) by auto
  have "cb_save A fuel (Some (hp_next h)) h' = Done (doc_bytes (elems_bytes (kept (arranged [] es))))"
    by (rule save_document [OF assms(1,2) arr(1,2) doc(2) conjunct1 [OF le] conjunct2 [OF le] arr(3,4)])
  with doc(1) show ?thesis by blast
qed

text \<open>A document with a 64-bit integer, an array and keys out of order.\<close>

definition linked_sample :: bson_doc where
  "linked_sample = [([0x63], VBool True), ([0x61], VLong 5), ([0x62], VArray [([0x30], VInt 1), ([0x31], VString [0x68])])]"

lemma linked_sample_ok:
  "elems_ok linked_sample" "doc_utf8 linked_sample" "unique_doc linked_sample"
  "int (length (elems_bytes linked_sample)) + 5 \<le> max_doc" "doc_fuel linked_sample \<le> 9" "doc_small linked_sample"
  by (simp_all add: linked_sample_def ascii_accepted max_doc_def doc_small_def INT_MAX_def string_body_def doc_bytes_def)

theorem reparsed_document_keeps_witness:
  "\<exists>m h'. cb_parse 9 (doc_bytes (elems_bytes linked_sample)) empty_heap = Done (m, h')
     \<and> cb_save plain_allocator 9 (Some m) h' = Done (doc_bytes (elems_bytes
         [([0x62], VArray [([], VInt 1), ([], VString [0x68])]), ([0x63], VBool True)]))"
proof -
  have "kept (arranged [] linked_sample) = [([0x62], VArray [([], VInt 1), ([], VString [0x68])]), ([0x63], VBool True)]"
    by (simp add: linked_sample_def)
  then show ?thesis
    using reparsed_document_keeps [of plain_allocator linked_sample 9 empty_heap] linked_sample_ok by simp
qed

section \<open>Destroying\<close>

text \<open>The objects of list elements, which nothing deletes.\<close>

fun lost :: "bson_val \<Rightarrow> nat" and lost_doc :: "bson_doc \<Rightarrow> nat" and lost_items :: "bson_doc \<Rightarrow> nat" where
  "lost (VObject es) = lost_doc es"
| "lost (VArray es) = lost_items es"
| "lost v = 0"
| "lost_doc [] = 0"
| "lost_doc ((n, v) # es) = lost v + lost_doc es"
| "lost_items [] = 0"
| "lost_items ((n, v) # es) = Suc (lost v) + lost_items es"

lemma arranged_lost:
  "unique_val v \<Longrightarrow> lost (arranged_val v) = lost v"
  "unique_doc es \<Longrightarrow> apart acc es \<Longrightarrow> lost_doc (arranged acc es) = lost_doc acc + lost_doc es"
  "unique_items es \<Longrightarrow> lost_items (arranged_items es) = lost_items es"
proof (induction v and acc es and es rule: arranged_val_arranged_arranged_items.induct)
  case (5 acc n v es)
  have "lost_doc (std_insert n w acc) = lost w + lost_doc acc" if "n \<notin> fst ` set acc" for w
    using that by (induction n w acc rule: std_insert.induct) auto
  moreover have fresh: "n \<notin> fst ` set acc" using 5(4) by auto
  ultimately show ?case using 5 insert_member(5) [OF fresh] by auto
qed auto

definition freed :: "cb_heap \<Rightarrow> cb_heap \<Rightarrow> nat set \<Rightarrow> bool" where
  "freed h h' S \<longleftrightarrow> hp_cells h' = hp_cells h |` (- S) \<and> hp_next h' = hp_next h"

lemma freed_trans: "freed h h1 S \<Longrightarrow> freed h1 h2 T \<Longrightarrow> freed h h2 (S \<union> T)"
  by (simp add: freed_def Int_commute)

lemma freed_le: "freed h h1 S \<Longrightarrow> f \<subseteq>\<^sub>m hp_cells h \<Longrightarrow> dom f \<inter> S = {} \<Longrightarrow> f \<subseteq>\<^sub>m hp_cells h1"
  by (auto simp: freed_def map_le_def restrict_map_def)

lemma release_freed:
  "hp_cells h a = Some c \<Longrightarrow> \<exists>h'. release a h = Some h' \<and> freed h h' {a}"
  by (auto simp: release_def drop_cell_def freed_def restrict_map_def fun_eq_iff)

lemma release_after:
  assumes "freed h h1 S" "hp_cells h a = Some c" "a \<notin> S"
  obtains h2 where "release a h1 = Some h2" "freed h h2 (insert a S)"
proof -
  have "hp_cells h1 a = Some c" using assms by (simp add: freed_def)
  then obtain h2 where "release a h1 = Some h2" "freed h1 h2 {a}" using release_freed by blast
  then show ?thesis using that freed_trans [OF assms(1)] by fastforce
qed

lemma freed_none: "freed h h {}"
  by (simp add: freed_def restrict_map_def)

lemma owns_obj: "owns v a f \<Longrightarrow> \<exists>u. f a = Some (C_obj (val_type v) u)"
  by (cases v) auto

definition destroys :: "cb_heap outcome \<Rightarrow> cb_heap \<Rightarrow> nat set \<Rightarrow> nat \<Rightarrow> bool" where
  "destroys res h D n \<longleftrightarrow> (\<exists>L h'. res = Done h' \<and> L \<subseteq> D \<and> finite L \<and> card L = n \<and> freed h h' (D - L))"

lemma destroysE:
  assumes "destroys res h D n"
  obtains L h' where "res = Done h'" "L \<subseteq> D" "finite L" "card L = n" "freed h h' (D - L)"
  using assms unfolding destroys_def by blast

lemma destroys_bind:
  assumes "destroys res h D n" and dis: "D \<inter> E = {}"
    and rest: "\<And>S h'. freed h h' S \<Longrightarrow> S \<subseteq> D \<Longrightarrow> destroys (k h') h' E m"
  shows "destroys (bind_outcome res k) h (D \<union> E) (n + m)"
proof -
  obtain L h1 where L: "res = Done h1" "L \<subseteq> D" "finite L" "card L = n" "freed h h1 (D - L)"
    by (rule destroysE [OF assms(1)])
  obtain M h2 where M: "k h1 = Done h2" "M \<subseteq> E" "finite M" "card M = m" "freed h1 h2 (E - M)"
    by (rule destroysE [OF rest [OF L(5)]]) simp_all
  have "(D - L) \<union> (E - M) = D \<union> E - (L \<union> M)" using L(2) M(2) dis by blast
  moreover have "card (L \<union> M) = n + m" using L M dis by (subst card_Un_disjoint) auto
  ultimately show ?thesis
    using L M freed_trans [OF L(5) M(5)] unfolding destroys_def
    by (intro exI [of _ "L \<union> M"] exI [of _ h2]) auto
qed

lemma destroys_Done: "destroys (Done h) h {} 0"
  using freed_none by (auto simp: destroys_def)

lemma destroys_one:
  assumes "hp_cells h a = Some c"
  shows "destroys (lift_fault (release a h) Done) h {a} 0"
  using release_freed [OF assms] by (auto simp: destroys_def intro!: exI [of _ "{}"])

lemma lift_bind: "lift_fault res k = bind_outcome (lift_fault res Done) k"
  by (cases res) simp_all

lemma destroys_release:
  assumes "hp_cells h a = Some c" "a \<notin> E" "\<And>h'. freed h h' {a} \<Longrightarrow> destroys (k h') h' E n"
  shows "destroys (lift_fault (release a h) k) h (insert a E) n"
proof -
  obtain h1 where h1: "release a h = Some h1" "freed h h1 {a}" using release_freed [OF assms(1)] by blast
  obtain L h2 where L: "k h1 = Done h2" "L \<subseteq> E" "finite L" "card L = n" "freed h1 h2 (E - L)"
    by (rule destroysE [OF assms(3) [OF h1(2)]])
  have "{a} \<union> (E - L) = insert a E - L" using L(2) assms(2) by blast
  then show ?thesis
    using h1(1) L freed_trans [OF h1(2) L(5)] unfolding destroys_def
    by (intro exI [of _ L] exI [of _ h2]) auto
qed

lemma freed_keeps: "freed h h' S \<Longrightarrow> hp_cells h a = Some c \<Longrightarrow> a \<notin> S \<Longrightarrow> hp_cells h' a = Some c"
  by (simp add: freed_def)

lemma destroy_simple:
  assumes "owns v a f" "f \<subseteq>\<^sub>m hp_cells h" "val_fuel v < fuel"
    and v: "val_type v \<notin> {BSON_STRING, BSON_BINDATA, BSON_OBJECT, BSON_ARRAY}"
  shows "destroys (cb_destroy_value fuel (Some a) h) h (dom f - {a}) (lost v)"
proof -
  obtain fu where "fuel = Suc fu" using assms(3) by (cases fuel) auto
  moreover have "f = [a \<mapsto> C_obj (val_type v) (U_bits (other_bits v))]" "lost v = 0"
    using assms(1) v by (cases v; simp)+
  ultimately show ?thesis
    using owns_simple [OF assms(1,2) v] v destroys_Done [of h] by (simp add: read_cells)
qed

lemma destroy_tree:
  "owns v a f \<Longrightarrow> f \<subseteq>\<^sub>m hp_cells h \<Longrightarrow> val_fuel v < fuel \<Longrightarrow>
   destroys (cb_destroy_value fuel (Some a) h) h (dom f - {a}) (lost v)"
  "owns_doc es ents f \<Longrightarrow> f \<subseteq>\<^sub>m hp_cells h \<Longrightarrow> doc_fuel es \<le> fuel \<Longrightarrow>
   destroys (cb_destroy_entries fuel ents h) h (dom f) (lost_doc es)"
  "owns_items es ps f \<Longrightarrow> f \<subseteq>\<^sub>m hp_cells h \<Longrightarrow> doc_fuel es \<le> fuel \<Longrightarrow>
   destroys (cb_destroy_items fuel ps h) h (dom f) (lost_items es)"
proof (induction v a f and es ents f and es ps f arbitrary: h fuel and h fuel and h fuel
    rule: owns_owns_doc_owns_items.induct)
  case (1 s a f)
  then obtain p where p: "p \<noteq> a" "f = [a \<mapsto> C_obj BSON_STRING (U_ptr p), p \<mapsto> C_chars s]" by auto
  obtain fu where fu: "fuel = Suc fu" using 1(3) by (cases fuel) auto
  have h: "hp_cells h a = Some (C_obj BSON_STRING (U_ptr p))" "hp_cells h p = Some (C_chars s)"
    by (rule in_heap [OF 1(2)], use p in simp)+
  have "dom f - {a} = {p}" using p by auto
  then show ?case
    using destroys_one [OF h(2)] h fu by (simp add: read_cells cb_free_chars_def)
next
  case (2 t xs a f)
  then obtain p d where p: "p \<noteq> a" "d \<noteq> a" "d \<noteq> p"
      "f = [a \<mapsto> C_obj BSON_BINDATA (U_ptr p), p \<mapsto> C_bin (Some d) (word_of_nat (length xs)), d \<mapsto> C_data xs]" by auto
  obtain fu where fu: "fuel = Suc fu" using 2(3) by (cases fuel) auto
  have h: "hp_cells h a = Some (C_obj BSON_BINDATA (U_ptr p))" "hp_cells h d = Some (C_data xs)"
      "hp_cells h p = Some (C_bin (Some d) (word_of_nat (length xs)))"
    by (rule in_heap [OF 2(2)], use p in simp)+
  have dom: "dom f - {a} = insert d {p}" using p by auto
  have "destroys (lift_fault (release d h) (\<lambda>h. lift_fault (release p h) Done)) h (insert d {p}) 0"
    by (rule destroys_release [OF h(2)]) (use p freed_keeps [OF _ h(3)] destroys_one in auto)
  moreover have "lift_fault (release d h) (\<lambda>h. lift_fault (release p h) Done) = cb_destroy_value fuel (Some a) h"
    using h fu by (simp add: read_cells cb_free_bin_def data_at_def lift_fault_def split: option.split Option.bind_split)
  ultimately show ?case unfolding dom by simp
next
  case (3 es a f)
  from 3(2) obtain m ents g where g: "m \<noteq> a" "a \<notin> dom g" "m \<notin> dom g" "owns_doc es ents g"
      "f = g(a \<mapsto> C_obj BSON_OBJECT (U_ptr m), m \<mapsto> C_map ents)"
    unfolding owns.simps by blast
  obtain fu where fu: "fuel = Suc fu" using 3(4) by (cases fuel) auto
  have h: "hp_cells h a = Some (C_obj BSON_OBJECT (U_ptr m))" "hp_cells h m = Some (C_map ents)" "g \<subseteq>\<^sub>m hp_cells h"
    using le_two [OF 3(3) [unfolded g(5)] g(1-3)] by simp_all
  have "destroys (bind_outcome (cb_destroy_entries fu ents h) (\<lambda>h. lift_fault (release m h) Done)) h (dom g \<union> {m}) (lost_doc es + 0)"
  proof (rule destroys_bind)
    show "destroys (cb_destroy_entries fu ents h) h (dom g) (lost_doc es)"
      by (rule 3(1) [OF g(4) h(3)]) (use 3(4) fu in simp)
  qed (use g(3) freed_keeps [OF _ h(2)] destroys_one in blast)+
  moreover have "dom f - {a} = dom g \<union> {m}" using g by auto
  ultimately show ?case using h fu by (simp add: read_cells)
next
  case (4 es a f)
  from 4(2) obtain l ps g where g: "l \<noteq> a" "a \<notin> dom g" "l \<notin> dom g" "owns_items es ps g"
      "f = g(a \<mapsto> C_obj BSON_ARRAY (U_ptr l), l \<mapsto> C_list ps)"
    unfolding owns.simps by blast
  obtain fu where fu: "fuel = Suc fu" using 4(4) by (cases fuel) auto
  have h: "hp_cells h a = Some (C_obj BSON_ARRAY (U_ptr l))" "hp_cells h l = Some (C_list ps)" "g \<subseteq>\<^sub>m hp_cells h"
    using le_two [OF 4(3) [unfolded g(5)] g(1-3)] by simp_all
  have "destroys (bind_outcome (cb_destroy_items fu ps h) (\<lambda>h. lift_fault (release l h) Done)) h (dom g \<union> {l}) (lost_items es + 0)"
  proof (rule destroys_bind)
    show "destroys (cb_destroy_items fu ps h) h (dom g) (lost_items es)"
      by (rule 4(1) [OF g(4) h(3)]) (use 4(4) fu in simp)
  qed (use g(3) freed_keeps [OF _ h(2)] destroys_one in blast)+
  moreover have "dom f - {a} = dom g \<union> {l}" using g by auto
  ultimately show ?case using h fu by (simp add: read_cells)
next
  case (6 ents f)
  then show ?case using destroys_Done by (cases fuel) auto
next
  case (7 n v es ents f)
  from 7(3) obtain k a ents' f1 f2 where g: "ents = (k, Some a) # ents'" "owns v a f1" "owns_doc es ents' f2"
      "k \<notin> dom f1" "k \<notin> dom f2" "dom f1 \<inter> dom f2 = {}" "f = (f1 ++ f2)(k \<mapsto> C_str n)"
    unfolding owns_doc.simps by blast
  obtain fu where fu: "fuel = Suc fu" using 7(5) by (cases fuel) auto
  have less: "val_fuel v < fu" "doc_fuel es \<le> fu" using 7(5) fu doc_fuel_pos [of es] by simp_all
  have h: "hp_cells h k = Some (C_str n)" "f1 \<subseteq>\<^sub>m hp_cells h" "f2 \<subseteq>\<^sub>m hp_cells h"
    using le_three [OF 7(4) [unfolded g(7)] g(4-6)] by simp_all
  obtain u where u: "f1 a = Some (C_obj (val_type v) u)" using owns_obj [OF g(2)] by blast
  have a: "a \<in> dom f1" "a \<notin> dom f2" using u g(6) by auto
  have rest: "destroys (lift_fault (release a h2) (\<lambda>h. cb_destroy_entries fu ents' h)) h2 (insert a (dom f2)) (lost_doc es)"
    if "f1 \<subseteq>\<^sub>m hp_cells h1" "f2 \<subseteq>\<^sub>m hp_cells h1" "freed h1 h2 S" "S \<subseteq> dom f1 - {a}" for h1 h2 S
  proof (rule destroys_release)
    show "hp_cells h2 a = Some (C_obj (val_type v) u)"
      using freed_keeps [OF that(3) in_heap [OF that(1) u]] that(4) by blast
    have f2: "f2 \<subseteq>\<^sub>m hp_cells h2" using freed_le [OF that(3,2)] that(4) g(6) by blast
    show "destroys (cb_destroy_entries fu ents' h3) h3 (dom f2) (lost_doc es)" if "freed h2 h3 {a}" for h3
      by (rule 7(2) [OF g(3) freed_le [OF that f2] less(2)]) (use a in simp)
  qed (use a in simp)
  have "destroys (lift_fault (release k h) (\<lambda>h. bind_outcome (cb_destroy_value fu (Some a) h)
      (\<lambda>h. lift_fault (release a h) (\<lambda>h. cb_destroy_entries fu ents' h)))) h
      (insert k ((dom f1 - {a}) \<union> insert a (dom f2))) (lost v + lost_doc es)"
  proof (rule destroys_release [OF h(1)])
    fix h1 assume h1: "freed h h1 {k}"
    have f: "f1 \<subseteq>\<^sub>m hp_cells h1" "f2 \<subseteq>\<^sub>m hp_cells h1"
      by (rule freed_le [OF h1]; use h g(4,5) in simp)+
    show "destroys (bind_outcome (cb_destroy_value fu (Some a) h1)
        (\<lambda>h. lift_fault (release a h) (\<lambda>h. cb_destroy_entries fu ents' h))) h1
        ((dom f1 - {a}) \<union> insert a (dom f2)) (lost v + lost_doc es)"
      by (rule destroys_bind [OF 7(1) [OF g(2) f(1) less(1)] _ rest [OF f]]) (use g(6) in auto)
  qed (use g(4,5) a in auto)
  moreover have "insert k ((dom f1 - {a}) \<union> insert a (dom f2)) = dom f" using a unfolding g(7) by auto
  ultimately show ?case using h(1) by (simp add: g(1) fu key_at_def)
next
  case (8 ps f)
  then show ?case using destroys_Done by (cases fuel) auto
next
  case (9 n v es ps f)
  from 9(3) obtain a ps' f1 f2 where g: "ps = Some a # ps'" "owns v a f1" "owns_items es ps' f2"
      "dom f1 \<inter> dom f2 = {}" "f = f1 ++ f2"
    unfolding owns_items.simps by blast
  obtain fu where fu: "fuel = Suc fu" using 9(5) by (cases fuel) auto
  have less: "val_fuel v < fu" "doc_fuel es \<le> fu" using 9(5) fu doc_fuel_pos [of es] by simp_all
  have h: "f1 \<subseteq>\<^sub>m hp_cells h" "f2 \<subseteq>\<^sub>m hp_cells h"
    using le_add [OF 9(4) [unfolded g(5)] g(4)] by simp_all
  obtain u where u: "f1 a = Some (C_obj (val_type v) u)" using owns_obj [OF g(2)] by blast
  have "destroys (bind_outcome (cb_destroy_value fu (Some a) h) (\<lambda>h. cb_destroy_items fu ps' h)) h
      ((dom f1 - {a}) \<union> dom f2) (lost v + lost_items es)"
    by (rule destroys_bind [OF 9(1) [OF g(2) h(1) less(1)]], use g(4) in blast,
        rule 9(2) [OF g(3) freed_le [OF _ h(2)] less(2)]) (use g(4) in blast)+
  then obtain L h' where L: "bind_outcome (cb_destroy_value fu (Some a) h) (\<lambda>h. cb_destroy_items fu ps' h) = Done h'"
      "L \<subseteq> (dom f1 - {a}) \<union> dom f2" "finite L" "card L = lost v + lost_items es"
      "freed h h' ((dom f1 - {a}) \<union> dom f2 - L)" by (rule destroysE)
  have a: "a \<notin> L" "a \<in> dom f1" "a \<notin> dom f2" using L(2) u g(4) by auto
  have "(dom f1 - {a}) \<union> dom f2 - L = dom f - insert a L" using a unfolding g(5) by auto
  then show ?case
    using L a unfolding destroys_def g(1) fu g(5)
    by (intro exI [of _ "insert a L"] exI [of _ h']) auto
qed (erule destroy_simple; simp)+

text \<open>
  A document that is parsed and destroyed leaves the heap it found, but for one object per element
  of its arrays: \<open>__bson_obj_destroy\<close> empties the objects of a list and never deletes them.
\<close>
lemma destroying_leaks_array_elements:
  assumes "elems_ok es" "doc_small es" "unique_doc es" "doc_fuel es \<le> fuel" "heap_ok h"
  shows "\<exists>m h1 h2 L. cb_parse fuel (doc_bytes (elems_bytes es)) h = Done (m, h1)
     \<and> bson_obj_map_destroy fuel (Some m) h1 = Done h2
     \<and> finite L \<and> card L = lost_doc es \<and> L \<inter> dom (hp_cells h) = {}
     \<and> dom (hp_cells h2) = dom (hp_cells h) \<union> L \<and> hp_cells h \<subseteq>\<^sub>m hp_cells h2"
proof -
  let ?d = "doc_bytes (elems_bytes es)" and ?m = "hp_next h"
  have d: "located ?d 0 ?d" by (simp add: located_def)
  obtain ents g h1 where doc: "cb_parse fuel ?d h = Done (?m, h1)" "owns_doc (arranged [] es) ents g"
      "?m \<notin> dom g" "grown h h1 (g(?m \<mapsto> C_map ents))"
    by (rule parse_document [OF d assms(1-4)])
  have le: "g \<subseteq>\<^sub>m hp_cells h1" "hp_cells h1 ?m = Some (C_map ents)"
    using le_upd [OF grown_le [OF doc(4)] doc(3)] by simp_all
  have arr: "doc_fuel (arranged [] es) \<le> fuel" "lost_doc (arranged [] es) = lost_doc es"
    using arranged_keeps(2) [OF assms(3), of "[]"] arranged_lost(2) [OF assms(3), of "[]"] assms(4) by simp_all
  have "destroys (bind_outcome (cb_destroy_entries fuel ents h1) (\<lambda>h. lift_fault (release ?m h) Done)) h1
      (dom g \<union> {?m}) (lost_doc (arranged [] es) + 0)"
    by (rule destroys_bind [OF destroy_tree(2) [OF doc(2) le(1) arr(1)]])
      (use doc(3) freed_keeps [OF _ le(2)] destroys_one in blast)+
  then obtain L h2 where L: "bind_outcome (cb_destroy_entries fuel ents h1) (\<lambda>h. lift_fault (release ?m h) Done) = Done h2"
      "L \<subseteq> dom g \<union> {?m}" "finite L" "card L = lost_doc es" "freed h1 h2 (dom g \<union> {?m} - L)"
    by (rule destroysE) (simp add: arr(2))
  have new: "dom (hp_cells h) \<inter> (dom g \<union> {?m}) = {}"
    using assms(5) doc(4) by (fastforce simp: heap_ok_def grown_def)
  have cells: "hp_cells h1 = hp_cells h ++ g(?m \<mapsto> C_map ents)" using doc(4) by (simp add: grown_def)
  then have "dom (hp_cells h1) = dom (hp_cells h) \<union> (dom g \<union> {?m})" by auto
  moreover have "hp_cells h2 = hp_cells h1 |` (- (dom g \<union> {?m} - L))" using L(5) by (simp add: freed_def)
  ultimately have dom: "dom (hp_cells h2) = dom (hp_cells h) \<union> L" using L(2) new by auto
  have "hp_cells h \<subseteq>\<^sub>m hp_cells h1" unfolding cells
    using new by (subst map_add_comm) (auto simp: Int_commute)
  then have "hp_cells h \<subseteq>\<^sub>m hp_cells h2" using freed_le [OF L(5)] new by blast
  moreover have "bson_obj_map_destroy fuel (Some ?m) h1 = Done h2"
    using L(1) le(2) by (simp add: bson_obj_map_destroy_def entries_at_def)
  ultimately show ?thesis using doc(1) L(2-4) dom new by blast
qed

lemma destroying_leaks_array_elements_instance:
  "\<exists>m h1 h2 L. cb_parse 9 (doc_bytes (elems_bytes linked_sample)) empty_heap = Done (m, h1)
     \<and> bson_obj_map_destroy 9 (Some m) h1 = Done h2
     \<and> finite L \<and> card L = lost_doc linked_sample \<and> L \<inter> dom (hp_cells empty_heap) = {}
     \<and> dom (hp_cells h2) = dom (hp_cells empty_heap) \<union> L \<and> hp_cells empty_heap \<subseteq>\<^sub>m hp_cells h2"
  by (rule destroying_leaks_array_elements) (simp_all add: linked_sample_ok heap_ok_def empty_heap_def)

section \<open>Looking for a key that is missing\<close>

lemma those_missing: "x \<in> set xs \<Longrightarrow> f x = None \<Longrightarrow> those (map f xs) = None"
  by (induction xs) (auto split: option.split)

lemma view_gone: "(k, p) \<in> set es \<Longrightarrow> key_at h k = None \<Longrightarrow> map_view h es = None"
  unfolding map_view_def by (rule those_missing [of "(k, p)"]) simp_all

lemma save_gone: "(k, p) \<in> set es \<Longrightarrow> key_at h k = None \<Longrightarrow> cb_save_map A fuel h es b \<noteq> Done b'"
proof (induction es arbitrary: fuel b)
  case (Cons e es)
  obtain k' p' where "e = (k', p')" by force
  with Cons show ?case by (cases fuel) (auto simp: Done_iff)
qed simp

text \<open>Destroying only takes cells away.\<close>

lemma release_le: "release a h = Some h' \<Longrightarrow> hp_cells h' \<subseteq>\<^sub>m hp_cells h"
  by (auto simp: release_def drop_cell_def map_le_def split: option.splits if_splits)

lemma free_chars_le: "cb_free_chars u h = Some h' \<Longrightarrow> hp_cells h' \<subseteq>\<^sub>m hp_cells h"
  by (auto simp: cb_free_chars_def release_le split: Option.bind_splits option.splits)

lemma free_bin_le: "cb_free_bin a h = Some h' \<Longrightarrow> hp_cells h' \<subseteq>\<^sub>m hp_cells h"
  by (auto simp: cb_free_bin_def split: Option.bind_splits option.splits prod.splits
      dest!: release_le elim: map_le_trans)

lemma destroy_le:
  "cb_destroy_value fuel p h = Done h' \<Longrightarrow> hp_cells h' \<subseteq>\<^sub>m hp_cells h"
  "cb_destroy_entries fuel es h = Done h' \<Longrightarrow> hp_cells h' \<subseteq>\<^sub>m hp_cells h"
  "cb_destroy_items fuel ps h = Done h' \<Longrightarrow> hp_cells h' \<subseteq>\<^sub>m hp_cells h"
proof (induction fuel p h and fuel es h and fuel ps h arbitrary: h' and h' and h'
    rule: cb_destroy_value_cb_destroy_entries_cb_destroy_items.induct)
  case (2 fuel p h)
  then show ?case
    by (fastforce simp: Done_iff free_chars_le split: if_splits Option.bind_splits
        dest: free_bin_le release_le elim: map_le_trans)
next
  case (5 fuel k p es h)
  then show ?case
    by (auto simp: Done_iff split: Option.bind_splits) (blast dest: release_le intro: map_le_trans)
next
  case (8 fuel p ps h)
  then show ?case by (auto simp: Done_iff) (blast intro: map_le_trans)
qed simp_all

lemma destroy_gone:
  "(k, p) \<in> set es \<Longrightarrow> hp_cells h k = None \<Longrightarrow> cb_destroy_entries fuel es h \<noteq> Done h'"
proof (induction es arbitrary: fuel h)
  case (Cons e es)
  obtain k' p' where e: "e = (k', p')" by force
  have gone: "hp_cells h2 k = None" if "hp_cells h2 \<subseteq>\<^sub>m hp_cells h1" "hp_cells h1 k = None" for h1 h2
    using that by (metis domIff in_heap option.exhaust)
  show ?case
  proof
    assume run: "cb_destroy_entries fuel (e # es) h = Done h'"
    then obtain fu where fu: "fuel = Suc fu" by (cases fuel) (auto simp: e)
    obtain h1 h2 a h3 where h: "release k' h = Some h1" "cb_destroy_value fu p' h1 = Done h2"
        "release a h2 = Some h3" "cb_destroy_entries fu es h3 = Done h'" and k': "key_at h k' \<noteq> None"
      using run by (auto simp: e fu Done_iff split: Option.bind_splits)
    have "hp_cells h3 k = None"
      using gone [OF release_le [OF h(3)] gone [OF destroy_le(1) [OF h(2)] gone [OF release_le [OF h(1)] Cons.prems(2)]]] .
    moreover have "k \<noteq> k'" using k' Cons.prems(2) by (auto simp: key_at_def)
    ultimately show False using Cons.IH [of h3 fu] h(4) Cons.prems(1) e by simp
  qed
qed simp

lemma view_new:
  assumes "map_view h es = Some view" "heap_ok h"
  shows "map_view (snd (new_cell c h)) es = Some view"
proof -
  have "k \<noteq> hp_next h" if "(k, p) \<in> set es" for k p
  proof -
    have "key_at h k \<noteq> None" using view_gone [OF that, of h] assms(1) by force
    then have "k \<in> dom (hp_cells h)" by (auto simp: key_at_def split: option.splits)
    then show ?thesis using assms(2) by (auto simp: heap_ok_def)
  qed
  then show ?thesis using view_past_new [of es h c] assms(1) by simp
qed

lemma snd_in_insert: "(s, kp) \<in> set (std_insert s kp view)" if "std_find s view = None"
  using that by (induction s kp view rule: std_insert.induct) (auto simp: std_find_def)

text \<open>
  Asking a document for an integer it does not have is answered with 0, and leaves the document
  unusable: the look-up has filed the address of its local string as a key, so no later search has a
  defined result, and neither saving nor destroying the document ever finishes.
\<close>
lemma missing_key_ruins_document:
  assumes "heap_ok h" "entries_at h m = Some es" "map_view h es = Some view" "std_find (c_str s) view = None"
  shows "\<exists>h'. object_int s (Some m) h = Some (0, h') \<and> isExist t (Some m) h' = None
     \<and> (\<forall>A fuel xs. cb_save A fuel (Some m) h' \<noteq> Done xs)
     \<and> (\<forall>fuel h''. bson_obj_map_destroy fuel (Some m) h' \<noteq> Done h'')"
proof -
  let ?k = "hp_next h" and ?h = "snd (new_cell (C_str s) h)"
  let ?es = "map snd (std_insert (c_str s) (?k, None) view)"
  let ?h' = "drop_cell ?k (set_cell m (C_map ?es) ?h)"
  have m: "m \<noteq> ?k" using assms(1,2) by (auto simp: heap_ok_def entries_at_def split: option.splits)
  then have "entries_at ?h m = Some es" using assms(2) by (simp add: entries_at_def new_cell_def)
  have k: "(?k, None) \<in> set ?es" using snd_in_insert [OF assms(4), of "(?k, None)"] by force
  have gone: "hp_cells ?h' ?k = None" "key_at ?h' ?k = None" by (simp_all add: drop_cell_def key_at_def)
  have entries: "entries_at ?h' m = Some ?es" using m by (simp add: entries_at_def drop_cell_def set_cell_def)
  have "object_int s (Some m) h = Some (0, ?h')"
    using assms(2,4) view_new [OF assms(3,1), of "C_str s"]
    by (simp add: object_int_def getElementValue_def case_prod_beta Let_def)
  moreover have "isExist t (Some m) ?h' = None"
    using entries view_gone [OF k gone(2)] by (simp add: isExist_def)
  moreover have "cb_save A fuel (Some m) ?h' \<noteq> Done xs" for A fuel xs
    using entries save_gone [OF k gone(2)] by (simp add: cb_save_def Done_iff)
  moreover have "bson_obj_map_destroy fuel (Some m) ?h' \<noteq> Done h''" for fuel h''
    using entries destroy_gone [OF k gone(1)] by (simp add: bson_obj_map_destroy_def Done_iff)
  ultimately show ?thesis by blast
qed

lemma missing_key_ruins_document_instance:
  "\<exists>h'. object_int [0x61] (Some 0) \<lparr>hp_cells = [0 \<mapsto> C_map []], hp_next = 1\<rparr> = Some (0, h')
     \<and> isExist [0x62] (Some 0) h' = None
     \<and> (\<forall>A fuel xs. cb_save A fuel (Some 0) h' \<noteq> Done xs)
     \<and> (\<forall>fuel h''. bson_obj_map_destroy fuel (Some 0) h' \<noteq> Done h'')"
  by (rule missing_key_ruins_document [of _ _ "[]" "[]"])
    (simp_all add: heap_ok_def entries_at_def map_view_def std_find_def)

section \<open>Storing and looking up\<close>

text \<open>What a document has under a key.\<close>

definition member :: "byte list \<Rightarrow> nat \<Rightarrow> cb_heap \<Rightarrow> nat option option" where
  "member t m h = do {
     es \<leftarrow> entries_at h m;
     view \<leftarrow> map_view h es;
     map_option snd (std_find (c_str t) view) }"

lemma those_Some_iff: "those xs = Some ys \<longleftrightarrow> xs = map Some ys"
  by (induction xs arbitrary: ys) (auto split: option.splits)

lemma view_of_entries:
  assumes "\<forall>(s, k, p) \<in> set view. key_at h k = Some s"
  shows "map_view h (map snd view) = Some view"
  using assms by (induction view) (auto simp: map_view_def)

lemma view_keys: "map_view h es = Some view \<Longrightarrow> (s, k, p) \<in> set view \<Longrightarrow> key_at h k = Some s"
  unfolding map_view_def those_Some_iff by (induction es arbitrary: view) auto

lemma getElement_member:
  assumes "member t m h = Some p" "heap_ok h"
  obtains h' where "getElementValue t (Some m) h = Some (p, h')"
proof -
  obtain es view k where m: "entries_at h m = Some es" "map_view h es = Some view"
      "std_find (c_str t) view = Some (k, p)"
    using assms(1) by (auto simp: member_def split: Option.bind_splits)
  then show ?thesis using that view_new [OF m(2) assms(2), of "C_str t"]
    by (simp add: getElementValue_def Let_def case_prod_beta)
qed

text \<open>\<open>document h m\<close>: at \<open>m\<close> is a map whose keys are live and ascend.\<close>

definition document :: "cb_heap \<Rightarrow> nat \<Rightarrow> bool" where
  "document h m \<longleftrightarrow> heap_ok h \<and> (\<exists>es view. entries_at h m = Some es \<and> map_view h es = Some view \<and> ordered view)"

lemma document_new:
  assumes "document h m"
  shows "document (snd (new_cell c h)) m" "member t m (snd (new_cell c h)) = member t m h"
proof -
  obtain es view where d: "heap_ok h" "entries_at h m = Some es" "map_view h es = Some view" "ordered view"
    using assms by (auto simp: document_def)
  then have "m \<noteq> hp_next h" by (auto simp: heap_ok_def entries_at_def split: option.splits)
  then have es: "entries_at (snd (new_cell c h)) m = Some es" using d(2) by (simp add: entries_at_def new_cell_def)
  have "heap_ok (snd (new_cell c h))" using d(1) by (auto simp: heap_ok_def new_cell_def less_Suc_eq)
  then show "document (snd (new_cell c h)) m" "member t m (snd (new_cell c h)) = member t m h"
    using es d view_new [OF d(3,1), of c] by (auto simp: document_def member_def)
qed

text \<open>A document is a dictionary of its keys: the store is found, and nothing else changes.\<close>

lemma stored_element_found:
  assumes "document h m"
  obtains h' where "setElementValue s e (Some m) h = Some h'" "document h' m"
    "\<And>t. member t m h' = (if c_str t = c_str s then Some e else member t m h)"
    "\<And>a. a \<noteq> m \<Longrightarrow> a \<noteq> hp_next h \<Longrightarrow> hp_cells h' a = hp_cells h a"
proof -
  let ?k = "hp_next h" and ?h = "snd (new_cell (C_str s) h)"
  obtain es view where h: "heap_ok h" "entries_at h m = Some es" "map_view h es = Some view" "ordered view"
    using assms by (auto simp: document_def)
  let ?view = "case std_find (c_str s) view of
      Some (k', _) \<Rightarrow> std_assign (c_str s) (k', e) view | None \<Rightarrow> std_insert (c_str s) (?k, e) view"
  let ?h' = "set_cell m (C_map (map snd ?view)) ?h"
  have m: "m \<noteq> ?k" using h(1,2) by (auto simp: heap_ok_def entries_at_def split: option.splits)
  then have es: "entries_at ?h m = Some es" using h(2) by (simp add: entries_at_def new_cell_def)
  have k: "key_at ?h ?k = Some (c_str s)" by (simp add: key_at_def new_cell_def)
  note view = view_new [OF h(3,1), of "C_str s"]
  have set: "setElementValue s e (Some m) h = Some ?h'"
    using es k view
    by (simp add: setElementValue_def map_assign_def map_put_def Let_def case_prod_beta cong: option.case_cong)
  have "\<not> (\<exists>str. hp_cells ?h m = Some (C_str str))" using es by (auto simp: entries_at_def split: option.splits)
  then have key: "key_at ?h' j = key_at ?h j" if "key_at ?h j \<noteq> None" for j
    using that by (auto simp: key_at_def set_cell_def split: option.splits cell.splits)
  have "key_at ?h' j = Some str" if "(str, j, p) \<in> set ?view" for str j p
  proof -
    have "(str, j, p) \<in> set view \<or> (str = c_str s \<and> key_at ?h j = Some (c_str s))"
    proof (cases "std_find (c_str s) view")
      case None
      then show ?thesis using that k set_insert [of "c_str s" "(?k, e)" view] by auto
    next
      case (Some kp)
      obtain j' p' where kp: "kp = (j', p')" by force
      have "key_at ?h j' = Some (c_str s)" using view_keys [OF view] find_in_set [OF Some] kp by blast
      then show ?thesis using that Some kp set_assign [of "c_str s" "(j', e)" view] by auto
    qed
    then have "key_at ?h j = Some str" using view_keys [OF view] by auto
    then show ?thesis using key [of j] by simp
  qed
  then have view': "map_view ?h' (map snd ?view) = Some ?view" by (intro view_of_entries) blast
  have es': "entries_at ?h' m = Some (map snd ?view)" by (simp add: entries_at_def set_cell_def)
  have "ordered ?view" using h(4) by (auto simp: std.inv_ops split: option.split)
  moreover have "heap_ok ?h'" using h(1) m
    by (auto simp: heap_ok_def new_cell_def set_cell_def entries_at_def less_Suc_eq split: if_splits)
      (use h(1,2) in \<open>auto simp: heap_ok_def entries_at_def split: option.splits\<close>)
  ultimately have "document ?h' m" using view' es' unfolding document_def by blast
  moreover have "member t m ?h' = (if c_str t = c_str s then Some e else member t m h)" for t
  proof -
    have "map_option snd (std_find (c_str t) ?view)
        = (if c_str t = c_str s then Some e else map_option snd (std_find (c_str t) view))"
      using std.find_upd [OF h(4)] std.find_ins [OF h(4)] by (auto split: option.split)
    then show ?thesis using h(2,3) view' es' by (simp add: member_def)
  qed
  moreover have "hp_cells ?h' a = hp_cells h a" if "a \<noteq> m" "a \<noteq> ?k" for a
    using that by (simp add: set_cell_def new_cell_def)
  ultimately show ?thesis using set by (intro that)
qed

text \<open>
  An integer that is stored in a document is read back, whatever the document held under the key,
  and every other key still leads to the object it led to.
\<close>
lemma stored_integer_is_read_back:
  assumes "document h m"
  shows "\<exists>h' h''. object_setInt s i (Some m) h = Some h' \<and> document h' m
     \<and> object_int s (Some m) h' = Some (i, h'')
     \<and> (\<forall>t. c_str t \<noteq> c_str s \<longrightarrow> member t m h' = member t m h)"
proof -
  let ?a = "hp_next h" and ?h = "snd (new_cell (C_obj BSON_INT (U_bits (ucast i))) h)"
  obtain h' where h': "setElementValue s (Some ?a) (Some m) ?h = Some h'" "document h' m"
      "\<And>t. member t m h' = (if c_str t = c_str s then Some (Some ?a) else member t m ?h)"
      "\<And>a. a \<noteq> m \<Longrightarrow> a \<noteq> hp_next ?h \<Longrightarrow> hp_cells h' a = hp_cells ?h a"
    by (rule stored_element_found [OF document_new(1) [OF assms]]) blast
  have m: "m \<noteq> ?a" using assms by (auto simp: document_def heap_ok_def entries_at_def split: option.splits)
  have "heap_ok h'" "member s m h' = Some (Some ?a)" using h'(2,3) by (auto simp: document_def)
  then obtain h'' where look: "getElementValue s (Some m) h' = Some (Some ?a, h'')"
    by (elim getElement_member)
  have "hp_cells h' ?a = Some (C_obj BSON_INT (U_bits (ucast i)))"
    using h'(4) [of ?a] m by (simp add: new_cell_def)
  moreover have "hp_cells h'' ?a = hp_cells h' ?a"
    using look calculation \<open>heap_ok h'\<close>
    by (auto simp: getElementValue_def Let_def case_prod_beta drop_cell_def new_cell_def set_cell_def heap_ok_def
        split: Option.bind_splits option.splits if_splits)
  ultimately have "object_int s (Some m) h' = Some (i, h'')"
    using look by (simp add: object_int_def element_int_def obj_at_def as_int_def as_bits_def)
  moreover have "object_setInt s i (Some m) h = Some h'"
    using h'(1) by (simp add: object_setInt_def createIntElement_def case_prod_beta)
  moreover have "member t m h' = member t m h" if "c_str t \<noteq> c_str s" for t
    using that h'(3) document_new(2) [OF assms] by simp
  ultimately show ?thesis using h'(2) by blast
qed

lemma stored_integer_is_read_back_instance:
  "\<exists>h' h''. object_setInt [0x61] 7 (Some 0) \<lparr>hp_cells = [0 \<mapsto> C_map []], hp_next = 1\<rparr> = Some h' \<and> document h' 0
     \<and> object_int [0x61] (Some 0) h' = Some (7, h'')
     \<and> (\<forall>t. c_str t \<noteq> c_str [0x61] \<longrightarrow> member t 0 h' = member t 0 \<lparr>hp_cells = [0 \<mapsto> C_map []], hp_next = 1\<rparr>)"
  by (rule stored_integer_is_read_back)
    (simp add: document_def heap_ok_def entries_at_def map_view_def)

end
