(* ===== verification/CBson_Typing.thy ===== *)
theory CBson_Typing
  imports CBson_Facts
begin

text \<open>
  The tags of the linked objects are true: in every heap that parsing and the setters build, a pointer
  in a union is null or leads to an object of the kind its tag says, whatever bytes were parsed.
\<close>

section \<open>Kinds of cells\<close>

datatype kind = K_obj bson_type | K_map | K_list | K_str | K_chars | K_bin | K_data

fun kind_of :: "cell \<Rightarrow> kind" where
  "kind_of (C_obj t u) = K_obj t"
| "kind_of (C_map es) = K_map"
| "kind_of (C_list ps) = K_list"
| "kind_of (C_str s) = K_str"
| "kind_of (C_chars s) = K_chars"
| "kind_of (C_bin d n) = K_bin"
| "kind_of (C_data xs) = K_data"

definition kinds :: "cb_heap \<Rightarrow> nat \<Rightarrow> kind option" where
  "kinds h a = map_option kind_of (hp_cells h a)"

text \<open>A pointer that is null or leads to an object of one kind; the kind a tag asks for.\<close>

definition points :: "(nat \<Rightarrow> kind option) \<Rightarrow> nat option \<Rightarrow> kind \<Rightarrow> bool" where
  "points K p k \<longleftrightarrow> (case p of None \<Rightarrow> True | Some a \<Rightarrow> K a = Some k)"

definition points_obj :: "(nat \<Rightarrow> kind option) \<Rightarrow> nat option \<Rightarrow> bool" where
  "points_obj K p \<longleftrightarrow> p = None \<or> (\<exists>t. points K p (K_obj t))"

definition tag_kind :: "bson_type \<Rightarrow> kind option" where
  "tag_kind t = (case t of BSON_STRING \<Rightarrow> Some K_chars | BSON_BINDATA \<Rightarrow> Some K_bin
     | BSON_OBJECT \<Rightarrow> Some K_map | BSON_ARRAY \<Rightarrow> Some K_list | _ \<Rightarrow> None)"

definition tag_ok :: "(nat \<Rightarrow> kind option) \<Rightarrow> bson_type \<Rightarrow> union_value \<Rightarrow> bool" where
  "tag_ok K t u = (case tag_kind t of
     None \<Rightarrow> as_bits u \<noteq> None
   | Some k \<Rightarrow> (case as_ptr u of None \<Rightarrow> False | Some p \<Rightarrow> points K p k))"

fun cell_ok :: "(nat \<Rightarrow> kind option) \<Rightarrow> cell \<Rightarrow> bool" where
  "cell_ok K (C_obj t u) = tag_ok K t u"
| "cell_ok K (C_map es) = (\<forall>(k, p) \<in> set es. K k = Some K_str \<and> points_obj K p)"
| "cell_ok K (C_list ps) = (\<forall>p \<in> set ps. points_obj K p)"
| "cell_ok K (C_bin d n) = points K d K_data"
| "cell_ok K c = True"

definition typed :: "cb_heap \<Rightarrow> bool" where
  "typed h \<longleftrightarrow> heap_ok h \<and> (\<forall>a c. hp_cells h a = Some c \<longrightarrow> cell_ok (kinds h) c)"

lemma typed_cell: "typed h \<Longrightarrow> hp_cells h a = Some c \<Longrightarrow> cell_ok (kinds h) c"
  by (simp add: typed_def)

text \<open>\<open>extends h h'\<close>: the objects of \<open>h\<close> are still there, with their kinds.\<close>

definition extends :: "cb_heap \<Rightarrow> cb_heap \<Rightarrow> bool" where
  "extends h h' \<longleftrightarrow> kinds h \<subseteq>\<^sub>m kinds h'"

lemma extends_refl [simp]: "extends h h"
  by (simp add: extends_def)

lemma extends_trans [trans]: "extends h h1 \<Longrightarrow> extends h1 h2 \<Longrightarrow> extends h h2"
  unfolding extends_def by (rule map_le_trans)

lemma extends_kind: "extends h h' \<Longrightarrow> kinds h a = Some k \<Longrightarrow> kinds h' a = Some k"
  by (auto simp: extends_def map_le_def dom_def)

lemma points_mono: "extends h h' \<Longrightarrow> points (kinds h) p k \<Longrightarrow> points (kinds h') p k"
  by (auto simp: points_def extends_kind split: option.splits)

lemma points_obj_mono: "extends h h' \<Longrightarrow> points_obj (kinds h) p \<Longrightarrow> points_obj (kinds h') p"
  unfolding points_obj_def using points_mono by blast

lemma cell_ok_mono: "extends h h' \<Longrightarrow> cell_ok (kinds h) c \<Longrightarrow> cell_ok (kinds h') c"
  by (cases c) (auto simp: tag_ok_def points_mono points_obj_mono extends_kind split: option.splits)

lemma kinds_new: "kinds (snd (new_cell c h)) = (kinds h)(hp_next h \<mapsto> kind_of c)"
  by (auto simp: kinds_def new_cell_def)

lemma kinds_set: "kinds (set_cell a c h) = (kinds h)(a \<mapsto> kind_of c)"
  by (auto simp: kinds_def set_cell_def)

lemma next_free: "heap_ok h \<Longrightarrow> kinds h (hp_next h) = None"
  by (auto simp: heap_ok_def kinds_def)

lemma extends_new: "typed h \<Longrightarrow> extends h (snd (new_cell c h))"
  using next_free [of h] by (auto simp: extends_def kinds_new typed_def map_le_def dom_def)

lemma typed_new:
  assumes "typed h" "cell_ok (kinds h) c"
  shows "typed (snd (new_cell c h))"
  unfolding typed_def
proof (intro conjI allI impI)
  show "heap_ok (snd (new_cell c h))"
    using assms(1) by (auto simp: typed_def heap_ok_def new_cell_def less_Suc_eq)
  fix a c' assume "hp_cells (snd (new_cell c h)) a = Some c'"
  then have "cell_ok (kinds h) c'"
    using assms by (auto simp: typed_def new_cell_def split: if_splits)
  then show "cell_ok (kinds (snd (new_cell c h))) c'" by (rule cell_ok_mono [OF extends_new [OF assms(1)]])
qed

lemma typed_set:
  assumes "typed h" "cell_ok (kinds h) c" "kinds h a = Some (kind_of c)"
  shows "typed (set_cell a c h) \<and> kinds (set_cell a c h) = kinds h"
proof -
  have same: "kinds (set_cell a c h) = kinds h" using assms(3) by (auto simp: kinds_set)
  moreover have "heap_ok (set_cell a c h)"
    using assms(1,3) by (auto simp: typed_def heap_ok_def set_cell_def kinds_def)
  moreover have "cell_ok (kinds h) c'" if "hp_cells (set_cell a c h) a' = Some c'" for a' c'
    using that assms(1,2) by (auto simp: typed_def set_cell_def split: if_splits)
  ultimately show ?thesis by (simp add: typed_def)
qed

section \<open>Parsing\<close>

text \<open>\<open>goes h h'\<close>: a well-typed heap stays well typed and keeps its objects.\<close>

definition goes :: "cb_heap \<Rightarrow> cb_heap \<Rightarrow> bool" where
  "goes h h' \<longleftrightarrow> (typed h \<longrightarrow> typed h' \<and> extends h h')"

lemma goes_refl [simp]: "goes h h"
  by (simp add: goes_def)

lemma goes_trans: "goes h h1 \<Longrightarrow> goes h1 h2 \<Longrightarrow> goes h h2"
  unfolding goes_def using extends_trans by blast

lemma goes_new: "(typed h \<Longrightarrow> cell_ok (kinds h) c) \<Longrightarrow> goes h (snd (new_cell c h))"
  using typed_new extends_new by (auto simp: goes_def)

lemma goes_kind: "goes h h' \<Longrightarrow> typed h \<Longrightarrow> kinds h a = Some k \<Longrightarrow> kinds h' a = Some k"
  using extends_kind by (auto simp: goes_def)

lemma kinds_obj_at: "obj_at h (Some r) = Some (t, u) \<Longrightarrow> kinds h r = Some (K_obj t)"
  by (auto simp: obj_at_def kinds_def split: option.splits cell.splits)

lemma goes_store:
  assumes "store_value r u h = Some h'" "typed h" "kinds h r = Some (K_obj t)" "tag_ok (kinds h) t u"
  shows "goes h h'"
proof -
  obtain t' u' where r: "obj_at h (Some r) = Some (t', u')" "h' = set_cell r (C_obj t' u) h"
    using assms(1) by (auto simp: store_value_def)
  then have "t' = t" using kinds_obj_at [OF r(1)] assms(3) by simp
  then show ?thesis using typed_set [of h "C_obj t u" r] assms r(2) by (simp add: goes_def extends_def)
qed

lemma goes_assign:
  assumes "map_assign m k p h = Some h'" "typed h" "kinds h k = Some K_str" "points_obj (kinds h) p"
  shows "goes h h'"
proof -
  obtain es es' where es: "entries_at h m = Some es" "map_put h k p es = Some es'" "h' = set_cell m (C_map es') h"
    using assms(1) by (auto simp: map_assign_def split: Option.bind_splits)
  then have m: "hp_cells h m = Some (C_map es)" by (auto simp: entries_at_def split: option.splits cell.splits)
  then have old: "cell_ok (kinds h) (C_map es)" using typed_cell [OF assms(2)] by blast
  obtain s view where view: "map_view h es = Some view" and put: "es' = map snd (case std_find s view of
        Some (k', _) \<Rightarrow> std_assign s (k', p) view | None \<Rightarrow> std_insert s (k, p) view)"
    using es(2) by (auto simp: map_put_def split: Option.bind_splits)
  have "set (map snd view) = set es"
  proof -
    have "map snd view = es" using view
    proof (induction es arbitrary: view)
      case (Cons e es)
      then show ?case by (cases e) (auto simp: map_view_def split: option.splits)
    qed (simp add: map_view_def)
    then show ?thesis by simp
  qed
  moreover have "set es' \<subseteq> insert (k, p) (set (map snd view)) \<union> {(k', p) | k'. \<exists>p'. (k', p') \<in> set (map snd view)}"
  proof (cases "std_find s view")
    case None
    then show ?thesis using put set_insert [of s "(k, p)" view] by auto
  next
    case (Some kp)
    obtain k' p' where kp: "kp = (k', p')" by force
    have "(k', p') \<in> set (map snd view)" using find_in_set [OF Some] kp by force
    then show ?thesis using put Some kp set_assign [of s "(k', p)" view] by fastforce
  qed
  ultimately have "cell_ok (kinds h) (C_map es')" using old assms(3,4) by fastforce
  then show ?thesis using typed_set [of h "C_map es'" m] assms(2) es(3) m
    by (simp add: goes_def extends_def kinds_def)
qed

lemma goes_push:
  assumes "push_back l p h = Some h'" "typed h" "points_obj (kinds h) p"
  shows "goes h h'"
proof -
  obtain ps where l: "hp_cells h l = Some (C_list ps)" "h' = set_cell l (C_list (ps @ [p])) h"
    using assms(1) by (auto simp: push_back_def items_at_def split: option.splits cell.splits)
  have "cell_ok (kinds h) (C_list ps)" using typed_cell [OF assms(2) l(1)] .
  then show ?thesis using typed_set [of h "C_list (ps @ [p])" l] assms l
    by (simp add: goes_def extends_def kinds_def)
qed

lemma goes_leaf:
  assumes "cb_parse_leaf it t h = Some (u, h')" "typed h"
  shows "goes h h' \<and> tag_ok (kinds h') t u"
proof (cases t)
  case BSON_STRING
  then obtain s where s: "h' = snd (new_cell (C_chars s) h)" "u = U_ptr (hp_next h)"
    using assms(1) by (auto simp: cb_parse_leaf_def case_prod_beta)
  then show ?thesis using BSON_STRING goes_new [of h "C_chars s"]
    by (simp add: tag_ok_def tag_kind_def as_ptr_def points_def kinds_new)
next
  case BSON_BINDATA
  then obtain xs n where s: "h' = snd (new_cell (C_bin (Some (hp_next h)) n) (snd (new_cell (C_data xs) h)))"
      "u = U_ptr (hp_next (snd (new_cell (C_data xs) h)))"
    using assms(1) by (auto simp: cb_parse_leaf_def case_prod_beta Let_def split: Option.bind_splits)
  have "goes h (snd (new_cell (C_data xs) h))" by (rule goes_new) simp
  moreover have "goes (snd (new_cell (C_data xs) h)) h'" unfolding s(1)
    by (rule goes_new) (simp add: points_def kinds_new)
  ultimately show ?thesis using BSON_BINDATA s
    by (simp add: tag_ok_def tag_kind_def as_ptr_def points_def kinds_new) (blast intro: goes_trans)
qed (use assms in \<open>auto simp: cb_parse_leaf_def tag_ok_def tag_kind_def as_bits_def as_ptr_def points_def\<close>)

lemma goes_container:
  assumes h: "typed h" and run: "goes (snd (new_cell c (snd (new_cell (C_obj t (U_bits 0)) h)))) h1"
    and store: "store_value (hp_next h) (U_ptr (Suc (hp_next h))) h1 = Some h'"
    and c: "cell_ok (kinds (snd (new_cell (C_obj t (U_bits 0)) h))) c" "tag_kind t = Some (kind_of c)"
  shows "goes h h' \<and> kinds h' (hp_next h) = Some (K_obj t)"
proof -
  let ?r = "hp_next h" and ?h1 = "snd (new_cell (C_obj t (U_bits 0)) h)"
  let ?h2 = "snd (new_cell c ?h1)"
  have g1: "goes h ?h1" by (rule goes_new) (use c(2) in \<open>simp add: tag_ok_def as_ptr_def points_def\<close>)
  then have t1: "typed ?h1" using h by (simp add: goes_def)
  have g2: "goes ?h1 ?h2" by (rule goes_new) (rule c(1))
  then have t2: "typed ?h2" using t1 by (simp add: goes_def)
  have t3: "typed h1" using run t2 by (simp add: goes_def)
  have r: "kinds h1 ?r = Some (K_obj t)"
    by (rule goes_kind [OF run t2]) (simp add: kinds_def new_cell_def)
  have m: "kinds h1 (Suc ?r) = Some (kind_of c)"
    by (rule goes_kind [OF run t2]) (simp add: kinds_def new_cell_def)
  have g3: "goes h1 h'"
    by (rule goes_store [OF store t3 r]) (use c(2) m in \<open>simp add: tag_ok_def as_ptr_def points_def\<close>)
  show ?thesis
    using goes_trans [OF goes_trans [OF g1 g2] goes_trans [OF run g3]] goes_kind [OF g3 t3 r] by blast
qed

text \<open>The three functions of the parser under a bound on the fuel.\<close>

definition value_goes :: "nat \<Rightarrow> bool" where
  "value_goes fuel \<longleftrightarrow> (\<forall>it h a h'. cb_parse_value fuel it h = Done (a, h') \<longrightarrow> typed h \<longrightarrow>
     goes h h' \<and> (\<exists>t. kinds h' a = Some (K_obj t)))"

definition loop_goes :: "nat \<Rightarrow> bool" where
  "loop_goes fuel \<longleftrightarrow> (\<forall>it m h h'. cb_parse_loop fuel it m h = Done h' \<longrightarrow> typed h \<longrightarrow> goes h h')"

definition items_go :: "nat \<Rightarrow> bool" where
  "items_go fuel \<longleftrightarrow> (\<forall>it l h h'. cb_parse_items fuel it l h = Done h' \<longrightarrow> typed h \<longrightarrow> goes h h')"

lemma typed_zero: "typed h \<Longrightarrow> typed (snd (new_cell (C_obj t (U_bits 0)) h))"
  by (erule typed_new) (simp add: tag_ok_def as_bits_def as_ptr_def points_def split: option.split)

lemma value_goes_step:
  assumes loops: "loop_goes fuel" "items_go fuel"
    and run: "cb_parse_value (Suc fuel) it h = Done (a, h')" and h: "typed h"
  shows "goes h h' \<and> (\<exists>t. kinds h' a = Some (K_obj t))"
proof -
  obtain t where t: "bson_iterator_type it = Some t" using run by (cases "bson_iterator_type it") auto
  let ?r = "snd (new_cell (C_obj t (U_bits 0)) h)"
  note loop = loops(1) [unfolded loop_goes_def, rule_format] and items = loops(2) [unfolded items_go_def, rule_format]
  note zero = typed_zero
  consider "t = BSON_OBJECT" | "t = BSON_ARRAY" | "t \<noteq> BSON_OBJECT" "t \<noteq> BSON_ARRAY" by blast
  then show ?thesis
  proof cases
    case 1
    obtain sub h1 where run': "cb_parse_loop fuel sub (Suc (hp_next h)) (snd (new_cell (C_map []) (?r))) = Done h1"
        "store_value (hp_next h) (U_ptr (Suc (hp_next h))) h1 = Some h'" "a = hp_next h"
      using run t 1 by (auto simp: Done_iff Let_def case_prod_beta new_cell_def)
    have "goes (snd (new_cell (C_map []) (?r))) h1"
      by (rule loop [OF run'(1) typed_new [OF zero [OF h]]]) simp
    from goes_container [OF h this run'(2)] show ?thesis using 1 run'(3) by (simp add: tag_kind_def)
  next
    case 2
    obtain sub h1 where run': "cb_parse_items fuel sub (Suc (hp_next h)) (snd (new_cell (C_list []) (?r))) = Done h1"
        "store_value (hp_next h) (U_ptr (Suc (hp_next h))) h1 = Some h'" "a = hp_next h"
      using run t 2 by (auto simp: Done_iff Let_def case_prod_beta new_cell_def)
    have "goes (snd (new_cell (C_list []) (?r))) h1"
      by (rule items [OF run'(1) typed_new [OF zero [OF h]]]) simp
    from goes_container [OF h this run'(2)] show ?thesis using 2 run'(3) by (simp add: tag_kind_def)
  next
    case 3
    obtain u h1 where run': "cb_parse_leaf it t (?r) = Some (u, h1)"
        "store_value (hp_next h) u h1 = Some h'" "a = hp_next h"
      using run t 3 by (auto simp: Done_iff Let_def case_prod_beta)
    note leaf = goes_leaf [OF run'(1) zero [OF h]]
    have typed: "typed h1" using leaf zero [OF h] by (auto simp: goes_def)
    have r: "kinds h1 (hp_next h) = Some (K_obj t)"
      by (rule goes_kind [OF conjunct1 [OF leaf] zero [OF h]]) (simp add: kinds_def new_cell_def)
    have st: "goes h1 h'" by (rule goes_store [OF run'(2) typed r]) (use leaf in blast)
    have "goes h (?r)" using zero [OF h] extends_new [OF h] by (simp add: goes_def)
    then have "goes h h'" using goes_trans [OF _ goes_trans [OF conjunct1 [OF leaf] st]] by blast
    then show ?thesis using goes_kind [OF st typed r] run'(3) by blast
  qed
qed

lemma loop_goes_step:
  assumes fuel: "value_goes fuel" "loop_goes fuel"
    and run: "cb_parse_loop (Suc fuel) it m h = Done h'" and h: "typed h"
  shows "goes h h'"
proof -
  note val = fuel(1) [unfolded value_goes_def, rule_format] and loop = fuel(2) [unfolded loop_goes_def, rule_format]
  obtain t it' where n: "bson_iterator_next it = Some (t, it')" using run by (auto simp: Done_iff)
  show ?thesis
  proof (cases "t = BSON_EOO")
    case True
    then show ?thesis using run n by simp
  next
    case False
    then obtain v h1 key h2 where run': "cb_parse_value fuel it' h = Done (v, h1)"
        "map_assign m (hp_next h1) (Some v) (snd (new_cell (C_str key) h1)) = Some h2"
        "cb_parse_loop fuel it' m h2 = Done h'"
      using run n by (auto simp: Done_iff Let_def case_prod_beta)
    obtain tv where v: "goes h h1" "kinds h1 v = Some (K_obj tv)" using val [OF run'(1) h] by blast
    have t1: "typed h1" using v(1) h by (simp add: goes_def)
    have k: "goes h1 (snd (new_cell (C_str key) h1))" by (rule goes_new) simp
    then have t2: "typed (snd (new_cell (C_str key) h1))" using t1 by (simp add: goes_def)
    have put: "goes (snd (new_cell (C_str key) h1)) h2"
    proof (rule goes_assign [OF run'(2) t2])
      show "points_obj (kinds (snd (new_cell (C_str key) h1))) (Some v)"
        using goes_kind [OF k t1 v(2)] by (auto simp: points_obj_def points_def)
    qed (simp add: kinds_new)
    then have "typed h2" using t2 by (simp add: goes_def)
    from loop [OF run'(3) this] show ?thesis
      using goes_trans [OF goes_trans [OF v(1) k] goes_trans [OF put]] by blast
  qed
qed

lemma items_go_step:
  assumes fuel: "value_goes fuel" "items_go fuel"
    and run: "cb_parse_items (Suc fuel) it l h = Done h'" and h: "typed h"
  shows "goes h h'"
proof -
  note val = fuel(1) [unfolded value_goes_def, rule_format] and items = fuel(2) [unfolded items_go_def, rule_format]
  obtain t it' where n: "bson_iterator_next it = Some (t, it')" using run by (auto simp: Done_iff)
  show ?thesis
  proof (cases "t = BSON_EOO")
    case True
    then show ?thesis using run n by simp
  next
    case False
    then obtain v h1 h2 where run': "cb_parse_value fuel it' h = Done (v, h1)"
        "push_back l (Some v) h1 = Some h2" "cb_parse_items fuel it' l h2 = Done h'"
      using run n by (auto simp: Done_iff)
    obtain tv where v: "goes h h1" "kinds h1 v = Some (K_obj tv)" using val [OF run'(1) h] by blast
    have t1: "typed h1" using v(1) h by (simp add: goes_def)
    have push: "goes h1 h2"
      by (rule goes_push [OF run'(2) t1]) (use v(2) in \<open>auto simp: points_obj_def points_def\<close>)
    then have "typed h2" using t1 by (simp add: goes_def)
    from items [OF run'(3) this] show ?thesis using goes_trans [OF v(1) goes_trans [OF push]] by blast
  qed
qed

lemma goes_parse: "value_goes fuel \<and> loop_goes fuel \<and> items_go fuel"
proof (induction fuel)
  case 0
  show ?case by (simp add: value_goes_def loop_goes_def items_go_def)
next
  case (Suc fuel)
  then have ih: "value_goes fuel" "loop_goes fuel" "items_go fuel" by simp_all
  show ?case
    unfolding value_goes_def [of "Suc fuel"] loop_goes_def [of "Suc fuel"] items_go_def [of "Suc fuel"]
    using value_goes_step [OF ih(2,3)] loop_goes_step [OF ih(1,2)] items_go_step [OF ih(1,3)] by blast
qed

section \<open>The heaps of a client\<close>

lemma goes_cb_parse:
  assumes "cb_parse fuel buff h = Done (m, h')" "typed h"
  shows "goes h h' \<and> kinds h' m = Some K_map"
proof -
  let ?h = "snd (new_cell (C_map []) h)"
  have new: "goes h ?h" by (rule goes_new) simp
  then have h: "typed ?h" using assms(2) by (simp add: goes_def)
  have run: "cb_parse_loop fuel (bson_iterator_from_buffer buff 0) (hp_next h) ?h = Done h'" "m = hp_next h"
    using assms(1) by (auto simp: cb_parse_def Done_iff Let_def case_prod_beta)
  have loop: "goes ?h h'" using goes_parse run(1) h unfolding loop_goes_def by blast
  then show ?thesis
    using goes_trans [OF new] goes_kind [OF loop h, of m K_map] run(2) by (simp add: kinds_new)
qed

lemma goes_setElement:
  assumes "setElementValue s e ob h = Some h'" "typed h" "points_obj (kinds h) e"
  shows "goes h h'"
proof -
  let ?h = "snd (new_cell (C_str s) h)"
  have new: "goes h ?h" by (rule goes_new) simp
  then have h: "typed ?h" using assms(2) by (simp add: goes_def)
  obtain m where "map_assign m (hp_next h) e ?h = Some h'"
    using assms(1) by (auto simp: setElementValue_def Let_def case_prod_beta split: Option.bind_splits)
  then have "goes ?h h'"
    by (rule goes_assign [OF _ h _ points_obj_mono [OF extends_new [OF assms(2)] assms(3)]]) (simp add: kinds_new)
  with new show ?thesis by (rule goes_trans)
qed

lemma goes_setNew:
  assumes "setElementValue s (Some (hp_next h)) ob (snd (new_cell (C_obj t u) h)) = Some h'" "typed h"
    and "tag_ok (kinds h) t u"
  shows "goes h h'"
proof -
  let ?h = "snd (new_cell (C_obj t u) h)"
  have new: "goes h ?h" by (rule goes_new) (simp add: assms(3))
  moreover have "goes ?h h'"
    by (rule goes_setElement [OF assms(1)]) (use new assms(2) in \<open>auto simp: goes_def points_obj_def points_def kinds_new\<close>)
  ultimately show ?thesis by (rule goes_trans)
qed

text \<open>
  What a client does with documents it does not destroy, asking only for keys they have; the
  documents, arrays and elements it passes are null or what they are declared as.
\<close>

inductive client :: "cb_heap \<Rightarrow> cb_heap \<Rightarrow> bool" where
  parse: "cb_parse fuel buff h = Done (m, h') \<Longrightarrow> client h h'"
| new_object: "object_createNew fuel None h = Done (ob, h') \<Longrightarrow> client h h'"
| new_array: "array_createNew h = (l, h') \<Longrightarrow> client h h'"
| set_int: "object_setInt s i ob h = Some h' \<Longrightarrow> client h h'"
| set_bool: "object_setBool s x ob h = Some h' \<Longrightarrow> client h h'"
| set_double: "object_setDouble s d ob h = Some h' \<Longrightarrow> client h h'"
| set_string: "object_setString s v ob h = Some h' \<Longrightarrow> client h h'"
| set_object: "object_setObject s v ob h = Some h' \<Longrightarrow> points (kinds h) v K_map \<Longrightarrow> client h h'"
| set_array: "object_setArray s v ob h = Some h' \<Longrightarrow> points (kinds h) v K_list \<Longrightarrow> client h h'"
| set_binary: "object_setBinary s bin ob h = Some h' \<Longrightarrow> client h h'"
| set_element: "setElementValue s e ob h = Some h' \<Longrightarrow> points_obj (kinds h) e \<Longrightarrow> client h h'"
| add_element: "array_addElement e l h = Some h' \<Longrightarrow> points_obj (kinds h) e \<Longrightarrow> client h h'"
| look: "getElementValue s ob h = Some (e, h') \<Longrightarrow> isExist s ob h = Some True \<Longrightarrow> client h h'"

lemma goes_new_eq: "new_cell c h = (a, h') \<Longrightarrow> (typed h \<Longrightarrow> cell_ok (kinds h) c) \<Longrightarrow> goes h h'"
  using goes_new [of h c] by simp

text \<open>A scratch cell that is made and given back leaves the cells as they are.\<close>

lemma goes_scratch: "heap_ok h \<Longrightarrow> goes h (drop_cell (hp_next h) (snd (new_cell c h)))"
proof -
  assume "heap_ok h"
  then have free: "hp_cells h (hp_next h) = None" by (auto simp: heap_ok_def)
  then have cells: "hp_cells (drop_cell (hp_next h) (snd (new_cell c h))) = hp_cells h"
    by (auto simp: drop_cell_def new_cell_def)
  then have "kinds (drop_cell (hp_next h) (snd (new_cell c h))) = kinds h" by (simp add: kinds_def fun_eq_iff)
  moreover have "hp_next (drop_cell (hp_next h) (snd (new_cell c h))) = Suc (hp_next h)"
    by (simp add: drop_cell_def new_cell_def)
  ultimately show ?thesis using cells
    by (auto simp: goes_def typed_def heap_ok_def extends_def less_Suc_eq)
qed

lemma map_view_new:
  assumes "typed h" "entries_at h m = Some es"
  shows "map_view (snd (new_cell c h)) es = map_view h es"
proof (rule view_past_new)
  have "cell_ok (kinds h) (C_map es)"
    using assms typed_cell [OF assms(1), of m] by (auto simp: entries_at_def split: option.splits cell.splits)
  then show "k \<noteq> hp_next h" if "(k, p) \<in> set es" for k p
    using that assms(1) next_free [of h] by (auto simp: typed_def)
qed

lemma goes_client: "client h h' \<Longrightarrow> goes h h'"
proof (induction rule: client.induct)
  case (parse fuel buff h m h')
  then show ?case using goes_cb_parse by (auto simp: goes_def)
next
  case (new_object fuel h ob h')
  then show ?case using goes_new [of h "C_map []"] by (auto simp: object_createNew_def Let_def case_prod_beta)
next
  case (new_array h l h')
  then show ?case using goes_new [of h "C_list []"] by (auto simp: array_createNew_def case_prod_beta)
next
  case (set_int s i ob h h')
  then show ?case using goes_setNew [of s h ob BSON_INT]
    by (auto simp: object_setInt_def createIntElement_def case_prod_beta tag_ok_def tag_kind_def as_bits_def goes_def)
next
  case (set_bool s x ob h h')
  then show ?case using goes_setNew [of s h ob BSON_BOOL]
    by (auto simp: object_setBool_def createBoolElement_def case_prod_beta tag_ok_def tag_kind_def as_bits_def goes_def)
next
  case (set_double s d ob h h')
  then show ?case using goes_setNew [of s h ob BSON_DOUBLE]
    by (auto simp: object_setDouble_def createDoubleElement_def case_prod_beta tag_ok_def tag_kind_def as_bits_def goes_def)
next
  case (set_string s v ob h h')
  let ?h = "snd (new_cell (C_chars (c_str v)) h)"
  have new: "goes h ?h" by (rule goes_new) simp
  have run: "setElementValue s (Some (hp_next ?h)) ob (snd (new_cell (C_obj BSON_STRING (U_ptr (hp_next h))) ?h)) = Some h'"
    using set_string by (simp add: object_setString_def createStringElement_def Let_def case_prod_beta)
  have "goes ?h h'" if "typed ?h"
    by (rule goes_setNew [OF run that]) (simp add: tag_ok_def tag_kind_def as_ptr_def points_def kinds_new)
  then show ?case using new goes_trans by (auto simp: goes_def)
next
  case (set_object s v ob h h')
  then show ?case using goes_setNew [of s h ob BSON_OBJECT "ptr_bits v"]
    by (auto simp: object_setObject_def createOBjectElement_def case_prod_beta tag_ok_def tag_kind_def as_ptr_def
        ptr_bits_def goes_def split: option.splits)
next
  case (set_array s v ob h h')
  then show ?case using goes_setNew [of s h ob BSON_ARRAY "ptr_bits v"]
    by (auto simp: object_setArray_def createArrayElement_def case_prod_beta tag_ok_def tag_kind_def as_ptr_def
        ptr_bits_def goes_def split: option.splits)
next
  case (set_binary s bin ob h h')
  then obtain xs where xs: "bin_bytes h bin = Some xs"
    by (auto simp: object_setBinary_def createBinaryElement_def split: Option.bind_splits)
  let ?h = "snd (new_cell (C_data xs) h)"
  let ?h2 = "snd (new_cell (C_bin (Some (hp_next h)) (snd bin)) ?h)"
  have new: "goes h ?h" "goes ?h ?h2" by (rule goes_new, simp add: points_def kinds_new)+
  have run: "setElementValue s (Some (hp_next ?h2)) ob (snd (new_cell (C_obj BSON_BINDATA (U_ptr (hp_next ?h))) ?h2)) = Some h'"
    using set_binary xs by (simp add: object_setBinary_def createBinaryElement_def Let_def case_prod_beta)
  have "goes ?h2 h'" if "typed ?h2"
    by (rule goes_setNew [OF run that]) (simp add: tag_ok_def tag_kind_def as_ptr_def points_def kinds_new)
  then show ?case using goes_trans [OF new] goes_trans by (auto simp: goes_def)
next
  case (set_element s e ob h h')
  then show ?case using goes_setElement by (auto simp: goes_def)
next
  case (add_element e l h h')
  then show ?case using goes_push by (auto simp: array_addElement_def goes_def split: option.splits)
next
  case (look s ob h e h')
  show ?case
  proof (cases "typed h")
    case True
    obtain m es view where m: "ob = Some m" "entries_at h m = Some es" "map_view h es = Some view"
        "std_find (c_str s) view \<noteq> None"
      using look(2) by (auto simp: isExist_def split: Option.bind_splits)
    then have "h' = drop_cell (hp_next h) (snd (new_cell (C_str s) h))"
      using look(1) map_view_new [OF True m(2), of "C_str s"]
      by (auto simp: getElementValue_def Let_def case_prod_beta)
    then show ?thesis using goes_scratch True by (simp add: typed_def)
  qed (simp add: goes_def)
qed

text \<open>
  C14. Type safety of the tagged unions: whatever buffers a client parses and whatever it stores, the
  tag of every object is true.  A pointer in a union is null or leads to a live string, binary, map or
  list as the tag says, the keys of every map are live strings, and every other object holds a number.
\<close>
theorem tags_stay_true:
  assumes "client\<^sup>*\<^sup>* empty_heap h" and "hp_cells h a = Some c"
  shows "cell_ok (kinds h) c"
proof -
  have "typed empty_heap" by (simp add: typed_def heap_ok_def empty_heap_def)
  with assms(1) have "typed h"
    by (induction rule: rtranclp_induct) (use goes_client in \<open>auto simp: goes_def\<close>)
  then show ?thesis using assms(2) by (rule typed_cell)
qed

theorem tags_stay_true_witness:
  "cell_ok (kinds \<lparr>hp_cells = [0 \<mapsto> C_map [(2, Some 1)], 1 \<mapsto> C_obj BSON_INT (U_bits 7), 2 \<mapsto> C_str [0x61]], hp_next = 3\<rparr>)
     (C_map [(2, Some 1)])"
proof (rule tags_stay_true [where a = 0])
  let ?h1 = "\<lparr>hp_cells = [0 \<mapsto> C_map []], hp_next = 1\<rparr>"
  have "client empty_heap ?h1"
    by (rule client.new_object [of undefined _ "Some 0"])
      (simp add: object_createNew_def new_cell_def empty_heap_def)
  moreover have "client ?h1 \<lparr>hp_cells = [0 \<mapsto> C_map [(2, Some 1)], 1 \<mapsto> C_obj BSON_INT (U_bits 7), 2 \<mapsto> C_str [0x61]], hp_next = 3\<rparr>"
    by (rule client.set_int [of "[0x61]" 7 "Some 0"])
      (simp add: object_setInt_def createIntElement_def setElementValue_def map_assign_def map_put_def map_view_def
        new_cell_def entries_at_def key_at_def c_str_def std_find_def set_cell_def fun_eq_iff)
  ultimately show "client\<^sup>*\<^sup>* empty_heap \<lparr>hp_cells = [0 \<mapsto> C_map [(2, Some 1)], 1 \<mapsto> C_obj BSON_INT (U_bits 7), 2 \<mapsto> C_str [0x61]], hp_next = 3\<rparr>"
    by (rule rtranclp.rtrancl_into_rtrancl [OF r_into_rtranclp])
qed simp

end
