(* ===== verification/Ring_Queue.thy ===== *)
theory Ring_Queue
  imports Prelude
begin

text \<open>
  The message queue between the network thread and the game thread, \<open>ring_queue.cpp\<close>: a vector of
  8096 message pointers and two counters that only grow.  Its contract is a first-in first-out queue;
  it holds for 8095 messages: the next one fills the ring, \<open>pop\<close> never clears
  the slot it has read, and from then on it never finds the queue empty.
\<close>

record 'm ring_queue =
  rq_head :: i64
  rq_tail :: i64
  rq_slots :: "'m option list"

definition QUEUE_SIZE :: nat where "QUEUE_SIZE = 8096"

definition new_ring :: "'m ring_queue" where
  "new_ring = \<lparr>rq_head = 0, rq_tail = 0, rq_slots = replicate QUEUE_SIZE None\<rparr>"

text \<open>\<open>m_queue.size()\<close> is a \<open>size_t\<close>, so the counter is reduced as an unsigned number.\<close>

definition ring_push :: "'m \<Rightarrow> 'm ring_queue \<Rightarrow> 'm ring_queue" where
  "ring_push msg q =
     (let idx = unat (rq_tail q) mod length (rq_slots q)
      in q\<lparr>rq_tail := rq_tail q + 1, rq_slots := (rq_slots q)[idx := Some msg]\<rparr>)"

definition ring_pop :: "'m ring_queue \<Rightarrow> 'm option \<times> 'm ring_queue" where
  "ring_pop q =
     (let head = unat (rq_head q) mod length (rq_slots q)
      in case rq_slots q ! head of
           None \<Rightarrow> (None, q)
         | Some msg \<Rightarrow> (Some msg, q\<lparr>rq_head := rq_head q + 1\<rparr>))"

section \<open>First in, first out\<close>

datatype 'm queue_op = Push 'm | Pop

primrec run_queue :: "('m \<Rightarrow> 'q \<Rightarrow> 'q) \<Rightarrow> ('q \<Rightarrow> 'm option \<times> 'q) \<Rightarrow> 'm queue_op list \<Rightarrow> 'q \<Rightarrow> 'm list \<times> 'q" where
  "run_queue enq deq [] q = ([], q)"
| "run_queue enq deq (op # ops) q =
     (case op of
        Push x \<Rightarrow> run_queue enq deq ops (enq x q)
      | Pop \<Rightarrow> (case deq q of (r, q') \<Rightarrow>
          (case run_queue enq deq ops q' of (out, q'') \<Rightarrow> (case r of None \<Rightarrow> out | Some x \<Rightarrow> x # out, q''))))"

primrec pushed :: "'m queue_op list \<Rightarrow> 'm list" where
  "pushed [] = []"
| "pushed (op # ops) = (case op of Push x \<Rightarrow> x # pushed ops | Pop \<Rightarrow> pushed ops)"

text \<open>A queue with room for a number of messages, and the schedules its users run.\<close>

locale bounded_fifo =
  fixes inv :: "'q \<Rightarrow> bool" and room :: "'q \<Rightarrow> nat" and entries :: "'q \<Rightarrow> 'm list"
    and enq :: "'m \<Rightarrow> 'q \<Rightarrow> 'q" and deq :: "'q \<Rightarrow> 'm option \<times> 'q"
  assumes enq_law: "inv q \<Longrightarrow> 0 < room q \<Longrightarrow>
      inv (enq x q) \<and> entries (enq x q) = entries q @ [x] \<and> room q = Suc (room (enq x q))"
    and deq_empty: "inv q \<Longrightarrow> entries q = [] \<Longrightarrow> deq q = (None, q)"
    and deq_law: "inv q \<Longrightarrow> entries q = x # xs \<Longrightarrow>
      fst (deq q) = Some x \<and> inv (snd (deq q)) \<and> entries (snd (deq q)) = xs \<and> room (snd (deq q)) = room q"
begin

text \<open>What comes out and what is left is what went in, in order.\<close>

lemma run_in_order:
  "inv q \<Longrightarrow> length (pushed ops) \<le> room q \<Longrightarrow>
   inv (snd (run_queue enq deq ops q))
     \<and> fst (run_queue enq deq ops q) @ entries (snd (run_queue enq deq ops q)) = entries q @ pushed ops"
proof (induction ops arbitrary: q)
  case (Cons op ops)
  show ?case
  proof (cases op)
    case (Push x)
    then show ?thesis using Cons enq_law [of q x] by auto
  next
    case Pop
    show ?thesis
    proof (cases "entries q")
      case Nil
      then show ?thesis using Pop Cons deq_empty [of q] by (simp add: split_beta)
    next
      case (Cons x xs)
      then show ?thesis
        using Pop Cons.prems Cons.IH [of "snd (deq q)"] deq_law [of q x xs] by (simp add: split_beta)
    qed
  qed
qed simp

end

text \<open>The first lap of the ring: the slots below the tail are filled, the others empty.\<close>

definition first_lap :: "'m ring_queue \<Rightarrow> bool" where
  "first_lap q \<longleftrightarrow> length (rq_slots q) = QUEUE_SIZE \<and> unat (rq_tail q) < QUEUE_SIZE
     \<and> unat (rq_head q) \<le> unat (rq_tail q)
     \<and> (\<forall>i < QUEUE_SIZE. (rq_slots q ! i = None) = (unat (rq_tail q) \<le> i))"

definition ring_room :: "'m ring_queue \<Rightarrow> nat" where
  "ring_room q = QUEUE_SIZE - 1 - unat (rq_tail q)"

definition ring_entries :: "'m ring_queue \<Rightarrow> 'm list" where
  "ring_entries q = map the (drop (unat (rq_head q)) (take (unat (rq_tail q)) (rq_slots q)))"

lemma counter_step: "unat (w :: i64) \<le> QUEUE_SIZE \<Longrightarrow> unat (w + 1) = Suc (unat w)"
  by (simp add: QUEUE_SIZE_def unat_word_ariths)

lemma new_first_lap: "first_lap new_ring" "ring_room new_ring = QUEUE_SIZE - 1" "ring_entries new_ring = []"
  by (simp_all add: first_lap_def new_ring_def ring_room_def ring_entries_def QUEUE_SIZE_def)

lemma push_first_lap:
  assumes "first_lap q" "0 < ring_room q"
  shows "first_lap (ring_push x q)" "ring_entries (ring_push x q) = ring_entries q @ [x]"
    "ring_room q = Suc (ring_room (ring_push x q))"
proof -
  have t: "unat (rq_tail q) < QUEUE_SIZE" "unat (rq_tail q + 1) = Suc (unat (rq_tail q))"
      "Suc (unat (rq_tail q)) < QUEUE_SIZE" "length (rq_slots q) = QUEUE_SIZE"
      "unat (rq_head q) \<le> unat (rq_tail q)"
    using assms counter_step [of "rq_tail q"] by (simp_all add: first_lap_def ring_room_def)
  have push: "ring_push x q = q\<lparr>rq_tail := rq_tail q + 1, rq_slots := (rq_slots q)[unat (rq_tail q) := Some x]\<rparr>"
    using t by (simp add: ring_push_def)
  show "first_lap (ring_push x q)"
    using assms t by (auto simp: push first_lap_def nth_list_update)
  show "ring_room q = Suc (ring_room (ring_push x q))"
    using t by (simp add: push ring_room_def)
  have "take (Suc (unat (rq_tail q))) ((rq_slots q)[unat (rq_tail q) := Some x])
      = take (unat (rq_tail q)) (rq_slots q) @ [Some x]"
    using t by (simp add: take_Suc_conv_app_nth)
  then show "ring_entries (ring_push x q) = ring_entries q @ [x]"
    using t by (simp add: push ring_entries_def)
qed

lemma pop_first_lap:
  assumes "first_lap q"
  shows "ring_entries q = [] \<Longrightarrow> ring_pop q = (None, q)"
    and "ring_entries q = x # xs \<Longrightarrow> fst (ring_pop q) = Some x \<and> first_lap (snd (ring_pop q))
      \<and> ring_entries (snd (ring_pop q)) = xs \<and> ring_room (snd (ring_pop q)) = ring_room q"
proof -
  have t: "unat (rq_tail q) < QUEUE_SIZE" "length (rq_slots q) = QUEUE_SIZE" "unat (rq_head q) \<le> unat (rq_tail q)"
      "\<forall>i < QUEUE_SIZE. (rq_slots q ! i = None) = (unat (rq_tail q) \<le> i)"
    using assms by (simp_all add: first_lap_def)
  show "ring_pop q = (None, q)" if "ring_entries q = []"
  proof -
    have "unat (rq_head q) = unat (rq_tail q)" using that t by (simp add: ring_entries_def)
    moreover have "rq_slots q ! unat (rq_tail q) = None" using t(1,4) by blast
    ultimately show ?thesis using t(1,2) by (simp add: ring_pop_def Let_def)
  qed
  show "fst (ring_pop q) = Some x \<and> first_lap (snd (ring_pop q)) \<and> ring_entries (snd (ring_pop q)) = xs
      \<and> ring_room (snd (ring_pop q)) = ring_room q" if e: "ring_entries q = x # xs"
  proof -
    have lt: "unat (rq_head q) < unat (rq_tail q)"
      using e t by (cases "unat (rq_head q) < unat (rq_tail q)") (auto simp: ring_entries_def)
    then obtain m where m: "rq_slots q ! unat (rq_head q) = Some m" using t by fastforce
    have "drop (unat (rq_head q)) (take (unat (rq_tail q)) (rq_slots q))
        = rq_slots q ! unat (rq_head q) # drop (Suc (unat (rq_head q))) (take (unat (rq_tail q)) (rq_slots q))"
      using lt t by (subst Cons_nth_drop_Suc [symmetric]) auto
    then have x: "x = m" "xs = map the (drop (Suc (unat (rq_head q))) (take (unat (rq_tail q)) (rq_slots q)))"
      using e m by (simp_all add: ring_entries_def)
    have h: "unat (rq_head q + 1) = Suc (unat (rq_head q))"
      using lt t counter_step [of "rq_head q"] by simp
    have "ring_pop q = (Some m, q\<lparr>rq_head := rq_head q + 1\<rparr>)" using m lt t by (simp add: ring_pop_def Let_def)
    then show ?thesis using x h lt t by (simp add: first_lap_def ring_entries_def ring_room_def)
  qed
qed

interpretation ring: bounded_fifo first_lap ring_room ring_entries ring_push ring_pop
proof unfold_locales
  fix q :: "'m ring_queue" and x xs
  show "first_lap (ring_push x q) \<and> ring_entries (ring_push x q) = ring_entries q @ [x]
      \<and> ring_room q = Suc (ring_room (ring_push x q))" if "first_lap q" "0 < ring_room q"
    using push_first_lap [OF that] by simp
  show "ring_pop q = (None, q)" if "first_lap q" "ring_entries q = []"
    by (rule pop_first_lap(1) [OF that])
  show "fst (ring_pop q) = Some x \<and> first_lap (snd (ring_pop q)) \<and> ring_entries (snd (ring_pop q)) = xs
      \<and> ring_room (snd (ring_pop q)) = ring_room q" if "first_lap q" "ring_entries q = x # xs"
    by (rule pop_first_lap(2) [OF that])
qed

section \<open>The full ring\<close>

definition all_filled :: "'m ring_queue \<Rightarrow> bool" where
  "all_filled q \<longleftrightarrow> length (rq_slots q) = QUEUE_SIZE \<and> None \<notin> set (rq_slots q)"

lemma filled_push: "all_filled q \<Longrightarrow> all_filled (ring_push x q)"
  using set_update_subset_insert [of "rq_slots q" "unat (rq_tail q) mod length (rq_slots q)" "Some x"]
  by (auto simp: all_filled_def ring_push_def Let_def)

lemma filled_pop: "all_filled q \<Longrightarrow> fst (ring_pop q) \<noteq> None \<and> all_filled (snd (ring_pop q))"
proof -
  assume f: "all_filled q"
  then have "unat (rq_head q) mod length (rq_slots q) < length (rq_slots q)"
    by (simp add: all_filled_def QUEUE_SIZE_def)
  then have "rq_slots q ! (unat (rq_head q) mod length (rq_slots q)) \<noteq> None"
    using f nth_mem unfolding all_filled_def by metis
  then show ?thesis using f by (auto simp: ring_pop_def Let_def all_filled_def split: option.splits)
qed

lemma fold_push:
  "length xs + unat (rq_tail q) \<le> QUEUE_SIZE \<Longrightarrow> length (rq_slots q) = QUEUE_SIZE \<Longrightarrow>
   rq_head (fold ring_push xs q) = rq_head q \<and> rq_tail (fold ring_push xs q) = rq_tail q + of_nat (length xs)
   \<and> rq_slots (fold ring_push xs q) = take (unat (rq_tail q)) (rq_slots q) @ map Some xs
        @ drop (unat (rq_tail q) + length xs) (rq_slots q)"
proof (induction xs arbitrary: q)
  case (Cons x xs)
  then have t: "unat (rq_tail q) < QUEUE_SIZE" by simp
  then have s: "unat (rq_tail q + 1) = Suc (unat (rq_tail q))" by (simp add: counter_step)
  have p: "ring_push x q = q\<lparr>rq_tail := rq_tail q + 1, rq_slots := (rq_slots q)[unat (rq_tail q) := Some x]\<rparr>"
    using t Cons.prems by (simp add: ring_push_def)
  show ?case
    using Cons.IH [of "ring_push x q"] Cons.prems s t
    by (simp add: p take_Suc_conv_app_nth add.commute add.left_commute)
qed simp

lemma full_after_lap:
  assumes "length xs = QUEUE_SIZE"
  shows "all_filled (fold ring_push xs new_ring)"
    and "rq_slots (fold ring_push xs new_ring) = map Some xs" "rq_head (fold ring_push xs new_ring) = 0"
  using fold_push [of xs new_ring] assms by (auto simp: new_ring_def all_filled_def)

abbreviation "run_ring \<equiv> run_queue ring_push ring_pop"

lemma run_filled: "all_filled q \<Longrightarrow> all_filled (snd (run_ring ops q))"
proof (induction ops arbitrary: q)
  case (Cons op ops)
  show ?case
  proof (cases op)
    case (Push x)
    then show ?thesis using Cons.IH [OF filled_push [OF Cons.prems]] by simp
  next
    case Pop
    then show ?thesis using Cons.IH [of "snd (ring_pop q)"] filled_pop [OF Cons.prems] by (simp add: split_beta)
  qed
qed simp

lemma pops_filled:
  "all_filled q \<Longrightarrow> unat (rq_head q) + n < 2 ^ 63 \<Longrightarrow>
   fst (run_ring (replicate n Pop) q) =
     map (\<lambda>i. the (rq_slots q ! ((unat (rq_head q) + i) mod QUEUE_SIZE))) [0..<n]"
proof (induction n arbitrary: q)
  case (Suc n)
  have h: "unat (rq_head q + 1) = Suc (unat (rq_head q))"
    using Suc.prems(2) by (simp add: unat_word_ariths)
  have len: "length (rq_slots q) = QUEUE_SIZE" using Suc.prems(1) by (simp add: all_filled_def)
  let ?i = "unat (rq_head q) mod QUEUE_SIZE"
  obtain m where m: "rq_slots q ! ?i = Some m"
    using filled_pop [OF Suc.prems(1)] len by (auto simp: ring_pop_def Let_def split: option.splits)
  have p: "ring_pop q = (Some m, q\<lparr>rq_head := rq_head q + 1\<rparr>)" using m len by (simp add: ring_pop_def)
  have "all_filled (q\<lparr>rq_head := rq_head q + 1\<rparr>)" using Suc.prems(1) by (simp add: all_filled_def)
  from Suc.IH [OF this] h Suc.prems(2) m p show ?case
    by (simp add: split_beta upt_conv_Cons map_Suc_upt [symmetric] del: upt_Suc map_Suc_upt)
qed simp

section \<open>Whole schedules\<close>

text \<open>
  Messages leave the queue in the order they entered it and none is lost, for every schedule of
  pushes and pops with fewer than 8096 messages.
\<close>
lemma ring_queue_fifo:
  assumes "length (pushed ops) < 8096"
  shows "fst (run_queue ring_push ring_pop ops new_ring)
     @ ring_entries (snd (run_queue ring_push ring_pop ops new_ring)) = pushed ops"
  using ring.run_in_order [OF new_first_lap(1), of ops] assms by (simp add: new_first_lap QUEUE_SIZE_def)

lemma ring_queue_fifo_instance:
  "fst (run_queue ring_push ring_pop [Push (1 :: nat), Push 2, Pop, Pop, Pop, Push 3] new_ring)
     @ ring_entries (snd (run_queue ring_push ring_pop [Push 1, Push 2, Pop, Pop, Pop, Push 3] new_ring)) = [1, 2, 3]"
  using ring_queue_fifo [of "[Push (1 :: nat), Push 2, Pop, Pop, Pop, Push 3]"] by simp

text \<open>
  From the 8096th message on the queue is never empty again: popping 8097 times delivers the first
  message twice, and after any further schedule a pop still delivers some message.
\<close>
lemma ring_queue_redelivers:
  assumes "length xs = 8096"
  shows "fst (run_queue ring_push ring_pop (replicate 8097 Pop) (fold ring_push xs new_ring)) = xs @ [hd xs]
     \<and> fst (ring_pop (snd (run_queue ring_push ring_pop ops (fold ring_push xs new_ring)))) \<noteq> None"
proof (rule conjI [rotated])
  have len: "length xs = QUEUE_SIZE" using assms by (simp add: QUEUE_SIZE_def)
  note full = full_after_lap [OF len]
  show "fst (ring_pop (snd (run_ring ops (fold ring_push xs new_ring)))) \<noteq> None"
    using filled_pop [OF run_filled [OF full(1)]] by blast
  have hd: "hd xs = xs ! 0" using assms by (intro hd_conv_nth) auto
  have "map (\<lambda>i. the (map Some xs ! (i mod QUEUE_SIZE))) [0..<8097] = xs @ [hd xs]"
  proof (rule nth_equalityI)
    fix i assume "i < length (map (\<lambda>i. the (map Some xs ! (i mod QUEUE_SIZE))) [0..<8097])"
    then consider "i < 8096" | "i = 8096" by fastforce
    then show "map (\<lambda>i. the (map Some xs ! (i mod QUEUE_SIZE))) [0..<8097] ! i = (xs @ [hd xs]) ! i"
      using assms hd by cases (auto simp: nth_append QUEUE_SIZE_def)
  qed (use assms in simp)
  then show "fst (run_ring (replicate 8097 Pop) (fold ring_push xs new_ring)) = xs @ [hd xs]"
    using pops_filled [OF full(1), of 8097] full(2,3) by (simp del: upt_Suc)
qed

lemma ring_queue_redelivers_instance:
  "fst (run_queue ring_push ring_pop (replicate 8097 Pop) (fold ring_push [0..<8096] new_ring)) = [0..<8096] @ [0]"
  using ring_queue_redelivers [of "[0..<8096]"] by (simp add: hd_upt del: upt_Suc)

end
