(* ===== verification/Packet.thy ===== *)
theory Packet
  imports Bson_Parser Ring_Queue "HOL-Library.Signed_Division"
begin

text \<open>
  Framing on the wire, \<open>bson_buffer.cpp\<close> and \<open>protocol/packet.h\<close>: a packed ten byte head, then
  the document with every four byte word combined with a mask derived from the head.  Then the two
  places that drive it: \<open>Socket::read\<close> and the body of the event loop in
  \<open>epoll_server.cpp\<close>.
\<close>

section \<open>The head\<close>

record packet_head =
  pk_sync :: i32
  pk_version :: "16 word"
  pk_size :: i32

definition mem16 :: "16 word \<Rightarrow> byte list" where
  "mem16 w = [ucast w, ucast (drop_bit 8 w)]"

definition of_mem16 :: "byte list \<Rightarrow> 16 word" where
  "of_mem16 bs = ucast (bs ! 0) OR push_bit 8 (ucast (bs ! 1))"

text \<open>\<open>memcpy\<close> of the packed structure to and from the buffer.\<close>

definition head_bytes :: "packet_head \<Rightarrow> byte list" where
  "head_bytes h = mem32 (pk_sync h) @ mem16 (pk_version h) @ mem32 (pk_size h)"

definition head_of_bytes :: "byte list \<Rightarrow> packet_head" where
  "head_of_bytes bs = \<lparr>pk_sync = of_mem32 (take 4 bs), pk_version = of_mem16 (take 2 (drop 4 bs)),
     pk_size = of_mem32 (drop 6 bs)\<rparr>"

definition packet_sz :: nat where "packet_sz = 4 + 2 + 4"

text \<open>\<open>htons\<close> and \<open>htonl\<close> of the little-endian host; \<open>ntohs\<close> and \<open>ntohl\<close> are the same functions.\<close>

definition htons :: "16 word \<Rightarrow> 16 word" where "htons w = of_mem16 (rev (mem16 w))"

definition htonl :: "i32 \<Rightarrow> i32" where "htonl w = of_mem32 (rev (mem32 w))"

definition defaultVersion :: int where "defaultVersion = 1256"

definition verifyKey :: "byte list" where "verifyKey = [0x78, 0x78, 0x6D, 0x70]"

text \<open>\<open>head.sync % version * size\<close>: a remainder of two \<open>int\<close>, multiplied as \<open>unsigned int\<close>.\<close>

definition packet_mask :: "i32 \<Rightarrow> int \<Rightarrow> i32 \<Rightarrow> i32" where
  "packet_mask sync version sz = word_of_int (sint sync smod version) * sz"

text \<open>
  The loop over the body, four bytes at a time: the last \<open>a\<close> bytes are copied into a zeroed
  \<open>int\<close>, combined with the mask and \<open>a\<close> bytes copied out.
\<close>

definition mask_block :: "i32 \<Rightarrow> byte list \<Rightarrow> byte list" where
  "mask_block k xs = take (length xs) (mem32 (of_mem32 (xs @ replicate (4 - length xs) 0) XOR k))"

fun mask_loop :: "i32 \<Rightarrow> byte list \<Rightarrow> byte list" where
  "mask_loop k [] = []"
| "mask_loop k (x # xs) = mask_block k (take 4 (x # xs)) @ mask_loop k (drop 4 (x # xs))"

section \<open>Encoding\<close>

text \<open>
  \<open>BsonBuffer::serializeToBuffer(Buffer&)\<close> frames what the buffer holds.  It reads from the start of
  the block, not from the read position, and copies the framed bytes back without a bound.
\<close>

definition packet_serialize :: "net_buffer \<Rightarrow> net_buffer option" where
  "packet_serialize buf = do {
     let sz = word_of_int (readAvailable buf);
     let sync = of_mem32 verifyKey;
     let head = \<lparr>pk_sync = sync, pk_version = htons (word_of_int defaultVersion), pk_size = htonl sz\<rparr>;
     body \<leftarrow> rdn (m_buffer buf) 0 (unat sz);
     let out = head_bytes head @ mask_loop (packet_mask sync defaultVersion sz) body;
     copyIn (buffer_reset buf) (Some out) (sint (sz + of_nat packet_sz))
   }"

section \<open>Decoding\<close>

record bson_buffer = net_buffer +
  m_protocol :: bobject

text \<open>
  \<open>parseFromBuffer\<close> returns 0 both when it waits for more bytes and when it has parsed a
  packet.  A version of zero in the head divides by zero.
\<close>

definition parse_body :: "nat \<Rightarrow> packet_head \<Rightarrow> i32 \<Rightarrow> int \<Rightarrow> bson_buffer \<Rightarrow> (int \<times> bson_buffer) outcome" where
  "parse_body fuel head sz version b =
     (if version = 0 then Fault
      else lift_fault (rdn (m_buffer b) (int (unat (m_read b))) (unat sz)) (\<lambda>body.
        bind_outcome (bson_parse fuel (mask_loop (packet_mask (pk_sync head) version sz) body)) (\<lambda>obj.
          Done (0, b\<lparr>m_read := m_read b + sz, m_protocol := obj\<rparr>))))"

definition parseFromBuffer :: "nat \<Rightarrow> bson_buffer \<Rightarrow> (int \<times> bson_buffer) outcome" where
  "parseFromBuffer fuel b =
     (if readAvailable b < int packet_sz then Done (0, b)
      else lift_fault (rdn (m_buffer b) (int (unat (m_read b))) packet_sz) (\<lambda>raw.
        let head = head_of_bytes raw; sz = htonl (pk_size head); version = uint (htons (pk_version head)) in
        if mem32 (pk_sync head) \<noteq> verifyKey then Done (-1, b)
        else if readAvailable b - int packet_sz < int (unat sz) then Done (0, b)
        else if MAX_BUFFER_SIZE < unat sz then Done (-1, b)
        else parse_body fuel head sz version (b\<lparr>m_read := m_read b + of_nat packet_sz\<rparr>)))"

section \<open>Writing to the socket\<close>

text \<open>\<open>sendData\<close>: the bytes handed to the system call \<open>write\<close>.\<close>

definition sendData :: "net_buffer \<Rightarrow> byte list option" where
  "sendData buf = (if readAvailable buf < 0 then None else rdn (m_buffer buf) 0 (nat (readAvailable buf)))"

section \<open>Reading from the socket\<close>

text \<open>
  What the system call \<open>read\<close> can return: bytes (none when the peer has closed), or -1 with
  an error number.  A script lists the results in order; \<open>Timeout\<close> stands for a call that
  blocks.  The status of \<open>add\<close> is not looked at.  \<open>continue\<close> in a do-loop goes on to
  its condition, where a length of -1 ends it.
\<close>

datatype sys_read = R_data "byte list" | R_eintr | R_eagain | R_error

fun socket_read :: "bson_buffer \<Rightarrow> int \<Rightarrow> sys_read list \<Rightarrow> (int \<times> bson_buffer \<times> sys_read list) outcome" where
  "socket_read buf toRead [] = Timeout"
| "socket_read buf toRead (r # rs) =
     (case r of
        R_error \<Rightarrow> Done (-1, buf, rs)
      | R_eagain \<Rightarrow> Done (0, buf, rs)
      | R_eintr \<Rightarrow> if -1 \<ge> toRead then socket_read buf toRead rs else Done (0, buf, rs)
      | R_data xs \<Rightarrow>
          if xs = [] then Done (-1, buf, rs)
          else lift_fault (buffer_add buf xs (int (length xs))) (\<lambda>(_, buf).
            if int (length xs) \<ge> toRead then socket_read buf toRead rs else Done (0, buf, rs)))"

definition SOCKET_CHUNK :: int where "SOCKET_CHUNK = 2048"

section \<open>One readable event\<close>

record message =
  msg_ps :: nat
  msg_request :: bobject

record socket_state =
  so_buffer :: bson_buffer
  so_open :: bool

text \<open>
  The \<open>EPOLLIN\<close> branch of \<open>epollRoutine\<close> for a socket that is a player session.  After a failed
  read the socket is closed and removed, and the code falls through to the parser.  The second
  component of the result of \<open>readable_event\<close> counts the calls of \<open>close\<close>, the third is the new message.
\<close>

definition readable_event ::
  "nat \<Rightarrow> nat \<Rightarrow> sys_read list \<Rightarrow> socket_state \<Rightarrow> (socket_state \<times> nat \<times> message option) outcome" where
  "readable_event fuel ps script s =
     bind_outcome (socket_read (so_buffer s) SOCKET_CHUNK script) (\<lambda>(ret, buf, _).
       let s = s\<lparr>so_buffer := buf, so_open := so_open s \<and> ret \<noteq> -1\<rparr>;
           closes = (if ret = -1 then 1 else 0) in
       if readAvailable buf < int packet_sz then Done (s, closes, None)
       else bind_outcome (parseFromBuffer fuel buf) (\<lambda>(ret, buf).
         if ret = -1 then Done (s\<lparr>so_buffer := buf, so_open := False\<rparr>, Suc closes, None)
         else Done (s\<lparr>so_buffer := buf\<rparr>, closes, Some \<lparr>msg_ps = ps, msg_request = m_protocol buf\<rparr>)))"

definition on_readable ::
  "nat \<Rightarrow> nat \<Rightarrow> sys_read list \<Rightarrow> socket_state \<Rightarrow> message ring_queue \<Rightarrow> (socket_state \<times> message ring_queue) outcome" where
  "on_readable fuel ps script s queue =
     bind_outcome (readable_event fuel ps script s) (\<lambda>(s, _, msg).
       Done (s, case msg of None \<Rightarrow> queue | Some msg \<Rightarrow> ring_push msg queue))"

section \<open>The frame of a document\<close>

definition frame_head :: "nat \<Rightarrow> packet_head" where
  "frame_head n = \<lparr>pk_sync = of_mem32 verifyKey, pk_version = htons (word_of_int defaultVersion),
     pk_size = htonl (of_nat n)\<rparr>"

definition frame_mask :: "nat \<Rightarrow> i32" where
  "frame_mask n = packet_mask (of_mem32 verifyKey) defaultVersion (of_nat n)"

definition packet_of :: "byte list \<Rightarrow> byte list" where
  "packet_of xs = head_bytes (frame_head (length xs)) @ mask_loop (frame_mask (length xs)) xs"

lemma mem32_of_mem32: "length bs = 4 \<Longrightarrow> mem32 (of_mem32 bs) = bs"
proof -
  assume "length bs = 4"
  then obtain a b c d where bs: "bs = [a, b, c, d]" using length4_cases by blast
  have "ucast (of_mem32 bs) = a" "ucast (drop_bit 8 (of_mem32 bs)) = b"
      "ucast (drop_bit 16 (of_mem32 bs)) = c" "ucast (drop_bit 24 (of_mem32 bs)) = d"
    by (rule bit_word_eqI; auto simp: bs of_mem32_def bit_simps dest: bit_imp_le_length)+
  then show ?thesis by (simp add: bs mem32_def)
qed

lemma of_mem16_mem16: "of_mem16 (mem16 w) = w"
  by (rule bit_word_eqI) (auto simp: of_mem16_def mem16_def bit_simps)

lemma mem16_of_mem16: "length bs = 2 \<Longrightarrow> mem16 (of_mem16 bs) = bs"
proof -
  assume "length bs = 2"
  then obtain a b where bs: "bs = [a, b]" by (auto simp: numeral_2_eq_2 length_Suc_conv)
  have "ucast (of_mem16 bs) = a" "ucast (drop_bit 8 (of_mem16 bs)) = b"
    by (rule bit_word_eqI; auto simp: bs of_mem16_def bit_simps dest: bit_imp_le_length)+
  then show ?thesis by (simp add: bs mem16_def)
qed

lemma htonl_htonl [simp]: "htonl (htonl w) = w"
  by (simp add: htonl_def mem32_of_mem32)

lemma htons_htons [simp]: "htons (htons w) = w"
proof -
  have "length (mem16 w) = 2" by (simp add: mem16_def)
  then show ?thesis by (simp add: htons_def mem16_of_mem16 of_mem16_mem16)
qed

lemma head_round_trip [simp]: "head_of_bytes (head_bytes h) = h"
  by (simp add: head_of_bytes_def head_bytes_def of_mem16_mem16 mem16_def)
    (simp flip: mem16_def add: of_mem16_mem16)

lemma length_head [simp]: "length (head_bytes h) = packet_sz"
  by (simp add: head_bytes_def mem16_def packet_sz_def)

lemma mem32_xor: "mem32 (v XOR w) = map2 (XOR) (mem32 v) (mem32 w)"
proof -
  have "ucast (drop_bit n (v XOR w)) = (ucast (drop_bit n v) XOR ucast (drop_bit n w) :: byte)" for n
    by (rule bit_word_eqI) (auto simp: bit_simps)
  from this [of 0] this [of 8] this [of 16] this [of 24] show ?thesis by (simp add: mem32_def)
qed

lemma zip_take_length: "zip xs (take (length xs) ys) = zip xs ys"
proof (induction xs arbitrary: ys)
  case (Cons x xs)
  then show ?case by (cases ys) simp_all
qed simp

lemma mask_block_xor: "length xs \<le> 4 \<Longrightarrow> mask_block k xs = map2 (XOR) xs (mem32 k)"
  by (simp add: mask_block_def mem32_xor mem32_of_mem32 take_map take_zip zip_take_length)

lemma map2_xor_twice: "length xs \<le> length ks \<Longrightarrow> map2 (XOR) (map2 (XOR) xs ks) ks = (xs :: byte list)"
proof (induction xs arbitrary: ks)
  case (Cons x xs)
  then show ?case by (cases ks) (simp_all add: xor.assoc)
qed simp

lemma length_mask_block: "length xs \<le> 4 \<Longrightarrow> length (mask_block k xs) = length xs"
  by (simp add: mask_block_xor)

lemma length_mask_loop [simp]: "length (mask_loop k xs) = length xs"
  by (induction k xs rule: mask_loop.induct) (simp_all add: length_mask_block)

lemma mask_loop_unfold: "xs \<noteq> [] \<Longrightarrow> mask_loop k xs = mask_block k (take 4 xs) @ mask_loop k (drop 4 xs)"
  by (cases xs) (simp_all only: mask_loop.simps)

lemma mask_loop_split: "length ys \<le> 4 \<Longrightarrow> ys \<noteq> [] \<Longrightarrow> length ys = 4 \<or> zs = [] \<Longrightarrow>
   mask_loop k (ys @ zs) = mask_block k ys @ mask_loop k zs"
  using mask_loop_unfold [of "ys @ zs" k] by auto

lemma mask_loop_twice: "mask_loop k (mask_loop k xs) = xs"
proof (induction k xs rule: mask_loop.induct)
  case (2 k x xs)
  let ?ys = "take 4 (x # xs)" and ?zs = "drop 4 (x # xs)"
  have len: "length (mask_block k ?ys) = length ?ys" by (rule length_mask_block) simp
  then have ne: "mask_block k ?ys \<noteq> []" by auto
  have "mask_loop k (mask_block k ?ys @ mask_loop k ?zs) = mask_block k (mask_block k ?ys) @ mask_loop k (mask_loop k ?zs)"
  proof (rule mask_loop_split [OF _ ne])
    show "length (mask_block k ?ys) = 4 \<or> mask_loop k ?zs = []"
      unfolding len by (cases "4 \<le> length (x # xs)") auto
  qed (simp only: len, simp)
  moreover have "mask_block k (mask_block k ?ys) = ?ys"
    using len by (simp add: mask_block_xor map2_xor_twice)
  ultimately show ?case using 2 by simp
qed simp

lemma length_packet: "length (packet_of xs) = packet_sz + length xs"
  by (simp add: packet_of_def)

lemma unat_of_nat_small: "n < 2 ^ 32 \<Longrightarrow> unat (of_nat n :: i32) = n"
  by (simp add: unat_of_nat)

lemma packet_of_ne: "packet_of xs \<noteq> []"
  using length_packet [of xs] by (auto simp: packet_sz_def)

text \<open>Framing what a fresh buffer holds: exact up to 8182 bytes, out of bounds above.\<close>

lemma frame_buffer:
  assumes "buffer_inv buf" "m_read buf = 0" "pending buf = xs"
  shows "packet_serialize buf =
    (if length xs \<le> 8182 then Some (buf\<lparr>m_read := 0, m_write := of_nat (packet_sz + length xs),
        m_buffer := packet_of xs @ drop (packet_sz + length xs) (m_buffer buf)\<rparr>) else None)"
proof -
  have n: "length xs < MAX_BUFFER_SIZE" "length (m_buffer buf) = MAX_BUFFER_SIZE"
      "take (unat (m_write buf)) (m_buffer buf) = xs"
    using assms length_pending [OF assms(1)] by (auto simp: buffer_inv_def pending_def)
  have av: "word_of_int (readAvailable buf) = (of_nat (length xs) :: i32)"
    by (simp add: available_pending [OF assms(1)] assms(3))
  have un: "unat (of_nat (length xs) :: i32) = length xs"
    using n(1) by (simp add: unat_of_nat MAX_BUFFER_SIZE_def)
  have w: "unat (m_write buf) = length xs"
    using assms length_pending [OF assms(1)] by simp
  have body: "rdn (m_buffer buf) 0 (length xs) = Some xs"
    using n w by (simp add: rdn_def)
  have "unat (of_nat (length xs) + of_nat packet_sz :: i32) = length xs + packet_sz"
    using n(1) unfolding of_nat_add [symmetric]
    by (subst unat_of_nat_small) (simp_all add: MAX_BUFFER_SIZE_def packet_sz_def)
  then have sz: "sint (of_nat (length xs) + of_nat packet_sz :: i32) = int (length xs + packet_sz)"
    using n(1) by (subst sint_small) (simp_all add: MAX_BUFFER_SIZE_def packet_sz_def)
  have out: "head_bytes \<lparr>pk_sync = of_mem32 verifyKey, pk_version = htons (word_of_int defaultVersion),
        pk_size = htonl (of_nat (length xs))\<rparr>
      @ mask_loop (packet_mask (of_mem32 verifyKey) defaultVersion (of_nat (length xs))) xs = packet_of xs"
    by (simp add: packet_of_def frame_head_def frame_mask_def)
  have "packet_serialize buf = copyIn (buffer_reset buf) (Some (packet_of xs)) (int (length xs + packet_sz))"
    unfolding packet_serialize_def Let_def av un body sz Option.bind.bind_lunit out ..
  also have "\<dots> = (if length xs \<le> 8182 then Some (buf\<lparr>m_read := 0, m_write := of_nat (packet_sz + length xs),
        m_buffer := packet_of xs @ drop (packet_sz + length xs) (m_buffer buf)\<rparr>) else None)"
    using n(2) by (simp add: copyIn_def rdn_def length_packet blit_def buffer_reset_def MAX_BUFFER_SIZE_def
        packet_sz_def add.commute)
  finally show ?thesis .
qed

lemma send_frame:
  assumes "buffer_inv buf" "m_read buf = 0" "pending buf = xs" "length xs \<le> 8182"
  shows "\<exists>buf'. packet_serialize buf = Some buf' \<and> sendData buf' = Some (packet_of xs)"
proof -
  have "unat (of_nat (packet_sz + length xs) :: i32) = packet_sz + length xs"
    using assms(4) by (subst unat_of_nat_small) (simp_all add: packet_sz_def)
  then have "sint (of_nat (packet_sz + length xs) :: i32) = int (packet_sz + length xs)"
    using assms(4) by (subst sint_small) (simp_all add: packet_sz_def)
  then show ?thesis
    using frame_buffer [OF assms(1-3)] assms(4)
    by (simp add: sendData_def readAvailable_def rdn_def length_packet nat_add_distrib)
qed

section \<open>Decoding a frame\<close>

lemma rdn_pending:
  assumes "buffer_inv b" "k + n \<le> length (pending b)"
  shows "rdn (m_buffer b) (int (unat (m_read b) + k)) n = Some (take n (drop k (pending b)))"
proof -
  have "unat (m_read b) + k + n \<le> unat (m_write b)" "unat (m_write b) \<le> length (m_buffer b)"
    using assms length_pending [OF assms(1)] by (auto simp: buffer_inv_def word_le_nat_alt)
  moreover have "take n (drop k (drop (unat (m_read b)) (take (unat (m_write b)) (m_buffer b))))
      = take n (drop (unat (m_read b) + k) (m_buffer b))"
    using calculation by (simp add: drop_take min_def add.commute)
  ultimately show ?thesis
    unfolding rdn_def pending_def by (simp add: nat_add_distrib flip: of_nat_add)
qed

lemma advance:
  assumes "buffer_inv b" "n \<le> length (pending b)"
  shows "buffer_inv (b\<lparr>m_read := m_read b + of_nat n\<rparr>)"
    and "pending (b\<lparr>m_read := m_read b + of_nat n\<rparr>) = drop n (pending b)"
    and "unat (m_read b + of_nat n) = unat (m_read b) + n"
proof -
  have le: "unat (m_read b) + n \<le> unat (m_write b)" "unat (m_write b) < MAX_BUFFER_SIZE"
    using assms length_pending [OF assms(1)] by (auto simp: buffer_inv_def word_le_nat_alt)
  then show u: "unat (m_read b + of_nat n) = unat (m_read b) + n"
    by (simp add: unat_word_ariths unat_of_nat MAX_BUFFER_SIZE_def)
  show "buffer_inv (b\<lparr>m_read := m_read b + of_nat n\<rparr>)"
    using assms(1) le u by (simp add: buffer_inv_def word_le_nat_alt)
  show "pending (b\<lparr>m_read := m_read b + of_nat n\<rparr>) = drop n (pending b)"
    using u by (simp add: pending_def add.commute)
qed

lemma version_of_frame: "uint (htons (pk_version (frame_head n))) = defaultVersion"
  by (simp add: frame_head_def defaultVersion_def)

lemma parse_short: "readAvailable b < 10 \<Longrightarrow> parseFromBuffer fuel b = Done (0, b)"
  by (simp add: parseFromBuffer_def packet_sz_def)

lemma parse_head:
  assumes "buffer_inv b" "pending b = head_bytes (frame_head n) @ ys" "n < 2 ^ 32"
  shows "parseFromBuffer fuel b =
    (if length ys < n then Done (0, b) else if MAX_BUFFER_SIZE < n then Done (-1, b)
     else parse_body fuel (frame_head n) (of_nat n) defaultVersion (b\<lparr>m_read := m_read b + of_nat packet_sz\<rparr>))"
proof -
  have av: "readAvailable b = int (packet_sz + length ys)"
    by (simp add: available_pending [OF assms(1)] assms(2))
  have raw: "rdn (m_buffer b) (int (unat (m_read b))) packet_sz = Some (head_bytes (frame_head n))"
    using rdn_pending [OF assms(1), of 0 packet_sz] assms(2) by simp
  have sz: "htonl (pk_size (frame_head n)) = of_nat n" by (simp add: frame_head_def)
  have sync: "mem32 (pk_sync (frame_head n)) = verifyKey"
    by (simp add: frame_head_def mem32_of_mem32 verifyKey_def)
  have n: "unat (of_nat n :: i32) = n" using assms(3) by (rule unat_of_nat_small)
  have if1: "(readAvailable b < int packet_sz) = False" using av by simp
  have if2: "(readAvailable b - int packet_sz < int n) = (length ys < n)" using av by simp
  show ?thesis
    unfolding parseFromBuffer_def if1 raw lift_fault_simps head_round_trip sz version_of_frame Let_def n if2 sync
    by simp
qed

lemma parse_body_frame:
  assumes "buffer_inv b" "pending b = mask_loop (frame_mask (length xs)) xs @ rest"
    and "bson_parse fuel xs = Done obj"
  shows "parse_body fuel (frame_head (length xs)) (of_nat (length xs)) defaultVersion b
    = Done (0, b\<lparr>m_read := m_read b + of_nat (length xs), m_protocol := obj\<rparr>)"
proof -
  have "length xs \<le> length (pending b)" "length (pending b) < MAX_BUFFER_SIZE"
    using assms(2) length_pending [OF assms(1)] assms(1) by (auto simp: buffer_inv_def)
  then have n: "unat (of_nat (length xs) :: i32) = length xs"
    by (intro unat_of_nat_small) (simp add: MAX_BUFFER_SIZE_def)
  have rd: "rdn (m_buffer b) (int (unat (m_read b))) (length xs) = Some (mask_loop (frame_mask (length xs)) xs)"
    using rdn_pending [OF assms(1), of 0 "length xs"] assms(2) by simp
  have key: "packet_mask (pk_sync (frame_head (length xs))) defaultVersion (of_nat (length xs)) = frame_mask (length xs)"
    by (simp add: frame_head_def frame_mask_def)
  have v: "(defaultVersion = 0) = False" by (simp add: defaultVersion_def)
  show ?thesis
    unfolding parse_body_def v if_False n rd lift_fault_simps key mask_loop_twice assms(3) bind_outcome_simps ..
qed

lemma parse_packet:
  assumes "buffer_inv b" "pending b = packet_of xs @ rest" "bson_parse fuel xs = Done obj"
  obtains b' where "parseFromBuffer fuel b = Done (0, b')" "buffer_inv b'" "pending b' = rest" "m_protocol b' = obj"
proof -
  let ?b = "b\<lparr>m_read := m_read b + of_nat packet_sz\<rparr>"
  have pend: "pending b = head_bytes (frame_head (length xs)) @ mask_loop (frame_mask (length xs)) xs @ rest"
    using assms(2) by (simp add: packet_of_def)
  have len: "length (pending b) < MAX_BUFFER_SIZE"
    using length_pending [OF assms(1)] assms(1) by (auto simp: buffer_inv_def)
  then have n: "length xs < 2 ^ 32" "\<not> MAX_BUFFER_SIZE < length xs" using pend by (simp_all add: MAX_BUFFER_SIZE_def)
  have b: "buffer_inv ?b" "pending ?b = mask_loop (frame_mask (length xs)) xs @ rest"
    using advance(1,2) [OF assms(1), of packet_sz] pend by simp_all
  let ?c = "?b\<lparr>m_read := m_read ?b + of_nat (length xs)\<rparr>"
  have c: "buffer_inv ?c" "pending ?c = rest"
    using advance(1,2) [OF b(1), of "length xs"] b(2) by simp_all
  have "parseFromBuffer fuel b = Done (0, ?c\<lparr>m_protocol := obj\<rparr>)"
    using parse_head [OF assms(1) pend n(1), of fuel] n(2) parse_body_frame [OF b assms(3)] by simp
  moreover have "buffer_inv (?c\<lparr>m_protocol := obj\<rparr>)" "pending (?c\<lparr>m_protocol := obj\<rparr>) = rest"
    using c by (simp_all add: buffer_inv_def pending_def)
  ultimately show ?thesis by (rule that) simp
qed

lemma parse_partial:
  assumes "buffer_inv b" "pending b = take k (packet_of xs)" "k < length (packet_of xs)" "length xs < 2 ^ 32"
  shows "parseFromBuffer fuel b = Done (0, b)"
proof (cases "k < packet_sz")
  case True
  then have "readAvailable b < 10"
    using assms(2,3) by (simp add: available_pending [OF assms(1)] packet_sz_def)
  then show ?thesis by (rule parse_short)
next
  case False
  then have "pending b = head_bytes (frame_head (length xs)) @ take (k - packet_sz) (mask_loop (frame_mask (length xs)) xs)"
    using assms(2) by (simp add: packet_of_def)
  moreover have "k - packet_sz < length xs" using assms(3) False by (simp add: length_packet)
  ultimately show ?thesis
    using parse_head [OF assms(1) _ assms(4), of _ fuel] by simp
qed

lemma same_protocol: "net_buffer.more b = net_buffer.more b' \<Longrightarrow> m_protocol b = m_protocol b'"
  by (cases b; cases b') (simp add: bson_buffer.defs)

lemma add_fits:
  assumes "buffer_inv b" "length (pending b) + length xs < MAX_BUFFER_SIZE"
  obtains ret b' where "buffer_add b xs (int (length xs)) = Some (ret, b')" "buffer_inv b'"
    "pending b' = pending b @ xs" "m_protocol b' = m_protocol b"
proof -
  have "length xs < 2 ^ 31" using assms(2) by (simp add: MAX_BUFFER_SIZE_def)
  from add_exact [OF assms(1) this] assms(2) that same_protocol show ?thesis by auto
qed

text \<open>The data of a script up to the chunk that ends the loop.\<close>

fun script_data :: "sys_read list \<Rightarrow> byte list" where
  "script_data [] = []"
| "script_data (R_data xs # rs) = xs @ script_data rs"
| "script_data (_ # rs) = script_data rs"

text \<open>Full chunks, then a short one.\<close>

fun chunked :: "sys_read list \<Rightarrow> bool" where
  "chunked [] = False"
| "chunked (R_data xs # rs) = (xs \<noteq> [] \<and> (if length xs = 2048 then chunked rs else length xs < 2048 \<and> rs = []))"
| "chunked (r # rs) = (r \<noteq> R_error \<and> rs = [])"

lemma socket_read_chunks:
  "chunked rs \<Longrightarrow> buffer_inv b \<Longrightarrow> length (pending b) + length (script_data rs) < MAX_BUFFER_SIZE \<Longrightarrow>
   \<exists>b'. socket_read b SOCKET_CHUNK rs = Done (0, b', []) \<and> buffer_inv b'
     \<and> pending b' = pending b @ script_data rs \<and> m_protocol b' = m_protocol b"
proof (induction rs arbitrary: b)
  case (Cons r rs)
  show ?case
  proof (cases r)
    case (R_data xs)
    have "length (pending b) + length xs < MAX_BUFFER_SIZE" using Cons.prems R_data by simp
    then obtain ret b1 where b1: "buffer_add b xs (int (length xs)) = Some (ret, b1)" "buffer_inv b1"
      "pending b1 = pending b @ xs" "m_protocol b1 = m_protocol b"
      by (rule add_fits [OF Cons.prems(2)])
    show ?thesis
    proof (cases "length xs = 2048")
      case True
      then show ?thesis using Cons.IH [of b1] Cons.prems R_data b1 by (auto simp: SOCKET_CHUNK_def)
    next
      case False
      then show ?thesis using Cons.prems R_data b1 by (auto simp: SOCKET_CHUNK_def)
    qed
  qed (use Cons.prems in \<open>auto simp: SOCKET_CHUNK_def\<close>)
qed simp

section \<open>Properties\<close>

text \<open>What a plain object becomes on its way to the socket.\<close>

lemma object_on_wire:
  assumes "allocator_ok A" "allocator_total A" "plain_object obj"
    and "length (elems_bytes (to_doc obj)) + 5 \<le> 8181" "length mem = 8192"
  obtains buf buf' where "serializeToBuffer A (new_buffer mem) obj = Some (Inr buf)" "packet_serialize buf = Some buf'"
    "sendData buf' = Some (packet_of (doc_bytes (elems_bytes (to_doc obj))))"
proof -
  let ?xs = "doc_bytes (elems_bytes (to_doc obj))"
  have fresh: "buffer_inv (new_buffer mem)" "pending (new_buffer mem) = []" "m_write (new_buffer mem) = 0"
      "m_read (new_buffer mem) = 0"
    using new_buffer_inv [of mem] assms(5) by (simp_all add: MAX_BUFFER_SIZE_def new_buffer_def)
  obtain buf where buf: "serializeToBuffer A (new_buffer mem) obj = Some (Inr buf)" "buffer_inv buf"
      "pending buf = ?xs" "m_read buf = 0"
    using serialize_plain [OF assms(1-3) fresh(1)] fresh(2-4) assms(4) by (auto simp: MAX_BUFFER_SIZE_def)
  obtain buf' where "packet_serialize buf = Some buf'" "sendData buf' = Some (packet_of ?xs)"
    using send_frame [OF buf(2,4,3)] assms(4) by auto
  with buf(1) show ?thesis by (rule that)
qed

text \<open>A series of readable events of one socket, with the messages they queue.\<close>

fun receive :: "nat \<Rightarrow> nat \<Rightarrow> sys_read list list \<Rightarrow> socket_state \<Rightarrow> (socket_state \<times> message list) outcome" where
  "receive fuel ps [] s = Done (s, [])"
| "receive fuel ps (rs # rss) s =
     bind_outcome (readable_event fuel ps rs s) (\<lambda>(s, _, msg).
     bind_outcome (receive fuel ps rss s) (\<lambda>(s, msgs).
       Done (s, (case msg of None \<Rightarrow> msgs | Some m \<Rightarrow> m # msgs))))"

text \<open>An event that does not complete the packet keeps what has arrived.\<close>

lemma incomplete_event:
  assumes "buffer_inv (so_buffer s)" "so_open s" "chunked rs" "length xs < 2 ^ 32"
    and "pending (so_buffer s) @ script_data rs = take k (packet_of xs)" "k < length (packet_of xs)" "k < MAX_BUFFER_SIZE"
  obtains s' msg where "readable_event fuel ps rs s = Done (s', 0, msg)" "buffer_inv (so_buffer s')" "so_open s'"
    "pending (so_buffer s') = take k (packet_of xs)"
proof -
  have "length (pending (so_buffer s)) + length (script_data rs) < MAX_BUFFER_SIZE"
    unfolding length_append [symmetric] assms(5) using assms(6,7) by simp
  then obtain b where b: "socket_read (so_buffer s) SOCKET_CHUNK rs = Done (0, b, [])" "buffer_inv b"
      "pending b = take k (packet_of xs)"
    using socket_read_chunks [OF assms(3,1)] assms(5) by auto
  have parse: "parseFromBuffer fuel b = Done (0, b)" by (rule parse_partial [OF b(2,3) assms(6,4)])
  let ?s = "s\<lparr>so_buffer := b\<rparr>"
  show ?thesis
  proof (cases "readAvailable b < int packet_sz")
    case True
    then show ?thesis using b assms(2) by (intro that [of ?s None]) (simp_all add: readable_event_def)
  next
    case False
    then show ?thesis
      using b assms(2) parse by (intro that [of ?s "Some \<lparr>msg_ps = ps, msg_request = m_protocol b\<rparr>"]) (simp_all add: readable_event_def)
  qed
qed

lemma completing_event:
  assumes "buffer_inv (so_buffer s)" "so_open s" "chunked rs" "bson_parse fuel xs = Done obj"
    and "pending (so_buffer s) @ script_data rs = packet_of xs @ rest" "length (packet_of xs @ rest) < MAX_BUFFER_SIZE"
  obtains s' where "readable_event fuel ps rs s = Done (s', 0, Some \<lparr>msg_ps = ps, msg_request = obj\<rparr>)"
    "so_open s'" "pending (so_buffer s') = rest"
proof -
  have "length (pending (so_buffer s)) + length (script_data rs) < MAX_BUFFER_SIZE"
    unfolding length_append [symmetric] assms(5) by (rule assms(6))
  then obtain b where b: "socket_read (so_buffer s) SOCKET_CHUNK rs = Done (0, b, [])" "buffer_inv b"
      "pending b = packet_of xs @ rest"
    using socket_read_chunks [OF assms(3,1)] assms(5) by auto
  obtain b' where b': "parseFromBuffer fuel b = Done (0, b')" "pending b' = rest" "m_protocol b' = obj"
    by (rule parse_packet [OF b(2,3) assms(4)]) (rule that)
  have "\<not> readAvailable b < int packet_sz" by (simp add: available_pending [OF b(2)] b(3) length_packet)
  then show ?thesis
    using b b' assms(2) by (intro that [of "s\<lparr>so_buffer := b'\<rparr>"]) (simp_all add: readable_event_def)
qed

text \<open>A packet that arrives over any number of events, each with any number of chunks.\<close>

lemma receive_packet:
  assumes "buffer_inv (so_buffer s)" "so_open s" "\<forall>rs \<in> set (rss @ [rs]). chunked rs" "bson_parse fuel xs = Done obj"
    and "pending (so_buffer s) @ concat (map script_data (rss @ [rs])) = packet_of xs @ rest"
    and "length (packet_of xs @ rest) < MAX_BUFFER_SIZE"
    and "length (pending (so_buffer s) @ concat (map script_data rss)) < length (packet_of xs)"
  shows "\<exists>s' msgs. receive fuel ps (rss @ [rs]) s = Done (s', msgs @ [\<lparr>msg_ps = ps, msg_request = obj\<rparr>])
    \<and> so_open s' \<and> pending (so_buffer s') = rest"
  using assms
proof (induction rss arbitrary: s)
  case Nil
  then obtain s' where "readable_event fuel ps rs s = Done (s', 0, Some \<lparr>msg_ps = ps, msg_request = obj\<rparr>)"
      "so_open s'" "pending (so_buffer s') = rest"
    using completing_event [of s rs fuel xs obj rest ps] by auto
  then show ?case by simp
next
  case (Cons rs1 rss)
  let ?k = "length (pending (so_buffer s) @ script_data rs1)"
  have k: "?k < length (packet_of xs)" using Cons.prems(7) by simp
  have eq: "pending (so_buffer s) @ script_data rs1 = take ?k (packet_of xs)"
  proof -
    have "pending (so_buffer s) @ script_data rs1 = take ?k (packet_of xs @ rest)"
      unfolding Cons.prems(5) [symmetric] by simp
    then show ?thesis using k by simp
  qed
  have len: "length xs < 2 ^ 32" "?k < MAX_BUFFER_SIZE"
    using Cons.prems(6) k by (simp_all add: length_packet MAX_BUFFER_SIZE_def)
  obtain s1 msg where s1: "readable_event fuel ps rs1 s = Done (s1, 0, msg)" "buffer_inv (so_buffer s1)" "so_open s1"
      "pending (so_buffer s1) = pending (so_buffer s) @ script_data rs1"
    using incomplete_event [OF Cons.prems(1,2) _ len(1) eq k len(2), of fuel ps] Cons.prems(3) eq by auto
  obtain s' msgs where "receive fuel ps (rss @ [rs]) s1 = Done (s', msgs @ [\<lparr>msg_ps = ps, msg_request = obj\<rparr>])"
      "so_open s'" "pending (so_buffer s') = rest"
    using Cons.IH [OF s1(2,3) _ Cons.prems(4)] Cons.prems(3,5-7) s1(4) by auto
  then show ?case
    by (cases msg) (auto simp: s1(1) intro: exI [of _ "_ # _"])
qed


definition sample_response :: bobject where
  "sample_response = [([0x42], BValue (V_object [([0x58], BValue (V_int 7) (Some BSON_INT))]) (Some BSON_OBJECT)),
     ([0x43], BValue (V_string [0x68, 0x69]) (Some BSON_STRING)), ([0x45], BValue (V_bool True) (Some BSON_BOOL))]"

definition sample_received :: bobject where
  "sample_received = [([0x42], BValue (V_object [([0x58], BValue (V_int 7) None)]) None),
     ([0x43], BValue (V_string [0x68, 0x69]) None), ([0x45], BValue (V_int 1) None)]"

text \<open>The sample arrives in two events, the first of twelve bytes, with a byte of the next packet behind it.\<close>

definition idle_socket :: socket_state where
  "idle_socket = \<lparr>so_buffer = \<lparr>m_read = 0, m_write = 0, m_buffer = replicate 8192 0, m_protocol = []\<rparr>, so_open = True\<rparr>"

lemma idle: "buffer_inv (so_buffer idle_socket)" "pending (so_buffer idle_socket) = []" "so_open idle_socket"
    "m_protocol (so_buffer idle_socket) = []"
  by (simp_all add: idle_socket_def buffer_inv_def pending_def MAX_BUFFER_SIZE_def)


text \<open>
  The framing has no bound check: a document of 8183 to 8191 bytes, which
  \<open>serializeToBuffer\<close> accepts into the buffer, makes the framing write behind the block.
\<close>
lemma frame_overflows:
  assumes "buffer_inv buf" "m_read buf = 0" "8182 < readAvailable buf"
  shows "packet_serialize buf = None"
proof -
  have "8182 < length (pending buf)" using assms(3) available_pending [OF assms(1)] by simp
  then show ?thesis using frame_buffer [OF assms(1,2) refl] by simp
qed

lemma frame_overflows_instance:
  "packet_serialize \<lparr>m_read = 0, m_write = 8183, m_buffer = replicate 8192 0\<rparr> = None"
  by (rule frame_overflows)
    (simp_all add: buffer_inv_def MAX_BUFFER_SIZE_def readAvailable_def)

text \<open>
  A packet that arrives in two parts: on the first part \<open>parseFromBuffer\<close> returns 0, which the event
  loop takes for success, so it queues a message with whatever request the socket parsed before.
\<close>

lemma partial_packet_event:
  assumes "buffer_inv (so_buffer s)" "pending (so_buffer s) = []" "so_open s"
    and "10 \<le> k" "k < length (packet_of xs)" "k < 2048" "length xs \<le> 8181"
  shows "\<exists>s'. readable_event fuel ps [R_data (take k (packet_of xs))] s
       = Done (s', 0, Some \<lparr>msg_ps = ps, msg_request = m_protocol (so_buffer s)\<rparr>)"
proof -
  let ?b = "so_buffer s"
  have small: "length (pending ?b) + length (take k (packet_of xs)) < MAX_BUFFER_SIZE"
    using assms by (simp add: MAX_BUFFER_SIZE_def)
  have "\<exists>b'. socket_read ?b SOCKET_CHUNK [R_data (take k (packet_of xs))] = Done (0, b', []) \<and> buffer_inv b'
     \<and> pending b' = pending ?b @ script_data [R_data (take k (packet_of xs))] \<and> m_protocol b' = m_protocol ?b"
    by (rule socket_read_chunks) (use assms small in auto)
  then obtain b' where b': "socket_read ?b SOCKET_CHUNK [R_data (take k (packet_of xs))] = Done (0, b', [])"
      "buffer_inv b'" "pending b' = take k (packet_of xs)" "m_protocol b' = m_protocol ?b"
    using assms(2) by auto
  have parse: "parseFromBuffer fuel b' = Done (0, b')"
    by (rule parse_partial [OF b'(2,3) assms(5)]) (use assms(7) in simp)
  have av: "\<not> readAvailable b' < int packet_sz"
    using assms(4,5) b'(3) by (simp add: available_pending [OF b'(2)] packet_sz_def)
  show ?thesis
    using b' parse av assms(3) by (simp add: readable_event_def Let_def)
qed

text \<open>
  C19. One event, one message: when two packets are complete in the buffer, the event loop queues the
  first and leaves the second pending; the descriptor is edge-triggered, so it stays there
  until the peer sends more.
\<close>
theorem one_packet_per_event:
  assumes "buffer_inv (so_buffer s)" "so_open s" "chunked script"
    and "pending (so_buffer s) @ script_data script = packet_of xs @ packet_of ys"
    and "length (packet_of xs @ packet_of ys) < 8192" "bson_parse fuel xs = Done obj"
  shows "\<exists>s'. on_readable fuel ps script s queue = Done (s', ring_push \<lparr>msg_ps = ps, msg_request = obj\<rparr> queue)
     \<and> pending (so_buffer s') = packet_of ys \<and> so_open s'"
proof -
  let ?b = "so_buffer s"
  have "length (pending ?b) + length (script_data script) = length (packet_of xs @ packet_of ys)"
    using assms(4) by (metis length_append)
  then obtain b' where b': "socket_read ?b SOCKET_CHUNK script = Done (0, b', [])" "buffer_inv b'"
      "pending b' = packet_of xs @ packet_of ys"
    using socket_read_chunks [OF assms(3,1)] assms(4,5) by (auto simp: MAX_BUFFER_SIZE_def)
  obtain b'' where b'': "parseFromBuffer fuel b' = Done (0, b'')" "pending b'' = packet_of ys" "m_protocol b'' = obj"
    using parse_packet [OF b'(2,3) assms(6)] by metis
  have av: "\<not> readAvailable b' < int packet_sz"
    by (simp add: available_pending [OF b'(2)] b'(3) length_packet)
  show ?thesis
    using b' b'' av assms(2) by (simp add: on_readable_def readable_event_def Let_def)
qed

theorem one_packet_per_event_witness:
  "\<exists>s'. on_readable 9 3 [R_data (packet_of [0, 0, 0, 5, 0] @ packet_of [0, 0, 0, 5, 0])] idle_socket new_ring
       = Done (s', ring_push \<lparr>msg_ps = 3, msg_request = []\<rparr> new_ring)
     \<and> pending (so_buffer s') = packet_of [0, 0, 0, 5, 0] \<and> so_open s'"
proof -
  have "bson_parse 9 [0, 0, 0, 5, 0] = Done []"
    using parse_seen [of "[]" 9] by (simp add: doc_bytes_def doc_small_def INT_MAX_def wire32_bytes to_int_def)
  then show ?thesis
    by (intro one_packet_per_event) (simp_all add: idle length_packet packet_sz_def packet_of_ne)
qed

text \<open>
  The version field of the head is the peer's: a head with version zero and a body that has arrived
  makes the decoder divide by zero.
\<close>
lemma zero_version_faults:
  assumes "buffer_inv b" "n \<le> length ys" "n \<le> 8192"
    and "pending b = head_bytes \<lparr>pk_sync = of_mem32 verifyKey, pk_version = 0, pk_size = htonl (of_nat n)\<rparr> @ ys"
  shows "parseFromBuffer fuel b = Fault"
proof -
  let ?h = "\<lparr>pk_sync = of_mem32 verifyKey, pk_version = 0, pk_size = htonl (of_nat n)\<rparr>"
  have av: "readAvailable b = int (packet_sz + length ys)"
    by (simp add: available_pending [OF assms(1)] assms(4))
  have raw: "rdn (m_buffer b) (int (unat (m_read b))) packet_sz = Some (head_bytes ?h)"
    using rdn_pending [OF assms(1), of 0 packet_sz] assms(4) by simp
  have n: "unat (of_nat n :: i32) = n" using assms(3) by (intro unat_of_nat_small) simp
  have v: "htons 0 = 0" by (simp add: htons_def mem16_def of_mem16_def)
  have if1: "(readAvailable b < int packet_sz) = False" using av by simp
  show ?thesis
    unfolding parseFromBuffer_def if1 raw lift_fault_simps head_round_trip Let_def
    using av n assms(2,3) by (simp add: v parse_body_def mem32_of_mem32 verifyKey_def MAX_BUFFER_SIZE_def)
qed

lemma zero_version_faults_instance:
  "parseFromBuffer 9 \<lparr>m_read = 0, m_write = 10, m_buffer = head_bytes \<lparr>pk_sync = of_mem32 verifyKey, pk_version = 0,
     pk_size = 0\<rparr> @ replicate 8182 0, m_protocol = []\<rparr> = Fault"
  by (rule zero_version_faults [of _ 0 "[]"])
    (simp_all add: buffer_inv_def pending_def MAX_BUFFER_SIZE_def packet_sz_def htonl_def mem32_def of_mem32_def)

end
