(* ===== verification/Game_State.thy ===== *)
theory Game_State
  imports Database
begin

text \<open>
  What one player's requests work on: the role (\<open>role.h\<close>, \<open>role.cpp\<close>), its items and gems
  (\<open>item.h\<close>, \<open>item.cpp\<close>), the souls (\<open>souls_bag.h\<close>), the database connection
  (\<open>mysql/dbconnection.h\<close>) and what has been sent to the client.

  Items are shared pointers held by the bag's map, its vector and the list of equipment at once, and
  souls are raw pointers that are deleted by hand, so both live in stores indexed by address; an address
  without an object is a freed or null pointer, and following it is a fault.
\<close>

section \<open>The database connection\<close>

text \<open>
  The requests see the connection of \<open>Database\<close> through the statements executed so far: what the
  server answers is a parameter, a function of them.  A row maps column names to texts, or to nothing.
\<close>

type_synonym db_row = "(byte list \<times> byte list option) list"

record game_env =
  ge_items :: item_tables
  ge_souls :: soul_tables
  ge_casts :: casts
  ge_ok :: "statement list \<Rightarrow> bool"
  ge_autoId :: "statement list \<Rightarrow> int"
  ge_rows :: "statement list \<Rightarrow> db_row list"
  ge_time :: "nat \<Rightarrow> i32"
  ge_rand :: "nat \<Rightarrow> int"
  ge_percent_less :: "int \<Rightarrow> i64 \<Rightarrow> bool"

text \<open>
  \<open>ge_time k\<close> is the result of the k-th call of \<open>time(0)\<close>, \<open>ge_rand k\<close> of the k-th
  call of \<open>rand()\<close>, and \<open>ge_percent_less n d\<close> the comparison \<open>n / 100.0 < d\<close>.

  \<open>getInteger\<close>, \<open>getSmallint\<close> and \<open>getString\<close> of a row and column.
\<close>

definition db_get :: "db_row list \<Rightarrow> nat \<Rightarrow> string \<Rightarrow> byte list option" where
  "db_get rows i col = (if i < length rows then (case map_of (rows ! i) (str col) of None \<Rightarrow> None | Some v \<Rightarrow> v) else None)"

definition getInteger :: "casts \<Rightarrow> db_row list \<Rightarrow> nat \<Rightarrow> string \<Rightarrow> cxx_exception + int" where
  "getInteger L rows i col = (case db_get rows i col of None \<Rightarrow> Inr (-1) | Some s \<Rightarrow> lexical_cast (lx_int L) (c_str s))"

definition getSmallint :: "casts \<Rightarrow> db_row list \<Rightarrow> nat \<Rightarrow> string \<Rightarrow> cxx_exception + int" where
  "getSmallint L rows i col = (case db_get rows i col of None \<Rightarrow> Inr (-1) | Some s \<Rightarrow> lexical_cast (lx_short L) (c_str s))"

definition getString :: "db_row list \<Rightarrow> nat \<Rightarrow> string \<Rightarrow> byte list" where
  "getString rows i col = (case db_get rows i col of None \<Rightarrow> [] | Some s \<Rightarrow> c_str s)"

section \<open>Items\<close>

record gem =
  gm_id :: int
  gm_gemId :: int
  gm_pos :: int
  gm_exp :: int

definition GEM_FRAGMENT_ID :: int where "GEM_FRAGMENT_ID = 21000"
definition ITEM_STATE_NORMAL :: int where "ITEM_STATE_NORMAL = 0"
definition ITEM_STATE_DELETED :: int where "ITEM_STATE_DELETED = 100"

text \<open>
  The scalar fields live in a generated protobuf message with 32-bit fields; the accessors declared
  \<open>short\<close> narrow on the way out, and the setters on the way in.
\<close>

record item =
  im_template :: item_template
  im_id :: int
  im_itemId :: int
  im_level :: int
  im_quality :: int
  im_roleId :: int
  im_num :: int
  im_index :: int
  im_isEquip :: bool
  im_state :: int
  im_gems :: "gem option list"

definition new_item :: "item_template \<Rightarrow> item" where
  "new_item it = \<lparr>im_template = it, im_id = 0, im_itemId = 0, im_level = 0, im_quality = 0, im_roleId = 0,
     im_num = 0, im_index = 0, im_isEquip = False, im_state = 0, im_gems = []\<rparr>"

definition item_number :: "item \<Rightarrow> int" where "item_number it = wrap16 (im_num it)"

definition set_number :: "int \<Rightarrow> item \<Rightarrow> item" where "set_number v it = it\<lparr>im_num := wrap16 v\<rparr>"

definition addNum :: "int \<Rightarrow> item \<Rightarrow> item" where
  "addNum v it = it\<lparr>im_num := item_number it + wrap16 v\<rparr>"

definition createItem :: "item_template \<Rightarrow> int \<Rightarrow> int \<Rightarrow> item" where
  "createItem it roleId itemNum =
     set_number (wrap16 itemNum) ((new_item it)\<lparr>im_itemId := tp_itemId it, im_roleId := roleId\<rparr>)"

text \<open>
  \<open>addGem\<close>: \<open>pos\<close> is a signed \<open>char\<close>.  A negative position passes both tests and indexes the vector
  out of bounds.
\<close>

definition addGem :: "gem \<Rightarrow> item \<Rightarrow> (bool \<times> item) option" where
  "addGem g it =
     (if 0 \<le> gm_pos g \<and> gm_pos g < int (length (im_gems it)) \<and> im_gems it ! nat (gm_pos g) \<noteq> None
      then Some (False, it)
      else do {
        let gems = (if int (length (im_gems it)) \<le> gm_pos g
                    then vec_grow (nat (gm_pos g + 1)) None (im_gems it) else im_gems it);
        gems \<leftarrow> vec_set gems (gm_pos g) (Some g);
        Some (True, it\<lparr>im_gems := gems\<rparr>)
      })"

definition getGemById :: "int \<Rightarrow> item \<Rightarrow> gem option" where
  "getGemById dbid it =
     (case List.find (\<lambda>g. case g of None \<Rightarrow> False | Some g \<Rightarrow> gm_id g = dbid) (im_gems it) of
        None \<Rightarrow> None | Some g \<Rightarrow> g)"

section \<open>Souls\<close>

definition SOUL_ITEM_TYPE_HUNTED :: int where "SOUL_ITEM_TYPE_HUNTED = 0"
definition SOUL_ITEM_TYPE_IN_BAG :: int where "SOUL_ITEM_TYPE_IN_BAG = 1"
definition SOUL_ITEM_TYPE_EQUIPPED :: int where "SOUL_ITEM_TYPE_EQUIPPED = 2"
definition SOUL_ITEM_TYPE_DELETED :: int where "SOUL_ITEM_TYPE_DELETED = 100"

record soul_item =
  sl_template :: item_template
  sl_id :: int
  sl_soulId :: int
  sl_index :: int
  sl_type :: int
  sl_exp :: int

definition new_soul :: "item_template \<Rightarrow> soul_item" where
  "new_soul it = \<lparr>sl_template = it, sl_id = 0, sl_soulId = 0, sl_index = 0,
     sl_type = SOUL_ITEM_TYPE_HUNTED, sl_exp = 0\<rparr>"

definition soul_quality :: "soul_item \<Rightarrow> int" where "soul_quality s = tp_quality (sl_template s)"

definition soul_addExp :: "int \<Rightarrow> soul_item \<Rightarrow> soul_item" where
  "soul_addExp v s = (let e = wrap32 (sl_exp s + v) in s\<lparr>sl_exp := (if e < 0 then 0 else e)\<rparr>)"

section \<open>The role\<close>

text \<open>\<open>rl_info\<close> is the identifier inside the \<open>RoleInfo\<close> the role points to.\<close>

record role =
  rl_id :: int
  rl_profession :: int
  rl_money :: int
  rl_gold :: int
  rl_name :: "byte list"
  rl_level :: int
  rl_vipLevel :: int
  rl_exp :: int
  rl_soulsValue :: int
  rl_soulsIndex :: int
  rl_info :: "int option"
  rl_equips :: "nat list"

definition addMoney :: "int \<Rightarrow> role \<Rightarrow> role" where
  "addMoney val r = (let v = wrap32 (rl_money r + val) in r\<lparr>rl_money := (if v < 0 then 0 else v)\<rparr>)"

definition addSoulsValue :: "int \<Rightarrow> role \<Rightarrow> role" where
  "addSoulsValue val r = (let v = wrap32 (rl_soulsValue r + val) in r\<lparr>rl_soulsValue := (if v < 0 then 0 else v)\<rparr>)"

definition addSoulsIndex :: "int \<Rightarrow> role \<Rightarrow> role" where
  "addSoulsIndex val r = r\<lparr>rl_soulsIndex := wrap16 (rl_soulsIndex r) + val\<rparr>"

section \<open>The state of a session\<close>

record item_bag =
  bg_lastSync :: i32
  bg_map :: "(int, nat) std_map"
  bg_items :: "nat option list"

definition DEFAULT_BAG_CELL :: nat where "DEFAULT_BAG_CELL = 25"

definition new_bag :: item_bag where
  "new_bag = \<lparr>bg_lastSync = 0, bg_map = [], bg_items = replicate DEFAULT_BAG_CELL None\<rparr>"

record souls_bag =
  sb_hunted :: "(int, nat) std_map"
  sb_bag :: "(int, nat) std_map"
  sb_vect :: "nat option list"
  sb_equipped :: "(int, nat) std_map"

definition new_souls_bag :: souls_bag where
  "new_souls_bag = \<lparr>sb_hunted = [], sb_bag = [], sb_vect = [], sb_equipped = []\<rparr>"

record player =
  pl_role :: role
  pl_bag :: item_bag
  pl_items :: "nat \<Rightarrow> item option"
  pl_souls_bag :: souls_bag
  pl_souls :: "nat \<Rightarrow> soul_item option"
  pl_fresh :: nat
  pl_log :: "statement list"
  pl_sent :: "bobject list"
  pl_ticks :: nat
  pl_rolls :: nat

text \<open>Access through a pointer, and assignment through one.\<close>

definition item_at :: "player \<Rightarrow> nat \<Rightarrow> item option" where "item_at p r = pl_items p r"

definition put_item :: "nat \<Rightarrow> item \<Rightarrow> player \<Rightarrow> player" where
  "put_item r it p = p\<lparr>pl_items := (pl_items p)(r := Some it)\<rparr>"

definition soul_at :: "player \<Rightarrow> nat \<Rightarrow> soul_item option" where "soul_at p r = pl_souls p r"

definition put_soul :: "nat \<Rightarrow> soul_item \<Rightarrow> player \<Rightarrow> player" where
  "put_soul r s p = p\<lparr>pl_souls := (pl_souls p)(r := Some s)\<rparr>"

text \<open>\<open>new\<close> takes an address no object has had.\<close>

definition alloc_item :: "item \<Rightarrow> player \<Rightarrow> nat \<times> player" where
  "alloc_item it p = (pl_fresh p, put_item (pl_fresh p) it (p\<lparr>pl_fresh := Suc (pl_fresh p)\<rparr>))"

definition alloc_soul :: "soul_item \<Rightarrow> player \<Rightarrow> nat \<times> player" where
  "alloc_soul s p = (pl_fresh p, put_soul (pl_fresh p) s (p\<lparr>pl_fresh := Suc (pl_fresh p)\<rparr>))"

definition execute :: "game_env \<Rightarrow> string \<Rightarrow> sql_arg list \<Rightarrow> player \<Rightarrow> (bool \<times> player) option" where
  "execute E fmt args p =
     (let log = pl_log p @ [Statement fmt args] in
      if statement_text (Statement fmt args) = None then None else Some (ge_ok E log, p\<lparr>pl_log := log\<rparr>))"

definition autoId :: "game_env \<Rightarrow> player \<Rightarrow> int" where "autoId E p = wrap32 (ge_autoId E (pl_log p))"

definition db_rows :: "game_env \<Rightarrow> player \<Rightarrow> db_row list" where "db_rows E p = ge_rows E (pl_log p)"

definition getCurrentSecond :: "game_env \<Rightarrow> player \<Rightarrow> i32 \<times> player" where
  "getCurrentSecond E p = (ge_time E (pl_ticks p), p\<lparr>pl_ticks := Suc (pl_ticks p)\<rparr>)"

definition roll :: "game_env \<Rightarrow> player \<Rightarrow> int \<times> player" where
  "roll E p = (ge_rand E (pl_rolls p), p\<lparr>pl_rolls := Suc (pl_rolls p)\<rparr>)"

section \<open>Writing back\<close>

definition role_update :: string where
  "role_update = ''update roles set money=%d, gold=%d, profession=%d, role_lvl=%d, role_exp=%d,role_name='%s',vip_lvl=%d, souls_index=%d, souls_value=%d where id=%d''"

definition flush_role :: "game_env \<Rightarrow> player \<Rightarrow> player option" where
  "flush_role E p = (let r = pl_role p in
     map_option snd (execute E role_update [D (rl_money r), D (rl_gold r), D (wrap16 (rl_profession r)), D (wrap16 (rl_level r)),
        D (rl_exp r), S (c_str (rl_name r)), D (wrap16 (rl_vipLevel r)), D (wrap16 (rl_soulsIndex r)),
        D (rl_soulsValue r), D (rl_id r)] p))"

definition item_insert :: string where
  "item_insert = ''insert into items(role_id, item_id, number, item_idx) values(%d, %d, %d, %d)''"

definition item_update :: string where
  "item_update = ''update items set role_id=%d, number=%d, item_idx=%d, state=%d, level=%d, quality=%d, gems='%s' where id=%d''"

definition flush_new_item :: "game_env \<Rightarrow> nat \<Rightarrow> player \<Rightarrow> player option" where
  "flush_new_item E r p = do {
     it \<leftarrow> item_at p r;
     (good, p) \<leftarrow> execute E item_insert [D (im_roleId it), D (im_itemId it), D (item_number it), D (wrap16 (im_index it))] p;
     Some (if good then put_item r (it\<lparr>im_id := autoId E p\<rparr>) p else p)
   }"

text \<open>
  The gem text: a null gem in the vector is dereferenced, \<open>pos\<close> is streamed as a character, nothing
  stands between two gems, and the last character is cut off.  \<open>c_str\<close> stops at a position of 0.
\<close>

definition gem_text :: "gem \<Rightarrow> byte list" where
  "gem_text g = int_text (gm_id g) @ [0x2C] @ int_text (gm_gemId g) @ [0x2C] @ [word_of_int (gm_pos g)] @ [0x2C]
     @ int_text (gm_exp g)"

definition gems_text :: "gem option list \<Rightarrow> byte list option" where
  "gems_text gems = (if None \<in> set gems then None else Some (butlast (concat (map (gem_text \<circ> the) gems))))"

definition flush_item :: "game_env \<Rightarrow> nat \<Rightarrow> player \<Rightarrow> player option" where
  "flush_item E r p = do {
     it \<leftarrow> item_at p r;
     let it = (if item_number it = 0 then it\<lparr>im_state := ITEM_STATE_DELETED\<rparr> else it);
     gems \<leftarrow> gems_text (im_gems it);
     map_option snd (execute E item_update [D (im_roleId it), D (item_number it), D (wrap16 (im_index it)),
       D (wrap16 (im_state it)), D (wrap16 (im_level it)), D (wrap16 (im_quality it)), S (c_str gems), D (im_id it)]
       (put_item r it p))
   }"

definition soul_insert :: string where
  "soul_insert = ''insert into souls(soul_id, idx, type, exp, role_id) values(%d, %d, %d, %d, %d)''"

definition soul_update :: string where
  "soul_update = ''update souls set soul_id=%d, idx=%d, type=%d, exp=%d where id=%d''"

definition flush_new_soul :: "game_env \<Rightarrow> nat \<Rightarrow> int \<Rightarrow> player \<Rightarrow> player option" where
  "flush_new_soul E r roleId p = do {
     s \<leftarrow> soul_at p r;
     (good, p) \<leftarrow> execute E soul_insert [D (sl_soulId s), D (wrap16 (sl_index s)), D (wrap16 (sl_type s)), D (sl_exp s), D roleId] p;
     Some (if good then put_soul r (s\<lparr>sl_id := autoId E p\<rparr>) p else p)
   }"

definition flush_soul :: "game_env \<Rightarrow> nat \<Rightarrow> int \<Rightarrow> player \<Rightarrow> player option" where
  "flush_soul E r roleId p = do {
     s \<leftarrow> soul_at p r;
     map_option snd (execute E soul_update [D (sl_soulId s), D (wrap16 (sl_index s)), D (wrap16 (sl_type s)), D (sl_exp s), D (sl_id s)] p)
   }"

text \<open>
  Statements of numbers alone always fit the buffer; the text of the gems and the name of the role are
  what can overflow it.
\<close>

lemma number_statements_fit [simp]:
  "statement_text (Statement item_insert [D a, D b, D c, D d]) \<noteq> None"
  "statement_text (Statement soul_insert [D a, D b, D c, D d, D e]) \<noteq> None"
  "statement_text (Statement soul_update [D a, D b, D c, D d, D e]) \<noteq> None"
  by (rule statement_fits; simp add: item_insert_def soul_insert_def soul_update_def directive_ok_def STATEMENT_BUFFER_def)+

lemma item_update_fits:
  "length s \<le> 800 \<Longrightarrow> statement_text (Statement item_update [D a, D b, D c, D d, D e, D f, S (c_str s), D g]) \<noteq> None"
  using c_str_length [of s]
  by (intro statement_fits) (simp_all add: item_update_def directive_ok_def STATEMENT_BUFFER_def)

lemma role_update_fits:
  "length s \<le> 700 \<Longrightarrow> statement_text (Statement role_update [D a, D b, D c, D d, D e, S (c_str s), D f, D g, D h, D i]) \<noteq> None"
  using c_str_length [of s]
  by (intro statement_fits) (simp_all add: role_update_def directive_ok_def STATEMENT_BUFFER_def)

section \<open>Requests and responses\<close>

text \<open>
  A handler either faults (\<open>None\<close>) or ends with an exception or its boolean result, in the state it
  has reached: the dispatcher catches exceptions and keeps the state.  The state is that of one player
  here, that of the whole server in the lobby.
\<close>

type_synonym 's handled = "('s \<times> (cxx_exception + bool)) option"

type_synonym outcome_of = "player handled"

definition returns :: "bool \<Rightarrow> 's \<Rightarrow> 's handled" where
  "returns v p = Some (p, Inr v)"

definition throws :: "cxx_exception \<Rightarrow> 's \<Rightarrow> 's handled" where
  "throws e p = Some (p, Inl e)"

definition get_or_throw :: "cxx_exception + 'a \<Rightarrow> 's \<Rightarrow> ('a \<Rightarrow> 's handled) \<Rightarrow> 's handled" where
  "get_or_throw g p k = (case g of Inl e \<Rightarrow> throws e p | Inr v \<Rightarrow> k v)"

definition then_do :: "'s handled \<Rightarrow> ('s \<Rightarrow> 's handled) \<Rightarrow> 's handled" where
  "then_do m k = (case m of None \<Rightarrow> None | Some (p, Inl e) \<Rightarrow> Some (p, Inl e) | Some (p, Inr _) \<Rightarrow> k p)"

definition field_int :: "bobject \<Rightarrow> string \<Rightarrow> 's \<Rightarrow> (int \<Rightarrow> 's handled) \<Rightarrow> 's handled" where
  "field_int request name p k =
     get_or_throw (getIntVal (str name) request) p (\<lambda>v. k (sint v))"

definition field_str :: "bobject \<Rightarrow> string \<Rightarrow> 's \<Rightarrow> (byte list \<Rightarrow> 's handled) \<Rightarrow> 's handled" where
  "field_str request name p k = get_or_throw (getStringVal (str name) request) p k"

definition obj_int :: "string \<Rightarrow> int \<Rightarrow> bobject \<Rightarrow> bobject" where
  "obj_int name v obj = setIntVal obj (str name) (word_of_int v)"

definition obj_bool :: "string \<Rightarrow> bool \<Rightarrow> bobject \<Rightarrow> bobject" where
  "obj_bool name v obj = setBoolVal obj (str name) v"

definition obj_str :: "string \<Rightarrow> byte list \<Rightarrow> bobject \<Rightarrow> bobject" where
  "obj_str name v obj = setStringVal obj (str name) v"

definition obj_obj :: "string \<Rightarrow> bobject \<Rightarrow> bobject \<Rightarrow> bobject" where
  "obj_obj name v obj = setObjectVal obj (str name) v"

definition obj_array :: "string \<Rightarrow> bvalue list \<Rightarrow> bobject \<Rightarrow> bobject" where
  "obj_array name v obj = setArrayVal obj (str name) v"

text \<open>An array element: \<open>val.valueType = BSON_OBJECT; val = obj\<close>.\<close>

definition obj_value :: "bobject \<Rightarrow> bvalue" where
  "obj_value obj = BValue (V_object obj) (Some BSON_OBJECT)"

text \<open>
  The end of every handler: the response is built from its command and body, and the object is
  serialised, framed and sent.  The state records the object; what becomes of it on its way to the
  wire is shown in \<open>Replies\<close>.
\<close>

definition reply :: "string \<Rightarrow> bobject \<Rightarrow> bobject" where
  "reply command body = obj_obj ''Body'' body (obj_str ''Command'' (str command) [])"

definition respond :: "string \<Rightarrow> bobject \<Rightarrow> player \<Rightarrow> player" where
  "respond command body p =
     p\<lparr>pl_sent := pl_sent p @ [reply command body]\<rparr>"

definition error_body :: "int \<Rightarrow> bobject" where
  "error_body code = obj_int ''ErrorMsg'' code (obj_bool ''Error'' True [])"

end
