(* ===== verification/Item_Bag.thy ===== *)
theory Item_Bag
  imports Game_State "HOL-Library.Product_Lexorder"
begin

text \<open>
  The item bag, \<open>item_bag.cpp\<close>: a vector of cells and a map from database identifiers, both
  pointing to the same items.  Cell 0 is never used.
\<close>

definition cells :: "player \<Rightarrow> nat option list" where "cells p = bg_items (pl_bag p)"

definition set_cells :: "nat option list \<Rightarrow> player \<Rightarrow> player" where
  "set_cells v p = p\<lparr>pl_bag := (pl_bag p)\<lparr>bg_items := v\<rparr>\<rparr>"

definition set_bag_map :: "(int, nat) std_map \<Rightarrow> player \<Rightarrow> player" where
  "set_bag_map m p = p\<lparr>pl_bag := (pl_bag p)\<lparr>bg_map := m\<rparr>\<rparr>"

definition stack_num :: "item \<Rightarrow> int" where "stack_num it = tp_stackNum (im_template it)"

section \<open>Operations\<close>

definition bag_get :: "int \<Rightarrow> player \<Rightarrow> nat option" where
  "bag_get iid p = std_find iid (bg_map (pl_bag p))"

definition bag_isFull :: "player \<Rightarrow> bool" where "bag_isFull p = False"

definition listItems :: "player \<Rightarrow> nat list" where
  "listItems p = map the (filter (\<lambda>c. c \<noteq> None) (cells p))"

definition getItemCountByTemplateId :: "int \<Rightarrow> player \<Rightarrow> int option" where
  "getItemCountByTemplateId tid p = do {
     its \<leftarrow> those (map (\<lambda>(_, r). item_at p r) (bg_map (pl_bag p)));
     Some (int (length (filter (\<lambda>it. im_itemId it = tid) its)))
   }"

text \<open>The first free cell from 1 on; the vector grows by one cell when there is none.\<close>

definition free_cell :: "nat option list \<Rightarrow> nat" where
  "free_cell v = (case List.find (\<lambda>i. v ! i = None) [1..<length v] of
     Some i \<Rightarrow> i | None \<Rightarrow> max 1 (length v))"

definition addItem :: "nat \<Rightarrow> player \<Rightarrow> player option" where
  "addItem r p = do {
     it \<leftarrow> item_at p r;
     let idx = free_cell (cells p);
     let it = it\<lparr>im_index := wrap16 (int idx)\<rparr>;
     let v = vec_grow (idx + 1) None (cells p);
     Some (set_bag_map (std_assign (im_id it) r (bg_map (pl_bag p))) (set_cells (v[idx := Some r]) (put_item r it p)))
   }"

definition removeItem :: "nat \<Rightarrow> bool \<Rightarrow> player \<Rightarrow> player option" where
  "removeItem r resideInMap p = do {
     it \<leftarrow> item_at p r;
     let idx = wrap16 (im_index it);
     let p = (if 1 \<le> idx \<and> idx < wrap16 (int (length (cells p)))
              then set_cells ((cells p)[nat idx := None]) p else p);
     Some (if resideInMap then p else set_bag_map (std_erase (im_id it) (bg_map (pl_bag p))) p)
   }"

text \<open>The loop of \<open>stackItem\<close> over the cells, from index \<open>i\<close> on.\<close>

fun stack_cells :: "nat \<Rightarrow> int \<Rightarrow> nat option list \<Rightarrow> player \<Rightarrow> player option" where
  "stack_cells r stackNum [] p = Some p"
| "stack_cells r stackNum (c # cs) p = do {
     it \<leftarrow> item_at p r;
     case c of
       None \<Rightarrow> stack_cells r stackNum cs p
     | Some c \<Rightarrow>
         if item_number it \<le> 0 then stack_cells r stackNum cs p
         else do {
           m \<leftarrow> item_at p c;
           if im_itemId m \<noteq> im_itemId it then stack_cells r stackNum cs p
           else if item_number m + item_number it \<le> stackNum then do {
             let p = put_item c (addNum (item_number it) m) p;
             it \<leftarrow> item_at p r;
             Some (put_item r (set_number 0 it) p)
           }
           else do {
             let p = put_item r (addNum (item_number m - stackNum) it) p;
             m \<leftarrow> item_at p c;
             stack_cells r stackNum cs (put_item c (set_number stackNum m) p)
           }
         }
   }"

definition stackItem :: "nat \<Rightarrow> player \<Rightarrow> (bool \<times> player) option" where
  "stackItem r p = do {
     it \<leftarrow> item_at p r;
     if stack_num it = 0 then Some (False, p)
     else map_option (\<lambda>p. (True, p)) (stack_cells r (stack_num it) (cells p) p)
   }"

text \<open>
  \<open>moveItem\<close>.  \<open>m_items[fromIdx]\<close> is indexed with whatever index the item carries.
\<close>

definition move_swap :: "game_env \<Rightarrow> nat \<Rightarrow> int \<Rightarrow> nat option \<Rightarrow> int \<Rightarrow> player \<Rightarrow> player option" where
  "move_swap E from fromIdx to toIdx p = do {
     a \<leftarrow> vec_nth (cells p) fromIdx;
     b \<leftarrow> vec_nth (cells p) toIdx;
     let p = set_cells ((cells p)[nat fromIdx := b, nat toIdx := a]) p;
     it \<leftarrow> item_at p from;
     let p = put_item from (it\<lparr>im_index := toIdx\<rparr>) p;
     p \<leftarrow> (case to of
            None \<Rightarrow> Some p
          | Some t \<Rightarrow> do {
              it \<leftarrow> item_at p t;
              flush_item E t (put_item t (it\<lparr>im_index := fromIdx\<rparr>) p)
            });
     flush_item E from p
   }"

definition move_merge :: "game_env \<Rightarrow> nat \<Rightarrow> nat \<Rightarrow> player \<Rightarrow> player option" where
  "move_merge E from to p = do {
     f \<leftarrow> item_at p from;
     t \<leftarrow> item_at p to;
     p \<leftarrow> (if item_number t + item_number f \<le> stack_num f then do {
             let p = put_item to (addNum (item_number f) t) p;
             f \<leftarrow> item_at p from;
             removeItem from False (put_item from (set_number 0 f) p)
           }
           else do {
             let p = put_item from (addNum (item_number t - stack_num f) f) p;
             t \<leftarrow> item_at p to;
             Some (put_item to (set_number (stack_num f) t) p)
           });
     p \<leftarrow> flush_item E from p;
     flush_item E to p
   }"

definition moveItem :: "game_env \<Rightarrow> int \<Rightarrow> int \<Rightarrow> player \<Rightarrow> player option" where
  "moveItem E fromId toIdx p =
     (if toIdx < 1 \<or> wrap16 (int (length (cells p))) \<le> toIdx then Some p
      else (case bag_get fromId p of
        None \<Rightarrow> Some p
      | Some from \<Rightarrow> do {
          f \<leftarrow> item_at p from;
          to \<leftarrow> vec_nth (cells p) toIdx;
          case to of
            None \<Rightarrow> move_swap E from (wrap16 (im_index f)) None toIdx p
          | Some t \<Rightarrow> do {
              ti \<leftarrow> item_at p t;
              if im_itemId f \<noteq> im_itemId ti \<or> stack_num f = 0
              then move_swap E from (wrap16 (im_index f)) (Some t) toIdx p
              else move_merge E from t p
            }
        }))"

section \<open>Sorting\<close>

text \<open>
  \<open>std::sort\<close> by \<open>ItemCompare\<close>: type, then identifier.  Then the loop that packs stacks: one
  pass of it over an item ends with the item taken, or asks for the same item again
  (\<open>--i\<close>).  \<open>m_items.back()\<close> is the null pointer of cell 0 as long as nothing was taken.
\<close>

definition sort_key_of :: "player \<Rightarrow> nat \<Rightarrow> int \<times> int" where
  "sort_key_of p r = (case item_at p r of
     None \<Rightarrow> (0, 0) | Some it \<Rightarrow> (tp_itemType (im_template it), im_id it))"

definition pack_one :: "nat \<Rightarrow> nat option list \<Rightarrow> player \<Rightarrow> (bool \<times> nat option list \<times> player) option" where
  "pack_one r v p = do {
     it \<leftarrow> item_at p r;
     if item_number it \<le> 0 then Some (False, v, p)
     else if stack_num it \<le> 1 \<or> stack_num it \<le> item_number it then Some (False, v @ [Some r], p)
     else do {
       b \<leftarrow> last v;
       back \<leftarrow> item_at p b;
       if im_itemId it \<noteq> im_itemId back \<or> stack_num back \<le> item_number back then Some (False, v @ [Some r], p)
       else if item_number back + item_number it \<le> stack_num back then do {
         let p = put_item b (addNum (item_number it) back) p;
         it \<leftarrow> item_at p r;
         Some (False, v, put_item r (set_number 0 it) p)
       }
       else do {
         let p = put_item r (addNum (item_number back - stack_num back) it) p;
         back \<leftarrow> item_at p b;
         Some (True, v, put_item b (set_number (stack_num back) back) p)
       }
     }
   }"

fun pack_loop :: "nat \<Rightarrow> nat list \<Rightarrow> nat option list \<Rightarrow> player \<Rightarrow> (nat option list \<times> player) outcome" where
  "pack_loop fuel [] v p = Done (v, p)"
| "pack_loop 0 (r # rs) v p = Timeout"
| "pack_loop (Suc fuel) (r # rs) v p =
     lift_fault (pack_one r v p) (\<lambda>(again, v, p). pack_loop fuel (if again then r # rs else rs) v p)"

fun set_indices :: "nat \<Rightarrow> nat option list \<Rightarrow> player \<Rightarrow> player option" where
  "set_indices i [] p = Some p"
| "set_indices i (c # cs) p = do {
     r \<leftarrow> c;
     it \<leftarrow> item_at p r;
     set_indices (Suc i) cs (put_item r (it\<lparr>im_index := wrap16 (int i)\<rparr>) p)
   }"

definition sort_bag :: "player \<Rightarrow> player outcome" where
  "sort_bag p =
     (let items = map the (filter (\<lambda>c. c \<noteq> None) (drop 1 (cells p))) in
      if \<not> (\<forall>r \<in> set items. item_at p r \<noteq> None) then Fault
      else bind_outcome (pack_loop (2 * length items) (sort_key (sort_key_of p) items) [None] p) (\<lambda>(v, p).
        lift_fault (set_indices 1 (tl v) p) (\<lambda>p.
          Done (set_cells (take DEFAULT_BAG_CELL (vec_grow DEFAULT_BAG_CELL None v)) p))))"

definition sortItems :: "game_env \<Rightarrow> player \<Rightarrow> player outcome" where
  "sortItems E p =
     (case getCurrentSecond E p of (now, p) \<Rightarrow>
        if bg_lastSync (pl_bag p) + 3 > now then Done p
        else (case getCurrentSecond E p of (now, p) \<Rightarrow>
          sort_bag (p\<lparr>pl_bag := (pl_bag p)\<lparr>bg_lastSync := now\<rparr>\<rparr>)))"

section \<open>Loading\<close>

text \<open>The gem text of a row: fields that are not four numbers are skipped, \<open>pos\<close> becomes a \<open>char\<close>.\<close>

definition wrap8 :: "int \<Rightarrow> int" where "wrap8 x = signed_take_bit 7 x"

fun load_gems :: "casts \<Rightarrow> byte list list \<Rightarrow> cxx_exception + gem list" where
  "load_gems L [] = Inr []"
| "load_gems L (f # fs) =
     (case split f 0x2C of
        [a, b, c, d] \<Rightarrow>
          (case (lx_int L a, lx_int L b, lx_int L c, lx_int L d) of
             (Some a, Some b, Some c, Some d) \<Rightarrow>
               (case load_gems L fs of
                  Inl e \<Rightarrow> Inl e
                | Inr gs \<Rightarrow> Inr (\<lparr>gm_id = a, gm_gemId = b, gm_pos = wrap8 c, gm_exp = d\<rparr> # gs))
           | _ \<Rightarrow> Inl Bad_lexical_cast)
      | _ \<Rightarrow> load_gems L fs)"

definition gems_of_text :: "casts \<Rightarrow> byte list \<Rightarrow> cxx_exception + gem list" where
  "gems_of_text L text = (if text = [] then Inr [] else load_gems L (split text 0x3B))"

definition load_item :: "game_env \<Rightarrow> db_row list \<Rightarrow> nat \<Rightarrow> player \<Rightarrow> outcome_of" where
  "load_item E rows i p =
     (let L = ge_casts E; num = (\<lambda>col. getInteger L rows i col) in
      get_or_throw (num ''item_id'') p (\<lambda>templateId.
      case get_template (ge_items E) templateId of
        None \<Rightarrow> returns True p
      | Some tp \<Rightarrow>
          get_or_throw (getSmallint L rows i ''state'') p (\<lambda>state.
          if state \<noteq> ITEM_STATE_NORMAL then returns True p
          else
            get_or_throw (num ''id'') p (\<lambda>iid.
            get_or_throw (num ''number'') p (\<lambda>number.
            get_or_throw (num ''item_idx'') p (\<lambda>idx.
            get_or_throw (gems_of_text L (getString rows i ''gems'')) p (\<lambda>gems.
            get_or_throw (getSmallint L rows i ''is_equip'') p (\<lambda>equip.
              let it = set_number number ((new_item tp)\<lparr>im_id := iid, im_roleId := rl_id (pl_role p),
                    im_itemId := templateId, im_index := wrap16 idx, im_gems := map Some gems,
                    im_isEquip := (equip \<noteq> 0)\<rparr>) in
              case alloc_item it p of (r, p) \<Rightarrow> do {
                p \<leftarrow> (if equip \<noteq> 0 then Some (p\<lparr>pl_role := (pl_role p)\<lparr>rl_equips := rl_equips (pl_role p) @ [r]\<rparr>\<rparr>)
                      else do {
                        let v = vec_grow (nat (wrap16 idx + 1)) None (cells p);
                        v \<leftarrow> vec_set v (wrap16 idx) (Some r);
                        Some (set_cells v p)
                      });
                returns True (set_bag_map (std_insert iid r (bg_map (pl_bag p))) p)
              }))))))))"

fun load_items :: "game_env \<Rightarrow> db_row list \<Rightarrow> nat list \<Rightarrow> player \<Rightarrow> outcome_of" where
  "load_items E rows [] p = returns True p"
| "load_items E rows (i # is) p = then_do (load_item E rows i p) (load_items E rows is)"

definition bag_loadFromDB :: "game_env \<Rightarrow> player \<Rightarrow> outcome_of" where
  "bag_loadFromDB E p = do {
     (_, p) \<leftarrow> execute E ''select * from items where role_id = %d'' [D (rl_id (pl_role p))] p;
     let rows = db_rows E p;
     load_items E rows [0..<length rows] p
   }"

end
