(* ===== verification/Item_Servlet.thy ===== *)
theory Item_Servlet
  imports Item_Bag
begin

text \<open>
  The request handlers of \<open>item_servlet.cpp\<close> and \<open>gem_servlet.cpp\<close>.  Each takes the request body
  and the player's state and gives the state behind it, with the result or the exception.
\<close>

definition ERROR_CODE_NO_ERROR :: int where "ERROR_CODE_NO_ERROR = -1"
definition ERROR_NO_ENOUGH_MONEY :: int where "ERROR_NO_ENOUGH_MONEY = 121"
definition BUY_ITEM_ERROR_ITEM_BAG_FULL :: int where "BUY_ITEM_ERROR_ITEM_BAG_FULL = 146"
definition BUY_ITEM_ERROR_NO_ENOUGH_MONEY :: int where "BUY_ITEM_ERROR_NO_ENOUGH_MONEY = 152"
definition STRENGTH_GEM_NO_ENOUGH_FRAGMENT :: int where "STRENGTH_GEM_NO_ENOUGH_FRAGMENT = 158"
definition STRENGTH_EQUIP_ERROR_ROLE_LEVEL_TO_HIGH :: int where "STRENGTH_EQUIP_ERROR_ROLE_LEVEL_TO_HIGH = 200"
definition STRENGTH_EQUIP_ERROR_FAIL :: int where "STRENGTH_EQUIP_ERROR_FAIL = 201"

definition set_role :: "role \<Rightarrow> player \<Rightarrow> player" where "set_role r p = p\<lparr>pl_role := r\<rparr>"

section \<open>Listing\<close>

definition item_object :: "item \<Rightarrow> bobject" where
  "item_object it = obj_int ''Index'' (wrap16 (im_index it)) (obj_int ''Number'' (item_number it)
     (obj_int ''PropId'' (im_itemId it) (obj_int ''Id'' (im_id it) [])))"

definition items_of :: "player \<Rightarrow> item list option" where
  "items_of p = those (map (item_at p) (listItems p))"

definition doLoadItems :: "game_env \<Rightarrow> bobject \<Rightarrow> player \<Rightarrow> outcome_of" where
  "doLoadItems E request p = do {
     its \<leftarrow> items_of p;
     returns True (respond ''OpenPackage'' (obj_array ''Packages'' (map (obj_value \<circ> item_object) its) []) p)
   }"

definition finished :: "'a outcome \<Rightarrow> 'a option" where
  "finished r = (case r of Done x \<Rightarrow> Some x | _ \<Rightarrow> None)"

fun flush_items :: "game_env \<Rightarrow> nat list \<Rightarrow> player \<Rightarrow> player option" where
  "flush_items E [] p = Some p"
| "flush_items E (r # rs) p = do { p \<leftarrow> flush_item E r p; flush_items E rs p }"

definition doSortItems :: "game_env \<Rightarrow> bobject \<Rightarrow> player \<Rightarrow> outcome_of" where
  "doSortItems E request p = do {
     p \<leftarrow> finished (sortItems E p);
     p \<leftarrow> flush_items E (listItems p) p;
     its \<leftarrow> items_of p;
     returns True (respond ''SortPackage'' (obj_array ''Packages'' (map (obj_value \<circ> item_object) its) []) p)
   }"

definition doGetEquipments :: "game_env \<Rightarrow> bobject \<Rightarrow> player \<Rightarrow> outcome_of" where
  "doGetEquipments E request p = do {
     its \<leftarrow> those (map (item_at p) (rl_equips (pl_role p)));
     returns True (respond ''GetBody'' (obj_array ''Equips''
       (map (\<lambda>it. obj_value (obj_int ''Index'' (wrap16 (im_index it)) (obj_int ''Id'' (im_id it) []))) its) []) p)
   }"

definition doGetStrengthEquipInfo :: "game_env \<Rightarrow> bobject \<Rightarrow> player \<Rightarrow> outcome_of" where
  "doGetStrengthEquipInfo E request p =
     field_int request ''Id'' p (\<lambda>dbid.
       case bag_get dbid p of
         None \<Rightarrow> returns True p
       | Some r \<Rightarrow> do {
           it \<leftarrow> item_at p r;
           returns True (respond ''PrevStrengProps'' (obj_int ''PosId'' (tp_strengthNextLevelId (im_template it))
             (obj_int ''PrevId'' (im_itemId it) [])) p)
         })"

text \<open>The array goes into the response, not into its body, and the result is false.\<close>

definition doGetEquipGems :: "game_env \<Rightarrow> bobject \<Rightarrow> player \<Rightarrow> outcome_of" where
  "doGetEquipGems E request p =
     returns False (p\<lparr>pl_sent := pl_sent p @ [obj_obj ''Body'' [] (obj_array ''Gems'' []
       (obj_str ''Command'' (str ''GetEquipGem'') []))]\<rparr>)"

section \<open>Buying and selling\<close>

definition doBuyItem :: "game_env \<Rightarrow> bobject \<Rightarrow> player \<Rightarrow> outcome_of" where
  "doBuyItem E request p =
     field_int request ''Id'' p (\<lambda>itemId. field_int request ''Count'' p (\<lambda>count.
       case get_template (ge_items E) itemId of
         None \<Rightarrow> returns True p
       | Some it \<Rightarrow> do {
           let moneyNeed = wrap32 (tp_price it * count);
           roleId \<leftarrow> rl_info (pl_role p);
           if rl_money (pl_role p) < moneyNeed then
             returns True (respond ''BuyPropFromBodyShop'' (error_body BUY_ITEM_ERROR_NO_ENOUGH_MONEY) p)
           else if bag_isFull p then
             returns True (respond ''BuyPropFromBodyShop'' (error_body BUY_ITEM_ERROR_ITEM_BAG_FULL) p)
           else do {
             p \<leftarrow> flush_role E (set_role ((pl_role p)\<lparr>rl_money := wrap32 (rl_money (pl_role p) - moneyNeed)\<rparr>) p);
             let (r, p) = alloc_item (createItem it roleId (wrap16 count)) p;
             p \<leftarrow> flush_new_item E r p;
             p \<leftarrow> addItem r p;
             i \<leftarrow> item_at p r;
             returns True (respond ''BuyPropFromBodyShop'' (obj_int ''Count'' (item_number i)
               (obj_int ''Index'' (wrap16 (im_index i)) (obj_int ''PropId'' (im_itemId i) (obj_int ''Id'' (im_id i)
                 (obj_int ''Silver'' (rl_money (pl_role p)) []))))) p)
           }
         }))"

definition success_body :: bobject where "success_body = obj_bool ''Success'' True []"

text \<open>\<open>item->state(ITEM_STATE_DELETED)\<close>, written back, and out of the bag.\<close>

definition delete_item :: "game_env \<Rightarrow> nat \<Rightarrow> player \<Rightarrow> player option" where
  "delete_item E r p = do {
     it \<leftarrow> item_at p r;
     p \<leftarrow> flush_item E r (put_item r (it\<lparr>im_state := ITEM_STATE_DELETED\<rparr>) p);
     removeItem r False p
   }"

definition doSellItem :: "game_env \<Rightarrow> bobject \<Rightarrow> player \<Rightarrow> outcome_of" where
  "doSellItem E request p =
     field_int request ''Id'' p (\<lambda>iid.
       case bag_get iid p of
         None \<Rightarrow> returns True p
       | Some r \<Rightarrow> do {
           it \<leftarrow> item_at p r;
           let price = wrap32 (tp_price (im_template it) * item_number it);
           p \<leftarrow> flush_role E (set_role (addMoney price (pl_role p)) p);
           p \<leftarrow> delete_item E r p;
           returns True (respond ''SaleProps'' (obj_bool ''Success'' True (obj_int ''Silver'' (rl_money (pl_role p)) [])) p)
         })"

definition doAddItem :: "game_env \<Rightarrow> bobject \<Rightarrow> player \<Rightarrow> outcome_of" where
  "doAddItem E request p = returns True p"

definition doAbandonItem :: "game_env \<Rightarrow> bobject \<Rightarrow> player \<Rightarrow> outcome_of" where
  "doAbandonItem E request p =
     field_int request ''Id'' p (\<lambda>iid.
       case bag_get iid p of
         None \<Rightarrow> returns True p
       | Some r \<Rightarrow> do {
           p \<leftarrow> delete_item E r p;
           returns True (respond ''AbandonProps'' success_body p)
         })"

section \<open>Moving and equipping\<close>

definition doMoveItem :: "game_env \<Rightarrow> bobject \<Rightarrow> player \<Rightarrow> outcome_of" where
  "doMoveItem E request p =
     field_int request ''Id'' p (\<lambda>fromId. field_int request ''Index'' p (\<lambda>toIdx. do {
       p \<leftarrow> moveItem E fromId (wrap16 toIdx) p;
       returns True (respond ''MoveProps'' success_body p)
     }))"

definition doEquipItem :: "game_env \<Rightarrow> bobject \<Rightarrow> player \<Rightarrow> outcome_of" where
  "doEquipItem E request p =
     field_int request ''Id'' p (\<lambda>dbId.
       case bag_get dbId p of
         None \<Rightarrow> returns True p
       | Some r \<Rightarrow> do {
           it \<leftarrow> item_at p r;
           p \<leftarrow> flush_item E r (put_item r (it\<lparr>im_isEquip := True\<rparr>) p);
           p \<leftarrow> removeItem r True p;
           it \<leftarrow> item_at p r;
           returns True (respond ''InBody'' (obj_int ''Index'' (wrap16 (im_index it)) (obj_int ''PropId'' (im_itemId it)
             (obj_int ''Id'' dbId success_body))) p)
         })"

text \<open>Nothing checks that the item is equipped.\<close>

definition doUnEquipItem :: "game_env \<Rightarrow> bobject \<Rightarrow> player \<Rightarrow> outcome_of" where
  "doUnEquipItem E request p =
     field_int request ''Id'' p (\<lambda>iid.
       case bag_get iid p of
         None \<Rightarrow> returns True p
       | Some r \<Rightarrow> do {
           it \<leftarrow> item_at p r;
           p \<leftarrow> flush_item E r (put_item r (it\<lparr>im_isEquip := False\<rparr>) p);
           p \<leftarrow> addItem r p;
           returns False (respond ''OutBody'' success_body p)
         })"

section \<open>Strengthening\<close>

datatype strength_end =
    Strength_done "item_template option" int int int
  | Strength_error int
  | Strength_return
  | Strength_throw cxx_exception

text \<open>
  The loop of \<open>doStrengthItem\<close>, \<open>n\<close> rounds of it: the last template found, quality, level, the sum of
  the prices and the identifier of the next template.
\<close>

fun strength_loop ::
  "item_tables \<Rightarrow> role \<Rightarrow> nat \<Rightarrow> int \<Rightarrow> item_template option \<Rightarrow> int \<Rightarrow> int \<Rightarrow> int \<Rightarrow> strength_end" where
  "strength_loop m r 0 nextId temp quality level moneyNeed = Strength_done temp quality level moneyNeed"
| "strength_loop m r (Suc n) nextId temp quality level moneyNeed =
     (case getStrengthEquipMoney m quality level of
        Inl e \<Rightarrow> Strength_throw e
      | Inr (equipMoney, quality, level) \<Rightarrow>
          if equipMoney = -1 then Strength_error STRENGTH_EQUIP_ERROR_FAIL
          else if wrap16 (rl_level r) < level then Strength_error STRENGTH_EQUIP_ERROR_ROLE_LEVEL_TO_HIGH
          else
            (let moneyNeed = wrap32 (moneyNeed + equipMoney) in
             if rl_money r < moneyNeed then Strength_error BUY_ITEM_ERROR_NO_ENOUGH_MONEY
             else (case get_template m nextId of
                     None \<Rightarrow> Strength_return
                   | Some temp \<Rightarrow>
                       strength_loop m r n (tp_strengthNextLevelId temp) (Some temp) quality level moneyNeed)))"

definition doStrengthItem :: "game_env \<Rightarrow> bobject \<Rightarrow> player \<Rightarrow> outcome_of" where
  "doStrengthItem E request p =
     field_int request ''Id'' p (\<lambda>equipId. field_int request ''Count'' p (\<lambda>count.
       case bag_get equipId p of
         None \<Rightarrow> returns True p
       | Some ref \<Rightarrow> do {
           it \<leftarrow> item_at p ref;
           let old = im_template it;
           case strength_loop (ge_items E) (pl_role p) (nat count) (tp_strengthNextLevelId old) None
                  (wrap16 (im_quality it)) (wrap16 (im_level it)) 0 of
             Strength_throw e \<Rightarrow> throws e p
           | Strength_return \<Rightarrow> returns True p
           | Strength_error code \<Rightarrow> returns True (respond ''StrengProps'' (error_body code) p)
           | Strength_done temp quality level moneyNeed \<Rightarrow> do {
               let p = set_role ((pl_role p)\<lparr>rl_money := wrap32 (rl_money (pl_role p) - moneyNeed)\<rparr>) p;
               newTemp \<leftarrow> temp;
               p \<leftarrow> flush_item E ref (put_item ref (it\<lparr>im_quality := quality, im_itemId := tp_itemId newTemp,
                      im_template := newTemp, im_level := level\<rparr>) p);
               it \<leftarrow> item_at p ref;
               returns True (respond ''StrengProps'' (obj_int ''Silver'' (rl_money (pl_role p))
                 (obj_int ''Level'' (wrap16 (im_level it)) (obj_int ''Quality'' (wrap16 (im_quality it))
                   (obj_int ''PropId'' (tp_itemId old) (obj_int ''Id'' equipId []))))) p)
             }
         }))"

section \<open>The dispatcher of the item servlet\<close>

definition item_doRequest :: "game_env \<Rightarrow> string \<Rightarrow> bobject \<Rightarrow> player \<Rightarrow> outcome_of" where
  "item_doRequest E ty request p =
     (if ty = ''OpenPackage'' then doLoadItems E request p
      else if ty = ''BuyPropFromBodyShop'' then doBuyItem E request p
      else if ty = ''AppendPackage'' then doAddItem E request p
      else if ty = ''AbandonProps'' then doAbandonItem E request p
      else if ty = ''InBody'' then doEquipItem E request p
      else if ty = ''OutBody'' then doUnEquipItem E request p
      else if ty = ''SortPackage'' then doSortItems E request p
      else if ty = ''MoveProps'' then doMoveItem E request p
      else if ty = ''StrengProps'' then doStrengthItem E request p
      else if ty = ''SaleProps'' then doSellItem E request p
      else if ty = ''GetBody'' then doGetEquipments E request p
      else if ty = ''GetEquipGem'' then doGetEquipGems E request p
      else if ty = ''PrevStrengProps'' then doGetStrengthEquipInfo E request p
      else returns False p)"

section \<open>Gems\<close>

definition gem_object :: "gem \<Rightarrow> bobject" where
  "gem_object g = obj_int ''Exp'' (gm_exp g) (obj_int ''Index'' (gm_pos g) (obj_int ''PropId'' (gm_gemId g)
     (obj_int ''Id'' (gm_id g) [])))"

text \<open>Every gem pointer of the vector is dereferenced, the null ones too.\<close>

definition doGetEquipGem :: "game_env \<Rightarrow> bobject \<Rightarrow> player \<Rightarrow> outcome_of" where
  "doGetEquipGem E request p =
     field_int request ''Id'' p (\<lambda>iid.
       case bag_get iid p of
         None \<Rightarrow> returns True p
       | Some r \<Rightarrow> do {
           it \<leftarrow> item_at p r;
           gems \<leftarrow> those (im_gems it);
           returns True (respond ''GetEquipGem'' (obj_array ''Gems'' (map (obj_value \<circ> gem_object) gems) []) p)
         })"

definition doEquipGem :: "game_env \<Rightarrow> bobject \<Rightarrow> player \<Rightarrow> outcome_of" where
  "doEquipGem E request p =
     field_int request ''EquipId'' p (\<lambda>equipId. field_int request ''GemId'' p (\<lambda>gemId.
     field_int request ''Index'' p (\<lambda>idx.
       case bag_get equipId p of
         None \<Rightarrow> returns True p
       | Some er \<Rightarrow> (case bag_get gemId p of
           None \<Rightarrow> returns True p
         | Some gr \<Rightarrow> do {
             equip \<leftarrow> item_at p er;
             gemItem \<leftarrow> item_at p gr;
             (good, equip) \<leftarrow> addGem \<lparr>gm_id = im_id gemItem, gm_gemId = gemId, gm_pos = wrap8 idx, gm_exp = 0\<rparr> equip;
             if \<not> good then returns True p
             else do {
               p \<leftarrow> removeItem gr False (put_item er equip p);
               gemItem \<leftarrow> item_at p gr;
               p \<leftarrow> flush_item E gr (put_item gr (gemItem\<lparr>im_state := ITEM_STATE_DELETED\<rparr>) p);
               p \<leftarrow> flush_item E er p;
               returns True (respond ''UpGem'' (obj_int ''Exp'' 0 (obj_int ''Index'' idx (obj_int ''EquipId'' equipId []))) p)
             }
           }))))"

definition doUnEquipGem :: "game_env \<Rightarrow> bobject \<Rightarrow> player \<Rightarrow> outcome_of" where
  "doUnEquipGem E request p =
     field_int request ''EquipId'' p (\<lambda>equipId. field_int request ''GemId'' p (\<lambda>gemId. returns True p))"

text \<open>
  \<open>doStrengthGem\<close>.  The gem is mutated through its pointer; \<open>decItemCountByTemplateId\<close> has an empty
  body, so no fragment is used up.  The fragment template is cached in a global, which always
  holds what the table has.
\<close>

definition add_gem_exp :: "int \<Rightarrow> int \<Rightarrow> item \<Rightarrow> item" where
  "add_gem_exp dbid v it =
     (case List.find (\<lambda>i. case im_gems it ! i of None \<Rightarrow> False | Some g \<Rightarrow> gm_id g = dbid) [0..<length (im_gems it)] of
        None \<Rightarrow> it
      | Some i \<Rightarrow> it\<lparr>im_gems := (im_gems it)[i := map_option (\<lambda>g. g\<lparr>gm_exp := wrap32 (gm_exp g + v)\<rparr>) (im_gems it ! i)]\<rparr>)"

definition decItemCountByTemplateId :: "int \<Rightarrow> int \<Rightarrow> player \<Rightarrow> player" where
  "decItemCountByTemplateId itemId count p = p"

definition doStrengthGem :: "game_env \<Rightarrow> bobject \<Rightarrow> player \<Rightarrow> outcome_of" where
  "doStrengthGem E request p =
     field_int request ''EquipId'' p (\<lambda>equipId. field_int request ''GemId'' p (\<lambda>gemId.
     field_int request ''Count'' p (\<lambda>count.
       case bag_get equipId p of
         None \<Rightarrow> returns True p
       | Some r \<Rightarrow> do {
           it \<leftarrow> item_at p r;
           case getGemById gemId it of
             None \<Rightarrow> returns True p
           | Some g \<Rightarrow>
               (case get_template (ge_items E) (gm_gemId g) of
                  None \<Rightarrow> returns True p
                | Some _ \<Rightarrow> (case get_template (ge_items E) GEM_FRAGMENT_ID of
                    None \<Rightarrow> returns True p
                  | Some fragment \<Rightarrow> do {
                      fragmentCount \<leftarrow> getItemCountByTemplateId GEM_FRAGMENT_ID p;
                      let short = fragmentCount < count;
                      let it = (if short then it else add_gem_exp gemId (wrap32 (tp_correspondingExp fragment * count)) it);
                      let p = decItemCountByTemplateId GEM_FRAGMENT_ID (wrap16 count) (put_item r it p);
                      g \<leftarrow> getGemById gemId it;
                      returns True (respond ''StrengGem''
                        (if short then error_body STRENGTH_GEM_NO_ENOUGH_FRAGMENT
                         else obj_int ''Exp'' (gm_exp g) (obj_int ''PropId'' (gm_gemId g) [])) p)
                    }))
         })))"

definition gem_doRequest :: "game_env \<Rightarrow> string \<Rightarrow> bobject \<Rightarrow> player \<Rightarrow> outcome_of" where
  "gem_doRequest E ty request p =
     (if ty = ''GetEquipGem'' then doGetEquipGem E request p
      else if ty = ''UpGem'' then doEquipGem E request p
      else if ty = ''DownGem'' then doUnEquipGem E request p
      else if ty = ''StrengGem'' then doStrengthGem E request p
      else returns False p)"

end
