(* ===== verification/Souls.thy ===== *)
theory Souls
  imports Item_Servlet
begin

text \<open>
  The bag of souls (\<open>souls_bag.cpp\<close>) and the handlers of \<open>soul_item_servlet.cpp\<close>.  Souls are raw
  pointers: \<open>delete\<close> empties their cell of the store, and following one afterwards is a fault.
\<close>

section \<open>The bag of souls\<close>

definition MAX_HUNT_SOULS_COUNT :: nat where "MAX_HUNT_SOULS_COUNT = 18"
definition SOULS_COUNT_PER_PAGE :: int where "SOULS_COUNT_PER_PAGE = 12"
definition PAGE_COUNT :: int where "PAGE_COUNT = 4"

definition set_souls :: "souls_bag \<Rightarrow> player \<Rightarrow> player" where
  "set_souls b p = p\<lparr>pl_souls_bag := b\<rparr>"

definition souls_isFull :: "player \<Rightarrow> bool" where
  "souls_isFull p = (MAX_HUNT_SOULS_COUNT \<le> length (sb_hunted (pl_souls_bag p)))"

text \<open>
  \<open>nextHuntSoulIndex\<close> counts the souls per index in an array of \<open>size\<close> entries: only the upper end of
  the index is checked.
\<close>

fun count_indices :: "int list \<Rightarrow> nat list \<Rightarrow> nat list option" where
  "count_indices [] idx = Some idx"
| "count_indices (i # is) idx =
     (if i < int (length idx)
      then (case vec_nth idx i of None \<Rightarrow> None | Some c \<Rightarrow> count_indices is (idx[nat i := Suc c]))
      else count_indices is idx)"

definition nextHuntSoulIndex :: "player \<Rightarrow> int option" where
  "nextHuntSoulIndex p =
     (let hunted = sb_hunted (pl_souls_bag p) in
      if hunted = [] then Some 0
      else do {
        souls \<leftarrow> those (map (soul_at p \<circ> snd) hunted);
        idx \<leftarrow> count_indices (map (\<lambda>s. wrap16 (sl_index s)) souls) (replicate (length hunted) 0);
        Some (case List.find (\<lambda>i. idx ! i = 0) [0..<length idx] of
                Some i \<Rightarrow> int i | None \<Rightarrow> int (length idx))
      })"

definition addSoulItem :: "nat \<Rightarrow> player \<Rightarrow> player option" where
  "addSoulItem r p = do {
     s \<leftarrow> soul_at p r;
     let b = pl_souls_bag p;
     Some (set_souls (b\<lparr>sb_hunted := std_insert (sl_id s) r (sb_hunted b)\<rparr>) p)
   }"

definition getSoul :: "int \<Rightarrow> player \<Rightarrow> nat option" where
  "getSoul sid p = std_find sid (sb_bag (pl_souls_bag p))"

definition getHuntSoul :: "int \<Rightarrow> player \<Rightarrow> nat option" where
  "getHuntSoul sid p = std_find sid (sb_hunted (pl_souls_bag p))"

definition souls_remove :: "nat \<Rightarrow> player \<Rightarrow> player option" where
  "souls_remove r p = do {
     s \<leftarrow> soul_at p r;
     let b = pl_souls_bag p;
     let i = wrap16 (sl_index s);
     Some (set_souls (b\<lparr>sb_bag := std_erase (sl_id s) (sb_bag b),
       sb_vect := (if 0 \<le> i \<and> i < int (length (sb_vect b)) then (sb_vect b)[nat i := None] else sb_vect b)\<rparr>) p)
   }"

definition removeHuntedSoul :: "nat \<Rightarrow> bool \<Rightarrow> player \<Rightarrow> player option" where
  "removeHuntedSoul r free p = do {
     s \<leftarrow> soul_at p r;
     let b = pl_souls_bag p;
     let p = set_souls (b\<lparr>sb_hunted := std_erase (sl_id s) (sb_hunted b)\<rparr>) p;
     Some (if free then p\<lparr>pl_souls := (pl_souls p)(r := None)\<rparr> else p)
   }"

definition addEquipSoul :: "nat \<Rightarrow> player \<Rightarrow> player option" where
  "addEquipSoul r p = do {
     s \<leftarrow> soul_at p r;
     let b = pl_souls_bag p;
     Some (set_souls (b\<lparr>sb_equipped := std_insert (sl_id s) r (sb_equipped b)\<rparr>) p)
   }"

definition storeSoulItem :: "nat \<Rightarrow> player \<Rightarrow> (bool \<times> player) option" where
  "storeSoulItem r p =
     (let b = pl_souls_bag p in
      case List.find (\<lambda>i. sb_vect b ! i = None) [0..<length (sb_vect b)] of
        None \<Rightarrow> Some (False, p)
      | Some idx \<Rightarrow> do {
          s \<leftarrow> soul_at p r;
          let p = put_soul r (s\<lparr>sl_type := SOUL_ITEM_TYPE_IN_BAG, sl_index := wrap16 (int idx)\<rparr>) p;
          Some (True, set_souls (b\<lparr>sb_hunted := std_erase (sl_id s) (sb_hunted b),
            sb_vect := (sb_vect b)[idx := Some r],
            sb_bag := std_assign (sl_id s) r (sb_bag b)\<rparr>) p)
        })"

text \<open>One row of the result, and \<open>loadFromDB\<close>; a negative \<open>idx\<close> of a stored soul is out of bounds.\<close>

definition load_soul :: "game_env \<Rightarrow> db_row list \<Rightarrow> nat \<Rightarrow> player \<Rightarrow> outcome_of" where
  "load_soul E rows i p =
     get_or_throw (getInteger (ge_casts E) rows i ''soul_id'') p (\<lambda>soulId.
       case get_template (ge_items E) soulId of
         None \<Rightarrow> returns True p
       | Some it \<Rightarrow>
           get_or_throw (getSmallint (ge_casts E) rows i ''type'') p (\<lambda>ty.
             if ty = SOUL_ITEM_TYPE_DELETED then returns True p
             else
               get_or_throw (getInteger (ge_casts E) rows i ''id'') p (\<lambda>sid.
               get_or_throw (getSmallint (ge_casts E) rows i ''idx'') p (\<lambda>idx.
               get_or_throw (getInteger (ge_casts E) rows i ''exp'') p (\<lambda>xp.
                 let (r, p) = alloc_soul ((new_soul it)\<lparr>sl_soulId := soulId, sl_id := sid, sl_index := idx,
                        sl_type := ty, sl_exp := xp\<rparr>) p;
                     b = pl_souls_bag p
                 in if ty = SOUL_ITEM_TYPE_HUNTED then
                      returns True (set_souls (b\<lparr>sb_hunted := std_insert sid r (sb_hunted b)\<rparr>) p)
                    else if ty = SOUL_ITEM_TYPE_IN_BAG then
                      (let b = b\<lparr>sb_bag := std_insert sid r (sb_bag b)\<rparr> in
                       if int (length (sb_vect b)) \<le> idx then returns True (set_souls b p)
                       else (case vec_set (sb_vect b) idx (Some r) of
                               None \<Rightarrow> None
                             | Some vect \<Rightarrow> returns True (set_souls (b\<lparr>sb_vect := vect\<rparr>) p)))
                    else returns True (set_souls (b\<lparr>sb_equipped := std_insert sid r (sb_equipped b)\<rparr>) p))))))"

fun load_souls :: "game_env \<Rightarrow> db_row list \<Rightarrow> nat list \<Rightarrow> player \<Rightarrow> outcome_of" where
  "load_souls E rows [] p = returns True p"
| "load_souls E rows (i # is) p = then_do (load_soul E rows i p) (load_souls E rows is)"

definition souls_loadFromDB :: "game_env \<Rightarrow> int \<Rightarrow> player \<Rightarrow> outcome_of" where
  "souls_loadFromDB E roleId p = do {
     (_, p) \<leftarrow> execute E ''select * from souls where role_id = %d'' [D roleId] p;
     let rows = db_rows E p;
     let b = pl_souls_bag p;
     let n = nat (SOULS_COUNT_PER_PAGE * PAGE_COUNT);
     load_souls E rows [0..<length rows]
       (set_souls (b\<lparr>sb_vect := take n (sb_vect b) @ replicate (n - length (sb_vect b)) None\<rparr>) p)
   }"

section \<open>Listing and hunting\<close>

definition soul_object :: "soul_item \<Rightarrow> bobject" where
  "soul_object s = obj_int ''Exp'' (sl_exp s) (obj_int ''Index'' (wrap16 (sl_index s))
     (obj_int ''SoulMetaId'' (sl_soulId s) (obj_int ''Id'' (sl_id s) [])))"

text \<open>Page and cell of a stored soul, by the truncating division of C++.\<close>

definition page_fields :: "soul_item \<Rightarrow> bobject \<Rightarrow> bobject" where
  "page_fields s obj =
     (let i = wrap16 (sl_index s);
          q = (if i < 0 then - (- i div SOULS_COUNT_PER_PAGE) else i div SOULS_COUNT_PER_PAGE)
      in obj_int ''Index'' (i - q * SOULS_COUNT_PER_PAGE) (obj_int ''Page'' q obj))"

definition bag_soul_object :: "soul_item \<Rightarrow> bobject" where
  "bag_soul_object s = page_fields s (obj_int ''Exp'' (sl_exp s) (obj_int ''SoulMetaId'' (sl_soulId s)
     (obj_int ''Id'' (sl_id s) [])))"

definition doLoadSoulItems :: "game_env \<Rightarrow> bobject \<Rightarrow> player \<Rightarrow> outcome_of" where
  "doLoadSoulItems E request p = do {
     hunted \<leftarrow> those (map (soul_at p \<circ> snd) (sb_hunted (pl_souls_bag p)));
     bag \<leftarrow> those (map (soul_at p \<circ> snd) (sb_bag (pl_souls_bag p)));
     returns True (respond ''SoulMetaInfo''
       (obj_array ''SoulMetaPacks'' (map (obj_value \<circ> bag_soul_object) bag)
         (obj_array ''SoulMetas'' (map (obj_value \<circ> soul_object) hunted)
           (obj_int ''SoulPoint'' (rl_soulsValue (pl_role p))
             (obj_int ''SoulMetaOpen'' (wrap16 (rl_soulsIndex (pl_role p))) [])))) p)
   }"

definition hunt_response :: "soul_item \<Rightarrow> player \<Rightarrow> bobject" where
  "hunt_response s p = obj_int ''Index'' (wrap16 (sl_index s)) (obj_int ''Id'' (sl_id s)
     (obj_int ''SoulMetaId'' (sl_soulId s) (obj_int ''SoulPoint'' (rl_soulsValue (pl_role p))
       (obj_int ''SoulMetaOpen'' (wrap16 (rl_soulsIndex (pl_role p)))
         (obj_int ''Silver'' (rl_money (pl_role p)) [])))))"

text \<open>The random draws and the change of the role that a paid hunt makes.\<close>

definition hunt_role :: "game_env \<Rightarrow> soul_hunt_info \<Rightarrow> player \<Rightarrow> player option" where
  "hunt_role E info p =
     (let (up, p) = (if hi_levelNeed info \<le> wrap16 (rl_level (pl_role p))
            then (case roll E p of (v, p) \<Rightarrow> (ge_percent_less E (randInt v 0 100) (hi_levelUpRate info), p))
            else (False, p));
          p = (if up then set_role (addSoulsIndex 1 (pl_role p)) p else p)
      in flush_role E (set_role (addSoulsValue (hi_soulValue info)
           (addMoney (wrap32 (- hi_moneyNeed info)) (pl_role p))) p))"

definition new_hunted :: "game_env \<Rightarrow> item_template \<Rightarrow> player \<Rightarrow> (nat \<times> player) option" where
  "new_hunted E tmpl p = do {
     idx \<leftarrow> nextHuntSoulIndex p;
     let (r, p) = alloc_soul ((new_soul tmpl)\<lparr>sl_soulId := tp_itemId tmpl, sl_index := wrap16 idx\<rparr>) p;
     p \<leftarrow> flush_new_soul E r (rl_id (pl_role p)) p;
     p \<leftarrow> addSoulItem r p;
     Some (r, p)
   }"

definition doHuntSoulItem :: "game_env \<Rightarrow> bobject \<Rightarrow> player \<Rightarrow> outcome_of" where
  "doHuntSoulItem E request p =
     field_int request ''SoulMetaIndex'' p (\<lambda>hid.
       case getSoulHuntInfo (ge_souls E) (wrap16 hid) of
         None \<Rightarrow> returns True p
       | Some info0 \<Rightarrow>
           (let info = (case getSoulHuntInfo (ge_souls E) (wrap16 (wrap32 (hid + 1))) of None \<Rightarrow> info0 | Some nxt \<Rightarrow> nxt) in
            if rl_money (pl_role p) < hi_moneyNeed info then
              returns True (respond ''LotterySoulMeta'' (error_body ERROR_NO_ENOUGH_MONEY) p)
            else if souls_isFull p then
              returns True (respond ''LotterySoulMeta'' (error_body BUY_ITEM_ERROR_ITEM_BAG_FULL) p)
            else do {
              _ \<leftarrow> (if hi_randQuality info = [] then None else Some ());
              let top_key = fst (last (hi_randQuality info));
              let (v, p) = (if top_key = 0 then (0, p) else roll E p);
              case upper_bound (randInt v 0 top_key) (hi_randQuality info) of
                None \<Rightarrow> returns True p
              | Some (_, quality) \<Rightarrow> do {
                  let (v, p) = (case std_find quality (it_soulItems (ge_items E)) of
                     Some vect \<Rightarrow> if vect = [] then (0, p) else roll E p | None \<Rightarrow> (0, p));
                  tmpl \<leftarrow> getRandomSoulItemByQuality (ge_items E) v quality;
                  case tmpl of
                    None \<Rightarrow> returns True p
                  | Some tmpl \<Rightarrow> do {
                      p \<leftarrow> hunt_role E info p;
                      (r, p) \<leftarrow> new_hunted E tmpl p;
                      s \<leftarrow> soul_at p r;
                      returns True (respond ''LotterySoulMeta'' (hunt_response s p) p)
                    }
                }
            }))"

section \<open>Storing, equipping and moving\<close>

definition soul_fields :: "soul_item \<Rightarrow> bobject" where
  "soul_fields s = page_fields s (obj_int ''SoulMetaId'' (sl_soulId s) (obj_int ''Id'' (sl_id s) []))"

definition doStoreSoulItem :: "game_env \<Rightarrow> bobject \<Rightarrow> player \<Rightarrow> outcome_of" where
  "doStoreSoulItem E request p =
     field_int request ''Id'' p (\<lambda>sid.
       case getHuntSoul sid p of
         None \<Rightarrow> returns True p
       | Some r \<Rightarrow> do {
           (stored, p) \<leftarrow> storeSoulItem r p;
           if stored then do {
             p \<leftarrow> flush_soul E r (rl_id (pl_role p)) p;
             s \<leftarrow> soul_at p r;
             returns True (respond ''PacketSoulMeta'' (bag_soul_object s) p)
           } else returns True (respond ''PacketSoulMeta'' (error_body BUY_ITEM_ERROR_ITEM_BAG_FULL) p)
         })"

definition doEquipSoulItem :: "game_env \<Rightarrow> bobject \<Rightarrow> player \<Rightarrow> outcome_of" where
  "doEquipSoulItem E request p =
     field_int request ''Id'' p (\<lambda>sid. field_int request ''Index'' p (\<lambda>index.
       case getSoul sid p of
         None \<Rightarrow> returns True p
       | Some r \<Rightarrow> do {
           s \<leftarrow> soul_at p r;
           if wrap16 (sl_type s) = SOUL_ITEM_TYPE_EQUIPPED then returns True p
           else do {
             p \<leftarrow> souls_remove r p;
             p \<leftarrow> addEquipSoul r (put_soul r (s\<lparr>sl_index := wrap16 index, sl_type := SOUL_ITEM_TYPE_EQUIPPED\<rparr>) p);
             p \<leftarrow> flush_soul E r (rl_id (pl_role p)) p;
             returns True (respond ''EquipSoulMeta'' success_body p)
           }
         }))"

text \<open>The vector of the bag is not told about the move.\<close>

definition doMoveSoulItem :: "game_env \<Rightarrow> bobject \<Rightarrow> player \<Rightarrow> outcome_of" where
  "doMoveSoulItem E request p =
     field_int request ''Id'' p (\<lambda>sid.
       case getSoul sid p of
         None \<Rightarrow> returns True p
       | Some r \<Rightarrow>
           field_int request ''Page'' p (\<lambda>page. field_int request ''Index'' p (\<lambda>idx. do {
             s \<leftarrow> soul_at p r;
             let toIndex = wrap16 (wrap16 page * SOULS_COUNT_PER_PAGE + wrap16 idx);
             p \<leftarrow> flush_soul E r (rl_id (pl_role p)) (put_soul r (s\<lparr>sl_index := toIndex\<rparr>) p);
             returns True (respond ''SoulMetaMove'' success_body p)
           })))"

definition doGetEquippedSouls :: "game_env \<Rightarrow> bobject \<Rightarrow> player \<Rightarrow> outcome_of" where
  "doGetEquippedSouls E request p = do {
     souls \<leftarrow> those (map (soul_at p \<circ> snd) (sb_equipped (pl_souls_bag p)));
     returns True (respond ''EquipSoulMetaInfo'' (obj_array ''SoulMetas'' (map (obj_value \<circ> soul_object) souls) []) p)
   }"

text \<open>Nothing is bought: enough money ends the handler, too little of it is answered with one point.\<close>

definition doBuySoulItem :: "game_env \<Rightarrow> bobject \<Rightarrow> player \<Rightarrow> outcome_of" where
  "doBuySoulItem E request p =
     field_int request ''SoulMetaId'' p (\<lambda>soulItemId. field_int request ''Count'' p (\<lambda>buyCount.
       case get_template (ge_items E) soulItemId of
         None \<Rightarrow> returns True p
       | Some it \<Rightarrow>
           if wrap32 (tp_price it * buyCount) < rl_money (pl_role p) then returns True p
           else returns True (p\<lparr>pl_sent := pl_sent p @ [obj_str ''Command'' (str ''BuySoulMeta'') []]\<rparr>)))"

section \<open>Swallowing\<close>

text \<open>
  The level steps: \<open>delta\<close> times the next template; where there is none the diagnostic follows the
  null pointer.  Without a change of level nothing is assigned; a fall assigns the template again.
\<close>

fun next_templates :: "item_tables \<Rightarrow> nat \<Rightarrow> item_template \<Rightarrow> item_template option" where
  "next_templates m 0 it = Some it"
| "next_templates m (Suc n) it = do { it \<leftarrow> get_template m (tp_strengthNextLevelId it); next_templates m n it }"

definition raise_level :: "game_env \<Rightarrow> nat \<Rightarrow> int \<Rightarrow> player \<Rightarrow> player option" where
  "raise_level E r oldLevel p = do {
     s \<leftarrow> soul_at p r;
     newLevel \<leftarrow> getLevelByExp (ge_souls E) (soul_quality s) (sl_exp s);
     if newLevel = oldLevel then Some p
     else do {
       it \<leftarrow> next_templates (ge_items E) (nat (wrap16 (newLevel - oldLevel))) (sl_template s);
       Some (put_soul r (s\<lparr>sl_soulId := tp_itemId it, sl_template := it\<rparr>) p)
     }
   }"

definition swallow_response :: "soul_item \<Rightarrow> bobject" where
  "swallow_response s = obj_int ''Exp'' (sl_exp s) (soul_fields s)"

definition doSwallowSoulItem :: "game_env \<Rightarrow> bobject \<Rightarrow> player \<Rightarrow> outcome_of" where
  "doSwallowSoulItem E request p =
     field_int request ''Id'' p (\<lambda>swallowId. field_int request ''BeId'' p (\<lambda>swallowedId.
       case getSoul swallowId p of
         None \<Rightarrow> returns True p
       | Some r \<Rightarrow> (case getSoul swallowedId p of
           None \<Rightarrow> returns True p
         | Some t \<Rightarrow> do {
             toSoul \<leftarrow> soul_at p t;
             toLevel \<leftarrow> getLevelByExp (ge_souls E) (soul_quality toSoul) (sl_exp toSoul);
             if toLevel < 0 then returns True p
             else do {
               info \<leftarrow> getSoulInfo (ge_souls E) (soul_quality toSoul) toLevel;
               case info of
                 None \<Rightarrow> returns True p
               | Some info \<Rightarrow> do {
                   s \<leftarrow> soul_at p r;
                   oldLevel \<leftarrow> getLevelByExp (ge_souls E) (soul_quality s) (sl_exp s);
                   p \<leftarrow> raise_level E r oldLevel
                          (put_soul r (soul_addExp (wrap32 (si_swallowExp info + sl_exp toSoul)) s) p);
                   p \<leftarrow> flush_soul E r (rl_id (pl_role p)) p;
                   toSoul \<leftarrow> soul_at p t;
                   p \<leftarrow> flush_soul E t (rl_id (pl_role p)) (put_soul t (toSoul\<lparr>sl_type := SOUL_ITEM_TYPE_DELETED\<rparr>) p);
                   p \<leftarrow> souls_remove t p;
                   s \<leftarrow> soul_at p r;
                   returns True (respond ''SwallowOne'' (swallow_response s) p)
                 }
             }
           })))"

text \<open>
  \<open>doSwallowAll\<close>: the first soul of the highest quality swallows the others.  Each swallowed soul is
  deleted by \<open>removeHuntedSoul\<close> before its experience is read.  The inner result of
  \<open>swallow_souls\<close> tells whether the loop ran to its end (the returns in it keep the state).
\<close>

fun best_soul :: "player \<Rightarrow> nat \<Rightarrow> nat list \<Rightarrow> nat option" where
  "best_soul p b [] = Some b"
| "best_soul p b (r # rs) = do {
     s \<leftarrow> soul_at p r;
     t \<leftarrow> soul_at p b;
     best_soul p (if soul_quality t < soul_quality s then r else b) rs
   }"

fun swallow_souls :: "game_env \<Rightarrow> nat \<Rightarrow> nat list \<Rightarrow> player \<Rightarrow> (bool \<times> player) option" where
  "swallow_souls E b [] p = Some (True, p)"
| "swallow_souls E b (r # rs) p = do {
     s \<leftarrow> soul_at p r;
     level \<leftarrow> getLevelByExp (ge_souls E) (soul_quality s) (sl_exp s);
     if level < 0 then Some (False, p)
     else do {
       info \<leftarrow> getSoulInfo (ge_souls E) (soul_quality s) level;
       case info of
         None \<Rightarrow> Some (False, p)
       | Some info \<Rightarrow> do {
           p \<leftarrow> flush_soul E r (rl_id (pl_role p)) (put_soul r (s\<lparr>sl_type := SOUL_ITEM_TYPE_DELETED\<rparr>) p);
           p \<leftarrow> removeHuntedSoul r True p;
           s \<leftarrow> soul_at p r;
           t \<leftarrow> soul_at p b;
           swallow_souls E b rs (put_soul b (soul_addExp (wrap32 (si_swallowExp info + sl_exp s)) t) p)
         }
     }
   }"

definition doSwallowAll :: "game_env \<Rightarrow> bobject \<Rightarrow> player \<Rightarrow> outcome_of" where
  "doSwallowAll E request p =
     (case sb_hunted (pl_souls_bag p) of
        [] \<Rightarrow> returns True p
      | e # es \<Rightarrow> do {
          b \<leftarrow> best_soul p (snd e) (map snd es);
          s \<leftarrow> soul_at p b;
          oldLevel \<leftarrow> getLevelByExp (ge_souls E) (soul_quality s) (sl_exp s);
          (ended, p) \<leftarrow> swallow_souls E b (map snd (std_erase (sl_id s) (sb_hunted (pl_souls_bag p)))) p;
          if \<not> ended then returns True p
          else do {
            p \<leftarrow> raise_level E b oldLevel p;
            p \<leftarrow> removeHuntedSoul b False p;
            (stored, p) \<leftarrow> storeSoulItem b p;
            p \<leftarrow> flush_soul E b (rl_id (pl_role p)) p;
            s \<leftarrow> soul_at p b;
            returns True (respond ''SwallowQuickly'' (swallow_response s) p)
          }
        })"

section \<open>The dispatcher of the soul servlet\<close>

definition soul_doRequest :: "game_env \<Rightarrow> string \<Rightarrow> bobject \<Rightarrow> player \<Rightarrow> outcome_of" where
  "soul_doRequest E ty request p =
     (if ty = ''SoulMetaInfo'' then doLoadSoulItems E request p
      else if ty = ''LotterySoulMeta'' then doHuntSoulItem E request p
      else if ty = ''PacketSoulMeta'' then doStoreSoulItem E request p
      else if ty = ''SwallowQuickly'' then doSwallowAll E request p
      else if ty = ''SwallowOne'' then doSwallowSoulItem E request p
      else if ty = ''SoulMetaMove'' then doMoveSoulItem E request p
      else if ty = ''BuySoulMeta'' then doBuySoulItem E request p
      else if ty = ''EquipSoulMeta'' then doEquipSoulItem E request p
      else if ty = ''EquipSoulMetaInfo'' then doGetEquippedSouls E request p
      else returns False p)"

end
