(* ===== verification/Datasets.thy ===== *)
theory Datasets
  imports Templates
begin

text \<open>
  The remaining tables of \<open>dataset/\<close> (role attributes, scenes, tasks, skills), their loading by
  \<open>game_template_manager.cpp\<close>, and two small containers: \<open>stats_attr.cpp\<close> and \<open>timer.cpp\<close>.
\<close>

section \<open>Role attributes\<close>

record role_attribute =
  ra_levelExp :: int
  ra_maxHP :: int
  ra_hp :: int
  ra_maxMP :: int
  ra_mp :: int
  ra_minPhysicalAttack :: int
  ra_maxPhysicalAttack :: int
  ra_maxMagicAttack :: int
  ra_minMagicAttack :: int
  ra_defence :: int
  ra_magicDefence :: int
  ra_hit :: int
  ra_dodge :: int
  ra_crit :: int
  ra_toughness :: int
  ra_moveSpeed :: int
  ra_attackSpeed :: int
  ra_aggressivity :: int
  ra_skills :: "int list"

text \<open>
  One row of \<open>hero.csv\<close>.  The block comes from \<open>new\<close> without an initialiser: \<open>maxHP\<close>, \<open>maxMP\<close>,
  \<open>crit\<close> and \<open>attackSpeed\<close> are in no column and keep what the memory held, the parameter \<open>junk\<close>.
\<close>

definition hero_row :: "casts \<Rightarrow> (int \<Rightarrow> role_attribute) \<Rightarrow> csv_reader \<Rightarrow> (int, role_attribute) std_map
    \<Rightarrow> (int, role_attribute) std_map option" where
  "hero_row L junk tb m = do {
     let num = (\<lambda>col. asserted (csv_int L tb col));
     level \<leftarrow> num ''level'';
     hp \<leftarrow> num ''hp'';
     levelExp \<leftarrow> num ''leve_exp'';
     mp \<leftarrow> num ''mp'';
     minAttack \<leftarrow> num ''min_attack'';
     maxAttack \<leftarrow> num ''max_attack'';
     minMagic \<leftarrow> num ''min_magic_attack'';
     maxMagic \<leftarrow> num ''max_magic_attack'';
     defence \<leftarrow> num ''defense'';
     magicDefence \<leftarrow> num ''Magic_defense'';
     hit \<leftarrow> num ''hit'';
     dodge \<leftarrow> num ''dodge'';
     toughness \<leftarrow> num ''toughness'';
     move \<leftarrow> num ''move'';
     aggressivity \<leftarrow> num ''aggressivity'';
     skill1 \<leftarrow> num ''skill_id_1'';
     skill2 \<leftarrow> num ''skill_id_2'';
     skill3 \<leftarrow> num ''skill_id_3'';
     let attr = (junk (csv_row tb))\<lparr>ra_hp := hp, ra_levelExp := levelExp, ra_mp := mp,
        ra_minPhysicalAttack := minAttack, ra_maxPhysicalAttack := maxAttack,
        ra_minMagicAttack := minMagic, ra_maxMagicAttack := maxMagic, ra_defence := defence,
        ra_magicDefence := magicDefence, ra_hit := hit, ra_dodge := dodge, ra_toughness := toughness,
        ra_moveSpeed := move, ra_aggressivity := aggressivity, ra_skills := [skill1, skill2, skill3]\<rparr>;
     Some (std_insert level attr m)
   }"

text \<open>A table from one file: open it, run the loop body on each row.\<close>

definition table_of :: "(csv_reader \<Rightarrow> ('k, 'v) std_map \<Rightarrow> ('k, 'v) std_map option) \<Rightarrow> byte list option
    \<Rightarrow> ('k, 'v) std_map option" where
  "table_of body file = (case loadFile file new_reader of (good, tb) \<Rightarrow>
     if good then map_option fst (csv_loop body tb []) else None)"

definition role_attributes_init :: "casts \<Rightarrow> (int \<Rightarrow> role_attribute) \<Rightarrow> byte list option
    \<Rightarrow> (int, role_attribute) std_map option" where
  "role_attributes_init L junk hero_csv = table_of (hero_row L junk) hero_csv"

definition get_attribute :: "(int, role_attribute) std_map \<Rightarrow> int \<Rightarrow> role_attribute option" where
  "get_attribute m level = std_find (wrap16 level) m"

section \<open>Scenes, tasks and skills\<close>

record scene_template =
  sc_sceneType :: int
  sc_sceneId :: int

definition scene_row :: "casts \<Rightarrow> csv_reader \<Rightarrow> (int, scene_template) std_map \<Rightarrow> (int, scene_template) std_map option" where
  "scene_row L tb m = do {
     sid \<leftarrow> asserted (csv_int L tb ''Map_id'');
     ty \<leftarrow> asserted (csv_int L tb ''Map_type'');
     Some (std_insert sid \<lparr>sc_sceneType = wrap16 ty, sc_sceneId = sid\<rparr> m)
   }"

definition scenes_init :: "casts \<Rightarrow> byte list option \<Rightarrow> (int, scene_template) std_map option" where
  "scenes_init L mapcfg_csv = table_of (scene_row L) mapcfg_csv"

definition getAllScenes :: "(int, scene_template) std_map \<Rightarrow> scene_template list" where
  "getAllScenes m = map snd m"

definition get_scene_template :: "(int, scene_template) std_map \<Rightarrow> int \<Rightarrow> scene_template option" where
  "get_scene_template m sid = std_find sid m"

record task_template =
  tt_taskType :: int
  tt_taskId :: int
  tt_rewardExp :: int
  tt_rewardMoney :: int
  tt_preTask :: "int list"

text \<open>No column fills the vectors of conditions, rewards and preceding tasks.\<close>

definition task_row :: "casts \<Rightarrow> csv_reader \<Rightarrow> (int, task_template) std_map \<Rightarrow> (int, task_template) std_map option" where
  "task_row L tb m = do {
     tid \<leftarrow> asserted (csv_int L tb ''Task_id'');
     ty \<leftarrow> asserted (csv_int L tb ''Task_Type'');
     xp \<leftarrow> asserted (csv_int L tb ''Task_Exp'');
     money \<leftarrow> asserted (csv_int L tb ''Task_Money'');
     Some (std_insert tid \<lparr>tt_taskType = ty, tt_taskId = tid, tt_rewardExp = xp, tt_rewardMoney = money, tt_preTask = []\<rparr> m)
   }"

definition tasks_init :: "casts \<Rightarrow> byte list option \<Rightarrow> (int, task_template) std_map option" where
  "tasks_init L task_csv = table_of (task_row L) task_csv"

definition get_task_template :: "(int, task_template) std_map \<Rightarrow> int \<Rightarrow> task_template option" where
  "get_task_template m tid = std_find tid m"

record skill_template =
  sk_skillType :: int
  sk_skillId :: int

definition skill_row :: "casts \<Rightarrow> csv_reader \<Rightarrow> (int, skill_template) std_map \<Rightarrow> (int, skill_template) std_map option" where
  "skill_row L tb m = do {
     sid \<leftarrow> asserted (csv_int L tb ''Task_id'');
     ty \<leftarrow> asserted (csv_int L tb ''Task_Type'');
     Some (std_insert sid \<lparr>sk_skillType = ty, sk_skillId = sid\<rparr> m)
   }"

definition skills_init :: "casts \<Rightarrow> byte list option \<Rightarrow> (int, skill_template) std_map option" where
  "skills_init L skill_csv = table_of (skill_row L) skill_csv"

definition get_skill_template :: "(int, skill_template) std_map \<Rightarrow> int \<Rightarrow> skill_template option" where
  "get_skill_template m sid = std_find sid m"

section \<open>All tables\<close>

text \<open>
  \<open>GameTemplateManager::init\<close>: the tables of tasks and of skills are created and left empty.  A failed
  assertion or an exception in one of the loaders ends the process.
\<close>

record game_templates =
  gt_roles :: "(int, role_attribute) std_map"
  gt_tasks :: "(int, task_template) std_map"
  gt_skills :: "(int, skill_template) std_map"
  gt_scenes :: "(int, scene_template) std_map"
  gt_items :: item_tables
  gt_souls :: soul_tables

definition game_templates_init ::
  "casts \<Rightarrow> (int \<Rightarrow> role_attribute) \<Rightarrow> (int \<Rightarrow> int) \<Rightarrow> (string \<Rightarrow> byte list option) \<Rightarrow> game_templates option" where
  "game_templates_init L junk junk_price file = do {
     roles \<leftarrow> role_attributes_init L junk (file ''./data/hero.csv'');
     scenes \<leftarrow> scenes_init L (file ''./data/mapcfg.csv'');
     items \<leftarrow> item_tables_init L junk_price (file ''./data/items.csv'') (file ''./data/equip_strength.csv'');
     souls \<leftarrow> soul_tables_init L (file ''./data/souls_hunt.csv'') (file ''./data/souls_exp.csv'') (file ''./data/souls_shop.csv'');
     Some \<lparr>gt_roles = roles, gt_tasks = [], gt_skills = [], gt_scenes = scenes, gt_items = items, gt_souls = souls\<rparr>
   }"

section \<open>Statistics\<close>

text \<open>The values are doubles by their bits; their addition is the parameter \<open>dadd\<close>.\<close>

type_synonym stats_attr = "(int, i64) std_map"

definition addStatAttr :: "(i64 \<Rightarrow> i64 \<Rightarrow> i64) \<Rightarrow> int \<Rightarrow> i64 \<Rightarrow> stats_attr \<Rightarrow> stats_attr" where
  "addStatAttr dadd ty val m =
     (case std_find ty m of None \<Rightarrow> std_assign ty val m | Some d \<Rightarrow> std_assign ty (dadd d val) m)"

definition updateStatAttr :: "int \<Rightarrow> i64 \<Rightarrow> stats_attr \<Rightarrow> stats_attr" where
  "updateStatAttr ty val m = (case std_find ty m of None \<Rightarrow> m | Some _ \<Rightarrow> std_assign ty val m)"

definition minus_one :: i64 where "minus_one = 0xBFF0000000000000"

definition getStatAttr :: "int \<Rightarrow> stats_attr \<Rightarrow> i64" where
  "getStatAttr ty m = (case std_find ty m of None \<Rightarrow> minus_one | Some d \<Rightarrow> d)"

section \<open>Timers\<close>

record timer_item =
  tm_expireTime :: int
  tm_sessionId :: int

text \<open>
  \<open>addTimer\<close>: the loop inserts in front of the first timer that does not expire earlier and leaves, and
  the statement behind the loop inserts once more at the same place.
\<close>

definition addTimer :: "timer_item \<Rightarrow> timer_item list \<Rightarrow> timer_item list" where
  "addTimer item ts =
     (let earlier = takeWhile (\<lambda>t. tm_expireTime t < tm_expireTime item) ts;
          rest = dropWhile (\<lambda>t. tm_expireTime t < tm_expireTime item) ts
      in if rest = [] then earlier @ [item] else (earlier @ [item]) @ item # rest)"

end
