(* ===== verification/Accounts.thy ===== *)
theory Accounts
  imports Souls Datasets
begin

text \<open>
  The state the whole server shares and its managers: accounts and roles (\<open>account_manager.cpp\<close>), the
  role index of \<open>role_manager.cpp\<close>, the servers (\<open>peer/server_manager.cpp\<close>), the sessions
  (\<open>player_session.cpp\<close>, \<open>player_session_manager.cpp\<close>), the roles in play (\<open>role.cpp\<close>)
  and the scenes (\<open>scene.cpp\<close>, \<open>scene_manager.cpp\<close>).

  Accounts and role descriptions are shared pointers and never freed; roles are raw pointers, freed
  when their session closes; sessions are raw pointers that are never freed.
\<close>

section \<open>State\<close>

record role_info =
  ri_roleId :: int
  ri_level :: int
  ri_profession :: int
  ri_registerTime :: i32
  ri_roleName :: "byte list"
  ri_posX :: i64
  ri_posY :: i64

record account_info =
  ai_accountId :: int
  ai_accountName :: "byte list"
  ai_passwd :: "byte list"
  ai_token :: "byte list"
  ai_deviceId :: "byte list"
  ai_sysOpenId :: "byte list"
  ai_current :: "nat option"
  ai_roles :: "(int, nat) std_map"

record account_manager =
  am_tokenAccountMap :: "(byte list, nat) std_map"
  am_nameMap :: "(byte list, nat) std_map"
  am_idMap :: "(int, nat) std_map"
  am_roleIdMap :: "(int, nat) std_map"
  am_roleNameMap :: "(byte list, nat) std_map"
  am_tokens :: "byte list list"

record server_info =
  sv_serverId :: int
  sv_serverName :: "byte list"
  sv_domain :: "byte list"
  sv_town :: "byte list"
  sv_line :: "byte list"
  sv_state :: int
  sv_serverState :: int
  sv_port :: int

record role_manager =
  rm_nameMap :: "(byte list, nat) std_map"
  rm_idMap :: "(int, nat) std_map"

text \<open>A role in play: the player state behind it, its description, its scene, its attributes and tasks.\<close>

record role_object =
  ro_player :: player
  ro_info :: "nat option"
  ro_scene :: "int option"
  ro_attribute :: "role_attribute option"
  ro_finishedTask :: "int list"
  ro_lastLogoutTime :: int

record session =
  ss_role :: "nat option"
  ss_open :: bool

text \<open>
  \<open>lb_sent\<close> records each object a handler answers with and the session it goes to.  Encoding, framing and
  writing it, with which the handlers end, are not in the handlers of the model: they are \<open>send_object\<close> of
  \<open>Replies\<close>, which shows the sizes of an answer that is sent, replaced by an empty frame, or written
  behind the buffer.  A result \<open>Some\<close> of a handler therefore says nothing of an answer of more than 8182 bytes.
\<close>

record lobby =
  lb_am :: account_manager
  lb_rm :: role_manager
  lb_accounts :: "nat \<Rightarrow> account_info option"
  lb_infos :: "nat \<Rightarrow> role_info option"
  lb_servers :: "(int, server_info) std_map"
  lb_scenes :: "(int, (int, nat) std_map) std_map"
  lb_online :: "(int, nat) std_map"
  lb_cached :: "(int, nat) std_map"
  lb_sessions :: "nat \<Rightarrow> session option"
  lb_roles :: "nat \<Rightarrow> role_object option"
  lb_fresh :: nat
  lb_log :: "statement list"
  lb_sent :: "(nat \<times> bobject) list"
  lb_ticks :: nat
  lb_rolls :: nat
  lb_uuids :: nat

text \<open>
  The environment of the lobby: \<open>le_uuid k\<close> is the result of the k-th \<open>uuid_generate\<close>, and
  \<open>le_position\<close> what a new description holds in its two coordinates, which nothing initialises.
\<close>

record lobby_env = game_env +
  le_uuid :: "nat \<Rightarrow> byte list"
  le_position :: "i64 \<times> i64"
  le_attributes :: "(int, role_attribute) std_map"
  le_scenes :: "(int, scene_template) std_map"
  le_tasks :: "(int, task_template) std_map"

definition env :: "lobby_env \<Rightarrow> game_env" where "env E = game_env.truncate E"

definition put_account :: "nat \<Rightarrow> account_info \<Rightarrow> lobby \<Rightarrow> lobby" where
  "put_account a ai W = W\<lparr>lb_accounts := (lb_accounts W)(a := Some ai)\<rparr>"

definition put_info :: "nat \<Rightarrow> role_info \<Rightarrow> lobby \<Rightarrow> lobby" where
  "put_info r ri W = W\<lparr>lb_infos := (lb_infos W)(r := Some ri)\<rparr>"

definition put_role :: "nat \<Rightarrow> role_object \<Rightarrow> lobby \<Rightarrow> lobby" where
  "put_role r ro W = W\<lparr>lb_roles := (lb_roles W)(r := Some ro)\<rparr>"

definition put_session :: "nat \<Rightarrow> session \<Rightarrow> lobby \<Rightarrow> lobby" where
  "put_session s ss W = W\<lparr>lb_sessions := (lb_sessions W)(s := Some ss)\<rparr>"

definition fresh :: "lobby \<Rightarrow> nat \<times> lobby" where
  "fresh W = (lb_fresh W, W\<lparr>lb_fresh := Suc (lb_fresh W)\<rparr>)"

text \<open>The object and its receiver; what follows in the source up to \<open>sendData\<close> is \<open>send_object\<close> of \<open>Replies\<close>.\<close>

definition send_to :: "nat \<Rightarrow> bobject \<Rightarrow> lobby \<Rightarrow> lobby" where
  "send_to s obj W = W\<lparr>lb_sent := lb_sent W @ [(s, obj)]\<rparr>"

definition lobby_execute :: "lobby_env \<Rightarrow> string \<Rightarrow> sql_arg list \<Rightarrow> lobby \<Rightarrow> (bool \<times> lobby) option" where
  "lobby_execute E fmt args W =
     (let log = lb_log W @ [Statement fmt args] in
      if statement_text (Statement fmt args) = None then None else Some (ge_ok E log, W\<lparr>lb_log := log\<rparr>))"

definition lobby_rows :: "lobby_env \<Rightarrow> lobby \<Rightarrow> db_row list" where "lobby_rows E W = ge_rows E (lb_log W)"

definition lobby_autoId :: "lobby_env \<Rightarrow> lobby \<Rightarrow> int" where "lobby_autoId E W = wrap32 (ge_autoId E (lb_log W))"

definition lobby_second :: "lobby_env \<Rightarrow> lobby \<Rightarrow> i32 \<times> lobby" where
  "lobby_second E W = (ge_time E (lb_ticks W), W\<lparr>lb_ticks := Suc (lb_ticks W)\<rparr>)"

section \<open>The account manager\<close>

text \<open>\<open>getAccountInfo\<close> by name and by identifier, \<open>getAccountInfoByToken\<close>, \<open>getRoleInfo\<close> by both.\<close>

definition account_by_name :: "byte list \<Rightarrow> lobby \<Rightarrow> nat option" where
  "account_by_name name W = std_find name (am_nameMap (lb_am W))"

definition account_by_id :: "int \<Rightarrow> lobby \<Rightarrow> nat option" where
  "account_by_id aid W = std_find aid (am_idMap (lb_am W))"

definition account_by_token :: "byte list \<Rightarrow> lobby \<Rightarrow> nat option" where
  "account_by_token token W = std_find token (am_tokenAccountMap (lb_am W))"

definition role_info_by_name :: "byte list \<Rightarrow> lobby \<Rightarrow> nat option" where
  "role_info_by_name name W = std_find name (am_roleNameMap (lb_am W))"

definition role_info_by_id :: "int \<Rightarrow> lobby \<Rightarrow> nat option" where
  "role_info_by_id rid W = std_find rid (am_roleIdMap (lb_am W))"

definition generateUUID :: "lobby_env \<Rightarrow> lobby \<Rightarrow> byte list \<times> lobby" where
  "generateUUID E W = (concat (map byte_to_hex (take 16 (le_uuid E (lb_uuids W)))), W\<lparr>lb_uuids := Suc (lb_uuids W)\<rparr>)"

definition new_account :: account_info where
  "new_account = \<lparr>ai_accountId = 0, ai_accountName = [], ai_passwd = [], ai_token = [], ai_deviceId = [],
     ai_sysOpenId = [], ai_current = None, ai_roles = []\<rparr>"

definition account_insert :: string where
  "account_insert = ''insert into accounts(name, passwd, account_state, register_time, token, sysopen_id) values('%s', '%s', 1, %d, '%s', '%s')''"

lemma account_insert_fits_iff:
  "statement_text (Statement account_insert [S name, S passwd, D now, S token, S openId]) = None \<longleftrightarrow>
     913 \<le> length name + length passwd + length (int_text (wrap32 now)) + length token + length openId"
  by (subst statement_text_iff)
    (simp_all add: account_insert_def directive_ok_def STATEMENT_BUFFER_def arg_len_def arg_text_def algebra_simps)

definition registerAccount :: "lobby_env \<Rightarrow> byte list \<Rightarrow> byte list \<Rightarrow> lobby \<Rightarrow> (int \<times> lobby) option" where
  "registerAccount E name passwd W = do {
     let (token, W) = generateUUID E W;
     let (sysOpenId, W) = generateUUID E W;
     let (now, W) = lobby_second E W;
     (good, W) \<leftarrow> lobby_execute E account_insert
       [S (c_str name), S (c_str passwd), D (sint now), S token, S sysOpenId] W;
     if \<not> good then Some (-1, W)
     else do {
       let (a, W) = fresh W;
       let aid = lobby_autoId E W;
       let am = lb_am W;
       Some (0, put_account a (new_account\<lparr>ai_accountId := aid, ai_accountName := name, ai_passwd := passwd,
             ai_token := token, ai_sysOpenId := sysOpenId\<rparr>)
         (W\<lparr>lb_am := am\<lparr>am_idMap := std_assign aid a (am_idMap am),
            am_nameMap := std_assign name a (am_nameMap am),
            am_tokenAccountMap := std_insert token a (am_tokenAccountMap am)\<rparr>\<rparr>))
     }
   }"

definition new_role_info :: "lobby_env \<Rightarrow> role_info" where
  "new_role_info E = \<lparr>ri_roleId = 0, ri_level = 0, ri_profession = 0, ri_registerTime = 0, ri_roleName = [],
     ri_posX = fst (le_position E), ri_posY = snd (le_position E)\<rparr>"

definition role_insert :: string where
  "role_insert = ''insert into roles(account_id, role_name, profession, last_login_time) values(%d,'%s', %d, %d)''"

definition createRole :: "lobby_env \<Rightarrow> nat \<Rightarrow> byte list \<Rightarrow> int \<Rightarrow> lobby \<Rightarrow> (int \<times> lobby) option" where
  "createRole E a roleName profession W = do {
     let (now, W) = lobby_second E W;
     ai \<leftarrow> lb_accounts W a;
     (good, W) \<leftarrow> lobby_execute E role_insert
       [D (ai_accountId ai), S (c_str roleName), D profession, D (sint now)] W;
     if \<not> good then Some (-1, W)
     else do {
       let (r, W) = fresh W;
       let rid = lobby_autoId E W;
       let am = lb_am W;
       Some (0, put_account a (ai\<lparr>ai_roles := std_insert rid r (ai_roles ai)\<rparr>)
         (put_info r ((new_role_info E)\<lparr>ri_roleId := rid, ri_roleName := roleName, ri_level := 1,
              ri_profession := wrap8 profession, ri_registerTime := now\<rparr>)
           (W\<lparr>lb_am := am\<lparr>am_roleIdMap := std_insert rid r (am_roleIdMap am),
              am_roleNameMap := std_insert roleName r (am_roleNameMap am)\<rparr>\<rparr>)))
     }
   }"

text \<open>\<open>loadFromDB\<close>: a row of \<open>accounts\<close>, a row of \<open>roles\<close>, and both tables.\<close>

definition load_account :: "lobby_env \<Rightarrow> db_row list \<Rightarrow> nat \<Rightarrow> lobby \<Rightarrow> lobby handled" where
  "load_account E rows i W =
     get_or_throw (getInteger (ge_casts E) rows i ''id'') W (\<lambda>aid.
       let (a, W) = fresh W;
           name = getString rows i ''name'';
           token = getString rows i ''token'';
           am = lb_am W
       in returns True (put_account a (new_account\<lparr>ai_accountId := aid, ai_accountName := name,
            ai_passwd := getString rows i ''passwd'', ai_token := token,
            ai_deviceId := getString rows i ''device_id'', ai_sysOpenId := getString rows i ''sys_openid''\<rparr>)
          (W\<lparr>lb_am := am\<lparr>am_idMap := std_assign aid a (am_idMap am),
             am_nameMap := std_assign name a (am_nameMap am),
             am_tokenAccountMap := std_assign token a (am_tokenAccountMap am),
             am_tokens := List.insert token (am_tokens am)\<rparr>\<rparr>)))"

definition load_account_role :: "lobby_env \<Rightarrow> db_row list \<Rightarrow> nat \<Rightarrow> lobby \<Rightarrow> lobby handled" where
  "load_account_role E rows i W =
     get_or_throw (getInteger (ge_casts E) rows i ''account_id'') W (\<lambda>aid.
       case account_by_id aid W of
         None \<Rightarrow> returns True W
       | Some a \<Rightarrow>
           get_or_throw (getInteger (ge_casts E) rows i ''id'') W (\<lambda>rid.
           get_or_throw (getInteger (ge_casts E) rows i ''role_lvl'') W (\<lambda>level.
           get_or_throw (getInteger (ge_casts E) rows i ''profession'') W (\<lambda>profession.
           get_or_throw (getInteger (ge_casts E) rows i ''last_login_time'') W (\<lambda>login. do {
             let name = getString rows i ''role_name'';
             let (r, W) = fresh W;
             let am = lb_am W;
             ai \<leftarrow> lb_accounts W a;
             returns True (put_account a (ai\<lparr>ai_roles := std_insert rid r (ai_roles ai)\<rparr>)
               (put_info r ((new_role_info E)\<lparr>ri_roleId := rid, ri_level := wrap16 level, ri_profession := wrap8 profession,
                    ri_roleName := name, ri_registerTime := word_of_int login\<rparr>)
                 (W\<lparr>lb_am := am\<lparr>am_roleIdMap := std_insert rid r (am_roleIdMap am),
                    am_roleNameMap := std_insert name r (am_roleNameMap am)\<rparr>\<rparr>)))
           })))))"

fun each_row :: "(nat \<Rightarrow> 's \<Rightarrow> 's handled) \<Rightarrow> nat list \<Rightarrow> 's \<Rightarrow> 's handled" where
  "each_row body [] W = returns True W"
| "each_row body (i # is) W = then_do (body i W) (each_row body is)"

definition accounts_loadFromDB :: "lobby_env \<Rightarrow> lobby \<Rightarrow> lobby handled" where
  "accounts_loadFromDB E W = do {
     (_, W) \<leftarrow> lobby_execute E ''select * from accounts'' [] W;
     let rows = lobby_rows E W;
     then_do (each_row (load_account E rows) [0..<length rows] W) (\<lambda>W. do {
       (_, W) \<leftarrow> lobby_execute E ''select * from roles'' [] W;
       let rows = lobby_rows E W;
       each_row (load_account_role E rows) [0..<length rows] W
     })
   }"

section \<open>The role manager and the servers\<close>

definition load_role_index :: "lobby_env \<Rightarrow> db_row list \<Rightarrow> nat \<Rightarrow> lobby \<Rightarrow> lobby handled" where
  "load_role_index E rows i W =
     get_or_throw (getInteger (ge_casts E) rows i ''id'') W (\<lambda>rid.
       let name = getString rows i ''name'';
           (r, W) = fresh W;
           rm = lb_rm W
       in returns True (put_info r ((new_role_info E)\<lparr>ri_roleId := rid, ri_roleName := name\<rparr>)
            (W\<lparr>lb_rm := \<lparr>rm_nameMap = std_assign name r (rm_nameMap rm), rm_idMap = std_assign rid r (rm_idMap rm)\<rparr>\<rparr>)))"

definition roles_loadFromDB :: "lobby_env \<Rightarrow> lobby \<Rightarrow> lobby handled" where
  "roles_loadFromDB E W = do {
     (_, W) \<leftarrow> lobby_execute E ''select * from roles'' [] W;
     let rows = lobby_rows E W;
     each_row (load_role_index E rows) [0..<length rows] W
   }"

definition rm_getRoleInfo :: "byte list \<Rightarrow> lobby \<Rightarrow> nat option" where
  "rm_getRoleInfo name W = std_find name (rm_nameMap (lb_rm W))"

text \<open>The two servers the constructor sets up, their names in UTF-8.\<close>

definition server_name_prefix :: "byte list" where
  "server_name_prefix = [0xE6,0xB5,0x8B,0xE8,0xAF,0x95,0xE6,0x9C,0x8D,0xE5,0x8A,0xA1,0xE5,0x99,0xA8]"

definition initial_servers :: "(int, server_info) std_map" where
  "initial_servers = std_assign 3 \<lparr>sv_serverId = 3, sv_serverName = server_name_prefix @ str ''2'',
       sv_domain = str ''172.16.5.26'', sv_town = [0xE5,0x8D,0x8E,0xE7,0x94,0xB7,0xE5,0x8C,0xBA],
       sv_line = [0xE7,0xBD,0x91,0xE9,0x80,0x9A], sv_state = 0, sv_serverState = 1, sv_port = 9001\<rparr>
     (std_assign 2 \<lparr>sv_serverId = 2, sv_serverName = server_name_prefix @ str ''1'',
       sv_domain = str ''172.16.5.26'', sv_town = [0xE5,0x8D,0x8E,0xE5,0x8C,0x97,0xE5,0x8C,0xBA],
       sv_line = [0xE7,0x94,0xB5,0xE4,0xBF,0xA1], sv_state = 0, sv_serverState = 1, sv_port = 9000\<rparr> [])"

definition getAll :: "lobby \<Rightarrow> server_info list" where "getAll W = map snd (lb_servers W)"

definition get_server :: "int \<Rightarrow> lobby \<Rightarrow> server_info option" where
  "get_server sid W = std_find sid (lb_servers W)"

definition getRecommandServer :: "lobby \<Rightarrow> server_info option" where
  "getRecommandServer W = (case lb_servers W of [] \<Rightarrow> None | e # _ \<Rightarrow> Some (snd e))"

section \<open>Roles in play\<close>

definition new_role :: role where
  "new_role = \<lparr>rl_id = 0, rl_profession = 0, rl_money = 0, rl_gold = 0, rl_name = [], rl_level = 0, rl_vipLevel = 0,
     rl_exp = 0, rl_soulsValue = 0, rl_soulsIndex = 0, rl_info = None, rl_equips = []\<rparr>"

definition new_player :: player where
  "new_player = \<lparr>pl_role = new_role, pl_bag = new_bag, pl_items = (\<lambda>_. None), pl_souls_bag = new_souls_bag,
     pl_souls = (\<lambda>_. None), pl_fresh = 0, pl_log = [], pl_sent = [], pl_ticks = 0, pl_rolls = 0\<rparr>"

definition new_role_object :: role_object where
  "new_role_object = \<lparr>ro_player = new_player, ro_info = None, ro_scene = None, ro_attribute = None,
     ro_finishedTask = [], ro_lastLogoutTime = 0\<rparr>"

text \<open>
  A handler of one player runs on the player state with the server's connection, clock and random
  numbers, and what it sends goes to its session.
\<close>

definition enter :: "lobby \<Rightarrow> player \<Rightarrow> player" where
  "enter W p = p\<lparr>pl_log := lb_log W, pl_sent := [], pl_ticks := lb_ticks W, pl_rolls := lb_rolls W\<rparr>"

definition leave :: "nat \<Rightarrow> nat \<Rightarrow> role_object \<Rightarrow> player \<Rightarrow> lobby \<Rightarrow> lobby" where
  "leave s r ro p W = put_role r (ro\<lparr>ro_player := p\<rparr>)
     (W\<lparr>lb_log := pl_log p, lb_sent := lb_sent W @ map (Pair s) (pl_sent p), lb_ticks := pl_ticks p, lb_rolls := pl_rolls p\<rparr>)"

definition on_role :: "nat \<Rightarrow> nat \<Rightarrow> (player \<Rightarrow> outcome_of) \<Rightarrow> lobby \<Rightarrow> lobby handled" where
  "on_role s r h W = do {
     ro \<leftarrow> lb_roles W r;
     (p, v) \<leftarrow> h (enter W (ro_player ro));
     Some (leave s r ro p W, v)
   }"

text \<open>\<open>Role::loadFromDB\<close>; a level without attributes fails the assertion, no row leaves the role as it is.\<close>

definition role_fields :: "lobby_env \<Rightarrow> db_row list \<Rightarrow> int \<Rightarrow> player \<Rightarrow> outcome_of" where
  "role_fields E rows roleId p =
     (let num = getInteger (ge_casts E) rows 0 in
      get_or_throw (num ''money'') p (\<lambda>money. get_or_throw (num ''gold'') p (\<lambda>gold.
      get_or_throw (num ''profession'') p (\<lambda>profession. get_or_throw (num ''role_lvl'') p (\<lambda>level.
      get_or_throw (num ''role_exp'') p (\<lambda>xp. get_or_throw (num ''vip_lvl'') p (\<lambda>vip.
      get_or_throw (num ''souls_index'') p (\<lambda>index. get_or_throw (num ''souls_value'') p (\<lambda>value.
        returns True (p\<lparr>pl_role := (pl_role p)\<lparr>rl_id := roleId, rl_money := money, rl_gold := gold,
          rl_profession := profession, rl_level := level, rl_exp := xp, rl_name := getString rows 0 ''role_name'',
          rl_vipLevel := vip, rl_soulsIndex := index, rl_soulsValue := value\<rparr>\<rparr>))))))))))"

definition role_loadFromDB :: "lobby_env \<Rightarrow> int \<Rightarrow> nat \<Rightarrow> nat \<Rightarrow> lobby \<Rightarrow> lobby handled" where
  "role_loadFromDB E roleId s r W = do {
     (_, W) \<leftarrow> lobby_execute E ''select * from roles where id=%d'' [D roleId] W;
     let rows = lobby_rows E W;
     if rows = [] then returns True W
     else then_do (on_role s r (role_fields E rows roleId) W) (\<lambda>W. do {
       ro \<leftarrow> lb_roles W r;
       attr \<leftarrow> get_attribute (le_attributes E) (wrap16 (rl_level (pl_role (ro_player ro))));
       returns True (put_role r (ro\<lparr>ro_attribute := Some attr\<rparr>) W)
     })
   }"

text \<open>
  \<open>PlayerSession::loadRole\<close>: the new role is in the session before it is loaded, so that an exception
  leaves a session whose role is incomplete.
\<close>

definition loadRole :: "lobby_env \<Rightarrow> int \<Rightarrow> nat \<Rightarrow> nat \<Rightarrow> lobby \<Rightarrow> lobby handled" where
  "loadRole E roleId info s W = do {
     ss \<leftarrow> lb_sessions W s;
     if ss_role ss \<noteq> None then returns True W
     else do {
       let (r, W) = fresh W;
       let W = put_role r (new_role_object\<lparr>ro_info := Some info,
                 ro_player := new_player\<lparr>pl_role := new_role\<lparr>rl_info := Some roleId\<rparr>\<rparr>\<rparr>) W;
       let W = put_session s (ss\<lparr>ss_role := Some r\<rparr>) W;
       then_do (role_loadFromDB E roleId s r W) (\<lambda>W.
       then_do (on_role s r (bag_loadFromDB (env E)) W)
         (on_role s r (souls_loadFromDB (env E) roleId)))
     }
   }"

text \<open>\<open>PlayerSession::roleInfo\<close>: the null pointer without a role, a fault with a freed one.\<close>

definition session_roleInfo :: "nat \<Rightarrow> lobby \<Rightarrow> nat option option" where
  "session_roleInfo s W = do {
     ss \<leftarrow> lb_sessions W s;
     case ss_role ss of
       None \<Rightarrow> Some None
     | Some r \<Rightarrow> do { ro \<leftarrow> lb_roles W r; Some (ro_info ro) }
   }"

section \<open>Scenes\<close>

definition initScenes :: "(int, scene_template) std_map \<Rightarrow> (int, (int, nat) std_map) std_map" where
  "initScenes m = fold (\<lambda>t. std_assign (sc_sceneId t) []) (getAllScenes m) []"

definition get_scene :: "int \<Rightarrow> lobby \<Rightarrow> (int, nat) std_map option" where
  "get_scene sid W = std_find sid (lb_scenes W)"

definition set_players :: "int \<Rightarrow> (int, nat) std_map \<Rightarrow> lobby \<Rightarrow> lobby" where
  "set_players sid m W = W\<lparr>lb_scenes := std_assign sid m (lb_scenes W)\<rparr>"

definition addPlayer :: "int \<Rightarrow> int \<Rightarrow> nat \<Rightarrow> lobby \<Rightarrow> lobby option" where
  "addPlayer sid rid s W = map_option (\<lambda>m. set_players sid (std_insert rid s m) W) (get_scene sid W)"

definition removePlayer :: "int \<Rightarrow> int \<Rightarrow> lobby \<Rightarrow> lobby option" where
  "removePlayer sid rid W = map_option (\<lambda>m. set_players sid (std_erase rid m) W) (get_scene sid W)"

fun send_all :: "(int, nat) std_map \<Rightarrow> bobject \<Rightarrow> lobby \<Rightarrow> lobby" where
  "send_all [] obj W = W"
| "send_all ((rid, s) # m) obj W = send_all m obj (send_to s obj W)"

fun broadcast_loop :: "(int, nat) std_map \<Rightarrow> bobject \<Rightarrow> int \<Rightarrow> lobby \<Rightarrow> lobby" where
  "broadcast_loop [] obj self W = W"
| "broadcast_loop ((rid, s) # m) obj self W =
     (if self = rid then send_all m obj W else broadcast_loop m obj self (send_to s obj W))"

definition broadcast :: "int \<Rightarrow> bobject \<Rightarrow> int \<Rightarrow> lobby \<Rightarrow> lobby option" where
  "broadcast sid obj self W = map_option (\<lambda>m. broadcast_loop m obj self W) (get_scene sid W)"

definition obj_double :: "string \<Rightarrow> i64 \<Rightarrow> bobject \<Rightarrow> bobject" where
  "obj_double name v obj = setDoubleVal obj (str name) v"

definition surrounding_object :: "nat \<Rightarrow> lobby \<Rightarrow> bobject option" where
  "surrounding_object s W = do {
     info \<leftarrow> session_roleInfo s W;
     info \<leftarrow> info;
     ri \<leftarrow> lb_infos W info;
     Some (obj_double ''Y'' (ri_posY ri) (obj_double ''X'' (ri_posX ri) (obj_int ''Level'' (ri_level ri)
       (obj_str ''Name'' (ri_roleName ri) (obj_int ''ProfessionId'' (ri_profession ri) (obj_int ''Id'' (ri_roleId ri) []))))))
   }"

definition sendSurrounding :: "int \<Rightarrow> int \<Rightarrow> nat \<Rightarrow> lobby \<Rightarrow> lobby option" where
  "sendSurrounding sid rid s W = do {
     m \<leftarrow> get_scene sid W;
     objs \<leftarrow> those (map (\<lambda>e. surrounding_object (snd e) W) (filter (\<lambda>e. fst e \<noteq> rid) m));
     Some (send_to s (reply ''SameUsers'' (obj_array ''SameUsers'' (map obj_value objs) [])) W)
   }"

definition leaveScene :: "int \<Rightarrow> nat \<Rightarrow> lobby \<Rightarrow> lobby option" where
  "leaveScene sid s W = do {
     ss \<leftarrow> lb_sessions W s;
     r \<leftarrow> ss_role ss;
     ro \<leftarrow> lb_roles W r;
     let rid = rl_id (pl_role (ro_player ro));
     W \<leftarrow> removePlayer sid rid W;
     broadcast sid (reply ''OtherLeaveLobby'' (obj_int ''UserId'' rid [])) (-1) W
   }"

section \<open>Sessions\<close>

definition getPlayer :: "int \<Rightarrow> lobby \<Rightarrow> nat option" where
  "getPlayer rid W = (case std_find rid (lb_online W) of Some s \<Rightarrow> Some s | None \<Rightarrow> std_find rid (lb_cached W))"

definition getOnlinePlayer :: "int \<Rightarrow> lobby \<Rightarrow> nat option" where
  "getOnlinePlayer rid W = std_find rid (lb_online W)"

definition psm_playerOffline :: "nat \<Rightarrow> lobby \<Rightarrow> lobby option" where
  "psm_playerOffline s W = do {
     ss \<leftarrow> lb_sessions W s;
     case ss_role ss of
       None \<Rightarrow> Some W
     | Some r \<Rightarrow> do {
         ro \<leftarrow> lb_roles W r;
         let rid = rl_id (pl_role (ro_player ro));
         Some (W\<lparr>lb_online := std_erase rid (lb_online W), lb_cached := std_insert rid s (lb_cached W)\<rparr>)
       }
   }"

text \<open>
  \<open>PlayerSession::playerOffline\<close> frees the role and leaves the pointer to it in the session.
\<close>

definition playerOffline :: "lobby_env \<Rightarrow> nat \<Rightarrow> lobby \<Rightarrow> lobby option" where
  "playerOffline E s W = do {
     ss \<leftarrow> lb_sessions W s;
     case ss_role ss of
       None \<Rightarrow> Some W
     | Some r \<Rightarrow> do {
         ro \<leftarrow> lb_roles W r;
         W \<leftarrow> (case ro_scene ro of None \<Rightarrow> Some W | Some sid \<Rightarrow> leaveScene sid s W);
         let (now, W) = lobby_second E W;
         Some (W\<lparr>lb_roles := (lb_roles W)(r := None)\<rparr>)
       }
   }"

definition session_close :: "lobby_env \<Rightarrow> nat \<Rightarrow> lobby \<Rightarrow> lobby option" where
  "session_close E s W = do {
     ss \<leftarrow> lb_sessions W s;
     playerOffline E s (put_session s (ss\<lparr>ss_open := False\<rparr>) W)
   }"

section \<open>Start\<close>

text \<open>\<open>ServerResource::init\<close>: empty managers, the two servers, the scenes, then the accounts of the database.\<close>

definition initial_lobby :: "(int, scene_template) std_map \<Rightarrow> lobby" where
  "initial_lobby scenes = \<lparr>lb_am = \<lparr>am_tokenAccountMap = [], am_nameMap = [], am_idMap = [], am_roleIdMap = [],
       am_roleNameMap = [], am_tokens = []\<rparr>, lb_rm = \<lparr>rm_nameMap = [], rm_idMap = []\<rparr>,
     lb_accounts = (\<lambda>_. None), lb_infos = (\<lambda>_. None), lb_servers = initial_servers, lb_scenes = initScenes scenes,
     lb_online = [], lb_cached = [], lb_sessions = (\<lambda>_. None), lb_roles = (\<lambda>_. None), lb_fresh = 0, lb_log = [],
     lb_sent = [], lb_ticks = 0, lb_rolls = 0, lb_uuids = 0\<rparr>"

definition server_init :: "lobby_env \<Rightarrow> lobby handled" where
  "server_init E = accounts_loadFromDB E (initial_lobby (le_scenes E))"

end
