(* ===== verification/Lobby.thy ===== *)
theory Lobby
  imports Accounts
begin

text \<open>
  The handlers that work on the shared state: \<open>login_servlet.cpp\<close>, \<open>role_servlet.cpp\<close>,
  \<open>scene_servlet.cpp\<close>, \<open>task_servlet.cpp\<close>, \<open>skill_servlet.cpp\<close>, \<open>friend_servlet.cpp\<close> and
  \<open>chat_servlet.cpp\<close>, and the dispatcher of \<open>servlet.cpp\<close> that chooses among them and the handlers of
  one player.  A handler takes the session, the token and the body of the request.
\<close>

definition REGISTER_ERROR_NAME_ALREADY_EXIST :: int where "REGISTER_ERROR_NAME_ALREADY_EXIST = 105"
definition LOGIN_ERROR_SERVER_NOT_SELECTED :: int where "LOGIN_ERROR_SERVER_NOT_SELECTED = 103"
definition LOGIN_ERROR_ACCOUNT_NON_EXIST :: int where "LOGIN_ERROR_ACCOUNT_NON_EXIST = 108"
definition LOGIN_ERROR_NAME_PASSWD_ERROR :: int where "LOGIN_ERROR_NAME_PASSWD_ERROR = 109"
definition LOGIN_ERROR_NICK_NAME_ALREADY_EXIST :: int where "LOGIN_ERROR_NICK_NAME_ALREADY_EXIST = 112"

section \<open>Logging in\<close>

text \<open>A failed insert gives -1, which is also the code for no error.\<close>

definition doRegister :: "lobby_env \<Rightarrow> bobject \<Rightarrow> nat \<Rightarrow> lobby \<Rightarrow> lobby handled" where
  "doRegister E request s W =
     field_str request ''Name'' W (\<lambda>name. field_str request ''Pwd'' W (\<lambda>passwd.
       if name = [] \<or> passwd = [] then returns False W
       else do {
         (error, W) \<leftarrow> (case account_by_name name W of
            Some _ \<Rightarrow> Some (REGISTER_ERROR_NAME_ALREADY_EXIST, W)
          | None \<Rightarrow> do {
              (error, W) \<leftarrow> registerAccount E name passwd W;
              Some (if error = 0 then ERROR_CODE_NO_ERROR else error, W)
            });
         returns True (send_to s (reply ''Register''
           (if error = ERROR_CODE_NO_ERROR then success_body else error_body error)) W)
       }))"

definition doValidateName :: "lobby_env \<Rightarrow> bobject \<Rightarrow> nat \<Rightarrow> lobby \<Rightarrow> lobby handled" where
  "doValidateName E request s W =
     field_str request ''Name'' W (\<lambda>name.
       if name = [] then returns False W
       else returns True (send_to s (reply ''ValidataName''
              (if account_by_name name W = None then success_body
               else error_body REGISTER_ERROR_NAME_ALREADY_EXIST)) W))"

definition host_address :: "byte list" where "host_address = str ''172.16.5.26''"

definition login_body :: "account_info \<Rightarrow> int \<Rightarrow> bobject" where
  "login_body ai port =
     obj_str ''PanelAddress'' host_address (obj_str ''MapAddress'' host_address
       (obj_str ''IMAddress'' host_address (obj_str ''SysOpenId'' (ai_sysOpenId ai)
         (obj_int ''Port'' port (obj_str ''Domain'' host_address
           (obj_int ''UserId'' (ai_accountId ai) (obj_str ''Token'' (ai_token ai) [])))))))"

definition doAutoLogin :: "lobby_env \<Rightarrow> bobject \<Rightarrow> nat \<Rightarrow> lobby \<Rightarrow> lobby handled" where
  "doAutoLogin E request s W =
     field_str request ''Name'' W (\<lambda>name. field_str request ''SysOpenId'' W (\<lambda>sysOpenId. do {
       let refused = returns True (send_to s (reply ''AutoLogin'' (obj_bool ''Error'' True [])) W);
       if name = [] \<or> sysOpenId = [] then refused
       else (case account_by_name name W of
               None \<Rightarrow> refused
             | Some a \<Rightarrow> do {
                 ai \<leftarrow> lb_accounts W a;
                 if ai_sysOpenId ai \<noteq> sysOpenId then refused
                 else returns True (send_to s (reply ''AutoLogin'' (login_body ai 20000)) W)
               })
     }))"

text \<open>The server number is a string that converts to a number, or else a number.\<close>

definition login_serverId :: "lobby_env \<Rightarrow> bobject \<Rightarrow> cxx_exception + int" where
  "login_serverId E request =
     (case getStringVal (str ''ServerId'') request of
        Inr text \<Rightarrow> (case lexical_cast (lx_int (ge_casts E)) text of
            Inr n \<Rightarrow> Inr n
          | Inl _ \<Rightarrow> map_sum id sint (getIntVal (str ''ServerId'') request))
      | Inl _ \<Rightarrow> map_sum id sint (getIntVal (str ''ServerId'') request))"

definition login_check :: "byte list \<Rightarrow> int \<Rightarrow> byte list \<Rightarrow> lobby \<Rightarrow> (int + account_info) option" where
  "login_check name serverId passwd W =
     (case account_by_name name W of
        None \<Rightarrow> Some (Inl LOGIN_ERROR_ACCOUNT_NON_EXIST)
      | Some a \<Rightarrow> do {
          ai \<leftarrow> lb_accounts W a;
          Some (if ai_passwd ai \<noteq> passwd then Inl LOGIN_ERROR_NAME_PASSWD_ERROR
                else if get_server serverId W = None then Inl LOGIN_ERROR_SERVER_NOT_SELECTED
                else Inr ai)
        })"

definition doLogin :: "lobby_env \<Rightarrow> bobject \<Rightarrow> nat \<Rightarrow> lobby \<Rightarrow> lobby handled" where
  "doLogin E request s W =
     field_str request ''Type'' W (\<lambda>loginType.
       if loginType = str ''auto'' then doAutoLogin E request s W
       else if loginType \<noteq> str ''system'' then returns False W
       else
         get_or_throw (login_serverId E request) W (\<lambda>serverId.
         field_str request ''Name'' W (\<lambda>name. field_str request ''Pwd'' W (\<lambda>passwd.
         field_str request ''DeviceId'' W (\<lambda>_. field_str request ''DeviceMode'' W (\<lambda>_.
         field_str request ''ScreenSize'' W (\<lambda>_. do {
           answer \<leftarrow> login_check name serverId passwd W;
           returns True (send_to s (reply ''Login''
             (case answer of Inr ai \<Rightarrow> login_body ai 20001 | Inl error \<Rightarrow> error_body error)) W)
         })))))))"

definition town_object :: "server_info \<Rightarrow> bobject" where
  "town_object sv = obj_str ''Name'' (sv_town sv) []"

definition server_object :: "server_info \<Rightarrow> bobject" where
  "server_object sv = obj_int ''ServerState'' (sv_serverState sv) (obj_int ''State'' (sv_state sv)
     (obj_str ''Line'' (sv_line sv) (obj_str ''Town'' (sv_town sv) (obj_str ''Name'' (sv_serverName sv)
       (obj_int ''Id'' (sv_serverId sv) [])))))"

definition doLoadServerTowns :: "lobby_env \<Rightarrow> bobject \<Rightarrow> nat \<Rightarrow> lobby \<Rightarrow> lobby handled" where
  "doLoadServerTowns E request s W =
     returns True (send_to s (reply ''LoadTowns'' (obj_array ''Towns'' (map (obj_value \<circ> town_object) (getAll W)) [])) W)"

definition doLoadServers :: "lobby_env \<Rightarrow> bobject \<Rightarrow> nat \<Rightarrow> lobby \<Rightarrow> lobby handled" where
  "doLoadServers E request s W =
     returns True (send_to s (reply ''LoadServers'' (obj_array ''Servers'' (map (obj_value \<circ> server_object) (getAll W)) [])) W)"

definition doGetRecommandServers :: "lobby_env \<Rightarrow> bobject \<Rightarrow> nat \<Rightarrow> lobby \<Rightarrow> lobby handled" where
  "doGetRecommandServers E request s W =
     returns True (send_to s (reply ''GetRecommandServers'' (obj_array ''Servers'' (map (obj_value \<circ> server_object) (getAll W)) [])) W)"

definition doGetCurrentRecommandSrv :: "lobby_env \<Rightarrow> bobject \<Rightarrow> nat \<Rightarrow> lobby \<Rightarrow> lobby handled" where
  "doGetCurrentRecommandSrv E request s W =
     (case getRecommandServer W of
        None \<Rightarrow> returns True W
      | Some sv \<Rightarrow> returns True (send_to s (reply ''GetRecommandServer''
          (obj_str ''Name'' (sv_serverName sv) (obj_int ''Id'' (sv_serverId sv) []))) W))"

text \<open>The second \<open>ServerState\<close> meets the entry of the first, which stays.\<close>

definition doGetServerInfo :: "lobby_env \<Rightarrow> bobject \<Rightarrow> nat \<Rightarrow> lobby \<Rightarrow> lobby handled" where
  "doGetServerInfo E request s W =
     field_int request ''Id'' W (\<lambda>serverId.
       returns True (send_to s (reply ''GetSimpleServer''
         (case get_server serverId W of
            None \<Rightarrow> error_body 104
          | Some sv \<Rightarrow> obj_int ''ServerState'' (sv_state sv) (obj_int ''ServerState'' (sv_serverState sv)
              (obj_str ''Line'' (sv_line sv) (obj_str ''Town'' (sv_town sv)
                (obj_str ''Name'' (sv_serverName sv) (obj_int ''Id'' serverId []))))))) W))"

definition doChooseServer :: "lobby_env \<Rightarrow> bobject \<Rightarrow> nat \<Rightarrow> lobby \<Rightarrow> lobby handled" where
  "doChooseServer E request s W =
     field_int request ''Id'' W (\<lambda>serverId.
       case get_server serverId W of
         None \<Rightarrow> returns False W
       | Some sv \<Rightarrow> returns True (send_to s (reply ''ChooseServer''
           (obj_int ''Port'' (sv_port sv) (obj_str ''Domain'' (sv_domain sv) []))) W))"

definition login_doRequest :: "lobby_env \<Rightarrow> string \<Rightarrow> bobject \<Rightarrow> nat \<Rightarrow> lobby \<Rightarrow> lobby handled" where
  "login_doRequest E ty request s W =
     (if ty = ''Register'' then doRegister E request s W
      else if ty = ''ValidataName'' then doValidateName E request s W
      else if ty = ''Login'' then doLogin E request s W
      else if ty = ''AutoLogin'' then doAutoLogin E request s W
      else if ty = ''LoadServers'' then doLoadServers E request s W
      else if ty = ''ChooseServer'' then doChooseServer E request s W
      else if ty = ''LoadTowns'' then doLoadServerTowns E request s W
      else if ty = ''GetRecommandServers'' then doGetRecommandServers E request s W
      else if ty = ''GetSimpleServer'' then doGetServerInfo E request s W
      else if ty = ''GetRecommandServer'' then doGetCurrentRecommandSrv E request s W
      else returns False W)"

section \<open>Roles\<close>

definition doCreateRole :: "lobby_env \<Rightarrow> byte list \<Rightarrow> bobject \<Rightarrow> nat \<Rightarrow> lobby \<Rightarrow> lobby handled" where
  "doCreateRole E token request s W =
     (if token = [] then returns False W
      else
        field_str request ''Name'' W (\<lambda>name. field_int request ''ProfessId'' W (\<lambda>profession.
          if name = [] then returns False W
          else (case account_by_token token W of
                  None \<Rightarrow> returns False W
                | Some a \<Rightarrow> do {
                    (error, W) \<leftarrow> (if role_info_by_name name W \<noteq> None then Some (0, W)
                                   else createRole E a name profession W);
                    returns True (send_to s (reply ''CreateRole''
                      (if error = 0 then success_body else error_body error)) W)
                  }))))"

definition doValidateNickName :: "lobby_env \<Rightarrow> bobject \<Rightarrow> nat \<Rightarrow> lobby \<Rightarrow> lobby handled" where
  "doValidateNickName E request s W =
     field_str request ''Name'' W (\<lambda>name.
       returns True (send_to s (reply ''ValidataNick''
         (if role_info_by_name name W \<noteq> None then error_body LOGIN_ERROR_NICK_NAME_ALREADY_EXIST
          else success_body)) W))"

definition role_list_object :: "role_info \<Rightarrow> bobject" where
  "role_list_object ri = obj_int ''SurplusDay'' 1000 (obj_int ''State'' 0 (obj_int ''ProfessionId'' (ri_profession ri)
     (obj_int ''Level'' (ri_level ri) (obj_str ''Name'' (ri_roleName ri) (obj_int ''Id'' (ri_roleId ri) [])))))"

text \<open>The three checks only leave their block: \<open>error\<close> is never set, and the account is used in any case.\<close>

definition doLoadRoles :: "lobby_env \<Rightarrow> byte list \<Rightarrow> bobject \<Rightarrow> nat \<Rightarrow> lobby \<Rightarrow> lobby handled" where
  "doLoadRoles E token request s W =
     field_int request ''UserId'' W (\<lambda>accountId. do {
       a \<leftarrow> account_by_id accountId W;
       ai \<leftarrow> lb_accounts W a;
       infos \<leftarrow> those (map (lb_infos W \<circ> snd) (ai_roles ai));
       returns True (send_to s (reply ''LoadRoles''
         (obj_array ''Roles'' (map (obj_value \<circ> role_list_object) infos) [])) W)
     })"

text \<open>\<open>MP\<close> gets the hit points and \<open>HP\<close> the magic points.\<close>

definition chosen_body :: "role \<Rightarrow> role_attribute \<Rightarrow> bobject" where
  "chosen_body r ra =
     obj_array ''Mounts'' [] (obj_array ''Pets'' [] (obj_array ''Skills'' [] (obj_array ''Equips'' []
       (obj_obj ''RoleInfo''
         (obj_str ''Name'' (rl_name r) (obj_int ''RMB'' 0 (obj_int ''HP'' (ra_mp ra) (obj_int ''MP'' (ra_hp ra)
           (obj_int ''Experience'' 0 (obj_int ''Level'' (wrap16 (rl_level r)) (obj_int ''GameState'' 0
             (obj_int ''VIP'' (wrap16 (rl_vipLevel r)) (obj_int ''Silver'' (rl_money r) (obj_int ''Gold'' (rl_gold r)
               (obj_int ''ProfessionId'' (wrap16 (rl_profession r)) (obj_int ''SceneId'' 1 []))))))))))))
         []))))"

definition property_body :: "role_attribute \<Rightarrow> bobject" where
  "property_body ra =
     obj_int ''MP'' (ra_maxMP ra) (obj_int ''HP'' (ra_maxHP ra) (obj_int ''AttackSpeed'' (ra_attackSpeed ra)
       (obj_int ''Move'' (ra_moveSpeed ra) (obj_int ''Toughness'' (ra_toughness ra) (obj_int ''Crit'' (ra_crit ra)
         (obj_int ''Dodge'' (ra_dodge ra) (obj_int ''Hit'' (ra_hit ra) (obj_int ''MagicDefense'' (ra_magicDefence ra)
           (obj_int ''Defense'' (ra_defence ra) (obj_int ''MaxMagicAttack'' (ra_maxMagicAttack ra)
             (obj_int ''MinMagicAttack'' (ra_minMagicAttack ra) (obj_int ''MaxAttack'' (ra_maxPhysicalAttack ra)
               (obj_int ''MinAttack'' (ra_minPhysicalAttack ra) [])))))))))))))"

definition choose_answer :: "nat \<Rightarrow> lobby \<Rightarrow> lobby handled" where
  "choose_answer s W = do {
     ss \<leftarrow> lb_sessions W s;
     r \<leftarrow> ss_role ss;
     ro \<leftarrow> lb_roles W r;
     ra \<leftarrow> ro_attribute ro;
     returns True (send_to s (reply ''SyncProperty'' (property_body ra))
       (send_to s (reply ''ChooseRole'' (chosen_body (pl_role (ro_player ro)) ra)) W))
   }"

definition doChooseRole :: "lobby_env \<Rightarrow> byte list \<Rightarrow> bobject \<Rightarrow> nat \<Rightarrow> lobby \<Rightarrow> lobby handled" where
  "doChooseRole E token request s W =
     (if token = [] then returns False W
      else
        field_int request ''RoleId'' W (\<lambda>roleId.
          case account_by_token token W of
            None \<Rightarrow> returns True W
          | Some a \<Rightarrow> do {
              ai \<leftarrow> lb_accounts W a;
              case std_find roleId (ai_roles ai) of
                None \<Rightarrow> returns True W
              | Some info \<Rightarrow> do {
                  let W = put_account a (ai\<lparr>ai_current := Some info\<rparr>) W;
                  ri \<leftarrow> lb_infos W info;
                  then_do
                    (case getPlayer roleId W of
                       Some s2 \<Rightarrow> do {
                         ss2 \<leftarrow> lb_sessions W s2;
                         ss \<leftarrow> lb_sessions W s;
                         returns True (put_session s (ss\<lparr>ss_role := ss_role ss2\<rparr>) W)
                       }
                     | None \<Rightarrow> loadRole E (ri_roleId ri) info s W)
                    (choose_answer s)
                }
            }))"

definition doRemoveRole :: "lobby_env \<Rightarrow> bobject \<Rightarrow> nat \<Rightarrow> lobby \<Rightarrow> lobby handled" where
  "doRemoveRole E request s W = returns True W"

definition doRecoveryRole :: "lobby_env \<Rightarrow> bobject \<Rightarrow> nat \<Rightarrow> lobby \<Rightarrow> lobby handled" where
  "doRecoveryRole E request s W = returns True W"

definition role_doRequest :: "lobby_env \<Rightarrow> string \<Rightarrow> byte list \<Rightarrow> bobject \<Rightarrow> nat \<Rightarrow> lobby \<Rightarrow> lobby handled" where
  "role_doRequest E ty token request s W =
     (if ty = ''CreateRole'' then doCreateRole E token request s W
      else if ty = ''ValidataNick'' then doValidateNickName E request s W
      else if ty = ''LoadRoles'' then doLoadRoles E token request s W
      else if ty = ''ChooseRole'' then doChooseRole E token request s W
      else if ty = ''RemoveRole'' then doRemoveRole E request s W
      else if ty = ''RecoveryRole'' then doRecoveryRole E request s W
      else returns False W)"

section \<open>Scenes\<close>

text \<open>The description of the role an account has chosen last.\<close>

definition current_info :: "byte list \<Rightarrow> lobby \<Rightarrow> (nat \<times> role_info) option option" where
  "current_info token W =
     (case account_by_token token W of
        None \<Rightarrow> Some None
      | Some a \<Rightarrow> do {
          ai \<leftarrow> lb_accounts W a;
          case ai_current ai of
            None \<Rightarrow> Some None
          | Some info \<Rightarrow> map_option (\<lambda>ri. Some (info, ri)) (lb_infos W info)
        })"

definition join_object :: "role_info \<Rightarrow> bobject" where
  "join_object ri = obj_int ''Mounts'' 1 (obj_int ''Pet'' 1 (obj_int ''ProfessionId'' (ri_profession ri)
     (obj_str ''Name'' (ri_roleName ri) (obj_int ''Id'' (ri_roleId ri) []))))"

definition doEnterScene :: "lobby_env \<Rightarrow> byte list \<Rightarrow> bobject \<Rightarrow> nat \<Rightarrow> lobby \<Rightarrow> lobby handled" where
  "doEnterScene E token request s W =
     field_int request ''SceneId'' W (\<lambda>_. do {
       current \<leftarrow> current_info token W;
       case current of
         None \<Rightarrow> returns True W
       | Some (info, ri) \<Rightarrow>
           if get_scene 1 W = None then returns False W
           else do {
             ss \<leftarrow> lb_sessions W s;
             r \<leftarrow> ss_role ss;
             ro \<leftarrow> lb_roles W r;
             W \<leftarrow> addPlayer 1 (ri_roleId ri) s (put_role r (ro\<lparr>ro_scene := Some 1\<rparr>) W);
             W \<leftarrow> broadcast 1 (reply ''OtherJoinLobby'' (join_object ri)) (ri_roleId ri) W;
             W \<leftarrow> sendSurrounding 1 (ri_roleId ri) s W;
             returns True W
           }
     })"

definition role_scene :: "nat \<Rightarrow> lobby \<Rightarrow> int option option" where
  "role_scene s W = do {
     ss \<leftarrow> lb_sessions W s;
     r \<leftarrow> ss_role ss;
     ro \<leftarrow> lb_roles W r;
     Some (ro_scene ro)
   }"

definition doAvatarWalk :: "lobby_env \<Rightarrow> byte list \<Rightarrow> bobject \<Rightarrow> nat \<Rightarrow> lobby \<Rightarrow> lobby handled" where
  "doAvatarWalk E token request s W = do {
     current \<leftarrow> current_info token W;
     case current of
       None \<Rightarrow> returns True W
     | Some (info, ri) \<Rightarrow>
         get_or_throw (getDoubleVal (str ''X'') request) W (\<lambda>posX.
         get_or_throw (getDoubleVal (str ''Y'') request) W (\<lambda>posY. do {
           scene \<leftarrow> role_scene s W;
           case scene of
             None \<Rightarrow> returns False W
           | Some sid \<Rightarrow> do {
               W \<leftarrow> broadcast sid (reply ''OtherRunInLobby'' (obj_double ''Y'' posY (obj_double ''X'' posX
                      (obj_int ''Id'' (ri_roleId ri) [])))) (ri_roleId ri)
                      (put_info info (ri\<lparr>ri_posX := posX, ri_posY := posY\<rparr>) W);
               returns True W
             }
         }))
   }"

definition doEnterInstance :: "lobby_env \<Rightarrow> bobject \<Rightarrow> nat \<Rightarrow> lobby \<Rightarrow> lobby handled" where
  "doEnterInstance E request s W = do {
     scene \<leftarrow> role_scene s W;
     if scene = None then returns False W
     else returns True (send_to s (reply ''JoinPart'' success_body) W)
   }"

definition doNotifyMonsterDead :: "lobby_env \<Rightarrow> bobject \<Rightarrow> nat \<Rightarrow> lobby \<Rightarrow> lobby handled" where
  "doNotifyMonsterDead E request s W =
     field_int request ''Id'' W (\<lambda>_. returns True (send_to s (reply ''MonsterDead'' success_body) W))"

definition doLeaveInstanceScene :: "lobby_env \<Rightarrow> bobject \<Rightarrow> nat \<Rightarrow> lobby \<Rightarrow> lobby handled" where
  "doLeaveInstanceScene E request s W = returns True (send_to s (reply ''LeavePart'' success_body) W)"

definition scene_doRequest :: "lobby_env \<Rightarrow> string \<Rightarrow> byte list \<Rightarrow> bobject \<Rightarrow> nat \<Rightarrow> lobby \<Rightarrow> lobby handled" where
  "scene_doRequest E ty token request s W =
     (if ty = ''InLobby'' then doEnterScene E token request s W
      else if ty = ''RunInLobby'' then doAvatarWalk E token request s W
      else if ty = ''JoinPart'' then doEnterInstance E request s W
      else if ty = ''MonsterDead'' then doNotifyMonsterDead E request s W
      else if ty = ''PartLeave'' then doLeaveInstanceScene E request s W
      else returns False W)"

section \<open>Tasks, skills, friends and chat\<close>

text \<open>\<open>Task::taskFinished\<close> compares with \<open>==\<close>: a task is taken for finished when it is not in the set.\<close>

definition taskFinished :: "int \<Rightarrow> role_object \<Rightarrow> bool" where
  "taskFinished tid ro \<longleftrightarrow> tid \<notin> set (ro_finishedTask ro)"

definition doLoadTasks :: "lobby_env \<Rightarrow> bobject \<Rightarrow> nat \<Rightarrow> lobby \<Rightarrow> lobby handled" where
  "doLoadTasks E request s W = returns True W"

definition doAcceptTask :: "lobby_env \<Rightarrow> bobject \<Rightarrow> nat \<Rightarrow> lobby \<Rightarrow> lobby handled" where
  "doAcceptTask E request s W =
     field_int request ''TaskId'' W (\<lambda>taskId.
       case get_task_template (le_tasks E) taskId of
         None \<Rightarrow> returns True W
       | Some temp \<Rightarrow> do {
           ss \<leftarrow> lb_sessions W s;
           r \<leftarrow> ss_role ss;
           ro \<leftarrow> lb_roles W r;
           let error = (\<exists>t \<in> set (tt_preTask temp). \<not> taskFinished t ro);
           returns True (send_to s (reply ''AcceptTask''
             (if error then error_body 1
              else obj_int ''TaskUniqueId'' (wrap32 (taskId + 1)) (obj_int ''TaskId'' taskId []))) W)
         })"

definition doFinishTask :: "lobby_env \<Rightarrow> bobject \<Rightarrow> nat \<Rightarrow> lobby \<Rightarrow> lobby handled" where
  "doFinishTask E request s W = field_int request ''TaskUniqueId'' W (\<lambda>_. returns True W)"

definition task_doRequest :: "lobby_env \<Rightarrow> string \<Rightarrow> bobject \<Rightarrow> nat \<Rightarrow> lobby \<Rightarrow> lobby handled" where
  "task_doRequest E ty request s W =
     (if ty = ''LoadTasks'' then doLoadTasks E request s W
      else if ty = ''AcceptTask'' then doAcceptTask E request s W
      else if ty = ''FinishTask'' then doFinishTask E request s W
      else returns False W)"

definition doLoadSkills :: "lobby_env \<Rightarrow> bobject \<Rightarrow> nat \<Rightarrow> lobby \<Rightarrow> lobby handled" where
  "doLoadSkills E request s W = returns True (send_to s (reply ''SkillInfo'' (obj_array ''Skills'' [] [])) W)"

definition doUpgradeSkill :: "lobby_env \<Rightarrow> bobject \<Rightarrow> nat \<Rightarrow> lobby \<Rightarrow> lobby handled" where
  "doUpgradeSkill E request s W = returns True W"

definition skill_doRequest :: "lobby_env \<Rightarrow> string \<Rightarrow> bobject \<Rightarrow> nat \<Rightarrow> lobby \<Rightarrow> lobby handled" where
  "skill_doRequest E ty request s W =
     (if ty = ''SkillInfo'' then doLoadSkills E request s W
      else if ty = ''UpSkill'' then doUpgradeSkill E request s W
      else if ty = ''EnableSkill'' then doUpgradeSkill E request s W
      else if ty = ''EquipSkill'' then doUpgradeSkill E request s W
      else if ty = ''UnEquipSkill'' then doUpgradeSkill E request s W
      else returns False W)"

text \<open>The friend and chat servlets answer nothing, and no command is registered for them.\<close>

definition friend_doRequest :: "string \<Rightarrow> lobby \<Rightarrow> lobby handled" where
  "friend_doRequest ty W = returns (ty \<in> {''AddFriend'', ''AddStrangers'', ''RemoveFriend''}) W"

definition chat_doRequest :: "string \<Rightarrow> lobby \<Rightarrow> lobby handled" where
  "chat_doRequest ty W = returns (ty = ''SendMessage'') W"

section \<open>Dispatch\<close>

datatype servlet =
  Login_servlet | Role_servlet | Scene_servlet | Task_servlet | Item_servlet | Gem_servlet | Skill_servlet | Soul_servlet

text \<open>\<open>ServletDispatch::init\<close>, in the order of its insertions.\<close>

definition servlet_commands :: "(string \<times> servlet) list" where
  "servlet_commands =
     map (\<lambda>c. (c, Login_servlet)) [''Register'', ''ValidataName'', ''Login'', ''AutoLogin'', ''LoadServers'',
       ''ChooseServer'', ''LoadTowns'', ''GetRecommandServers'', ''GetRecommandServer'', ''GetSimpleServer'']
   @ map (\<lambda>c. (c, Role_servlet)) [''CreateRole'', ''ValidataNick'', ''LoadRoles'', ''ChooseRole'', ''RemoveRole'', ''RecoveryRole'']
   @ map (\<lambda>c. (c, Scene_servlet)) [''InLobby'', ''RunInLobby'', ''JoinPart'', ''MonsterDead'', ''PartLeave'']
   @ map (\<lambda>c. (c, Task_servlet)) [''LoadTasks'', ''AcceptTask'', ''FinishTask'']
   @ map (\<lambda>c. (c, Item_servlet)) [''OpenPackage'', ''AppendPackage'', ''AbandonProps'', ''SortPackage'',
       ''BuyPropFromBodyShop'', ''InBody'', ''GetBody'', ''OutBody'', ''StrengProps'', ''MoveProps'', ''SaleProps'',
       ''GetEquipGem'', ''PrevStrengProps'']
   @ map (\<lambda>c. (c, Gem_servlet)) [''UpGem'', ''DownGem'', ''StrengGem'']
   @ map (\<lambda>c. (c, Skill_servlet)) [''SkillInfo'', ''UpSkill'', ''EnableSkill'', ''EquipSkill'', ''UnEquipSkill'']
   @ map (\<lambda>c. (c, Soul_servlet)) [''SoulMetaInfo'', ''LotterySoulMeta'', ''PacketSoulMeta'', ''SwallowQuickly'',
       ''SwallowOne'', ''SoulMetaMove'', ''BuySoulMeta'', ''EquipSoulMeta'', ''EquipSoulMetaInfo'']"

definition find_servlet :: "byte list \<Rightarrow> (string \<times> servlet) option" where
  "find_servlet proto = List.find (\<lambda>(c, _). str c = proto) servlet_commands"

text \<open>
  The servlets of one player.  The item and the soul servlet refuse a session without a role; the gem
  servlet reads its fields and follows the null pointer.  The pointer of a session to a role that has been
  freed is not null, so the handlers start: each runs up to its first use of the role, which is a fault.
\<close>

definition with_role ::
  "nat \<Rightarrow> (player \<Rightarrow> outcome_of) \<Rightarrow> lobby handled \<Rightarrow> lobby handled \<Rightarrow> lobby \<Rightarrow> lobby handled" where
  "with_role s h without freed W = do {
     ss \<leftarrow> lb_sessions W s;
     case ss_role ss of
       None \<Rightarrow> without
     | Some r \<Rightarrow> (case lb_roles W r of None \<Rightarrow> freed | Some _ \<Rightarrow> on_role s r h W)
   }"

definition gem_without_role :: "string \<Rightarrow> bobject \<Rightarrow> lobby \<Rightarrow> lobby handled" where
  "gem_without_role ty request W =
     (if ty = ''GetEquipGem'' then field_int request ''Id'' W (\<lambda>_. None)
      else if ty = ''UpGem'' then
        field_int request ''EquipId'' W (\<lambda>_. field_int request ''GemId'' W (\<lambda>_. field_int request ''Index'' W (\<lambda>_. None)))
      else if ty = ''DownGem'' then field_int request ''EquipId'' W (\<lambda>_. field_int request ''GemId'' W (\<lambda>_. None))
      else if ty = ''StrengGem'' then
        field_int request ''EquipId'' W (\<lambda>_. field_int request ''GemId'' W (\<lambda>_. field_int request ''Count'' W (\<lambda>_. None)))
      else returns False W)"

definition item_freed_role :: "game_env \<Rightarrow> string \<Rightarrow> bobject \<Rightarrow> nat \<Rightarrow> lobby \<Rightarrow> lobby handled" where
  "item_freed_role E ty request s W =
     (if ty \<in> {''OpenPackage'', ''SortPackage'', ''GetBody''} then None
      else if ty = ''BuyPropFromBodyShop'' then
        field_int request ''Id'' W (\<lambda>itemId. field_int request ''Count'' W (\<lambda>_.
          case get_template (ge_items E) itemId of None \<Rightarrow> returns True W | Some _ \<Rightarrow> None))
      else if ty = ''AppendPackage'' then returns True W
      else if ty \<in> {''AbandonProps'', ''InBody'', ''OutBody'', ''SaleProps'', ''PrevStrengProps''} then
        field_int request ''Id'' W (\<lambda>_. None)
      else if ty = ''MoveProps'' then field_int request ''Id'' W (\<lambda>_. field_int request ''Index'' W (\<lambda>_. None))
      else if ty = ''StrengProps'' then field_int request ''Id'' W (\<lambda>_. field_int request ''Count'' W (\<lambda>_. None))
      else if ty = ''GetEquipGem'' then
        returns False (send_to s (obj_obj ''Body'' [] (obj_array ''Gems'' [] (obj_str ''Command'' (str ''GetEquipGem'') []))) W)
      else returns False W)"

definition soul_freed_role :: "game_env \<Rightarrow> string \<Rightarrow> bobject \<Rightarrow> lobby \<Rightarrow> lobby handled" where
  "soul_freed_role E ty request W =
     (if ty \<in> {''SoulMetaInfo'', ''SwallowQuickly'', ''EquipSoulMetaInfo''} then None
      else if ty = ''LotterySoulMeta'' then
        field_int request ''SoulMetaIndex'' W (\<lambda>hid.
          case getSoulHuntInfo (ge_souls E) (wrap16 hid) of None \<Rightarrow> returns True W | Some _ \<Rightarrow> None)
      else if ty \<in> {''PacketSoulMeta'', ''SoulMetaMove''} then field_int request ''Id'' W (\<lambda>_. None)
      else if ty = ''SwallowOne'' then field_int request ''Id'' W (\<lambda>_. field_int request ''BeId'' W (\<lambda>_. None))
      else if ty = ''BuySoulMeta'' then
        field_int request ''SoulMetaId'' W (\<lambda>soulItemId. field_int request ''Count'' W (\<lambda>_.
          case get_template (ge_items E) soulItemId of None \<Rightarrow> returns True W | Some _ \<Rightarrow> None))
      else if ty = ''EquipSoulMeta'' then field_int request ''Id'' W (\<lambda>_. field_int request ''Index'' W (\<lambda>_. None))
      else returns False W)"

definition servlet_doRequest :: "lobby_env \<Rightarrow> servlet \<Rightarrow> string \<Rightarrow> byte list \<Rightarrow> bobject \<Rightarrow> nat \<Rightarrow> lobby \<Rightarrow> lobby handled" where
  "servlet_doRequest E sv ty token request s W =
     (case sv of
        Login_servlet \<Rightarrow> login_doRequest E ty request s W
      | Role_servlet \<Rightarrow> role_doRequest E ty token request s W
      | Scene_servlet \<Rightarrow> scene_doRequest E ty token request s W
      | Task_servlet \<Rightarrow> task_doRequest E ty request s W
      | Skill_servlet \<Rightarrow> skill_doRequest E ty request s W
      | Item_servlet \<Rightarrow> with_role s (item_doRequest (env E) ty request) (returns False W) (item_freed_role (env E) ty request s W) W
      | Gem_servlet \<Rightarrow> with_role s (gem_doRequest (env E) ty request) (gem_without_role ty request W) (gem_without_role ty request W) W
      | Soul_servlet \<Rightarrow> with_role s (soul_doRequest (env E) ty request) (returns False W) (soul_freed_role (env E) ty request W) W)"

text \<open>
  \<open>dispatchMessage\<close> on a request of a session.  \<open>Inl\<close> is an exception that leaves the dispatcher: the
  fields of the envelope, and the name in the body, are read outside the \<open>try\<close>.  The second component of
  the result says whether the message was deleted.
\<close>

definition dispatch_request :: "lobby_env \<Rightarrow> nat \<Rightarrow> bobject \<Rightarrow> lobby \<Rightarrow> (lobby \<times> (cxx_exception + bool \<times> bool)) option" where
  "dispatch_request E s request W =
     (case (getStringVal (str ''Command'') request, getStringVal (str ''Token'') request) of
        (Inr proto, Inr token) \<Rightarrow>
          (case find_servlet proto of
             None \<Rightarrow> Some (W, Inr (False, False))
           | Some (ty, sv) \<Rightarrow>
               (case getObjectVal (str ''Body'') request of
                  Inl e \<Rightarrow> Some (W, Inl e)
                | Inr body \<Rightarrow>
                    (case getStringVal (str ''Name'') body of
                       Inl e \<Rightarrow> Some (W, Inl e)
                     | Inr _ \<Rightarrow> do {
                         (W, v) \<leftarrow> servlet_doRequest E sv ty token body s W;
                         Some (W, Inr (case v of Inr b \<Rightarrow> b | Inl _ \<Rightarrow> False, True))
                       })))
      | (Inl e, _) \<Rightarrow> Some (W, Inl e)
      | (_, Inl e) \<Rightarrow> Some (W, Inl e))"

text \<open>\<open>dispatch\<close>, which runs a request without the queue; nothing calls it.\<close>

definition servlet_dispatch :: "lobby_env \<Rightarrow> nat \<Rightarrow> bobject \<Rightarrow> lobby \<Rightarrow> (lobby \<times> (cxx_exception + bool)) option" where
  "servlet_dispatch E s request W =
     (case (getStringVal (str ''Command'') request, getStringVal (str ''Token'') request) of
        (Inr proto, Inr token) \<Rightarrow>
          (case find_servlet proto of
             None \<Rightarrow> Some (W, Inr False)
           | Some (ty, sv) \<Rightarrow>
               (case getObjectVal (str ''Body'') request of
                  Inl e \<Rightarrow> Some (W, Inl e)
                | Inr body \<Rightarrow> do {
                    (W, v) \<leftarrow> servlet_doRequest E sv ty token body s W;
                    Some (W, Inr (case v of Inr b \<Rightarrow> b | Inl _ \<Rightarrow> False))
                  }))
      | (Inl e, _) \<Rightarrow> Some (W, Inl e)
      | (_, Inl e) \<Rightarrow> Some (W, Inl e))"

text \<open>The two dispatchers agree on every message that reaches a servlet.\<close>

lemma dispatchers_agree:
  "dispatch_request E s request W = Some (W', Inr (b, True)) \<Longrightarrow> servlet_dispatch E s request W = Some (W', Inr b)"
  by (auto simp: dispatch_request_def servlet_dispatch_def bind_eq_Some_conv split: sum.splits option.splits prod.splits)

end
