(* ===== verification/Handlers.thy ===== *)
theory Handlers
  imports Game_State
begin

text \<open>
  Rules for the handlers of requests, whatever their state is: what every run of one keeps, and that it
  comes to an end without a fault.  They follow the combinators the handlers are written with.
\<close>

text \<open>Steps of handlers: what a successful one keeps.\<close>

definition keeps :: "('a \<Rightarrow> 'a \<Rightarrow> bool) \<Rightarrow> 'a \<Rightarrow> 'a handled \<Rightarrow> bool" where
  "keeps R W m \<longleftrightarrow> (case m of None \<Rightarrow> True | Some (W', _) \<Rightarrow> R W W')"

lemma keeps_simps [simp]: "keeps R W None" "keeps R W (Some (W', v)) = R W W'" "keeps R W (returns b W') = R W W'"
    "keeps R W (throws e W') = R W W'"
  by (simp_all add: keeps_def returns_def throws_def)

lemma keeps_get: "R W W' \<Longrightarrow> (\<And>v. g = Inr v \<Longrightarrow> keeps R W (k v)) \<Longrightarrow> keeps R W (get_or_throw g W' k)"
  by (auto simp: get_or_throw_def split: sum.splits)

lemma keeps_int: "R W W' \<Longrightarrow> (\<And>v. keeps R W (k v)) \<Longrightarrow> keeps R W (field_int req name W' k)"
  by (auto simp: field_int_def intro: keeps_get)

lemma keeps_str: "R W W' \<Longrightarrow> (\<And>v. keeps R W (k v)) \<Longrightarrow> keeps R W (field_str req name W' k)"
  by (auto simp: field_str_def intro: keeps_get)

lemma stays_bind: "(\<And>x. m = Some x \<Longrightarrow> keeps R W (f x)) \<Longrightarrow> keeps R W (Option.bind m f)"
  by (cases m) auto

lemma keeps_if: "(b \<Longrightarrow> keeps R W x) \<Longrightarrow> (\<not> b \<Longrightarrow> keeps R W y) \<Longrightarrow> keeps R W (if b then x else y)"
  by simp

lemma keeps_option: "(m = None \<Longrightarrow> keeps R W x) \<Longrightarrow> (\<And>a. m = Some a \<Longrightarrow> keeps R W (f a)) \<Longrightarrow>
   keeps R W (case m of None \<Rightarrow> x | Some a \<Rightarrow> f a)"
  by (cases m) auto

lemma keeps_then:
  assumes "keeps R W m" "\<And>W'. R W W' \<Longrightarrow> keeps R W (k W')"
  shows "keeps R W (then_do m k)"
proof (cases m)
  case (Some x)
  with assms show ?thesis by (cases x; cases "snd x") (auto simp: then_do_def)
qed (simp add: then_do_def)

lemma keeps_let: "(\<And>x. a = x \<Longrightarrow> keeps R W (f x)) \<Longrightarrow> keeps R W (Let a f)"
  by (simp add: Let_def)

lemma keeps_prod: "(\<And>a b. x = (a, b) \<Longrightarrow> keeps R W (f a b)) \<Longrightarrow> keeps R W (case x of (a, b) \<Rightarrow> f a b)"
  by (cases x) simp

lemmas keeps_rules = keeps_get keeps_int keeps_str stays_bind keeps_if keeps_option keeps_then

text \<open>Handlers that come to an end.\<close>

definition ends :: "'s handled \<Rightarrow> bool" where "ends m \<longleftrightarrow> m \<noteq> None"

lemma ends_returns: "ends (returns b W)" by (simp add: ends_def returns_def)

lemma ends_get: "(\<And>v. g = Inr v \<Longrightarrow> ends (k v)) \<Longrightarrow> ends (get_or_throw g W k)"
  by (auto simp: get_or_throw_def throws_def ends_def split: sum.splits)

lemma ends_int: "(\<And>v. ends (k v)) \<Longrightarrow> ends (field_int req name W k)"
  unfolding field_int_def by (rule ends_get)

lemma ends_str: "(\<And>v. ends (k v)) \<Longrightarrow> ends (field_str req name W k)"
  unfolding field_str_def by (rule ends_get)

lemma ends_if: "(b \<Longrightarrow> ends x) \<Longrightarrow> (\<not> b \<Longrightarrow> ends y) \<Longrightarrow> ends (if b then x else y)"
  by simp

lemma ends_option: "(m = None \<Longrightarrow> ends x) \<Longrightarrow> (\<And>a. m = Some a \<Longrightarrow> ends (f a)) \<Longrightarrow> ends (case m of None \<Rightarrow> x | Some a \<Rightarrow> f a)"
  by (cases m) auto

lemma ends_bind: "m \<noteq> None \<Longrightarrow> (\<And>x. m = Some x \<Longrightarrow> ends (f x)) \<Longrightarrow> ends (Option.bind m f)"
  by (cases m) auto

lemmas ends_rules = ends_returns ends_get ends_int ends_str ends_if ends_option ends_bind

end
