(* ===== verification/Lobby_Facts.thy ===== *)
theory Lobby_Facts
  imports Lobby Handlers
begin

text \<open>
  What holds of the shared state: the maps of the account manager lead to the accounts and roles their
  keys name, every request keeps them so, and the login requests work on them without a fault.
\<close>

section \<open>The account invariant\<close>

definition leads_to :: "('k \<Rightarrow> 'a \<Rightarrow> bool) \<Rightarrow> ('k::linorder, nat) std_map \<Rightarrow> (nat \<Rightarrow> 'a option) \<Rightarrow> bool" where
  "leads_to named m store \<longleftrightarrow> ordered m \<and> (\<forall>k a. std_find k m = Some a \<longrightarrow> (\<exists>x. store a = Some x \<and> named k x))"

definition account_ok :: "(nat \<Rightarrow> role_info option) \<Rightarrow> account_info \<Rightarrow> bool" where
  "account_ok infos ai \<longleftrightarrow> leads_to (\<lambda>rid ri. ri_roleId ri = rid) (ai_roles ai) infos
     \<and> (\<forall>r. ai_current ai = Some r \<longrightarrow> infos r \<noteq> None)"

definition accounts_inv :: "lobby \<Rightarrow> bool" where
  "accounts_inv W \<longleftrightarrow>
     leads_to (\<lambda>name ai. ai_accountName ai = name) (am_nameMap (lb_am W)) (lb_accounts W)
   \<and> leads_to (\<lambda>aid ai. ai_accountId ai = aid) (am_idMap (lb_am W)) (lb_accounts W)
   \<and> leads_to (\<lambda>token ai. ai_token ai = token) (am_tokenAccountMap (lb_am W)) (lb_accounts W)
   \<and> leads_to (\<lambda>name ri. ri_roleName ri = name) (am_roleNameMap (lb_am W)) (lb_infos W)
   \<and> leads_to (\<lambda>rid ri. ri_roleId ri = rid) (am_roleIdMap (lb_am W)) (lb_infos W)
   \<and> (\<forall>a ai. lb_accounts W a = Some ai \<longrightarrow> a < lb_fresh W \<and> account_ok (lb_infos W) ai)
   \<and> (\<forall>r ri. lb_infos W r = Some ri \<longrightarrow> r < lb_fresh W)"

lemma leads_assign:
  "leads_to P m store \<Longrightarrow> store a = Some x \<Longrightarrow> P k x \<Longrightarrow> leads_to P (std_assign k a m) store"
  by (auto simp: leads_to_def ordered_assign find_assign split: if_splits)

lemma leads_insert:
  "leads_to P m store \<Longrightarrow> store a = Some x \<Longrightarrow> P k x \<Longrightarrow> leads_to P (std_insert k a m) store"
  by (auto simp: leads_to_def ordered_insert find_insert split: if_splits)

text \<open>A new object at a fresh address, and a change of one that keeps its name.\<close>

lemma leads_new: "leads_to P m store \<Longrightarrow> store a = None \<Longrightarrow> leads_to P m (store(a := Some x))"
  by (fastforce simp: leads_to_def)

lemma leads_new_assign: "leads_to P m store \<Longrightarrow> store a = None \<Longrightarrow> P k x \<Longrightarrow> leads_to P (std_assign k a m) (store(a := Some x))"
  by (rule leads_assign [where x = x]) (auto intro: leads_new)

lemma leads_new_insert: "leads_to P m store \<Longrightarrow> store a = None \<Longrightarrow> P k x \<Longrightarrow> leads_to P (std_insert k a m) (store(a := Some x))"
  by (rule leads_insert [where x = x]) (auto intro: leads_new)

lemma leads_update: "leads_to P m store \<Longrightarrow> store a = Some y \<Longrightarrow> (\<And>k. P k y \<Longrightarrow> P k x) \<Longrightarrow> leads_to P m (store(a := Some x))"
  by (fastforce simp: leads_to_def)

lemma leads_empty [simp]: "leads_to P [] store"
  by (simp add: leads_to_def std_find_def)

lemma account_ok_new: "account_ok infos ai \<Longrightarrow> infos r = None \<Longrightarrow> account_ok (infos(r := Some ri)) ai"
  by (auto simp: account_ok_def intro: leads_new)

lemma account_ok_update:
  "account_ok infos ai \<Longrightarrow> infos r = Some ri \<Longrightarrow> ri_roleId ri' = ri_roleId ri \<Longrightarrow> account_ok (infos(r := Some ri')) ai"
  by (auto simp: account_ok_def intro: leads_update)

lemma initial_inv: "accounts_inv (initial_lobby scenes)"
  by (simp add: accounts_inv_def initial_lobby_def)

text \<open>Steps that do not touch accounts and descriptions.\<close>

definition same_accounts :: "lobby \<Rightarrow> lobby \<Rightarrow> bool" where
  "same_accounts W W' \<longleftrightarrow> lb_am W' = lb_am W \<and> lb_accounts W' = lb_accounts W \<and> lb_infos W' = lb_infos W
     \<and> lb_fresh W \<le> lb_fresh W'"

lemma same_inv: "accounts_inv W \<Longrightarrow> same_accounts W W' \<Longrightarrow> accounts_inv W'"
  by (fastforce simp: accounts_inv_def same_accounts_def intro: less_le_trans)

lemma same_refl [simp]: "same_accounts W W"
  by (simp add: same_accounts_def)

lemma same_trans: "same_accounts W W' \<Longrightarrow> same_accounts W' W'' \<Longrightarrow> same_accounts W W''"
  by (simp add: same_accounts_def)

lemma same_updates [simp]:
  "same_accounts W (send_to s obj W') = same_accounts W W'"
  "same_accounts W (put_role r ro W') = same_accounts W W'"
  "same_accounts W (put_session s ss W') = same_accounts W W'"
  "same_accounts W (set_players sid m W') = same_accounts W W'"
  "same_accounts W (leave s r ro p W') = same_accounts W W'"
  "same_accounts W (W'\<lparr>lb_log := log\<rparr>) = same_accounts W W'"
  by (simp_all add: same_accounts_def send_to_def put_role_def put_session_def set_players_def leave_def)

lemma same_execute: "lobby_execute E fmt args W' = Some (good, W'') \<Longrightarrow> same_accounts W W'' = same_accounts W W'"
  by (auto simp: lobby_execute_def Let_def split: if_splits)

lemma keeps_execute:
  assumes "\<And>log. keeps R W (k (W'\<lparr>lb_log := log\<rparr>))"
  shows "keeps R W (lobby_execute E fmt args W' \<bind> (\<lambda>(_, W'). k W'))"
  using assms by (auto simp: lobby_execute_def keeps_def Let_def)

lemma same_fresh: "fresh W = (a, W') \<Longrightarrow> same_accounts W W'"
  by (auto simp: fresh_def same_accounts_def)

section \<open>Handlers that keep the accounts as they are\<close>

lemma same_on_role: "same_accounts W W' \<Longrightarrow> keeps same_accounts W (on_role s r h W')"
  by (auto simp: on_role_def keeps_def bind_eq_Some_conv split: option.splits)

lemma same_role_load: "same_accounts W W' \<Longrightarrow> keeps same_accounts W (role_loadFromDB E roleId s r W')"
  unfolding role_loadFromDB_def Let_def
  by (rule keeps_execute) (intro keeps_rules same_on_role; simp)

lemma same_loadRole: "same_accounts W W' \<Longrightarrow> keeps same_accounts W (loadRole E roleId info s W')"
  unfolding loadRole_def fresh_def Let_def prod.case
  by (intro keeps_rules same_on_role same_role_load) (auto simp: same_accounts_def put_role_def put_session_def)

lemma same_send_all [simp]: "same_accounts W (send_all m obj W') = same_accounts W W'"
  by (induction m obj W' rule: send_all.induct) simp_all

lemma same_broadcast_loop [simp]: "same_accounts W (broadcast_loop m obj self W') = same_accounts W W'"
  by (induction m obj self W' rule: broadcast_loop.induct) simp_all

lemma same_scene_steps:
  "broadcast sid obj self W' = Some W'' \<Longrightarrow> same_accounts W W'' = same_accounts W W'"
  "addPlayer sid rid s W' = Some W'' \<Longrightarrow> same_accounts W W'' = same_accounts W W'"
  "sendSurrounding sid rid s W' = Some W'' \<Longrightarrow> same_accounts W W'' = same_accounts W W'"
  by (auto simp: broadcast_def addPlayer_def sendSurrounding_def bind_eq_Some_conv)

lemma same_enter: "keeps same_accounts W (doEnterScene E token request s W)"
  unfolding doEnterScene_def
  by (intro keeps_rules; (simp only: keeps_simps same_refl)?) (auto intro!: keeps_rules simp: same_scene_steps split: option.splits)

lemma same_login: "ty \<noteq> ''Register'' \<Longrightarrow> keeps same_accounts W (login_doRequest E ty request s W)"
  unfolding login_doRequest_def doValidateName_def doLogin_def doAutoLogin_def doLoadServers_def doChooseServer_def
    doLoadServerTowns_def doGetRecommandServers_def doGetServerInfo_def doGetCurrentRecommandSrv_def Let_def
  by (intro keeps_rules) auto

lemma same_small:
  "keeps same_accounts W (task_doRequest E ty request s W)"
  "keeps same_accounts W (skill_doRequest E ty request s W)"
  "keeps same_accounts W (gem_without_role ty request W)"
  unfolding task_doRequest_def doLoadTasks_def doAcceptTask_def doFinishTask_def skill_doRequest_def doLoadSkills_def
    doUpgradeSkill_def gem_without_role_def Let_def
  by (intro keeps_rules; simp)+

lemma same_freed:
  "keeps same_accounts W (item_freed_role E ty request s W)"
  "keeps same_accounts W (soul_freed_role E ty request W)"
  unfolding item_freed_role_def soul_freed_role_def by (intro keeps_rules; simp split: option.split)+

lemma same_with_role:
  "keeps same_accounts W without \<Longrightarrow> keeps same_accounts W freed \<Longrightarrow> keeps same_accounts W (with_role s h without freed W)"
  unfolding with_role_def by (intro keeps_rules) (auto intro!: same_on_role split: option.split)

text \<open>Until its first use of the role a handler does the same whatever the role is.\<close>

definition sends_only :: "nat \<Rightarrow> lobby \<Rightarrow> player \<Rightarrow> lobby handled \<Rightarrow> outcome_of \<Rightarrow> bool" where
  "sends_only s W p freed live \<longleftrightarrow> (\<forall>W' v. freed = Some (W', v) \<longrightarrow>
     (\<exists>sent. W' = W\<lparr>lb_sent := lb_sent W @ map (Pair s) sent\<rparr> \<and> live = Some (p\<lparr>pl_sent := pl_sent p @ sent\<rparr>, v)))"

lemma sends_only_field: "(\<And>v. sends_only s W p (k v) (k' v)) \<Longrightarrow> sends_only s W p (field_int req f W k) (field_int req f p k')"
  by (auto simp: sends_only_def field_int_def get_or_throw_def throws_def split: sum.splits intro!: exI [of _ "[]"])

lemma sends_only_ends [simp]: "sends_only s W p None live" "sends_only s W p (returns b W) (returns b p)"
  by (auto simp: sends_only_def returns_def intro!: exI [of _ "[]"])

lemma freed_role_prefix:
  "sends_only s W p (item_freed_role E ty request s W) (item_doRequest E ty request p)"
  "sends_only s W p (soul_freed_role E ty request W) (soul_doRequest E ty request p)"
  "sends_only s W p (gem_without_role ty request W) (gem_doRequest E ty request p)"
proof -
  have gems: "sends_only s W p (returns b (send_to s x W)) (returns b (p\<lparr>pl_sent := pl_sent p @ [x]\<rparr>))" for b x
    by (auto simp: sends_only_def returns_def send_to_def intro!: exI [of _ "[x]"])
  show "sends_only s W p (item_freed_role E ty request s W) (item_doRequest E ty request p)"
    by (simp add: item_freed_role_def item_doRequest_def doBuyItem_def doAddItem_def doAbandonItem_def doEquipItem_def doUnEquipItem_def
        doMoveItem_def doStrengthItem_def doSellItem_def doGetEquipGems_def doGetStrengthEquipInfo_def gems
        sends_only_field split: option.split)
  show "sends_only s W p (soul_freed_role E ty request W) (soul_doRequest E ty request p)"
    by (simp add: soul_freed_role_def soul_doRequest_def doHuntSoulItem_def doStoreSoulItem_def doSwallowSoulItem_def
        doMoveSoulItem_def doBuySoulItem_def doEquipSoulItem_def sends_only_field split: option.split)
  show "sends_only s W p (gem_without_role ty request W) (gem_doRequest E ty request p)"
    by (simp add: gem_without_role_def gem_doRequest_def doGetEquipGem_def doEquipGem_def doUnEquipGem_def doStrengthGem_def
        sends_only_field)
qed

section \<open>Handlers that change the accounts\<close>

lemma fresh_unused:
  assumes "accounts_inv W"
  shows "lb_accounts W (lb_fresh W) = None" "lb_infos W (lb_fresh W) = None"
proof -
  show "lb_accounts W (lb_fresh W) = None"
  proof (rule ccontr)
    assume "lb_accounts W (lb_fresh W) \<noteq> None"
    then obtain ai where "lb_accounts W (lb_fresh W) = Some ai" by blast
    with assms have "lb_fresh W < lb_fresh W" unfolding accounts_inv_def by blast
    then show False by simp
  qed
  show "lb_infos W (lb_fresh W) = None"
  proof (rule ccontr)
    assume "lb_infos W (lb_fresh W) \<noteq> None"
    then obtain ri where "lb_infos W (lb_fresh W) = Some ri" by blast
    with assms have "lb_fresh W < lb_fresh W" unfolding accounts_inv_def by blast
    then show False by simp
  qed
qed

lemmas manager_defs = registerAccount_def createRole_def generateUUID_def lobby_second_def lobby_execute_def fresh_def
  put_account_def put_info_def new_account_def Let_def

lemma register_failed: "registerAccount E name passwd W = Some (error, W') \<Longrightarrow> error \<noteq> 0 \<Longrightarrow> error = -1 \<and> same_accounts W W'"
  by (auto simp: manager_defs same_accounts_def split: if_splits)

lemma register_done:
  assumes "registerAccount E name passwd W = Some (0, W')"
  obtains ai where "lb_accounts W' = (lb_accounts W)(lb_fresh W := Some ai)" "lb_infos W' = lb_infos W"
    "lb_fresh W' = Suc (lb_fresh W)" "lb_servers W' = lb_servers W" "ai_accountName ai = name" "ai_passwd ai = passwd"
    "ai_roles ai = []" "ai_current ai = None"
    "lb_am W' = (lb_am W)\<lparr>am_idMap := std_assign (ai_accountId ai) (lb_fresh W) (am_idMap (lb_am W)),
       am_nameMap := std_assign name (lb_fresh W) (am_nameMap (lb_am W)),
       am_tokenAccountMap := std_insert (ai_token ai) (lb_fresh W) (am_tokenAccountMap (lb_am W))\<rparr>"
proof -
  define ai where "ai = the (lb_accounts W' (lb_fresh W))"
  show ?thesis
    by (rule that [of ai]) (use assms in \<open>simp_all add: ai_def manager_defs split: if_splits, clarsimp+\<close>)
qed

lemma inv_register:
  assumes "accounts_inv W" "registerAccount E name passwd W = Some (error, W')"
  shows "accounts_inv W'"
proof (cases "error = 0")
  case True
  with assms(2) have "registerAccount E name passwd W = Some (0, W')" by simp
  from register_done [OF this] obtain ai where
    ai: "lb_accounts W' = (lb_accounts W)(lb_fresh W := Some ai)" "lb_infos W' = lb_infos W"
    "lb_fresh W' = Suc (lb_fresh W)" "ai_accountName ai = name" "ai_roles ai = []" "ai_current ai = None"
    "lb_am W' = (lb_am W)\<lparr>am_idMap := std_assign (ai_accountId ai) (lb_fresh W) (am_idMap (lb_am W)),
       am_nameMap := std_assign name (lb_fresh W) (am_nameMap (lb_am W)),
       am_tokenAccountMap := std_insert (ai_token ai) (lb_fresh W) (am_tokenAccountMap (lb_am W))\<rparr>" by blast
  have "account_ok (lb_infos W) ai" by (simp add: account_ok_def ai)
  then show ?thesis
    using assms(1) unfolding accounts_inv_def ai
    by (elim conjE, intro conjI) (auto intro!: leads_new_assign leads_new_insert fresh_unused [OF assms(1)] less_SucI
        simp: ai split: if_splits)
next
  case False
  with register_failed [OF assms(2)] show ?thesis using same_inv [OF assms(1)] by simp
qed

lemma create_failed: "createRole E a name p W = Some (error, W') \<Longrightarrow> error \<noteq> 0 \<Longrightarrow> same_accounts W W'"
  by (auto simp: manager_defs same_accounts_def bind_eq_Some_conv split: if_splits)

lemma create_done:
  assumes "createRole E a name profession W = Some (0, W')"
  obtains ai ri where "lb_accounts W a = Some ai" "ri_roleName ri = name"
    "lb_accounts W' = (lb_accounts W)(a := Some (ai\<lparr>ai_roles := std_insert (ri_roleId ri) (lb_fresh W) (ai_roles ai)\<rparr>))"
    "lb_infos W' = (lb_infos W)(lb_fresh W := Some ri)" "lb_fresh W' = Suc (lb_fresh W)"
    "lb_am W' = (lb_am W)\<lparr>am_roleIdMap := std_insert (ri_roleId ri) (lb_fresh W) (am_roleIdMap (lb_am W)),
       am_roleNameMap := std_insert name (lb_fresh W) (am_roleNameMap (lb_am W))\<rparr>"
proof -
  define ri where "ri = the (lb_infos W' (lb_fresh W))"
  obtain ai where ai: "lb_accounts W a = Some ai"
    using assms by (auto simp: manager_defs bind_eq_Some_conv)
  show ?thesis
    by (rule that [of ai ri]) (use assms ai in \<open>simp_all add: ri_def manager_defs split: if_splits, clarsimp+\<close>)
qed

lemma inv_add_role:
  assumes "accounts_inv W" "lb_accounts W a = Some ai" "ri_roleName ri = name"
    "lb_accounts W' = (lb_accounts W)(a := Some (ai\<lparr>ai_roles := std_insert (ri_roleId ri) (lb_fresh W) (ai_roles ai)\<rparr>))"
    "lb_infos W' = (lb_infos W)(lb_fresh W := Some ri)" "lb_fresh W' = Suc (lb_fresh W)"
    "lb_am W' = (lb_am W)\<lparr>am_roleIdMap := std_insert (ri_roleId ri) (lb_fresh W) (am_roleIdMap (lb_am W)),
       am_roleNameMap := std_insert name (lb_fresh W) (am_roleNameMap (lb_am W))\<rparr>"
  shows "accounts_inv W'"
proof -
  note new = fresh_unused [OF assms(1)]
  have ai: "account_ok (lb_infos W) ai" "a < lb_fresh W" using assms(1,2) by (auto simp: accounts_inv_def)
  have ai': "account_ok ((lb_infos W)(lb_fresh W := Some ri)) (ai\<lparr>ai_roles := std_insert (ri_roleId ri) (lb_fresh W) (ai_roles ai)\<rparr>)"
    using ai(1) new(2) unfolding account_ok_def by (auto intro: leads_new_insert)
  have acc: "leads_to P m ((lb_accounts W)(a := Some (ai\<lparr>ai_roles := R\<rparr>)))"
    if "leads_to P m (lb_accounts W)" "\<And>k. P k (ai\<lparr>ai_roles := R\<rparr>) = P k ai"
    for P R and m :: "('k::linorder, nat) std_map"
    using leads_update [OF that(1) assms(2), of "ai\<lparr>ai_roles := R\<rparr>"] that(2) by simp
  show ?thesis
    using assms(1) ai' ai(2) unfolding accounts_inv_def assms(4-7)
    by (elim conjE, intro conjI)
      (auto intro!: acc leads_new_insert account_ok_new new less_SucI simp: assms(3) split: if_splits)
qed

lemma inv_create:
  assumes "accounts_inv W" "createRole E a name profession W = Some (error, W')"
  shows "accounts_inv W'"
proof (cases "error = 0")
  case True
  with assms(2) have "createRole E a name profession W = Some (0, W')" by simp
  then show ?thesis by (rule create_done) (rule inv_add_role [OF assms(1)])
next
  case False
  with create_failed [OF assms(2)] show ?thesis using same_inv [OF assms(1)] by simp
qed

lemma inv_current:
  assumes "accounts_inv W" "lb_accounts W a = Some ai" "std_find rid (ai_roles ai) = Some info"
  shows "accounts_inv (put_account a (ai\<lparr>ai_current := Some info\<rparr>) W)"
proof -
  have ai: "account_ok (lb_infos W) ai" using assms(1,2) by (auto simp: accounts_inv_def)
  then have "account_ok (lb_infos W) (ai\<lparr>ai_current := Some info\<rparr>)"
    using assms(3) by (fastforce simp: account_ok_def leads_to_def)
  then show ?thesis
    using assms(1,2) unfolding accounts_inv_def
    by (auto intro!: leads_update [of _ _ "lb_accounts W" a, OF _ assms(2)] simp: put_account_def split: if_splits)
qed

lemma inv_position:
  assumes "accounts_inv W" "lb_infos W r = Some ri"
  shows "accounts_inv (put_info r (ri\<lparr>ri_posX := x, ri_posY := y\<rparr>) W)"
  using assms(1) unfolding accounts_inv_def
  by (auto intro!: leads_update [of _ _ "lb_infos W" r, OF _ assms(2)] account_ok_update [of "lb_infos W" _ r, OF _ assms(2)] simp: put_info_def assms(2) split: if_splits)

abbreviation "keeps_accounts \<equiv> keeps (\<lambda>_. accounts_inv)"

lemma stays_same: "keeps same_accounts W m \<Longrightarrow> accounts_inv W \<Longrightarrow> keeps_accounts W m"
  by (auto simp: keeps_def intro: same_inv split: option.splits)

lemma stays_same': "accounts_inv W' \<Longrightarrow> keeps same_accounts W' m \<Longrightarrow> keeps_accounts W m"
  by (auto simp: keeps_def intro: same_inv split: option.splits)

lemma inv_send [simp]: "accounts_inv (send_to s obj W) = accounts_inv W"
  by (simp add: accounts_inv_def send_to_def)

lemma keeps_register: "accounts_inv W \<Longrightarrow> keeps_accounts W (doRegister E request s W)"
  unfolding doRegister_def
  by (intro keeps_rules) (auto split: option.splits prod.splits simp: bind_eq_Some_conv intro: inv_register)

lemma keeps_create: "accounts_inv W \<Longrightarrow> keeps_accounts W (doCreateRole E token request s W)"
  unfolding doCreateRole_def
  by (intro keeps_rules) (auto split: if_splits intro: inv_create)

lemma same_answer: "keeps same_accounts W (choose_answer s W)"
  unfolding choose_answer_def by (intro keeps_rules) auto

lemma keeps_choose: "accounts_inv W \<Longrightarrow> keeps_accounts W (doChooseRole E token request s W)"
proof -
  assume inv: "accounts_inv W"
  have "keeps_accounts W (then_do (case getPlayer roleId W1 of
        Some s2 \<Rightarrow> do { ss2 \<leftarrow> lb_sessions W1 s2; ss \<leftarrow> lb_sessions W1 s;
          returns True (put_session s (ss\<lparr>ss_role := ss_role ss2\<rparr>) W1) }
      | None \<Rightarrow> loadRole E rid info s W1) (choose_answer s))" if "accounts_inv W1" for W1 roleId rid info
  proof (rule keeps_then)
    show "keeps_accounts W (case getPlayer roleId W1 of
        Some s2 \<Rightarrow> do { ss2 \<leftarrow> lb_sessions W1 s2; ss \<leftarrow> lb_sessions W1 s;
          returns True (put_session s (ss\<lparr>ss_role := ss_role ss2\<rparr>) W1) }
      | None \<Rightarrow> loadRole E rid info s W1)"
      by (rule stays_same' [OF that]) (intro keeps_rules same_loadRole, auto)
    show "keeps_accounts W (choose_answer s W')" if "accounts_inv W'" for W'
      by (rule stays_same' [OF that same_answer])
  qed
  then show ?thesis
    unfolding doChooseRole_def Let_def
    by (intro keeps_if keeps_int keeps_option stays_bind) (auto simp: inv inv_current)
qed

lemma current_info_valid: "current_info token W = Some (Some (info, ri)) \<Longrightarrow> lb_infos W info = Some ri"
  by (auto simp: current_info_def bind_eq_Some_conv split: option.splits)

lemma keeps_walk: "accounts_inv W \<Longrightarrow> keeps_accounts W (doAvatarWalk E token request s W)"
proof -
  assume inv: "accounts_inv W"
  have "accounts_inv W'" if "lb_infos W info = Some ri"
      "broadcast sid obj self (put_info info (ri\<lparr>ri_posX := x, ri_posY := y\<rparr>) W) = Some W'" for sid obj self info ri x y W'
    by (rule same_inv [OF inv_position [OF inv that(1), where x = x and y = y]]) (use same_scene_steps(1) [OF that(2)] in simp)
  then show ?thesis
    unfolding doAvatarWalk_def
    by (intro stays_bind keeps_option) (auto intro!: keeps_rules simp: inv dest!: current_info_valid split: option.splits)
qed

lemma keeps_servlet: "accounts_inv W \<Longrightarrow> keeps_accounts W (servlet_doRequest E sv ty token body s W)"
proof -
  assume inv: "accounts_inv W"
  note same = stays_same [OF _ inv]
  have login: "keeps_accounts W (login_doRequest E ty body s W)"
    using keeps_register [OF inv] same [OF same_login] by (cases "ty = ''Register''") (simp_all add: login_doRequest_def)
  have role: "keeps_accounts W (role_doRequest E ty token body s W)"
    unfolding role_doRequest_def doValidateNickName_def doLoadRoles_def doRemoveRole_def doRecoveryRole_def
    by (intro keeps_if keeps_create keeps_choose inv keeps_int keeps_str stays_bind) (simp_all add: inv)
  have scene: "keeps_accounts W (scene_doRequest E ty token body s W)"
    unfolding scene_doRequest_def doEnterInstance_def doNotifyMonsterDead_def doLeaveInstanceScene_def
    by (intro keeps_if keeps_walk same [OF same_enter] inv keeps_int stays_bind) (simp_all add: inv)
  have player: "keeps_accounts W (with_role s h (returns False W) (item_freed_role (env E) ty body s W) W)"
      "keeps_accounts W (with_role s h (returns False W) (soul_freed_role (env E) ty body W) W)" for h
    by (rule same, rule same_with_role, simp, rule same_freed)+
  have gem: "keeps_accounts W (with_role s h (gem_without_role ty body W) (gem_without_role ty body W) W)" for h
    by (rule same) (rule same_with_role; rule same_small)
  show ?thesis
    using login role scene player gem same [OF same_small(1)] same [OF same_small(2)]
    by (cases sv) (simp_all add: servlet_doRequest_def)
qed

lemma dispatch_result:
  assumes "dispatch_request E s request W = Some (W', v)"
  obtains "W' = W" | sv ty token body v' where "servlet_doRequest E sv ty token body s W = Some (W', v')"
  using assms
  by (auto simp: dispatch_request_def bind_eq_Some_conv split: sum.split_asm option.split_asm prod.split_asm)
    (metis sum.exhaust)

lemma inv_dispatch:
  assumes "accounts_inv W" "dispatch_request E s request W = Some (W', v)"
  shows "accounts_inv W'"
  using assms(2)
proof (cases rule: dispatch_result)
  case (2 sv ty token body v')
  then show ?thesis using keeps_servlet [OF assms(1), of E sv ty token body s] by simp
qed (simp add: assms(1))

lemma inv_close: "accounts_inv W \<Longrightarrow> session_close E s W = Some W' \<Longrightarrow> accounts_inv W'"
proof (rule same_inv)
  have l: "same_accounts W1 W3 = same_accounts W1 W2" if "leaveScene sid s W2 = Some W3" for sid W1 W2 W3
    using that by (auto simp: leaveScene_def removePlayer_def bind_eq_Some_conv Let_def same_scene_steps)
  have f: "same_accounts W1 (W2\<lparr>lb_ticks := t, lb_roles := R\<rparr>) = same_accounts W1 W2" for W1 W2 t R
    by (simp add: same_accounts_def)
  show "session_close E s W = Some W' \<Longrightarrow> same_accounts W W'"
    by (auto simp: session_close_def playerOffline_def lobby_second_def bind_eq_Some_conv Let_def l f split: option.splits)
qed

section \<open>Loading\<close>

lemma keeps_rows: "(\<And>i W. accounts_inv W \<Longrightarrow> keeps_accounts W (body i W)) \<Longrightarrow> accounts_inv W \<Longrightarrow> keeps_accounts W0 (each_row body is W)"
proof (induction "is" arbitrary: W)
  case (Cons i "is")
  have "keeps_accounts W0 (body i W)" using Cons.prems(1) [OF Cons.prems(2), of i] by (simp add: keeps_def)
  then show ?case using Cons by (auto intro: keeps_then)
qed simp

lemma keeps_load_account: "accounts_inv W \<Longrightarrow> keeps_accounts W (load_account E rows i W)"
  unfolding load_account_def fresh_def Let_def prod.case
proof (rule keeps_get)
  fix aid assume inv: "accounts_inv W"
  note new = fresh_unused [OF inv]
  show "keeps_accounts W (returns True (put_account (lb_fresh W) (new_account\<lparr>ai_accountId := aid,
       ai_accountName := getString rows i ''name'', ai_passwd := getString rows i ''passwd'', ai_token := getString rows i ''token'',
       ai_deviceId := getString rows i ''device_id'', ai_sysOpenId := getString rows i ''sys_openid''\<rparr>)
     (W\<lparr>lb_fresh := Suc (lb_fresh W), lb_am := lb_am (W\<lparr>lb_fresh := Suc (lb_fresh W)\<rparr>)\<lparr>
       am_idMap := std_assign aid (lb_fresh W) (am_idMap (lb_am (W\<lparr>lb_fresh := Suc (lb_fresh W)\<rparr>))),
       am_nameMap := std_assign (getString rows i ''name'') (lb_fresh W) (am_nameMap (lb_am (W\<lparr>lb_fresh := Suc (lb_fresh W)\<rparr>))),
       am_tokenAccountMap := std_assign (getString rows i ''token'') (lb_fresh W) (am_tokenAccountMap (lb_am (W\<lparr>lb_fresh := Suc (lb_fresh W)\<rparr>))),
       am_tokens := List.insert (getString rows i ''token'') (am_tokens (lb_am (W\<lparr>lb_fresh := Suc (lb_fresh W)\<rparr>)))\<rparr>\<rparr>)))"
    using inv unfolding keeps_simps accounts_inv_def
    by (elim conjE, intro conjI) (auto intro!: leads_new_assign new less_SucI simp: put_account_def account_ok_def new_account_def
        split: if_splits)
qed

lemma keeps_load_role: "accounts_inv W \<Longrightarrow> keeps_accounts W (load_account_role E rows i W)"
  unfolding load_account_role_def fresh_def Let_def prod.case
  by (intro keeps_get keeps_option stays_bind)
    (auto simp: put_account_def put_info_def new_role_info_def elim!: inv_add_role)

lemma inv_log: "accounts_inv W \<Longrightarrow> accounts_inv (W\<lparr>lb_log := log\<rparr>)"
  by (erule same_inv) simp

lemma table_queries_fit:
  "statement_text (Statement ''select * from accounts'' []) \<noteq> None" "statement_text (Statement ''select * from roles'' []) \<noteq> None"
  by (rule statement_fits; simp add: STATEMENT_BUFFER_def)+

lemma server_init_inv: "server_init E = Some (W, v) \<Longrightarrow> accounts_inv W"
proof -
  have "keeps_accounts W0 (accounts_loadFromDB E (initial_lobby (le_scenes E)))" for W0
    unfolding accounts_loadFromDB_def Let_def
    by (intro keeps_execute keeps_then keeps_rows keeps_load_account keeps_load_role inv_log initial_inv)
  then show "server_init E = Some (W, v) \<Longrightarrow> accounts_inv W" by (simp add: server_init_def keeps_def)
qed

section \<open>Logging in and scenes\<close>

lemma named_account:
  "accounts_inv W \<Longrightarrow> account_by_name name W = Some a \<Longrightarrow> \<exists>ai. lb_accounts W a = Some ai \<and> ai_accountName ai = name"
  by (auto simp: accounts_inv_def leads_to_def account_by_name_def)

lemma identified_account:
  "accounts_inv W \<Longrightarrow> account_by_id aid W = Some a \<Longrightarrow> \<exists>ai. lb_accounts W a = Some ai \<and> account_ok (lb_infos W) ai"
  by (fastforce simp: accounts_inv_def leads_to_def account_by_id_def)

lemma login_check_runs: "accounts_inv W \<Longrightarrow> login_check name sid passwd W \<noteq> None"
  by (cases "account_by_name name W") (auto simp: login_check_def dest!: named_account)

lemma named_runs: "accounts_inv W \<Longrightarrow> account_by_name name W = Some a \<Longrightarrow> lb_accounts W a \<noteq> None"
  by (auto dest: named_account)

lemma auto_login_ends: "accounts_inv W \<Longrightarrow> ends (doAutoLogin E request s W)"
  unfolding doAutoLogin_def Let_def by (intro ends_rules named_runs)

lemma login_ends: "accounts_inv W \<Longrightarrow> ends (doLogin E request s W)"
  unfolding doLogin_def by (intro ends_rules auto_login_ends login_check_runs)

lemma other_login_ends:
  "ends (doValidateName E request s W)" "ends (doLoadServers E request s W)"
  "ends (doChooseServer E request s W)" "ends (doLoadServerTowns E request s W)" "ends (doGetRecommandServers E request s W)"
  "ends (doGetServerInfo E request s W)" "ends (doGetCurrentRecommandSrv E request s W)"
  unfolding doValidateName_def doLoadServers_def doChooseServer_def
    doLoadServerTowns_def doGetRecommandServers_def doGetServerInfo_def doGetCurrentRecommandSrv_def
  by (intro ends_rules; simp add: ends_returns Let_def split: prod.split)+

lemma login_ends': "accounts_inv W \<Longrightarrow> ty \<noteq> ''Register'' \<Longrightarrow> login_doRequest E ty request s W \<noteq> None"
proof -
  assume inv: "accounts_inv W" and ty: "ty \<noteq> ''Register''"
  have "ends (login_doRequest E ty request s W)"
    unfolding login_doRequest_def if_not_P [OF ty]
    by (intro ends_if ends_returns other_login_ends login_ends auto_login_ends inv)
  then show ?thesis by (simp add: ends_def)
qed

text \<open>The two identifiers of a registration are written with 32 digits each.\<close>

lemma uuid_digits: "length (le_uuid E k) = 16 \<Longrightarrow> length (concat (map byte_to_hex (le_uuid E k))) = 32"
proof -
  have "length (concat (map byte_to_hex xs)) = 2 * length xs" for xs by (induction xs) (simp_all add: byte_to_hex_def)
  then show "length (le_uuid E k) = 16 \<Longrightarrow> ?thesis" by simp
qed

lemma register_faults_iff:
  assumes "\<And>k. length (le_uuid E k) = 16"
  shows "registerAccount E name passwd W = None \<longleftrightarrow>
    849 \<le> length (c_str name) + length (c_str passwd) + length (int_text (sint (ge_time E (lb_ticks W))))"
proof -
  have now: "wrap32 (sint t) = sint t" for t :: i32 by (rule wrap32_id) (use sint_range_size [of t] in \<open>simp add: in_int_def word_size\<close>)
  show ?thesis
    by (simp add: registerAccount_def generateUUID_def lobby_second_def lobby_execute_def fresh_def Let_def
      account_insert_fits_iff uuid_digits assms now del: not_None_eq)
qed

text \<open>
  C27. While the account maps are consistent, a request of the login servlet never follows a null pointer,
  whatever its fields are.  It faults on one thing only: a registration of a free name whose statement,
  with the name, the password, the time and two identifiers of 32 digits pasted in, is longer
  than the buffer of 1024 bytes it is formatted into.
\<close>
theorem login_requests_fault_iff:
  assumes "accounts_inv W" "\<And>k. length (le_uuid E k) = 16"
  shows "login_doRequest E ty request s W = None \<longleftrightarrow>
    ty = ''Register'' \<and> (\<exists>name passwd. getStringVal (str ''Name'') request = Inr name \<and> getStringVal (str ''Pwd'') request = Inr passwd
      \<and> name \<noteq> [] \<and> passwd \<noteq> [] \<and> account_by_name name W = None
      \<and> 849 \<le> length (c_str name) + length (c_str passwd) + length (int_text (sint (ge_time E (lb_ticks W)))))"
proof (cases "ty = ''Register''")
  case True
  then have "login_doRequest E ty request s W = doRegister E request s W" by (simp add: login_doRequest_def)
  then show ?thesis
    using True register_faults_iff [OF assms(2)]
    by (auto simp: doRegister_def field_str_def get_or_throw_def returns_def throws_def bind_eq_None_conv
        split: sum.splits option.splits prod.splits if_splits)
next
  case False
  then show ?thesis using login_ends' [OF assms(1)] by simp
qed

lemma registered_am:
  assumes "accounts_inv W" "registerAccount E name passwd W = Some (0, W')"
  obtains ai where "ai_accountName ai = name" "ai_passwd ai = passwd" "lb_servers W' = lb_servers W"
    "account_by_name name W' = Some (lb_fresh W)" "lb_accounts W' (lb_fresh W) = Some ai"
    "\<And>other. other \<noteq> name \<Longrightarrow> account_by_name other W' = account_by_name other W"
    "\<And>a. a \<noteq> lb_fresh W \<Longrightarrow> lb_accounts W' a = lb_accounts W a"
proof -
  have "ordered (am_nameMap (lb_am W))" using assms(1) by (simp add: accounts_inv_def leads_to_def)
  then show ?thesis
    by (rule_tac register_done [OF assms(2)]) (rule that, auto simp: account_by_name_def find_assign)
qed

text \<open>
  C29. After a successful registration exactly the registered password logs the name in, on every
  server that exists, and the answer for every other name is what it was before.
\<close>
theorem registered_account_logs_in:
  assumes "accounts_inv W" "registerAccount E name passwd W = Some (0, W')"
  shows "(\<exists>ai. ai_accountName ai = name \<and> (\<forall>sid p. login_check name sid p W' =
       Some (if p \<noteq> passwd then Inl LOGIN_ERROR_NAME_PASSWD_ERROR
             else if get_server sid W = None then Inl LOGIN_ERROR_SERVER_NOT_SELECTED else Inr ai)))
     \<and> (\<forall>other sid p. other \<noteq> name \<longrightarrow> login_check other sid p W' = login_check other sid p W)"
proof -
  obtain ai where ai: "ai_accountName ai = name" "ai_passwd ai = passwd" "lb_servers W' = lb_servers W"
    "account_by_name name W' = Some (lb_fresh W)" "lb_accounts W' (lb_fresh W) = Some ai"
    "\<And>other. other \<noteq> name \<Longrightarrow> account_by_name other W' = account_by_name other W"
    "\<And>a. a \<noteq> lb_fresh W \<Longrightarrow> lb_accounts W' a = lb_accounts W a"
    by (rule registered_am [OF assms]) (rule that)
  have "login_check other sid p W' = login_check other sid p W" if "other \<noteq> name" for other sid p
  proof (cases "account_by_name other W")
    case (Some a)
    with named_account [OF assms(1)] fresh_unused(1) [OF assms(1)] have "a \<noteq> lb_fresh W" by fastforce
    moreover have "get_server sid W' = get_server sid W" by (simp add: get_server_def ai)
    ultimately show ?thesis using Some that by (simp add: login_check_def ai cong: if_cong)
  qed (simp add: that login_check_def ai)
  then show ?thesis using ai by (auto simp: login_check_def get_server_def)
qed

definition accepting :: lobby_env where
  "accepting = (undefined :: lobby_env)\<lparr>ge_ok := (\<lambda>_. True), ge_autoId := (\<lambda>_. 7), ge_rows := (\<lambda>_. []),
     ge_time := (\<lambda>_. 0), le_uuid := (\<lambda>_. replicate 16 0)\<rparr>"

lemma accepted_registration:
  "\<exists>W'. registerAccount accepting (str ''ann'') (str ''pw'') (initial_lobby []) = Some (0, W')"
proof -
  have "registerAccount accepting (str ''ann'') (str ''pw'') (initial_lobby []) \<noteq> None"
    by (subst register_faults_iff) (simp_all add: accepting_def int_text_def str_def c_str_def decimal.simps [of 0])
  then show ?thesis
    by (auto simp: registerAccount_def generateUUID_def lobby_second_def lobby_execute_def accepting_def fresh_def Let_def split: if_splits)
qed

theorem registered_account_logs_in_witness:
  "\<exists>W' ai. registerAccount accepting (str ''ann'') (str ''pw'') (initial_lobby []) = Some (0, W')
     \<and> login_check (str ''ann'') 2 (str ''pw'') W' = Some (Inr ai)"
proof -
  obtain W' where reg: "registerAccount accepting (str ''ann'') (str ''pw'') (initial_lobby []) = Some (0, W')"
    using accepted_registration by blast
  have "get_server 2 (initial_lobby []) \<noteq> None" by code_simp
  with registered_account_logs_in [OF initial_inv reg] reg show ?thesis by auto
qed

text \<open>
  A registration of a free name that returns is answered with success whether or not the account was
  created: the -1 of a failed insert is the code for no error.
\<close>
lemma failed_registration_reports_success:
  assumes "accounts_inv W" "account_by_name name W = None" "name \<noteq> []" "passwd \<noteq> []"
    and "getStringVal (str ''Name'') request = Inr name" "getStringVal (str ''Pwd'') request = Inr passwd"
    and "registerAccount E name passwd W = Some (error, W')"
  shows "doRegister E request s W = Some (send_to s (reply ''Register'' success_body) W', Inr True)
     \<and> (account_by_name name W' = None \<longleftrightarrow> error \<noteq> 0)"
proof
  show "doRegister E request s W = Some (send_to s (reply ''Register'' success_body) W', Inr True)"
    using register_failed [OF assms(7)] assms(2-7)
    by (auto simp: doRegister_def field_str_def get_or_throw_def ERROR_CODE_NO_ERROR_def returns_def)
  show "account_by_name name W' = None \<longleftrightarrow> error \<noteq> 0"
  proof (cases "error = 0")
    case True
    with assms(7) registered_am [OF assms(1), of E name passwd W'] show ?thesis by auto
  next
    case False
    with register_failed [OF assms(7)] assms(2) show ?thesis by (simp add: same_accounts_def account_by_name_def)
  qed
qed

definition register_request :: bobject where
  "register_request = [(str ''Name'', BValue (V_string (str ''ann'')) None), (str ''Pwd'', BValue (V_string (str ''pw'')) None)]"

definition refusing :: lobby_env where
  "refusing = (undefined :: lobby_env)\<lparr>ge_ok := (\<lambda>_. False), ge_time := (\<lambda>_. 0), le_uuid := (\<lambda>_. replicate 16 0)\<rparr>"

lemma refused_registration:
  "\<exists>W'. registerAccount refusing (str ''ann'') (str ''pw'') (initial_lobby []) = Some (-1, W')"
proof -
  have "registerAccount refusing (str ''ann'') (str ''pw'') (initial_lobby []) \<noteq> None"
    by (subst register_faults_iff) (simp_all add: refusing_def int_text_def str_def c_str_def decimal.simps [of 0])
  then show ?thesis
    by (auto simp: registerAccount_def generateUUID_def lobby_second_def lobby_execute_def refusing_def Let_def split: if_splits)
qed

lemma failed_registration_reports_success_instance:
  "\<exists>W'. doRegister refusing register_request 0 (initial_lobby [])
       = Some (send_to 0 (reply ''Register'' success_body) W', Inr True)
     \<and> account_by_name (str ''ann'') W' = None"
proof -
  have req: "getStringVal (str ''Name'') register_request = Inr (str ''ann'')"
      "getStringVal (str ''Pwd'') register_request = Inr (str ''pw'')" "str ''ann'' \<noteq> []" "str ''pw'' \<noteq> []"
      "account_by_name (str ''ann'') (initial_lobby []) = None"
    by code_simp+
  obtain W' where "registerAccount refusing (str ''ann'') (str ''pw'') (initial_lobby []) = Some (-1, W')"
    using refused_registration by blast
  with failed_registration_reports_success [OF initial_inv req(5) req(3,4) req(1,2) this, of 0] show ?thesis by auto
qed

theorem login_requests_fault_iff_witness:
  "login_doRequest refusing ''Register''
     [(str ''Name'', BValue (V_string (replicate 848 1)) None), (str ''Pwd'', BValue (V_string [2]) None)] 0 (initial_lobby []) = None
   \<and> login_doRequest refusing ''Register'' register_request 0 (initial_lobby []) \<noteq> None"
proof -
  have long: "getStringVal (str ''Name'') [(str ''Name'', BValue (V_string n) None), (str ''Pwd'', BValue (V_string p) None)] = Inr n"
    "getStringVal (str ''Pwd'') [(str ''Name'', BValue (V_string n) None), (str ''Pwd'', BValue (V_string p) None)] = Inr p" for n p
    by (simp_all add: getStringVal_def get_string_def obj_find_def std_find_def str_def)
  have "\<And>k. length (le_uuid refusing k) = 16" by (simp add: refusing_def)
  note iff = login_requests_fault_iff [OF initial_inv this]
  show ?thesis
    unfolding iff register_request_def long
    by (simp add: refusing_def int_text_def c_str_def str_def account_by_name_def initial_lobby_def std_find_def decimal.simps [of 0])
qed

lemma those_runs: "(\<And>x. x \<in> set xs \<Longrightarrow> f x \<noteq> None) \<Longrightarrow> those (map f xs) \<noteq> None"
  by (induction xs) (auto split: option.splits)

text \<open>
  In a consistent state a request for the roles of an account follows a null pointer exactly when
  no account has the number in the request; neither the token nor a login is looked at.
\<close>
lemma load_roles_faults_iff:
  assumes "accounts_inv W" "getIntVal (str ''UserId'') request = Inr n"
  shows "doLoadRoles E token request s W = None \<longleftrightarrow> account_by_id (sint n) W = None"
proof (cases "account_by_id (sint n) W")
  case None
  then show ?thesis by (simp add: doLoadRoles_def field_int_def assms(2) get_or_throw_def)
next
  case (Some a)
  with identified_account [OF assms(1)] obtain ai where ai: "lb_accounts W a = Some ai" "account_ok (lb_infos W) ai" by blast
  have "lb_infos W r \<noteq> None" if "(rid, r) \<in> set (ai_roles ai)" for rid r
    using ai(2) set_find [OF _ that] by (fastforce simp: account_ok_def leads_to_def)
  then have "those (map (lb_infos W \<circ> snd) (ai_roles ai)) \<noteq> None" by (intro those_runs) auto
  then show ?thesis
    by (auto simp: doLoadRoles_def field_int_def assms(2) get_or_throw_def Some ai returns_def)
qed

definition roles_request :: bobject where
  "roles_request = [(str ''UserId'', BValue (V_int 5) None)]"

lemma load_roles_faults_iff_instance:
  "doLoadRoles undefined [] roles_request 0 (initial_lobby []) = None"
proof -
  have "getIntVal (str ''UserId'') roles_request = Inr 5" "account_by_id (sint (5 :: i32)) (initial_lobby []) = None"
    by code_simp+
  with load_roles_faults_iff [OF initial_inv] show ?thesis by metis
qed

lemma send_all_sent: "send_all m obj W = W\<lparr>lb_sent := lb_sent W @ map (\<lambda>e. (snd e, obj)) m\<rparr>"
  by (induction m obj W rule: send_all.induct) (simp_all add: send_to_def)

lemma broadcast_loop_sent:
  "ordered m \<Longrightarrow> broadcast_loop m obj self W =
     W\<lparr>lb_sent := lb_sent W @ map (\<lambda>e. (snd e, obj)) (filter (\<lambda>e. fst e \<noteq> self) m)\<rparr>"
proof (induction m obj self W rule: broadcast_loop.induct)
  case (2 rid s m obj self W)
  have "filter (\<lambda>e. fst e \<noteq> self) m = m" if "self = rid" using 2(2) that by (auto simp: filter_id_conv)
  then show ?case using 2 by (simp add: send_to_def send_all_sent)
qed simp

text \<open>
  A broadcast in a scene sends the object once to the session of every other player there, in the
  order of the role numbers, and changes nothing else; the sender gets nothing.
\<close>
lemma broadcast_reaches_all_others:
  assumes "get_scene sid W = Some m" "ordered m"
  shows "broadcast sid obj self W =
     Some (W\<lparr>lb_sent := lb_sent W @ map (\<lambda>e. (snd e, obj)) (filter (\<lambda>e. fst e \<noteq> self) m)\<rparr>)"
  by (simp add: broadcast_def assms broadcast_loop_sent)

lemma broadcast_reaches_all_others_instance:
  "map_option lb_sent (broadcast 1 [] 5 (set_players 1 [(3, 30), (5, 50), (8, 80)] (initial_lobby []))) = Some [(30, []), (80, [])]"
proof -
  let ?W = "set_players 1 [(3, 30), (5, 50), (8, 80)] (initial_lobby [])"
  have "get_scene 1 ?W = Some [(3, 30), (5, 50), (8, 80)]"
    by (simp add: get_scene_def set_players_def initial_lobby_def initScenes_def getAllScenes_def std_find_def)
  from broadcast_reaches_all_others [OF this, of "[]" 5] show ?thesis
    by (simp add: set_players_def initial_lobby_def)
qed

end
