(* ===== verification/Server.thy ===== *)
theory Server
  imports Packet Ring_Queue Lobby_Facts
begin

text \<open>
  The running server: sessions are accepted (\<open>socket_server.cpp\<close>), the network thread turns readable
  events into messages (\<open>epoll_server.cpp\<close>), and one worker (\<open>thread.cpp\<close>) takes them from the ring
  and dispatches them.  Messages are objects of their own: the ring holds their addresses, the
  dispatcher deletes them.
\<close>

record server =
  sr_lobby :: lobby
  sr_sockets :: "nat \<Rightarrow> socket_state option"
  sr_queue :: "nat ring_queue"
  sr_messages :: "nat \<Rightarrow> message option"
  sr_next :: nat

definition boot :: "lobby \<Rightarrow> server" where
  "boot W = \<lparr>sr_lobby = W, sr_sockets = (\<lambda>_. None), sr_queue = new_ring, sr_messages = (\<lambda>_. None), sr_next = 0\<rparr>"

text \<open>\<open>msg = new Message; queue->push(msg)\<close>.\<close>

definition post :: "message \<Rightarrow> server \<Rightarrow> server" where
  "post msg sv = sv\<lparr>sr_messages := (sr_messages sv)(sr_next sv := Some msg),
     sr_queue := ring_push (sr_next sv) (sr_queue sv), sr_next := Suc (sr_next sv)\<rparr>"

text \<open>A new connection; \<open>mem\<close> is what its buffer holds, which nothing initialises.\<close>

definition accept_session :: "byte list \<Rightarrow> server \<Rightarrow> server" where
  "accept_session mem sv = (case fresh (sr_lobby sv) of (s, W) \<Rightarrow>
     sv\<lparr>sr_lobby := put_session s \<lparr>ss_role = None, ss_open = True\<rparr> W,
        sr_sockets := (sr_sockets sv)(s := Some \<lparr>so_buffer = \<lparr>m_read = 0, m_write = 0, m_buffer = mem, m_protocol = []\<rparr>,
          so_open = True\<rparr>)\<rparr>)"

fun close_calls :: "lobby_env \<Rightarrow> nat \<Rightarrow> nat \<Rightarrow> lobby \<Rightarrow> lobby option" where
  "close_calls E s 0 W = Some W"
| "close_calls E s (Suc n) W = do { W \<leftarrow> session_close E s W; close_calls E s n W }"

text \<open>One readable event of an open session; \<open>close\<close> is virtual and takes the player offline.\<close>

definition readable :: "lobby_env \<Rightarrow> nat \<Rightarrow> nat \<Rightarrow> sys_read list \<Rightarrow> server \<Rightarrow> server outcome" where
  "readable E fuel s script sv =
     lift_fault (sr_sockets sv s) (\<lambda>so.
     bind_outcome (readable_event fuel s script so) (\<lambda>(so, closes, msg).
     lift_fault (close_calls E s closes (sr_lobby sv)) (\<lambda>W.
       let sv = sv\<lparr>sr_sockets := (sr_sockets sv)(s := Some so), sr_lobby := W\<rparr> in
       Done (case msg of None \<Rightarrow> sv | Some msg \<Rightarrow> post msg sv))))"

text \<open>
  One round of the worker: nothing to do, a message handled, or an exception that nothing catches, which
  ends the process.
\<close>

datatype worker_end = Idle | Handled bool | Terminated cxx_exception

definition worker_step :: "lobby_env \<Rightarrow> server \<Rightarrow> (worker_end \<times> server) option" where
  "worker_step E sv =
     (case ring_pop (sr_queue sv) of
        (None, q) \<Rightarrow> Some (Idle, sv\<lparr>sr_queue := q\<rparr>)
      | (Some m, q) \<Rightarrow> do {
          msg \<leftarrow> sr_messages sv m;
          (W, v) \<leftarrow> dispatch_request E (msg_ps msg) (msg_request msg) (sr_lobby sv);
          let sv = sv\<lparr>sr_queue := q, sr_lobby := W\<rparr>;
          Some (case v of
              Inl e \<Rightarrow> (Terminated e, sv)
            | Inr (b, deleted) \<Rightarrow> (Handled b,
                if deleted then sv\<lparr>sr_messages := (sr_messages sv)(m := None)\<rparr> else sv))
        })"

inductive server_step :: "lobby_env \<Rightarrow> nat \<Rightarrow> server \<Rightarrow> server \<Rightarrow> bool" for E fuel where
  Accept: "length mem = MAX_BUFFER_SIZE \<Longrightarrow> server_step E fuel sv (accept_session mem sv)"
| Readable: "sr_sockets sv s = Some so \<Longrightarrow> so_open so \<Longrightarrow> readable E fuel s script sv = Done sv' \<Longrightarrow> server_step E fuel sv sv'"
| Work: "worker_step E sv = Some (r, sv') \<Longrightarrow> (\<And>e. r \<noteq> Terminated e) \<Longrightarrow> server_step E fuel sv sv'"

inductive reachable :: "lobby_env \<Rightarrow> nat \<Rightarrow> lobby \<Rightarrow> server \<Rightarrow> bool" for E fuel W where
  Start: "reachable E fuel W (boot W)"
| Step: "reachable E fuel W sv \<Longrightarrow> server_step E fuel sv sv' \<Longrightarrow> reachable E fuel W sv'"

section \<open>The first lap of the queue\<close>

text \<open>Messages are numbered in the order of their allocation, which is that of the pushes.\<close>

definition live_inv :: "server \<Rightarrow> bool" where
  "live_inv sv \<longleftrightarrow> first_lap (sr_queue sv) \<and> unat (rq_tail (sr_queue sv)) = sr_next sv
     \<and> (\<forall>i < sr_next sv. rq_slots (sr_queue sv) ! i = Some i)
     \<and> (\<forall>i. unat (rq_head (sr_queue sv)) \<le> i \<and> i < sr_next sv \<longrightarrow> sr_messages sv i \<noteq> None)"

lemma boot_live: "live_inv (boot W)"
  using new_first_lap(1) by (simp add: live_inv_def boot_def) (simp add: new_ring_def)

lemma post_live:
  assumes "live_inv sv" "Suc (sr_next sv) < QUEUE_SIZE"
  shows "live_inv (post msg sv)"
proof -
  have room: "0 < ring_room (sr_queue sv)" and lap: "first_lap (sr_queue sv)"
    using assms by (auto simp: live_inv_def ring_room_def)
  have t: "unat (rq_tail (sr_queue sv) + 1) = Suc (sr_next sv)"
    using counter_step [of "rq_tail (sr_queue sv)"] assms by (simp add: live_inv_def)
  have push: "rq_slots (ring_push (sr_next sv) (sr_queue sv)) = (rq_slots (sr_queue sv))[sr_next sv := Some (sr_next sv)]"
      "rq_tail (ring_push (sr_next sv) (sr_queue sv)) = rq_tail (sr_queue sv) + 1"
      "rq_head (ring_push (sr_next sv) (sr_queue sv)) = rq_head (sr_queue sv)"
      "length (rq_slots (sr_queue sv)) = QUEUE_SIZE"
    using assms by (auto simp: ring_push_def live_inv_def first_lap_def Let_def)
  show ?thesis
    using push_first_lap(1) [OF lap room, of "sr_next sv"] assms t
    by (auto simp: live_inv_def post_def push nth_list_update less_Suc_eq)
qed

lemma readable_shape:
  assumes "readable E fuel s script sv = Done sv'"
  obtains W socks where "sv' = sv\<lparr>sr_sockets := socks, sr_lobby := W\<rparr>"
  | W socks msg where "sv' = post msg (sv\<lparr>sr_sockets := socks, sr_lobby := W\<rparr>)"
  using assms unfolding readable_def
  by (fastforce simp: Let_def bind_outcome_def lift_fault_def split: option.splits outcome.splits)

lemma pop_live:
  assumes "live_inv sv" "ring_pop (sr_queue sv) = (Some m, q)"
  shows "m = unat (rq_head (sr_queue sv))" "m < sr_next sv" "q = (sr_queue sv)\<lparr>rq_head := rq_head (sr_queue sv) + 1\<rparr>"
    "unat (rq_head q) = Suc m" "first_lap q"
proof -
  let ?q = "sr_queue sv"
  have lap: "length (rq_slots ?q) = QUEUE_SIZE" "unat (rq_tail ?q) = sr_next sv" "sr_next sv < QUEUE_SIZE"
      "unat (rq_head ?q) \<le> sr_next sv" "\<And>i. i < QUEUE_SIZE \<Longrightarrow> (rq_slots ?q ! i = None) = (sr_next sv \<le> i)"
    using assms(1) by (auto simp: live_inv_def first_lap_def)
  then have hd: "unat (rq_head ?q) mod QUEUE_SIZE = unat (rq_head ?q)" by simp
  from assms(2) have slot: "rq_slots ?q ! unat (rq_head ?q) = Some m" and q: "q = ?q\<lparr>rq_head := rq_head ?q + 1\<rparr>"
    unfolding ring_pop_def lap(1) hd Let_def by (auto split: option.splits)
  then show lt: "m < sr_next sv" and m: "m = unat (rq_head ?q)"
    using lap assms(1) by (auto simp: live_inv_def not_le [symmetric])
       (metis lap(5) le_less_trans not_le option.distinct(1) option.inject)+
  show "q = ?q\<lparr>rq_head := rq_head ?q + 1\<rparr>" by (fact q)
  show h: "unat (rq_head q) = Suc m"
    using counter_step [of "rq_head ?q"] lap m lt by (simp add: q)
  show "first_lap q"
    using assms(1) h lt by (auto simp: live_inv_def first_lap_def q)
qed

lemma worker_shape:
  assumes "worker_step E sv = Some (r, sv')"
  obtains "ring_pop (sr_queue sv) = (None, sr_queue sv)" "sv' = sv" "r = Idle"
  | m q msg W v where "ring_pop (sr_queue sv) = (Some m, q)" "sr_messages sv m = Some msg"
      "dispatch_request E (msg_ps msg) (msg_request msg) (sr_lobby sv) = Some (W, v)"
      "sr_queue sv' = q" "sr_next sv' = sr_next sv" "sr_lobby sv' = W" "\<And>i. i \<noteq> m \<Longrightarrow> sr_messages sv' i = sr_messages sv i"
proof (cases "ring_pop (sr_queue sv)")
  case (Pair r0 q)
  show ?thesis
  proof (cases r0)
    case None
    then have "q = sr_queue sv" using Pair by (auto simp: ring_pop_def Let_def split: option.splits)
    with None that(1) assms Pair show ?thesis by (auto simp: worker_step_def)
  next
    case (Some m)
    with assms Pair obtain msg W v where d: "sr_messages sv m = Some msg"
      "dispatch_request E (msg_ps msg) (msg_request msg) (sr_lobby sv) = Some (W, v)"
      by (auto simp: worker_step_def bind_eq_Some_conv split: prod.splits)
    with assms Pair Some that(2) show ?thesis
      by (cases v) (auto simp: worker_step_def Let_def split: if_splits)
  qed
qed

lemma worker_next: "worker_step E sv = Some (r, sv') \<Longrightarrow> sr_next sv' = sr_next sv"
  by (erule worker_shape) simp_all

lemma worker_live:
  assumes "live_inv sv" "worker_step E sv = Some (r, sv')"
  shows "live_inv sv'"
  using assms(2)
proof (cases rule: worker_shape)
  case 1
  then show ?thesis using assms(1) by simp
next
  case (2 m q msg W v)
  show ?thesis
    using assms(1) 2 pop_live [OF assms(1) 2(1)] by (auto simp: live_inv_def)
qed

lemma step_next: "server_step E fuel sv sv' \<Longrightarrow> sr_next sv \<le> sr_next sv'"
proof (induction rule: server_step.induct)
  case (Readable sv s so script sv')
  from readable_shape [OF Readable(3)] show ?case by cases (simp_all add: post_def)
qed (auto simp: accept_session_def fresh_def dest: worker_next)

lemma step_live:
  assumes "server_step E fuel sv sv'" "live_inv sv" "sr_next sv' < QUEUE_SIZE"
  shows "live_inv sv'"
  using assms
proof (induction rule: server_step.induct)
  case (Accept mem sv)
  then show ?case by (simp add: accept_session_def fresh_def live_inv_def)
next
  case (Readable sv s so script sv')
  have inv: "live_inv (sv\<lparr>sr_sockets := socks, sr_lobby := W\<rparr>)" for W socks
    using Readable.prems by (simp add: live_inv_def)
  from readable_shape [OF Readable.hyps(3)] show ?case
  proof cases
    case (2 W socks msg)
    with Readable.prems(2) show ?thesis using post_live [OF inv] by (simp add: post_def)
  qed (simp add: inv)
next
  case (Work sv r sv')
  then show ?case using worker_live by blast
qed

lemma reachable_live: "reachable E fuel W sv \<Longrightarrow> sr_next sv < QUEUE_SIZE \<Longrightarrow> live_inv sv"
proof (induction rule: reachable.induct)
  case Start
  show ?case by (rule boot_live)
next
  case (Step sv sv')
  then show ?case using step_next [OF Step.hyps(2)] step_live [OF Step.hyps(2)] by simp
qed

section \<open>Whole requests\<close>

lemma fresh_socket:
  "length mem = MAX_BUFFER_SIZE \<Longrightarrow> buffer_inv \<lparr>m_read = 0, m_write = 0, m_buffer = mem, m_protocol = p\<rparr>"
  "pending \<lparr>m_read = 0, m_write = 0, m_buffer = mem, m_protocol = p\<rparr> = []"
  by (simp_all add: buffer_inv_def pending_def MAX_BUFFER_SIZE_def)

lemma one_chunk:
  assumes "buffer_inv b" "pending b = []" "xs \<noteq> []" "length xs < 2048"
  obtains b' where "socket_read b SOCKET_CHUNK [R_data xs] = Done (0, b', [])" "buffer_inv b'" "pending b' = xs"
    "m_protocol b' = m_protocol b"
  using socket_read_chunks [of "[R_data xs]" b] assms by (auto simp: MAX_BUFFER_SIZE_def)

lemma packet_event:
  assumes "buffer_inv (so_buffer so)" "pending (so_buffer so) = []" "so_open so"
    and "bson_parse fuel xs = Done obj" "length xs < 2038"
  shows "\<exists>so'. readable_event fuel ps [R_data (packet_of xs)] so = Done (so', 0, Some \<lparr>msg_ps = ps, msg_request = obj\<rparr>)"
proof -
  have len: "length (packet_of xs) < 2048" using assms(5) by (simp add: length_packet packet_sz_def)
  obtain b where b: "socket_read (so_buffer so) SOCKET_CHUNK [R_data (packet_of xs)] = Done (0, b, [])"
      "buffer_inv b" "pending b = packet_of xs"
    using one_chunk [OF assms(1,2) packet_of_ne len] by metis
  obtain b' where b': "parseFromBuffer fuel b = Done (0, b')" "m_protocol b' = obj"
    using parse_packet [OF b(2) _ assms(4), of "[]"] b(3) by auto
  have "\<not> readAvailable b < int packet_sz"
    by (simp add: available_pending [OF b(2)] b(3) length_packet)
  then show ?thesis using b b' by (simp add: readable_event_def Let_def)
qed

text \<open>The only message of an idle server is the next one the worker handles.\<close>

lemma idle_worker_takes:
  assumes "first_lap (sr_queue sv)" "ring_entries (sr_queue sv) = []" "0 < ring_room (sr_queue sv)"
    and "dispatch_request E (msg_ps msg) (msg_request msg) (sr_lobby sv) = Some (W', Inr (b, d))"
  shows "\<exists>sv'. worker_step E (post msg sv) = Some (Handled b, sv') \<and> sr_lobby sv' = W'"
proof -
  let ?sv1 = "post msg sv"
  have "first_lap (sr_queue ?sv1)" "ring_entries (sr_queue ?sv1) = [sr_next sv]"
    using push_first_lap(1,2) [OF assms(1,3), of "sr_next sv"] assms(2) by (simp_all add: post_def)
  then have "fst (ring_pop (sr_queue ?sv1)) = Some (sr_next sv)"
    using ring.deq_law [of "sr_queue ?sv1" "sr_next sv" "[]"] by simp
  then obtain q where q: "ring_pop (sr_queue ?sv1) = (Some (sr_next sv), q)" by (metis prod.collapse)
  have m: "sr_messages ?sv1 (sr_next sv) = Some msg" "sr_lobby ?sv1 = sr_lobby sv" by (simp_all add: post_def)
  show ?thesis by (simp add: worker_step_def q m assms(4) Let_def)
qed

text \<open>A document sent on a connection that has just been opened becomes a message.\<close>

lemma first_packet_posts:
  assumes "length mem = MAX_BUFFER_SIZE" "bson_parse fuel xs = Done obj" "length xs < 2038"
  obtains so where "readable E fuel (lb_fresh (sr_lobby sv)) [R_data (packet_of xs)] (accept_session mem sv)
    = Done (post \<lparr>msg_ps = lb_fresh (sr_lobby sv), msg_request = obj\<rparr>
        ((accept_session mem sv)\<lparr>sr_sockets := (sr_sockets (accept_session mem sv))(lb_fresh (sr_lobby sv) := Some so)\<rparr>))"
proof -
  let ?s = "lb_fresh (sr_lobby sv)" and ?so = "\<lparr>so_buffer = \<lparr>m_read = 0, m_write = 0, m_buffer = mem, m_protocol = []\<rparr>, so_open = True\<rparr>"
  have so: "sr_sockets (accept_session mem sv) ?s = Some ?so" by (simp add: accept_session_def fresh_def)
  have "buffer_inv (so_buffer ?so)" "pending (so_buffer ?so) = []" "so_open ?so" using assms(1) by (simp_all add: fresh_socket)
  from packet_event [OF this assms(2,3), of ?s]
  obtain so' where "readable_event fuel ?s [R_data (packet_of xs)] ?so = Done (so', 0, Some \<lparr>msg_ps = ?s, msg_request = obj\<rparr>)"
    by blast
  then show ?thesis
    by (intro that [of so']) (simp add: readable_def so lift_fault_simps bind_outcome_simps Let_def)
qed

text \<open>
  The sockets of clients are left blocking: when the last chunk of a client fills the block that is
  read, the loop asks for more and the only network thread waits for this client.
\<close>

lemma full_chunk_stalls:
  assumes "sr_sockets sv s = Some so" "buffer_inv (so_buffer so)" "pending (so_buffer so) = []" "length xs = 2048"
  shows "readable E fuel s [R_data xs] sv = Timeout"
proof -
  have "length (pending (so_buffer so)) + length xs < MAX_BUFFER_SIZE" "xs \<noteq> []" using assms(3,4) by (auto simp: MAX_BUFFER_SIZE_def)
  then obtain ret b where "buffer_add (so_buffer so) xs (int (length xs)) = Some (ret, b)"
    by (rule_tac add_fits [OF assms(2)])
  with \<open>xs \<noteq> []\<close> assms(4) have "socket_read (so_buffer so) SOCKET_CHUNK [R_data xs] = Timeout"
    by (simp add: SOCKET_CHUNK_def)
  then show ?thesis by (simp add: readable_def readable_event_def assms(1))
qed

text \<open>The smallest request that is answered: the list of servers.\<close>

definition load_request :: bobject where
  "load_request = [(str ''Command'', BValue (V_string (str ''LoadServers'')) (Some BSON_STRING))]"

definition load_received :: bobject where
  "load_received = [(str ''Command'', BValue (V_string (str ''LoadServers'')) None)]"

definition load_document :: "byte list" where
  "load_document = doc_bytes (elems_bytes (to_doc load_request))"

lemma load_parse: "bson_parse 20 load_document = Done load_received" "length load_document < 2038"
proof -
  have "plain_object load_request" "ordered load_request" "doc_small (to_doc load_request)"
      "doc_fuel (to_doc load_request) \<le> 20" "seen load_request = load_received"
    by (simp_all add: load_request_def load_received_def str_def ascii_accepted string_body_def doc_small_def INT_MAX_def)
  then show "bson_parse 20 load_document = Done load_received"
    using parse_seen [of load_request 20] by (simp add: load_document_def)
  show "length load_document < 2038"
    by (simp add: load_document_def load_request_def str_def string_body_def doc_bytes_def)
qed

lemma load_dispatch:
  "dispatch_request E s load_received W = Some (send_to s (reply ''LoadServers''
     (obj_array ''Servers'' (map (obj_value \<circ> server_object) (getAll W)) [])) W, Inr (True, True))"
proof -
  have "getStringVal (str ''Command'') load_received = Inr (str ''LoadServers'')"
      "getStringVal (str ''Token'') load_received = Inr []" "getObjectVal (str ''Body'') load_received = Inr []"
      "getStringVal (str ''Name'') [] = Inr []" "find_servlet (str ''LoadServers'') = Some (''LoadServers'', Login_servlet)"
    by code_simp+
  then show ?thesis
    by (simp add: dispatch_request_def servlet_doRequest_def login_doRequest_def doLoadServers_def returns_def)
qed

text \<open>A server that has answered \<open>n\<close> requests and is idle.\<close>

definition served :: "nat \<Rightarrow> server \<Rightarrow> bool" where
  "served n sv \<longleftrightarrow> length (rq_slots (sr_queue sv)) = QUEUE_SIZE \<and> unat (rq_tail (sr_queue sv)) = n
     \<and> unat (rq_head (sr_queue sv)) = n \<and> sr_next sv = n \<and> (\<forall>i. sr_messages sv i = None)
     \<and> (\<forall>i < QUEUE_SIZE. rq_slots (sr_queue sv) ! i = (if i < n then Some i else None))"

lemma posted_event:
  assumes "served n sv" "n < QUEUE_SIZE"
  obtains sv1 sv2 where "server_step E 20 sv sv1" "server_step E 20 sv1 sv2" "sr_next sv2 = Suc n"
    "sr_messages sv2 = (\<lambda>i. if i = n then Some \<lparr>msg_ps = lb_fresh (sr_lobby sv), msg_request = load_received\<rparr> else None)"
    "sr_queue sv2 = ring_push n (sr_queue sv)"
proof -
  let ?mem = "replicate MAX_BUFFER_SIZE 0" and ?s = "lb_fresh (sr_lobby sv)"
  let ?sv = "accept_session ?mem sv" and ?msg = "\<lparr>msg_ps = ?s, msg_request = load_received\<rparr>"
  have step1: "server_step E 20 sv ?sv" by (rule server_step.Accept) simp
  let ?so = "\<lparr>so_buffer = \<lparr>m_read = 0, m_write = 0, m_buffer = ?mem, m_protocol = []\<rparr>, so_open = True\<rparr>"
  have so: "sr_sockets ?sv ?s = Some ?so" by (simp add: accept_session_def fresh_def)
  obtain so where ev: "readable E 20 ?s [R_data (packet_of load_document)] ?sv
      = Done (post ?msg (?sv\<lparr>sr_sockets := (sr_sockets ?sv)(?s := Some so)\<rparr>))"
    by (rule first_packet_posts [OF length_replicate load_parse])
  have step2: "server_step E 20 ?sv (post ?msg (?sv\<lparr>sr_sockets := (sr_sockets ?sv)(?s := Some so)\<rparr>))"
    by (rule server_step.Readable [OF so _ ev]) simp
  show ?thesis
    by (rule that [OF step1 step2]) (use assms in \<open>auto simp: served_def post_def accept_session_def fresh_def\<close>)
qed

lemma serve_one:
  assumes "reachable E 20 W sv" "served n sv" "n < QUEUE_SIZE"
  obtains sv' where "reachable E 20 W sv'" "served (Suc n) sv'"
proof -
  obtain sv1 sv2 where sv2: "server_step E 20 sv sv1" "server_step E 20 sv1 sv2" "sr_next sv2 = Suc n"
    "sr_messages sv2 = (\<lambda>i. if i = n then Some \<lparr>msg_ps = lb_fresh (sr_lobby sv), msg_request = load_received\<rparr> else None)"
    "sr_queue sv2 = ring_push n (sr_queue sv)"
    using posted_event [OF assms(2,3)] by blast
  have q: "rq_slots (sr_queue sv2) = (rq_slots (sr_queue sv))[n := Some n]" "rq_tail (sr_queue sv2) = rq_tail (sr_queue sv) + 1"
      "rq_head (sr_queue sv2) = rq_head (sr_queue sv)" "length (rq_slots (sr_queue sv)) = QUEUE_SIZE"
      "unat (rq_head (sr_queue sv)) = n" "unat (rq_tail (sr_queue sv)) = n"
    using assms(2,3) by (auto simp: served_def sv2 ring_push_def)
  have c: "unat (rq_head (sr_queue sv) + 1) = Suc n" "unat (rq_tail (sr_queue sv) + 1) = Suc n"
    using counter_step [of "rq_head (sr_queue sv)"] counter_step [of "rq_tail (sr_queue sv)"] q assms(3) by simp_all
  have pop: "ring_pop (sr_queue sv2) = (Some n, (sr_queue sv2)\<lparr>rq_head := rq_head (sr_queue sv) + 1\<rparr>)"
    using assms(3) by (simp add: ring_pop_def q Let_def)
  obtain r sv3 where work: "worker_step E sv2 = Some (Handled r, sv3)" "sr_next sv3 = Suc n" "\<And>i. sr_messages sv3 i = None"
      "sr_queue sv3 = (sr_queue sv2)\<lparr>rq_head := rq_head (sr_queue sv) + 1\<rparr>"
    by (simp add: worker_step_def pop sv2(3,4) load_dispatch Let_def)
  have "server_step E 20 sv2 sv3" by (rule server_step.Work [OF work(1)]) simp
  then have "reachable E 20 W sv3" using assms(1) sv2(1,2) by (meson reachable.Step)
  moreover have "served (Suc n) sv3"
    using assms(2,3) by (auto simp: served_def work q c nth_list_update less_Suc_eq)
  ultimately show ?thesis by (rule that)
qed

lemma serve_many: "n \<le> QUEUE_SIZE \<Longrightarrow> \<exists>sv. reachable E 20 W sv \<and> served n sv"
proof (induction n)
  case 0
  have "served 0 (boot W)" by (simp add: served_def boot_def new_ring_def)
  then show ?case using reachable.Start by blast
next
  case (Suc n)
  then obtain sv where "reachable E 20 W sv" "served n sv" by auto
  from serve_one [OF this] Suc.prems show ?case by (metis Suc_le_lessD)
qed

section \<open>The accounts stay consistent\<close>

lemma inv_closes: "accounts_inv W \<Longrightarrow> close_calls E s n W = Some W' \<Longrightarrow> accounts_inv W'"
  by (induction E s n W rule: close_calls.induct) (auto simp: bind_eq_Some_conv intro: inv_close)

lemma inv_accept: "accounts_inv (sr_lobby sv) \<Longrightarrow> accounts_inv (sr_lobby (accept_session mem sv))"
  by (erule same_inv) (simp add: accept_session_def fresh_def same_accounts_def put_session_def)

lemma inv_readable: "accounts_inv (sr_lobby sv) \<Longrightarrow> readable E fuel s script sv = Done sv' \<Longrightarrow> accounts_inv (sr_lobby sv')"
  unfolding readable_def
  by (fastforce simp: Let_def bind_outcome_def lift_fault_def post_def dest: inv_closes split: option.splits outcome.splits)

lemma inv_worker: "accounts_inv (sr_lobby sv) \<Longrightarrow> worker_step E sv = Some (r, sv') \<Longrightarrow> accounts_inv (sr_lobby sv')"
  by (erule worker_shape) (auto dest: inv_dispatch)

lemma inv_step: "server_step E fuel sv sv' \<Longrightarrow> accounts_inv (sr_lobby sv) \<Longrightarrow> accounts_inv (sr_lobby sv')"
  by (induction rule: server_step.induct) (auto intro: inv_accept inv_readable inv_worker)

lemma reachable_accounts: "reachable E fuel W sv \<Longrightarrow> accounts_inv W \<Longrightarrow> accounts_inv (sr_lobby sv)"
  by (induction rule: reachable.induct) (simp_all add: boot_def inv_step)

section \<open>Properties\<close>

text \<open>
  C20. In every state the server reaches after loading its tables, through any interleaving of
  connections, readable events, broken sessions and worker rounds, every entry of the account and role
  maps leads to an account or role that exists and carries the name, number or token it is filed under, and
  every account lists only its existing roles.
\<close>
theorem accounts_stay_consistent:
  assumes "server_init E = Some (W, v)" "reachable E fuel W sv"
  shows "accounts_inv (sr_lobby sv)"
  using reachable_accounts [OF assms(2) server_init_inv [OF assms(1)]] .

theorem accounts_stay_consistent_witness:
  "\<exists>W sv. server_init accepting = Some (W, Inr True) \<and> reachable accepting 20 W sv \<and> served 1 sv \<and> accounts_inv (sr_lobby sv)"
proof -
  obtain W where W: "server_init accepting = Some (W, Inr True)"
    by (simp add: server_init_def accounts_loadFromDB_def accepting_def lobby_execute_def lobby_rows_def table_queries_fit
        then_do_def returns_def Let_def)
  obtain sv where "reachable accepting 20 W sv" "served 1 sv" using serve_many [of 1] by (auto simp: QUEUE_SIZE_def)
  with W accounts_stay_consistent [OF W] show ?thesis by blast
qed

text \<open>
  C23. As long as fewer than \<open>QUEUE_SIZE\<close> messages have been queued since the start, in whatever
  order sessions connect, send and break and the worker runs, the worker only ever takes a message that
  exists: no message is handled after it was deleted.
\<close>
theorem queued_messages_live:
  assumes "reachable E fuel W sv" "sr_next sv < QUEUE_SIZE" "ring_pop (sr_queue sv) = (Some m, q)"
  shows "\<exists>msg. sr_messages sv m = Some msg"
proof -
  have "live_inv sv" by (rule reachable_live) fact+
  with pop_live [OF this assms(3)] show ?thesis by (auto simp: live_inv_def)
qed

theorem queued_messages_live_witness:
  "\<exists>sv q. reachable (undefined :: lobby_env) 20 (undefined :: lobby) sv \<and> ring_pop (sr_queue sv) = (Some 0, q)
     \<and> (\<exists>msg. sr_messages sv 0 = Some msg)"
proof -
  have b: "served 0 (boot (undefined :: lobby))" by (simp add: served_def boot_def new_ring_def)
  obtain sv1 sv2 where sv2: "server_step undefined 20 (boot undefined) sv1" "server_step undefined 20 sv1 sv2"
      "sr_next sv2 = Suc 0" "sr_queue sv2 = ring_push 0 (sr_queue (boot undefined))"
    by (rule posted_event [OF b, of undefined]) (simp_all add: QUEUE_SIZE_def)
  have r: "reachable undefined 20 undefined sv2"
    using sv2(1,2) by (meson reachable.Start reachable.Step)
  have "\<exists>q. ring_pop (sr_queue sv2) = (Some 0, q)"
    by (simp add: sv2(4) boot_def new_ring_def ring_push_def ring_pop_def QUEUE_SIZE_def Let_def)
  moreover have "sr_next sv2 < QUEUE_SIZE" by (simp add: sv2(3) QUEUE_SIZE_def)
  ultimately show ?thesis using r queued_messages_live [OF r] by blast
qed

text \<open>
  C24. From any start there is a run in which every request is answered and which ends with the worker
  following a deleted message: after \<open>QUEUE_SIZE\<close> requests the ring is full, and the next \<open>pop\<close>
  of the idle worker delivers the first message again, which the dispatcher has deleted.
\<close>
theorem full_ring_uses_freed_message:
  "\<exists>sv. reachable E 20 W sv \<and> sr_next sv = QUEUE_SIZE \<and> (\<forall>i. sr_messages sv i = None) \<and> worker_step E sv = None"
proof -
  obtain sv where sv: "reachable E 20 W sv" "served QUEUE_SIZE sv" using serve_many by blast
  have "ring_pop (sr_queue sv) = (Some 0, (sr_queue sv)\<lparr>rq_head := rq_head (sr_queue sv) + 1\<rparr>)"
    using sv(2) by (simp add: served_def ring_pop_def QUEUE_SIZE_def)
  with sv show ?thesis by (auto simp: served_def worker_step_def)
qed

text \<open>What a request must look like for the reads outside the \<open>try\<close> to succeed.\<close>

definition string_field :: "string \<Rightarrow> bobject \<Rightarrow> bool" where
  "string_field name obj \<longleftrightarrow> (case obj_find (str name) obj of None \<Rightarrow> True
     | Some v \<Rightarrow> (case bv_base v of V_string _ \<Rightarrow> True | _ \<Rightarrow> False))"

definition object_field :: "string \<Rightarrow> bobject \<Rightarrow> bool" where
  "object_field name obj \<longleftrightarrow> (case obj_find (str name) obj of None \<Rightarrow> True
     | Some v \<Rightarrow> (case bv_base v of V_object _ \<Rightarrow> True | _ \<Rightarrow> False))"

definition field_text :: "string \<Rightarrow> bobject \<Rightarrow> byte list" where
  "field_text name obj = (case getStringVal (str name) obj of Inr s \<Rightarrow> s | Inl _ \<Rightarrow> [])"

definition field_body :: "bobject \<Rightarrow> bobject" where
  "field_body obj = (case getObjectVal (str ''Body'') obj of Inr b \<Rightarrow> b | Inl _ \<Rightarrow> [])"

definition envelope_typed :: "bobject \<Rightarrow> bool" where
  "envelope_typed req \<longleftrightarrow> string_field ''Command'' req \<and> string_field ''Token'' req
     \<and> (find_servlet (field_text ''Command'' req) \<noteq> None \<longrightarrow> object_field ''Body'' req \<and> string_field ''Name'' (field_body req))"

lemma string_field_get: "string_field name obj \<Longrightarrow> getStringVal (str name) obj = Inr (field_text name obj)"
  "\<not> string_field name obj \<Longrightarrow> getStringVal (str name) obj = Inl Bad_get"
  by (auto simp: string_field_def field_text_def getStringVal_def get_string_def split: option.splits bvariant.splits)

lemma object_field_get: "object_field ''Body'' obj \<Longrightarrow> getObjectVal (str ''Body'') obj = Inr (field_body obj)"
  "\<not> object_field ''Body'' obj \<Longrightarrow> getObjectVal (str ''Body'') obj = Inl Bad_get"
  by (auto simp: object_field_def field_body_def getObjectVal_def get_object_def split: option.splits bvariant.splits)

lemma dispatch_typed:
  assumes "envelope_typed req"
  shows "dispatch_request E s req W = (case find_servlet (field_text ''Command'' req) of
      None \<Rightarrow> Some (W, Inr (False, False))
    | Some (ty, sv) \<Rightarrow> map_option (\<lambda>(W, v). (W, Inr (case v of Inr b \<Rightarrow> b | Inl _ \<Rightarrow> False, True)))
        (servlet_doRequest E sv ty (field_text ''Token'' req) (field_body req) s W))"
  using assms
  by (auto simp: dispatch_request_def envelope_typed_def string_field_get object_field_get map_option_case
      split: option.splits)

lemma dispatch_untyped: "\<not> envelope_typed req \<Longrightarrow> dispatch_request E s req W = Some (W, Inl Bad_get)"
  by (cases "string_field ''Command'' req"; cases "string_field ''Token'' req"; cases "object_field ''Body'' req";
      cases "string_field ''Name'' (field_body req)")
    (auto simp: dispatch_request_def envelope_typed_def string_field_get object_field_get)

text \<open>
  C25. The worker survives every request whose envelope has the right types: no exception of a handler
  leaves it.  Any other request, whoever sends it and before any login, ends the process with an exception
  that nothing catches, as soon as the worker takes it.
\<close>
theorem worker_terminates_iff:
  assumes "ring_pop (sr_queue sv) = (Some m, q)" "sr_messages sv m = Some msg"
  shows "(\<exists>e sv'. worker_step E sv = Some (Terminated e, sv')) \<longleftrightarrow> \<not> envelope_typed (msg_request msg)"
proof (cases "envelope_typed (msg_request msg)")
  case True
  then show ?thesis
    by (auto simp: worker_step_def assms dispatch_typed Let_def bind_eq_Some_conv split: option.splits if_splits)
next
  case False
  then show ?thesis by (simp add: worker_step_def assms dispatch_untyped Let_def)
qed

definition untyped_request :: bobject where
  "untyped_request = [(str ''Command'', BValue (V_int 1) None)]"

theorem worker_terminates_iff_witness:
  "\<exists>e sv'. worker_step (undefined :: lobby_env) (post \<lparr>msg_ps = 0, msg_request = untyped_request\<rparr> (boot undefined))
     = Some (Terminated e, sv')"
proof -
  let ?sv = "post \<lparr>msg_ps = 0, msg_request = untyped_request\<rparr> (boot undefined)"
  have q: "\<exists>q. ring_pop (sr_queue ?sv) = (Some 0, q)"
    by (simp add: post_def boot_def new_ring_def ring_push_def ring_pop_def QUEUE_SIZE_def Let_def)
  have "\<not> envelope_typed untyped_request" by code_simp
  then show ?thesis using worker_terminates_iff [of ?sv 0] q by (auto simp: post_def boot_def)
qed

section \<open>Closed sessions and torn packets\<close>

lemma close_frees_role:
  assumes "session_close E s W = Some W'" "lb_sessions W s = Some ss" "ss_role ss = Some r"
  shows "lb_roles W' r = None" "lb_sessions W' s = Some (ss\<lparr>ss_open := False\<rparr>)"
proof -
  have bl: "lb_sessions (broadcast_loop m obj i W) = lb_sessions W" for m obj i W
  proof (induction m obj i W rule: broadcast_loop.induct)
    case (2 rid s m obj self W)
    have "lb_sessions (send_all m obj W) = lb_sessions W" for m obj W
      by (induction m obj W rule: send_all.induct) (simp_all add: send_to_def)
    with 2 show ?case by (simp add: send_to_def)
  qed simp
  have "lb_sessions W2 = lb_sessions W1" if "leaveScene sid s W1 = Some W2" for sid W1 W2
    using that by (auto simp: leaveScene_def bind_eq_Some_conv broadcast_def removePlayer_def set_players_def Let_def bl)
  then show "lb_roles W' r = None" "lb_sessions W' s = Some (ss\<lparr>ss_open := False\<rparr>)"
    using assms by (auto simp: session_close_def playerOffline_def put_session_def bind_eq_Some_conv Let_def
        lobby_second_def split: option.splits)
qed

text \<open>
  The fields of its body a handler reads before it first uses the role, and when it comes to that use: the two requests
  that never do, and those for an item or hunt the tables do not know, return before.
\<close>

definition fields_before_role :: "string \<Rightarrow> string list" where
  "fields_before_role ty =
     (if ty \<in> {''AbandonProps'', ''InBody'', ''OutBody'', ''SaleProps'', ''PrevStrengProps'', ''PacketSoulMeta'', ''SoulMetaMove''} then [''Id'']
      else if ty \<in> {''MoveProps'', ''EquipSoulMeta''} then [''Id'', ''Index'']
      else if ty \<in> {''StrengProps'', ''BuyPropFromBodyShop''} then [''Id'', ''Count'']
      else if ty = ''SwallowOne'' then [''Id'', ''BeId'']
      else if ty = ''LotterySoulMeta'' then [''SoulMetaIndex'']
      else if ty = ''BuySoulMeta'' then [''SoulMetaId'', ''Count'']
      else if ty = ''UpGem'' then [''EquipId'', ''GemId'', ''Index'']
      else if ty = ''DownGem'' then [''EquipId'', ''GemId'']
      else if ty = ''StrengGem'' then [''EquipId'', ''GemId'', ''Count'']
      else [])"

definition int_field :: "string \<Rightarrow> bobject \<Rightarrow> int option" where
  "int_field f body = (case getIntVal (str f) body of Inr v \<Rightarrow> Some (sint v) | Inl _ \<Rightarrow> None)"

definition role_used :: "game_env \<Rightarrow> string \<Rightarrow> bobject \<Rightarrow> bool" where
  "role_used E ty body \<longleftrightarrow> ty \<noteq> ''AppendPackage'' \<and> ty \<noteq> ''GetEquipGem''
     \<and> list_all (\<lambda>f. int_field f body \<noteq> None) (fields_before_role ty)
     \<and> (ty = ''BuyPropFromBodyShop'' \<longrightarrow> get_template (ge_items E) (the (int_field ''Id'' body)) \<noteq> None)
     \<and> (ty = ''BuySoulMeta'' \<longrightarrow> get_template (ge_items E) (the (int_field ''SoulMetaId'' body)) \<noteq> None)
     \<and> (ty = ''LotterySoulMeta'' \<longrightarrow> getSoulHuntInfo (ge_souls E) (wrap16 (the (int_field ''SoulMetaIndex'' body))) \<noteq> None)"

lemma field_int_faults: "field_int body f W k = None \<longleftrightarrow> (case int_field f body of None \<Rightarrow> False | Some v \<Rightarrow> k v = None)"
  by (simp add: field_int_def get_or_throw_def throws_def int_field_def split: sum.split)

text \<open>The commands of the three servlets.\<close>

lemma player_commands:
  assumes "find_servlet proto = Some (ty, service)"
  shows "service = Item_servlet \<Longrightarrow> ty \<in> {''OpenPackage'', ''AppendPackage'', ''AbandonProps'', ''SortPackage'', ''BuyPropFromBodyShop'', ''InBody'',
       ''GetBody'', ''OutBody'', ''StrengProps'', ''MoveProps'', ''SaleProps'', ''GetEquipGem'', ''PrevStrengProps''}"
    and "service = Gem_servlet \<Longrightarrow> ty \<in> {''UpGem'', ''DownGem'', ''StrengGem''}"
    and "service = Soul_servlet \<Longrightarrow> ty \<in> {''SoulMetaInfo'', ''LotterySoulMeta'', ''PacketSoulMeta'', ''SwallowQuickly'', ''SwallowOne'',
       ''SoulMetaMove'', ''BuySoulMeta'', ''EquipSoulMeta'', ''EquipSoulMetaInfo''}"
proof -
  have "(ty, service) \<in> set servlet_commands"
    using assms unfolding find_servlet_def by (auto simp: find_Some_iff) (metis nth_mem)
  then show "service = Item_servlet \<Longrightarrow> ty \<in> {''OpenPackage'', ''AppendPackage'', ''AbandonProps'', ''SortPackage'', ''BuyPropFromBodyShop'', ''InBody'',
       ''GetBody'', ''OutBody'', ''StrengProps'', ''MoveProps'', ''SaleProps'', ''GetEquipGem'', ''PrevStrengProps''}"
    and "service = Gem_servlet \<Longrightarrow> ty \<in> {''UpGem'', ''DownGem'', ''StrengGem''}"
    and "service = Soul_servlet \<Longrightarrow> ty \<in> {''SoulMetaInfo'', ''LotterySoulMeta'', ''PacketSoulMeta'', ''SwallowQuickly'', ''SwallowOne'',
       ''SoulMetaMove'', ''BuySoulMeta'', ''EquipSoulMeta'', ''EquipSoulMetaInfo''}"
    by (auto simp: servlet_commands_def)
qed

lemma freed_role_faults:
  "ty \<in> {''OpenPackage'', ''AppendPackage'', ''AbandonProps'', ''SortPackage'', ''BuyPropFromBodyShop'', ''InBody'',
     ''GetBody'', ''OutBody'', ''StrengProps'', ''MoveProps'', ''SaleProps'', ''GetEquipGem'', ''PrevStrengProps''} \<Longrightarrow>
   item_freed_role E ty body s W = None \<longleftrightarrow> role_used E ty body"
  "ty \<in> {''UpGem'', ''DownGem'', ''StrengGem''} \<Longrightarrow> gem_without_role ty body W = None \<longleftrightarrow> role_used E ty body"
  "ty \<in> {''SoulMetaInfo'', ''LotterySoulMeta'', ''PacketSoulMeta'', ''SwallowQuickly'', ''SwallowOne'',
     ''SoulMetaMove'', ''BuySoulMeta'', ''EquipSoulMeta'', ''EquipSoulMetaInfo''} \<Longrightarrow>
   soul_freed_role E ty body W = None \<longleftrightarrow> role_used E ty body"
  by (elim insertE emptyE; simp add: item_freed_role_def gem_without_role_def soul_freed_role_def field_int_faults role_used_def
      fields_before_role_def returns_def split: option.split)+

text \<open>
  C26. A request of the item, gem or soul servlet that is still in the queue when its session closes finds
  the pointer to the freed role: \<open>playerOffline\<close> deletes the role and leaves the pointer in the session, and the
  servlets only test it for null.  The worker follows it exactly when \<open>role_used\<close> says that the handler comes to a use of the role: for every
  request but \<open>AppendPackage\<close> and \<open>GetEquipGem\<close>, unless a field that is read before has the wrong type or
  the item to buy or the hunt is unknown.
\<close>
theorem closed_session_uses_freed_role:
  assumes "session_close E s W = Some W'" "lb_sessions W s = Some ss" "ss_role ss = Some r"
    and "ring_pop (sr_queue sv) = (Some m, q)" "sr_messages sv m = Some msg" "msg_ps msg = s" "sr_lobby sv = W'"
    and "envelope_typed (msg_request msg)" "find_servlet (field_text ''Command'' (msg_request msg)) = Some (ty, service)"
    and "service = Item_servlet \<or> service = Gem_servlet \<or> service = Soul_servlet"
  shows "worker_step E sv = None \<longleftrightarrow> role_used (env E) ty (field_body (msg_request msg))"
proof -
  have freed: "with_role s h without freed W' = freed" for h without freed
    using assms(3) close_frees_role [OF assms(1-3)] by (simp add: with_role_def)
  have "servlet_doRequest E service ty token body s W' = None \<longleftrightarrow> role_used (env E) ty body" for token body
    using assms(10)
  proof (elim disjE)
    assume "service = Item_servlet"
    then show ?thesis
      using freed_role_faults(1) [OF player_commands(1) [OF assms(9)]] by (simp add: servlet_doRequest_def freed)
  next
    assume "service = Gem_servlet"
    then show ?thesis
      using freed_role_faults(2) [OF player_commands(2) [OF assms(9)]] by (simp add: servlet_doRequest_def freed)
  next
    assume "service = Soul_servlet"
    then show ?thesis
      using freed_role_faults(3) [OF player_commands(3) [OF assms(9)]] by (simp add: servlet_doRequest_def freed)
  qed
  then have "dispatch_request E s (msg_request msg) W' = None \<longleftrightarrow> role_used (env E) ty (field_body (msg_request msg))"
    by (simp add: dispatch_typed [OF assms(8)] assms(9))
  moreover have "worker_step E sv = None \<longleftrightarrow> dispatch_request E s (msg_request msg) W' = None"
    by (cases "dispatch_request E s (msg_request msg) W'") (simp_all add: worker_step_def assms(4-7) Let_def split: prod.split)
  ultimately show ?thesis by simp
qed

definition open_request :: bobject where
  "open_request = [(str ''Command'', BValue (V_string (str ''OpenPackage'')) None)]"

definition playing_lobby :: lobby where
  "playing_lobby = put_session 0 \<lparr>ss_role = Some 1, ss_open = True\<rparr> (put_role 1 new_role_object (initial_lobby []))"

theorem closed_session_uses_freed_role_witness:
  "\<exists>W'. session_close (undefined :: lobby_env) 0 playing_lobby = Some W'
     \<and> worker_step undefined (post \<lparr>msg_ps = 0, msg_request = open_request\<rparr> (boot W')) = None"
proof -
  have s: "lb_sessions playing_lobby 0 = Some \<lparr>ss_role = Some 1, ss_open = True\<rparr>"
    by (simp add: playing_lobby_def put_session_def)
  obtain W' where W': "session_close (undefined :: lobby_env) 0 playing_lobby = Some W'"
    by (simp add: session_close_def playerOffline_def playing_lobby_def put_session_def put_role_def new_role_object_def
        lobby_second_def Let_def)
  let ?sv = "post \<lparr>msg_ps = 0, msg_request = open_request\<rparr> (boot W')"
  have q: "\<exists>q. ring_pop (sr_queue ?sv) = (Some 0, q)"
    by (simp add: post_def boot_def new_ring_def ring_push_def ring_pop_def QUEUE_SIZE_def Let_def)
  have req: "envelope_typed open_request"
      "find_servlet (field_text ''Command'' open_request) = Some (''OpenPackage'', Item_servlet)"
    by code_simp+
  have "role_used (env undefined) ''OpenPackage'' (field_body open_request)"
    by (simp add: role_used_def fields_before_role_def)
  then show ?thesis
    using closed_session_uses_freed_role [OF W' s, of 1 ?sv 0] q W' req by (auto simp: post_def boot_def)
qed

text \<open>
  A packet that arrives in two parts replays the request before it: on the first part the event loop
  queues the last request this socket has parsed, and the worker carries it out once more.
\<close>
lemma torn_packet_replays_request:
  assumes "sr_sockets sv s = Some so" "so_open so" "buffer_inv (so_buffer so)" "pending (so_buffer so) = []"
    and "10 \<le> k" "k < length (packet_of xs)" "k < 2048" "length xs \<le> 8181"
    and "first_lap (sr_queue sv)" "ring_entries (sr_queue sv) = []" "0 < ring_room (sr_queue sv)"
    and "dispatch_request E s (m_protocol (so_buffer so)) (sr_lobby sv) = Some (W', Inr (b, d))"
  shows "\<exists>sv1 sv2. readable E fuel s [R_data (take k (packet_of xs))] sv = Done sv1
     \<and> worker_step E sv1 = Some (Handled b, sv2) \<and> sr_lobby sv2 = W'"
proof -
  let ?msg = "\<lparr>msg_ps = s, msg_request = m_protocol (so_buffer so)\<rparr>"
  obtain so' where "readable_event fuel s [R_data (take k (packet_of xs))] so = Done (so', 0, Some ?msg)"
    using partial_packet_event [OF assms(3,4,2,5-8)] by blast
  then have ev: "readable E fuel s [R_data (take k (packet_of xs))] sv
      = Done (post ?msg (sv\<lparr>sr_sockets := (sr_sockets sv)(s := Some so')\<rparr>))"
    by (simp add: readable_def assms(1) lift_fault_simps bind_outcome_simps Let_def)
  let ?sv1 = "post ?msg (sv\<lparr>sr_sockets := (sr_sockets sv)(s := Some so')\<rparr>)"
  have "\<exists>sv2. worker_step E ?sv1 = Some (Handled b, sv2) \<and> sr_lobby sv2 = W'"
    by (rule idle_worker_takes [where d = d]) (use assms(9-12) in simp_all)
  with ev show ?thesis by blast
qed

definition asked_socket :: socket_state where
  "asked_socket = \<lparr>so_buffer = \<lparr>m_read = 0, m_write = 0, m_buffer = replicate MAX_BUFFER_SIZE 0,
     m_protocol = load_received\<rparr>, so_open = True\<rparr>"

lemma torn_packet_replays_request_instance:
  "\<exists>sv1 sv2. readable (undefined :: lobby_env) 9 0 [R_data (take 12 (packet_of [0, 0, 0, 5, 0]))]
       ((boot (initial_lobby []))\<lparr>sr_sockets := (\<lambda>_. Some asked_socket)\<rparr>) = Done sv1
     \<and> worker_step undefined sv1 = Some (Handled True, sv2)"
proof -
  let ?sv = "(boot (initial_lobby []))\<lparr>sr_sockets := (\<lambda>_. Some asked_socket)\<rparr>"
  have so: "sr_sockets ?sv 0 = Some asked_socket" "so_open asked_socket" "buffer_inv (so_buffer asked_socket)"
      "pending (so_buffer asked_socket) = []" "m_protocol (so_buffer asked_socket) = load_received"
    by (simp_all add: asked_socket_def fresh_socket)
  have q: "first_lap (sr_queue ?sv)" "ring_entries (sr_queue ?sv) = []" "0 < ring_room (sr_queue ?sv)"
    by (simp_all add: boot_def new_first_lap QUEUE_SIZE_def)
  have d: "dispatch_request undefined 0 (m_protocol (so_buffer asked_socket)) (sr_lobby ?sv)
      = Some (send_to 0 (reply ''LoadServers'' (obj_array ''Servers'' (map (obj_value \<circ> server_object) (getAll (sr_lobby ?sv))) []))
          (sr_lobby ?sv), Inr (True, True))"
    unfolding so(5) by (rule load_dispatch)
  have "\<exists>sv1 sv2. readable undefined 9 0 [R_data (take 12 (packet_of [0, 0, 0, 5, 0]))] ?sv = Done sv1
     \<and> worker_step undefined sv1 = Some (Handled True, sv2) \<and> sr_lobby sv2 = send_to 0 (reply ''LoadServers''
         (obj_array ''Servers'' (map (obj_value \<circ> server_object) (getAll (sr_lobby ?sv))) [])) (sr_lobby ?sv)"
    by (rule torn_packet_replays_request [OF so(1-4) _ _ _ _ q d]) (simp_all add: length_packet packet_sz_def)
  then show ?thesis by blast
qed

end
