(* ===== verification/Item_Facts.thy ===== *)
theory Item_Facts
  imports Item_Servlet
begin

text \<open>
  What the bag operations do to the player's goods: where an item lies, how many pieces of each
  template there are, and what moving, sorting and buying change of it.
\<close>

section \<open>A bag in order\<close>

definition pieces :: "player \<Rightarrow> nat \<Rightarrow> int" where
  "pieces p r = (case item_at p r of None \<Rightarrow> 0 | Some it \<Rightarrow> item_number it)"

definition pieces_of :: "int \<Rightarrow> player \<Rightarrow> nat \<Rightarrow> int" where
  "pieces_of tid p r = (case item_at p r of None \<Rightarrow> 0 | Some it \<Rightarrow> if im_itemId it = tid then item_number it else 0)"

definition stock :: "int \<Rightarrow> player \<Rightarrow> int" where
  "stock tid p = (\<Sum>c\<leftarrow>cells p. case c of None \<Rightarrow> 0 | Some r \<Rightarrow> pieces_of tid p r)"

text \<open>The gems of an item have no gap, and their text leaves room in the buffer of a statement.\<close>

definition gems_fit :: "gem option list \<Rightarrow> bool" where
  "gems_fit gems \<longleftrightarrow> (case gems_text gems of None \<Rightarrow> False | Some t \<Rightarrow> length t \<le> 800)"

definition plain_item :: "item \<Rightarrow> bool" where
  "plain_item it \<longleftrightarrow> 0 \<le> item_number it \<and> 0 \<le> stack_num it \<and> stack_num it < 2 ^ 15 \<and> gems_fit (im_gems it)"

text \<open>Cell 0 is empty, and an item knows its cell.\<close>

definition bag_ok :: "player \<Rightarrow> bool" where
  "bag_ok p \<longleftrightarrow> length (cells p) < 2 ^ 15 \<and> (\<forall>i r. i < length (cells p) \<and> cells p ! i = Some r \<longrightarrow>
     1 \<le> i \<and> (\<exists>it. item_at p r = Some it \<and> im_index it = int i \<and> plain_item it))"

lemma bag_cell:
  assumes "bag_ok p" "i < length (cells p)" "cells p ! i = Some r"
  obtains it where "item_at p r = Some it" "im_index it = int i" "plain_item it" "1 \<le> i" "i < 2 ^ 15"
  using assms unfolding bag_ok_def by fastforce

lemma one_cell:
  "bag_ok p \<Longrightarrow> i < length (cells p) \<Longrightarrow> j < length (cells p) \<Longrightarrow> cells p ! i = Some r \<Longrightarrow> cells p ! j = Some r \<Longrightarrow> i = j"
  by (metis bag_cell of_nat_eq_iff option.inject)

lemma cell_index: "i < 2 ^ 15 \<Longrightarrow> wrap16 (int i) = int i"
  by (rule wrap16_id) (simp add: in_short_def)

lemma item_steps [simp]:
  "cells (put_item r it p) = cells p"
  "item_at (put_item r it p) x = (if x = r then Some it else item_at p x)"
  "cells (set_cells v p) = v" "item_at (set_cells v p) x = item_at p x"
  "cells (set_bag_map m p) = cells p" "item_at (set_bag_map m p) x = item_at p x"
  "cells (p\<lparr>pl_log := log\<rparr>) = cells p" "item_at (p\<lparr>pl_log := log\<rparr>) x = item_at p x"
  "bg_map (pl_bag (put_item r it p)) = bg_map (pl_bag p)" "bg_map (pl_bag (set_cells v p)) = bg_map (pl_bag p)"
  "bg_map (pl_bag (set_bag_map m p)) = m" "bg_map (pl_bag (p\<lparr>pl_log := log\<rparr>)) = bg_map (pl_bag p)"
  by (simp_all add: put_item_def cells_def item_at_def set_cells_def set_bag_map_def execute_def Let_def)

lemma put_item_twice [simp]: "put_item r a (put_item r b p) = put_item r a p"
  by (simp add: put_item_def)

text \<open>Writing an item back changes its state at most.\<close>

definition alike :: "item \<Rightarrow> item \<Rightarrow> bool" where
  "alike it it' \<longleftrightarrow> (\<exists>s. it' = it\<lparr>im_state := s\<rparr>)"

definition same_goods :: "player \<Rightarrow> player \<Rightarrow> bool" where
  "same_goods p p' \<longleftrightarrow> cells p' = cells p \<and> (\<forall>r it. item_at p r = Some it \<longrightarrow> (\<exists>it'. item_at p' r = Some it' \<and> alike it it'))
     \<and> (\<forall>r. item_at p r = None \<longrightarrow> item_at p' r = None)"

lemma alike_facts:
  "alike it it' \<Longrightarrow> item_number it' = item_number it" "alike it it' \<Longrightarrow> im_itemId it' = im_itemId it"
  "alike it it' \<Longrightarrow> im_index it' = im_index it" "alike it it' \<Longrightarrow> plain_item it' = plain_item it"
  "alike it it' \<Longrightarrow> im_gems it' = im_gems it" "alike it it"
proof -
  show "alike it it" unfolding alike_def by (rule exI [of _ "im_state it"]) simp
qed (auto simp: alike_def item_number_def plain_item_def stack_num_def)

lemma alike_trans: "alike a b \<Longrightarrow> alike b c \<Longrightarrow> alike a c"
  by (auto simp: alike_def)

lemma same_goods_item:
  assumes "same_goods p p'" "item_at p r = Some it"
  obtains it' where "item_at p' r = Some it'" "alike it it'"
  using assms unfolding same_goods_def by blast

lemma same_goods_trans:
  assumes "same_goods p p'" "same_goods p' p''"
  shows "same_goods p p''"
  unfolding same_goods_def
proof (intro conjI allI impI)
  fix r it assume "item_at p r = Some it"
  then obtain a where a: "item_at p' r = Some a" "alike it a" by (rule same_goods_item [OF assms(1)])
  then obtain b where "item_at p'' r = Some b" "alike a b" by (rule_tac same_goods_item [OF assms(2)])
  with a show "\<exists>it'. item_at p'' r = Some it' \<and> alike it it'" using alike_trans by blast
qed (use assms in \<open>simp_all add: same_goods_def\<close>)

lemma flush_runs:
  assumes "item_at p r = Some it" "gems_fit (im_gems it)"
  shows "\<exists>log. flush_item E r p =
    Some (put_item r (if item_number it = 0 then it\<lparr>im_state := ITEM_STATE_DELETED\<rparr> else it) p\<lparr>pl_log := log\<rparr>)"
proof -
  obtain t where "gems_text (im_gems it) = Some t" "length t \<le> 800"
    using assms(2) by (auto simp: gems_fit_def split: option.splits)
  then show ?thesis
    using assms(1) by (auto simp: flush_item_def Let_def execute_def put_item_def item_update_fits)
qed

lemma flush_keeps:
  assumes "item_at p r = Some it" "gems_fit (im_gems it)"
  obtains p' where "flush_item E r p = Some p'" "same_goods p p'" "bg_map (pl_bag p') = bg_map (pl_bag p)"
proof -
  obtain log where "flush_item E r p =
      Some (put_item r (if item_number it = 0 then it\<lparr>im_state := ITEM_STATE_DELETED\<rparr> else it) p\<lparr>pl_log := log\<rparr>)"
    using flush_runs [OF assms] by blast
  then show ?thesis
    by (rule that) (use assms(1) in \<open>auto simp: same_goods_def alike_facts(6)\<close>, auto simp: alike_def)
qed

lemma flush_goods:
  assumes "item_at p r = Some it" "gems_fit (im_gems it)"
  obtains p' where "flush_item E r p = Some p'" "same_goods p p'"
  by (rule flush_keeps [OF assms, where E = E]) (rule that)

lemma flush_role_runs:
  "length (rl_name (pl_role p)) \<le> 700 \<Longrightarrow> \<exists>log. flush_role E p = Some (p\<lparr>pl_log := log\<rparr>)"
  by (auto simp: flush_role_def execute_def Let_def role_update_fits)

lemma same_goods_stock: "same_goods p p' \<Longrightarrow> stock tid p' = stock tid p"
proof -
  assume g: "same_goods p p'"
  have "pieces_of tid p' r = pieces_of tid p r" for r
    using g unfolding same_goods_def pieces_of_def
    by (cases "item_at p r") (fastforce simp: alike_facts)+
  with g show ?thesis by (simp add: stock_def same_goods_def cong: option.case_cong)
qed

lemma same_goods_ok: "same_goods p p' \<Longrightarrow> bag_ok p \<Longrightarrow> bag_ok p'"
proof -
  assume g: "same_goods p p'" and ok: "bag_ok p"
  have "cells p' = cells p" using g by (simp add: same_goods_def)
  moreover have "\<exists>it. item_at p' r = Some it \<and> im_index it = int i \<and> plain_item it"
    if cell: "i < length (cells p)" "cells p ! i = Some r" for i r
  proof -
    obtain it where it: "item_at p r = Some it" "im_index it = int i" "plain_item it" by (rule bag_cell [OF ok cell])
    obtain it' where "item_at p' r = Some it'" "alike it it'" by (rule same_goods_item [OF g it(1)])
    with it show ?thesis by (simp add: alike_facts)
  qed
  ultimately show ?thesis using ok by (simp add: bag_ok_def)
qed

lemma sum_two:
  assumes "length xs = length ys" "i < length ys" "j < length ys" "i \<noteq> j"
    and "\<And>k. k < length ys \<Longrightarrow> k \<noteq> i \<Longrightarrow> k \<noteq> j \<Longrightarrow> xs ! k = ys ! k" "xs ! i + xs ! j = ys ! i + ys ! j"
  shows "sum_list xs = sum_list (ys :: int list)"
proof -
  have split: "sum_list zs = zs ! i + zs ! j + (\<Sum>k \<in> {..<length ys} - {i, j}. zs ! k)" if "length zs = length ys" for zs
  proof -
    have "sum_list zs = (\<Sum>k \<in> {..<length ys}. zs ! k)" by (simp add: sum_list_sum_nth that atLeast0LessThan)
    also have "{..<length ys} = insert i (insert j ({..<length ys} - {i, j}))" using assms(2,3) by auto
    finally show ?thesis using assms(4) by (simp add: add.assoc)
  qed
  have "(\<Sum>k \<in> {..<length ys} - {i, j}. xs ! k) = (\<Sum>k \<in> {..<length ys} - {i, j}. ys ! k)"
    using assms(5) by (intro sum.cong) auto
  then show ?thesis using split [OF assms(1)] split [of ys] assms(6) by simp
qed

text \<open>Two cells change and keep their sum: the stock stays.\<close>

lemma stock_two:
  assumes "length (cells p') = length (cells p)" "i < length (cells p)" "j < length (cells p)" "i \<noteq> j"
    and "\<And>k. k < length (cells p) \<Longrightarrow> k \<noteq> i \<Longrightarrow> k \<noteq> j \<Longrightarrow> cells p' ! k = cells p ! k
       \<and> (\<forall>r. cells p ! k = Some r \<longrightarrow> item_at p' r = item_at p r)"
    and "\<And>f. f = (\<lambda>q c. case c of None \<Rightarrow> 0 | Some r \<Rightarrow> pieces_of tid q r) \<Longrightarrow>
       f p' (cells p' ! i) + f p' (cells p' ! j) = f p (cells p ! i) + f p (cells p ! j)"
  shows "stock tid p' = stock tid p"
  unfolding stock_def
proof (rule sum_two [of _ _ i j], goal_cases)
  case (5 k)
  with assms(1) assms(5) [of k] show ?case by (auto simp: pieces_of_def split: option.split)
next
  case 6
  with assms(1-3) assms(6) [OF refl] show ?case by simp
qed (use assms in simp_all)

section \<open>Moving\<close>

lemma plain_index [simp]: "plain_item (x\<lparr>im_index := k\<rparr>) = plain_item x"
  by (simp add: plain_item_def item_number_def stack_num_def)

lemma plain_gems: "plain_item it \<Longrightarrow> gems_fit (im_gems it)"
  by (simp add: plain_item_def)

text \<open>Two cells change places, and the items in them know it.\<close>

lemma swap_state:
  assumes ok: "bag_ok p" and i: "i < length (cells p)" "cells p ! i = Some r" and j: "1 \<le> j" "j < length (cells p)" "i \<noteq> j"
    and it: "item_at p r = Some it" "item_at p' r = Some (it\<lparr>im_index := int j\<rparr>)"
    and "cells p' = (cells p)[i := cells p ! j, j := Some r]"
    and dest: "\<And>t u. cells p ! j = Some t \<Longrightarrow> item_at p t = Some u \<Longrightarrow> item_at p' t = Some (u\<lparr>im_index := int i\<rparr>)"
    and others: "\<And>x. x \<noteq> r \<Longrightarrow> cells p ! j \<noteq> Some x \<Longrightarrow> item_at p' x = item_at p x"
  shows "bag_ok p'" "stock tid p' = stock tid p"
proof -
  have other: "cells p ! k \<noteq> Some r" if "k < length (cells p)" "k \<noteq> i" for k
    using one_cell [OF ok that(1) i(1) _ i(2)] that(2) by blast
  have other': "cells p ! j \<noteq> Some x" if "k < length (cells p)" "k \<noteq> j" "cells p ! k = Some x" for k x
    using one_cell [OF ok that(1) j(2) that(3)] that(2) by blast
  have same: "item_at p' x = item_at p x" if "k < length (cells p)" "k \<noteq> i" "k \<noteq> j" "cells p ! k = Some x" for k x
    using others [of x] other [OF that(1,2)] other' [OF that(1,3,4)] that(4) by auto
  show "bag_ok p'"
    unfolding bag_ok_def
  proof (intro conjI allI impI)
    fix k x assume "k < length (cells p') \<and> cells p' ! k = Some x"
    then consider "k = j" "x = r" | "k = i" "cells p ! j = Some x" | "k < length (cells p)" "k \<noteq> i" "k \<noteq> j" "cells p ! k = Some x"
      using i j by (auto simp: assms(9) nth_list_update split: if_splits)
    then have "1 \<le> k \<and> (\<exists>it. item_at p' x = Some it \<and> im_index it = int k \<and> plain_item it)"
    proof cases
      case 1
      then show ?thesis using bag_cell [OF ok i] it j(1) by auto
    next
      case 2
      then show ?thesis using bag_cell [OF ok j(2) 2(2)] bag_cell [OF ok i] dest by (metis item.select_convs(8) item.surjective item.update_convs(8) plain_index)
    next
      case 3
      then show ?thesis using bag_cell [OF ok 3(1,4)] same [OF 3] by metis
    qed
    then show "1 \<le> k" "\<exists>it. item_at p' x = Some it \<and> im_index it = int k \<and> plain_item it" by blast+
  qed (use ok assms(9) in \<open>simp add: bag_ok_def\<close>)
  show "stock tid p' = stock tid p"
  proof (rule stock_two [OF _ i(1) j(2,3)])
    fix k assume "k < length (cells p)" "k \<noteq> i" "k \<noteq> j"
    with same [of k] show "cells p' ! k = cells p ! k \<and> (\<forall>x. cells p ! k = Some x \<longrightarrow> item_at p' x = item_at p x)"
      by (auto simp: assms(9))
  next
    fix f assume f: "f = (\<lambda>q c. case c of None \<Rightarrow> 0 | Some r \<Rightarrow> pieces_of tid q r)"
    have "f p' (cells p ! j) = f p (cells p ! j)"
    proof (cases "cells p ! j")
      case (Some t)
      then obtain u where "item_at p t = Some u" using bag_cell [OF ok j(2)] by metis
      with Some dest [of t] show ?thesis by (simp add: f pieces_of_def item_number_def)
    qed (simp add: f)
    moreover have "f p' (Some r) = f p (Some r)" using it by (simp add: f pieces_of_def item_number_def)
    ultimately show "f p' (cells p' ! i) + f p' (cells p' ! j) = f p (cells p ! i) + f p (cells p ! j)"
      using i j by (simp add: assms(9))
  qed (simp add: assms(9))
qed

lemma swapped:
  assumes ok: "bag_ok p" and i: "i < length (cells p)" "cells p ! i = Some r" and j: "1 \<le> j" "j < length (cells p)" "i \<noteq> j"
  obtains p' where "move_swap E r (int i) (cells p ! j) (int j) p = Some p'" "bag_ok p'" "\<And>tid. stock tid p' = stock tid p"
proof -
  obtain it where it: "item_at p r = Some it" "plain_item it" by (rule bag_cell [OF ok i])
  let ?p1 = "put_item r (it\<lparr>im_index := int j\<rparr>) (set_cells ((cells p)[i := cells p ! j, j := Some r]) p)"
  have start: "vec_nth (cells p) (int i) = Some (Some r)" "vec_nth (cells p) (int j) = Some (cells p ! j)"
    using i j by (simp_all add: vec_nth_def)
  note swap = swap_state [OF ok i j it(1)]
  show ?thesis
  proof (cases "cells p ! j")
    case None
    note state = swap [of ?p1, simplified None, simplified]
    obtain p' where p': "flush_item E r ?p1 = Some p'" "same_goods ?p1 p'"
      by (rule flush_goods [of ?p1 r "it\<lparr>im_index := int j\<rparr>" E]) (simp_all add: plain_gems [OF it(2)])
    have "move_swap E r (int i) (cells p ! j) (int j) p = Some p'"
      using p'(1) it(1) None by (simp add: move_swap_def start)
    then show ?thesis
      by (rule that) (use state same_goods_ok [OF p'(2)] in \<open>simp_all add: None same_goods_stock [OF p'(2)]\<close>)
  next
    case (Some t)
    obtain u where u: "item_at p t = Some u" "plain_item u" by (rule bag_cell [OF ok j(2) Some])
    have tr: "t \<noteq> r" using one_cell [OF ok i(1) j(2) i(2)] j(3) Some by blast
    let ?p2 = "put_item t (u\<lparr>im_index := int i\<rparr>) ?p1"
    have state: "bag_ok ?p2" "\<And>tid. stock tid ?p2 = stock tid p"
      by (rule swap [of ?p2]; use tr u(1) Some in simp)+
    obtain p3 where p3: "flush_item E t ?p2 = Some p3" "same_goods ?p2 p3"
      by (rule flush_goods [of ?p2 t "u\<lparr>im_index := int i\<rparr>" E]) (simp_all add: plain_gems [OF u(2)])
    have "item_at ?p2 r = Some (it\<lparr>im_index := int j\<rparr>)" using tr by simp
    then obtain it' where it': "item_at p3 r = Some it'" "alike (it\<lparr>im_index := int j\<rparr>) it'" by (rule same_goods_item [OF p3(2)])
    obtain p' where p': "flush_item E r p3 = Some p'" "same_goods p3 p'"
      by (rule flush_goods [OF it'(1)]) (use plain_gems [OF it(2)] it'(2) in \<open>simp add: alike_facts\<close>)
    note g = same_goods_trans [OF p3(2) p'(2)]
    have "move_swap E r (int i) (cells p ! j) (int j) p = Some p'"
      using p3(1) p'(1) it(1) u(1) Some tr by (simp add: move_swap_def start)
    then show ?thesis
      by (rule that [OF _ same_goods_ok [OF g state(1)]]) (simp add: same_goods_stock [OF g] state(2))
  qed
qed

lemma number_range: "item_number it < 2 ^ 15" "- (2 ^ 15) \<le> item_number it"
  using in_short_wrap16 [of "im_num it"] by (simp_all add: item_number_def in_short_def)

lemma number_update: "0 \<le> n \<Longrightarrow> n < 2 ^ 15 \<Longrightarrow> item_number (it\<lparr>im_num := n\<rparr>) = n"
  by (simp add: item_number_def wrap16_id in_short_def)

lemma plain_update: "plain_item it \<Longrightarrow> 0 \<le> n \<Longrightarrow> n < 2 ^ 15 \<Longrightarrow> plain_item (it\<lparr>im_num := n\<rparr>)"
  by (simp add: plain_item_def number_update stack_num_def)

lemma set_number_at: "in_short n \<Longrightarrow> set_number n it = it\<lparr>im_num := n\<rparr>"
  by (simp add: set_number_def wrap16_id)

lemma add_number_at: "in_short n \<Longrightarrow> addNum n it = it\<lparr>im_num := item_number it + n\<rparr>"
  by (simp add: addNum_def wrap16_id)

text \<open>Two stacks of one template change, and their pieces together stay; an empty one may leave the bag.\<close>

lemma merge_state:
  assumes ok: "bag_ok p" and i: "i < length (cells p)" "cells p ! i = Some r" and j: "j < length (cells p)" "cells p ! j = Some t" "i \<noteq> j"
    and f: "item_at p r = Some f" "item_at p' r = Some (f\<lparr>im_num := m\<rparr>)"
    and u: "item_at p t = Some u" "item_at p' t = Some (u\<lparr>im_num := n\<rparr>)" and same_id: "im_itemId f = im_itemId u"
    and mn: "0 \<le> m" "m < 2 ^ 15" "0 \<le> n" "n < 2 ^ 15" "m + n = item_number f + item_number u"
    and v: "cells p' = cells p \<or> m = 0 \<and> cells p' = (cells p)[i := None]"
    and others: "\<And>x. x \<noteq> r \<Longrightarrow> x \<noteq> t \<Longrightarrow> item_at p' x = item_at p x"
  shows "bag_ok p'" "stock tid p' = stock tid p"
proof -
  have other: "cells p ! k \<noteq> Some r \<and> cells p ! k \<noteq> Some t" if "k < length (cells p)" "k \<noteq> i" "k \<noteq> j" for k
    using one_cell [OF ok that(1) i(1) _ i(2)] one_cell [OF ok that(1) j(1) _ j(2)] that(2,3) by blast
  have len: "length (cells p') = length (cells p)" using v by auto
  have cell: "cells p' ! k = cells p ! k \<or> k = i \<and> m = 0 \<and> cells p' ! k = None" if "k < length (cells p)" for k
    using v that i(1) by (cases "k = i") auto
  have it_r: "im_index f = int i" "plain_item f" "1 \<le> i" and it_t: "im_index u = int j" "plain_item u" "1 \<le> j"
    using bag_cell [OF ok i] f(1) bag_cell [OF ok j(1,2)] u(1) by (metis option.inject)+
  show "bag_ok p'"
    unfolding bag_ok_def
  proof (intro conjI allI impI)
    fix k x assume k: "k < length (cells p') \<and> cells p' ! k = Some x"
    with cell [of k] len have "cells p ! k = Some x" "k < length (cells p)" by auto
    then consider "k = i" "x = r" | "k = j" "x = t" | "k < length (cells p)" "x \<noteq> r" "x \<noteq> t" "cells p ! k = Some x"
      using other [of k] i j by (cases "k = i"; cases "k = j") auto
    then have "1 \<le> k \<and> (\<exists>it. item_at p' x = Some it \<and> im_index it = int k \<and> plain_item it)"
    proof cases
      case 3
      then show ?thesis using bag_cell [OF ok 3(1,4)] others by metis
    qed (use it_r it_t f u mn plain_update in auto)
    then show "1 \<le> k" "\<exists>it. item_at p' x = Some it \<and> im_index it = int k \<and> plain_item it" by blast+
  qed (use ok len in \<open>simp add: bag_ok_def\<close>)
  show "stock tid p' = stock tid p"
  proof (rule stock_two [OF len i(1) j(1,3)])
    fix k assume k: "k < length (cells p)" "k \<noteq> i" "k \<noteq> j"
    with cell [of k] other [OF k] show "cells p' ! k = cells p ! k \<and> (\<forall>x. cells p ! k = Some x \<longrightarrow> item_at p' x = item_at p x)"
      using others by auto
  next
    fix g assume g: "g = (\<lambda>q c. case c of None \<Rightarrow> 0 | Some r \<Rightarrow> pieces_of tid q r)"
    have "g p' (cells p' ! i) = (if im_itemId f = tid then m else 0)"
      using cell [OF i(1)] f(2) i(2) mn by (auto simp: g pieces_of_def number_update)
    moreover have "g p' (cells p' ! j) = (if im_itemId f = tid then n else 0)"
      using cell [OF j(1)] j(2,3) u(2) mn same_id by (auto simp: g pieces_of_def number_update)
    ultimately show "g p' (cells p' ! i) + g p' (cells p' ! j) = g p (cells p ! i) + g p (cells p ! j)"
      using f(1) u(1) i j mn(5) same_id by (auto simp: g pieces_of_def)
  qed
qed

lemma merged:
  assumes ok: "bag_ok p" and i: "i < length (cells p)" "cells p ! i = Some r" and j: "j < length (cells p)" "cells p ! j = Some t" "i \<noteq> j"
    and f: "item_at p r = Some f" and u: "item_at p t = Some u" and same_id: "im_itemId f = im_itemId u"
    and room: "item_number f + item_number u < 2 ^ 15"
  obtains p' where "move_merge E r t p = Some p'" "bag_ok p'" "\<And>tid. stock tid p' = stock tid p"
proof -
  have tr: "t \<noteq> r" using one_cell [OF ok i(1) j(1) i(2)] j(2,3) by blast
  have it_r: "im_index f = int i" "plain_item f" "1 \<le> i" "i < 2 ^ 15" and it_t: "plain_item u"
    using bag_cell [OF ok i] f bag_cell [OF ok j(1,2)] u by (metis option.inject)+
  have len: "wrap16 (int (length (cells p))) = int (length (cells p))" using ok by (intro cell_index) (simp add: bag_ok_def)
  let ?full = "item_number u + item_number f \<le> stack_num f"
  define m where "m = (if ?full then 0 else item_number f + item_number u - stack_num f)"
  define n where "n = (if ?full then item_number u + item_number f else stack_num f)"
  have mn: "0 \<le> m" "m < 2 ^ 15" "0 \<le> n" "n < 2 ^ 15" "m + n = item_number f + item_number u"
    using it_r(2) it_t room by (auto simp: m_def n_def plain_item_def)
  define p1 where "p1 = put_item r (f\<lparr>im_num := m\<rparr>) (put_item t (u\<lparr>im_num := n\<rparr>) p)"
  define p2 where "p2 = (if ?full then set_bag_map (std_erase (im_id f) (bg_map (pl_bag p1))) (set_cells ((cells p1)[i := None]) p1) else p1)"
  have p2: "cells p2 = cells p \<or> m = 0 \<and> cells p2 = (cells p)[i := None]" "item_at p2 r = Some (f\<lparr>im_num := m\<rparr>)"
      "item_at p2 t = Some (u\<lparr>im_num := n\<rparr>)" "\<And>x. x \<noteq> r \<Longrightarrow> x \<noteq> t \<Longrightarrow> item_at p2 x = item_at p x"
    using tr by (auto simp: p2_def p1_def m_def)
  have state: "bag_ok p2" "\<And>tid. stock tid p2 = stock tid p"
    by (rule merge_state [OF ok i j f p2(2) u p2(3) same_id mn p2(1)]; simp add: p2(4))+
  obtain p3 where p3: "flush_item E r p2 = Some p3" "same_goods p2 p3"
    by (rule flush_goods [OF p2(2)]) (use it_r(2) in \<open>simp add: plain_item_def\<close>)
  obtain u' where u': "item_at p3 t = Some u'" "alike (u\<lparr>im_num := n\<rparr>) u'" by (rule same_goods_item [OF p3(2) p2(3)])
  obtain p' where p': "flush_item E t p3 = Some p'" "same_goods p3 p'"
    by (rule flush_goods [OF u'(1)]) (use it_t u'(2) in \<open>simp add: alike_facts plain_item_def\<close>)
  note g = same_goods_trans [OF p3(2) p'(2)]
  have shorts: "in_short (item_number f)" "in_short (stack_num f)" "in_short (item_number u - stack_num f)" "in_short 0"
    using number_range [of f] number_range [of u] it_r(2) it_t by (auto simp: in_short_def plain_item_def)
  have rem: "removeItem r False p1 = Some p2" if "?full"
    using that i(1) it_r by (simp add: removeItem_def p2_def p1_def cell_index len)
  have "move_merge E r t p = Some p'"
  proof (cases ?full)
    case True
    then show ?thesis
      using p3(1) p'(1) tr rem
      by (simp add: move_merge_def f u add_number_at set_number_at shorts p1_def m_def n_def)
  next
    case False
    then have "put_item t (u\<lparr>im_num := n\<rparr>) (put_item r (f\<lparr>im_num := m\<rparr>) p) = p2"
      using tr by (simp add: p2_def p1_def put_item_def fun_upd_twist)
    with False p3(1) p'(1) tr show ?thesis
      by (simp add: move_merge_def f u add_number_at set_number_at shorts m_def n_def algebra_simps)
  qed
  then show ?thesis
    by (rule that [OF _ same_goods_ok [OF g state(1)]]) (simp add: same_goods_stock [OF g] state(2))
qed

lemma bag_length: "bag_ok p \<Longrightarrow> wrap16 (int (length (cells p))) = int (length (cells p))"
  by (intro cell_index) (simp add: bag_ok_def)

lemma moved:
  assumes ok: "bag_ok p" and get: "bag_get iid p = Some r" and i: "i < length (cells p)" "cells p ! i = Some r"
    and j: "1 \<le> j" "j < length (cells p)" "i \<noteq> j"
    and room: "pieces p r + (case cells p ! j of None \<Rightarrow> 0 | Some t \<Rightarrow> pieces p t) < 2 ^ 15"
  obtains p' where "moveItem E iid (int j) p = Some p'" "bag_ok p'" "\<And>tid. stock tid p' = stock tid p"
proof -
  obtain f where f: "item_at p r = Some f" "im_index f = int i" "plain_item f" "1 \<le> i" "i < 2 ^ 15" by (rule bag_cell [OF ok i])
  obtain p1 where p1: "move_swap E r (int i) (cells p ! j) (int j) p = Some p1" "bag_ok p1" "\<And>tid. stock tid p1 = stock tid p"
    by (rule swapped [OF ok i j, where E = E]) (rule that)
  have move: "moveItem E iid (int j) p = (case cells p ! j of None \<Rightarrow> move_swap E r (int i) None (int j) p
      | Some t \<Rightarrow> do { u \<leftarrow> item_at p t;
          if im_itemId f \<noteq> im_itemId u \<or> stack_num f = 0 then move_swap E r (int i) (Some t) (int j) p else move_merge E r t p })"
    using j f get by (simp add: moveItem_def bag_length [OF ok] vec_nth_def cell_index cong: if_cong option.case_cong)
  show ?thesis
  proof (cases "cells p ! j")
    case None
    then show ?thesis using p1 move that by simp
  next
    case (Some t)
    obtain u where u: "item_at p t = Some u" by (rule bag_cell [OF ok j(2) Some])
    show ?thesis
    proof (cases "im_itemId f = im_itemId u \<and> stack_num f \<noteq> 0")
      case True
      have "item_number f + item_number u < 2 ^ 15" using room f(1) u Some by (simp add: pieces_def)
      then obtain p2 where "move_merge E r t p = Some p2" "bag_ok p2" "\<And>tid. stock tid p2 = stock tid p"
        using merged [OF ok i j(2) Some j(3) f(1) u] True by blast
      then show ?thesis using that True move Some u by simp
    next
      case False
      then show ?thesis using that p1 move Some u by auto
    qed
  qed
qed

section \<open>Properties\<close>

text \<open>
  C34. In a bag in order (cell 0 empty, every item in the cell it names, no negative stack), moving an item to any
  other cell number, in range or not, ends without a fault and loses and makes nothing, as long as the two stacks
  together have fewer than 2^15 pieces: whether the cell is free, holds another item, or a stack that takes all
  or a part of it, the number of pieces of every template stays, and every item still knows its cell.  (The sum of larger stacks
  does not fit the \<open>short\<close> it is stored in: \<open>moving_overflows_instance\<close>.)
\<close>
theorem moving_conserves_items:
  assumes "bag_ok p" "bag_get iid p = Some r" "i < length (cells p)" "cells p ! i = Some r"
    and "j \<noteq> int i"
    and "pieces p r + (case vec_nth (cells p) j of Some (Some t) \<Rightarrow> pieces p t | _ \<Rightarrow> 0) < 2 ^ 15"
  shows "\<exists>p'. moveItem E iid j p = Some p' \<and> bag_ok p' \<and> (\<forall>tid. stock tid p' = stock tid p)"
proof (cases "j < 1 \<or> int (length (cells p)) \<le> j")
  case True
  then have "moveItem E iid j p = Some p" by (auto simp: moveItem_def bag_length [OF assms(1)])
  then show ?thesis using assms(1) by simp
next
  case False
  then have k: "j = int (nat j)" "1 \<le> nat j" "nat j < length (cells p)" by auto
  then have ne: "i \<noteq> nat j" using assms(5) by auto
  have "pieces p r + (case cells p ! nat j of None \<Rightarrow> 0 | Some t \<Rightarrow> pieces p t) < 2 ^ 15"
    using assms(6) False by (simp add: vec_nth_def)
  then obtain p' where "moveItem E iid (int (nat j)) p = Some p'" "bag_ok p'" "\<And>tid. stock tid p' = stock tid p"
    by (rule moved [OF assms(1-4) k(2,3) ne, where E = E]) (rule that)
  then show ?thesis using k(1) by auto
qed

definition stackable :: item_template where
  "stackable = \<lparr>tp_itemId = 9, tp_price = 5, tp_itemType = 1, tp_itemUseLevel = 0, tp_profession = 0, tp_quality = 0,
     tp_stackNum = 10, tp_strengthNextLevelId = 0, tp_strengthLevel = 0, tp_correspondingExp = 0\<rparr>"

definition stack_of :: "int \<Rightarrow> int \<Rightarrow> int \<Rightarrow> item" where
  "stack_of iid n i = (new_item stackable)\<lparr>im_id := iid, im_itemId := 9, im_num := n, im_index := i\<rparr>"

text \<open>A player with a stack of six in cell 1 and a stack of \<open>n\<close> in cell 2.\<close>

definition two_stacks :: "int \<Rightarrow> player" where
  "two_stacks n = \<lparr>pl_role = \<lparr>rl_id = 1, rl_profession = 0, rl_money = 100, rl_gold = 0, rl_name = [], rl_level = 1, rl_vipLevel = 0,
       rl_exp = 0, rl_soulsValue = 0, rl_soulsIndex = 0, rl_info = Some 1, rl_equips = []\<rparr>,
     pl_bag = \<lparr>bg_lastSync = 0, bg_map = [(100, 0), (101, 1)], bg_items = [None, Some 0, Some 1, None]\<rparr>,
     pl_items = [0 \<mapsto> stack_of 100 6 1, 1 \<mapsto> stack_of 101 n 2],
     pl_souls_bag = \<lparr>sb_hunted = [], sb_bag = [], sb_vect = [], sb_equipped = []\<rparr>, pl_souls = Map.empty, pl_fresh = 2,
     pl_log = [], pl_sent = [], pl_ticks = 0, pl_rolls = 0\<rparr>"

lemma two_stacks_simps:
  "cells (two_stacks n) = [None, Some 0, Some 1, None]" "bag_get 100 (two_stacks n) = Some 0" "bag_get 101 (two_stacks n) = Some 1"
  "item_at (two_stacks n) 0 = Some (stack_of 100 6 1)" "item_at (two_stacks n) (Suc 0) = Some (stack_of 101 n 2)"
  by (simp_all add: two_stacks_def cells_def bag_get_def std_find_def item_at_def)

lemma stack_of_simps:
  "im_id (stack_of iid n i) = iid" "im_itemId (stack_of iid n i) = 9" "im_index (stack_of iid n i) = i"
  "stack_num (stack_of iid n i) = 10" "0 \<le> n \<Longrightarrow> n < 2 ^ 15 \<Longrightarrow> item_number (stack_of iid n i) = n" "im_gems (stack_of iid n i) = []"
  by (simp_all add: stack_of_def new_item_def stack_num_def stackable_def item_number_def wrap16_id in_short_def)

lemma no_gems_fit [simp]: "gems_fit []"
  by (simp add: gems_fit_def gems_text_def)

lemma two_stacks_ok: "0 \<le> n \<Longrightarrow> n < 2 ^ 15 \<Longrightarrow> bag_ok (two_stacks n)"
  by (auto simp: bag_ok_def two_stacks_simps less_Suc_eq stack_of_simps plain_item_def)

theorem moving_conserves_items_witness:
  "\<exists>p'. moveItem undefined 100 2 (two_stacks 7) = Some p' \<and> stock 9 p' = 13"
proof -
  have "\<exists>p'. moveItem undefined 100 2 (two_stacks 7) = Some p' \<and> bag_ok p' \<and> (\<forall>tid. stock tid p' = stock tid (two_stacks 7))"
    by (rule moving_conserves_items [where i = 1 and r = 0])
      (simp_all add: two_stacks_ok two_stacks_simps pieces_def vec_nth_def stack_of_simps)
  moreover have "stock 9 (two_stacks 7) = 13"
    by (simp add: stock_def two_stacks_simps pieces_of_def stack_of_simps)
  ultimately show ?thesis by metis
qed

text \<open>
  Two stacks of 30000, which a purchase can make though only ten pieces stack: moved together, they leave
  a full stack and one of -5546 pieces.
\<close>

lemma moving_overflows_instance:
  "\<exists>p'. moveItem E 100 2 (put_item 0 (stack_of 100 30000 1) (two_stacks 30000)) = Some p'
     \<and> stock 9 (put_item 0 (stack_of 100 30000 1) (two_stacks 30000)) = 60000 \<and> stock 9 p' = - 5536"
proof -
  let ?p = "put_item 0 (stack_of 100 30000 1) (two_stacks 30000)"
  let ?q = "put_item 1 (stack_of 101 10 2) (put_item 0 (stack_of 100 59990 1) (two_stacks 30000))"
  have p: "cells ?p = [None, Some 0, Some 1, None]" "bag_get 100 ?p = Some 0" "item_at ?p 0 = Some (stack_of 100 30000 1)"
      "item_at ?p 1 = Some (stack_of 101 30000 2)"
    using two_stacks_simps(2) [of 30000] by (simp_all add: two_stacks_simps bag_get_def)
  have n: "item_number (stack_of iid 59990 i) = - 5546" for iid i
    by (simp add: stack_of_def new_item_def item_number_def wrap16_def)
  have "addNum (30000 - 10) (stack_of 100 30000 1) = stack_of 100 59990 1" "set_number 10 (stack_of 101 30000 2) = stack_of 101 10 2"
    by (simp_all add: addNum_def set_number_def stack_of_def new_item_def item_number_def wrap16_def)
  then have "move_merge E 0 1 ?p = do { q \<leftarrow> flush_item E 0 ?q; flush_item E 1 q }"
    using p by (simp add: move_merge_def stack_of_simps)
  then have move: "moveItem E 100 2 ?p = do { q \<leftarrow> flush_item E 0 ?q; flush_item E 1 q }"
    using p by (simp add: moveItem_def vec_nth_def stack_of_simps wrap16_id in_short_def)
  have at: "item_at ?q 0 = Some (stack_of 100 59990 1)" "gems_fit (im_gems (stack_of 100 59990 1))" by (simp_all add: stack_of_simps)
  obtain q1 where q1: "flush_item E 0 ?q = Some q1" "same_goods ?q q1" by (rule flush_keeps [OF at, where E = E]) (rule that)
  obtain u where u: "item_at q1 1 = Some u" "alike (stack_of 101 10 2) u"
    by (rule same_goods_item [OF q1(2), of 1 "stack_of 101 10 2"]) (simp, rule that)
  have "gems_fit (im_gems u)" using u(2) by (simp add: alike_facts(5) stack_of_simps)
  then obtain q2 where q2: "flush_item E 1 q1 = Some q2" "same_goods q1 q2" using flush_keeps [OF u(1), where E = E] by metis
  have good: "same_goods ?q q2" by (rule same_goods_trans [OF q1(2) q2(2)])
  obtain a b where "item_at q2 0 = Some a" "alike (stack_of 100 59990 1) a" "item_at q2 1 = Some b" "alike (stack_of 101 10 2) b"
    using same_goods_item [OF good, of 0] same_goods_item [OF good, of 1] at(1) by (metis item_steps(2))
  moreover have "cells q2 = [None, Some 0, Some 1, None]" using good by (simp add: same_goods_def two_stacks_simps)
  ultimately have "stock 9 q2 = - 5536"
    by (simp add: stock_def pieces_of_def alike_facts(1,2) n stack_of_simps)
  moreover have "stock 9 ?p = 60000" using p by (simp add: stock_def pieces_of_def stack_of_simps)
  ultimately show ?thesis using move q1(1) q2(1) by simp
qed

text \<open>
  C37. Moving a stack of fewer than \<open>2 ^ 14\<close> pieces onto the cell it lies in merges it with itself: when twice its
  pieces fit, the stack leaves the bag and its pieces are gone; otherwise it is filled up from nothing (a full one
  stays as it is).
\<close>
theorem moving_onto_itself_breaks_stack:
  assumes "bag_ok p" "bag_get iid p = Some r" "i < length (cells p)" "cells p ! i = Some r"
    and "item_at p r = Some f" "im_id f = iid" "stack_num f \<noteq> 0" "2 * item_number f < 2 ^ 15"
  shows "\<exists>p'. moveItem E iid (int i) p = Some p'
     \<and> (if 2 * item_number f \<le> stack_num f then cells p' = (cells p)[i := None] \<and> bag_get iid p' = None
        else cells p' = cells p \<and> pieces p' r = stack_num f)"
proof -
  have f: "im_index f = int i" "plain_item f" "1 \<le> i" "i < 2 ^ 15"
    using bag_cell [OF assms(1,3,4)] assms(5) by (metis option.inject)+
  have shorts: "in_short (item_number f)" "in_short (stack_num f)" "in_short (item_number f - stack_num f)" "in_short 0"
      "in_short (2 * item_number f)"
    using assms(8) number_range [of f] f(2) by (auto simp: in_short_def plain_item_def)
  have gems: "gems_fit (im_gems f)" using f(2) by (simp add: plain_item_def)
  have move: "moveItem E iid (int i) p = move_merge E r r p"
    using assms f by (simp add: moveItem_def bag_length vec_nth_def)
  have flushes: "\<exists>p'. do { q \<leftarrow> flush_item E r q; flush_item E r q } = Some p' \<and> cells p' = cells q
      \<and> bg_map (pl_bag p') = bg_map (pl_bag q) \<and> pieces p' r = pieces q r" if at: "item_at q r = Some it" "gems_fit (im_gems it)" for q it
  proof -
    obtain q1 where q1: "flush_item E r q = Some q1" "same_goods q q1" "bg_map (pl_bag q1) = bg_map (pl_bag q)"
      by (rule flush_keeps [OF at, where E = E]) (rule that)
    obtain it1 where it1: "item_at q1 r = Some it1" "alike it it1" by (rule same_goods_item [OF q1(2) at(1)])
    then have fit: "gems_fit (im_gems it1)" using at(2) by (simp add: alike_facts)
    obtain q2 where q2: "flush_item E r q1 = Some q2" "same_goods q1 q2" "bg_map (pl_bag q2) = bg_map (pl_bag q1)"
      by (rule flush_keeps [OF it1(1) fit, where E = E]) (rule that)
    obtain it2 where "item_at q2 r = Some it2" "alike it1 it2" by (rule same_goods_item [OF q2(2) it1(1)])
    with q1 q2 it1 at(1) show ?thesis by (simp add: pieces_def alike_facts same_goods_def)
  qed
  show ?thesis
  proof (cases "2 * item_number f \<le> stack_num f")
    case True
    let ?q = "set_bag_map (std_erase iid (bg_map (pl_bag p))) (set_cells ((cells p)[i := None]) (put_item r (f\<lparr>im_num := 0\<rparr>) p))"
    have "removeItem r False (put_item r (f\<lparr>im_num := 0\<rparr>) p) = Some ?q"
      using assms(1,3,6) f by (simp add: removeItem_def bag_length cell_index Let_def)
    then have "move_merge E r r p = do { q \<leftarrow> flush_item E r ?q; flush_item E r q }"
      using True assms(5) by (simp add: move_merge_def add_number_at set_number_at shorts Let_def)
    with flushes [of ?q "f\<lparr>im_num := 0\<rparr>"] gems True move show ?thesis by (auto simp: bag_get_def find_erase)
  next
    case False
    let ?q = "put_item r (f\<lparr>im_num := stack_num f\<rparr>) p"
    have "item_number (f\<lparr>im_num := 2 * item_number f - stack_num f\<rparr>) = 2 * item_number f - stack_num f"
      using False assms(8) f(2) by (intro number_update) (auto simp: plain_item_def)
    then have "move_merge E r r p = do { q \<leftarrow> flush_item E r ?q; flush_item E r q }"
      using False assms(5) by (simp add: move_merge_def add_number_at set_number_at shorts Let_def)
    moreover have "pieces ?q r = stack_num f"
      using f(2) by (simp add: pieces_def number_update plain_item_def)
    ultimately show ?thesis using flushes [of ?q "f\<lparr>im_num := stack_num f\<rparr>"] gems False move by auto
  qed
qed

theorem moving_onto_itself_breaks_stack_witness:
  "\<exists>p'. moveItem undefined 100 1 (two_stacks 7) = Some p' \<and> pieces p' 0 = 10"
proof -
  have "\<exists>p'. moveItem undefined 100 (int 1) (two_stacks 7) = Some p'
     \<and> (if 2 * item_number (stack_of 100 6 1) \<le> stack_num (stack_of 100 6 1)
        then cells p' = (cells (two_stacks 7))[1 := None] \<and> bag_get 100 p' = None
        else cells p' = cells (two_stacks 7) \<and> pieces p' 0 = stack_num (stack_of 100 6 1))"
    by (rule moving_onto_itself_breaks_stack) (simp_all add: two_stacks_ok two_stacks_simps stack_of_simps)
  then show ?thesis by (auto simp: stack_of_simps)
qed

section \<open>Buying\<close>

lemma sum_update: "i < length xs \<Longrightarrow> sum_list (xs[i := y]) = sum_list xs - xs ! i + (y :: int)"
  by (induction xs arbitrary: i) (auto split: nat.split)

lemma find_some: "List.find P xs = Some x \<Longrightarrow> x \<in> set xs \<and> P x"
  by (auto simp: find_Some_iff)

lemma free_cell_free: "free_cell v < length v \<Longrightarrow> v ! free_cell v = None"
  by (auto simp: free_cell_def dest!: find_some split: option.splits)

lemma stock_same: "cells q = cells p \<Longrightarrow> (\<And>x. item_at q x = item_at p x) \<Longrightarrow> stock tid q = stock tid p"
proof -
  assume "cells q = cells p" "\<And>x. item_at q x = item_at p x"
  moreover from this(2) have "pieces_of tid q = pieces_of tid p" by (simp add: pieces_of_def fun_eq_iff)
  ultimately show ?thesis by (simp add: stock_def cong: option.case_cong)
qed

text \<open>A new item goes to a free cell: the stock of its template grows by its pieces.\<close>

lemma stock_add:
  assumes "bag_ok p" "item_at p r = None" "addItem r (put_item r it p) = Some p'"
  shows "stock tid p' = stock tid p + (if im_itemId it = tid then item_number it else 0)"
    and "pl_role p' = pl_role p" "\<exists>k. item_at p' r = Some (it\<lparr>im_index := k\<rparr>)"
proof -
  let ?i = "free_cell (cells p)"
  let ?v = "vec_grow (?i + 1) None (cells p)"
  let ?it = "it\<lparr>im_index := wrap16 (int ?i)\<rparr>"
  have p': "p' = set_bag_map (std_assign (im_id it) r (bg_map (pl_bag p))) (set_cells (?v[?i := Some r]) (put_item r ?it p))"
    using assms(3) by (simp add: addItem_def Let_def)
  have cells': "cells p' = ?v[?i := Some r]" by (simp add: p')
  have i: "?i < length ?v" "?v ! ?i = None"
    using free_cell_free [of "cells p"] by (auto simp: vec_grow_def nth_append)
  let ?f = "\<lambda>q c. case c of None \<Rightarrow> 0 | Some x \<Rightarrow> pieces_of tid q x"
  have new: "pieces_of tid p' r = (if im_itemId it = tid then item_number it else 0)"
    by (simp add: p' pieces_of_def item_number_def)
  have old: "?f p' c = ?f p c" if "c \<in> set ?v" for c
  proof (cases c)
    case (Some x)
    with that have "Some x \<in> set (cells p)" by (auto simp: vec_grow_def)
    then obtain u where "item_at p x = Some u" using bag_cell [OF assms(1)] by (metis in_set_conv_nth)
    with assms(2) have "x \<noteq> r" by auto
    with Some show ?thesis by (simp add: p' pieces_of_def)
  qed simp
  have "stock tid p' = sum_list ((map (?f p') ?v)[?i := ?f p' (Some r)])" by (simp add: stock_def cells' map_update)
  also have "\<dots> = sum_list (map (?f p) ?v) + pieces_of tid p' r"
    using i sum_update [of ?i "map (?f p') ?v"] old by (simp cong: map_cong)
  also have "sum_list (map (?f p) ?v) = stock tid p" by (simp add: stock_def vec_grow_def map_replicate sum_list_replicate)
  finally show "stock tid p' = stock tid p + (if im_itemId it = tid then item_number it else 0)" using new by simp
  show "pl_role p' = pl_role p" "\<exists>k. item_at p' r = Some (it\<lparr>im_index := k\<rparr>)"
    by (auto simp: p' set_bag_map_def set_cells_def put_item_def item_at_def)
qed

text \<open>
  C36. A purchase of an item the tables know, by a player whose bag is in order and whose money covers
  the price times the count, as long as neither this product nor the money left leaves the 32 bits of an \<open>int\<close>
  and the name of the role, of at most 700 bytes, leaves the update of the role its room: the money falls by price times count, and the pieces of the template in the bag grow by the count cut to 16 bits
  (\<open>wrap16\<close>: 40000 adds -25536).  The count may be negative: it pays the player and makes an item with a negative
  number of pieces.
\<close>
theorem buying_takes_price_times_count:
  assumes "getIntVal (str ''Id'') request = Inr i" "getIntVal (str ''Count'') request = Inr n"
    and "get_template (ge_items E) (sint i) = Some tp" "rl_info (pl_role p) = Some rid"
    and "in_int (tp_price tp * sint n)" "tp_price tp * sint n \<le> rl_money (pl_role p)"
    and "in_int (rl_money (pl_role p) - tp_price tp * sint n)" "bag_ok p" "item_at p (pl_fresh p) = None"
    and "length (rl_name (pl_role p)) \<le> 700"
  shows "\<exists>p'. doBuyItem E request p = Some (p', Inr True)
     \<and> rl_money (pl_role p') = rl_money (pl_role p) - tp_price tp * sint n
     \<and> stock (tp_itemId tp) p' = stock (tp_itemId tp) p + wrap16 (sint n)"
proof -
  let ?money = "rl_money (pl_role p) - tp_price tp * sint n"
  obtain log where p1: "flush_role E (set_role ((pl_role p)\<lparr>rl_money := ?money\<rparr>) p)
      = Some (set_role ((pl_role p)\<lparr>rl_money := ?money\<rparr>) p\<lparr>pl_log := log\<rparr>)" (is "_ = Some ?p1")
    using flush_role_runs [of "set_role ((pl_role p)\<lparr>rl_money := ?money\<rparr>) p" E] assms(10) by (auto simp: set_role_def)
  define r where "r = pl_fresh p"
  let ?it = "createItem tp rid (wrap16 (sint n))"
  define args where "args = [D (im_roleId ?it), D (im_itemId ?it), D (item_number ?it), D (wrap16 (im_index ?it))]"
  define p2 where "p2 = ?p1\<lparr>pl_fresh := Suc r, pl_log := log @ [Statement item_insert args]\<rparr>"
  have p2: "cells p2 = cells p" "\<And>x. item_at p2 x = item_at p x" "rl_money (pl_role p2) = ?money"
    by (simp_all add: p2_def set_role_def cells_def item_at_def)
  have alloc: "alloc_item ?it ?p1 = (r, put_item r ?it (?p1\<lparr>pl_fresh := Suc r\<rparr>))"
    by (simp add: alloc_item_def r_def set_role_def)
  have fits: "statement_text (Statement item_insert args) \<noteq> None" by (simp add: args_def)
  obtain k where flush: "flush_new_item E r (put_item r ?it (?p1\<lparr>pl_fresh := Suc r\<rparr>)) = Some (put_item r (?it\<lparr>im_id := k\<rparr>) p2)"
  proof (cases "ge_ok E (log @ [Statement item_insert args])")
    case True
    show ?thesis
      by (rule that [of "autoId E (put_item r ?it p2)"]) (use fits in
        \<open>simp add: flush_new_item_def p2_def execute_def Let_def args_def [symmetric] True put_item_def item_at_def autoId_def\<close>)
  next
    case False
    show ?thesis
      by (rule that [of "im_id ?it"]) (use fits in
        \<open>simp add: flush_new_item_def p2_def execute_def Let_def args_def [symmetric] False put_item_def item_at_def\<close>)
  qed
  let ?it' = "?it\<lparr>im_id := k\<rparr>"
  have ok: "bag_ok p2" "item_at p2 r = None" using assms(8,9) p2 by (simp_all add: bag_ok_def r_def)
  obtain p3 where add: "addItem r (put_item r ?it' p2) = Some p3" by (simp add: addItem_def Let_def)
  obtain u where u: "item_at p3 r = Some u" using stock_add(3) [OF ok add] by blast
  have "item_number ?it' = wrap16 (sint n)" "im_itemId ?it' = tp_itemId tp"
    by (simp_all add: createItem_def set_number_def item_number_def wrap16_def new_item_def)
  then have "stock (tp_itemId tp) p3 = stock (tp_itemId tp) p + wrap16 (sint n)"
    using stock_add(1) [OF ok add, of "tp_itemId tp"] stock_same [OF p2(1,2)] by simp
  moreover have "rl_money (pl_role p3) = ?money" using stock_add(2) [OF ok add] p2(3) by simp
  moreover have "\<exists>body. doBuyItem E request p = Some (respond ''BuyPropFromBodyShop'' body p3, Inr True)"
    using assms(1-7) alloc flush add u
    by (simp add: doBuyItem_def field_int_def get_or_throw_def wrap32_id bag_isFull_def p1 returns_def)
      (rule exI, rule refl)
  moreover have "stock tid (respond c body p3) = stock tid p3" for tid c body
    by (rule stock_same) (simp_all add: respond_def cells_def item_at_def)
  ultimately show ?thesis by (auto simp: respond_def)
qed

definition shop_env :: game_env where
  "shop_env = (undefined :: game_env)\<lparr>ge_items := \<lparr>it_templates = [(9, stackable)], it_equipStrength = [], it_soulItems = []\<rparr>\<rparr>"

definition refund_request :: bobject where
  "refund_request = [(str ''Count'', BValue (V_int (- 3)) None), (str ''Id'', BValue (V_int 9) None)]"

theorem buying_takes_price_times_count_witness:
  "\<exists>p'. doBuyItem shop_env refund_request (two_stacks 7) = Some (p', Inr True)
     \<and> rl_money (pl_role p') = 115 \<and> stock 9 p' = 10"
proof -
  have req: "getIntVal (str ''Id'') refund_request = Inr 9" "getIntVal (str ''Count'') refund_request = Inr (- 3)"
    by code_simp+
  have n: "sint (- 3 :: i32) = - 3" "sint (9 :: i32) = 9" by simp_all
  have "get_template (ge_items shop_env) (sint (9 :: i32)) = Some stackable"
    by (simp add: shop_env_def get_template_def std_find_def)
  moreover have "rl_info (pl_role (two_stacks 7)) = Some 1" "rl_money (pl_role (two_stacks 7)) = 100"
      "item_at (two_stacks 7) (pl_fresh (two_stacks 7)) = None" "length (rl_name (pl_role (two_stacks 7))) \<le> 700"
    by (simp_all add: two_stacks_def item_at_def)
  moreover have "tp_price stackable = 5" "tp_itemId stackable = 9" by (simp_all add: stackable_def)
  moreover have "stock 9 (two_stacks 7) = 13"
    by (simp add: stock_def two_stacks_simps pieces_of_def stack_of_simps)
  ultimately show ?thesis
    using buying_takes_price_times_count [OF req, of shop_env stackable "two_stacks 7" 1] two_stacks_ok [of 7]
    by (simp add: n in_int_def wrap16_def)
qed

end
