(* ===== verification/Bag_Sorting.thy ===== *)
theory Bag_Sorting
  imports Item_Facts "HOL-Library.Multiset"
begin

text \<open>
  Sorting the bag: the loop that packs stacks returns within two rounds per item, keeps the pieces of
  every template, and follows the null pointer of cell 0 exactly when the first stack it meets is partial.
\<close>

section \<open>One item\<close>

definition partial :: "item \<Rightarrow> bool" where
  "partial it \<longleftrightarrow> 1 < stack_num it \<and> item_number it < stack_num it"

definition pack_inv :: "player \<Rightarrow> nat list \<Rightarrow> bool" where
  "pack_inv p rs \<longleftrightarrow> distinct rs \<and> (\<forall>r \<in> set rs. \<exists>it. item_at p r = Some it \<and> plain_item it)"

definition all_pieces :: "int \<Rightarrow> player \<Rightarrow> nat list \<Rightarrow> int" where
  "all_pieces tid p rs = sum_list (map (pieces_of tid p) rs)"

lemma all_pieces_simps [simp]:
  "all_pieces tid p [] = 0" "all_pieces tid p (r # rs) = pieces_of tid p r + all_pieces tid p rs"
  "all_pieces tid p (rs @ rs') = all_pieces tid p rs + all_pieces tid p rs'"
  by (simp_all add: all_pieces_def)

lemma all_pieces_cong: "(\<And>r. r \<in> set rs \<Longrightarrow> item_at p' r = item_at p r) \<Longrightarrow> all_pieces tid p' rs = all_pieces tid p rs"
  by (simp add: all_pieces_def pieces_of_def cong: map_cong)

lemma pack_item_at:
  assumes "pack_inv p rs" "r \<in> set rs"
  obtains it where "item_at p r = Some it" "plain_item it"
  using assms by (auto simp: pack_inv_def)

text \<open>The pieces of a partial stack go to the stack taken last, as many as fit.\<close>

lemma pour:
  assumes "pack_inv p (ts @ b # r # rs)" "item_at p r = Some f" "item_at p b = Some u" "im_itemId f = im_itemId u"
    and mn: "0 \<le> m" "m < 2 ^ 15" "0 \<le> n" "n < 2 ^ 15" "m + n = item_number f + item_number u"
    and p': "p' = put_item b (u\<lparr>im_num := n\<rparr>) (put_item r (f\<lparr>im_num := m\<rparr>) p)"
  shows "pack_inv p' (ts @ b # r # rs)" "all_pieces tid p' (ts @ b # r # rs) = all_pieces tid p (ts @ b # r # rs)"
proof -
  have d: "b \<noteq> r" "b \<notin> set ts" "r \<notin> set ts" "b \<notin> set rs" "r \<notin> set rs" "plain_item f" "plain_item u"
    using assms(1-3) by (auto simp: pack_inv_def)
  show "pack_inv p' (ts @ b # r # rs)"
    using assms(1) d mn unfolding pack_inv_def p' by (auto simp: plain_update)
  have "all_pieces tid p' ts = all_pieces tid p ts" "all_pieces tid p' rs = all_pieces tid p rs"
    using d by (auto intro!: all_pieces_cong simp: p')
  moreover have "pieces_of tid p' b + pieces_of tid p' r = pieces_of tid p b + pieces_of tid p r"
    using d(1) mn assms(2-4) by (simp add: p' pieces_of_def number_update)
  ultimately show "all_pieces tid p' (ts @ b # r # rs) = all_pieces tid p (ts @ b # r # rs)" by simp
qed

lemma pack_item:
  assumes inv: "pack_inv p (ts @ r # rs)" and start: "ts \<noteq> [] \<or> \<not> (\<exists>it. item_at p r = Some it \<and> 0 < item_number it \<and> partial it)"
  obtains F' ts' p' where "F \<le> F'" "pack_loop (Suc (Suc F)) (r # rs) (None # map Some ts) p = pack_loop F' rs (None # map Some ts') p'"
    "pack_inv p' (ts' @ rs)" "\<And>tid. all_pieces tid p' (ts' @ rs) = all_pieces tid p (ts @ r # rs)" "length ts' \<le> Suc (length ts)"
    "ts' = [] \<and> ts = [] \<and> p' = p \<and> pieces p r \<le> 0 \<or> ts' \<noteq> []"
proof -
  note goal = that
  obtain f where f: "item_at p r = Some f" "plain_item f" using pack_item_at [OF inv] by auto
  have take: ?thesis if "pack_one r (None # map Some ts) p = Some (False, None # map Some ts @ [Some r], p)"
    by (rule goal [of "Suc F" "ts @ [r]" p]) (use inv that in \<open>simp_all add: pack_inv_def\<close>)
  consider "item_number f \<le> 0" | "0 < item_number f" "\<not> partial f" | "0 < item_number f" "partial f" by linarith
  then show ?thesis
  proof cases
    case 1
    then show ?thesis
      by (intro goal [of "Suc F" ts p]) (use inv f in \<open>auto simp: pack_one_def pack_inv_def pieces_def pieces_of_def plain_item_def\<close>)
  next
    case 2
    then show ?thesis by (intro take) (auto simp: pack_one_def f partial_def)
  next
    case 3
    with start f obtain ts0 b where ts: "ts = ts0 @ [b]" by (metis rev_exhaust)
    obtain u where u: "item_at p b = Some u" "plain_item u" using pack_item_at [OF inv] ts by auto
    have br: "b \<noteq> r" using inv ts by (auto simp: pack_inv_def)
    have inv': "pack_inv p (ts0 @ b # r # rs)" using inv by (simp add: ts)
    have one: "pack_one r (None # map Some ts) p =
        (if im_itemId f \<noteq> im_itemId u \<or> stack_num u \<le> item_number u then Some (False, None # map Some ts @ [Some r], p)
         else if item_number u + item_number f \<le> stack_num u then
           Some (False, None # map Some ts, put_item r (f\<lparr>im_num := 0\<rparr>) (put_item b (u\<lparr>im_num := item_number u + item_number f\<rparr>) p))
         else Some (True, None # map Some ts, put_item b (u\<lparr>im_num := stack_num u\<rparr>)
           (put_item r (f\<lparr>im_num := item_number f + (item_number u - stack_num u)\<rparr>) p)))"
      using 3 f u br number_range [of f] number_range [of u]
      by (auto simp: pack_one_def ts partial_def add_number_at set_number_at in_short_def plain_item_def)
    show ?thesis
    proof (cases "im_itemId f \<noteq> im_itemId u \<or> stack_num u \<le> item_number u")
      case True
      then show ?thesis by (intro take) (simp only: one if_True)
    next
      case False
      then have same: "im_itemId f = im_itemId u" and less: "item_number u < stack_num u" by auto
      show ?thesis
      proof (cases "item_number u + item_number f \<le> stack_num u")
        case True
        let ?p' = "put_item b (u\<lparr>im_num := item_number u + item_number f\<rparr>) (put_item r (f\<lparr>im_num := 0\<rparr>) p)"
        have comm: "put_item r (f\<lparr>im_num := 0\<rparr>) (put_item b (u\<lparr>im_num := item_number u + item_number f\<rparr>) p) = ?p'"
          using br by (simp add: put_item_def fun_upd_twist)
        have sums: "pack_inv ?p' (ts0 @ b # r # rs)" "\<And>tid. all_pieces tid ?p' (ts0 @ b # r # rs) = all_pieces tid p (ts0 @ b # r # rs)"
          by (rule pour [OF inv' f(1) u(1) same _ _ _ _ _ refl]; use True f u in \<open>simp add: plain_item_def\<close>)+
        moreover have "pieces_of tid ?p' r = 0" for tid using br by (simp add: pieces_of_def number_update)
        ultimately show ?thesis
          by (intro goal [of "Suc F" ts ?p']) (use one False True comm in \<open>auto simp: ts pack_inv_def\<close>)
      next
        case more: False
        let ?f = "f\<lparr>im_num := item_number f + (item_number u - stack_num u)\<rparr>" and ?u = "u\<lparr>im_num := stack_num u\<rparr>"
        let ?p' = "put_item b ?u (put_item r ?f p)"
        have sums: "pack_inv ?p' (ts0 @ b # r # rs)" "\<And>tid. all_pieces tid ?p' (ts0 @ b # r # rs) = all_pieces tid p (ts0 @ b # r # rs)"
          by (rule pour [OF inv' f(1) u(1) same _ _ _ _ _ refl]; use more less f u number_range [of f] in \<open>simp add: plain_item_def\<close>)+
        have "0 \<le> stack_num u" "stack_num u < 2 ^ 15" using u(2) by (simp_all add: plain_item_def)
        then have full: "item_number ?u = stack_num ?u" by (simp add: number_update stack_num_def)
        have "0 < item_number ?f"
          using more less number_range [of f] by (subst number_update) auto
        then have again: "pack_one r (None # map Some ts) ?p' = Some (False, None # map Some ts @ [Some r], ?p')"
          using br full by (simp add: pack_one_def ts)
        show ?thesis
          by (rule goal [of F "ts @ [r]" ?p']) (use one False more again sums in \<open>simp_all add: ts\<close>)
      qed
    qed
  qed
qed

section \<open>All items\<close>

fun first_partial :: "player \<Rightarrow> nat list \<Rightarrow> bool" where
  "first_partial p [] \<longleftrightarrow> False"
| "first_partial p (r # rs) \<longleftrightarrow> (if pieces p r \<le> 0 then first_partial p rs else (case item_at p r of None \<Rightarrow> False | Some it \<Rightarrow> partial it))"

lemma pack_all:
  assumes "pack_inv p (ts @ rs)" "2 * length rs \<le> F" "ts \<noteq> [] \<or> \<not> first_partial p rs"
  shows "\<exists>ts' p'. pack_loop F rs (None # map Some ts) p = Done (None # map Some ts', p') \<and> pack_inv p' ts'
    \<and> (\<forall>tid. all_pieces tid p' ts' = all_pieces tid p (ts @ rs)) \<and> length ts' \<le> length ts + length rs"
  using assms
proof (induction rs arbitrary: ts p F)
  case Nil
  have "pack_loop F [] (None # map Some ts) p = Done (None # map Some ts, p)" by (cases F) simp_all
  with Nil show ?case by auto
next
  case (Cons r rs)
  obtain G where F: "F = Suc (Suc G)" "2 * length rs \<le> G" using Cons.prems(2) by (cases F; cases "F - 1") auto
  have start: "ts \<noteq> [] \<or> \<not> (\<exists>it. item_at p r = Some it \<and> 0 < item_number it \<and> partial it)"
    using Cons.prems(3) by (auto simp: pieces_def)
  obtain F' ts1 p1 where step: "G \<le> F'" "pack_loop F (r # rs) (None # map Some ts) p = pack_loop F' rs (None # map Some ts1) p1"
      "pack_inv p1 (ts1 @ rs)" "\<And>tid. all_pieces tid p1 (ts1 @ rs) = all_pieces tid p (ts @ r # rs)" "length ts1 \<le> Suc (length ts)"
      "ts1 = [] \<and> ts = [] \<and> p1 = p \<and> pieces p r \<le> 0 \<or> ts1 \<noteq> []"
    using pack_item [OF Cons.prems(1) start, of G] unfolding F(1) by metis
  have "ts1 \<noteq> [] \<or> \<not> first_partial p1 rs" using step(6) Cons.prems(3) by auto
  from Cons.IH [OF step(3) _ this, of F'] step(1) F(2) obtain ts' p' where
    "pack_loop F' rs (None # map Some ts1) p1 = Done (None # map Some ts', p')" "pack_inv p' ts'"
    "\<forall>tid. all_pieces tid p' ts' = all_pieces tid p1 (ts1 @ rs)" "length ts' \<le> length ts1 + length rs" by fastforce
  then show ?case using step(2,4,5) by auto
qed

lemma pack_fault:
  "pack_inv p rs \<Longrightarrow> 2 * length rs \<le> F \<Longrightarrow> first_partial p rs \<Longrightarrow> pack_loop F rs [None] p = Fault"
proof (induction rs arbitrary: F)
  case (Cons r rs)
  obtain G where F: "F = Suc G" "2 * length rs \<le> G" using Cons.prems(2) by (cases F) auto
  obtain it where it: "item_at p r = Some it" using pack_item_at [OF Cons.prems(1), of r] by auto
  have "pack_inv p rs" using Cons.prems(1) by (simp add: pack_inv_def)
  with Cons F it show ?case by (auto simp: pack_one_def pieces_def partial_def split: if_splits)
qed simp

lemma indices_set:
  assumes "pack_inv p ts"
  shows "\<exists>p'. set_indices k (map Some ts) p = Some p' \<and> cells p' = cells p
     \<and> (\<forall>i < length ts. \<forall>it. item_at p (ts ! i) = Some it \<longrightarrow> item_at p' (ts ! i) = Some (it\<lparr>im_index := wrap16 (int (k + i))\<rparr>))
     \<and> (\<forall>x. x \<notin> set ts \<longrightarrow> item_at p' x = item_at p x)"
  using assms
proof (induction ts arbitrary: k p)
  case (Cons r ts)
  obtain it where it: "item_at p r = Some it" "plain_item it" using pack_item_at [OF Cons.prems, of r] by auto
  let ?p = "put_item r (it\<lparr>im_index := wrap16 (int k)\<rparr>) p"
  have r: "r \<notin> set ts" using Cons.prems by (simp add: pack_inv_def)
  have "pack_inv ?p ts" using Cons.prems it by (auto simp: pack_inv_def)
  from Cons.IH [OF this, of "Suc k"] obtain p' where p': "set_indices (Suc k) (map Some ts) ?p = Some p'" "cells p' = cells p"
    "\<And>i it. i < length ts \<Longrightarrow> item_at ?p (ts ! i) = Some it \<Longrightarrow> item_at p' (ts ! i) = Some (it\<lparr>im_index := wrap16 (int (Suc k + i))\<rparr>)"
    "\<And>x. x \<notin> set ts \<Longrightarrow> item_at p' x = item_at ?p x" by auto
  have ne: "ts ! i \<noteq> r" if "i < length ts" for i using r that nth_mem by metis
  have "item_at p' ((r # ts) ! i) = Some (u\<lparr>im_index := wrap16 (int (k + i))\<rparr>)"
    if "i < length (r # ts)" "item_at p ((r # ts) ! i) = Some u" for i u
    using that p'(3) [of "i - 1"] p'(4) [OF r] it ne by (cases i) auto
  then show ?case using p' it by auto
qed simp

section \<open>The whole bag\<close>

definition held :: "player \<Rightarrow> nat list" where
  "held p = map the (filter (\<lambda>c. c \<noteq> None) (drop 1 (cells p)))"

lemma held_distinct:
  "(\<And>i j r. i < length v \<Longrightarrow> j < length v \<Longrightarrow> v ! i = Some r \<Longrightarrow> v ! j = Some r \<Longrightarrow> i = j)
     \<Longrightarrow> distinct (map the (filter (\<lambda>c. c \<noteq> None) v))"
proof (induction v)
  case (Cons c v)
  have d: "distinct (map the (filter (\<lambda>c. c \<noteq> None) v))"
    by (rule Cons.IH) (use Cons.prems [of "Suc _" "Suc _"] in auto)
  have "Some r \<notin> set v" if "c = Some r" for r
    using Cons.prems [of 0 "Suc _" r] that by (auto simp: in_set_conv_nth)
  with d show ?case by (cases c) auto
qed simp

lemma stock_held: "bag_ok p \<Longrightarrow> stock tid p = all_pieces tid p (held p)"
proof -
  assume ok: "bag_ok p"
  have sum: "(\<Sum>c\<leftarrow>v. case c of None \<Rightarrow> 0 | Some r \<Rightarrow> pieces_of tid p r) = all_pieces tid p (map the (filter (\<lambda>c. c \<noteq> None) v))" for v
    by (induction v) auto
  show ?thesis
  proof (cases "cells p")
    case (Cons c v)
    then have "c = None" using bag_cell [OF ok, of 0] by (cases c) auto
    with Cons show ?thesis by (simp add: stock_def sum held_def)
  qed (simp add: stock_def held_def)
qed

lemma held_inv: "bag_ok p \<Longrightarrow> pack_inv p (held p)"
proof -
  assume ok: "bag_ok p"
  have "distinct (held p)" unfolding held_def
    by (rule held_distinct) (use one_cell [OF ok, of "Suc _" "Suc _"] in \<open>auto simp: less_diff_conv\<close>)
  moreover have "\<exists>it. item_at p r = Some it \<and> plain_item it" if "r \<in> set (held p)" for r
  proof -
    from that have "Some r \<in> set (cells p)" by (auto simp: held_def dest: in_set_dropD)
    then show ?thesis using bag_cell [OF ok] by (metis in_set_conv_nth)
  qed
  ultimately show ?thesis by (simp add: pack_inv_def)
qed

lemma sorted_held: "pack_inv p rs \<Longrightarrow> pack_inv p (sort_key k rs)" "all_pieces tid p (sort_key k rs) = all_pieces tid p rs"
  by (simp add: pack_inv_def) (metis all_pieces_def mset_map mset_sort sum_mset_sum_list)

lemma indexed:
  assumes "pack_inv p ts"
  shows "\<exists>p'. set_indices 1 (map Some ts) p = Some p'
    \<and> (\<forall>i < length ts. \<forall>it. item_at p (ts ! i) = Some it \<longrightarrow> item_at p' (ts ! i) = Some (it\<lparr>im_index := wrap16 (int (1 + i))\<rparr>))
    \<and> (\<forall>tid r. r \<in> set ts \<longrightarrow> pieces_of tid p' r = pieces_of tid p r)"
proof -
  obtain p' where p': "set_indices 1 (map Some ts) p = Some p'"
    "\<And>i it. i < length ts \<Longrightarrow> item_at p (ts ! i) = Some it \<Longrightarrow> item_at p' (ts ! i) = Some (it\<lparr>im_index := wrap16 (int (1 + i))\<rparr>)"
    using indices_set [OF assms(1), of 1] by blast
  have "pieces_of tid p' r = pieces_of tid p r" if r: "r \<in> set ts" for tid r
  proof -
    obtain i it where "i < length ts" "r = ts ! i" "item_at p (ts ! i) = Some it"
      using r pack_item_at [OF assms(1) r] by (metis in_set_conv_nth)
    with p'(2) show ?thesis by (simp add: pieces_of_def item_number_def)
  qed
  with p' show ?thesis by blast
qed

text \<open>The vector is resized to the default number of cells, whatever it holds.\<close>

definition packed_cells :: "nat list \<Rightarrow> nat option list" where
  "packed_cells ts = None # map Some (take (DEFAULT_BAG_CELL - 1) ts) @ replicate (DEFAULT_BAG_CELL - Suc (length ts)) None"

lemma resized: "take DEFAULT_BAG_CELL (vec_grow DEFAULT_BAG_CELL None (None # map Some ts)) = packed_cells ts"
  by (simp add: vec_grow_def packed_cells_def DEFAULT_BAG_CELL_def take_Cons' take_map)

lemma pieces_set_cells [simp]: "pieces_of tid (set_cells v p) r = pieces_of tid p r" "all_pieces tid (set_cells v p) rs = all_pieces tid p rs"
  by (simp_all add: pieces_of_def all_pieces_def cong: map_cong)

lemma stock_packed: "stock tid (set_cells (packed_cells ts) p) = all_pieces tid p (take (DEFAULT_BAG_CELL - 1) ts)"
  by (simp add: stock_def packed_cells_def all_pieces_def comp_def map_replicate sum_list_replicate)

lemma refilled:
  assumes "pack_inv p ts" "length ts < DEFAULT_BAG_CELL" "set_indices 1 (map Some ts) p = Some p'"
  shows "bag_ok (set_cells (packed_cells ts) p')"
  unfolding bag_ok_def
proof (intro conjI allI impI)
  have v: "packed_cells ts = None # map Some ts @ replicate (DEFAULT_BAG_CELL - Suc (length ts)) None"
    using assms(2) by (simp add: packed_cells_def)
  have p': "item_at p' (ts ! i) = Some (it\<lparr>im_index := wrap16 (int (1 + i))\<rparr>)"
    if "i < length ts" "item_at p (ts ! i) = Some it" for i it
    using indexed [OF assms(1)] assms(3) that by auto
  fix k x assume "k < length (cells (set_cells (packed_cells ts) p')) \<and> cells (set_cells (packed_cells ts) p') ! k = Some x"
  then obtain i where i: "i < length ts" "k = Suc i" "x = ts ! i"
    unfolding v by (cases k) (auto simp: nth_append split: if_splits)
  obtain it where it: "item_at p (ts ! i) = Some it" "plain_item it" using pack_item_at [OF assms(1) nth_mem [OF i(1)]] by blast
  have "wrap16 (int (1 + i)) = int (Suc i)"
    using i(1) assms(2) by (subst cell_index) (simp_all add: DEFAULT_BAG_CELL_def)
  then show "1 \<le> k" "\<exists>it. item_at (set_cells (packed_cells ts) p') x = Some it \<and> im_index it = int k \<and> plain_item it"
    using p' [OF i(1) it(1)] i it(2) by simp_all
qed (use assms(2) in \<open>simp add: packed_cells_def DEFAULT_BAG_CELL_def\<close>)

lemma sort_runs:
  assumes "bag_ok p"
  shows "sort_bag p = bind_outcome (pack_loop (2 * length (held p)) (sort_key (sort_key_of p) (held p)) [None] p) (\<lambda>(v, p).
      lift_fault (set_indices 1 (tl v) p) (\<lambda>p. Done (set_cells (take DEFAULT_BAG_CELL (vec_grow DEFAULT_BAG_CELL None v)) p)))"
proof -
  have live: "\<forall>r \<in> set (held p). item_at p r \<noteq> None"
    using held_inv [OF assms(1)] by (auto simp: pack_inv_def)
  show ?thesis
    unfolding sort_bag_def Let_def held_def [symmetric] by (subst if_not_P) (use live in blast)+
qed



text \<open>
  Full stacks stay as they are, so a bag of more than twenty-four of them loses those behind: their pieces are in no cell
  any more, though the map of the bag still has them.
\<close>

lemma pack_full:
  "\<forall>r \<in> set rs. \<exists>it. item_at p r = Some it \<and> 0 < item_number it \<and> \<not> partial it \<Longrightarrow> length rs \<le> F \<Longrightarrow>
   pack_loop F rs v p = Done (v @ map Some rs, p)"
proof (induction rs arbitrary: F v)
  case Nil
  then show ?case by (cases F) simp_all
next
  case (Cons r rs)
  then obtain G where "F = Suc G" by (cases F) auto
  with Cons show ?case by (auto simp: pack_one_def partial_def not_less)
qed

lemma sorting_drops_stacks:
  assumes "bag_ok p" "\<forall>r \<in> set (held p). \<exists>it. item_at p r = Some it \<and> 0 < item_number it \<and> \<not> partial it"
  shows "\<exists>p'. sort_bag p = Done p' \<and> bg_map (pl_bag p') = bg_map (pl_bag p)
    \<and> (\<forall>tid. stock tid p' = all_pieces tid p (take (DEFAULT_BAG_CELL - 1) (sort_key (sort_key_of p) (held p))))"
proof -
  let ?rs = "sort_key (sort_key_of p) (held p)"
  have inv: "pack_inv p ?rs" using sorted_held(1) [OF held_inv [OF assms(1)]] .
  obtain p2 where p2: "set_indices 1 (map Some ?rs) p = Some p2" "\<And>tid r. r \<in> set ?rs \<Longrightarrow> pieces_of tid p2 r = pieces_of tid p r"
    using indexed [OF inv] by blast
  have "bg_map (pl_bag q') = bg_map (pl_bag q)" if "set_indices k cs q = Some q'" for k cs q q'
    using that by (induction k cs q rule: set_indices.induct) (auto simp: bind_eq_Some_conv)
  then have map: "bg_map (pl_bag p2) = bg_map (pl_bag p)" using p2(1) by blast
  have "pack_loop (2 * length (held p)) ?rs [None] p = Done (None # map Some ?rs, p)"
    using pack_full [of ?rs p "2 * length (held p)" "[None]"] assms(2) by simp
  then have "sort_bag p = Done (set_cells (packed_cells ?rs) p2)" using p2(1) by (simp add: sort_runs [OF assms(1)] resized)
  moreover have "stock tid (set_cells (packed_cells ?rs) p2) = all_pieces tid p (take (DEFAULT_BAG_CELL - 1) ?rs)" for tid
    unfolding stock_packed all_pieces_def
    by (intro arg_cong [where f = sum_list] map_cong refl p2(2)) (meson in_set_takeD)
  ultimately show ?thesis using map by auto
qed

definition full_bag :: "nat \<Rightarrow> player" where
  "full_bag n = (two_stacks 0)\<lparr>pl_bag := \<lparr>bg_lastSync = 0, bg_map = map (\<lambda>r. (int r, r)) [0..<n], bg_items = None # map Some [0..<n]\<rparr>,
     pl_items := (\<lambda>r. if r < n then Some (stack_of (int r) 10 (int r + 1)) else None), pl_fresh := n\<rparr>"

lemma sorting_drops_stacks_instance:
  "stock 9 (full_bag 30) = 300 \<and> (\<exists>p'. sort_bag (full_bag 30) = Done p' \<and> stock 9 p' = 240 \<and> bag_get 29 p' = Some 29)"
proof -
  have cells: "cells (full_bag 30) = None # map Some [0..<30]" and at: "\<And>r. r < 30 \<Longrightarrow> item_at (full_bag 30) r = Some (stack_of (int r) 10 (int r + 1))"
    and map: "bg_map (pl_bag (full_bag 30)) = map (\<lambda>r. (int r, r)) [0..<30]"
    by (simp_all add: full_bag_def cells_def item_at_def)
  have held: "held (full_bag 30) = [0..<30]" by (simp add: held_def cells comp_def del: upt_Suc)
  have ok: "bag_ok (full_bag 30)"
    unfolding bag_ok_def
  proof (intro conjI allI impI)
    fix i r assume "i < length (cells (full_bag 30)) \<and> cells (full_bag 30) ! i = Some r"
    then have "i = Suc r" "r < 30" by (auto simp: cells nth_Cons split: nat.splits)
    then show "1 \<le> i" "\<exists>it. item_at (full_bag 30) r = Some it \<and> im_index it = int i \<and> plain_item it"
      by (simp_all add: at stack_of_simps plain_item_def)
  qed (simp add: cells)
  have full: "\<forall>r \<in> set (held (full_bag 30)). \<exists>it. item_at (full_bag 30) r = Some it \<and> 0 < item_number it \<and> \<not> partial it"
    by (simp add: held at stack_of_simps partial_def)
  have "sort_key_of (full_bag 30) r = (1, int r)" if "r < 30" for r
    using that by (simp add: sort_key_of_def at stack_of_def new_item_def stackable_def)
  then have sorted: "sort_key (sort_key_of (full_bag 30)) [0..<30] = [0..<30]"
    by (intro sorted_sort_id sort_key_id_if_sorted) (simp add: sorted_wrt_iff_nth_less)
  have pieces: "pieces_of 9 (full_bag 30) r = 10" if "r < 30" for r using that by (simp add: pieces_of_def at stack_of_simps)
  have sum: "all_pieces 9 (full_bag 30) [0..<n] = 10 * int n" if "n \<le> 30" for n
    using that by (induction n) (simp_all add: pieces)
  have "stock 9 (full_bag 30) = 300" using stock_held [OF ok, of 9] sum [of 30] by (simp add: held)
  moreover obtain p' where p': "sort_bag (full_bag 30) = Done p'" "bg_map (pl_bag p') = bg_map (pl_bag (full_bag 30))"
      "stock 9 p' = all_pieces 9 (full_bag 30) (take (DEFAULT_BAG_CELL - 1) [0..<30])"
    using sorting_drops_stacks [OF ok full] unfolding held sorted by blast
  moreover have "take (DEFAULT_BAG_CELL - 1) [0..<30] = [0..<24]" by (simp add: DEFAULT_BAG_CELL_def)
  moreover have "bag_get 29 p' = Some 29" by (simp add: bag_get_def p'(2) map std_find_def) code_simp
  ultimately show ?thesis using sum [of 24] by simp
qed

end
