(* ===== verification/Soul_Facts.thy ===== *)
theory Soul_Facts
  imports Souls Handlers
begin

text \<open>
  What the soul requests keep: the maps of the bag lead to live souls filed under their own
  identifiers; and the request that does not work.
\<close>

section \<open>The invariant\<close>

definition files :: "(int, nat) std_map \<Rightarrow> (nat \<Rightarrow> soul_item option) \<Rightarrow> bool" where
  "files m store \<longleftrightarrow> ordered m \<and> (\<forall>k r. (k, r) \<in> set m \<longrightarrow> (\<exists>s. store r = Some s \<and> sl_id s = k))"

definition souls_ok :: "souls_bag \<Rightarrow> (nat \<Rightarrow> soul_item option) \<Rightarrow> bool" where
  "souls_ok b store \<longleftrightarrow> files (sb_hunted b) store \<and> files (sb_bag b) store \<and> files (sb_equipped b) store
     \<and> (\<forall>r. Some r \<in> set (sb_vect b) \<longrightarrow> store r \<noteq> None)"

definition souls_inv :: "player \<Rightarrow> bool" where
  "souls_inv p \<longleftrightarrow> souls_ok (pl_souls_bag p) (pl_souls p) \<and> (\<forall>r. pl_souls p r \<noteq> None \<longrightarrow> r < pl_fresh p)"

lemma files_simps [simp]: "files [] store"
  by (simp add: files_def)

lemma files_insert: "files m store \<Longrightarrow> store r = Some s \<Longrightarrow> files (std_insert (sl_id s) r m) store"
  using set_insert [of "sl_id s" r m] by (fastforce simp: files_def ordered_insert)

lemma files_assign: "files m store \<Longrightarrow> store r = Some s \<Longrightarrow> files (std_assign (sl_id s) r m) store"
  using set_assign [of "sl_id s" r m] by (fastforce simp: files_def ordered_assign)

lemma files_erase: "files m store \<Longrightarrow> files (std_erase k m) store"
  by (auto simp: files_def ordered_erase) (auto simp: std_erase_def)

text \<open>A soul may change in everything but its identifier, and new ones come.\<close>

definition grows :: "(nat \<Rightarrow> soul_item option) \<Rightarrow> (nat \<Rightarrow> soul_item option) \<Rightarrow> bool" where
  "grows store store' \<longleftrightarrow> (\<forall>r s. store r = Some s \<longrightarrow> (\<exists>s'. store' r = Some s' \<and> sl_id s' = sl_id s))"

lemma grows_update: "store r = Some s \<Longrightarrow> sl_id s' = sl_id s \<Longrightarrow> grows store (store(r := Some s'))"
  "store r = None \<Longrightarrow> grows store (store(r := Some s'))"
  by (auto simp: grows_def)

lemma files_grows: "files m store \<Longrightarrow> grows store store' \<Longrightarrow> files m store'"
  by (fastforce simp: files_def grows_def)

lemma souls_ok_grows: "souls_ok b store \<Longrightarrow> grows store store' \<Longrightarrow> souls_ok b store'"
  unfolding souls_ok_def using files_grows by (fastforce simp: grows_def)

lemma inv_put:
  assumes "souls_inv p" "soul_at p r = Some s" "sl_id s' = sl_id s"
  shows "souls_inv (put_soul r s' p)"
  using assms souls_ok_grows [OF _ grows_update(1), of "pl_souls_bag p" "pl_souls p" r s s']
  by (auto simp: souls_inv_def put_soul_def soul_at_def)

text \<open>Steps that do not touch the souls.\<close>

definition same_souls :: "player \<Rightarrow> player \<Rightarrow> bool" where
  "same_souls p p' \<longleftrightarrow> pl_souls_bag p' = pl_souls_bag p \<and> pl_souls p' = pl_souls p \<and> pl_fresh p \<le> pl_fresh p'"

lemma same_souls_inv: "souls_inv p \<Longrightarrow> same_souls p p' \<Longrightarrow> souls_inv p'"
  by (fastforce simp: souls_inv_def same_souls_def)

lemma inv_steps [simp]:
  "souls_inv (respond c body p) = souls_inv p" "souls_inv (set_role r p) = souls_inv p"
  "souls_inv (p\<lparr>pl_log := log\<rparr>) = souls_inv p" "souls_inv (p\<lparr>pl_sent := xs\<rparr>) = souls_inv p" "souls_inv (snd (roll E p)) = souls_inv p"
  "souls_inv (p\<lparr>pl_rolls := n\<rparr>) = souls_inv p"
  by (simp_all add: souls_inv_def respond_def set_role_def roll_def)

lemma execute_log: "execute E fmt args p = Some (good, p') \<Longrightarrow> p' = p\<lparr>pl_log := pl_log p @ [Statement fmt args]\<rparr>"
  by (simp add: execute_def Let_def split: if_splits)

lemma inv_flush_role: "souls_inv p \<Longrightarrow> flush_role E p = Some p' \<Longrightarrow> souls_inv p'"
  by (auto simp: flush_role_def Let_def dest!: execute_log)

lemma inv_flush: "souls_inv p \<Longrightarrow> flush_soul E r rid p = Some p' \<Longrightarrow> souls_inv p'"
  by (auto simp: flush_soul_def bind_eq_Some_conv dest!: execute_log)

lemma inv_remove: "souls_inv p \<Longrightarrow> souls_remove r p = Some p' \<Longrightarrow> souls_inv p'"
  by (auto simp: souls_remove_def bind_eq_Some_conv Let_def souls_inv_def souls_ok_def set_souls_def files_erase
      dest!: set_update_subset_insert [THEN subsetD] split: if_splits)

lemma inv_equip: "souls_inv p \<Longrightarrow> addEquipSoul r p = Some p' \<Longrightarrow> souls_inv p'"
  by (auto simp: addEquipSoul_def bind_eq_Some_conv Let_def souls_inv_def souls_ok_def set_souls_def soul_at_def intro: files_insert)

lemma inv_add: "souls_inv p \<Longrightarrow> addSoulItem r p = Some p' \<Longrightarrow> souls_inv p'"
  by (auto simp: addSoulItem_def bind_eq_Some_conv Let_def souls_inv_def souls_ok_def set_souls_def soul_at_def intro: files_insert)

lemma inv_unhunt: "souls_inv p \<Longrightarrow> removeHuntedSoul r False p = Some p' \<Longrightarrow> souls_inv p'"
  by (auto simp: removeHuntedSoul_def bind_eq_Some_conv Let_def souls_inv_def souls_ok_def set_souls_def files_erase)

lemma inv_store:
  assumes "souls_inv p" "storeSoulItem r p = Some (b, p')"
  shows "souls_inv p'"
proof (cases "p' = p")
  case False
  let ?b = "pl_souls_bag p"
  from False assms(2) obtain s idx where s: "soul_at p r = Some s" and p': "p' = set_souls (?b\<lparr>sb_hunted := std_erase (sl_id s) (sb_hunted ?b),
      sb_vect := (sb_vect ?b)[idx := Some r], sb_bag := std_assign (sl_id s) r (sb_bag ?b)\<rparr>)
      (put_soul r (s\<lparr>sl_type := SOUL_ITEM_TYPE_IN_BAG, sl_index := wrap16 (int idx)\<rparr>) p)"
    by (auto simp: storeSoulItem_def bind_eq_Some_conv Let_def split: option.split_asm)
  let ?s = "s\<lparr>sl_type := SOUL_ITEM_TYPE_IN_BAG, sl_index := wrap16 (int idx)\<rparr>"
  have inv: "souls_inv (put_soul r ?s p)" by (rule inv_put [OF assms(1) s]) simp
  have r: "pl_souls (put_soul r ?s p) r = Some ?s" by (simp add: put_soul_def)
  have "files (std_assign (sl_id s) r (sb_bag ?b)) (pl_souls (put_soul r ?s p))"
    using files_assign [of "sb_bag ?b" "pl_souls (put_soul r ?s p)" r ?s] r inv by (simp add: souls_inv_def souls_ok_def put_soul_def)
  moreover have "pl_souls (put_soul r ?s p) x \<noteq> None" if "Some x \<in> set ((sb_vect ?b)[idx := Some r])" for x
    using subsetD [OF set_update_subset_insert that] inv r by (auto simp: souls_inv_def souls_ok_def put_soul_def)
  ultimately show ?thesis
    using inv unfolding p' souls_inv_def souls_ok_def set_souls_def by (simp add: files_erase put_soul_def)
qed (simp add: assms(1))

lemma inv_new:
  assumes "souls_inv p" "r = pl_fresh p"
  shows "souls_inv (put_soul r s (p\<lparr>pl_fresh := Suc r\<rparr>))" and "pl_souls p r = None"
proof -
  show none: "pl_souls p r = None" using assms by (cases "pl_souls p r") (auto simp: souls_inv_def)
  show "souls_inv (put_soul r s (p\<lparr>pl_fresh := Suc r\<rparr>))"
    using assms souls_ok_grows [OF _ grows_update(2) [of "pl_souls p" r s, OF none], of "pl_souls_bag p"]
    by (auto simp: souls_inv_def put_soul_def intro: less_SucI)
qed

lemma flush_new:
  assumes "flush_new_soul E r rid (put_soul r s p) = Some p'"
  obtains s' log where "p' = put_soul r s' (p\<lparr>pl_log := log\<rparr>)"
proof -
  let ?st = "Statement soul_insert [D (sl_soulId s), D (wrap16 (sl_index s)), D (wrap16 (sl_type s)), D (sl_exp s), D rid]"
  have "p' = put_soul r (if ge_ok E (pl_log p @ [?st]) then s\<lparr>sl_id := autoId E (p\<lparr>pl_log := pl_log p @ [?st]\<rparr>)\<rparr> else s)
      (p\<lparr>pl_log := pl_log p @ [?st]\<rparr>)"
    using assms by (simp add: flush_new_soul_def soul_at_def execute_def put_soul_def Let_def autoId_def split: if_splits)
      (drule sym, simp)
  then show ?thesis by (rule that)
qed

lemma inv_hunted:
  assumes "souls_inv p" "new_hunted E tmpl p = Some (r, p')"
  shows "souls_inv p'"
proof -
  obtain s1 p1 where r: "r = pl_fresh p" and flush: "flush_new_soul E r (rl_id (pl_role p)) (put_soul r s1 (p\<lparr>pl_fresh := Suc r\<rparr>)) = Some p1"
    and add: "addSoulItem r p1 = Some p'"
    using assms(2) by (auto simp: new_hunted_def bind_eq_Some_conv alloc_soul_def put_soul_def Let_def)
  obtain s log where p1: "p1 = put_soul r s (p\<lparr>pl_fresh := Suc r, pl_log := log\<rparr>)"
    by (rule flush_new [OF flush])
  then have "p1 = (put_soul r s (p\<lparr>pl_fresh := Suc r\<rparr>))\<lparr>pl_log := log\<rparr>" by (simp add: put_soul_def)
  then show ?thesis using inv_add [OF _ add] inv_new(1) [OF assms(1) r, of s] by simp
qed

section \<open>The requests\<close>

abbreviation "keeps_souls \<equiv> keeps (\<lambda>_. souls_inv)"

lemma inv_hunt_role: "souls_inv p \<Longrightarrow> hunt_role E info p = Some p' \<Longrightarrow> souls_inv p'"
  by (auto simp: hunt_role_def roll_def Let_def elim!: inv_flush_role [rotated] split: if_splits)

lemma inv_rolled: "(if b then (0, p) else roll E p) = (v, p') \<Longrightarrow> souls_inv p \<Longrightarrow> souls_inv p'"
  by (auto simp: roll_def souls_inv_def split: if_splits)

lemma keeps_hunt:
  assumes "souls_inv p"
  shows "keeps_souls p (doHuntSoulItem E request p)"
proof -
  have soul: "souls_inv p'" if "(case std_find q m of Some vect \<Rightarrow> if vect = [] then (0, p1) else roll E p1 | None \<Rightarrow> (0, p1)) = (v, p')"
      "souls_inv p1" for q m p1 v p'
    using that by (auto split: option.splits intro: inv_rolled)
  note inv_rolled [OF _ assms]
  show ?thesis
    unfolding doHuntSoulItem_def
    by (intro keeps_rules keeps_let keeps_prod; (simp only: keeps_simps inv_steps)?)
      (simp_all add: assms, (metis Pair_inject assms inv_hunt_role inv_hunted inv_rolled soul)+)
qed

lemma inv_raise: "souls_inv p \<Longrightarrow> raise_level E r l p = Some p' \<Longrightarrow> souls_inv p'"
  by (auto simp: raise_level_def bind_eq_Some_conv Let_def intro: inv_put split: if_splits)

text \<open>A soul that is swallowed is freed, and then its experience is read: only a loop that frees nothing returns.\<close>

lemma freed_soul: "removeHuntedSoul r True p = Some p' \<Longrightarrow> soul_at p' r = None"
  by (auto simp: removeHuntedSoul_def bind_eq_Some_conv Let_def soul_at_def)

lemma swallow_none: "swallow_souls E b rs p = Some (ended, p') \<Longrightarrow> p' = p"
  by (cases rs) (auto simp: bind_eq_Some_conv freed_soul split: if_splits option.splits)

lemma keeps_all: "souls_inv p \<Longrightarrow> keeps_souls p (doSwallowAll E request p)"
  unfolding doSwallowAll_def
  by (auto intro!: keeps_rules keeps_prod simp: list.case_eq_if dest!: swallow_none split: list.split)
    (metis inv_flush inv_store inv_unhunt inv_raise)+

lemma swallow_steps:
  assumes "souls_inv p" "soul_at p r = Some s" "raise_level E r l (put_soul r (soul_addExp e s) p) = Some p1"
    and "flush_soul E r rid p1 = Some p2" "soul_at p2 t = Some u"
    and "flush_soul E t rid' (put_soul t (u\<lparr>sl_type := ty\<rparr>) p2) = Some p3" "souls_remove t p3 = Some p4"
  shows "souls_inv p4"
proof -
  have "souls_inv (put_soul r (soul_addExp e s) p)" by (rule inv_put [OF assms(1,2)]) (simp add: soul_addExp_def Let_def)
  then have "souls_inv p2" using inv_raise assms(3) inv_flush [OF _ assms(4)] by blast
  then have "souls_inv (put_soul t (u\<lparr>sl_type := ty\<rparr>) p2)" by (rule inv_put [OF _ assms(5)]) simp
  then show ?thesis using inv_flush [OF _ assms(6)] inv_remove [OF _ assms(7)] by blast
qed

lemma keeps_one: "souls_inv p \<Longrightarrow> keeps_souls p (doSwallowSoulItem E request p)"
  unfolding doSwallowSoulItem_def
  by (intro keeps_rules; (simp only: keeps_simps inv_steps)?) (assumption | erule (6) swallow_steps)+

lemma keeps_store: "souls_inv p \<Longrightarrow> keeps_souls p (doStoreSoulItem E request p)"
  unfolding doStoreSoulItem_def
  by (intro keeps_rules keeps_prod; simp?) (auto intro: inv_flush inv_store)

lemma remove_at: "souls_remove r p = Some p' \<Longrightarrow> soul_at p' x = soul_at p x"
  by (auto simp: souls_remove_def bind_eq_Some_conv Let_def soul_at_def set_souls_def)

lemma equip_steps:
  assumes "souls_inv p" "soul_at p r = Some s" "souls_remove r p = Some p1"
    and "addEquipSoul r (put_soul r (s\<lparr>sl_index := i, sl_type := ty\<rparr>) p1) = Some p2" "flush_soul E r rid p2 = Some p3"
  shows "souls_inv p3"
proof -
  have "soul_at p1 r = Some s" using remove_at [OF assms(3)] assms(2) by simp
  then have "souls_inv (put_soul r (s\<lparr>sl_index := i, sl_type := ty\<rparr>) p1)" by (rule inv_put [OF inv_remove [OF assms(1,3)]]) simp
  then show ?thesis using inv_equip [OF _ assms(4)] inv_flush [OF _ assms(5)] by blast
qed

lemma keeps_equip: "souls_inv p \<Longrightarrow> keeps_souls p (doEquipSoulItem E request p)"
  unfolding doEquipSoulItem_def
  by (intro keeps_rules; (simp only: keeps_simps inv_steps)?) (assumption | erule (4) equip_steps)+

lemma keeps_move: "souls_inv p \<Longrightarrow> keeps_souls p (doMoveSoulItem E request p)"
  unfolding doMoveSoulItem_def
  by (intro keeps_rules keeps_let; (simp only: keeps_simps inv_steps)?)
    (assumption | (erule inv_flush [rotated], erule (1) inv_put, simp))+

lemma keeps_small_souls:
  "souls_inv p \<Longrightarrow> keeps_souls p (doLoadSoulItems E request p)" "souls_inv p \<Longrightarrow> keeps_souls p (doBuySoulItem E request p)"
  "souls_inv p \<Longrightarrow> keeps_souls p (doGetEquippedSouls E request p)"
  unfolding doLoadSoulItems_def doBuySoulItem_def doGetEquippedSouls_def
  by (intro keeps_rules; simp)+

section \<open>Properties\<close>

text \<open>
  C38. Every soul request keeps the bag of souls in order: each entry of the hunted, stored and
  equipped souls, and each cell of the pages, leads to a soul that has not been freed, and the entries of the
  three maps are filed under the identifiers of their souls.
\<close>
theorem soul_requests_keep_bag:
  assumes "souls_inv p" "soul_doRequest E ty request p = Some (p', v)"
  shows "souls_inv p'"
proof -
  have "keeps_souls p (soul_doRequest E ty request p)"
    unfolding soul_doRequest_def
    by (intro keeps_if keeps_hunt keeps_all keeps_one keeps_store keeps_equip keeps_move keeps_small_souls assms(1)) (simp add: assms(1))
  then show ?thesis by (simp add: assms(2))
qed

definition loose_soul :: soul_item where
  "loose_soul = \<lparr>sl_template = \<lparr>tp_itemId = 30, tp_price = 0, tp_itemType = 10, tp_itemUseLevel = 0, tp_profession = 0,
     tp_quality = 1, tp_stackNum = 0, tp_strengthNextLevelId = 0, tp_strengthLevel = 1, tp_correspondingExp = 0\<rparr>,
     sl_id = 7, sl_soulId = 30, sl_index = 0, sl_type = SOUL_ITEM_TYPE_HUNTED, sl_exp = 4\<rparr>"

text \<open>A player with hunted souls 7 and 8.\<close>

definition two_souls :: player where
  "two_souls = \<lparr>pl_role = \<lparr>rl_id = 1, rl_profession = 0, rl_money = 100, rl_gold = 0, rl_name = [], rl_level = 1, rl_vipLevel = 0,
       rl_exp = 0, rl_soulsValue = 0, rl_soulsIndex = 0, rl_info = Some 1, rl_equips = []\<rparr>,
     pl_bag = new_bag, pl_items = Map.empty,
     pl_souls_bag = \<lparr>sb_hunted = [(7, 0), (8, 1)], sb_bag = [], sb_vect = [None], sb_equipped = []\<rparr>,
     pl_souls = [0 \<mapsto> loose_soul, 1 \<mapsto> loose_soul\<lparr>sl_id := 8\<rparr>], pl_fresh = 2,
     pl_log = [], pl_sent = [], pl_ticks = 0, pl_rolls = 0\<rparr>"

lemma two_souls_inv: "souls_inv two_souls"
  by (auto simp: souls_inv_def souls_ok_def files_def two_souls_def loose_soul_def split: if_splits)

definition store_request :: bobject where "store_request = [(str ''Id'', BValue (V_int 7) None)]"

theorem soul_requests_keep_bag_witness:
  "\<exists>p'. soul_doRequest undefined ''PacketSoulMeta'' store_request two_souls = Some (p', Inr True)
     \<and> souls_inv p' \<and> sb_vect (pl_souls_bag p') = [Some 0]"
proof -
  have req: "getIntVal (str ''Id'') store_request = Inr 7" by code_simp
  have "\<exists>p'. soul_doRequest undefined ''PacketSoulMeta'' store_request two_souls = Some (p', Inr True)
      \<and> sb_vect (pl_souls_bag p') = [Some 0]"
    by (simp add: soul_doRequest_def doStoreSoulItem_def field_int_def get_or_throw_def req getHuntSoul_def two_souls_def
        std_find_def storeSoulItem_def soul_at_def put_soul_def set_souls_def flush_soul_def execute_def returns_def respond_def
        Let_def loose_soul_def)
  then show ?thesis using soul_requests_keep_bag [OF two_souls_inv] by blast
qed

text \<open>
  C39. With two or more hunted souls, all of a quality and experience the tables know, the
  request to swallow all of them never succeeds: it reads the experience of a soul it has freed.
\<close>
theorem swallowing_all_reads_freed_soul:
  assumes "souls_inv p" "2 \<le> length (sb_hunted (pl_souls_bag p))"
    and "\<forall>(k, r) \<in> set (sb_hunted (pl_souls_bag p)). \<forall>s. soul_at p r = Some s \<longrightarrow>
       (\<exists>level info. getLevelByExp (ge_souls E) (soul_quality s) (sl_exp s) = Some level \<and> 0 \<le> level
          \<and> getSoulInfo (ge_souls E) (soul_quality s) level = Some (Some info))"
  shows "doSwallowAll E request p = None"
proof -
  let ?m = "sb_hunted (pl_souls_bag p)"
  have files: "files ?m (pl_souls p)" using assms(1) by (simp add: souls_inv_def souls_ok_def)
  have none: "swallow_souls E b (map snd (std_erase k ?m)) p = None" for b k
  proof -
    have "std_erase k ?m \<noteq> []"
    proof
      assume "std_erase k ?m = []"
      then have "set (map fst ?m) \<subseteq> {k}" by (auto simp: std_erase_def filter_empty_conv)
      then have "card (set (map fst ?m)) \<le> 1" using card_mono [of "{k}"] by fastforce
      then show False
        using distinct_card [OF ordered_distinct, of ?m] files assms(2) by (simp add: files_def)
    qed
    then obtain k' r rest where e: "std_erase k ?m = (k', r) # rest" by (metis neq_Nil_conv surj_pair)
    then have mem: "(k', r) \<in> set ?m" by (metis filter_is_subset list.set_intros(1) std_erase_def subsetD)
    with files obtain s where s: "soul_at p r = Some s" by (auto simp: files_def soul_at_def)
    with assms(3) mem obtain level info where l: "getLevelByExp (ge_souls E) (soul_quality s) (sl_exp s) = Some level"
      "0 \<le> level" "getSoulInfo (ge_souls E) (soul_quality s) level = Some (Some info)" by fast
    have "do { p \<leftarrow> removeHuntedSoul r True q; s \<leftarrow> soul_at p r; f p s } = None" for q and f :: "player \<Rightarrow> soul_item \<Rightarrow> (bool \<times> player) option"
      using freed_soul by (cases "removeHuntedSoul r True q") simp_all
    then show ?thesis using l(2) by (simp add: e s l(1,3) not_less)
  qed
  show ?thesis
    using none assms(2) by (cases ?m) (auto simp: doSwallowAll_def bind_eq_None_conv)
qed

definition soul_env :: game_env where
  "soul_env = (undefined :: game_env)\<lparr>ge_souls := \<lparr>st_hunt = [], st_infos = [\<lparr>si_quality = 1, si_level = 1, si_exp = 10, si_swallowExp = 2\<rparr>],
     st_souls = [([], []), ([None, Some 0], [(10, 0)])], st_exchange = []\<rparr>\<rparr>"

theorem swallowing_all_reads_freed_soul_witness: "doSwallowAll soul_env [] two_souls = None"
proof (rule swallowing_all_reads_freed_soul [OF two_souls_inv])
  have "soul_quality (loose_soul\<lparr>sl_id := n\<rparr>) = 1" "sl_exp (loose_soul\<lparr>sl_id := n\<rparr>) = 4" for n
    by (simp_all add: soul_quality_def loose_soul_def)
  moreover have "soul_quality loose_soul = 1" "sl_exp loose_soul = 4" by (simp_all add: soul_quality_def loose_soul_def)
  moreover have "getLevelByExp (ge_souls soul_env) 1 4 = Some 1"
      "\<exists>info. getSoulInfo (ge_souls soul_env) 1 1 = Some (Some info)"
    by (simp_all add: soul_env_def getLevelByExp_def getSoulInfo_def vec_nth_def lower_bound_def)
  ultimately show "\<forall>(k, r) \<in> set (sb_hunted (pl_souls_bag two_souls)). \<forall>s. soul_at two_souls r = Some s \<longrightarrow>
       (\<exists>level info. getLevelByExp (ge_souls soul_env) (soul_quality s) (sl_exp s) = Some level \<and> 0 \<le> level
          \<and> getSoulInfo (ge_souls soul_env) (soul_quality s) level = Some (Some info))"
    by (auto simp: two_souls_def soul_at_def)
qed (simp add: two_souls_def)

end
