(* ===== verification/Csv_Facts.thy ===== *)
theory Csv_Facts
  imports Templates Std_Map
begin

text \<open>
  The table reader reads back what a table is written as: rows of fields between commas, each row ended by
  a carriage return and a line feed.
\<close>

definition plain_field :: "byte list \<Rightarrow> bool" where
  "plain_field f \<longleftrightarrow> 0x0D \<notin> set f \<and> 0x2C \<notin> set f \<and> 0xFF \<notin> set f"

fun line_bytes :: "byte list list \<Rightarrow> byte list" where
  "line_bytes [] = [0x0D, 0x0A]"
| "line_bytes [f] = f @ [0x0D, 0x0A]"
| "line_bytes (f # fs) = f @ 0x2C # line_bytes fs"

definition table_bytes :: "byte list list list \<Rightarrow> byte list" where
  "table_bytes rows = concat (map line_bytes rows)"

section \<open>Rows\<close>

lemma body_field:
  "0x0D \<notin> set f \<Longrightarrow> 0x2C \<notin> set f \<Longrightarrow> rest \<noteq> [] \<Longrightarrow> csv_body (f @ rest) val row rows = csv_body rest (val @ f) row rows"
proof (induction f arbitrary: val)
  case (Cons c f)
  then obtain d cs where "f @ rest = d # cs" by (metis append_is_Nil_conv neq_Nil_conv)
  with Cons show ?case by simp
qed simp

lemma body_end: "csv_body (0x0D # 0x0A # rest) val row rows = csv_body rest [] [] (rows @ [row @ [val]])"
  by simp

lemma body_line:
  assumes "fs \<noteq> []" "\<forall>f \<in> set fs. plain_field f"
  shows "csv_body (line_bytes fs @ rest) [] row rows = csv_body rest [] [] (rows @ [row @ fs])"
  using assms
proof (induction fs arbitrary: row rule: line_bytes.induct)
  case (2 f)
  then show ?case using body_field [of f "0x0D # 0x0A # rest" "[]"] by (simp add: plain_field_def)
next
  case (3 f g fs)
  obtain d cs where line: "line_bytes (g # fs) @ rest = d # cs"
    by (metis append_is_Nil_conv line_bytes.simps list.discI neq_Nil_conv)
  have "csv_body (f @ 0x2C # d # cs) [] row rows = csv_body (d # cs) [] (row @ [f]) rows"
    using body_field [of f "0x2C # d # cs" "[]"] 3(3) by (simp add: plain_field_def)
  with 3 line show ?case by simp
qed simp

lemma body_rows:
  "\<forall>fs \<in> set rows. fs \<noteq> [] \<and> (\<forall>f \<in> set fs. plain_field f) \<Longrightarrow>
   csv_body (table_bytes rows @ [0xFF]) [] [] rows0 = rows0 @ rows"
  by (induction rows arbitrary: rows0) (simp_all add: table_bytes_def body_line)

section \<open>The header\<close>

lemma header_field:
  "0x0D \<notin> set f \<Longrightarrow> 0x2C \<notin> set f \<Longrightarrow> csv_header (f @ rest) val tb = csv_header rest (val @ f) tb"
  by (induction f arbitrary: val) (simp_all add: Let_def)

lemma header_line:
  assumes "fs \<noteq> []" "\<forall>f \<in> set fs. plain_field f"
  shows "csv_header (line_bytes fs @ rest) [] tb =
     (tb\<lparr>csv_singleline := csv_singleline tb @ fs,
         csv_fields := std.ins_all (zip fs [length (csv_singleline tb)..<length (csv_singleline tb) + length fs]) (csv_fields tb)\<rparr>, rest)"
  using assms
proof (induction fs arbitrary: tb rule: line_bytes.induct)
  case (2 f)
  then show ?case
    using header_field [of f "0x0D # 0x0A # rest" "[]"] by (simp add: plain_field_def std.ins_all_def Let_def)
next
  case (3 f g fs)
  let ?tb = "tb\<lparr>csv_singleline := csv_singleline tb @ [f], csv_fields := std_insert f (length (csv_singleline tb)) (csv_fields tb)\<rparr>"
  have "csv_header (f @ 0x2C # line_bytes (g # fs) @ rest) [] tb = csv_header (line_bytes (g # fs) @ rest) [] ?tb"
    using header_field [of f "0x2C # line_bytes (g # fs) @ rest" "[]"] 3(3) by (simp add: plain_field_def Let_def)
  moreover have "[n..<n + length (f # g # fs)] = n # [Suc n..<Suc n + length (g # fs)]" for n
    by (simp add: upt_conv_Cons del: upt_Suc)
  ultimately show ?case using 3 by (simp add: std.ins_all_def del: upt_Suc)
qed simp

lemma line_plain: "\<forall>f \<in> set fs. plain_field f \<Longrightarrow> 0xFF \<notin> set (line_bytes fs)"
  by (induction fs rule: line_bytes.induct) (auto simp: plain_field_def)

text \<open>
  C40. A table of plain fields written as comma separated lines is read back: behind the load the
  attribute of each column name in each row is the field that was written there, the first column of the name
  when a name occurs twice.
\<close>
theorem table_round_trip:
  assumes "header \<noteq> []" "\<forall>f \<in> set header. plain_field f"
    and "\<forall>fs \<in> set rows. length fs = length header \<and> (\<forall>f \<in> set fs. plain_field f)" "i < length rows" "name \<in> set header"
  shows "\<exists>tb j. loadFile (Some (table_bytes (header # rows))) new_reader = (True, tb) \<and> csv_rows tb = rows
     \<and> j < length header \<and> header ! j = name \<and> csv_string (tb\<lparr>csv_row := int i\<rparr>) name = Inr (Some (rows ! i ! j))"
proof -
  define fields where "fields = std.ins_all (zip header [0..<length header]) []"
  have no_eof: "\<forall>c \<in> set (table_bytes (header # rows)). c \<noteq> 0xFF"
    using line_plain [of header] line_plain assms(2,3) by (auto simp: table_bytes_def)
  have content: "csv_content (table_bytes (header # rows)) = line_bytes header @ table_bytes rows @ [0xFF]"
    using no_eof by (simp add: csv_content_def takeWhile_eq_all_conv [THEN iffD2]) (simp add: table_bytes_def)
  let ?tb = "new_reader\<lparr>csv_singleline := header, csv_fields := fields, csv_rows := rows\<rparr>"
  have "csv_header (csv_content (table_bytes (header # rows))) [] new_reader =
      (new_reader\<lparr>csv_singleline := header, csv_fields := fields\<rparr>, table_bytes rows @ [0xFF])"
    unfolding content header_line [OF assms(1,2)] by (simp add: new_reader_def fields_def)
  moreover have "\<forall>fs \<in> set rows. fs \<noteq> [] \<and> (\<forall>f \<in> set fs. plain_field f)"
    using assms(1,3) by (metis length_0_conv)
  ultimately have load: "loadFile (Some (table_bytes (header # rows))) new_reader = (True, ?tb)"
    using body_rows [of rows "[]"] by (simp add: loadFile_def) (simp add: new_reader_def)
  obtain j where j: "map_of (zip header [0..<length header]) name = Some j"
    using assms(5) by (metis length_map length_upt map_nth minus_nat.diff_0 set_zip_leftD weak_map_of_SomeI zip_map2 in_set_impl_in_set_zip1)
  then have "j < length header" "header ! j = name" by (auto dest!: map_of_SomeD simp: set_zip)
  moreover have "std_find name fields = Some j"
    using std.first_wins [of "[]" name "zip header [0..<length header]"] j by (simp add: fields_def std_find_def)
  moreover have "length (rows ! i) = length header" using assms(3,4) nth_mem by blast
  ultimately show ?thesis using load assms(4) by (intro exI [of _ ?tb] exI [of _ j]) (simp add: csv_string_def)
qed

theorem table_round_trip_witness:
  "\<exists>tb. loadFile (Some (table_bytes [[str ''Id'', str ''Money''], [str ''1'', str ''20''], [str ''2'', []]])) new_reader = (True, tb)
     \<and> csv_string (tb\<lparr>csv_row := 0\<rparr>) (str ''Money'') = Inr (Some (str ''20''))"
proof -
  have plain: "plain_field (str ''Id'')" "plain_field (str ''Money'')" "plain_field (str ''1'')" "plain_field (str ''20'')"
      "plain_field (str ''2'')" "plain_field []" "str ''Id'' \<noteq> str ''Money''"
    by (simp_all add: plain_field_def str_def)
  have "\<exists>tb j. loadFile (Some (table_bytes ([str ''Id'', str ''Money''] # [[str ''1'', str ''20''], [str ''2'', []]]))) new_reader = (True, tb)
     \<and> csv_rows tb = [[str ''1'', str ''20''], [str ''2'', []]] \<and> j < length [str ''Id'', str ''Money'']
     \<and> [str ''Id'', str ''Money''] ! j = str ''Money''
     \<and> csv_string (tb\<lparr>csv_row := int 0\<rparr>) (str ''Money'') = Inr (Some ([[str ''1'', str ''20''], [str ''2'', []]] ! 0 ! j))"
    by (rule table_round_trip) (simp_all add: plain)
  then show ?thesis using plain(7) by (auto simp: less_Suc_eq)
qed

end
