(* ===== verification/Database_Facts.thy ===== *)
theory Database_Facts
  imports Database Accounts
begin

text \<open>
  The requests of the server see the database through the log of their statements and the answers to
  it.  Here the connection of \<open>Database\<close> is shown to be what they see: for any client library, statements
  succeed and fail, rows, columns and identifiers are read as the requests read them.
\<close>

section \<open>Rows and columns\<close>

text \<open>A result with its column names attached to every row.\<close>

fun rows_of :: "mysql_result option \<Rightarrow> db_row list" where
  "rows_of None = []"
| "rows_of (Some R) = map (zip (mr_fields R)) (mr_rows R)"

text \<open>Documented of the client library: every row of a result has as many cells as there are columns.\<close>

definition result_ok :: "mysql_result option \<Rightarrow> bool" where
  "result_ok res \<longleftrightarrow> (case res of None \<Rightarrow> True
     | Some R \<Rightarrow> length (mr_fields R) < 2 ^ 31 \<and> (\<forall>r \<in> set (mr_rows R). length r = length (mr_fields R)))"

text \<open>\<open>column\<close> finds the first column of the name.\<close>

abbreviation place :: "'a \<Rightarrow> 'a list \<Rightarrow> nat" where
  "place x xs \<equiv> length (takeWhile (\<lambda>y. y \<noteq> x) xs)"

lemma place_less: "x \<in> set xs \<Longrightarrow> place x xs < length xs"
  by (induction xs) auto

lemma column_loop_place:
  "length fs + i < 2 ^ 31 \<Longrightarrow> column_loop fs name i = (if name \<in> set fs then int (place name fs + i) else -1)"
proof (induction fs arbitrary: i)
  case (Cons f fs)
  have "wrap32 (int i) = int i" using Cons.prems by (intro wrap32_id) (simp add: in_int_def)
  with Cons show ?case by simp
qed simp

lemma zip_place: "length r = length fs \<Longrightarrow> map_of (zip fs r) name = (if name \<in> set fs then Some (r ! place name fs) else None)"
  by (induction fs r rule: list_induct2') auto

lemma column_of:
  assumes "dc_result c = Some R" "result_ok (dc_result c)"
  shows "size_t (db_column name c) < length (mr_fields R) \<longleftrightarrow> name \<in> set (mr_fields R)"
    and "name \<in> set (mr_fields R) \<Longrightarrow> size_t (db_column name c) = place name (mr_fields R)"
proof -
  have len: "length (mr_fields R) + 0 < 2 ^ 31" using assms by (simp add: result_ok_def)
  have col: "db_column name c = (if name \<in> set (mr_fields R) then int (place name (mr_fields R)) else -1)"
    using column_loop_place [OF len, of name] assms(1) by (simp add: db_column_def)
  show at: "size_t (db_column name c) = place name (mr_fields R)" if "name \<in> set (mr_fields R)"
    using that place_less [OF that] len by (simp add: col size_t_def)
  show "size_t (db_column name c) < length (mr_fields R) \<longleftrightarrow> name \<in> set (mr_fields R)"
    using at place_less [of name "mr_fields R"] len by (cases "name \<in> set (mr_fields R)") (simp_all add: col size_t_def)
qed

lemma cells_read:
  assumes "result_ok (dc_result c)"
  shows "db_get (rows_of (dc_result c)) i col = db_cell i (size_t (db_column (str col) c)) c"
proof (cases "dc_result c")
  case (Some R)
  note col = column_of [OF Some assms, of "str col"]
  have "length (mr_rows R ! i) = length (mr_fields R)" if "i < length (mr_rows R)"
    using assms Some that by (simp add: result_ok_def)
  then show ?thesis
    using col by (auto simp: Some db_get_def db_cell_def db_rowcount_def db_columns_def zip_place not_less [symmetric])
qed (simp add: db_get_def db_cell_def)

section \<open>The answers of a client library\<close>

definition texts :: "statement list \<Rightarrow> byte list list" where "texts log = map (the \<circ> statement_text) log"

definition answered :: "mysql_client \<Rightarrow> byte list list \<Rightarrow> bool" where
  "answered C ts \<longleftrightarrow> mc_query C ts \<and> (mc_store C ts = None \<longrightarrow> mc_field_count C ts = 0)"

definition result_after :: "mysql_client \<Rightarrow> byte list list \<Rightarrow> mysql_result option" where
  "result_after C ts = (if mc_query C ts then mc_store C ts else None)"

text \<open>The environment of the requests over this client.\<close>

definition over :: "mysql_client \<Rightarrow> 'a game_env_scheme \<Rightarrow> 'a game_env_scheme" where
  "over C E = E\<lparr>ge_ok := (\<lambda>log. answered C (texts log)), ge_autoId := (\<lambda>log. mc_insert_id C (texts log)),
     ge_rows := (\<lambda>log. rows_of (result_after C (texts log)))\<rparr>"

text \<open>A connection and a state of the server that have seen the same statements.\<close>

definition in_step :: "mysql_client \<Rightarrow> statement list \<Rightarrow> db_connection \<Rightarrow> bool" where
  "in_step C log c \<longleftrightarrow> dc_texts c = texts log \<and> (log \<noteq> [] \<longrightarrow> dc_result c = result_after C (texts log))"

text \<open>Every state that executes statements by logging them runs in step with a connection.\<close>

locale logged_statements =
  fixes log_of :: "'s \<Rightarrow> statement list"
    and run :: "string \<Rightarrow> sql_arg list \<Rightarrow> 's \<Rightarrow> (bool \<times> 's) option"
    and C :: mysql_client
  assumes run_none: "run fmt args s = None \<longleftrightarrow> statement_text (Statement fmt args) = None"
    and run_some: "run fmt args s = Some (good, s') \<Longrightarrow>
      log_of s' = log_of s @ [Statement fmt args] \<and> good = answered C (texts (log_of s'))"
begin

lemma refines:
  assumes "in_step C (log_of s) c"
  shows "case run fmt args s of
      None \<Rightarrow> db_execute C fmt args c = None
    | Some (good, s') \<Rightarrow> \<exists>c'. db_execute C fmt args c = Some (good, c') \<and> in_step C (log_of s') c'"
proof (cases "run fmt args s")
  case None
  moreover from this have "statement_text (Statement fmt args) = None" by (simp only: run_none)
  ultimately show ?thesis by (simp add: db_execute_def)
next
  case (Some res)
  obtain good s' where res: "res = (good, s')" by (cases res)
  have log: "log_of s' = log_of s @ [Statement fmt args]" and good: "good = answered C (texts (log_of s'))"
    using run_some [OF Some [unfolded res]] by blast+
  obtain t where t: "statement_text (Statement fmt args) = Some t"
    using run_none [of fmt args s] Some by auto
  have "texts (log_of s') = dc_texts c @ [t]" using assms by (simp add: log texts_def t in_step_def)
  then show ?thesis
    unfolding Some res good
    by (auto simp: db_execute_def t Let_def in_step_def result_after_def answered_def log)
qed

end

interpretation player_log: logged_statements pl_log "execute (over C E)" C for C E
  by unfold_locales (auto simp: execute_def Let_def over_def split: if_splits)

interpretation lobby_log: logged_statements lb_log "lobby_execute (over C E)" C for C E
  by unfold_locales (auto simp: lobby_execute_def Let_def over_def split: if_splits)

text \<open>
  C28. The connection class implements what the requests assume of the database.  For every client library,
  a statement of a player's request or of the lobby overflows the buffer in both or succeeds and fails in
  both, and behind it the rows by column name and the new identifier are the same; the connection stays in
  step with the log.
\<close>
theorem connection_serves_requests:
  assumes "in_step C (lb_log W) c" "\<And>ts. result_ok (mc_store C ts)"
  shows "case lobby_execute (over C E) fmt args W of
      None \<Rightarrow> db_execute C fmt args c = None
    | Some (good, W') \<Rightarrow> \<exists>c'. db_execute C fmt args c = Some (good, c') \<and> in_step C (lb_log W') c'
        \<and> length (lobby_rows (over C E) W') = db_rowcount c' \<and> lobby_autoId (over C E) W' = wrap32 (db_autoId C c')
        \<and> (\<forall>L i col. getInteger L (lobby_rows (over C E) W') i col = db_getInteger L i (size_t (db_column (str col) c')) c'
             \<and> getString (lobby_rows (over C E) W') i col = db_getString i (size_t (db_column (str col) c')) c')"
proof (cases "lobby_execute (over C E) fmt args W")
  case None
  then show ?thesis using lobby_log.refines [OF assms(1), where E = E and fmt = fmt and args = args] by simp
next
  case (Some res)
  obtain good W' where res: "res = (good, W')" by (cases res)
  obtain c' where c': "db_execute C fmt args c = Some (good, c')" "in_step C (lb_log W') c'"
    using lobby_log.refines [OF assms(1), where E = E and fmt = fmt and args = args] by (auto simp: Some res)
  have "lb_log W' \<noteq> []" using lobby_log.run_some [OF Some [unfolded res]] by simp
  then have r: "dc_result c' = result_after C (texts (lb_log W'))" "dc_texts c' = texts (lb_log W')"
    using c'(2) by (simp_all add: in_step_def)
  have rows: "lobby_rows (over C E) W' = rows_of (dc_result c')" by (simp add: lobby_rows_def over_def r)
  have ok: "result_ok (dc_result c')" using assms(2) by (simp add: r result_after_def result_ok_def)
  have count: "length (rows_of (dc_result c')) = db_rowcount c'" by (cases "dc_result c'") (simp_all add: db_rowcount_def)
  have autoId: "lobby_autoId (over C E) W' = wrap32 (db_autoId C c')"
    by (simp add: lobby_autoId_def over_def db_autoId_def r)
  have "getInteger L (rows_of (dc_result c')) i col = db_getInteger L i (size_t (db_column (str col) c')) c'"
    "getString (rows_of (dc_result c')) i col = db_getString i (size_t (db_column (str col) c')) c'" for L i col
    by (simp_all add: getInteger_def getString_def db_getInteger_def db_number_def db_getString_def cells_read [OF ok])
  then show ?thesis using c' by (simp add: Some res rows count autoId)
qed

definition one_role :: mysql_client where
  "one_role = \<lparr>mc_connect = True, mc_query = (\<lambda>_. True),
     mc_store = (\<lambda>_. Some \<lparr>mr_fields = [str ''id'', str ''role_name''], mr_rows = [[Some (str ''5''), Some (str ''ann'')]]\<rparr>),
     mc_field_count = (\<lambda>_. 2), mc_insert_id = (\<lambda>_. 0)\<rparr>"

theorem connection_serves_requests_witness:
  "\<exists>W' c'. lobby_execute (over one_role undefined) ''select * from roles where id=%d'' [D 5] (initial_lobby []) = Some (True, W')
     \<and> db_execute one_role ''select * from roles where id=%d'' [D 5] new_connection = Some (True, c')
     \<and> getString (lobby_rows (over one_role undefined) W') 0 ''role_name'' = str ''ann''
     \<and> db_getString 0 (size_t (db_column (str ''role_name'') c')) c' = str ''ann''"
proof -
  let ?fmt = "''select * from roles where id=%d''"
  have step: "in_step one_role (lb_log (initial_lobby [])) new_connection"
    by (simp add: in_step_def new_connection_def initial_lobby_def texts_def)
  have "result_ok (mc_store one_role ts)" for ts by (simp add: one_role_def result_ok_def)
  note serves = connection_serves_requests [OF step this, where E = "undefined :: lobby_env" and fmt = ?fmt and args = "[D 5]"]
  have fits: "statement_text (Statement ?fmt [D 5]) \<noteq> None"
    by (rule statement_fits) (simp_all add: directive_ok_def STATEMENT_BUFFER_def)
  then obtain W' where W': "lobby_execute (over one_role undefined) ?fmt [D 5] (initial_lobby []) = Some (True, W')"
    by (auto simp: lobby_execute_def Let_def over_def answered_def one_role_def)
  have rows: "lobby_rows (over one_role undefined) W' = [[(str ''id'', Some (str ''5'')), (str ''role_name'', Some (str ''ann''))]]"
    by (simp add: lobby_rows_def over_def result_after_def one_role_def)
  have read: "getString (lobby_rows (over one_role undefined) W') 0 ''role_name'' = str ''ann''"
    by (simp add: rows getString_def db_get_def str_def c_str_def)
  obtain c' where c': "db_execute one_role ?fmt [D 5] new_connection = Some (True, c')"
      "getString (lobby_rows (over one_role undefined) W') 0 ''role_name'' = db_getString 0 (size_t (db_column (str ''role_name'') c')) c'"
    using serves by (auto simp: W')
  have "db_getString 0 (size_t (db_column (str ''role_name'') c')) c' = str ''ann''" using c'(2) read by simp
  with W' c'(1) read show ?thesis by blast
qed

end
