(* ===== verification/Client.thy ===== *)
theory Client
  imports CBson Packet Templates
begin

text \<open>
  The clients under \<open>client_test\<close>: \<open>CProtocol.cpp\<close>, which frames and unframes documents by itself, and
  \<open>client.cpp\<close>, which sends the requests of the protocol, some built from objects and framed like the
  server's responses, some built from linked documents and framed by its own \<open>sendData\<close>.  \<open>malloc\<close>
  is taken to succeed.
\<close>

section \<open>Packing without the byte order\<close>

text \<open>
  \<open>packHeader\<close> and \<open>unpackHeader\<close>: version and size stay in the order of the host.  The size of the new
  block is an \<open>unsigned int\<close>; a version of 0 divides by zero.
\<close>

definition pack_header :: "byte list \<Rightarrow> i32 \<Rightarrow> 16 word \<Rightarrow> byte list option" where
  "pack_header buff sz version =
     (if version = 0 then None
      else do {
        body \<leftarrow> rdn buff 0 (unat sz);
        let header = \<lparr>pk_sync = of_mem32 verifyKey, pk_version = version, pk_size = sz\<rparr>;
        let out = head_bytes header @ mask_loop (packet_mask (pk_sync header) (uint version) sz) body;
        if length out \<noteq> unat (sz + of_nat packet_sz) then None else Some out
      })"

definition unpack_header :: "byte list \<Rightarrow> (byte list \<times> i32) option" where
  "unpack_header buff = do {
     raw \<leftarrow> rdn buff 0 packet_sz;
     let header = head_of_bytes raw;
     if pk_version header = 0 then None
     else do {
       body \<leftarrow> rdn buff (int packet_sz) (unat (pk_size header));
       Some (mask_loop (packet_mask (pk_sync header) (uint (pk_version header)) (pk_size header)) body, pk_size header)
     }
   }"

section \<open>Requests built from objects\<close>

definition set_string :: "string \<Rightarrow> string \<Rightarrow> bobject \<Rightarrow> bobject" where
  "set_string key v obj = setStringVal obj (str key) (str v)"

definition login_object :: bobject where
  "login_object = (let obj = set_string ''Command'' ''Register'' [];
       body = set_string ''Pwd'' ''testpasswd'' (set_string ''Name'' ''ClientTest'' [])
     in setObjectVal obj (str ''Body'') body)"

definition servers_object :: bobject where
  "servers_object = set_string ''Command'' ''LoadServers'' []"

text \<open>The doubles 101.2 and 201.1.\<close>

definition walk_object :: bobject where
  "walk_object = (let response = set_string ''Command'' ''RunInLobby'' [];
       body = setDoubleVal (setDoubleVal [] (str ''X'') 0x40594CCCCCCCCCCD) (str ''Y'') 0x4069233333333333
     in setObjectVal response (str ''Body'') body)"

text \<open>A fresh buffer, the document, the frame, and what is handed to \<open>write\<close>.\<close>

definition client_write :: "allocator \<Rightarrow> byte list \<Rightarrow> bobject \<Rightarrow> (cxx_exception + byte list) option" where
  "client_write A mem obj = and_then (serializeToBuffer A (new_buffer mem) obj) (\<lambda>buf. do {
     buf \<leftarrow> packet_serialize buf;
     out \<leftarrow> sendData buf;
     Some (Inr out)
   })"

definition client_login :: "allocator \<Rightarrow> byte list \<Rightarrow> (cxx_exception + byte list) option" where
  "client_login A mem = client_write A mem login_object"

definition client_loadServers :: "allocator \<Rightarrow> byte list \<Rightarrow> (cxx_exception + byte list) option" where
  "client_loadServers A mem = client_write A mem servers_object"

definition client_doWalk :: "allocator \<Rightarrow> byte list \<Rightarrow> (cxx_exception + byte list) option" where
  "client_doWalk A mem = client_write A mem walk_object"

section \<open>Requests built from linked documents\<close>

text \<open>
  \<open>sendData\<close>: the version goes into the head in network order, and the same swapped value is what the
  mask is computed with.
\<close>

definition client_sendData :: "allocator \<Rightarrow> nat \<Rightarrow> nat option \<Rightarrow> cb_heap \<Rightarrow> byte list outcome" where
  "client_sendData A fuel m_Obj h =
     bind_outcome (cb_save A fuel m_Obj h) (\<lambda>buff.
       let sz = word_of_nat (length buff) :: i32;
           head = \<lparr>pk_sync = of_mem32 verifyKey, pk_version = htons (word_of_int defaultVersion), pk_size = htonl sz\<rparr>;
           srand = packet_mask (pk_sync head) (uint (pk_version head)) sz
       in Done (head_bytes head @ mask_loop srand buff))"

definition client_Register :: "allocator \<Rightarrow> nat \<Rightarrow> cb_heap \<Rightarrow> byte list outcome" where
  "client_Register A fuel h =
     bind_outcome (object_createNew fuel None h) (\<lambda>(m, h).
     lift_fault (do {
       h \<leftarrow> object_setString (str ''Command'') (str ''Register'') m h;
       h \<leftarrow> object_setString (str ''Name'') (str ''ClientTest'') m h;
       h \<leftarrow> object_setString (str ''Pwd'') (str ''testpasswd'') m h;
       object_setString (str ''DeviceId'') (str ''id1001'') m h
     }) (\<lambda>h. client_sendData A fuel m h))"

definition client_createRole :: "allocator \<Rightarrow> nat \<Rightarrow> cb_heap \<Rightarrow> byte list outcome" where
  "client_createRole A fuel h =
     bind_outcome (object_createNew fuel None h) (\<lambda>(m, h).
     lift_fault (do {
       h \<leftarrow> object_setString (str ''Command'') (str ''CreateRole'') m h;
       h \<leftarrow> object_setString (str ''Name'') (str ''role1'') m h;
       h \<leftarrow> object_setString (str ''Token'') (str ''9bce46d18b3742dbb50935994458da4f'') m h;
       object_setInt (str ''ProfessId'') 1 m h
     }) (\<lambda>h. client_sendData A fuel m h))"

end
