(* ===== verification/Client_Props.thy ===== *)
theory Client_Props
  imports Client CBson_Props Server
begin

text \<open>
  What the test clients and the server do together: \<open>login\<close> registers an account, \<open>Register\<close> takes the
  server down, and the helper functions of \<open>CProtocol\<close> invert each other.
\<close>

section \<open>Packing and unpacking\<close>

text \<open>What \<open>packHeader\<close> frames, \<open>unpackHeader\<close> unframes: both leave version and size in host order.\<close>

lemma pack_unpack:
  assumes "version \<noteq> 0" "n \<le> length buff" "n + packet_sz < 2 ^ 32"
  obtains out where "pack_header buff (of_nat n) version = Some out" "unpack_header out = Some (take n buff, of_nat n)"
proof -
  let ?sz = "of_nat n :: i32"
  let ?header = "\<lparr>pk_sync = of_mem32 verifyKey, pk_version = version, pk_size = ?sz\<rparr>"
  let ?k = "packet_mask (of_mem32 verifyKey) (uint version) ?sz"
  let ?out = "head_bytes ?header @ mask_loop ?k (take n buff)"
  have n: "unat ?sz = n" "unat (?sz + of_nat packet_sz) = n + packet_sz"
    using assms(3) by (simp_all add: unat_of_nat_small flip: of_nat_add)
  have len: "length (mask_loop ?k (take n buff)) = n" using assms(2) by simp
  have "rdn buff 0 n = Some (take n buff)" using assms(2) by (simp add: rdn_def)
  then have pack: "pack_header buff ?sz version = Some ?out"
    using assms(1,2) by (simp add: pack_header_def n Let_def)
  have "rdn ?out 0 packet_sz = Some (head_bytes ?header)" by (simp add: rdn_def)
  moreover have "rdn ?out (int packet_sz) n = Some (mask_loop ?k (take n buff))" using len by (simp add: rdn_def)
  ultimately have "unpack_header ?out = Some (take n buff, ?sz)"
    using assms(1) by (simp add: unpack_header_def n mask_loop_twice Let_def)
  with pack show ?thesis by (rule that)
qed

section \<open>Linked documents built by a client\<close>

text \<open>The map at \<open>d\<close> holds the document, in cells that are new since \<open>h0\<close>.\<close>

definition builds :: "cb_heap \<Rightarrow> nat \<Rightarrow> bson_doc \<Rightarrow> cb_heap \<Rightarrow> bool" where
  "builds h0 d es h \<longleftrightarrow> elems_ok es \<and> (\<exists>ents g. owns_doc es ents g \<and> d \<notin> dom g \<and> grown h0 h (g(d \<mapsto> C_map ents)))"

lemma builds_new: "object_createNew fuel None h = Done (Some (hp_next h), snd (new_cell (C_map []) h))"
    "builds h (hp_next h) [] (snd (new_cell (C_map []) h))"
  using grown_new [of h "C_map []"]
  by (auto simp: object_createNew_def Let_def case_prod_beta builds_def)

lemma builds_store:
  assumes "builds h0 d es h" "grown h h1 f" "owns v a f" "val_ok v" "0 \<notin> set n" "n \<notin> fst ` set es"
  obtains h2 where "setElementValue n (Some a) (Some d) h1 = Some h2" "builds h0 d (std_insert n v es) h2"
proof -
  obtain ents g where g: "elems_ok es" "owns_doc es ents g" "d \<notin> dom g" "grown h0 h (g(d \<mapsto> C_map ents))"
    using assms(1) by (auto simp: builds_def)
  obtain ents' g' h2 where "map_assign d (hp_next h1) (Some a) (snd (new_cell (C_str n) h1)) = Some h2"
    "owns_doc (std_insert n v es) ents' g'" "d \<notin> dom g'" "grown h0 h2 (g'(d \<mapsto> C_map ents'))"
    by (rule put_grown [OF g(4,3,2) assms(2,3) g(1) assms(5,6)])
  moreover have "elems_ok (std_insert n v es)" using insert_member(1) [OF assms(6)] g(1) assms(4,5) by simp
  ultimately show ?thesis
    by (intro that [of h2]) (auto simp: setElementValue_def builds_def Let_def case_prod_beta)
qed

lemma builds_string:
  assumes "builds h0 d es h" "0 \<notin> set s" "0 \<notin> set n" "n \<notin> fst ` set es"
  obtains h2 where "object_setString n s (Some d) h = Some h2" "builds h0 d (std_insert n (VString s) es) h2"
proof -
  let ?p = "hp_next h" and ?h = "snd (new_cell (C_chars s) h)"
  let ?h1 = "snd (new_cell (C_obj BSON_STRING (U_ptr ?p)) ?h)"
  have gr: "grown h ?h1 ([?p \<mapsto> C_chars s] ++ [Suc ?p \<mapsto> C_obj BSON_STRING (U_ptr ?p)])"
    using grown_trans [OF grown_new grown_new [of ?h]] by (simp add: new_cell_def)
  have own: "owns (VString s) (Suc ?p) ([?p \<mapsto> C_chars s] ++ [Suc ?p \<mapsto> C_obj BSON_STRING (U_ptr ?p)])"
    by (auto simp: fun_upd_twist intro!: exI [of _ ?p])
  obtain h2 where "setElementValue n (Some (Suc ?p)) (Some d) ?h1 = Some h2" "builds h0 d (std_insert n (VString s) es) h2"
    by (rule builds_store [OF assms(1) gr own _ assms(3,4)]) (simp add: assms(2))
  then show ?thesis
    by (intro that [of h2]) (simp_all add: object_setString_def createStringElement_def Let_def case_prod_beta c_str_id assms(2) new_cell_def)
qed

lemma builds_int:
  assumes "builds h0 d es h" "0 \<notin> set n" "n \<notin> fst ` set es"
  obtains h2 where "object_setInt n i (Some d) h = Some h2" "builds h0 d (std_insert n (VInt i) es) h2"
proof -
  have own: "owns (VInt i) (hp_next h) [hp_next h \<mapsto> C_obj BSON_INT (U_bits (ucast i))]" by (simp add: other_bits_def)
  obtain h2 where "setElementValue n (Some (hp_next h)) (Some d) (snd (new_cell (C_obj BSON_INT (U_bits (ucast i))) h)) = Some h2"
      "builds h0 d (std_insert n (VInt i) es) h2"
    by (rule builds_store [OF assms(1) grown_new own _ assms(2,3)]) simp
  then show ?thesis
    by (intro that [of h2]) (simp_all add: object_setInt_def createIntElement_def Let_def case_prod_beta)
qed

lemma builds_saved:
  assumes "allocator_ok A" "allocator_total A" "builds h0 d es h" "doc_utf8 es"
    and "int (length (elems_bytes es)) + 5 \<le> max_doc" "doc_fuel es \<le> fuel"
  shows "cb_save A fuel (Some d) h = Done (doc_bytes (elems_bytes (kept es)))"
proof -
  obtain ents g where g: "elems_ok es" "owns_doc es ents g" "d \<notin> dom g" "grown h0 h (g(d \<mapsto> C_map ents))"
    using assms(3) by (auto simp: builds_def)
  note le = le_upd [OF grown_le [OF g(4)] g(3)]
  show ?thesis by (rule save_document [OF assms(1,2) g(1) assms(4) g(2) conjunct1 [OF le] conjunct2 [OF le] assms(5,6)])
qed

section \<open>The packet of \<open>Register\<close>\<close>

definition register_doc :: bson_doc where
  "register_doc = [(str ''Command'', VString (str ''Register'')), (str ''DeviceId'', VString (str ''id1001'')),
     (str ''Name'', VString (str ''ClientTest'')), (str ''Pwd'', VString (str ''testpasswd''))]"

definition register_bytes :: "byte list" where "register_bytes = doc_bytes (elems_bytes register_doc)"

definition register_mask :: i32 where "register_mask = packet_mask (of_mem32 verifyKey) 59396 89"

lemma register_length: "length register_bytes = 89"
  by (simp add: register_bytes_def register_doc_def doc_bytes_def str_def string_body_def)

lemma register_packet:
  assumes "allocator_ok A" "allocator_total A" "9 \<le> fuel"
  shows "client_Register A fuel h = Done (head_bytes (frame_head 89) @ mask_loop register_mask register_bytes)"
proof -
  let ?d = "hp_next h"
  have keys: "0 \<notin> set (str ''Command'')" "0 \<notin> set (str ''Name'')" "0 \<notin> set (str ''Pwd'')" "0 \<notin> set (str ''DeviceId'')"
      "0 \<notin> set (str ''Register'')" "0 \<notin> set (str ''ClientTest'')" "0 \<notin> set (str ''testpasswd'')" "0 \<notin> set (str ''id1001'')"
    by (simp_all add: str_def)
  obtain h1 where h1: "object_setString (str ''Command'') (str ''Register'') (Some ?d) (snd (new_cell (C_map []) h)) = Some h1"
      "builds h ?d (std_insert (str ''Command'') (VString (str ''Register'')) []) h1"
    by (rule builds_string [OF builds_new(2) keys(5,1)]) simp
  obtain h2 where h2: "object_setString (str ''Name'') (str ''ClientTest'') (Some ?d) h1 = Some h2"
      "builds h ?d (std_insert (str ''Name'') (VString (str ''ClientTest'')) (std_insert (str ''Command'') (VString (str ''Register'')) [])) h2"
    by (rule builds_string [OF h1(2) keys(6,2)]) (simp add: str_def)
  obtain h3 where h3: "object_setString (str ''Pwd'') (str ''testpasswd'') (Some ?d) h2 = Some h3"
      "builds h ?d (std_insert (str ''Pwd'') (VString (str ''testpasswd'')) (std_insert (str ''Name'') (VString (str ''ClientTest''))
         (std_insert (str ''Command'') (VString (str ''Register'')) []))) h3"
    by (rule builds_string [OF h2(2) keys(7,3)]) (simp add: str_def)
  obtain h4 where h4: "object_setString (str ''DeviceId'') (str ''id1001'') (Some ?d) h3 = Some h4"
      "builds h ?d (std_insert (str ''DeviceId'') (VString (str ''id1001'')) (std_insert (str ''Pwd'') (VString (str ''testpasswd''))
         (std_insert (str ''Name'') (VString (str ''ClientTest'')) (std_insert (str ''Command'') (VString (str ''Register'')) [])))) h4"
    by (rule builds_string [OF h3(2) keys(8,4)]) (simp add: str_def)
  have doc: "builds h ?d register_doc h4"
    using h4(2) by (simp add: register_doc_def str_def)
  have "cb_save A fuel (Some ?d) h4 = Done (doc_bytes (elems_bytes (kept register_doc)))"
    by (rule builds_saved [OF assms(1,2) doc])
      (use assms(3) in \<open>simp_all add: register_doc_def str_def ascii_accepted string_body_def max_doc_def\<close>)
  then have save: "cb_save A fuel (Some ?d) h4 = Done register_bytes"
    by (simp add: register_bytes_def register_doc_def)
  have version: "uint (htons (word_of_int defaultVersion)) = 59396" by code_simp
  show ?thesis
    by (simp add: client_Register_def builds_new(1) h1(1) h2(1) h3(1) h4(1) client_sendData_def save Let_def
      register_length version register_mask_def frame_head_def bind_outcome_simps lift_fault_simps)
qed

section \<open>What the server makes of it\<close>

lemma mask_block_nth: "length xs \<le> 4 \<Longrightarrow> i < length xs \<Longrightarrow> mask_block k xs ! i = xs ! i XOR mem32 k ! i"
  by (simp add: mask_block_xor)

lemma mask_loop_nth: "i < length xs \<Longrightarrow> mask_loop k xs ! i = xs ! i XOR mem32 k ! (i mod 4)"
proof (induction k xs arbitrary: i rule: mask_loop.induct)
  case (2 k x xs)
  let ?b = "take 4 (x # xs)"
  have len: "length (mask_block k ?b) = length ?b" by (rule length_mask_block) simp
  show ?case
  proof (cases "i < 4")
    case True
    have "mask_block k ?b ! i = ?b ! i XOR mem32 k ! i"
      by (rule mask_block_nth) (use 2(2) True in auto)
    moreover have "i < length ?b" "?b ! i = (x # xs) ! i"
      using 2(2) True by (simp_all only: length_take nth_take min_less_iff_conj)
    ultimately show ?thesis using True len
      by (simp only: mask_loop.simps nth_append) simp
  next
    case False
    then have "i - 4 < length (drop 4 (x # xs))" "drop 4 (x # xs) ! (i - 4) = (x # xs) ! i" using 2(2) by auto
    moreover have "(i - 4) mod 4 = i mod 4" using False by (metis le_mod_geq not_less)
    moreover have "\<not> i < length ?b" "i - length ?b = i - 4" using False 2(2) by auto
    ultimately show ?thesis using 2(1) [of "i - 4"] len
      by (simp only: mask_loop.simps nth_append) simp
  qed
qed simp

text \<open>A document whose first type byte is above 127 takes the parser down.\<close>

lemma parse_high_type:
  assumes "4 < length xs" "128 \<le> xs ! 4" "3 \<le> fuel"
  shows "bson_parse fuel xs = Fault"
proof -
  obtain f where fuel: "fuel = Suc (Suc (Suc f))" using assms(3) by (auto simp: eval_nat_numeral le_iff_add)
  have rd: "rd xs 4 = Some (xs ! 4)" using assms(1) by (simp add: rd_def)
  have ty: "char_type (xs ! 4) = BSON_OTHER (xs ! 4)"
    using assms(2) by (simp add: char_type_def word_le_nat_alt)
  have next_fault: "bson_iterator_next (it_at xs 4) = None" by (rule next_type_byte_faults [OF rd assms(2)])
  have type_of: "bson_iterator_type (it_at xs 4) = Some (BSON_OTHER (xs ! 4))"
    by (simp add: bson_iterator_type_def rd ty)
  have first: "bson_iterator_next (bson_iterator_from_buffer xs 0) = Some (BSON_OTHER (xs ! 4), it_at xs 4)"
    by (simp add: bson_iterator_next_def bson_iterator_from_buffer_def bson_iterator_type_def rd ty it_at_def)
  show ?thesis
    by (simp add: bson_parse_def fuel first type_of parse_leaf_def next_fault lift_fault_def bind_outcome_simps
      split: option.split)
qed

lemma register_garbled:
  assumes "3 \<le> fuel"
  shows "bson_parse fuel (mask_loop (frame_mask 89) (mask_loop register_mask register_bytes)) = Fault"
proof -
  have b: "register_bytes ! 4 = 2"
    by (simp add: register_bytes_def register_doc_def doc_bytes_def wire32_bytes element_def)
  have k: "mem32 register_mask ! 0 XOR mem32 (frame_mask 89) ! 0 = 216" by code_simp
  have "mask_loop (frame_mask 89) (mask_loop register_mask register_bytes) ! 4 = (2 XOR mem32 register_mask ! 0) XOR mem32 (frame_mask 89) ! 0"
    by (simp add: mask_loop_nth register_length b)
  also have "\<dots> = 218" by (simp add: k xor.assoc)
  finally have c: "mask_loop (frame_mask 89) (mask_loop register_mask register_bytes) ! 4 = 218" .
  show ?thesis by (rule parse_high_type) (simp_all add: register_length c assms)
qed

lemma garbled_body:
  assumes "buffer_inv b" "pending b = head_bytes (frame_head (length xs)) @ ys" "length ys = length xs"
    and "bson_parse fuel (mask_loop (frame_mask (length xs)) ys) = Fault"
  shows "parseFromBuffer fuel b = Fault"
proof -
  let ?b = "b\<lparr>m_read := m_read b + of_nat packet_sz\<rparr>"
  have small: "length xs < MAX_BUFFER_SIZE"
    using assms(1-3) length_pending [OF assms(1)] by (auto simp: buffer_inv_def)
  then have n: "length xs < 2 ^ 32" "unat (of_nat (length xs) :: i32) = length xs"
    by (simp_all add: MAX_BUFFER_SIZE_def unat_of_nat)
  have b: "buffer_inv ?b" "pending ?b = ys" using advance(1,2) [OF assms(1), of packet_sz] assms(2) by simp_all
  have rd: "rdn (m_buffer ?b) (int (unat (m_read ?b))) (length xs) = Some ys"
    using rdn_pending [OF b(1), of 0 "length xs"] b(2) assms(3) by simp
  have key: "packet_mask (pk_sync (frame_head (length xs))) defaultVersion (of_nat (length xs)) = frame_mask (length xs)"
    by (simp add: frame_head_def frame_mask_def)
  have v: "(defaultVersion = 0) = False" by (simp add: defaultVersion_def)
  have "parse_body fuel (frame_head (length xs)) (of_nat (length xs)) defaultVersion ?b = Fault"
    unfolding parse_body_def v if_False n rd lift_fault_simps key assms(4) bind_outcome_simps ..
  then show ?thesis using parse_head [OF assms(1,2) n(1), of fuel] small assms(3) by simp
qed

text \<open>An open socket that has nothing pending receives one short chunk that the parser does not survive.\<close>

lemma event_faults:
  assumes "sr_sockets sv s = Some so" "buffer_inv (so_buffer so)" "pending (so_buffer so) = []"
    and "length ys = length xs" "length xs < 2038"
    and "bson_parse fuel (mask_loop (frame_mask (length xs)) ys) = Fault"
  shows "readable E fuel s [R_data (head_bytes (frame_head (length xs)) @ ys)] sv = Fault"
proof -
  let ?out = "head_bytes (frame_head (length xs)) @ ys"
  have lt: "length ?out < 2048" using assms(4,5) by (simp add: packet_sz_def)
  have ne: "?out \<noteq> []" by (simp add: head_bytes_def mem32_def)
  obtain b where b: "socket_read (so_buffer so) SOCKET_CHUNK [R_data ?out] = Done (0, b, [])" "buffer_inv b" "pending b = ?out"
    by (rule one_chunk [OF assms(2,3) ne lt]) (rule that)
  have "\<not> readAvailable b < int packet_sz" by (simp add: available_pending [OF b(2)] b(3))
  then have "readable_event fuel s [R_data ?out] so = Fault"
    unfolding readable_event_def b(1) using garbled_body [OF b(2,3) assms(4,6)] by (simp add: bind_outcome_simps Let_def)
  then show ?thesis by (simp add: readable_def assms(1) lift_fault_simps bind_outcome_simps)
qed

section \<open>Properties\<close>

text \<open>
  C22. The test client's \<open>Register\<close> takes the server down.  Its \<open>sendData\<close> derives the mask from the version
  after \<open>htons\<close>, the server from the version before it, so the bytes the server unmasks are not a document:
  in every state, on a connection that has just been opened, the packet makes the parser read outside its tables.
\<close>
theorem client_registration_crashes_server:
  assumes "allocator_ok A" "allocator_total A" "9 \<le> fuel" "3 \<le> fuel'" "length mem = MAX_BUFFER_SIZE"
  shows "\<exists>packet. client_Register A fuel h = Done packet
    \<and> readable E fuel' (lb_fresh (sr_lobby sv)) [R_data packet] (accept_session mem sv) = Fault"
proof -
  let ?ys = "mask_loop register_mask register_bytes"
  have so: "sr_sockets (accept_session mem sv) (lb_fresh (sr_lobby sv))
      = Some \<lparr>so_buffer = \<lparr>m_read = 0, m_write = 0, m_buffer = mem, m_protocol = []\<rparr>, so_open = True\<rparr>"
    by (simp add: accept_session_def fresh_def)
  have "readable E fuel' (lb_fresh (sr_lobby sv)) [R_data (head_bytes (frame_head (length register_bytes)) @ ?ys)]
      (accept_session mem sv) = Fault"
    by (rule event_faults [OF so])
      (use register_garbled [OF assms(4)] assms(5) in \<open>simp_all add: fresh_socket register_length\<close>)
  then show ?thesis using register_packet [OF assms(1-3)] by (simp add: register_length)
qed

text \<open>Only what \<open>accept\<close> reads matters to the witness: any state will do, such as the one before the first connection.\<close>

theorem client_registration_crashes_server_witness:
  "\<exists>packet. client_Register plain_allocator 9 empty_heap = Done packet
    \<and> readable (undefined :: lobby_env) 3 0 [R_data packet] (accept_session (replicate MAX_BUFFER_SIZE 0) (boot (initial_lobby []))) = Fault"
  using client_registration_crashes_server [of plain_allocator 9 3 "replicate MAX_BUFFER_SIZE 0" empty_heap undefined "boot (initial_lobby [])"]
  by (simp add: boot_def initial_lobby_def)

section \<open>The packet of \<open>login\<close>\<close>

definition login_received :: bobject where
  "login_received = [(str ''Body'', BValue (V_object [(str ''Name'', BValue (V_string (str ''ClientTest'')) None),
       (str ''Pwd'', BValue (V_string (str ''testpasswd'')) None)]) None),
     (str ''Command'', BValue (V_string (str ''Register'')) None)]"

definition login_document :: "byte list" where "login_document = doc_bytes (elems_bytes (to_doc login_object))"

lemma login_plain: "plain_object login_object" "ordered login_object" "doc_small (to_doc login_object)"
    "doc_fuel (to_doc login_object) \<le> 20" "seen login_object = login_received" "length (elems_bytes (to_doc login_object)) \<le> 80"
  by (simp_all add: login_object_def login_received_def set_string_def setStringVal_def setObjectVal_def obj_insert_def Let_def
      str_def ascii_accepted string_body_def doc_small_def INT_MAX_def doc_bytes_def)

lemma login_parse: "20 \<le> fuel \<Longrightarrow> bson_parse fuel login_document = Done login_received" "length login_document < 2038"
proof -
  show "length login_document < 2038" using login_plain(6) by (simp add: login_document_def doc_bytes_def)
  assume "20 \<le> fuel"
  then have "doc_fuel (to_doc login_object) \<le> fuel" using login_plain(4) by simp
  then show "bson_parse fuel login_document = Done login_received"
    using parse_seen [OF login_plain(1-3)] login_plain(5) by (simp add: login_document_def)
qed

lemma login_dispatch:
  assumes "account_by_name (str ''ClientTest'') W = None"
    and "registerAccount E (str ''ClientTest'') (str ''testpasswd'') W = Some (0, W')"
  shows "dispatch_request E s login_received W = Some (send_to s (reply ''Register'' success_body) W', Inr (True, True))"
proof -
  let ?body = "[(str ''Name'', BValue (V_string (str ''ClientTest'')) None), (str ''Pwd'', BValue (V_string (str ''testpasswd'')) None)]"
  have get: "getStringVal (str ''Command'') login_received = Inr (str ''Register'')"
      "getStringVal (str ''Token'') login_received = Inr []" "getObjectVal (str ''Body'') login_received = Inr ?body"
      "getStringVal (str ''Name'') ?body = Inr (str ''ClientTest'')" "getStringVal (str ''Pwd'') ?body = Inr (str ''testpasswd'')"
      "find_servlet (str ''Register'') = Some (''Register'', Login_servlet)"
      "(str ''ClientTest'' = []) = False" "(str ''testpasswd'' = []) = False"
    by code_simp+
  have "doRegister E ?body s W = Some (send_to s (reply ''Register'' success_body) W', Inr True)"
    by (simp add: doRegister_def field_str_def get_or_throw_def get assms ERROR_CODE_NO_ERROR_def returns_def)
  then show ?thesis
    by (simp add: dispatch_request_def servlet_doRequest_def login_doRequest_def get)
qed

lemma registration_result:
  assumes "registerAccount E name passwd W = Some (e, W')"
  shows "lb_sent W' = lb_sent W \<and> ((\<forall>log. ge_ok E log) \<longrightarrow> e = 0)"
  using assms
  by (auto simp: registerAccount_def generateUUID_def lobby_second_def lobby_execute_def fresh_def Let_def put_account_def
    split: if_splits)

text \<open>A database that takes every statement registers a free name that fits.\<close>

lemma registers:
  assumes "\<And>log. ge_ok E log" "\<And>k. length (le_uuid E k) = 16" "length (c_str name) + length (c_str passwd) \<le> 800"
  obtains W' where "registerAccount E name passwd W = Some (0, W')" "lb_sent W' = lb_sent W"
proof -
  let ?t = "ge_time E (lb_ticks W)"
  have "length (int_text (sint ?t)) \<le> 11"
    using int_text_length [of "sint ?t"] wrap32_id [of "sint ?t"] sint_range_size [of ?t] by (simp add: in_int_def word_size)
  then have "registerAccount E name passwd W \<noteq> None"
    using assms(3) by (subst register_faults_iff [OF assms(2)]) simp
  then obtain e W' where "registerAccount E name passwd W = Some (e, W')" by auto
  with registration_result [OF this] assms(1) show ?thesis by (intro that [of W']) auto
qed

text \<open>
  C21. Client and server together, on a reachable server with an empty queue, fewer than \<open>QUEUE_SIZE - 1\<close> messages
  pushed so far (the first lap of the ring), a database that accepts every statement, and no account of the
  name \<open>ClientTest\<close>: the packet of the test client's \<open>login\<close>, arriving in one event on a new connection, is
  parsed, queued and handled by the worker; the client is answered with success, and from then on exactly its
  password logs the name in, on every server that exists.  The allocator of the BSON library never fails here,
  and identifiers have 16 bytes.  When the database refuses the insert, the answer is the same and the
  name cannot log in; behind the first lap the worker may be handed an old message instead.
\<close>
theorem client_login_registers:
  assumes "allocator_ok A" "allocator_total A" "length cmem = MAX_BUFFER_SIZE" "length mem = MAX_BUFFER_SIZE" "20 \<le> fuel"
    and "server_init E = Some (W, v)" "reachable E fuel W sv" "Suc (sr_next sv) < QUEUE_SIZE" "ring_entries (sr_queue sv) = []"
    and "account_by_name (str ''ClientTest'') (sr_lobby sv) = None"
    and "\<And>log. ge_ok E log" "\<And>k. length (le_uuid E k) = 16"
  shows "\<exists>packet sv1 sv2 ai. client_login A cmem = Some (Inr packet)
    \<and> readable E fuel (lb_fresh (sr_lobby sv)) [R_data packet] (accept_session mem sv) = Done sv1
    \<and> worker_step E sv1 = Some (Handled True, sv2)
    \<and> lb_sent (sr_lobby sv2) = lb_sent (sr_lobby sv) @ [(lb_fresh (sr_lobby sv), reply ''Register'' success_body)]
    \<and> (\<forall>sid p. login_check (str ''ClientTest'') sid p (sr_lobby sv2) =
         Some (if p \<noteq> str ''testpasswd'' then Inl LOGIN_ERROR_NAME_PASSWD_ERROR
               else if get_server sid (sr_lobby sv2) = None then Inl LOGIN_ERROR_SERVER_NOT_SELECTED else Inr ai))"
proof -
  let ?s = "lb_fresh (sr_lobby sv)" and ?sv = "accept_session mem sv" and ?name = "str ''ClientTest''" and ?pw = "str ''testpasswd''"
  have live: "live_inv sv" using assms(7,8) by (intro reachable_live) auto
  have "length (elems_bytes (to_doc login_object)) + 5 \<le> 8181" using login_plain(6) by simp
  then obtain buf buf' where wire: "serializeToBuffer A (new_buffer cmem) login_object = Some (Inr buf)"
      "packet_serialize buf = Some buf'" "sendData buf' = Some (packet_of login_document)"
    by (rule object_on_wire [OF assms(1,2) login_plain(1) _ assms(3) [unfolded MAX_BUFFER_SIZE_def], folded login_document_def])
  have packet: "client_login A cmem = Some (Inr (packet_of login_document))"
    by (simp add: client_login_def client_write_def and_then_def wire)
  let ?msg = "\<lparr>msg_ps = ?s, msg_request = login_received\<rparr>"
  obtain so where ev: "readable E fuel ?s [R_data (packet_of login_document)] ?sv
      = Done (post ?msg (?sv\<lparr>sr_sockets := (sr_sockets ?sv)(?s := Some so)\<rparr>))"
    by (rule first_packet_posts [OF assms(4) login_parse(1) [OF assms(5)] login_parse(2)])
  let ?sv1 = "?sv\<lparr>sr_sockets := (sr_sockets ?sv)(?s := Some so)\<rparr>"
  have inv: "accounts_inv (sr_lobby ?sv1)"
    using inv_accept [OF reachable_accounts [OF assms(7) server_init_inv [OF assms(6)]]] by simp
  have free: "account_by_name ?name (sr_lobby ?sv1) = None"
    using assms(10) by (simp add: accept_session_def fresh_def put_session_def account_by_name_def)
  have sent: "lb_sent (sr_lobby ?sv) = lb_sent (sr_lobby sv)" by (simp add: accept_session_def fresh_def put_session_def)
  have "length (c_str ?name) + length (c_str ?pw) \<le> 800" by code_simp
  then obtain W' where reg: "registerAccount E ?name ?pw (sr_lobby ?sv1) = Some (0, W')" "lb_sent W' = lb_sent (sr_lobby ?sv1)"
    using registers [OF assms(11,12)] by metis
  obtain ai where ai: "ai_passwd ai = ?pw" "account_by_name ?name W' = Some (lb_fresh (sr_lobby ?sv1))"
      "lb_accounts W' (lb_fresh (sr_lobby ?sv1)) = Some ai"
    using registered_am [OF inv reg(1)] by metis
  have q: "first_lap (sr_queue ?sv1)" "ring_entries (sr_queue ?sv1) = []" "0 < ring_room (sr_queue ?sv1)"
    using live assms(8,9) by (simp_all add: live_inv_def ring_room_def accept_session_def fresh_def)
  have "dispatch_request E (msg_ps ?msg) (msg_request ?msg) (sr_lobby ?sv1)
      = Some (send_to ?s (reply ''Register'' success_body) W', Inr (True, True))"
    using login_dispatch [OF free reg(1), of ?s] by simp
  from idle_worker_takes [OF q this] obtain sv2 where sv2: "worker_step E (post ?msg ?sv1) = Some (Handled True, sv2)"
      "sr_lobby sv2 = send_to ?s (reply ''Register'' success_body) W'"
    by blast
  have "lb_sent (sr_lobby sv2) = lb_sent (sr_lobby sv) @ [(?s, reply ''Register'' success_body)]"
    by (simp add: sv2(2) send_to_def reg(2) sent)
  moreover have "login_check ?name sid p (sr_lobby sv2) = Some (if p \<noteq> ?pw then Inl LOGIN_ERROR_NAME_PASSWD_ERROR
      else if get_server sid (sr_lobby sv2) = None then Inl LOGIN_ERROR_SERVER_NOT_SELECTED else Inr ai)" for sid p
    using ai by (simp add: login_check_def sv2(2) send_to_def get_server_def account_by_name_def)
  ultimately show ?thesis using packet ev sv2(1) by blast
qed

theorem client_login_registers_witness:
  "\<exists>W packet sv1 sv2 ai. server_init accepting = Some (W, Inr True) \<and> client_login plain_allocator (replicate MAX_BUFFER_SIZE 0) = Some (Inr packet)
    \<and> readable accepting 20 (lb_fresh W) [R_data packet] (accept_session (replicate MAX_BUFFER_SIZE 0) (boot W)) = Done sv1
    \<and> worker_step accepting sv1 = Some (Handled True, sv2)
    \<and> login_check (str ''ClientTest'') 2 (str ''wrong'') (sr_lobby sv2) = Some (Inl LOGIN_ERROR_NAME_PASSWD_ERROR)"
proof -
  let ?mem = "replicate MAX_BUFFER_SIZE 0 :: byte list"
  obtain W where W: "server_init accepting = Some (W, Inr True)" "account_by_name (str ''ClientTest'') W = None"
    by (simp add: server_init_def accounts_loadFromDB_def accepting_def lobby_execute_def lobby_rows_def table_queries_fit
        then_do_def returns_def Let_def account_by_name_def initial_lobby_def std_find_def)
  have b: "lb_fresh (sr_lobby (boot W)) = lb_fresh W" "sr_lobby (boot W) = W" "ring_entries (sr_queue (boot W)) = []"
      "Suc (sr_next (boot W)) < QUEUE_SIZE"
    by (simp_all add: boot_def new_first_lap QUEUE_SIZE_def)
  have ne: "str ''wrong'' \<noteq> str ''testpasswd''" by code_simp
  have "\<exists>packet sv1 sv2 ai. client_login plain_allocator ?mem = Some (Inr packet)
    \<and> readable accepting 20 (lb_fresh (sr_lobby (boot W))) [R_data packet] (accept_session ?mem (boot W)) = Done sv1
    \<and> worker_step accepting sv1 = Some (Handled True, sv2)
    \<and> lb_sent (sr_lobby sv2) = lb_sent (sr_lobby (boot W)) @ [(lb_fresh (sr_lobby (boot W)), reply ''Register'' success_body)]
    \<and> (\<forall>sid p. login_check (str ''ClientTest'') sid p (sr_lobby sv2) =
         Some (if p \<noteq> str ''testpasswd'' then Inl LOGIN_ERROR_NAME_PASSWD_ERROR
               else if get_server sid (sr_lobby sv2) = None then Inl LOGIN_ERROR_SERVER_NOT_SELECTED else Inr ai))"
    by (rule client_login_registers [OF plain_ok _ _ _ W(1) reachable.Start b(4,3)])
      (simp_all add: b(2) W(2) accepting_def)
  then show ?thesis using W(1) ne unfolding b(1) by auto
qed

end
