(* ===== verification/Ring_Threads.thy ===== *)
theory Ring_Threads
  imports Ring_Queue
begin

text \<open>
  The ring with its threads: the network thread calls \<open>push\<close>, the workers call \<open>pop\<close> (\<open>main.cpp\<close> starts as
  many as the variable \<open>thread_num\<close> of the environment says, one by default).  Here a call is not one step:
  each access to the shared counters and slots is, in the order of the program, and the steps of
  different threads interleave in any way.
\<close>

section \<open>Steps\<close>

text \<open>Where a thread is: outside, in a \<open>push\<close> that has drawn its slot, or in a \<open>pop\<close> before its next access.\<close>

datatype 'm control = Outside | Storing nat 'm | Testing nat | Advancing nat | Fetching nat

text \<open>The last three components record the messages pushed, the advances of the head and the messages popped.\<close>

record 'm ring_threads =
  rt_queue :: "'m ring_queue"
  rt_control :: "nat \<Rightarrow> 'm control"
  rt_tickets :: "'m list"
  rt_taken :: nat
  rt_popped :: "'m list"

definition threads_start :: "'m ring_threads" where
  "threads_start = \<lparr>rt_queue = new_ring, rt_control = (\<lambda>_. Outside), rt_tickets = [], rt_taken = 0, rt_popped = []\<rparr>"

definition go_on :: "nat \<Rightarrow> 'm control \<Rightarrow> 'm ring_threads \<Rightarrow> 'm ring_threads" where
  "go_on t c T = T\<lparr>rt_control := (rt_control T)(t := c)\<rparr>"

text \<open>\<open>push\<close> up to its atomic addition, and \<open>pop\<close> up to its first look at the head.\<close>

definition push_call :: "nat \<Rightarrow> 'm \<Rightarrow> 'm ring_threads \<Rightarrow> 'm ring_threads" where
  "push_call t msg T =
     (let q = rt_queue T; idx = unat (rq_tail q) mod length (rq_slots q)
      in go_on t (Storing idx msg) (T\<lparr>rt_queue := q\<lparr>rq_tail := rq_tail q + 1\<rparr>, rt_tickets := rt_tickets T @ [msg]\<rparr>))"

definition pop_call :: "nat \<Rightarrow> 'm ring_threads \<Rightarrow> 'm ring_threads" where
  "pop_call t T = (let q = rt_queue T in go_on t (Testing (unat (rq_head q) mod length (rq_slots q))) T)"

text \<open>The accesses that follow.  A \<open>pop\<close> reads its slot a second time for its result.\<close>

definition micro_step :: "nat \<Rightarrow> 'm ring_threads \<Rightarrow> 'm ring_threads" where
  "micro_step t T =
     (let q = rt_queue T
      in case rt_control T t of
           Outside \<Rightarrow> T
         | Storing idx msg \<Rightarrow> go_on t Outside (T\<lparr>rt_queue := q\<lparr>rq_slots := (rq_slots q)[idx := Some msg]\<rparr>\<rparr>)
         | Testing head \<Rightarrow> go_on t (if rq_slots q ! head = None then Outside else Advancing head) T
         | Advancing head \<Rightarrow> go_on t (Fetching head) (T\<lparr>rt_queue := q\<lparr>rq_head := rq_head q + 1\<rparr>, rt_taken := Suc (rt_taken T)\<rparr>)
         | Fetching head \<Rightarrow> go_on t Outside
             (case rq_slots q ! head of None \<Rightarrow> T | Some msg \<Rightarrow> T\<lparr>rt_popped := rt_popped T @ [msg]\<rparr>))"

text \<open>\<open>workers\<close> are the threads that pop; any other may push.\<close>

inductive thread_step :: "nat set \<Rightarrow> 'm ring_threads \<Rightarrow> 'm ring_threads \<Rightarrow> bool" for workers where
  Push_call: "t \<notin> workers \<Longrightarrow> rt_control T t = Outside \<Longrightarrow> thread_step workers T (push_call t msg T)"
| Pop_call: "t \<in> workers \<Longrightarrow> rt_control T t = Outside \<Longrightarrow> thread_step workers T (pop_call t T)"
| Micro: "rt_control T t \<noteq> Outside \<Longrightarrow> thread_step workers T (micro_step t T)"

abbreviation thread_run :: "nat set \<Rightarrow> 'm ring_threads \<Rightarrow> 'm ring_threads \<Rightarrow> bool" where
  "thread_run workers \<equiv> (thread_step workers)\<^sup>*\<^sup>*"

lemma run_on:
  "thread_run workers S T \<Longrightarrow> t \<notin> workers \<Longrightarrow> rt_control T t = Outside \<Longrightarrow> thread_run workers S (push_call t msg T)"
  "thread_run workers S T \<Longrightarrow> t \<in> workers \<Longrightarrow> rt_control T t = Outside \<Longrightarrow> thread_run workers S (pop_call t T)"
  "thread_run workers S T \<Longrightarrow> rt_control T t \<noteq> Outside \<Longrightarrow> thread_run workers S (micro_step t T)"
  by (blast intro: rtranclp.rtrancl_into_rtrancl Push_call Pop_call Micro)+

lemmas step_defs = push_call_def pop_call_def micro_step_def go_on_def Let_def

section \<open>Calls nobody disturbs\<close>

lemma push_alone:
  "rt_control T t = Outside \<Longrightarrow>
   micro_step t (push_call t msg T) = T\<lparr>rt_queue := ring_push msg (rt_queue T), rt_tickets := rt_tickets T @ [msg]\<rparr>"
  by (simp add: step_defs ring_push_def fun_upd_idem)

lemma pop_alone:
  assumes "rt_control T t = Outside"
  shows "ring_pop (rt_queue T) = (None, q) \<Longrightarrow> micro_step t (pop_call t T) = T"
    and "ring_pop (rt_queue T) = (Some msg, q) \<Longrightarrow>
      micro_step t (micro_step t (micro_step t (pop_call t T)))
        = T\<lparr>rt_queue := q, rt_taken := Suc (rt_taken T), rt_popped := rt_popped T @ [msg]\<rparr>"
  using assms by (auto simp: step_defs ring_pop_def fun_upd_idem split: option.splits)

section \<open>The slots\<close>

text \<open>In the first lap every slot belongs to the message that drew it, and is filled when its thread has stored.\<close>

definition slots_inv :: "'m ring_threads \<Rightarrow> bool" where
  "slots_inv T \<longleftrightarrow> length (rt_tickets T) < QUEUE_SIZE \<and> length (rq_slots (rt_queue T)) = QUEUE_SIZE
     \<and> rq_tail (rt_queue T) = of_nat (length (rt_tickets T)) \<and> rq_head (rt_queue T) = of_nat (rt_taken T)
     \<and> (\<forall>i < QUEUE_SIZE. \<forall>msg. rq_slots (rt_queue T) ! i = Some msg \<longrightarrow> i < length (rt_tickets T) \<and> rt_tickets T ! i = msg)
     \<and> (\<forall>i < length (rt_tickets T). rq_slots (rt_queue T) ! i = None \<longrightarrow> (\<exists>t. rt_control T t = Storing i (rt_tickets T ! i)))
     \<and> (\<forall>t i msg. rt_control T t = Storing i msg \<longrightarrow> i < length (rt_tickets T) \<and> rt_tickets T ! i = msg)"

lemma start_slots: "slots_inv threads_start"
  by (simp add: slots_inv_def threads_start_def new_ring_def QUEUE_SIZE_def)

lemma counter_small: "n < QUEUE_SIZE \<Longrightarrow> unat (of_nat n :: i64) mod QUEUE_SIZE = n"
  by (simp add: QUEUE_SIZE_def unat_of_nat)

lemma step_grows: "thread_step workers T T' \<Longrightarrow> length (rt_tickets T) \<le> length (rt_tickets T') \<and> rt_taken T \<le> rt_taken T'"
  by (induction rule: thread_step.induct) (auto simp: step_defs split: control.splits option.splits)

lemma run_grows: "thread_run workers T T' \<Longrightarrow> length (rt_tickets T) \<le> length (rt_tickets T') \<and> rt_taken T \<le> rt_taken T'"
  by (induction rule: rtranclp_induct) (auto dest: step_grows)

lemma slotsD:
  assumes "slots_inv T"
  shows "length (rt_tickets T) < QUEUE_SIZE" "length (rq_slots (rt_queue T)) = QUEUE_SIZE"
    "rq_tail (rt_queue T) = of_nat (length (rt_tickets T))" "rq_head (rt_queue T) = of_nat (rt_taken T)"
    "\<And>i msg. i < QUEUE_SIZE \<Longrightarrow> rq_slots (rt_queue T) ! i = Some msg \<Longrightarrow> i < length (rt_tickets T) \<and> rt_tickets T ! i = msg"
    "\<And>i. i < length (rt_tickets T) \<Longrightarrow> rq_slots (rt_queue T) ! i = None \<Longrightarrow> \<exists>t. rt_control T t = Storing i (rt_tickets T ! i)"
    "\<And>t i msg. rt_control T t = Storing i msg \<Longrightarrow> i < length (rt_tickets T) \<and> rt_tickets T ! i = msg"
  using assms by (simp_all add: slots_inv_def)

lemma push_slots:
  assumes "slots_inv T" "rt_control T t = Outside" "Suc (length (rt_tickets T)) < QUEUE_SIZE"
  shows "slots_inv (push_call t msg T)"
proof -
  note inv = slotsD [OF assms(1)]
  let ?n = "length (rt_tickets T)"
  have call: "push_call t msg T = T\<lparr>rt_queue := (rt_queue T)\<lparr>rq_tail := of_nat ?n + 1\<rparr>,
      rt_control := (rt_control T)(t := Storing ?n msg), rt_tickets := rt_tickets T @ [msg]\<rparr>"
    using inv(1-3) counter_small [of ?n] by (simp add: step_defs)
  have filled: "i < Suc ?n \<and> (rt_tickets T @ [msg]) ! i = m" if "i < QUEUE_SIZE" "rq_slots (rt_queue T) ! i = Some m" for i m
    using inv(5) [OF that] by (simp add: nth_append)
  have empty: "\<exists>t'. ((rt_control T)(t := Storing ?n msg)) t' = Storing i ((rt_tickets T @ [msg]) ! i)"
    if i: "i < Suc ?n" "rq_slots (rt_queue T) ! i = None" for i
  proof (cases "i = ?n")
    case False
    then obtain t' where "rt_control T t' = Storing i (rt_tickets T ! i)" using inv(6) [of i] i by auto
    then show ?thesis using False i assms(2) by (intro exI [of _ t']) (auto simp: nth_append)
  qed auto
  have storing: "i < Suc ?n \<and> (rt_tickets T @ [msg]) ! i = m" if "((rt_control T)(t := Storing ?n msg)) t' = Storing i m" for t' i m
    using that inv(7) [of t' i m] by (auto simp: nth_append split: if_splits)
  show ?thesis
    unfolding call slots_inv_def using inv(1,2,4) assms(3) filled empty storing by simp
qed

text \<open>Steps that neither draw nor store.\<close>

lemma same_slots:
  assumes "slots_inv T" "rt_tickets T' = rt_tickets T" "rq_slots (rt_queue T') = rq_slots (rt_queue T)"
    and "rq_tail (rt_queue T') = rq_tail (rt_queue T)" "rq_head (rt_queue T') = of_nat (rt_taken T')"
    and "\<And>u i msg. (rt_control T' u = Storing i msg) = (rt_control T u = Storing i msg)"
  shows "slots_inv T'"
  using assms(1) unfolding slots_inv_def assms(2-6) by blast

lemma micro_slots:
  assumes "slots_inv T"
  shows "slots_inv (micro_step t T)"
proof (cases "rt_control T t")
  case (Storing i msg)
  note inv = slotsD [OF assms]
  have i: "i < length (rt_tickets T)" "rt_tickets T ! i = msg" using inv(7) [OF Storing] by simp_all
  let ?slots = "(rq_slots (rt_queue T))[i := Some msg]" and ?control = "(rt_control T)(t := Outside)"
  have step: "micro_step t T = T\<lparr>rt_queue := (rt_queue T)\<lparr>rq_slots := ?slots\<rparr>, rt_control := ?control\<rparr>"
    by (simp add: step_defs Storing)
  have filled: "j < length (rt_tickets T) \<and> rt_tickets T ! j = m" if "j < QUEUE_SIZE" "?slots ! j = Some m" for j m
    using that inv(2) inv(5) [of j m] i by (cases "j = i") auto
  have empty: "\<exists>t'. ?control t' = Storing j (rt_tickets T ! j)" if j: "j < length (rt_tickets T)" "?slots ! j = None" for j
  proof -
    have "j \<noteq> i" using j inv(1,2) by auto
    then obtain t' where "rt_control T t' = Storing j (rt_tickets T ! j)" using inv(6) [of j] j by auto
    then show ?thesis using Storing \<open>j \<noteq> i\<close> by (intro exI [of _ t']) auto
  qed
  have storing: "j < length (rt_tickets T) \<and> rt_tickets T ! j = m" if "?control t' = Storing j m" for t' j m
    using that inv(7) [of t' j m] by (auto split: if_splits)
  show ?thesis
    unfolding step slots_inv_def using inv(1-4) filled empty storing by simp
next
  case (Advancing i)
  then show ?thesis
    using slotsD(4) [OF assms] by (intro same_slots [OF assms]) (auto simp: step_defs)
qed (rule same_slots [OF assms]; use slotsD(4) [OF assms] in \<open>auto simp: step_defs split: option.splits\<close>)+

lemma pop_slots: "slots_inv T \<Longrightarrow> rt_control T t = Outside \<Longrightarrow> slots_inv (pop_call t T)"
  by (rule same_slots) (auto simp: step_defs slots_inv_def)

lemma step_slots:
  assumes "thread_step workers T T'" "slots_inv T" "length (rt_tickets T') < QUEUE_SIZE"
  shows "slots_inv T'"
  using assms
proof (induction rule: thread_step.induct)
  case (Push_call t T msg)
  have "length (rt_tickets (push_call t msg T)) = Suc (length (rt_tickets T))" by (simp add: step_defs)
  with Push_call show ?case by (intro push_slots) auto
qed (auto intro: micro_slots pop_slots)

section \<open>One worker\<close>

text \<open>What a single worker has delivered, at each of its accesses.\<close>

definition worker_inv :: "nat \<Rightarrow> 'm ring_threads \<Rightarrow> bool" where
  "worker_inv w T \<longleftrightarrow> rt_taken T \<le> length (rt_tickets T)
     \<and> (\<forall>t. t \<noteq> w \<longrightarrow> (case rt_control T t of Outside \<Rightarrow> True | Storing _ _ \<Rightarrow> True | _ \<Rightarrow> False))
     \<and> (case rt_control T w of
          Outside \<Rightarrow> rt_popped T = take (rt_taken T) (rt_tickets T)
        | Storing _ _ \<Rightarrow> False
        | Testing i \<Rightarrow> i = rt_taken T \<and> rt_popped T = take i (rt_tickets T)
        | Advancing i \<Rightarrow> i = rt_taken T \<and> rt_popped T = take i (rt_tickets T) \<and> rq_slots (rt_queue T) ! i \<noteq> None
        | Fetching i \<Rightarrow> Suc i = rt_taken T \<and> rt_popped T = take i (rt_tickets T) \<and> rq_slots (rt_queue T) ! i \<noteq> None)"

lemma start_worker: "worker_inv w threads_start"
  by (simp add: worker_inv_def threads_start_def)

lemma push_worker: "worker_inv w T \<Longrightarrow> t \<noteq> w \<Longrightarrow> worker_inv w (push_call t msg T)"
  by (auto simp: worker_inv_def step_defs split: control.splits)

lemma pop_worker:
  assumes "worker_inv w T" "slots_inv T" "rt_control T w = Outside"
  shows "worker_inv w (pop_call w T)"
proof -
  have "rt_taken T < QUEUE_SIZE" using assms(1) slotsD(1) [OF assms(2)] by (simp add: worker_inv_def)
  then show ?thesis
    using assms(1,3) slotsD(2,4) [OF assms(2)] counter_small [of "rt_taken T"] by (simp add: worker_inv_def step_defs)
qed

lemma filled_stays: "xs ! j = Some m \<Longrightarrow> \<exists>m'. xs[i := Some msg] ! j = Some m'"
proof (cases "i < length xs")
  case False
  then have "xs[i := Some msg] = xs" by (intro list_update_beyond) simp
  then show "xs ! j = Some m \<Longrightarrow> ?thesis" by simp
qed (cases "i = j"; simp)

lemma micro_worker:
  assumes "worker_inv w T" "slots_inv T" "rt_control T t \<noteq> Outside"
  shows "worker_inv w (micro_step t T)"
proof (cases "rt_control T t")
  case (Storing i msg)
  then have "t \<noteq> w" using assms(1) by (auto simp: worker_inv_def)
  then show ?thesis
    using assms(1) Storing by (auto simp: worker_inv_def step_defs intro: filled_stays split: control.splits)
next
  case (Testing i)
  then have "t = w" using assms(1) by (force simp: worker_inv_def)
  then show ?thesis using assms(1) Testing by (simp add: worker_inv_def step_defs)
next
  case (Advancing i)
  then have t: "t = w" using assms(1) by (force simp: worker_inv_def)
  then have "i < length (rt_tickets T)"
    using Advancing assms(1) slotsD(1) [OF assms(2)] slotsD(5) [OF assms(2), of i] by (auto simp: worker_inv_def)
  moreover have "i = rt_taken T" "rt_popped T = take i (rt_tickets T)" "rq_slots (rt_queue T) ! i \<noteq> None"
    using assms(1) Advancing t unfolding worker_inv_def by auto
  ultimately show ?thesis using assms(1) Advancing t by (simp add: worker_inv_def step_defs)
next
  case (Fetching i)
  then have t: "t = w" using assms(1) by (force simp: worker_inv_def)
  then obtain msg where m: "rq_slots (rt_queue T) ! i = Some msg" "Suc i = rt_taken T" "rt_popped T = take i (rt_tickets T)"
    using Fetching assms(1) by (auto simp: worker_inv_def)
  then have "i < length (rt_tickets T)" "rt_tickets T ! i = msg"
    using assms(1) slotsD(1) [OF assms(2)] slotsD(5) [OF assms(2), of i msg] by (auto simp: worker_inv_def)
  then have "rt_popped T @ [msg] = take (rt_taken T) (rt_tickets T)" using m(2,3) by (metis take_Suc_conv_app_nth)
  then show ?thesis
    using assms(1) Fetching t m(1) by (simp add: worker_inv_def step_defs)
qed (use assms(3) in simp)

lemma worker_run:
  assumes "thread_run {w} threads_start T" "length (rt_tickets T) < QUEUE_SIZE"
  shows "slots_inv T \<and> worker_inv w T"
  using assms
proof (induction rule: rtranclp_induct)
  case base
  show ?case by (simp add: start_slots start_worker)
next
  case (step T T')
  then have inv: "slots_inv T" "worker_inv w T" using step_grows [OF step(2)] by auto
  then have "slots_inv T'" using step_slots [OF step(2)] step(4) by blast
  moreover have "worker_inv w T'"
    using step(2) inv
    by (induction rule: thread_step.induct) (auto intro: push_worker pop_worker micro_worker)
  ultimately show ?case ..
qed

text \<open>What has been popped is a prefix, and a ring nobody is in holds the rest.\<close>

lemma worker_prefix:
  assumes "worker_inv w T"
  shows "rt_popped T = take (length (rt_popped T)) (rt_tickets T)"
proof -
  obtain k where "k \<le> length (rt_tickets T)" "rt_popped T = take k (rt_tickets T)"
  proof (cases "rt_control T w")
    case (Fetching i)
    then show ?thesis using assms by (intro that [of i]) (auto simp: worker_inv_def)
  qed (use assms in \<open>auto simp: worker_inv_def intro: that [of "rt_taken T"]\<close>)
  then show ?thesis by simp
qed

lemma quiescent_ring:
  assumes "slots_inv T" "worker_inv w T" and out: "\<And>t. rt_control T t = Outside"
  shows "first_lap (rt_queue T) \<and> rt_popped T @ ring_entries (rt_queue T) = rt_tickets T"
proof -
  let ?n = "length (rt_tickets T)" and ?slots = "rq_slots (rt_queue T)"
  have w: "rt_taken T \<le> ?n" "rt_popped T = take (rt_taken T) (rt_tickets T)"
    using assms(2) out by (auto simp: worker_inv_def)
  have u: "unat (rq_tail (rt_queue T)) = ?n" "unat (rq_head (rt_queue T)) = rt_taken T"
    using slotsD(1,3,4) [OF assms(1)] w(1) by (simp_all add: unat_of_nat QUEUE_SIZE_def)
  have full: "?slots ! i = Some (rt_tickets T ! i)" if "i < ?n" for i
  proof (cases "?slots ! i")
    case None
    then show ?thesis using slotsD(6) [OF assms(1) that] out by auto
  next
    case (Some msg)
    then show ?thesis using slotsD(5) [OF assms(1), of i msg] that slotsD(1) [OF assms(1)] by simp
  qed
  have "(?slots ! i = None) = (?n \<le> i)" if "i < QUEUE_SIZE" for i
    using full [of i] slotsD(5) [OF assms(1) that] by (cases "i < ?n"; cases "?slots ! i") auto
  then have "first_lap (rt_queue T)"
    using slotsD(1,2) [OF assms(1)] w(1) by (simp add: first_lap_def u)
  moreover have "take ?n ?slots = map Some (rt_tickets T)"
    using slotsD(1,2) [OF assms(1)] full by (intro nth_equalityI) auto
  then have "ring_entries (rt_queue T) = drop (rt_taken T) (rt_tickets T)"
    by (simp add: ring_entries_def u drop_map comp_def)
  ultimately show ?thesis using w(2) by simp
qed

section \<open>Calls that finish\<close>

text \<open>The accesses a thread has still to make.\<close>

primrec steps_left :: "'m control \<Rightarrow> nat" where
  "steps_left Outside = 0"
| "steps_left (Storing i msg) = 1"
| "steps_left (Testing i) = 3"
| "steps_left (Advancing i) = 2"
| "steps_left (Fetching i) = 1"

lemma micro_left:
  "rt_control T t \<noteq> Outside \<Longrightarrow> steps_left (rt_control (micro_step t T) t) < steps_left (rt_control T t)"
  "u \<noteq> t \<Longrightarrow> rt_control (micro_step t T) u = rt_control T u"
  "rt_tickets (micro_step t T) = rt_tickets T"
  by (cases "rt_control T t"; simp add: step_defs split: option.splits)+

lemma busy_threads: "thread_run workers threads_start T \<Longrightarrow> finite {t. rt_control T t \<noteq> Outside}"
proof (induction rule: rtranclp_induct)
  case base
  show ?case by (simp add: threads_start_def)
next
  case (step T T')
  have "{t. rt_control T' t \<noteq> Outside} \<subseteq> insert u {t. rt_control T t \<noteq> Outside}"
    if "\<And>t. t \<noteq> u \<Longrightarrow> rt_control T' t = rt_control T t" for u
  proof
    fix t assume "t \<in> {t. rt_control T' t \<noteq> Outside}"
    then show "t \<in> insert u {t. rt_control T t \<noteq> Outside}" using that [of t] by (cases "t = u") simp_all
  qed
  moreover have "\<exists>u. \<forall>t. t \<noteq> u \<longrightarrow> rt_control T' t = rt_control T t"
    using step(2)
  proof cases
    case (Push_call t msg)
    then show ?thesis by (intro exI [of _ t]) (simp add: push_call_def go_on_def Let_def)
  next
    case (Pop_call t)
    then show ?thesis by (intro exI [of _ t]) (simp add: pop_call_def go_on_def Let_def)
  next
    case (Micro t)
    then show ?thesis using micro_left(2) by (intro exI [of _ t]) blast
  qed
  ultimately show ?case using step(3) by (meson finite_insert finite_subset)
qed

lemma all_finish:
  assumes "finite B"
  shows "(\<And>t. t \<notin> B \<Longrightarrow> rt_control T t = Outside) \<Longrightarrow>
    \<exists>T'. thread_run workers T T' \<and> rt_tickets T' = rt_tickets T \<and> (\<forall>t. rt_control T' t = Outside)"
proof (induction "\<Sum>t\<in>B. steps_left (rt_control T t)" arbitrary: T rule: less_induct)
  case less
  show ?case
  proof (cases "\<exists>t. rt_control T t \<noteq> Outside")
    case True
    then obtain t where t: "rt_control T t \<noteq> Outside" by blast
    then have B: "t \<in> B" using less.prems by blast
    have "(\<Sum>u\<in>B. steps_left (rt_control (micro_step t T) u)) < (\<Sum>u\<in>B. steps_left (rt_control T u))"
      using micro_left(1) [OF t] micro_left(2) [of _ t T] B
      by (intro sum_strict_mono_ex1 assms ballI bexI [of _ t]) (metis less_imp_le order_refl, simp_all)
    moreover have "rt_control (micro_step t T) u = Outside" if "u \<notin> B" for u
      using less.prems that B micro_left(2) [of u t T] by (metis)
    ultimately obtain T' where "thread_run workers (micro_step t T) T'" "rt_tickets T' = rt_tickets T" "\<forall>t. rt_control T' t = Outside"
      using less.hyps [of "micro_step t T"] by (auto simp: micro_left(3))
    then show ?thesis by (meson Micro [OF t] converse_rtranclp_into_rtranclp)
  qed blast
qed

lemma worker_drains:
  "first_lap (rt_queue T) \<Longrightarrow> (\<And>t. rt_control T t = Outside) \<Longrightarrow>
    \<exists>T'. thread_run {w} T T' \<and> rt_tickets T' = rt_tickets T \<and> rt_popped T' = rt_popped T @ ring_entries (rt_queue T)"
proof (induction "ring_entries (rt_queue T)" arbitrary: T)
  case Nil
  then show ?case by (intro exI [of _ T]) simp
next
  case (Cons msg ms)
  obtain q where q: "ring_pop (rt_queue T) = (Some msg, q)" "first_lap q" "ring_entries q = ms"
    using pop_first_lap(2) [OF Cons.prems(1) Cons.hyps(2) [symmetric]] by (metis prod.collapse)
  let ?T = "T\<lparr>rt_queue := q, rt_taken := Suc (rt_taken T), rt_popped := rt_popped T @ [msg]\<rparr>"
  have out: "rt_control T w = Outside" by (rule Cons.prems(2))
  have slot: "rq_slots (rt_queue T) ! (unat (rq_head (rt_queue T)) mod length (rq_slots (rt_queue T))) = Some msg"
    using q(1) by (simp add: ring_pop_def Let_def split: option.splits)
  have "rt_control (pop_call w T) w \<noteq> Outside" "rt_control (micro_step w (pop_call w T)) w \<noteq> Outside"
      "rt_control (micro_step w (micro_step w (pop_call w T))) w \<noteq> Outside"
    by (simp_all add: step_defs slot)
  then have "thread_run {w} T (micro_step w (micro_step w (micro_step w (pop_call w T))))"
    by (intro run_on(3) run_on(2) rtranclp.rtrancl_refl) (simp_all add: out)
  then have run: "thread_run {w} T ?T" unfolding pop_alone(2) [OF out q(1)] .
  obtain T' where "thread_run {w} ?T T'" "rt_tickets T' = rt_tickets T" "rt_popped T' = (rt_popped T @ [msg]) @ ms"
    using Cons.hyps(1) [of ?T] q(2,3) Cons.prems(2) by auto
  then show ?case using run Cons.hyps(2) by (metis append.assoc append_Cons append_Nil rtranclp_trans)
qed

section \<open>Several workers\<close>

text \<open>Once the head has passed slot 1, whatever is in it is not delivered in this lap.\<close>

definition passed_inv :: "'m \<Rightarrow> 'm ring_threads \<Rightarrow> bool" where
  "passed_inv a T \<longleftrightarrow> 2 \<le> rt_taken T \<and> set (rt_popped T) \<subseteq> insert a (set (drop 2 (rt_tickets T)))
     \<and> (\<forall>t. case rt_control T t of
           Testing i \<Rightarrow> 2 \<le> i \<and> i < QUEUE_SIZE
         | Advancing i \<Rightarrow> 2 \<le> i \<and> i < QUEUE_SIZE
         | Fetching i \<Rightarrow> 2 \<le> i \<and> i < QUEUE_SIZE
         | _ \<Rightarrow> True)"

lemma passed_fetch:
  assumes "slots_inv T" "2 \<le> i" "i < QUEUE_SIZE" "rq_slots (rt_queue T) ! i = Some msg"
  shows "msg \<in> set (drop 2 (rt_tickets T))"
proof -
  have i: "i < length (rt_tickets T)" "rt_tickets T ! i = msg" using slotsD(5) [OF assms(1,3,4)] by simp_all
  moreover obtain k where "i = 2 + k" using assms(2) le_Suc_ex by blast
  ultimately have "drop 2 (rt_tickets T) ! k = msg" "k < length (drop 2 (rt_tickets T))" by simp_all
  then show ?thesis by (metis nth_mem)
qed

lemma passed_step:
  assumes "thread_step workers T T'" "passed_inv a T" "slots_inv T" "rt_taken T < QUEUE_SIZE"
  shows "passed_inv a T'"
  using assms
proof (induction rule: thread_step.induct)
  case (Push_call t T msg)
  then show ?case by (auto simp: passed_inv_def step_defs split: control.splits)
next
  case (Pop_call t T)
  then have "unat (rq_head (rt_queue T)) mod length (rq_slots (rt_queue T)) = rt_taken T"
    using slotsD(2,4) [OF Pop_call(4)] counter_small [of "rt_taken T"] by simp
  with Pop_call show ?case by (auto simp: passed_inv_def step_defs split: control.splits)
next
  case (Micro T t)
  have at_t: "case rt_control T t of Testing i \<Rightarrow> 2 \<le> i \<and> i < QUEUE_SIZE | Advancing i \<Rightarrow> 2 \<le> i \<and> i < QUEUE_SIZE
      | Fetching i \<Rightarrow> 2 \<le> i \<and> i < QUEUE_SIZE | _ \<Rightarrow> True"
    using Micro(2) by (simp add: passed_inv_def)
  show ?case
  proof (cases "rt_control T t")
    case (Fetching i)
    then have "rq_slots (rt_queue T) ! i = Some msg \<Longrightarrow> msg \<in> set (drop 2 (rt_tickets T))" for msg
      using at_t passed_fetch [OF Micro(3), of i msg] by simp
    then show ?thesis using Micro(2) Fetching by (auto simp: passed_inv_def step_defs split: option.splits)
  qed (use Micro(2) at_t in \<open>auto simp: passed_inv_def step_defs\<close>)
qed

lemma passed_run:
  assumes "thread_run workers T T'" "passed_inv a T" "slots_inv T" "length (rt_tickets T') < QUEUE_SIZE" "rt_taken T' < QUEUE_SIZE"
  shows "passed_inv a T' \<and> slots_inv T'"
  using assms
proof (induction rule: rtranclp_induct)
  case (step T1 T2)
  have "length (rt_tickets T1) < QUEUE_SIZE" "rt_taken T1 < QUEUE_SIZE" using step_grows [OF step(2)] step(6,7) by auto
  with step.IH step(4,5) have "passed_inv a T1" "slots_inv T1" by auto
  then show ?case using passed_step [OF step(2)] step_slots [OF step(2)] step(6) \<open>rt_taken T1 < QUEUE_SIZE\<close> by blast
qed simp

lemma small_slots: "0 < QUEUE_SIZE" "Suc 0 < QUEUE_SIZE" "Suc 0 mod QUEUE_SIZE = Suc 0" "QUEUE_SIZE \<noteq> Suc 0"
  by (simp_all add: QUEUE_SIZE_def)

text \<open>Two workers look at the first slot at the same time.\<close>

definition raced :: "'m \<Rightarrow> 'm ring_threads" where
  "raced a = micro_step 2 (micro_step 1 (micro_step 2 (micro_step 1 (micro_step 2 (micro_step 1
     (pop_call 2 (pop_call 1 (micro_step 0 (push_call 0 a threads_start)))))))))"

lemma raced_state:
  "raced a = \<lparr>rt_queue = new_ring\<lparr>rq_tail := 1, rq_head := 2, rq_slots := (replicate QUEUE_SIZE None)[0 := Some a]\<rparr>,
     rt_control = (\<lambda>_. Outside), rt_tickets = [a], rt_taken = 2, rt_popped = [a, a]\<rparr>"
  by (simp add: raced_def step_defs threads_start_def new_ring_def fun_eq_iff small_slots)

lemma raced_run:
  assumes "1 \<in> workers" "2 \<in> workers" "0 \<notin> workers"
  shows "thread_run workers threads_start (raced a)"
proof -
  have "thread_run workers threads_start (push_call 0 a threads_start)"
    using assms by (intro run_on(1)) (simp_all add: threads_start_def)
  then show ?thesis
    unfolding raced_def using assms
    by (intro run_on(2,3)) (simp_all add: step_defs threads_start_def new_ring_def small_slots)
qed

text \<open>The message after a race is not delivered, whatever the threads do.\<close>

lemma raced_skips:
  assumes "thread_run workers (raced a) T" "rt_tickets T = a # b # ms" "b \<notin> set (a # ms)"
    and "length (rt_tickets T) < QUEUE_SIZE" "rt_taken T < QUEUE_SIZE"
  shows "b \<notin> set (rt_popped T)"
proof -
  have "slots_inv (raced a)" "passed_inv a (raced a)"
    by (simp_all add: raced_state slots_inv_def passed_inv_def new_ring_def QUEUE_SIZE_def nth_list_update)
  then have "passed_inv a T" using passed_run [OF assms(1)] assms(4,5) by blast
  then show ?thesis using assms(2,3) by (auto simp: passed_inv_def)
qed

section \<open>Properties\<close>

text \<open>
  C16. With one worker, the default, the queue is right under every interleaving of single accesses, with any
  number of threads that push: as long as fewer than \<open>QUEUE_SIZE\<close> messages have been pushed, what
  has been popped is a prefix of what was pushed, in the order of the tickets drawn, and when no call is
  under way the ring holds the rest.
\<close>
theorem one_worker_in_order:
  assumes "thread_run {w} threads_start T" "length (rt_tickets T) < QUEUE_SIZE"
  shows "rt_popped T = take (length (rt_popped T)) (rt_tickets T)
    \<and> ((\<forall>t. rt_control T t = Outside) \<longrightarrow>
         first_lap (rt_queue T) \<and> rt_popped T @ ring_entries (rt_queue T) = rt_tickets T)"
  using worker_run [OF assms] worker_prefix quiescent_ring by blast

text \<open>The worker tests the first slot while two threads have drawn tickets; the second to draw stores first.\<close>

theorem one_worker_in_order_witness:
  "\<exists>T. thread_run {9} threads_start T \<and> rt_tickets T = [1, 2] \<and> rt_popped T = [1 :: nat] \<and> ring_entries (rt_queue T) = [2]"
proof -
  let ?A = "micro_step 1 (push_call 1 2 (push_call 0 (1 :: nat) threads_start))"
  let ?T = "micro_step 9 (micro_step 9 (micro_step 9 (pop_call 9 (micro_step 0 (micro_step 9 (pop_call 9 ?A))))))"
  have "thread_run {9} threads_start (push_call 0 (1 :: nat) threads_start)"
    by (rule run_on) (simp_all add: threads_start_def)
  then have run: "thread_run {9} threads_start ?T"
    by (intro run_on) (simp_all add: step_defs threads_start_def new_ring_def small_slots)
  have T: "rt_tickets ?T = [1, 2]" "rt_popped ?T = [1]" "\<And>t. rt_control ?T t = Outside"
    by (simp_all add: step_defs threads_start_def new_ring_def small_slots)
  show ?thesis using one_worker_in_order [OF run] run T by (auto simp: QUEUE_SIZE_def)
qed

text \<open>
  C17. One worker is enough: from every state that the threads can reach in the first lap, they can go on so
  that, with nothing more pushed, every message whose push has begun is delivered.
\<close>
theorem one_worker_drains:
  assumes "thread_run {w} threads_start T" "length (rt_tickets T) < QUEUE_SIZE"
  shows "\<exists>T'. thread_run {w} T T' \<and> rt_tickets T' = rt_tickets T \<and> rt_popped T' = rt_tickets T"
proof -
  obtain T1 where T1: "thread_run {w} T T1" "rt_tickets T1 = rt_tickets T" "\<And>t. rt_control T1 t = Outside"
    using all_finish [OF busy_threads [OF assms(1)], of T "{w}"] by auto
  have run: "thread_run {w} threads_start T1" using assms(1) T1(1) by (rule rtranclp_trans)
  have "slots_inv T1" "worker_inv w T1" using worker_run [OF run] assms(2) T1(2) by simp_all
  from quiescent_ring [OF this T1(3)] worker_drains [of T1 w, OF _ T1(3)] T1(1,2) show ?thesis
    by (metis rtranclp_trans)
qed

text \<open>A push that has drawn its ticket but not stored, and a worker that has found nothing there.\<close>

theorem one_worker_drains_witness:
  "\<exists>T T'. thread_run {9} threads_start T \<and> rt_control T 0 = Storing 0 (5 :: nat) \<and> thread_run {9} T T' \<and> rt_popped T' = [5]"
proof -
  let ?T = "micro_step 9 (pop_call 9 (push_call 0 (5 :: nat) threads_start))"
  have "thread_run {9} threads_start (push_call 0 (5 :: nat) threads_start)"
    by (rule run_on) (simp_all add: threads_start_def)
  then have run: "thread_run {9} threads_start ?T"
    by (intro run_on) (simp_all add: step_defs threads_start_def new_ring_def small_slots)
  have T: "rt_tickets ?T = [5]" "rt_control ?T 0 = Storing 0 5"
    by (simp_all add: step_defs threads_start_def new_ring_def small_slots)
  show ?thesis using one_worker_drains [OF run] run T by (auto simp: QUEUE_SIZE_def)
qed

end
