(* ===== verification/Protobuf.thy ===== *)
theory Protobuf
  imports Packet
begin

text \<open>
  \<open>protocol/protobuf.cpp\<close>: a block of 4096 bytes with a cursor for reading and one for writing.  No
  function looks at the bounds; an access outside the block is \<open>None\<close>.
\<close>

section \<open>Operations\<close>

record protobuf =
  pb_read :: int
  pb_write :: int
  pb_data :: "byte list"

definition PB_SIZE :: nat where "PB_SIZE = 2048 * 2"

text \<open>The global \<open>protobuf\<close> before the program starts.\<close>

definition the_protobuf :: protobuf where
  "the_protobuf = \<lparr>pb_read = 0, pb_write = 0, pb_data = replicate PB_SIZE 0\<rparr>"

definition pb_read_byte :: "protobuf \<Rightarrow> (byte \<times> protobuf) option" where
  "pb_read_byte buf = do {
     c \<leftarrow> rd (pb_data buf) (pb_read buf);
     Some (c, buf\<lparr>pb_read := pb_read buf + 1\<rparr>)
   }"

definition pb_read_short :: "protobuf \<Rightarrow> (16 word \<times> protobuf) option" where
  "pb_read_short buf = do {
     p \<leftarrow> rdn (pb_data buf) (pb_read buf) 2;
     Some (of_mem16 p, buf\<lparr>pb_read := pb_read buf + 2\<rparr>)
   }"

definition pb_read_int32 :: "protobuf \<Rightarrow> (i32 \<times> protobuf) option" where
  "pb_read_int32 buf = do {
     p \<leftarrow> rdn (pb_data buf) (pb_read buf) 4;
     Some (of_mem32 p, buf\<lparr>pb_read := pb_read buf + 4\<rparr>)
   }"

definition pb_read_int64 :: "protobuf \<Rightarrow> (i64 \<times> protobuf) option" where
  "pb_read_int64 buf = do {
     p \<leftarrow> rdn (pb_data buf) (pb_read buf) 8;
     Some (of_mem64 p, buf\<lparr>pb_read := pb_read buf + 8\<rparr>)
   }"

text \<open>
  \<open>recvbuf\<close> is a block of the caller.  \<open>len\<close> is an \<open>int\<close> that \<open>memcpy\<close> takes as a \<open>size_t\<close>: a negative one is
  larger than any block.
\<close>

definition pb_read_string :: "protobuf \<Rightarrow> byte list \<Rightarrow> int \<Rightarrow> (byte list \<times> protobuf) option" where
  "pb_read_string buf recvbuf len =
     (if len < 0 then None
      else do {
        p \<leftarrow> rdn (pb_data buf) (pb_read buf) (nat len);
        recvbuf \<leftarrow> blit recvbuf 0 p;
        Some (recvbuf, buf\<lparr>pb_read := pb_read buf + len\<rparr>)
      })"

definition pb_read_string2 :: "protobuf \<Rightarrow> byte list \<Rightarrow> (byte list \<times> protobuf) option" where
  "pb_read_string2 buf recvbuf = do {
     (string_len, buf) \<leftarrow> pb_read_short buf;
     pb_read_string buf recvbuf (sint string_len)
   }"

text \<open>\<open>memcpy\<close> to the cursor.\<close>

definition pb_put :: "byte list \<Rightarrow> protobuf \<Rightarrow> protobuf option" where
  "pb_put xs buf =
     (if pb_write buf < 0 then None
      else do {
        block \<leftarrow> blit (pb_data buf) (nat (pb_write buf)) xs;
        Some (buf\<lparr>pb_data := block, pb_write := pb_write buf + int (length xs)\<rparr>)
      })"

definition pb_write_byte :: "protobuf \<Rightarrow> byte \<Rightarrow> protobuf option" where
  "pb_write_byte buf c = pb_put [c] buf"

definition pb_write_short :: "protobuf \<Rightarrow> 16 word \<Rightarrow> protobuf option" where
  "pb_write_short buf val = pb_put (mem16 val) buf"

definition pb_write_int32 :: "protobuf \<Rightarrow> i32 \<Rightarrow> protobuf option" where
  "pb_write_int32 buf val = pb_put (mem32 val) buf"

definition pb_write_int64 :: "protobuf \<Rightarrow> i64 \<Rightarrow> protobuf option" where
  "pb_write_int64 buf val = pb_put (mem64 val) buf"

section \<open>What is written is read back\<close>

datatype pb_field = F_byte byte | F_short "16 word" | F_int32 i32 | F_int64 i64 | F_string "byte list"

text \<open>There is no function that writes a string: its length goes first, then its bytes one by one.\<close>

fun write_bytes :: "byte list \<Rightarrow> protobuf \<Rightarrow> protobuf option" where
  "write_bytes [] buf = Some buf"
| "write_bytes (c # cs) buf = do { buf \<leftarrow> pb_write_byte buf c; write_bytes cs buf }"

fun write_fields :: "pb_field list \<Rightarrow> protobuf \<Rightarrow> protobuf option" where
  "write_fields [] buf = Some buf"
| "write_fields (f # fs) buf = do {
     buf \<leftarrow> (case f of
        F_byte c \<Rightarrow> pb_write_byte buf c
      | F_short v \<Rightarrow> pb_write_short buf v
      | F_int32 v \<Rightarrow> pb_write_int32 buf v
      | F_int64 v \<Rightarrow> pb_write_int64 buf v
      | F_string s \<Rightarrow> do { buf \<leftarrow> pb_write_short buf (of_nat (length s)); write_bytes s buf });
     write_fields fs buf
   }"

text \<open>A reader that expects the kinds of \<open>fs\<close>; a string goes into a fresh block of its length.\<close>

fun read_fields :: "pb_field list \<Rightarrow> protobuf \<Rightarrow> (pb_field list \<times> protobuf) option" where
  "read_fields [] buf = Some ([], buf)"
| "read_fields (f # fs) buf = do {
     (v, buf) \<leftarrow> (case f of
        F_byte _ \<Rightarrow> map_option (map_prod F_byte id) (pb_read_byte buf)
      | F_short _ \<Rightarrow> map_option (map_prod F_short id) (pb_read_short buf)
      | F_int32 _ \<Rightarrow> map_option (map_prod F_int32 id) (pb_read_int32 buf)
      | F_int64 _ \<Rightarrow> map_option (map_prod F_int64 id) (pb_read_int64 buf)
      | F_string s \<Rightarrow> map_option (map_prod F_string id) (pb_read_string2 buf (replicate (length s) 0)));
     (vs, buf) \<leftarrow> read_fields fs buf;
     Some (v # vs, buf)
   }"

fun field_bytes :: "pb_field \<Rightarrow> byte list" where
  "field_bytes (F_byte c) = [c]"
| "field_bytes (F_short v) = mem16 v"
| "field_bytes (F_int32 v) = mem32 v"
| "field_bytes (F_int64 v) = mem64 v"
| "field_bytes (F_string s) = mem16 (of_nat (length s)) @ s"

definition fields_bytes :: "pb_field list \<Rightarrow> byte list" where "fields_bytes fs = concat (map field_bytes fs)"

text \<open>The cursor for writing is in the block.\<close>

definition writable :: "protobuf \<Rightarrow> bool" where
  "writable buf \<longleftrightarrow> 0 \<le> pb_write buf \<and> pb_write buf \<le> int (length (pb_data buf))"

lemma put_nil: "writable buf \<Longrightarrow> pb_put [] buf = Some buf"
  by (auto simp: writable_def pb_put_def blit_def nat_le_iff)

lemma put_writable: "pb_put xs buf = Some buf' \<Longrightarrow> writable buf'"
  by (auto simp: writable_def pb_put_def blit_def split: if_splits)

lemma put_append: "pb_put (xs @ ys) buf = Option.bind (pb_put xs buf) (pb_put ys)"
proof (cases "pb_put xs buf")
  case None
  then show ?thesis by (auto simp: pb_put_def blit_def split: if_splits)
next
  case (Some b)
  let ?w = "nat (pb_write buf)"
  have w: "0 \<le> pb_write buf" "?w + length xs \<le> length (pb_data buf)"
    and b: "b = buf\<lparr>pb_data := take ?w (pb_data buf) @ xs @ drop (?w + length xs) (pb_data buf),
        pb_write := pb_write buf + int (length xs)\<rparr>"
    using Some by (auto simp: pb_put_def blit_def split: if_splits)
  have "nat (pb_write buf + int (length xs)) = ?w + length xs" using w(1) by (simp add: nat_add_distrib)
  then show ?thesis
    using w by (simp add: Some) (auto simp: b pb_put_def blit_def ac_simps)
qed

lemma put_fits:
  assumes "writable buf"
  shows "pb_put xs buf = None \<longleftrightarrow> int (length (pb_data buf)) < pb_write buf + int (length xs)"
  using assms by (auto simp: writable_def pb_put_def blit_def nat_less_iff)

lemma put_located:
  assumes "pb_put xs buf = Some buf'"
  shows "located (pb_data buf') (pb_write buf) xs" "pb_read buf' = pb_read buf"
proof -
  let ?w = "nat (pb_write buf)"
  have w: "0 \<le> pb_write buf" "?w + length xs \<le> length (pb_data buf)"
    and b: "buf' = buf\<lparr>pb_data := take ?w (pb_data buf) @ xs @ drop (?w + length xs) (pb_data buf),
        pb_write := pb_write buf + int (length xs)\<rparr>"
    using assms by (auto simp: pb_put_def blit_def split: if_splits)
  show "located (pb_data buf') (pb_write buf) xs"
    using w located_mid [of "take ?w (pb_data buf)" xs "drop (?w + length xs) (pb_data buf)"] by (simp add: b min_absorb2)
  show "pb_read buf' = pb_read buf" by (simp add: b)
qed

lemma write_bytes_put: "writable buf \<Longrightarrow> write_bytes s buf = pb_put s buf"
proof (induction s arbitrary: buf)
  case (Cons c cs)
  show ?case
    using put_append [of "[c]" cs buf] put_writable [of "[c]" buf] Cons.IH
    by (auto simp: pb_write_byte_def split: Option.bind_splits)
qed (simp add: put_nil)

lemma write_fields_put: "writable buf \<Longrightarrow> write_fields fs buf = pb_put (fields_bytes fs) buf"
proof (induction fs arbitrary: buf)
  case (Cons f fs)
  have "(case f of F_byte c \<Rightarrow> pb_write_byte buf c | F_short v \<Rightarrow> pb_write_short buf v | F_int32 v \<Rightarrow> pb_write_int32 buf v
      | F_int64 v \<Rightarrow> pb_write_int64 buf v | F_string s \<Rightarrow> do { buf \<leftarrow> pb_write_short buf (of_nat (length s)); write_bytes s buf })
      = pb_put (field_bytes f) buf"
  proof (cases f)
    case (F_string s)
    then show ?thesis
      using put_append [of "mem16 (of_nat (length s))" s buf] write_bytes_put put_writable
      by (auto simp: pb_write_short_def split: Option.bind_splits)
  qed (simp_all add: pb_write_byte_def pb_write_short_def pb_write_int32_def pb_write_int64_def)
  then show ?case
    using put_append [of "field_bytes f" "fields_bytes fs" buf] put_writable Cons.IH
    by (auto simp: fields_bytes_def split: Option.bind_splits)
qed (simp add: fields_bytes_def put_nil)

definition short_field :: "pb_field \<Rightarrow> bool" where
  "short_field f \<longleftrightarrow> (case f of F_string s \<Rightarrow> length s < 2 ^ 15 | _ \<Rightarrow> True)"

lemma length_mem16: "length (mem16 v) = 2" by (simp add: mem16_def)

lemma read_string_located:
  assumes "located (pb_data buf) (pb_read buf) (mem16 (of_nat (length s)) @ s)" "length s < 2 ^ 15"
  shows "pb_read_string2 buf (replicate (length s) 0) = Some (s, buf\<lparr>pb_read := pb_read buf + 2 + int (length s)\<rparr>)"
proof -
  have l: "located (pb_data buf) (pb_read buf) (mem16 (of_nat (length s)))" "located (pb_data buf) (pb_read buf + 2) s"
    using assms(1) by (simp_all add: located_append length_mem16)
  have n: "sint (of_nat (length s) :: 16 word) = int (length s)"
    using assms(2) by (simp add: sint_uint unsigned_of_nat take_bit_nat_eq_self signed_take_bit_int_eq_self flip: of_nat_take_bit)
  show ?thesis
    using rdn_located [OF l(1)] rdn_located [OF l(2)]
    by (simp add: pb_read_string2_def pb_read_short_def pb_read_string_def length_mem16 of_mem16_mem16 n blit_def)
qed

lemma read_fields_located:
  "located (pb_data buf) (pb_read buf) (fields_bytes fs) \<Longrightarrow> \<forall>f \<in> set fs. short_field f \<Longrightarrow>
   read_fields fs buf = Some (fs, buf\<lparr>pb_read := pb_read buf + int (length (fields_bytes fs))\<rparr>)"
proof (induction fs arbitrary: buf)
  case (Cons f fs)
  let ?n = "int (length (field_bytes f))"
  have l: "located (pb_data buf) (pb_read buf) (field_bytes f)" "located (pb_data buf) (pb_read buf + ?n) (fields_bytes fs)"
    using Cons.prems(1) by (simp_all add: fields_bytes_def located_append)
  have "(case f of
        F_byte _ \<Rightarrow> map_option (map_prod F_byte id) (pb_read_byte buf)
      | F_short _ \<Rightarrow> map_option (map_prod F_short id) (pb_read_short buf)
      | F_int32 _ \<Rightarrow> map_option (map_prod F_int32 id) (pb_read_int32 buf)
      | F_int64 _ \<Rightarrow> map_option (map_prod F_int64 id) (pb_read_int64 buf)
      | F_string s \<Rightarrow> map_option (map_prod F_string id) (pb_read_string2 buf (replicate (length s) 0)))
      = Some (f, buf\<lparr>pb_read := pb_read buf + ?n\<rparr>)"
  proof (cases f)
    case (F_byte c)
    then show ?thesis using rd_located l(1) by (simp add: pb_read_byte_def)
  next
    case (F_short v)
    then show ?thesis using rdn_located [OF l(1)] by (simp add: pb_read_short_def length_mem16 of_mem16_mem16)
  next
    case (F_int32 v)
    then show ?thesis using rdn_located [OF l(1)] by (simp add: pb_read_int32_def mem32_def flip: mem32_def)
  next
    case (F_int64 v)
    then show ?thesis using rdn_located [OF l(1)] by (simp add: pb_read_int64_def)
  next
    case (F_string s)
    then show ?thesis
      using read_string_located [of buf s] l(1) Cons.prems(2) by (simp add: length_mem16 short_field_def)
  qed
  then show ?case
    using Cons.IH [of "buf\<lparr>pb_read := pb_read buf + ?n\<rparr>"] l(2) Cons.prems(2)
    by (simp add: fields_bytes_def add.assoc)
qed (simp add: fields_bytes_def)

text \<open>
  Fields written at the cursor are read back from there, strings of less than 2\<open>^\<close>15 bytes included, if
  they fit; otherwise a write goes past the end of the block.
\<close>

lemma protobuf_round_trip:
  assumes "writable buf" "pb_read buf = pb_write buf" "\<forall>f \<in> set fs. short_field f"
  shows "if pb_write buf + int (length (fields_bytes fs)) \<le> int (length (pb_data buf))
    then \<exists>buf' buf''. write_fields fs buf = Some buf' \<and> read_fields fs buf' = Some (fs, buf'')
    else write_fields fs buf = None"
proof (cases "pb_put (fields_bytes fs) buf")
  case None
  then show ?thesis using put_fits [OF assms(1)] by (simp add: write_fields_put [OF assms(1)])
next
  case (Some buf')
  have "pb_write buf + int (length (fields_bytes fs)) \<le> int (length (pb_data buf))"
    using put_fits [OF assms(1), of "fields_bytes fs"] Some by simp
  then show ?thesis
    using read_fields_located [OF _ assms(3), of buf'] put_located [OF Some] assms(2) Some
    by (simp add: write_fields_put [OF assms(1)])
qed

text \<open>A length above 32767 comes back negative.\<close>

lemma long_string_is_lost:
  assumes "located (pb_data buf) (pb_read buf) (mem16 (of_nat n))" "2 ^ 15 \<le> n" "n < 2 ^ 16"
  shows "pb_read_string2 buf recvbuf = None"
proof -
  have "sint (of_nat n :: 16 word) < 0"
  proof -
    have "int n div 2 ^ 15 = 1" using assms(2,3) by (intro int_div_pos_eq [of _ _ _ "int n - 2 ^ 15"]) simp_all
    then have "signed_take_bit 15 (int n) < 0" by (simp add: bit_iff_odd)
    moreover have "uint (of_nat n :: 16 word) = int n" using assms(3) by (simp add: unsigned_of_nat take_bit_nat_eq_self)
    ultimately show ?thesis by (simp add: sint_uint)
  qed
  then show ?thesis
    using rdn_located [OF assms(1)]
    by (simp add: pb_read_string2_def pb_read_short_def pb_read_string_def length_mem16 of_mem16_mem16)
qed

end
