(* ===== verification/Replies.thy ===== *)
theory Replies
  imports Packet Lobby
begin

text \<open>
  The end of a handler: the reply is serialised to a fresh buffer, framed in place and written to the
  socket.  An object the server builds may hold arrays, and the buffer holds 8192 bytes.
\<close>

section \<open>Sending\<close>

definition send_object :: "allocator \<Rightarrow> byte list \<Rightarrow> bobject \<Rightarrow> (cxx_exception + byte list) option" where
  "send_object A mem response = and_then (serializeToBuffer A (new_buffer mem) response) (\<lambda>buf. do {
     buf \<leftarrow> packet_serialize buf;
     out \<leftarrow> sendData buf;
     Some (Inr out)
   })"

section \<open>Objects with arrays as documents\<close>

text \<open>The elements of an array are written with empty names.\<close>

fun sent_value :: "bvalue \<Rightarrow> bool" and sent_base :: "bvariant \<Rightarrow> bson_type \<Rightarrow> bool"
  and sent_object :: "bobject \<Rightarrow> bool" and sent_array :: "bvalue list \<Rightarrow> bool" where
  "sent_value (BValue x t) = (case t of None \<Rightarrow> False | Some t \<Rightarrow> sent_base x t)"
| "sent_base (V_int i) t = (t = BSON_INT)"
| "sent_base (V_bool x) t = (t = BSON_BOOL)"
| "sent_base (V_double d) t = (t = BSON_DOUBLE)"
| "sent_base (V_string s) t = (t = BSON_STRING \<and> 0 \<notin> set s \<and> utf8_accepted s)"
| "sent_base (V_date d) t = (t = BSON_DATE)"
| "sent_base (V_llong d) t = False"
| "sent_base (V_array vs) t = (t = BSON_ARRAY \<and> sent_array vs)"
| "sent_base (V_object obj) t = (t = BSON_OBJECT \<and> sent_object obj)"
| "sent_object [] = True"
| "sent_object ((k, v) # es) = (0 \<notin> set k \<and> utf8_accepted k \<and> sent_value v \<and> sent_object es)"
| "sent_array [] = True"
| "sent_array (v # vs) = (sent_value v \<and> sent_array vs)"

fun sent_val :: "bvalue \<Rightarrow> bson_val" and sent_variant :: "bvariant \<Rightarrow> bson_val"
  and sent_doc :: "bobject \<Rightarrow> bson_doc" and sent_items :: "bvalue list \<Rightarrow> bson_doc" where
  "sent_val (BValue x t) = sent_variant x"
| "sent_variant (V_int i) = VInt i"
| "sent_variant (V_bool x) = VBool x"
| "sent_variant (V_double d) = VDouble d"
| "sent_variant (V_string s) = VString s"
| "sent_variant (V_date d) = VDate d"
| "sent_variant (V_llong d) = VLong d"
| "sent_variant (V_array vs) = VArray (sent_items vs)"
| "sent_variant (V_object obj) = VObject (sent_doc obj)"
| "sent_doc [] = []"
| "sent_doc ((k, v) # es) = (k, sent_val v) # sent_doc es"
| "sent_items [] = []"
| "sent_items (v # vs) = ([], sent_val v) # sent_items vs"

lemma sent_document:
  "sent_value v \<Longrightarrow> val_ok (sent_val v) \<and> val_utf8 (sent_val v)"
  "sent_base x t \<Longrightarrow> val_ok (sent_variant x) \<and> val_utf8 (sent_variant x)"
  "sent_object es \<Longrightarrow> elems_ok (sent_doc es) \<and> doc_utf8 (sent_doc es)"
  "sent_array vs \<Longrightarrow> elems_ok (sent_items vs) \<and> doc_utf8 (sent_items vs)"
  by (induction v and x t and es and vs rule: sent_value_sent_base_sent_object_sent_array.induct)
    (auto split: option.splits intro: accepted_Nil)

text \<open>Two groups of calls, one after the other.\<close>

lemma calls_then:
  assumes "s = map_option (\<lambda>(_, b). Inr b) (api_run A b xs)"
    and "\<And>b1. s = Some (Inr b1) \<Longrightarrow> k b1 = map_option (\<lambda>(_, b). Inr b) (api_run A b1 ys)"
  shows "and_then s k = map_option (\<lambda>(_, b). Inr b) (api_run A b (xs @ ys))"
proof (cases "api_run A b xs")
  case None
  then show ?thesis by (simp add: assms(1) and_then_def api_run_append)
next
  case (Some r)
  obtain rs b1 where r: "r = (rs, b1)" by force
  then have "s = Some (Inr b1)" using Some assms(1) by simp
  with assms(2) [of b1] show ?thesis
    using Some r by (auto simp: and_then_def api_run_append split: Option.bind_splits)
qed

lemma serialize_sent:
  "sent_value v \<Longrightarrow> 0 \<notin> set key \<Longrightarrow>
     serializeValue A key v b = map_option (\<lambda>(_, b). Inr b) (api_run A b (val_calls key (sent_val v)))"
  "sent_object es \<Longrightarrow>
     serialize_object A es b = map_option (\<lambda>(_, b). Inr b) (api_run A b (doc_calls (sent_doc es)))"
  "sent_array vs \<Longrightarrow>
     serialize_array A vs b = map_option (\<lambda>(_, b). Inr b) (api_run A b (doc_calls (sent_items vs)))"
proof (induction A key v b and A es b and A vs b rule: serializeValue_serialize_object_serialize_array.induct)
  case (1 A key v b)
  then obtain x t where v: "v = BValue x (Some t)" "sent_base x t"
    by (cases v) (auto split: option.splits)
  show ?case
  proof (cases x)
    case (V_object obj)
    show ?thesis
    proof (cases "bson_append_start_object A b key")
      case (Some r)
      obtain st b1 where r: "r = (st, b1)" by force
      have "serialize_object A obj b1 = map_option (\<lambda>(_, b). Inr b) (api_run A b1 (doc_calls (sent_doc obj)))"
        using 1 v V_object Some r by (auto simp: get_object_def c_str_id put_ignore_def)
      with v 1 V_object Some r show ?thesis
        by (auto simp: c_str_id get_object_def with_get_def and_then_def put_ignore_def api_run_append
            split: Option.bind_splits option.splits)
    qed (use v 1 V_object in \<open>simp add: c_str_id put_ignore_def and_then_def\<close>)
  next
    case (V_array vs)
    show ?thesis
    proof (cases "bson_append_start_array A b key")
      case (Some r)
      obtain st b1 where r: "r = (st, b1)" by force
      have "serialize_array A vs b1 = map_option (\<lambda>(_, b). Inr b) (api_run A b1 (doc_calls (sent_items vs)))"
        using 1 v V_array Some r by (auto simp: get_array_def c_str_id put_ignore_def)
      with v 1 V_array Some r show ?thesis
        by (auto simp: c_str_id get_array_def with_get_def and_then_def put_ignore_def api_run_append
            split: Option.bind_splits option.splits)
    qed (use v 1 V_array in \<open>simp add: c_str_id put_ignore_def and_then_def\<close>)
  qed (use v 1 in \<open>simp_all add: c_str_id put_ignore_def with_get_def get_int_def get_bool_def
      get_double_def get_string_def get_date_def option.map_comp split: option.splits Option.bind_splits\<close>)
next
  case (3 A k v es b)
  have "serializeValue A k v b = map_option (\<lambda>(_, b). Inr b) (api_run A b (val_calls k (sent_val v)))"
    using 3(1,3) by simp
  from calls_then [OF this, of "serialize_object A es" "doc_calls (sent_doc es)"] show ?case using 3(2,3) by simp
next
  case (5 A v vs b)
  have "serializeValue A [] v b = map_option (\<lambda>(_, b). Inr b) (api_run A b (val_calls [] (sent_val v)))"
    using 5(1,3) by simp
  from calls_then [OF this, of "serialize_array A vs" "doc_calls (sent_items vs)"] show ?case using 5(2,3) by simp
qed simp_all

section \<open>The three sizes of a reply\<close>

lemma sent_size:
  assumes "b_data b' = Some m" "located m 0 (doc_bytes xs)" "int (length xs) + 5 \<le> max_doc"
  shows "bson_size b' = Some (int (length (doc_bytes xs)))" "size_t (int (length (doc_bytes xs))) = length xs + 5"
proof -
  have n: "int (length xs) + 5 \<le> INT_MAX" using assms(3) by (simp add: max_doc_def INT_MAX_def)
  then show "bson_size b' = Some (int (length (doc_bytes xs)))"
    using data_size_located [of m "to_int (length xs + 5)" "xs @ [0]"] assms(1,2)
    by (simp add: bson_size_def doc_bytes_def sint_to_int)
  show "size_t (int (length (doc_bytes xs))) = length xs + 5"
    using n by (simp add: size_t_def doc_bytes_def INT_MAX_def nat_plus_as_int)
qed

lemma serialize_reply:
  assumes "allocator_ok A" "allocator_total A" "sent_object obj" "buffer_inv buf" "m_write buf = 0"
    and "int (length (elems_bytes (sent_doc obj))) + 5 \<le> max_doc"
  shows "\<exists>buf'. serializeToBuffer A buf obj = Some (Inr buf') \<and> buffer_inv buf' \<and> m_read buf' = m_read buf
     \<and> pending buf' = pending buf @ (if length (elems_bytes (sent_doc obj)) + 5 < MAX_BUFFER_SIZE
         then doc_bytes (elems_bytes (sent_doc obj)) else [])"
proof -
  let ?xs = "elems_bytes (sent_doc obj)"
  let ?d = "doc_bytes ?xs"
  have doc: "elems_ok (sent_doc obj)" "doc_utf8 (sent_doc obj)" using sent_document(3) [OF assms(3)] by simp_all
  obtain b b' m where b: "api_run A (snd (bson_init A)) (doc_calls (sent_doc obj))
      = Some (replicate (length (doc_calls (sent_doc obj))) BSON_OK, b)"
    "bson_finish A b = Some (BSON_OK, b')" "b_data b' = Some m" "located m 0 ?d"
    by (rule build_doc [OF assms(1,2) doc assms(6)])
  note size = sent_size [OF b(3,4) assms(6)]
  have start: "serializeToBuffer A buf obj = (if MAX_BUFFER_SIZE \<le> length ?xs + 5 then Some (Inr buf)
      else map_option Inr (copyIn buf (Some m) (int (length ?d))))"
    using b(1-3) size serialize_sent(2) [OF assms(3), of A "snd (bson_init A)"]
    by (simp add: serializeToBuffer_def and_then_def del: length_doc_bytes)
  show ?thesis
  proof (cases "length ?xs + 5 < MAX_BUFFER_SIZE")
    case True
    have "unat (m_write buf) + length ?d < MAX_BUFFER_SIZE" using True assms(5) by simp
    then obtain buf' where buf': "copyIn buf (Some ?d) (int (length ?d)) = Some buf'" "buffer_inv buf'"
        "pending buf' = pending buf @ ?d" "m_read buf' = m_read buf"
      using copyIn_pending [OF assms(4)] by blast
    then have "copyIn buf (Some m) (int (length ?d)) = Some buf'"
      using copyIn_prefix [OF rdn_located [OF b(4)], of buf] by simp
    then show ?thesis using True start buf' by simp
  qed (use start assms(4) in simp)
qed

text \<open>
  Up to 8182 bytes the packet holds the document; from 8192 on the document is dropped and the packet is an empty
  frame; between them the frame is copied past the end of the buffer.
\<close>

lemma reply_sizes:
  assumes "allocator_ok A" "allocator_total A" "sent_object obj" "length mem = MAX_BUFFER_SIZE"
    and "int (length (elems_bytes (sent_doc obj))) + 5 \<le> max_doc"
  shows "send_object A mem obj =
    (let doc = doc_bytes (elems_bytes (sent_doc obj))
     in if length doc \<le> 8182 then Some (Inr (packet_of doc))
        else if length doc < MAX_BUFFER_SIZE then None
        else Some (Inr (packet_of [])))"
proof -
  let ?d = "doc_bytes (elems_bytes (sent_doc obj))"
  have fresh: "buffer_inv (new_buffer mem)" "pending (new_buffer mem) = []" "m_write (new_buffer mem) = 0"
      "m_read (new_buffer mem) = 0"
    using new_buffer_inv [of mem] assms(4) by (simp_all add: new_buffer_def)
  obtain buf where buf: "serializeToBuffer A (new_buffer mem) obj = Some (Inr buf)" "buffer_inv buf" "m_read buf = 0"
      "pending buf = (if length ?d < MAX_BUFFER_SIZE then ?d else [])"
    using serialize_reply [OF assms(1-3) fresh(1,3) assms(5)] fresh by auto
  have none: "packet_serialize buf = None" if "8182 < length (pending buf)"
    using frame_buffer [OF buf(2,3) refl] that by simp
  have some: "\<exists>b. packet_serialize buf = Some b \<and> sendData b = Some (packet_of (pending buf))" if "length (pending buf) \<le> 8182"
    by (rule send_frame [OF buf(2,3) refl that])
  consider "length ?d \<le> 8182" | "8182 < length ?d" "length ?d < MAX_BUFFER_SIZE" | "MAX_BUFFER_SIZE \<le> length ?d" by linarith
  then show ?thesis
  proof cases
    case 1
    then have "pending buf = ?d" by (simp add: buf(4) MAX_BUFFER_SIZE_def)
    with 1 some show ?thesis by (auto simp: send_object_def and_then_def buf(1) Let_def)
  next
    case 2
    then have "pending buf = ?d" by (simp add: buf(4))
    with 2 none show ?thesis by (simp add: send_object_def and_then_def buf(1) Let_def)
  next
    case 3
    then have "pending buf = []" by (simp add: buf(4))
    with 3 some show ?thesis by (auto simp: send_object_def and_then_def buf(1) Let_def MAX_BUFFER_SIZE_def)
  qed
qed

section \<open>The players of a scene\<close>

definition player_name :: "lobby \<Rightarrow> nat \<Rightarrow> byte list" where
  "player_name W s = (case session_roleInfo s W of
     Some (Some info) \<Rightarrow> (case lb_infos W info of Some ri \<Rightarrow> ri_roleName ri | None \<Rightarrow> []) | _ \<Rightarrow> [])"

definition others :: "int \<Rightarrow> (int, nat) std_map \<Rightarrow> nat list" where
  "others rid m = map snd (filter (\<lambda>e. fst e \<noteq> rid) m)"

lemma surrounding_sent:
  assumes "surrounding_object s W = Some obj" "0 \<notin> set (player_name W s)" "utf8_accepted (player_name W s)"
  shows "sent_object obj" "length (elems_bytes (sent_doc obj)) = 70 + length (player_name W s)"
proof -
  obtain info ri where ri: "session_roleInfo s W = Some (Some info)" "lb_infos W info = Some ri"
    "obj = obj_double ''Y'' (ri_posY ri) (obj_double ''X'' (ri_posX ri) (obj_int ''Level'' (ri_level ri)
       (obj_str ''Name'' (ri_roleName ri) (obj_int ''ProfessionId'' (ri_profession ri) (obj_int ''Id'' (ri_roleId ri) [])))))"
    using assms(1) by (auto simp: surrounding_object_def bind_eq_Some_conv)
  then have n: "player_name W s = ri_roleName ri" by (simp add: player_name_def)
  have keys: "utf8_accepted (str k)" "0 \<notin> set (str k)" if "k \<in> {''Id'', ''Level'', ''Name'', ''ProfessionId'', ''X'', ''Y''}" for k
    using that by (auto simp: str_def ascii_accepted)
  show "sent_object obj"
    using assms(2,3) unfolding ri(3) n
    by (simp add: obj_double_def obj_int_def obj_str_def setDoubleVal_def setIntVal_def setStringVal_def obj_insert_def str_def ascii_accepted)
  show "length (elems_bytes (sent_doc obj)) = 70 + length (player_name W s)"
    unfolding ri(3) n
    by (simp add: obj_double_def obj_int_def obj_str_def setDoubleVal_def setIntVal_def setStringVal_def obj_insert_def str_def string_body_def)
qed

definition scene_reply_size :: "lobby \<Rightarrow> nat list \<Rightarrow> nat" where
  "scene_reply_size W ss = 55 + (\<Sum>s\<leftarrow>ss. 77 + length (player_name W s))"

definition names_fine :: "lobby \<Rightarrow> nat list \<Rightarrow> bool" where
  "names_fine W ss \<longleftrightarrow> (\<forall>s \<in> set ss. 0 \<notin> set (player_name W s) \<and> utf8_accepted (player_name W s))"

lemma surroundings_sent:
  "those (map (\<lambda>s. surrounding_object s W) ss) = Some objs \<Longrightarrow> names_fine W ss \<Longrightarrow>
   sent_array (map obj_value objs)
   \<and> length (elems_bytes (sent_items (map obj_value objs))) = (\<Sum>s\<leftarrow>ss. 77 + length (player_name W s))"
proof (induction ss arbitrary: objs)
  case (Cons s ss)
  then obtain obj objs' where o: "surrounding_object s W = Some obj" "those (map (\<lambda>s. surrounding_object s W) ss) = Some objs'"
    "objs = obj # objs'"
    by (auto split: option.splits)
  have n: "0 \<notin> set (player_name W s)" "utf8_accepted (player_name W s)" "names_fine W ss" using Cons.prems(2) by (simp_all add: names_fine_def)
  show ?case
    using Cons.IH [OF o(2) n(3)] surrounding_sent [OF o(1) n(1,2)] by (simp add: o(3) obj_value_def)
qed simp

lemma scene_reply_sent:
  assumes "sent_array vs"
  shows "sent_object (reply ''SameUsers'' (obj_array ''SameUsers'' vs []))"
    "length (elems_bytes (sent_doc (reply ''SameUsers'' (obj_array ''SameUsers'' vs [])))) = 50 + length (elems_bytes (sent_items vs))"
  using assms
  by (simp_all add: reply_def obj_obj_def obj_str_def obj_array_def setObjectVal_def setStringVal_def setArrayVal_def obj_insert_def
      str_def string_body_def ascii_accepted)

section \<open>Properties\<close>

text \<open>
  C31. A player who enters a scene is sent the list of the others, and its size decides what arrives: each other
  player takes 77 bytes and the name.  Up to 8182 bytes the packet holds the list.  From 8192 bytes on, which is
  about a hundred players, the list is dropped and an empty frame is sent in its place.  Between the two the
  server writes behind its buffer.
\<close>
theorem scene_reply_size_decides:
  assumes "allocator_ok A" "allocator_total A" "length mem = MAX_BUFFER_SIZE"
    and "get_scene sid W = Some m" "sendSurrounding sid rid s W = Some W'"
    and "names_fine W (others rid m)" "int (scene_reply_size W (others rid m)) \<le> max_doc"
  shows "\<exists>response doc. lb_sent W' = lb_sent W @ [(s, response)] \<and> length doc = scene_reply_size W (others rid m)
    \<and> send_object A mem response =
        (if scene_reply_size W (others rid m) \<le> 8182 then Some (Inr (packet_of doc))
         else if scene_reply_size W (others rid m) < 8192 then None
         else Some (Inr (packet_of [])))"
proof -
  let ?ss = "others rid m"
  have "map (\<lambda>e. surrounding_object (snd e) W) (filter (\<lambda>e. fst e \<noteq> rid) m) = map (\<lambda>s. surrounding_object s W) ?ss"
    by (simp add: others_def comp_def)
  then obtain objs where objs: "those (map (\<lambda>s. surrounding_object s W) ?ss) = Some objs"
      "W' = send_to s (reply ''SameUsers'' (obj_array ''SameUsers'' (map obj_value objs) [])) W"
    using assms(4,5) by (auto simp: sendSurrounding_def bind_eq_Some_conv)
  let ?reply = "reply ''SameUsers'' (obj_array ''SameUsers'' (map obj_value objs) [])"
  note sent = surroundings_sent [OF objs(1) assms(6)]
  have size: "length (elems_bytes (sent_doc ?reply)) + 5 = scene_reply_size W ?ss"
    using scene_reply_sent(2) [of "map obj_value objs"] sent by (simp add: scene_reply_size_def)
  have "int (length (elems_bytes (sent_doc ?reply))) + 5 \<le> max_doc" using size assms(7) by linarith
  from reply_sizes [OF assms(1,2) scene_reply_sent(1) assms(3) this] sent
  have "send_object A mem ?reply =
      (if scene_reply_size W ?ss \<le> 8182 then Some (Inr (packet_of (doc_bytes (elems_bytes (sent_doc ?reply)))))
       else if scene_reply_size W ?ss < 8192 then None else Some (Inr (packet_of [])))"
    by (simp add: Let_def size MAX_BUFFER_SIZE_def)
  then show ?thesis
    by (intro exI [of _ ?reply] exI [of _ "doc_bytes (elems_bytes (sent_doc ?reply))"])
      (simp add: objs(2) send_to_def size)
qed

text \<open>98 players with names of six characters.\<close>

definition crowded_lobby :: lobby where
  "crowded_lobby = (initial_lobby [])\<lparr>lb_scenes := [(1, map (\<lambda>i. (int i, i)) [0..<98])],
     lb_sessions := (\<lambda>_. Some \<lparr>ss_role = Some 0, ss_open = True\<rparr>),
     lb_roles := (\<lambda>_. Some (new_role_object\<lparr>ro_info := Some 0\<rparr>)),
     lb_infos := (\<lambda>_. Some \<lparr>ri_roleId = 0, ri_level = 1, ri_profession = 1, ri_registerTime = 0, ri_roleName = str ''player'',
       ri_posX = 0, ri_posY = 0\<rparr>)\<rparr>"

theorem scene_reply_size_decides_witness:
  "\<exists>W' response. sendSurrounding 1 98 98 crowded_lobby = Some W' \<and> lb_sent W' = lb_sent crowded_lobby @ [(98, response)]
     \<and> send_object plain_allocator (replicate MAX_BUFFER_SIZE 0) response = None"
proof -
  let ?m = "map (\<lambda>i. (int i, i)) [0..<98]"
  have m: "get_scene 1 crowded_lobby = Some ?m" by (simp add: get_scene_def crowded_lobby_def std_find_def)
  have oth: "others 98 ?m = [0..<98]" by (simp add: others_def filter_map comp_def)
  have name: "player_name crowded_lobby s = str ''player''" for s
    by (simp add: player_name_def session_roleInfo_def crowded_lobby_def)
  have ex: "\<exists>obj. surrounding_object s crowded_lobby = Some obj" for s
    by (simp add: surrounding_object_def session_roleInfo_def crowded_lobby_def)
  have "those (map (\<lambda>s. surrounding_object s crowded_lobby) ss) \<noteq> None" for ss
    using ex by (induction ss) (auto split: option.split)
  from this [of "[0..<98]"] obtain objs where "those (map (\<lambda>s. surrounding_object s crowded_lobby) [0..<98]) = Some objs"
    by blast
  then obtain W' where W': "sendSurrounding 1 98 98 crowded_lobby = Some W'"
    using oth by (simp add: sendSurrounding_def m others_def comp_def)
  have size: "scene_reply_size crowded_lobby (others 98 ?m) = 8189"
    by (simp add: scene_reply_size_def oth name str_def sum_list_triv)
  have fine: "names_fine crowded_lobby (others 98 ?m)" by (simp add: names_fine_def name str_def ascii_accepted)
  have "int (scene_reply_size crowded_lobby (others 98 ?m)) \<le> max_doc" by (simp add: size max_doc_def)
  from scene_reply_size_decides [OF plain_ok length_replicate m W' fine this, of 0] W' size show ?thesis by auto
qed

end
