(* ===== verification/Restart.thy ===== *)
theory Restart
  imports Lobby_Facts
begin

text \<open>
  A restart: what the account manager knows after \<open>loadFromDB\<close> has read the table of accounts, and who
  can log in then, with a password or automatically.  The account manager is read as a map from names to
  credentials, and loading the table refines one update of that map per row.
\<close>

section \<open>Credentials\<close>

text \<open>The password and the identifier for automatic login that the server holds for a name.\<close>

definition credentials :: "lobby \<Rightarrow> byte list \<rightharpoonup> byte list \<times> byte list" where
  "credentials W name = do {
     a \<leftarrow> account_by_name name W;
     ai \<leftarrow> lb_accounts W a;
     Some (ai_passwd ai, ai_sysOpenId ai)
   }"

lemma credentials_maps:
  "credentials W name = Option.bind (account_by_name name W) (\<lambda>a. map_option (\<lambda>ai. (ai_passwd ai, ai_sysOpenId ai)) (lb_accounts W a))"
  by (simp add: credentials_def map_option_case cong: option.case_cong split: option.splits Option.bind_split)

text \<open>The same from the table: the last row with a name counts.\<close>

definition account_rows :: "lobby_env \<Rightarrow> db_row list" where
  "account_rows E = ge_rows E [Statement ''select * from accounts'' []]"

definition row_credentials :: "db_row list \<Rightarrow> nat \<Rightarrow> byte list \<times> byte list" where
  "row_credentials rows i = (getString rows i ''passwd'', getString rows i ''sys_openid'')"

definition table_credentials :: "db_row list \<Rightarrow> byte list \<rightharpoonup> byte list \<times> byte list" where
  "table_credentials rows =
     map_of (rev (map (\<lambda>i. (getString rows i ''name'', row_credentials rows i)) [0..<length rows]))"

section \<open>Loading\<close>

text \<open>A loop over the rows that makes one update per row.\<close>

lemma rows_update:
  assumes "\<And>i W W' b. P W \<Longrightarrow> body i W = Some (W', Inr b) \<Longrightarrow> P W' \<and> view W' = upd i (view W)"
  shows "P W \<Longrightarrow> each_row body is W = Some (W', Inr b) \<Longrightarrow> P W' \<and> view W' = fold upd is (view W)"
proof (induction "is" arbitrary: W)
  case (Cons i "is")
  then obtain W1 b1 where "body i W = Some (W1, Inr b1)" "each_row body is W1 = Some (W', Inr b)"
    by (auto simp: then_do_def split: option.splits sum.splits)
  with Cons assms show ?case by fastforce
qed (auto simp: returns_def)

lemma fold_map_of: "fold (\<lambda>i m. m(f i \<mapsto> g i)) is m = m ++ map_of (rev (map (\<lambda>i. (f i, g i)) is))"
  by (induction "is" arbitrary: m) (simp_all add: map_add_def fun_eq_iff split: option.splits)

lemma load_account_updates:
  assumes "accounts_inv W" "load_account E rows i W = Some (W', Inr b)"
  shows "accounts_inv W' \<and> credentials W' = (credentials W)(getString rows i ''name'' \<mapsto> row_credentials rows i)"
proof -
  let ?name = "getString rows i ''name''"
  have inv: "accounts_inv W'" using keeps_load_account [OF assms(1), of E rows i] assms(2) by (simp add: keeps_def)
  have ord: "ordered (am_nameMap (lb_am W))" using assms(1) by (simp add: accounts_inv_def leads_to_def)
  obtain ai where w: "lb_accounts W' = (lb_accounts W)(lb_fresh W := Some ai)"
      "am_nameMap (lb_am W') = std_assign ?name (lb_fresh W) (am_nameMap (lb_am W))"
      "(ai_passwd ai, ai_sysOpenId ai) = row_credentials rows i"
    using assms(2) by (fastforce simp: load_account_def get_or_throw_def fresh_def Let_def returns_def throws_def
        put_account_def row_credentials_def split: sum.splits)
  have old: "std_find name (am_nameMap (lb_am W)) \<noteq> Some (lb_fresh W)" for name
    using assms(1) by (fastforce simp: accounts_inv_def leads_to_def)
  have "credentials W' name = ((credentials W)(?name \<mapsto> row_credentials rows i)) name" for name
  proof (cases "name = ?name")
    case False
    then show ?thesis using old [of name]
      by (cases "std_find name (am_nameMap (lb_am W))")
        (auto simp: credentials_def account_by_name_def w(1,2) find_assign [OF ord])
  qed (simp add: credentials_def account_by_name_def w find_assign [OF ord])
  with inv show ?thesis by blast
qed

lemma load_role_keeps_credentials:
  assumes "accounts_inv W" "load_account_role E rows i W = Some (W', Inr b)"
  shows "accounts_inv W' \<and> credentials W' = credentials W"
proof -
  have inv: "accounts_inv W'" using keeps_load_role [OF assms(1), of E rows i] assms(2) by (simp add: keeps_def)
  have "am_nameMap (lb_am W') = am_nameMap (lb_am W)
      \<and> (\<forall>a. map_option (\<lambda>ai. (ai_passwd ai, ai_sysOpenId ai)) (lb_accounts W' a)
             = map_option (\<lambda>ai. (ai_passwd ai, ai_sysOpenId ai)) (lb_accounts W a))"
    using assms(2) by (auto simp: load_account_role_def get_or_throw_def fresh_def Let_def returns_def throws_def
        put_account_def put_info_def bind_eq_Some_conv split: sum.splits option.splits)
  then have "credentials W' = credentials W" by (simp add: credentials_maps fun_eq_iff account_by_name_def)
  with inv show ?thesis by blast
qed

lemma load_credentials:
  assumes "server_init E = Some (W, Inr b)"
  shows "accounts_inv W \<and> credentials W = table_credentials (account_rows E)"
proof -
  let ?rows = "account_rows E"
  obtain W0 where W0: "lb_log W0 = [Statement ''select * from accounts'' []]" "accounts_inv W0" "credentials W0 = Map.empty"
      "then_do (each_row (load_account E ?rows) [0..<length ?rows] W0) (\<lambda>W. do {
         (_, W) \<leftarrow> lobby_execute E ''select * from roles'' [] W;
         let rows = lobby_rows E W;
         each_row (load_account_role E rows) [0..<length rows] W
       }) = Some (W, Inr b)"
  proof
    let ?W0 = "(initial_lobby (le_scenes E))\<lparr>lb_log := [Statement ''select * from accounts'' []]\<rparr>"
    show "lb_log ?W0 = [Statement ''select * from accounts'' []]" by simp
    show "accounts_inv ?W0" by (intro inv_log initial_inv)
    show "credentials ?W0 = Map.empty"
      by (simp add: fun_eq_iff credentials_def account_by_name_def initial_lobby_def std_find_def)
    show "then_do (each_row (load_account E ?rows) [0..<length ?rows] ?W0) (\<lambda>W. do {
         (_, W) \<leftarrow> lobby_execute E ''select * from roles'' [] W;
         let rows = lobby_rows E W;
         each_row (load_account_role E rows) [0..<length rows] W
       }) = Some (W, Inr b)"
      using assms by (simp add: server_init_def accounts_loadFromDB_def lobby_execute_def table_queries_fit lobby_rows_def
          account_rows_def Let_def initial_lobby_def)
  qed
  obtain W1 b1 where W1: "each_row (load_account E ?rows) [0..<length ?rows] W0 = Some (W1, Inr b1)"
      "(do { (_, W) \<leftarrow> lobby_execute E ''select * from roles'' [] W1;
         let rows = lobby_rows E W;
         each_row (load_account_role E rows) [0..<length rows] W }) = Some (W, Inr b)"
    using W0(4) by (auto simp: then_do_def split: option.splits sum.splits)
  have c1: "accounts_inv W1 \<and> credentials W1
      = fold (\<lambda>i m. m(getString ?rows i ''name'' \<mapsto> row_credentials ?rows i)) [0..<length ?rows] (credentials W0)"
    by (rule rows_update [where P = accounts_inv and view = credentials
        and upd = "\<lambda>i m. m(getString (account_rows E) i ''name'' \<mapsto> row_credentials (account_rows E) i)", OF load_account_updates W0(2) W1(1)])
  obtain L where "each_row (load_account_role E L) [0..<length L] (W1\<lparr>lb_log := lb_log W1 @ [Statement ''select * from roles'' []]\<rparr>) = Some (W, Inr b)"
    using W1(2) by (auto simp: lobby_execute_def table_queries_fit Let_def)
  from rows_update [where P = accounts_inv and view = credentials and upd = "\<lambda>_ m. m", OF load_role_keeps_credentials inv_log this] c1
  have "accounts_inv W" "credentials W = fold (\<lambda>_ m. m) [0..<length L] (credentials (W1\<lparr>lb_log := lb_log W1 @ [Statement ''select * from roles'' []]\<rparr>))"
    by auto
  moreover have "fold (\<lambda>_ m. m) xs m = m" for xs :: "nat list" and m :: "byte list \<rightharpoonup> byte list \<times> byte list"
    by (induction xs) auto
  moreover have "credentials (W1\<lparr>lb_log := log\<rparr>) = credentials W1" for log
    by (simp add: fun_eq_iff credentials_def account_by_name_def)
  ultimately show ?thesis using c1 by (simp add: fold_map_of W0(3) table_credentials_def)
qed

text \<open>The list of servers comes from the constructor alone.\<close>

lemma load_keeps_servers:
  "load_account E rows i W = Some (W', Inr b) \<Longrightarrow> lb_servers W' = lb_servers W"
  "load_account_role E rows i W = Some (W', Inr b) \<Longrightarrow> lb_servers W' = lb_servers W"
  by (auto simp: load_account_def load_account_role_def get_or_throw_def fresh_def Let_def returns_def throws_def
      put_account_def put_info_def bind_eq_Some_conv split: sum.splits option.splits)

lemma rows_keep_servers:
  assumes "\<And>i W W' b. body i W = Some (W', Inr b) \<Longrightarrow> lb_servers W' = lb_servers W"
  shows "each_row body is W = Some (W', Inr b) \<Longrightarrow> lb_servers W' = lb_servers W"
proof (induction "is" arbitrary: W)
  case (Cons i "is")
  then show ?case by (auto simp: then_do_def dest!: assms split: option.splits sum.splits)
qed (simp add: returns_def)

lemma tables_keep_servers:
  "each_row (load_account E rows) is W = Some (W', Inr b) \<Longrightarrow> lb_servers W' = lb_servers W"
  "each_row (load_account_role E rows) is W = Some (W', Inr b) \<Longrightarrow> lb_servers W' = lb_servers W"
  using rows_keep_servers [of "load_account E rows"] rows_keep_servers [of "load_account_role E rows"] load_keeps_servers by metis+

lemma initial_servers_stay: "server_init E = Some (W, Inr b) \<Longrightarrow> lb_servers W = initial_servers"
proof -
  have "lb_servers (initial_lobby scenes) = initial_servers" for scenes by (simp add: initial_lobby_def)
  then show "server_init E = Some (W, Inr b) \<Longrightarrow> ?thesis"
    by (auto simp: server_init_def accounts_loadFromDB_def lobby_execute_def table_queries_fit Let_def then_do_def
      dest!: tables_keep_servers
      split: option.splits sum.splits)
qed

section \<open>Logging in after a restart\<close>

lemma login_check_credentials:
  assumes "accounts_inv W"
  shows "map_option (map_sum id (\<lambda>ai. (ai_accountName ai, ai_passwd ai, ai_sysOpenId ai))) (login_check name sid passwd W)
    = Some (case credentials W name of
        None \<Rightarrow> Inl LOGIN_ERROR_ACCOUNT_NON_EXIST
      | Some (pw, openId) \<Rightarrow> if pw \<noteq> passwd then Inl LOGIN_ERROR_NAME_PASSWD_ERROR
          else if get_server sid W = None then Inl LOGIN_ERROR_SERVER_NOT_SELECTED else Inr (name, pw, openId))"
  by (cases "account_by_name name W") (auto simp: login_check_def credentials_def dest!: named_account [OF assms])

lemma auto_login_credentials:
  assumes "accounts_inv W" "getStringVal (str ''Name'') request = Inr name" "getStringVal (str ''SysOpenId'') request = Inr openId"
  shows "\<exists>ai. doAutoLogin E request s W = returns True (send_to s (reply ''AutoLogin''
      (if name \<noteq> [] \<and> openId \<noteq> [] \<and> map_option snd (credentials W name) = Some openId
       then login_body ai 20000 else obj_bool ''Error'' True [])) W)"
  by (cases "account_by_name name W")
    (auto simp: doAutoLogin_def Let_def field_str_def get_or_throw_def assms(2,3) credentials_def dest!: named_account [OF assms(1)])

text \<open>
  C30. After a start, who can log in depends on the table of accounts alone: a name in no row is unknown, the
  password must be the one of the last row with the name, the server 2 or 3, and an automatic login
  succeeds exactly with the value of its column \<open>sys_openid\<close>, if that is not empty.  The program's own
  insert fills the column \<open>sysopen_id\<close>: in the witness the account it wrote logs in with its password,
  and automatically no more.
\<close>
theorem restart_decides_login:
  assumes "server_init E = Some (W, Inr b)"
    and "getStringVal (str ''Name'') request = Inr name" "getStringVal (str ''SysOpenId'') request = Inr openId"
  shows "map_option (map_sum id (\<lambda>ai. (ai_accountName ai, ai_passwd ai, ai_sysOpenId ai))) (login_check name sid passwd W)
      = Some (case table_credentials (account_rows E) name of
          None \<Rightarrow> Inl LOGIN_ERROR_ACCOUNT_NON_EXIST
        | Some (pw, oid) \<Rightarrow> if pw \<noteq> passwd then Inl LOGIN_ERROR_NAME_PASSWD_ERROR
            else if sid \<noteq> 2 \<and> sid \<noteq> 3 then Inl LOGIN_ERROR_SERVER_NOT_SELECTED else Inr (name, pw, oid))
    \<and> (\<exists>ai. doAutoLogin E request s W = returns True (send_to s (reply ''AutoLogin''
          (if name \<noteq> [] \<and> openId \<noteq> [] \<and> map_option snd (table_credentials (account_rows E) name) = Some openId
           then login_body ai 20000 else obj_bool ''Error'' True [])) W))"
proof -
  have W: "accounts_inv W" "credentials W = table_credentials (account_rows E)" using load_credentials [OF assms(1)] by auto
  have server: "(get_server sid W = None) = (sid \<noteq> 2 \<and> sid \<noteq> 3)"
    unfolding get_server_def initial_servers_stay [OF assms(1)] initial_servers_def by (simp add: find_assign ordered_assign std_find_def)
  show ?thesis
    using login_check_credentials [OF W(1), of name sid passwd] auto_login_credentials [OF W(1) assms(2,3), of E s]
    unfolding W(2) server by blast
qed

text \<open>A row as \<open>registerAccount\<close> leaves it.\<close>

definition inserted_row :: "byte list \<Rightarrow> byte list \<Rightarrow> byte list \<Rightarrow> byte list \<Rightarrow> db_row" where
  "inserted_row name passwd token openId =
     [(str ''id'', Some (str ''7'')), (str ''name'', Some name), (str ''passwd'', Some passwd), (str ''account_state'', Some (str ''1'')),
      (str ''register_time'', Some (str ''0'')), (str ''token'', Some token), (str ''sysopen_id'', Some openId)]"

definition one_account :: lobby_env where
  "one_account = accepting\<lparr>ge_casts := \<lparr>lx_int = (\<lambda>s. if s = str ''7'' then Some 7 else None), lx_short = (\<lambda>_. None),
       lx_char = (\<lambda>_. None), lx_double = (\<lambda>_. None)\<rparr>,
     ge_rows := (\<lambda>log. if log = [Statement ''select * from accounts'' []]
                       then [inserted_row (str ''ann'') (str ''pw'') (str ''t'') (str ''o'')] else [])\<rparr>"

definition auto_request :: bobject where
  "auto_request = [(str ''Name'', BValue (V_string (str ''ann'')) None), (str ''SysOpenId'', BValue (V_string (str ''o'')) None)]"

theorem restart_decides_login_witness:
  "\<exists>W. server_init one_account = Some (W, Inr True)
     \<and> map_option (map_sum id (\<lambda>ai. (ai_accountName ai, ai_passwd ai, ai_sysOpenId ai))) (login_check (str ''ann'') 2 (str ''pw'') W)
         = Some (Inr (str ''ann'', str ''pw'', []))
     \<and> doAutoLogin one_account auto_request 0 W
         = returns True (send_to 0 (reply ''AutoLogin'' (obj_bool ''Error'' True [])) W)"
proof -
  have rows: "account_rows one_account = [inserted_row (str ''ann'') (str ''pw'') (str ''t'') (str ''o'')]"
    by (simp add: account_rows_def one_account_def)
  have "getInteger (ge_casts one_account) (account_rows one_account) 0 ''id'' = Inr 7"
    unfolding rows by (simp add: one_account_def) code_simp
  moreover have "ge_rows one_account [Statement ''select * from accounts'' [], roles] = []" for roles
    by (simp add: one_account_def)
  ultimately obtain W where W: "server_init one_account = Some (W, Inr True)"
    using rows by (simp add: server_init_def accounts_loadFromDB_def lobby_execute_def lobby_rows_def table_queries_fit
        load_account_def get_or_throw_def fresh_def then_do_def returns_def Let_def account_rows_def initial_lobby_def put_account_def)
  have table: "table_credentials (account_rows one_account) (str ''ann'') = Some (str ''pw'', [])"
    unfolding rows by code_simp
  have request: "getStringVal (str ''Name'') auto_request = Inr (str ''ann'')"
      "getStringVal (str ''SysOpenId'') auto_request = Inr (str ''o'')"
    by code_simp+
  show ?thesis
    using restart_decides_login [OF W request, where sid = 2 and passwd = "str ''pw''" and s = 0] W unfolding table by (auto simp: str_def)
qed

end
