(* ===== verification/Startup.thy ===== *)
theory Startup
  imports Ring_Threads Templates
begin

text \<open>
  The start of the process (\<open>main.cpp\<close>): how many workers the environment asks for, the threads that
  \<open>main\<close> creates, and what an accepting thread does (\<open>SocketServer::socketAcceptRoutine\<close>).  The
  number of workers then decides what the message queue delivers.  Every \<open>pthread_create\<close> is taken to
  succeed; \<open>main\<close> does not look at its result.
\<close>

section \<open>The environment\<close>

text \<open>\<open>atoi\<close> of the C library; a number that is no \<open>int\<close> has no defined result.\<close>

definition isspace :: "byte \<Rightarrow> bool" where
  "isspace c \<longleftrightarrow> c = 0x20 \<or> 0x09 \<le> c \<and> c \<le> 0x0D"

definition isdigit :: "byte \<Rightarrow> bool" where
  "isdigit c \<longleftrightarrow> 0x30 \<le> c \<and> c \<le> 0x39"

definition decimal_prefix :: "byte list \<Rightarrow> int" where
  "decimal_prefix s = foldl (\<lambda>n c. 10 * n + (uint c - 0x30)) 0 (takeWhile isdigit s)"

definition atoi :: "byte list \<Rightarrow> int option" where
  "atoi s =
     (let n = (case dropWhile isspace s of
         [] \<Rightarrow> 0
       | c # r \<Rightarrow> if c = 0x2D then - decimal_prefix r else if c = 0x2B then decimal_prefix r else decimal_prefix (c # r))
      in if - (2 ^ 31) \<le> n \<and> n < 2 ^ 31 then Some n else None)"

text \<open>\<open>threadCount\<close> after \<open>loadFromEnvironment\<close>; the variable \<open>port\<close> is read and ignored.\<close>

definition loadFromEnvironment :: "(string \<Rightarrow> byte list option) \<Rightarrow> int option" where
  "loadFromEnvironment getenv = (case getenv ''thread_num'' of Some s \<Rightarrow> atoi s | None \<Rightarrow> Some 1)"

section \<open>Threads\<close>

datatype service_type = SERVICE_GATE | SERVICE_SHORT | SERVICE_LONG

datatype thread_entry = WorkerRoutine | AcceptRoutine int service_type

text \<open>
  The threads in the order of their creation; the array of their handles cannot have a negative size.
  The main thread then runs the event loop.
\<close>

definition main_threads :: "(string \<Rightarrow> byte list option) \<Rightarrow> thread_entry list option" where
  "main_threads getenv = do {
     threadCount \<leftarrow> loadFromEnvironment getenv;
     if threadCount < 0 then None
     else Some (replicate (nat threadCount) WorkerRoutine
       @ [AcceptRoutine 20000 SERVICE_GATE, AcceptRoutine 20001 SERVICE_SHORT, AcceptRoutine 20003 SERVICE_LONG])
   }"

text \<open>The main thread is thread 0, the others are numbered as they are created; these pop messages.\<close>

definition worker_ids :: "thread_entry list \<Rightarrow> nat set" where
  "worker_ids ts = {t. 1 \<le> t \<and> t \<le> length ts \<and> ts ! (t - 1) = WorkerRoutine}"

text \<open>
  An accepting thread: the descriptor of its socket, then the results of \<open>accept\<close>, in order.  The
  sessions carry the service type of the thread.  A failed \<open>socket\<close> leaves a null pointer that is
  used, a failed \<open>accept\<close> ends the thread, and failures of \<open>bind\<close> and \<open>listen\<close> are only reported.
\<close>

fun accept_loop :: "service_type \<Rightarrow> int list \<Rightarrow> (int \<times> service_type) list" where
  "accept_loop ty [] = []"
| "accept_loop ty (fd # fds) = (if fd = -1 then [] else (fd, ty) # accept_loop ty fds)"

definition socketAcceptRoutine :: "service_type \<Rightarrow> int \<Rightarrow> int list \<Rightarrow> (int \<times> service_type) list option" where
  "socketAcceptRoutine ty listen fds = (if listen < 0 then None else Some (accept_loop ty fds))"

lemma accept_stops: "accept_loop ty fds = map (\<lambda>fd. (fd, ty)) (takeWhile (\<lambda>fd. fd \<noteq> -1) fds)"
  by (induction fds) auto

section \<open>Delivery\<close>

lemma main_workers:
  assumes "main_threads getenv = Some ts"
  obtains n where "loadFromEnvironment getenv = Some (int n)" "worker_ids ts = {1..n}"
proof -
  obtain k where k: "loadFromEnvironment getenv = Some k" "0 \<le> k"
      "ts = replicate (nat k) WorkerRoutine
        @ [AcceptRoutine 20000 SERVICE_GATE, AcceptRoutine 20001 SERVICE_SHORT, AcceptRoutine 20003 SERVICE_LONG]"
    using assms by (auto simp: main_threads_def bind_eq_Some_conv split: if_splits)
  have "(ts ! (t - 1) = WorkerRoutine) = (t \<le> nat k)" if "1 \<le> t" "t \<le> length ts" for t
  proof (cases "t \<le> nat k")
    case False
    then have "t - 1 = nat k + 0 \<or> t - 1 = nat k + 1 \<or> t - 1 = nat k + 2" using that k(3) by auto
    then have "ts ! (t - 1) \<noteq> WorkerRoutine" unfolding k(3) by (elim disjE) (simp_all only: nth_append length_replicate, simp_all)
    then show ?thesis using False by simp
  qed (use that in \<open>simp add: k(3) nth_append\<close>)
  then have "worker_ids ts = {1..nat k}"
    unfolding worker_ids_def using k(3) by fastforce
  then show ?thesis using k(1,2) that [of "nat k"] by simp
qed

text \<open>Without workers nothing is popped.\<close>

lemma nothing_popped:
  "thread_run {} threads_start T \<Longrightarrow> rt_popped T = [] \<and>
     (\<forall>t. case rt_control T t of Outside \<Rightarrow> True | Storing _ _ \<Rightarrow> True | _ \<Rightarrow> False)"
proof (induction rule: rtranclp_induct)
  case (step T T')
  from step(2) show ?case
  proof cases
    case (Push_call t msg)
    then show ?thesis using step(3) by (simp add: step_defs)
  next
    case (Micro t)
    then show ?thesis using step(3) by (cases "rt_control T t") (auto simp: step_defs dest: spec [of _ t])
  qed simp
qed (simp add: threads_start_def)

definition in_order :: "'m ring_threads \<Rightarrow> bool" where
  "in_order T \<longleftrightarrow> rt_popped T = take (length (rt_popped T)) (rt_tickets T)"

text \<open>
  C18. The variable \<open>thread_num\<close> decides what the queue delivers in its first lap, that is while fewer than
  \<open>QUEUE_SIZE = 8096\<close> pushes have taken a ticket.  In that lap the messages popped are, under every
  interleaving, the first ones pushed in the order of their tickets exactly when \<open>thread_num\<close> is 0 or 1 (1 is
  the default).  With none, as for a value that is no number, nothing ever comes out, in any lap.  With two or
  more, a short run delivers the first message twice and leaves the head one ahead of the tail, and the message
  pushed next is not delivered, however the threads go on, while fewer than \<open>QUEUE_SIZE\<close> messages have been
  pushed and taken.  Behind the first lap even one worker is out of order: it is handed a message again.
\<close>
theorem thread_num_decides_delivery:
  assumes "main_threads getenv = Some ts"
  shows "(\<forall>T :: nat ring_threads. thread_run (worker_ids ts) threads_start T \<and> length (rt_tickets T) < QUEUE_SIZE \<longrightarrow> in_order T)
      = (loadFromEnvironment getenv = Some 0 \<or> loadFromEnvironment getenv = Some 1)
    \<and> (loadFromEnvironment getenv = Some 0 \<longrightarrow>
        (\<forall>T :: nat ring_threads. thread_run (worker_ids ts) threads_start T \<longrightarrow> rt_popped T = []))
    \<and> (loadFromEnvironment getenv \<noteq> Some 0 \<and> loadFromEnvironment getenv \<noteq> Some 1 \<longrightarrow>
        (\<exists>T :: nat ring_threads. thread_run (worker_ids ts) threads_start T \<and> rt_tickets T = [a] \<and> rt_popped T = [a, a]
          \<and> rt_taken T = 2 \<and> (\<forall>t. rt_control T t = Outside)
          \<and> (\<forall>T' b ms. thread_run (worker_ids ts) T T' \<and> rt_tickets T' = a # b # ms \<and> b \<notin> set (a # ms)
               \<and> length (rt_tickets T') < QUEUE_SIZE \<and> rt_taken T' < QUEUE_SIZE \<longrightarrow> b \<notin> set (rt_popped T'))))"
proof -
  obtain n where n: "loadFromEnvironment getenv = Some (int n)" "worker_ids ts = {1..n}"
    using main_workers [OF assms] .
  consider "n = 0" | "n = 1" | "2 \<le> n" by linarith
  then show ?thesis
  proof cases
    case 1
    then show ?thesis using nothing_popped by (auto simp: n in_order_def)
  next
    case 2
    then have "worker_ids ts = {1}" by (simp add: n(2))
    then show ?thesis using worker_run [of 1] worker_prefix [of 1] 2 by (auto simp: n(1) in_order_def)
  next
    case 3
    then have run: "thread_run (worker_ids ts) threads_start (raced a)" by (intro raced_run) (auto simp: n(2))
    have "\<not> in_order (raced a)" "length (rt_tickets (raced a)) < QUEUE_SIZE"
      by (simp_all add: in_order_def raced_state QUEUE_SIZE_def)
    moreover have "b \<notin> set (rt_popped T')" if "thread_run (worker_ids ts) (raced a) T'" "rt_tickets T' = a # b # ms"
      "b \<notin> set (a # ms)" "length (rt_tickets T') < QUEUE_SIZE" "rt_taken T' < QUEUE_SIZE" for T' b ms
      by (rule raced_skips [OF that])
    ultimately show ?thesis
      using run 3 by (intro conjI) (auto simp: n(1) raced_state intro!: exI [of _ "raced a"])
  qed
qed

text \<open>Four workers, and a value that is no number.\<close>

theorem thread_num_decides_delivery_witness:
  "(\<exists>ts T. main_threads [''thread_num'' \<mapsto> str ''4''] = Some ts \<and> thread_run (worker_ids ts) threads_start T
      \<and> rt_tickets T = [7 :: nat] \<and> rt_popped T = [7, 7])
   \<and> (\<exists>ts. main_threads [''thread_num'' \<mapsto> str ''many''] = Some ts
      \<and> (\<forall>T :: nat ring_threads. \<not> (thread_run (worker_ids ts) threads_start T \<and> rt_popped T \<noteq> [])))"
proof -
  have env: "loadFromEnvironment [''thread_num'' \<mapsto> str ''4''] = Some 4" "loadFromEnvironment [''thread_num'' \<mapsto> str ''many''] = Some 0"
    by (simp_all add: loadFromEnvironment_def atoi_def decimal_prefix_def isspace_def isdigit_def str_def)
  obtain ts ts' where "main_threads [''thread_num'' \<mapsto> str ''4''] = Some ts" "main_threads [''thread_num'' \<mapsto> str ''many''] = Some ts'"
    by (simp add: main_threads_def env)
  from this thread_num_decides_delivery [OF this(1), of 7] thread_num_decides_delivery [OF this(2), of 7] show ?thesis
    unfolding env by auto
qed

end
