(* ===== verification/Peer.thy ===== *)
theory Peer
  imports Packet
begin

text \<open>
  The test client of the peer servers (\<open>peer/test.cpp\<close>), which registers a server with the port of the game
  server.  The text of its message comes from the protobuf library and is a parameter here.
\<close>

text \<open>\<open>sendBuffer\<close>: an array of 2048 bytes that nothing guards, and a head in host order.\<close>

definition PEER_BUFFER :: nat where "PEER_BUFFER = 2048"

definition sendBuffer :: "byte list \<Rightarrow> byte list option" where
  "sendBuffer data =
     (let packet = mem32 101 @ mem32 (of_nat (8 + length data)) @ data
      in if length packet \<le> PEER_BUFFER then Some packet else None)"

text \<open>The game server closes a connection whose first bytes are not its own mark.\<close>

lemma unmarked_event:
  assumes "buffer_inv (so_buffer s)" "pending (so_buffer s) = []" "so_open s"
    and "packet_sz \<le> length xs" "length xs < 2048" "take 4 xs \<noteq> verifyKey"
  shows "\<exists>s'. readable_event fuel ps [R_data xs] s = Done (s', 1, None) \<and> \<not> so_open s'"
proof -
  have "\<exists>b. socket_read (so_buffer s) SOCKET_CHUNK [R_data xs] = Done (0, b, []) \<and> buffer_inv b
     \<and> pending b = pending (so_buffer s) @ script_data [R_data xs] \<and> m_protocol b = m_protocol (so_buffer s)"
    by (rule socket_read_chunks) (use assms in \<open>auto simp: MAX_BUFFER_SIZE_def packet_sz_def\<close>)
  then obtain b where b: "socket_read (so_buffer s) SOCKET_CHUNK [R_data xs] = Done (0, b, [])"
      "buffer_inv b" "pending b = xs"
    using assms(2) by auto
  have av: "\<not> readAvailable b < int packet_sz" using assms(4) b(3) by (simp add: available_pending [OF b(2)])
  have raw: "rdn (m_buffer b) (int (unat (m_read b))) packet_sz = Some (take packet_sz xs)"
    using rdn_pending [OF b(2), of 0 packet_sz] assms(4) b(3) by simp
  have "mem32 (pk_sync (head_of_bytes (take packet_sz xs))) = take 4 xs"
    using assms(4) by (simp add: head_of_bytes_def packet_sz_def mem32_of_mem32 min_def)
  then have "parseFromBuffer fuel b = Done (-1, b)"
    using av raw assms(6) by (simp add: parseFromBuffer_def Let_def)
  with b av show ?thesis by (simp add: readable_event_def Let_def)
qed

lemma peer_refused:
  assumes "buffer_inv (so_buffer s)" "pending (so_buffer s) = []" "so_open s"
    and "sendBuffer data = Some packet" "2 \<le> length data" "length packet < 2048"
  shows "\<exists>s'. readable_event fuel ps [R_data packet] s = Done (s', 1, None) \<and> \<not> so_open s'"
proof (rule unmarked_event [OF assms(1-3)])
  have f: "packet = mem32 101 @ mem32 (of_nat (8 + length data)) @ data"
    using assms(4) by (simp add: sendBuffer_def Let_def split: if_splits)
  show "packet_sz \<le> length packet" using assms(5) by (simp add: f packet_sz_def mem32_def)
  show "take 4 packet \<noteq> verifyKey" by (simp add: f mem32_def verifyKey_def)
qed (fact assms(6))

lemma peer_refused_instance:
  "\<exists>packet s'. sendBuffer [0x61, 0x62] = Some packet \<and> readable_event 9 0 [R_data packet] idle_socket = Done (s', 1, None)"
proof -
  have "sendBuffer [0x61, 0x62] = Some (mem32 101 @ mem32 10 @ [0x61, 0x62])"
    by (simp add: sendBuffer_def PEER_BUFFER_def mem32_def)
  with peer_refused [OF idle(1-3) this, of 9 0] show ?thesis by (auto simp: mem32_def)
qed

end
