(* ===== verification/Scene_Facts.thy ===== *)
theory Scene_Facts
  imports Lobby_Facts
begin

text \<open>
  The lobby scene and its raw pointers: a scene keeps the session of each player under the number of the
  role that the account of the token has chosen last, and a session that closes is taken out under the number of
  its own role.  As long as every session enters with its own role the scene only leads to live
  roles; a session that enters with another one stays behind as a pointer to a freed role.
\<close>

section \<open>Sessions that play\<close>

definition playing :: "nat \<Rightarrow> lobby \<Rightarrow> (nat \<times> role_object) option" where
  "playing s W = do {
     ss \<leftarrow> lb_sessions W s;
     r \<leftarrow> ss_role ss;
     ro \<leftarrow> lb_roles W r;
     Some (r, ro)
   }"

definition role_id :: "role_object \<Rightarrow> int" where
  "role_id ro = rl_id (pl_role (ro_player ro))"

definition info_live :: "role_object \<Rightarrow> lobby \<Rightarrow> bool" where
  "info_live ro W \<longleftrightarrow> (case ro_info ro of None \<Rightarrow> False | Some info \<Rightarrow> lb_infos W info \<noteq> None)"

text \<open>Every player in the scene is the session of a live role, under the number of that role.\<close>

definition scene_inv :: "lobby \<Rightarrow> bool" where
  "scene_inv W \<longleftrightarrow> ordered (lb_scenes W)
     \<and> (\<exists>m. get_scene 1 W = Some m \<and> ordered m
          \<and> (\<forall>rid s. (rid, s) \<in> set m \<longrightarrow> (\<exists>r ro. playing s W = Some (r, ro) \<and> ro_scene ro = Some 1 \<and> role_id ro = rid \<and> info_live ro W)))
     \<and> (\<forall>s r ro. playing s W = Some (r, ro) \<longrightarrow> ro_scene ro = None \<or> ro_scene ro = Some 1)
     \<and> (\<forall>s s' r ro ro'. playing s W = Some (r, ro) \<longrightarrow> playing s' W = Some (r, ro') \<longrightarrow> s' = s)"

text \<open>The token names an account that has chosen the role of the session.\<close>

definition own_role :: "nat \<Rightarrow> byte list \<Rightarrow> lobby \<Rightarrow> bool" where
  "own_role s token W = (case playing s W of None \<Rightarrow> False
     | Some (r, ro) \<Rightarrow> (case current_info token W of
           Some (Some (info, ri)) \<Rightarrow> ri_roleId ri = role_id ro \<and> info_live ro W
         | _ \<Rightarrow> False))"

lemma own_roleE:
  assumes "own_role s token W"
  obtains r ro info ri where "playing s W = Some (r, ro)" "current_info token W = Some (Some (info, ri))"
    "ri_roleId ri = role_id ro" "info_live ro W"
  using assms by (auto simp: own_role_def split: option.splits)

section \<open>Steps\<close>

lemma set_insert_iff: "ordered m \<Longrightarrow> set (std_insert k v m) = (if std_find k m = None then insert (k, v) (set m) else set m)"
proof (induction k v m rule: std_insert.induct)
  case (2 k v k' v' es)
  moreover have "k < k' \<Longrightarrow> map_of es k = None" using 2(2) by (intro find_absent) auto
  ultimately show ?case by (auto simp: std_find_def)
qed (simp add: std_find_def)

lemma sent_only:
  "broadcast sid obj self W = Some W' \<Longrightarrow> \<exists>sent. W' = W\<lparr>lb_sent := sent\<rparr>"
  "sendSurrounding sid rid s W = Some W' \<Longrightarrow> \<exists>sent. W' = W\<lparr>lb_sent := sent\<rparr>"
proof -
  have self: "\<exists>sent. W = W\<lparr>lb_sent := sent\<rparr>" for W by (rule exI [of _ "lb_sent W"]) simp
  have all: "\<exists>sent. send_all m obj W = W\<lparr>lb_sent := sent\<rparr>" for m obj W
  proof (induction m obj W rule: send_all.induct)
    case (2 rid s m obj W)
    then show ?case by (auto simp: send_to_def)
  qed (simp add: self)
  have "\<exists>sent. broadcast_loop m obj self W = W\<lparr>lb_sent := sent\<rparr>" for m W
  proof (induction m obj self W rule: broadcast_loop.induct)
    case (2 rid s m obj self W)
    then show ?case using all [of m obj W] by (auto simp: send_to_def)
  qed (simp add: self)
  then show "broadcast sid obj self W = Some W' \<Longrightarrow> \<exists>sent. W' = W\<lparr>lb_sent := sent\<rparr>"
    by (auto simp: broadcast_def)
  show "sendSurrounding sid rid s W = Some W' \<Longrightarrow> \<exists>sent. W' = W\<lparr>lb_sent := sent\<rparr>"
    by (auto simp: sendSurrounding_def bind_eq_Some_conv send_to_def)
qed

lemma sent_keeps [simp]:
  "playing s (W\<lparr>lb_sent := sent\<rparr>) = playing s W" "get_scene sid (W\<lparr>lb_sent := sent\<rparr>) = get_scene sid W"
  "info_live ro (W\<lparr>lb_sent := sent\<rparr>) = info_live ro W" "current_info token (W\<lparr>lb_sent := sent\<rparr>) = current_info token W"
  "surrounding_object s (W\<lparr>lb_sent := sent\<rparr>) = surrounding_object s W"
  by (simp_all add: playing_def get_scene_def info_live_def current_info_def account_by_token_def surrounding_object_def
      session_roleInfo_def cong: option.case_cong)

lemma sent_inv [simp]: "scene_inv (W\<lparr>lb_sent := sent\<rparr>) = scene_inv W"
  by (simp add: scene_inv_def)

text \<open>What an entrant is sent about another player.\<close>

lemma surrounding_live: "playing s W = Some (r, ro) \<Longrightarrow> info_live ro W \<Longrightarrow> surrounding_object s W \<noteq> None"
  by (auto simp: playing_def info_live_def surrounding_object_def session_roleInfo_def bind_eq_Some_conv simp del: not_None_eq split: option.splits)

lemma surrounding_freed:
  "lb_sessions W s = Some ss \<Longrightarrow> ss_role ss = Some r \<Longrightarrow> lb_roles W r = None \<Longrightarrow> surrounding_object s W = None"
  by (simp add: surrounding_object_def session_roleInfo_def)

lemma those_None_iff: "those xs = None \<longleftrightarrow> None \<in> set xs"
  by (induction xs) (auto split: option.splits)

text \<open>The state after a player has entered.\<close>

definition entered :: "nat \<Rightarrow> int \<Rightarrow> nat \<Rightarrow> role_object \<Rightarrow> (int, nat) std_map \<Rightarrow> lobby \<Rightarrow> lobby" where
  "entered s rid r ro m W = set_players 1 (std_insert rid s m) (put_role r (ro\<lparr>ro_scene := Some 1\<rparr>) W)"

lemma surrounding_None_iff:
  "get_scene sid W = Some m \<Longrightarrow> sendSurrounding sid rid s W = None \<longleftrightarrow>
    (\<exists>k s'. (k, s') \<in> set m \<and> k \<noteq> rid \<and> surrounding_object s' W = None)"
proof -
  assume m: "get_scene sid W = Some m"
  have "sendSurrounding sid rid s W = None \<longleftrightarrow>
      those (map (\<lambda>e. surrounding_object (snd e) W) (filter (\<lambda>e. fst e \<noteq> rid) m)) = None"
    by (simp add: sendSurrounding_def m bind_eq_None_conv)
  also have "\<dots> \<longleftrightarrow> (\<exists>e. e \<in> set m \<and> fst e \<noteq> rid \<and> None = surrounding_object (snd e) W)"
    by (simp add: those_None_iff image_iff Bex_def conj_assoc)
  finally show ?thesis by (simp add: split_paired_Ex eq_commute)
qed

lemma enter_steps:
  assumes "getIntVal (str ''SceneId'') request = Inr n" "current_info token W = Some (Some (info, ri))"
    and "playing s W = Some (r, ro)" "get_scene 1 W = Some m" "ordered (lb_scenes W)"
  obtains sent where "doEnterScene E token request s W = do {
      W \<leftarrow> sendSurrounding 1 (ri_roleId ri) s ((entered s (ri_roleId ri) r ro m W)\<lparr>lb_sent := sent\<rparr>);
      returns True W
    }" "get_scene 1 (entered s (ri_roleId ri) r ro m W) = Some (std_insert (ri_roleId ri) s m)"
proof -
  let ?W = "entered s (ri_roleId ri) r ro m W"
  have m: "get_scene 1 ?W = Some (std_insert (ri_roleId ri) s m)"
    using assms(5) by (simp add: entered_def get_scene_def set_players_def put_role_def find_assign)
  obtain W1 where W1: "broadcast 1 (reply ''OtherJoinLobby'' (join_object ri)) (ri_roleId ri) ?W = Some W1"
    using m by (auto simp: broadcast_def)
  then obtain sent where sent: "W1 = ?W\<lparr>lb_sent := sent\<rparr>" using sent_only(1) by blast
  obtain ss where "lb_sessions W s = Some ss" "ss_role ss = Some r" "lb_roles W r = Some ro"
    using assms(3) by (auto simp: playing_def bind_eq_Some_conv)
  moreover have "addPlayer 1 (ri_roleId ri) s (put_role r (ro\<lparr>ro_scene := Some 1\<rparr>) W) = Some ?W"
    using assms(4) by (simp add: addPlayer_def entered_def get_scene_def put_role_def)
  ultimately show ?thesis using assms(1,2,4) W1
    by (intro that [of sent] m) (simp add: doEnterScene_def field_int_def get_or_throw_def sent)
qed

text \<open>Somebody whose role is gone, met by whoever comes next.\<close>

lemma enter_meets_freed:
  assumes "getIntVal (str ''SceneId'') request = Inr n" "current_info token W = Some (Some (info, ri))"
    and "playing s W = Some (r, ro)" "get_scene 1 W = Some m" "ordered (lb_scenes W)" "ordered m"
    and "(rid, s') \<in> set m" "rid \<noteq> ri_roleId ri" "lb_sessions W s' = Some ss'" "ss_role ss' = Some r'" "lb_roles W r' = None"
  shows "doEnterScene E token request s W = None"
proof -
  let ?W = "entered s (ri_roleId ri) r ro m W"
  obtain sent where e: "doEnterScene E token request s W = do {
      W \<leftarrow> sendSurrounding 1 (ri_roleId ri) s (?W\<lparr>lb_sent := sent\<rparr>);
      returns True W
    }" "get_scene 1 ?W = Some (std_insert (ri_roleId ri) s m)"
    by (rule enter_steps [OF assms(1-5)])
  have "r' \<noteq> r" using assms(3,11) by (auto simp: playing_def bind_eq_Some_conv)
  then have "surrounding_object s' ?W = None"
    by (intro surrounding_freed [OF _ assms(10)]) (simp_all add: entered_def set_players_def put_role_def assms(9,11))
  moreover have "(rid, s') \<in> set (std_insert (ri_roleId ri) s m)" using assms(6,7) by (simp add: set_insert_iff)
  ultimately have "sendSurrounding 1 (ri_roleId ri) s (?W\<lparr>lb_sent := sent\<rparr>) = None"
    using assms(8) e(2) by (subst surrounding_None_iff [where m = "std_insert (ri_roleId ri) s m"]) auto
  then show ?thesis by (simp add: e(1))
qed

section \<open>Entering with one's own role\<close>

lemma entered_playing:
  "playing s W = Some (r, ro) \<Longrightarrow> playing s' (entered s rid r ro m W)
    = map_option (\<lambda>(r', ro'). if r' = r then (r, ro\<lparr>ro_scene := Some 1\<rparr>) else (r', ro')) (playing s' W)"
  by (auto simp: playing_def entered_def set_players_def put_role_def bind_eq_Some_conv split: Option.bind_split)

lemma entered_info: "info_live ro' (entered s rid r ro m W) = info_live ro' W"
  by (simp add: info_live_def entered_def set_players_def put_role_def cong: option.case_cong)

lemma same_role [simp]:
  "role_id (ro\<lparr>ro_scene := x\<rparr>) = role_id ro" "info_live (ro\<lparr>ro_scene := x\<rparr>) W = info_live ro W"
  by (simp_all add: role_id_def info_live_def)

lemma scene_player:
  assumes "scene_inv W" "get_scene 1 W = Some m" "(rid, s) \<in> set m"
  obtains r ro where "playing s W = Some (r, ro)" "ro_scene ro = Some 1" "role_id ro = rid" "info_live ro W"
proof -
  have "\<exists>r ro. playing s W = Some (r, ro) \<and> ro_scene ro = Some 1 \<and> role_id ro = rid \<and> info_live ro W"
    using assms(1) unfolding scene_inv_def assms(2) using assms(3) by simp
  then show ?thesis using that by blast
qed

lemma entered_inv:
  assumes "scene_inv W" "playing s W = Some (r, ro)" "get_scene 1 W = Some m" "info_live ro W"
  shows "scene_inv (entered s (role_id ro) r ro m W)"
proof -
  let ?W = "entered s (role_id ro) r ro m W" and ?m = "std_insert (role_id ro) s m"
  note inv = assms(1) [unfolded scene_inv_def]
  have ord: "ordered (lb_scenes W)" "ordered m" using inv assms(3) by auto
  have m: "get_scene 1 ?W = Some ?m" "ordered (lb_scenes ?W)" "ordered ?m"
    using ord by (simp_all add: entered_def get_scene_def set_players_def put_role_def find_assign ordered_assign ordered_insert)
  have "\<exists>r' ro'. playing s' ?W = Some (r', ro') \<and> ro_scene ro' = Some 1 \<and> role_id ro' = rid \<and> info_live ro' ?W"
    if e: "(rid, s') \<in> set ?m" for rid s'
  proof (cases "(rid, s') \<in> set m")
    case True
    then obtain r' ro' where p: "playing s' W = Some (r', ro')" "ro_scene ro' = Some 1" "role_id ro' = rid" "info_live ro' W"
      by (rule scene_player [OF assms(1,3)])
    have "r' = r \<Longrightarrow> s' = s" using inv p(1) assms(2) by metis
    then have "r' = r \<Longrightarrow> ro' = ro" using p(1) assms(2) by simp
    then show ?thesis using p by (auto simp: entered_playing [OF assms(2)] entered_info)
  next
    case False
    then have "rid = role_id ro" "s' = s" using e ord(2) by (auto simp: set_insert_iff split: if_splits)
    then show ?thesis using assms(2,4)
      by (simp add: entered_playing [OF assms(2)] entered_info)
  qed
  moreover have "ro_scene ro1 = None \<or> ro_scene ro1 = Some 1" if "playing s1 ?W = Some (r1, ro1)" for s1 r1 ro1
    using that inv by (auto simp: entered_playing [OF assms(2)] split: if_splits)
  moreover have "s2 = s1" if "playing s1 ?W = Some (r1, ro1)" "playing s2 ?W = Some (r1, ro2)" for s1 s2 r1 ro1 ro2
  proof -
    have "\<exists>ro. playing s3 W = Some (r3, ro)" if "playing s3 ?W = Some (r3, ro3)" for s3 r3 ro3
      using that by (auto simp: entered_playing [OF assms(2)] split: if_splits)
    then show ?thesis using that inv by metis
  qed
  ultimately show ?thesis using m unfolding scene_inv_def by blast
qed

lemma enter_own:
  assumes "scene_inv W" "own_role s token W" "getIntVal (str ''SceneId'') request = Inr n"
  shows "\<exists>W'. doEnterScene E token request s W = Some (W', Inr True) \<and> scene_inv W'"
proof -
  obtain r ro info ri where o: "playing s W = Some (r, ro)" "current_info token W = Some (Some (info, ri))"
      "ri_roleId ri = role_id ro" "info_live ro W"
    by (rule own_roleE [OF assms(2)])
  obtain m where m: "get_scene 1 W = Some m" "ordered (lb_scenes W)" using assms(1) by (auto simp: scene_inv_def)
  let ?W = "entered s (role_id ro) r ro m W"
  obtain sent where e: "doEnterScene E token request s W = do {
      W \<leftarrow> sendSurrounding 1 (role_id ro) s (?W\<lparr>lb_sent := sent\<rparr>);
      returns True W
    }" "get_scene 1 ?W = Some (std_insert (role_id ro) s m)"
    using enter_steps [OF assms(3) o(2,1) m] unfolding o(3) by blast
  have inv: "scene_inv ?W" by (rule entered_inv [OF assms(1) o(1) m(1) o(4)])
  have "surrounding_object s' ?W \<noteq> None" if "(k, s') \<in> set (std_insert (role_id ro) s m)" for k s'
    by (rule scene_player [OF inv e(2) that]) (rule surrounding_live)
  then have "sendSurrounding 1 (role_id ro) s (?W\<lparr>lb_sent := sent\<rparr>) \<noteq> None"
    using e(2) by (subst surrounding_None_iff [where m = "std_insert (role_id ro) s m"]) auto
  then obtain W' where W': "sendSurrounding 1 (role_id ro) s (?W\<lparr>lb_sent := sent\<rparr>) = Some W'" by blast
  then have "scene_inv W'" using sent_only(2) [OF W'] inv by auto
  then show ?thesis by (simp add: e(1) W' returns_def)
qed

section \<open>Closing\<close>

lemma close_effect:
  assumes "playing s W = Some (r, ro)" "lb_sessions W s = Some ss"
    and "ro_scene ro = None \<or> ro_scene ro = Some 1 \<and> get_scene 1 W = Some m" "ordered (lb_scenes W)"
  shows "\<exists>W'. session_close E s W = Some W' \<and> lb_roles W' = (lb_roles W)(r := None)
    \<and> lb_sessions W' = (lb_sessions W)(s := Some (ss\<lparr>ss_open := False\<rparr>)) \<and> lb_infos W' = lb_infos W
    \<and> lb_am W' = lb_am W \<and> lb_accounts W' = lb_accounts W
    \<and> lb_scenes W' = (if ro_scene ro = None then lb_scenes W else std_assign 1 (std_erase (role_id ro) m) (lb_scenes W))"
proof -
  have p: "ss_role ss = Some r" "lb_roles W r = Some ro" using assms(1,2) by (auto simp: playing_def bind_eq_Some_conv)
  let ?W = "put_session s (ss\<lparr>ss_open := False\<rparr>) W"
  show ?thesis
  proof (cases "ro_scene ro")
    case None
    then show ?thesis using assms(2) p
      by (simp add: session_close_def playerOffline_def put_session_def lobby_second_def)
  next
    case (Some sid)
    then have sid: "sid = 1" "get_scene 1 W = Some m" using assms(3) by auto
    let ?W2 = "set_players 1 (std_erase (role_id ro) m) ?W"
    have rem: "removePlayer 1 (role_id ro) ?W = Some ?W2"
      using sid(2) by (simp add: removePlayer_def get_scene_def put_session_def)
    then obtain W3 where W3: "broadcast 1 (reply ''OtherLeaveLobby'' (obj_int ''UserId'' (role_id ro) [])) (-1) ?W2 = Some W3"
      using assms(4) by (auto simp: broadcast_def get_scene_def set_players_def put_session_def find_assign)
    then obtain sent where sent: "W3 = ?W2\<lparr>lb_sent := sent\<rparr>" using sent_only(1) by blast
    have "leaveScene 1 s ?W = Some W3"
      using p rem W3 by (simp add: leaveScene_def role_id_def put_session_def)
    then show ?thesis using assms(2) p Some sid(1)
      by (simp add: session_close_def playerOffline_def sent) (simp add: put_session_def set_players_def lobby_second_def)
  qed
qed

lemma close_inv:
  assumes "scene_inv W" "playing s W = Some (r, ro)"
  obtains W' where "session_close E s W = Some W'" "scene_inv W'"
proof -
  note inv = assms(1) [unfolded scene_inv_def]
  obtain m where m: "get_scene 1 W = Some m" "ordered m" "ordered (lb_scenes W)" using inv by blast
  obtain ss where ss: "lb_sessions W s = Some ss" "ss_role ss = Some r" using assms(2) by (auto simp: playing_def bind_eq_Some_conv)
  have scene: "ro_scene ro = None \<or> ro_scene ro = Some 1" using inv assms(2) by blast
  then obtain W' where W': "session_close E s W = Some W'" "lb_roles W' = (lb_roles W)(r := None)"
      "lb_sessions W' = (lb_sessions W)(s := Some (ss\<lparr>ss_open := False\<rparr>))" "lb_infos W' = lb_infos W"
      "lb_scenes W' = (if ro_scene ro = None then lb_scenes W else std_assign 1 (std_erase (role_id ro) m) (lb_scenes W))"
    using close_effect [OF assms(2) ss(1) _ m(3), of m E] m(1) by auto
  have play: "playing s' W' = (case playing s' W of None \<Rightarrow> None | Some (r', ro') \<Rightarrow> if r' = r then None else Some (r', ro'))" for s'
    using ss by (auto simp: playing_def W'(2,3) split: Option.bind_split option.splits)
  let ?m = "if ro_scene ro = None then m else std_erase (role_id ro) m"
  have m': "get_scene 1 W' = Some ?m" "ordered ?m" "ordered (lb_scenes W')"
    using m by (auto simp: get_scene_def W'(5) find_assign ordered_assign ordered_erase)
  have "\<exists>r' ro'. playing s' W' = Some (r', ro') \<and> ro_scene ro' = Some 1 \<and> role_id ro' = rid \<and> info_live ro' W'"
    if e: "(rid, s') \<in> set ?m" for rid s'
  proof -
    have "(rid, s') \<in> set m" using e by (auto simp: std_erase_def split: if_splits)
    then obtain r' ro' where p: "playing s' W = Some (r', ro')" "ro_scene ro' = Some 1" "role_id ro' = rid" "info_live ro' W"
      by (rule scene_player [OF assms(1) m(1)])
    have "r' \<noteq> r"
    proof
      assume "r' = r"
      then have "s' = s" using inv p(1) assms(2) by metis
      then have "ro' = ro" using p(1) assms(2) by simp
      then show False using e p(2,3) by (auto simp: std_erase_def split: if_splits)
    qed
    moreover have "info_live ro' W' = info_live ro' W" by (simp add: info_live_def W'(4) cong: option.case_cong)
    ultimately show ?thesis using p by (simp add: play)
  qed
  moreover have "ro_scene ro1 = None \<or> ro_scene ro1 = Some 1" if "playing s1 W' = Some (r1, ro1)" for s1 r1 ro1
  proof -
    have "playing s1 W = Some (r1, ro1)" using that by (simp add: play split: option.splits prod.splits if_splits)
    then show ?thesis using inv by blast
  qed
  moreover have "s2 = s1" if "playing s1 W' = Some (r1, ro1)" "playing s2 W' = Some (r1, ro2)" for s1 s2 r1 ro1 ro2
  proof -
    have "\<exists>ro. playing s3 W = Some (r3, ro)" if "playing s3 W' = Some (r3, ro3)" for s3 r3 ro3
      using that by (auto simp: play split: option.splits if_splits)
    then show ?thesis using that inv by metis
  qed
  ultimately have "scene_inv W'" using m' unfolding scene_inv_def by blast
  with W'(1) show ?thesis by (rule that)
qed

text \<open>A walk moves the description of the role and tells the scene.\<close>

lemma positioned [simp]:
  "playing s (put_info info ri W) = playing s W" "get_scene sid (put_info info ri W) = get_scene sid W"
  by (simp_all add: playing_def get_scene_def put_info_def)

lemma position_inv: "scene_inv W \<Longrightarrow> scene_inv (put_info info ri W)"
proof -
  have "info_live ro W \<Longrightarrow> info_live ro (put_info info ri W)" for ro
    by (auto simp: info_live_def put_info_def split: option.splits)
  moreover have "lb_scenes (put_info info ri W) = lb_scenes W" by (simp add: put_info_def)
  ultimately show "scene_inv W \<Longrightarrow> scene_inv (put_info info ri W)"
    unfolding scene_inv_def positioned by (metis (no_types, lifting))
qed

lemma walk_own:
  assumes "scene_inv W" "own_role s token W"
  shows "\<exists>W' v. doAvatarWalk E token request s W = Some (W', v) \<and> scene_inv W'"
proof -
  obtain r ro info ri where o: "playing s W = Some (r, ro)" "current_info token W = Some (Some (info, ri))"
    by (rule own_roleE [OF assms(2)])
  obtain m where m: "get_scene 1 W = Some m" using assms(1) by (auto simp: scene_inv_def)
  have scene: "role_scene s W = Some (ro_scene ro)" using o(1) by (auto simp: playing_def role_scene_def bind_eq_Some_conv)
  have ro: "ro_scene ro = None \<or> ro_scene ro = Some 1" using assms(1) o(1) unfolding scene_inv_def by blast
  have told: "\<exists>W'. broadcast 1 obj self (put_info info ri' W) = Some W' \<and> scene_inv W'" for obj self ri'
  proof -
    obtain W' where W': "broadcast 1 obj self (put_info info ri' W) = Some W'" using m by (auto simp: broadcast_def)
    then show ?thesis using sent_only(1) [OF W'] position_inv [OF assms(1)] by auto
  qed
  show ?thesis
  proof (cases "getDoubleVal (str ''X'') request")
    case (Inr x)
    show ?thesis
    proof (cases "getDoubleVal (str ''Y'') request")
      case (Inr y)
      let ?obj = "reply ''OtherRunInLobby'' (obj_double ''Y'' y (obj_double ''X'' x (obj_int ''Id'' (ri_roleId ri) [])))"
      obtain W' where W': "broadcast 1 ?obj (ri_roleId ri) (put_info info (ri\<lparr>ri_posX := x, ri_posY := y\<rparr>) W) = Some W'" "scene_inv W'"
        using told by blast
      from ro show ?thesis
      proof
        assume "ro_scene ro = None"
        then show ?thesis using assms(1) by (simp add: doAvatarWalk_def o(2) scene get_or_throw_def returns_def \<open>_ = Inr x\<close> Inr)
      next
        assume "ro_scene ro = Some 1"
        then show ?thesis using W' by (simp add: doAvatarWalk_def o(2) scene get_or_throw_def returns_def \<open>_ = Inr x\<close> Inr)
      qed
    qed (use assms(1) Inr in \<open>simp add: doAvatarWalk_def o(2) get_or_throw_def throws_def\<close>)
  qed (use assms(1) in \<open>simp add: doAvatarWalk_def o(2) get_or_throw_def throws_def\<close>)
qed

section \<open>Histories of the scene\<close>

datatype scene_event = Enter nat "byte list" bobject | Walk nat "byte list" bobject | Disconnect nat

definition scene_event :: "lobby_env \<Rightarrow> scene_event \<Rightarrow> lobby \<Rightarrow> lobby option" where
  "scene_event E ev W = (case ev of
      Enter s token request \<Rightarrow> map_option fst (doEnterScene E token request s W)
    | Walk s token request \<Rightarrow> map_option fst (doAvatarWalk E token request s W)
    | Disconnect s \<Rightarrow> session_close E s W)"

fun scene_history :: "lobby_env \<Rightarrow> scene_event list \<Rightarrow> lobby \<Rightarrow> lobby option" where
  "scene_history E [] W = Some W"
| "scene_history E (ev # evs) W = do { W \<leftarrow> scene_event E ev W; scene_history E evs W }"

definition own_event :: "scene_event \<Rightarrow> lobby \<Rightarrow> bool" where
  "own_event ev W = (case ev of
      Enter s token _ \<Rightarrow> own_role s token W
    | Walk s token _ \<Rightarrow> own_role s token W
    | Disconnect s \<Rightarrow> playing s W \<noteq> None)"

text \<open>Every player uses the role its account has chosen, and disconnects once.\<close>

fun own_history :: "lobby_env \<Rightarrow> scene_event list \<Rightarrow> lobby \<Rightarrow> bool" where
  "own_history E [] W = True"
| "own_history E (ev # evs) W =
     (own_event ev W \<and> (case scene_event E ev W of None \<Rightarrow> True | Some W \<Rightarrow> own_history E evs W))"

lemma enter_typed_or_not:
  assumes "scene_inv W" "own_role s token W"
  shows "\<exists>W' v. doEnterScene E token request s W = Some (W', v) \<and> scene_inv W'"
proof (cases "getIntVal (str ''SceneId'') request")
  case (Inl e)
  then show ?thesis using assms(1) by (simp add: doEnterScene_def field_int_def get_or_throw_def throws_def)
next
  case (Inr n)
  then show ?thesis using enter_own [OF assms Inr, of E] by blast
qed

lemma own_event_runs:
  assumes "scene_inv W" "own_event ev W"
  obtains W' where "scene_event E ev W = Some W'" "scene_inv W'"
proof (cases ev)
  case (Enter s token request)
  then show ?thesis using enter_typed_or_not [of W s token E request] assms that by (auto simp: own_event_def scene_event_def)
next
  case (Walk s token request)
  then show ?thesis using walk_own [of W s token E request] assms that by (auto simp: own_event_def scene_event_def)
next
  case (Disconnect s)
  then obtain r ro where "playing s W = Some (r, ro)" using assms(2) by (auto simp: own_event_def)
  from close_inv [OF assms(1) this, of E] Disconnect that show ?thesis by (auto simp: scene_event_def)
qed

section \<open>A second role\<close>

text \<open>Choosing another role changes the account and leaves the session with the role it has.\<close>

lemma choose_again:
  assumes "accounts_inv W" "lb_online W = []" "lb_cached W = []" "playing s W = Some (r, ro)" "ro_attribute ro = Some ra"
    and "token \<noteq> []" "account_by_token token W = Some a" "lb_accounts W a = Some ai" "std_find (sint n) (ai_roles ai) = Some info"
    and "getIntVal (str ''RoleId'') request = Inr n"
  obtains sent ri where "doChooseRole E token request s W = Some ((put_account a (ai\<lparr>ai_current := Some info\<rparr>) W)\<lparr>lb_sent := sent\<rparr>, Inr True)"
    "lb_infos W info = Some ri" "ri_roleId ri = sint n"
proof -
  obtain ri where ri: "lb_infos W info = Some ri" "ri_roleId ri = sint n"
  proof -
    have "account_ok (lb_infos W) ai" using assms(1,8) unfolding accounts_inv_def by blast
    then show ?thesis using assms(9) that unfolding account_ok_def leads_to_def by blast
  qed
  obtain ss where ss: "lb_sessions W s = Some ss" "ss_role ss = Some r" "lb_roles W r = Some ro"
    using assms(4) by (auto simp: playing_def bind_eq_Some_conv)
  let ?W = "put_account a (ai\<lparr>ai_current := Some info\<rparr>) W"
  have W: "lb_sessions ?W = lb_sessions W" "lb_roles ?W = lb_roles W" "lb_online ?W = []" "lb_cached ?W = []" "lb_infos ?W = lb_infos W"
    using assms(2,3) by (simp_all add: put_account_def)
  obtain sent where "choose_answer s ?W = Some (?W\<lparr>lb_sent := sent\<rparr>, Inr True)"
    using ss assms(5) by (simp add: choose_answer_def W send_to_def returns_def)
  moreover have "getPlayer (sint n) ?W = None" by (simp add: getPlayer_def W std_find_def)
  moreover have "loadRole E (sint n) info s ?W = returns True ?W" using ss by (simp add: loadRole_def W)
  ultimately have "doChooseRole E token request s W = Some (?W\<lparr>lb_sent := sent\<rparr>, Inr True)"
    unfolding doChooseRole_def field_int_def get_or_throw_def assms(7,10) Let_def
    using assms(6,8,9) ri by (simp add: W then_do_def returns_def)
  then show ?thesis using that ri by blast
qed

lemma account_keeps [simp]:
  "playing s (put_account a ai W) = playing s W" "get_scene sid (put_account a ai W) = get_scene sid W"
  "info_live ro (put_account a ai W) = info_live ro W" "lb_scenes (put_account a ai W) = lb_scenes W"
  by (simp_all add: playing_def get_scene_def info_live_def put_account_def cong: option.case_cong)

lemma account_inv [simp]: "scene_inv (put_account a ai W) = scene_inv W"
  by (simp add: scene_inv_def)

text \<open>Entering under another number does no harm while the session lasts.\<close>

lemma enter_other:
  assumes "scene_inv W" "playing s W = Some (r, ro)" "get_scene 1 W = Some m" "current_info token W = Some (Some (info, ri))"
    and "getIntVal (str ''SceneId'') request = Inr n" "std_find (ri_roleId ri) m = None"
  obtains sent where "doEnterScene E token request s W = Some ((entered s (ri_roleId ri) r ro m W)\<lparr>lb_sent := sent\<rparr>, Inr True)"
    "get_scene 1 (entered s (ri_roleId ri) r ro m W) = Some (std_insert (ri_roleId ri) s m)"
proof -
  let ?W = "entered s (ri_roleId ri) r ro m W"
  note inv = assms(1) [unfolded scene_inv_def]
  have ord: "ordered (lb_scenes W)" "ordered m" using inv assms(3) by auto
  obtain sent where e: "doEnterScene E token request s W = do {
      W \<leftarrow> sendSurrounding 1 (ri_roleId ri) s (?W\<lparr>lb_sent := sent\<rparr>);
      returns True W
    }" "get_scene 1 ?W = Some (std_insert (ri_roleId ri) s m)"
    by (rule enter_steps [OF assms(5,4,2,3) ord(1)])
  have "surrounding_object s' ?W \<noteq> None" if "(k, s') \<in> set (std_insert (ri_roleId ri) s m)" "k \<noteq> ri_roleId ri" for k s'
  proof -
    have "(k, s') \<in> set m" using that ord(2) by (auto simp: set_insert_iff split: if_splits)
    then obtain r' ro' where "playing s' W = Some (r', ro')" "info_live ro' W"
      by (rule scene_player [OF assms(1,3)])
    then have "\<exists>r1 ro1. playing s' ?W = Some (r1, ro1) \<and> info_live ro1 ?W"
    proof (cases "r' = r")
      case True
      then have "ro' = ro" using \<open>playing s' W = Some (r', ro')\<close> assms(2) by (auto simp: playing_def bind_eq_Some_conv)
      with True \<open>playing s' W = _\<close> \<open>info_live ro' W\<close> show ?thesis by (simp add: entered_playing [OF assms(2)] entered_info)
    qed (simp add: entered_playing [OF assms(2)] entered_info)
    then show ?thesis using surrounding_live by blast
  qed
  then have "sendSurrounding 1 (ri_roleId ri) s (?W\<lparr>lb_sent := sent\<rparr>) \<noteq> None"
    using e(2) by (subst surrounding_None_iff [where m = "std_insert (ri_roleId ri) s m"]) auto
  then obtain W' where W': "sendSurrounding 1 (ri_roleId ri) s (?W\<lparr>lb_sent := sent\<rparr>) = Some W'" by blast
  then obtain sent' where "W' = ?W\<lparr>lb_sent := sent'\<rparr>" using sent_only(2) [OF W'] by auto
  with e W' show ?thesis by (intro that [of sent']) (simp_all add: returns_def)
qed

section \<open>Properties\<close>

text \<open>
  C32. As long as every player enters the lobby and walks in it with the role its session plays, and
  disconnects once, the handlers of no history of entering, walking and disconnecting follow a freed or null
  pointer, and the invariant of the scene is kept: it only leads to sessions of live roles, each under the
  number of its role.  This is a statement on the pointers of the handlers.  An answer is recorded as
  the object handed over; putting it into bytes and sending it is not part of the statement, and a list of
  about a hundred players does run over the buffer there (C31).
\<close>
theorem own_roles_keep_scene:
  assumes "scene_inv W" "own_history E evs W"
  shows "\<exists>W'. scene_history E evs W = Some W' \<and> scene_inv W'"
  using assms
proof (induction evs arbitrary: W)
  case (Cons ev evs)
  then obtain W1 where "scene_event E ev W = Some W1" "scene_inv W1" by (auto elim: own_event_runs [of W ev E])
  with Cons show ?case by simp
qed simp

text \<open>Two players in the lobby: the account of the first has a second role.\<close>

definition a_role_info :: "int \<Rightarrow> role_info" where
  "a_role_info n = \<lparr>ri_roleId = n, ri_level = 1, ri_profession = 1, ri_registerTime = 0, ri_roleName = [0x61], ri_posX = 0, ri_posY = 0\<rparr>"

definition a_role :: "int \<Rightarrow> nat \<Rightarrow> role_object" where
  "a_role n info = new_role_object\<lparr>ro_player := new_player\<lparr>pl_role := new_role\<lparr>rl_id := n\<rparr>\<rparr>, ro_info := Some info,
     ro_attribute := Some (undefined :: role_attribute)\<rparr>"

definition two_players :: lobby where
  "two_players = (initial_lobby [])\<lparr>
     lb_am := (lb_am (initial_lobby []))\<lparr>am_tokenAccountMap := [([1], 10), ([2], 11)]\<rparr>,
     lb_accounts := [10 \<mapsto> new_account\<lparr>ai_token := [1], ai_roles := [(5, 20), (6, 21)], ai_current := Some 20\<rparr>,
                     11 \<mapsto> new_account\<lparr>ai_token := [2], ai_roles := [(7, 22)], ai_current := Some 22\<rparr>],
     lb_infos := [20 \<mapsto> a_role_info 5, 21 \<mapsto> a_role_info 6, 22 \<mapsto> a_role_info 7],
     lb_scenes := [(1, [])],
     lb_sessions := [0 \<mapsto> \<lparr>ss_role = Some 30, ss_open = True\<rparr>, 1 \<mapsto> \<lparr>ss_role = Some 31, ss_open = True\<rparr>],
     lb_roles := [30 \<mapsto> a_role 5 20, 31 \<mapsto> a_role 7 22],
     lb_fresh := 40\<rparr>"

lemma two_players_inv: "scene_inv two_players" "accounts_inv two_players"
  by (auto simp: scene_inv_def two_players_def get_scene_def std_find_def playing_def bind_eq_Some_conv a_role_def new_role_object_def
      split: if_splits)
    (auto simp: accounts_inv_def two_players_def leads_to_def std_find_def initial_lobby_def account_ok_def new_account_def a_role_info_def
      split: if_splits)

theorem own_roles_keep_scene_witness:
  "\<exists>W. scene_history accepting [Enter 0 [1] [], Enter 1 [2] [], Walk 1 [2] [], Disconnect 0, Walk 1 [2] [], Disconnect 1] two_players = Some W
     \<and> scene_inv W"
proof -
  have "own_history accepting [Enter 0 [1] [], Enter 1 [2] [], Walk 1 [2] [], Disconnect 0, Walk 1 [2] [], Disconnect 1] two_players"
    by code_simp
  from own_roles_keep_scene [OF two_players_inv(1) this] show ?thesis .
qed

text \<open>
  C33. A player who chooses a second role of its account, enters the lobby and disconnects leaves the
  server with a pointer to a freed role: the session still plays the first role, the scene files it
  under the number of the second and removes the first.  Whoever enters next follows the pointer.  (The
  maps of online and cached players are never filled by the program.)
\<close>
theorem second_role_crashes_next_entrant:
  assumes "accounts_inv W" "scene_inv W" "lb_online W = []" "lb_cached W = []"
    and "playing s W = Some (r, ro)" "ro_attribute ro = Some ra" "token \<noteq> []" "account_by_token token W = Some a"
    and "lb_accounts W a = Some ai" "std_find (sint n) (ai_roles ai) = Some info" "sint n \<noteq> role_id ro"
    and "get_scene 1 W = Some m" "std_find (sint n) m = None"
    and "own_role s2 token2 W" "s2 \<noteq> s" "account_by_token token2 W = Some a2" "a2 \<noteq> a"
    and "\<And>info2 ri2. current_info token2 W = Some (Some (info2, ri2)) \<Longrightarrow> ri_roleId ri2 \<noteq> sint n"
    and "getIntVal (str ''RoleId'') req1 = Inr n" "getIntVal (str ''SceneId'') req2 = Inr k" "getIntVal (str ''SceneId'') req3 = Inr k2"
  shows "\<exists>W1 W2 W3. doChooseRole E token req1 s W = Some (W1, Inr True) \<and> doEnterScene E token req2 s W1 = Some (W2, Inr True)
    \<and> session_close E s W2 = Some W3 \<and> doEnterScene E token2 req3 s2 W3 = None"
proof -
  obtain sent ri where c: "doChooseRole E token req1 s W = Some ((put_account a (ai\<lparr>ai_current := Some info\<rparr>) W)\<lparr>lb_sent := sent\<rparr>, Inr True)"
      "lb_infos W info = Some ri" "ri_roleId ri = sint n"
    by (rule choose_again [OF assms(1,3-10,19)])
  let ?W1 = "(put_account a (ai\<lparr>ai_current := Some info\<rparr>) W)\<lparr>lb_sent := sent\<rparr>"
  have w1: "scene_inv ?W1" "playing s ?W1 = Some (r, ro)" "get_scene 1 ?W1 = Some m" using assms(2,5,12) by simp_all
  have cur: "current_info token ?W1 = Some (Some (info, ri))"
    using assms(8) c(2) by (simp add: current_info_def account_by_token_def put_account_def)
  have "std_find (ri_roleId ri) m = None" using assms(13) c(3) by simp
  from enter_other [OF w1 cur assms(20) this, of E]
  obtain sent' where e: "doEnterScene E token req2 s ?W1 = Some ((entered s (sint n) r ro m ?W1)\<lparr>lb_sent := sent'\<rparr>, Inr True)"
      "get_scene 1 (entered s (sint n) r ro m ?W1) = Some (std_insert (sint n) s m)"
    unfolding c(3) by blast
  let ?W2 = "(entered s (sint n) r ro m ?W1)\<lparr>lb_sent := sent'\<rparr>" and ?ro = "ro\<lparr>ro_scene := Some 1\<rparr>" and ?m = "std_insert (sint n) s m"
  obtain ss where ss: "lb_sessions W s = Some ss" "ss_role ss = Some r" using assms(5) by (auto simp: playing_def bind_eq_Some_conv)
  have ord: "ordered (lb_scenes W)" "ordered m" using assms(2,12) by (auto simp: scene_inv_def)
  have "playing s ?W2 = Some (r, ?ro)" using w1(2) by (simp add: entered_playing [OF w1(2)])
  moreover have "lb_sessions ?W2 s = Some ss" "ordered (lb_scenes ?W2)"
    using ss ord by (simp_all add: entered_def set_players_def put_role_def put_account_def ordered_assign)
  ultimately obtain W3 where W3: "session_close E s ?W2 = Some W3" "lb_roles W3 = (lb_roles ?W2)(r := None)"
      "lb_sessions W3 = (lb_sessions ?W2)(s := Some (ss\<lparr>ss_open := False\<rparr>))" "lb_infos W3 = lb_infos ?W2" "lb_am W3 = lb_am ?W2"
      "lb_accounts W3 = lb_accounts ?W2" "lb_scenes W3 = std_assign 1 (std_erase (role_id ro) ?m) (lb_scenes ?W2)"
    using close_effect [of s ?W2 r ?ro ss ?m E] e(2) by auto
  obtain r2 ro2 info2 ri2 where o: "playing s2 W = Some (r2, ro2)" "current_info token2 W = Some (Some (info2, ri2))"
    by (rule own_roleE [OF assms(14)])
  have r2: "r2 \<noteq> r" using assms(2,5,15) o(1) unfolding scene_inv_def by metis
  have "current_info token2 W3 = Some (Some (info2, ri2))"
    using o(2) assms(16,17) by (auto simp: current_info_def account_by_token_def W3(4-6) entered_def set_players_def put_role_def
        put_account_def bind_eq_Some_conv split: option.splits)
  moreover have "playing s2 W3 = Some (r2, ro2)"
    using o(1) r2 assms(15) by (auto simp: playing_def bind_eq_Some_conv W3(2,3) entered_def set_players_def put_role_def put_account_def)
  moreover have "get_scene 1 W3 = Some (std_erase (role_id ro) ?m)" "ordered (lb_scenes W3)" "ordered (std_erase (role_id ro) ?m)"
    using ord by (simp_all add: get_scene_def W3(7) find_assign ordered_assign ordered_erase ordered_insert entered_def set_players_def put_role_def)
  moreover have "(sint n, s) \<in> set (std_erase (role_id ro) ?m)" using assms(11,13) ord(2) by (simp add: std_erase_def set_insert_iff)
  moreover have "lb_sessions W3 s = Some (ss\<lparr>ss_open := False\<rparr>)" "lb_roles W3 r = None" by (simp_all add: W3(2,3))
  ultimately have "doEnterScene E token2 req3 s2 W3 = None"
    using assms(18) [OF o(2)] ss(2)
    by (intro enter_meets_freed [OF assms(21), where s' = s and rid = "sint n" and r' = r and ss' = "ss\<lparr>ss_open := False\<rparr>"]) auto
  with c(1) e(1) W3(1) show ?thesis by blast
qed

definition choose_six :: bobject where "choose_six = [(str ''RoleId'', BValue (V_int 6) None)]"

theorem second_role_crashes_next_entrant_witness:
  "\<exists>W1 W2 W3. doChooseRole (undefined :: lobby_env) [1] choose_six 0 two_players = Some (W1, Inr True)
    \<and> doEnterScene undefined [1] [] 0 W1 = Some (W2, Inr True) \<and> session_close undefined 0 W2 = Some W3
    \<and> doEnterScene undefined [2] [] 1 W3 = None"
proof (rule second_role_crashes_next_entrant [OF two_players_inv(2,1)])
  show "playing 0 two_players = Some (30, a_role 5 20)" "own_role 1 [2] two_players"
    by (simp_all add: playing_def two_players_def own_role_def current_info_def account_by_token_def std_find_def a_role_info_def a_role_def
        role_id_def info_live_def)
  show "account_by_token [1] two_players = Some 10" "account_by_token [2] two_players = Some 11"
    by (simp_all add: two_players_def account_by_token_def std_find_def)
  show "lb_accounts two_players 10 = Some (new_account\<lparr>ai_token := [1], ai_roles := [(5, 20), (6, 21)], ai_current := Some 20\<rparr>)"
    "get_scene 1 two_players = Some []"
    by (simp_all add: two_players_def get_scene_def std_find_def)
  show "getIntVal (str ''RoleId'') choose_six = Inr 6" "getIntVal (str ''SceneId'') [] = Inr 0" "getIntVal (str ''SceneId'') [] = Inr 0"
    by code_simp+
qed (auto simp: two_players_def initial_lobby_def a_role_def role_id_def new_role_def std_find_def current_info_def account_by_token_def a_role_info_def)

end
