(* ===== verification/Event_Loop.thy ===== *)
theory Event_Loop
  imports Server
begin

text \<open>
  The loop of the network thread (\<open>EpollServer::epollRoutine\<close>) over the events of each call of
  \<open>epoll_wait\<close>.  It is shown to be a run of the server's steps, to queue the requests of different
  clients in the order of their events, and to stand still when one client leaves it in \<open>read\<close>.
\<close>

section \<open>The loop\<close>

text \<open>
  An event, with what the calls of \<open>read\<close> return while it is handled.  The pointer is the session that
  was registered, and a null pointer is used by the branch that finds it.
\<close>

record epoll_event =
  ev_in :: bool
  ev_out :: bool
  ev_ptr :: "nat option"
  ev_reads :: "sys_read list"

definition epoll_one :: "lobby_env \<Rightarrow> nat \<Rightarrow> epoll_event \<Rightarrow> server \<Rightarrow> server outcome" where
  "epoll_one E fuel ev sv =
     (if ev_in ev then lift_fault (ev_ptr ev) (\<lambda>s. readable E fuel s (ev_reads ev) sv) else Done sv)"

fun epoll_events :: "lobby_env \<Rightarrow> nat \<Rightarrow> epoll_event list \<Rightarrow> server \<Rightarrow> server outcome" where
  "epoll_events E fuel [] sv = Done sv"
| "epoll_events E fuel (ev # evs) sv = bind_outcome (epoll_one E fuel ev sv) (epoll_events E fuel evs)"

text \<open>
  The results of \<open>epoll_wait\<close>, in order: events, an interrupted call, or another error, which ends the
  loop.  When there are no more results the thread waits.
\<close>

datatype epoll_wait = W_events "epoll_event list" | W_eintr | W_error

fun epollRoutine :: "lobby_env \<Rightarrow> nat \<Rightarrow> epoll_wait list \<Rightarrow> server \<Rightarrow> server outcome" where
  "epollRoutine E fuel [] sv = Timeout"
| "epollRoutine E fuel (w # ws) sv =
     (case w of
        W_error \<Rightarrow> Done sv
      | W_eintr \<Rightarrow> epollRoutine E fuel ws sv
      | W_events evs \<Rightarrow> bind_outcome (epoll_events E fuel evs sv) (epollRoutine E fuel ws))"

lemma epoll_events_append:
  "epoll_events E fuel (evs @ evs') sv = bind_outcome (epoll_events E fuel evs sv) (epoll_events E fuel evs')"
  by (induction evs arbitrary: sv) (simp_all add: bind_outcome_def split: outcome.splits)

section \<open>The loop makes steps of the server\<close>

text \<open>
  What the kernel promises of the events of one call: each is for an open session, and no session is
  named twice.
\<close>

definition open_session :: "server \<Rightarrow> nat \<Rightarrow> bool" where
  "open_session sv s \<longleftrightarrow> (\<exists>so. sr_sockets sv s = Some so \<and> so_open so)"

definition genuine :: "epoll_event list \<Rightarrow> server \<Rightarrow> bool" where
  "genuine evs sv \<longleftrightarrow> distinct (map ev_ptr evs) \<and> (\<forall>ev \<in> set evs. \<exists>s. ev_ptr ev = Some s \<and> open_session sv s)"

fun genuine_waits :: "lobby_env \<Rightarrow> nat \<Rightarrow> epoll_wait list \<Rightarrow> server \<Rightarrow> bool" where
  "genuine_waits E fuel [] sv \<longleftrightarrow> True"
| "genuine_waits E fuel (W_events evs # ws) sv \<longleftrightarrow> genuine evs sv
     \<and> (case epoll_events E fuel evs sv of Done sv' \<Rightarrow> genuine_waits E fuel ws sv' | _ \<Rightarrow> True)"
| "genuine_waits E fuel (_ # ws) sv \<longleftrightarrow> genuine_waits E fuel ws sv"

lemma readable_others:
  assumes "readable E fuel s script sv = Done sv'" "s' \<noteq> s"
  shows "sr_sockets sv' s' = sr_sockets sv s'"
  using assms unfolding readable_def
  by (auto simp: Let_def bind_outcome_def lift_fault_def post_def split: option.splits outcome.splits)

lemma genuine_rest:
  assumes "genuine (ev # evs) sv" "epoll_one E fuel ev sv = Done sv1"
  shows "genuine evs sv1"
proof -
  obtain s where s: "ev_ptr ev = Some s" using assms(1) by (auto simp: genuine_def)
  have "sr_sockets sv1 s' = sr_sockets sv s'" if "s' \<noteq> s" for s'
    using assms(2) readable_others [OF _ that] by (auto simp: epoll_one_def s split: if_splits)
  then have "open_session sv1 s' = open_session sv s'" if "s' \<noteq> s" for s'
    using that by (simp add: open_session_def)
  moreover have "s' \<noteq> s" if "ev' \<in> set evs" "ev_ptr ev' = Some s'" for ev' s'
  proof -
    have "Some s' \<in> ev_ptr ` set evs" using that by (metis image_eqI)
    then show ?thesis using assms(1) s by (auto simp: genuine_def)
  qed
  ultimately show ?thesis using assms(1) unfolding genuine_def by (metis distinct.simps(2) list.set_intros(2) list.simps(9))
qed

lemma epoll_one_step:
  assumes "genuine (ev # evs) sv" "epoll_one E fuel ev sv = Done sv1"
  shows "(server_step E fuel)\<^sup>*\<^sup>* sv sv1"
  using assms by (auto simp: epoll_one_def genuine_def open_session_def split: if_splits
      intro: r_into_rtranclp server_step.Readable)

lemma epoll_events_steps:
  "genuine evs sv \<Longrightarrow> epoll_events E fuel evs sv = Done sv' \<Longrightarrow> (server_step E fuel)\<^sup>*\<^sup>* sv sv'"
proof (induction evs arbitrary: sv)
  case (Cons ev evs)
  then obtain sv1 where sv1: "epoll_one E fuel ev sv = Done sv1" "epoll_events E fuel evs sv1 = Done sv'"
    by (auto simp: bind_outcome_def split: outcome.splits)
  with Cons.IH [OF genuine_rest [OF Cons.prems(1) sv1(1)]] epoll_one_step [OF Cons.prems(1) sv1(1)]
  show ?case by (meson rtranclp_trans)
qed simp

lemma epollRoutine_steps:
  "genuine_waits E fuel ws sv \<Longrightarrow> epollRoutine E fuel ws sv = Done sv' \<Longrightarrow> (server_step E fuel)\<^sup>*\<^sup>* sv sv'"
proof (induction ws arbitrary: sv)
  case (Cons w ws)
  show ?case
  proof (cases w)
    case (W_events evs)
    then obtain sv1 where "epoll_events E fuel evs sv = Done sv1" "epollRoutine E fuel ws sv1 = Done sv'"
      using Cons.prems(2) by (auto simp: bind_outcome_def split: outcome.splits)
    with Cons.IH [of sv1] Cons.prems(1) W_events epoll_events_steps [of evs sv E fuel sv1]
    show ?thesis by (simp add: rtranclp_trans)
  qed (use Cons in auto)
qed simp

lemma reachable_steps: "(server_step E fuel)\<^sup>*\<^sup>* sv sv' \<Longrightarrow> reachable E fuel W sv \<Longrightarrow> reachable E fuel W sv'"
  by (induction rule: rtranclp_induct) (auto intro: reachable.Step)

text \<open>
  A whole run of the loop leads from a state the server can reach to one it can reach: what is shown of
  those, like the consistency of the accounts, holds before every call of \<open>epoll_wait\<close> and at the end.
\<close>

lemma epollRoutine_reachable:
  assumes "reachable E fuel W sv" "genuine_waits E fuel ws sv" "epollRoutine E fuel ws sv = Done sv'"
  shows "reachable E fuel W sv'" "accounts_inv W \<Longrightarrow> accounts_inv (sr_lobby sv')"
    "sr_next sv' < QUEUE_SIZE \<Longrightarrow> live_inv sv'"
  using reachable_steps [OF epollRoutine_steps [OF assms(2,3)] assms(1)] reachable_accounts reachable_live by blast+

section \<open>One round of requests\<close>

text \<open>A client whose buffer is empty sends one document.\<close>

definition sends :: "nat \<Rightarrow> server \<Rightarrow> nat \<times> byte list \<times> bobject \<Rightarrow> bool" where
  "sends fuel sv = (\<lambda>(s, xs, obj). (\<exists>so. sr_sockets sv s = Some so \<and> so_open so \<and> buffer_inv (so_buffer so) \<and> pending (so_buffer so) = [])
     \<and> bson_parse fuel xs = Done obj \<and> length xs < 2038)"

definition event_of :: "nat \<times> byte list \<times> bobject \<Rightarrow> epoll_event" where
  "event_of = (\<lambda>(s, xs, obj). \<lparr>ev_in = True, ev_out = False, ev_ptr = Some s, ev_reads = [R_data (packet_of xs)]\<rparr>)"

definition request_of :: "nat \<times> byte list \<times> bobject \<Rightarrow> message" where
  "request_of = (\<lambda>(s, xs, obj). \<lparr>msg_ps = s, msg_request = obj\<rparr>)"

lemma sent_event:
  assumes "sends fuel sv p"
  obtains so where "epoll_one E fuel (event_of p) sv = Done (post (request_of p) (sv\<lparr>sr_sockets := (sr_sockets sv)(fst p := Some so)\<rparr>))"
proof -
  obtain s xs obj where p: "p = (s, xs, obj)" by (cases p)
  with assms obtain so where so: "sr_sockets sv s = Some so" "so_open so" "buffer_inv (so_buffer so)" "pending (so_buffer so) = []"
      and xs: "bson_parse fuel xs = Done obj" "length xs < 2038"
    by (auto simp: sends_def)
  obtain so' where "readable_event fuel s [R_data (packet_of xs)] so = Done (so', 0, Some \<lparr>msg_ps = s, msg_request = obj\<rparr>)"
    using packet_event [OF so(3,4,2) xs] by blast
  then show ?thesis
    by (intro that [of so']) (simp add: p epoll_one_def event_of_def request_of_def readable_def so(1) Let_def)
qed

lemma sends_elsewhere: "fst p' \<noteq> s \<Longrightarrow> sends fuel (post msg (sv\<lparr>sr_sockets := (sr_sockets sv)(s := x)\<rparr>)) p' = sends fuel sv p'"
  by (cases p') (simp add: sends_def post_def)

text \<open>
  The requests of different clients that arrive together are posted in the order of the events, whatever
  the sessions are, and the accounts and scenes are left as they are.
\<close>

lemma round_of_requests:
  assumes "distinct (map fst ps)" "\<forall>p \<in> set ps. sends fuel sv p"
  shows "\<exists>sv'. epoll_events E fuel (map event_of ps) sv = Done sv' \<and> sr_lobby sv' = sr_lobby sv
    \<and> sr_next sv' = sr_next sv + length ps
    \<and> sr_queue sv' = fold ring_push [sr_next sv ..< sr_next sv + length ps] (sr_queue sv)
    \<and> (\<forall>i < length ps. sr_messages sv' (sr_next sv + i) = Some (request_of (ps ! i)))
    \<and> (\<forall>i < sr_next sv. sr_messages sv' i = sr_messages sv i)"
  using assms
proof (induction ps arbitrary: sv)
  case (Cons p ps)
  obtain so where so: "epoll_one E fuel (event_of p) sv = Done (post (request_of p) (sv\<lparr>sr_sockets := (sr_sockets sv)(fst p := Some so)\<rparr>))"
    using sent_event Cons.prems(2) by (metis list.set_intros(1))
  let ?sv1 = "post (request_of p) (sv\<lparr>sr_sockets := (sr_sockets sv)(fst p := Some so)\<rparr>)"
  have "\<forall>p' \<in> set ps. sends fuel ?sv1 p'"
    using Cons.prems by (metis distinct.simps(2) image_eqI list.set_intros(2) list.set_map list.simps(9) sends_elsewhere)
  from Cons.IH [OF _ this] Cons.prems(1) obtain sv' where sv': "epoll_events E fuel (map event_of ps) ?sv1 = Done sv'"
    "sr_lobby sv' = sr_lobby sv" "sr_next sv' = sr_next sv + length (p # ps)"
    "sr_queue sv' = fold ring_push [Suc (sr_next sv) ..< sr_next sv + length (p # ps)] (ring_push (sr_next sv) (sr_queue sv))"
    "\<forall>i < length ps. sr_messages sv' (Suc (sr_next sv) + i) = Some (request_of (ps ! i))"
    "\<forall>i < Suc (sr_next sv). sr_messages sv' i = sr_messages ?sv1 i"
    by (auto simp: post_def)
  have "sr_messages sv' (sr_next sv + i) = Some (request_of ((p # ps) ! i))" if "i < length (p # ps)" for i
    using sv'(5,6) that by (cases i) (auto simp: post_def)
  moreover have "sr_messages sv' i = sr_messages sv i" if "i < sr_next sv" for i
    using sv'(6) that by (simp add: post_def)
  moreover have "[sr_next sv ..< sr_next sv + length (p # ps)] = sr_next sv # [Suc (sr_next sv) ..< sr_next sv + length (p # ps)]"
    by (rule upt_conv_Cons) simp
  ultimately show ?case using sv'(1-4) so by auto
qed simp

text \<open>They are entered behind what the queue holds, while it has room in its first lap.\<close>

lemma fold_push_first_lap:
  "first_lap q \<Longrightarrow> length xs \<le> ring_room q \<Longrightarrow> first_lap (fold ring_push xs q) \<and> ring_entries (fold ring_push xs q) = ring_entries q @ xs"
proof (induction xs arbitrary: q)
  case (Cons x xs)
  then show ?case using push_first_lap [of q x] by simp
qed simp

section \<open>A client that stops everybody\<close>

text \<open>
  The sockets block: after a chunk that fills the block of the read loop, from one client, the
  loop waits in \<open>read\<close> for that client; the events behind it and every later one are not handled.
\<close>

lemma full_chunk_stops_loop:
  assumes "epoll_events E fuel before sv = Done sv1"
    and "sr_sockets sv1 s = Some so" "buffer_inv (so_buffer so)" "pending (so_buffer so) = []" "length xs = 2048"
  shows "epollRoutine E fuel (W_events (before @ \<lparr>ev_in = True, ev_out = b, ev_ptr = Some s, ev_reads = [R_data xs]\<rparr> # behind) # ws) sv = Timeout"
  using full_chunk_stalls [OF assms(2-)] assms(1) by (simp add: epoll_events_append epoll_one_def)

lemma null_session_faults:
  "epollRoutine E fuel (W_events (\<lparr>ev_in = True, ev_out = b, ev_ptr = None, ev_reads = rs\<rparr> # evs) # ws) sv = Fault"
  by (simp add: epoll_one_def)

text \<open>Two clients connect and ask for the servers in one round; the loop then ends with an error.\<close>

lemma idle_session:
  "sends 20 (accept_session (replicate MAX_BUFFER_SIZE 0) sv) (lb_fresh (sr_lobby sv), load_document, load_received)"
  using load_parse by (simp add: sends_def accept_session_def fresh_def fresh_socket)

lemma session_kept: "fst p \<noteq> lb_fresh (sr_lobby sv) \<Longrightarrow> sends fuel (accept_session mem sv) p = sends fuel sv p"
  by (cases p) (simp add: sends_def accept_session_def fresh_def)

lemma round_of_requests_instance:
  defines "open1 \<equiv> accept_session (replicate MAX_BUFFER_SIZE 0) :: server \<Rightarrow> server"
  defines "ps \<equiv> \<lambda>W. [(lb_fresh W, load_document, load_received), (Suc (lb_fresh W), load_document, load_received)]"
  shows "\<exists>sv. epollRoutine E 20 [W_eintr, W_events (map event_of (ps W)), W_error] (open1 (open1 (boot W))) = Done sv
     \<and> ring_entries (sr_queue sv) = [0, 1] \<and> map (sr_messages sv) [0, 1] = map (Some \<circ> request_of) (ps W)"
proof -
  let ?sv = "open1 (open1 (boot W))"
  have next1: "lb_fresh (sr_lobby (open1 (boot W))) = Suc (lb_fresh W)"
    by (simp add: open1_def accept_session_def fresh_def boot_def put_session_def)
  have "sends 20 ?sv p" if "p \<in> set (ps W)" for p
    using that idle_session [of "boot W"] idle_session [of "open1 (boot W)"] next1
    by (auto simp: ps_def open1_def session_kept boot_def)
  moreover have start: "sr_next ?sv = 0" "sr_queue ?sv = new_ring"
    by (simp_all add: open1_def accept_session_def fresh_def boot_def)
  ultimately obtain sv where sv: "epoll_events E 20 (map event_of (ps W)) ?sv = Done sv"
      "sr_queue sv = fold ring_push [0 ..< 2] new_ring" "\<forall>i < 2. sr_messages sv i = Some (request_of (ps W ! i))"
    using round_of_requests [of "ps W" 20 ?sv E] by (auto simp: ps_def numeral_2_eq_2)
  have "length [0 ..< 2] \<le> ring_room new_ring" by (simp add: new_first_lap(2) QUEUE_SIZE_def)
  from fold_push_first_lap [OF new_first_lap(1) this] have "ring_entries (sr_queue sv) = [0, 1]"
    by (simp add: sv(2) new_first_lap(3) numeral_2_eq_2)
  with sv(1,3) show ?thesis by (auto simp: ps_def)
qed

end
