(* ===== verification/Spec2Isabelle.thy ===== *)
theory Spec2Isabelle
  imports Bson_Props Md5 Bcon_Print CBson_Props CBson_Typing Packet Ring_Queue Server Lobby_Facts Bag_Sorting Soul_Facts Csv_Facts Database_Facts Client_Props Ring_Threads Protobuf Replies Restart Startup Peer Scene_Facts Event_Loop
begin

text \<open>
  A verification development for the windnet game server: a C++ server of an online game with the C
  library it encodes its messages with.

  \<^bold>\<open>How the program works.\<close>  A client sends packets: ten bytes of head and a masked BSON document.  The network
  thread (\<open>epoll_server.cpp\<close>) reads them into the buffer of the session (\<open>socket.cpp\<close>, \<open>buffer.cpp\<close>,
  \<open>bson_buffer.cpp\<close>), parses the document to an object (\<open>bson/bson_parser.cpp\<close> over \<open>bson/bson/bson.c\<close>) and pushes
  a message into a ring (\<open>ring_queue.cpp\<close>).  A worker thread (\<open>thread.cpp\<close>) pops it, and the dispatcher
  (\<open>servlet.cpp\<close>) hands it to one of the servlets, which work on the shared managers, on the role of the
  session with its bags, and on the database, and send objects back the same way.

  \<^bold>\<open>The library.\<close>  \<open>Prelude\<close> holds bytes, words and blocks of memory, the outcomes of loops, and two's
  complement on \<open>int\<close>; \<open>Std_Map\<close> the ordered map of the C++ library with its laws as the locale
  \<open>dictionary\<close>; \<open>Handlers\<close> the rules for request handlers.

  \<^bold>\<open>BSON.\<close>  \<open>Endian\<close>, \<open>Bson_Types\<close>, \<open>Utf8\<close> (\<open>encoding.c\<close>), \<open>Numbers\<close> and \<open>Oid\<close> (\<open>numbers.c\<close>), \<open>Bson_Build\<close> and
  \<open>Bson_Read\<close> (\<open>bson.c\<close>) follow the library function by function; a builder is the record \<open>bson\<close>, whose block is a
  byte list, and a write outside it is \<open>None\<close>.  \<open>Build_Safety\<close> shows the bounds of every builder call,
  \<open>Build_Spec\<close> that it implements an abstract document machine, \<open>Build_Complete\<close> that calls with room
  succeed, \<open>Bson_Doc\<close>, \<open>Bson_Roundtrip\<close> and \<open>Bson_Props\<close> that what is built is read back: \<open>Bson_Walk\<close> is the
  walk of a caller over a block with the iterator and the typed accessors, which returns the tree.  \<open>Md5\<close> (\<open>md5.c\<close>) shows
  the streamed digest to be that of the padded message, \<open>Bcon\<close> (\<open>bcon.c\<close>) the compiler of token arrays
  to build the document they denote, \<open>Bcon_Print\<close> the printer of such arrays, and \<open>Bson_Parser\<close> models the objects of the server.  \<open>CBson\<close>
  (\<open>bson/CBson.cpp\<close>, \<open>bson/CBsonObject.cpp\<close>) are the documents of linked objects a client uses, over a heap
  that maps addresses to cells: \<open>CBson_Facts\<close> relates a document to the exact cells that hold it,
  \<open>CBson_Props\<close> shows what parsing, saving and destroying do with them, \<open>CBson_Typing\<close> that the tags of the
  unions are true.

  \<^bold>\<open>The wire.\<close>  \<open>Net_Buffer\<close>, \<open>Packet\<close> and \<open>Ring_Queue\<close>: what a sender frames the receiver parses, in whatever
  chunks it arrives; the ring is a queue until its slots have been used once.  \<open>Ring_Threads\<close> takes the calls apart into
  single accesses of several threads: one worker still sees a queue and can always empty it, two do not.  \<open>Startup\<close>
  holds the threads that \<open>main.cpp\<close> starts, and that the variable \<open>thread_num\<close> decides which of the two it is.  \<open>Protobuf\<close> is the
  unfinished cursor block of \<open>protocol/protobuf.cpp\<close>.

  \<^bold>\<open>Game data and players.\<close>  \<open>Templates\<close> and \<open>Datasets\<close> load the tables of \<open>dataset/\<close> (\<open>Csv_Facts\<close>: the reader reads
  back what was written).  \<open>Database\<close> is the connection class (\<open>mysql/dbconnection.cpp\<close>): a statement is
  formatted into 1024 bytes, and one that does not fit is a fault of whoever executes it.  \<open>Game_State\<close> is
  the state of one player with the log of the statements it has sent; \<open>Item_Bag\<close>, \<open>Item_Servlet\<close> and \<open>Souls\<close> are the bags and the requests on them.  \<open>Item_Facts\<close>,
  \<open>Bag_Sorting\<close> and \<open>Soul_Facts\<close> show what the requests keep of the goods, and where they lose them: two
  stacks of \<open>2 ^ 15\<close> pieces together overflow when they are merged, and a sort cuts a bag that has grown
  to its default number of cells.

  \<^bold>\<open>The server.\<close>  \<open>Accounts\<close> is the shared state (accounts, roles, sessions, scenes) with its managers, \<open>Lobby\<close> the
  other servlets and the dispatcher, \<open>Lobby_Facts\<close> the consistency of the account maps and the login, \<open>Restart\<close> what the
  accounts are after the table has been loaded again, \<open>Scene_Facts\<close> that a scene of raw pointers is safe while everyone uses
  their own role, and not otherwise.
  A handler of a session whose role is gone runs up to its first use of the role, and no further.
  A handler leaves its reply as an object, so a handler that returns says nothing of the bytes; \<open>Replies\<close> takes it to the wire, with the three sizes a reply can have.
  \<open>Database_Facts\<close> shows that the connection answers the log of statements as the requests assume.
  \<open>Server\<close> puts the parts together: a step relation of accepted connections, readable events and worker
  rounds, with the states it reaches; \<open>Event_Loop\<close> is the loop of the network thread around the events, and a run of
  it is a run of those steps.

  \<^bold>\<open>The clients.\<close>  \<open>Client\<close> holds what the programs under \<open>client_test/\<close> send: requests built from objects and
  framed like the answers of the server, and requests built from linked documents with a framing of their own.
  \<open>Client_Props\<close> runs them against the server: the first kind is served from packet to answer, the second
  takes it down.  \<open>Peer\<close> is the packet of \<open>peer/test.cpp\<close>, which the game server refuses.

  \<^bold>\<open>Conventions.\<close>  \<open>None\<close>, or \<open>Fault\<close> where a loop is bounded by fuel, is an access to a null, freed or
  out-of-range object; exceptions are values of \<open>cxx_exception\<close>.  Objects behind pointers live in stores
  indexed by addresses.  Fuel is a bound on rounds and every property that speaks of a result shows which
  bound is enough: \<open>doc_fuel\<close> of a document for its reader, the length of the block for a search, two
  rounds per item for a sort.  The answers of the database, the clock, random numbers and identifiers, the numeric conversions of
  the C++ libraries, \<open>malloc\<close> and what the network delivers are parameters.

  \<^bold>\<open>Not modelled.\<close>  The generated protobuf classes, which the server does not use; the PostgreSQL wrappers (\<open>pq\<close> has
  declarations only, \<open>pq_shc\<close> does not compile); \<open>protocol/packet.cpp\<close>, which does not compile; \<open>bson-dev\<close>, a copy of
  the BSON library with an unfinished parser; the inside of the MySQL client; logging, locks and pools,
  which nothing calls.  In \<open>Server\<close> an accepted connection, an event and a worker round are single steps; only for the queue are the
  accesses of the threads interleaved (\<open>Ring_Threads\<close>, in the order of the program, as \<open>x86\<close> keeps it).
\<close>

end
